(* ===== verification/Prelude.thy ===== *)
theory Prelude
  imports Main "HOL-Library.Multiset" "HOL-Library.Monad_Syntax"
    "HOL-Library.List_Lexorder" "HOL-Library.Char_ord"
begin

text \<open>
  What every theory of this library shares: the Go values the model is built from
  (fixed-width integers with their wrap-around, instants and durations of the package
  \<open>time\<close>, \<open>sort.Slice\<close> of the package \<open>sort\<close>) and the generic
  facts on lists, options and sums that the component theories use.

  Conventions. A Go pointer or \<open>optional.Optional\<close> that may be absent is an
  \<open>option\<close>. A Go function that may panic returns an \<open>option\<close> whose
  \<open>None\<close> is the panic. A Go function that returns a Go \<open>error\<close>
  returns a sum whose \<open>Inl\<close> is the error. A Go map is a list of key/value pairs with
  distinct keys, in the (unspecified) order in which a range loop happens to visit it;
  theorems quantify over that list, hence over the order.
\<close>

named_theorems go_simps \<open>unfolding rules for the Go run-time operations\<close>
named_theorems bounds_simps \<open>arithmetic without overflow\<close>

section \<open>Fixed-width signed integers\<close>

type_synonym int32 = int
type_synonym int64 = int

text \<open>The two's complement value of the low 32 (64) bits: what a Go conversion to
  \<open>int32\<close> (\<open>int64\<close>) and every operation on such values gives.\<close>

definition i32 :: "int \<Rightarrow> int32" where
  "i32 x = (x + 2147483648) mod 4294967296 - 2147483648"

definition i64 :: "int \<Rightarrow> int64" where
  "i64 x = (x + 9223372036854775808) mod 18446744073709551616 - 9223372036854775808"

definition MaxInt32 :: int where "MaxInt32 = 2147483647"
definition MaxInt64 :: int where "MaxInt64 = 9223372036854775807"
definition MinInt64 :: int where "MinInt64 = - 9223372036854775808"

definition is_int32 :: "int \<Rightarrow> bool" where
  "is_int32 x \<longleftrightarrow> - 2147483648 \<le> x \<and> x \<le> 2147483647"

definition is_int64 :: "int \<Rightarrow> bool" where
  "is_int64 x \<longleftrightarrow> - 9223372036854775808 \<le> x \<and> x \<le> 9223372036854775807"

lemma i32_id [bounds_simps]: "is_int32 x \<Longrightarrow> i32 x = x"
  by (simp add: is_int32_def i32_def)

lemma i64_id [bounds_simps]: "is_int64 x \<Longrightarrow> i64 x = x"
  by (simp add: is_int64_def i64_def)

lemma is_int32_i32 [simp]: "is_int32 (i32 x)"
proof -
  have "0 \<le> (x + 2147483648) mod 4294967296" "(x + 2147483648) mod 4294967296 < 4294967296"
    by simp_all
  then show ?thesis unfolding is_int32_def i32_def by linarith
qed

lemma i32_mod [simp]: "i32 x mod 4294967296 = x mod 4294967296"
  by (simp add: i32_def mod_diff_left_eq)

lemma i32_eq_iff: "i32 x = i32 y \<longleftrightarrow> x mod 4294967296 = y mod 4294967296"
proof
  assume "i32 x = i32 y"
  then show "x mod 4294967296 = y mod 4294967296" by (metis i32_mod)
next
  assume "x mod 4294967296 = y mod 4294967296"
  then have "(x + 2147483648) mod 4294967296 = (y + 2147483648) mod 4294967296"
    by (intro mod_add_cong) auto
  then show "i32 x = i32 y" by (simp add: i32_def)
qed

text \<open>Inner conversions are absorbed by outer ones: a chain of wrapping additions is one
  wrap of the exact sum.\<close>

lemma i32_absorb [simp]:
  "i32 (i32 x) = i32 x"
  "i32 (i32 x + y) = i32 (x + y)" "i32 (x + i32 y) = i32 (x + y)"
  "i32 (i32 x - y) = i32 (x - y)" "i32 (x - i32 y) = i32 (x - y)"
  by (simp_all only: i32_eq_iff i32_mod)
    (rule mod_add_cong mod_diff_cong; simp only: i32_mod)+

lemma i64_mod: "i64 x mod 18446744073709551616 = x mod 18446744073709551616"
  by (simp add: i64_def mod_diff_left_eq)

lemma i64_eq_iff: "i64 x = i64 y \<longleftrightarrow> x mod 18446744073709551616 = y mod 18446744073709551616"
proof
  assume "i64 x = i64 y"
  then show "x mod 18446744073709551616 = y mod 18446744073709551616" by (metis i64_mod)
next
  assume "x mod 18446744073709551616 = y mod 18446744073709551616"
  then have "(x + 9223372036854775808) mod 18446744073709551616 = (y + 9223372036854775808) mod 18446744073709551616"
    by (intro mod_add_cong) auto
  then show "i64 x = i64 y" by (simp add: i64_def)
qed

lemma i64_absorb:
  "i64 (i64 x) = i64 x"
  "i64 (i64 x + y) = i64 (x + y)" "i64 (x + i64 y) = i64 (x + y)"
  "i64 (i64 x - y) = i64 (x - y)" "i64 (x - i64 y) = i64 (x - y)"
  by (simp_all only: i64_eq_iff i64_mod)
    (rule mod_add_cong mod_diff_cong; simp only: i64_mod)+

lemma i64_absorb_replace: "i64 (i64 x - y + z) = i64 (x - y + z)"
  by (metis i64_absorb(2,4))

section \<open>Instants and durations\<close>

text \<open>An instant is the number of nanoseconds since Go's zero time (1 January of year 1),
  so the zero value of \<open>time.Time\<close> is \<open>0\<close>. A duration is an \<open>int64\<close>
  number of nanoseconds; \<open>Time.Sub\<close> saturates.\<close>

type_synonym gotime = int
type_synonym duration = int

definition time_IsZero :: "gotime \<Rightarrow> bool" where "time_IsZero t \<longleftrightarrow> t = 0"

definition time_Sub :: "gotime \<Rightarrow> gotime \<Rightarrow> duration" where
  "time_Sub a b = max MinInt64 (min MaxInt64 (a - b))"

text \<open>Go's integer division truncates towards zero.\<close>

definition quot :: "int \<Rightarrow> int \<Rightarrow> int" where
  "quot a b = sgn a * sgn b * (\<bar>a\<bar> div \<bar>b\<bar>)"

definition rem :: "int \<Rightarrow> int \<Rightarrow> int" where
  "rem a b = a - quot a b * b"

definition Milliseconds :: "duration \<Rightarrow> int64" where
  "Milliseconds d = quot d 1000000"

definition Second :: duration where "Second = 1000000000"
definition Millisecond :: duration where "Millisecond = 1000000"

section \<open>The contract of \<open>sort.Slice\<close>\<close>

text \<open>
  \<open>sort.Slice\<close> takes a comparison and sorts in place; it is not stable, so the order
  of elements that compare equal is not determined. The model takes the sorting routine as
  an argument; what it documents is the following: the result is a permutation, and it is
  sorted whenever the comparison is a strict weak order on the elements.
\<close>

type_synonym 'a sorter = "('a \<Rightarrow> 'a \<Rightarrow> bool) \<Rightarrow> 'a list \<Rightarrow> 'a list"

definition strict_weak_on :: "'a set \<Rightarrow> ('a \<Rightarrow> 'a \<Rightarrow> bool) \<Rightarrow> bool" where
  "strict_weak_on A lt \<longleftrightarrow>
     (\<forall>x\<in>A. \<not> lt x x)
   \<and> (\<forall>x\<in>A. \<forall>y\<in>A. \<forall>z\<in>A. lt x y \<longrightarrow> lt y z \<longrightarrow> lt x z)
   \<and> (\<forall>x\<in>A. \<forall>y\<in>A. \<forall>z\<in>A. \<not> lt x y \<longrightarrow> \<not> lt y z \<longrightarrow> \<not> lt x z)"

locale slice_sorter =
  fixes srt :: "'a sorter"
  assumes srt_mset: "mset (srt lt xs) = mset xs"
    and srt_sorted: "strict_weak_on (set xs) lt \<Longrightarrow>
      sorted_wrt (\<lambda>x y. \<not> lt y x) (srt lt xs)"
begin

lemma srt_set [simp]: "set (srt lt xs) = set xs"
  using srt_mset by (metis set_mset_mset)

lemma srt_length [simp]: "length (srt lt xs) = length xs"
  using srt_mset by (metis size_mset)

lemma srt_Nil [simp]: "srt lt [] = []"
  using srt_length[of lt "[]"] by (simp del: srt_length)

lemma srt_eq_Nil [simp]: "srt lt xs = [] \<longleftrightarrow> xs = []"
  by (metis length_0_conv srt_length)

lemma srt_by_key:
  fixes key :: "'a \<Rightarrow> 'k::linorder"
  shows "sorted (map key (srt (\<lambda>x y. key x < key y) xs))"
proof -
  have "strict_weak_on (set xs) (\<lambda>x y. key x < key y)"
    by (auto simp: strict_weak_on_def)
  from srt_sorted[OF this] show ?thesis
    by (simp add: sorted_map sorted_wrt_iff_nth_less not_less)
qed

end

text \<open>Go's own \<open>insertionSort_func\<close>, which \<open>sort.Slice\<close> runs on short
  slices: each element moves left past the elements it is smaller than.\<close>

fun insert_left :: "('a \<Rightarrow> 'a \<Rightarrow> bool) \<Rightarrow> 'a \<Rightarrow> 'a list \<Rightarrow> 'a list" where
  "insert_left lt x [] = [x]"
| "insert_left lt x (y # ys) = (if lt x y then y # insert_left lt x ys else x # y # ys)"

definition insertion_sort :: "'a sorter" where
  "insertion_sort lt xs = rev (foldl (\<lambda>acc x. insert_left lt x acc) [] xs)"

lemma mset_insert_left [simp]: "mset (insert_left lt x ys) = add_mset x (mset ys)"
  by (induction ys) auto

lemma mset_insertion_acc:
  "mset (foldl (\<lambda>acc x. insert_left lt x acc) acc xs) = mset acc + mset xs"
  by (induction xs arbitrary: acc) auto

lemma set_insert_left [simp]: "set (insert_left lt x ys) = insert x (set ys)"
  by (induction ys) auto

lemma insert_left_sorted:
  assumes "strict_weak_on A lt" "insert x (set ys) \<subseteq> A"
    and "sorted_wrt (\<lambda>u v. \<not> lt u v) ys"
  shows "sorted_wrt (\<lambda>u v. \<not> lt u v) (insert_left lt x ys)"
  using assms
proof (induction ys)
  case (Cons y ys)
  show ?case
  proof (cases "lt x y")
    case True
    moreover have "x \<in> A" "y \<in> A" using Cons.prems by auto
    ultimately have "\<not> lt y x" using Cons.prems(1) unfolding strict_weak_on_def by metis
    with True Cons show ?thesis by simp
  next
    case False
    have "\<not> lt x z" if z: "z \<in> set ys" for z
    proof -
      have "\<not> lt y z" and "x \<in> A" "y \<in> A" "z \<in> A" using Cons.prems z by auto
      with False Cons.prems(1) show ?thesis unfolding strict_weak_on_def by metis
    qed
    with False Cons.prems show ?thesis by simp
  qed
qed simp

lemma insertion_acc_sorted:
  assumes "strict_weak_on A lt" "set acc \<union> set xs \<subseteq> A"
    and "sorted_wrt (\<lambda>u v. \<not> lt u v) acc"
  shows "sorted_wrt (\<lambda>u v. \<not> lt u v) (foldl (\<lambda>acc x. insert_left lt x acc) acc xs)"
  using assms
proof (induction xs arbitrary: acc)
  case (Cons x xs)
  then have "sorted_wrt (\<lambda>u v. \<not> lt u v) (insert_left lt x acc)"
    by (intro insert_left_sorted[of A]) auto
  with Cons show ?case by simp
qed simp

interpretation insertion: slice_sorter insertion_sort
proof
  show "mset (insertion_sort lt xs) = mset xs" for lt :: "'a \<Rightarrow> 'a \<Rightarrow> bool" and xs
    by (simp add: insertion_sort_def mset_insertion_acc)
  show "sorted_wrt (\<lambda>x y. \<not> lt y x) (insertion_sort lt xs)"
    if "strict_weak_on (set xs) lt" for lt :: "'a \<Rightarrow> 'a \<Rightarrow> bool" and xs
    using insertion_acc_sorted[OF that, of "[]" xs]
    by (simp add: insertion_sort_def sorted_wrt_rev)
qed

section \<open>Go maps as lists of pairs\<close>

type_synonym ('k, 'v) gomap = "('k \<times> 'v) list"

fun map_put :: "'k \<Rightarrow> 'v \<Rightarrow> ('k, 'v) gomap \<Rightarrow> ('k, 'v) gomap" where
  "map_put k v [] = [(k, v)]"
| "map_put k v ((k', v') # m) = (if k = k' then (k, v) # m else (k', v') # map_put k v m)"

definition map_del :: "'k \<Rightarrow> ('k, 'v) gomap \<Rightarrow> ('k, 'v) gomap" where
  "map_del k m = filter (\<lambda>p. fst p \<noteq> k) m"

definition map_ok :: "('k, 'v) gomap \<Rightarrow> bool" where
  "map_ok m \<longleftrightarrow> distinct (map fst m)"

lemma map_of_map_put [simp]: "map_of (map_put k v m) = (map_of m)(k \<mapsto> v)"
  by (induction m) (auto simp: fun_eq_iff)

lemma map_put_new: "k \<notin> fst ` set m \<Longrightarrow> map_put k v m = m @ [(k, v)]"
  by (induction k v m rule: map_put.induct) auto

lemma fst_map_put: "map fst (map_put k v m) =
    (if k \<in> set (map fst m) then map fst m else map fst m @ [k])"
  by (induction m) (auto simp del: set_map)

lemma map_ok_put [simp]: "map_ok m \<Longrightarrow> map_ok (map_put k v m)"
  by (auto simp: map_ok_def fst_map_put)

lemma map_of_map_del [simp]: "map_of (map_del k m) = (map_of m)(k := None)"
  by (induction m) (auto simp: map_del_def fun_eq_iff)

lemma map_ok_del [simp]: "map_ok m \<Longrightarrow> map_ok (map_del k m)"
  by (auto simp: map_ok_def map_del_def intro: distinct_map_filter)

lemma map_ok_Nil [simp]: "map_ok []"
  by (simp add: map_ok_def)

lemma map_ok_Cons [simp]: "map_ok (p # m) \<longleftrightarrow> fst p \<notin> fst ` set m \<and> map_ok m"
  by (auto simp: map_ok_def)

lemma map_ok_mem: "map_ok m \<Longrightarrow> (k, v) \<in> set m \<longleftrightarrow> map_of m k = Some v"
  by (metis map_ok_def map_of_eq_Some_iff)

lemma dom_map_of_fst: "dom (map_of m) = fst ` set m"
  by (simp add: dom_map_of_conv_image_fst)

section \<open>Generic facts on lists\<close>

lemma sum_list_mset_eq: "mset xs = mset ys \<Longrightarrow> sum_list (map f xs) = sum_list (map f ys)"
  for f :: "'a \<Rightarrow> int"
  by (metis mset_map sum_mset_sum_list)

lemma mset_eq_swap_last:
  assumes i: "i < length xs"
  shows "mset (butlast (xs[i := last xs])) = mset xs - {#xs ! i#}"
proof -
  obtain ys y where xs: "xs = ys @ [y]" using i by (cases xs rule: rev_exhaust) auto
  show ?thesis
  proof (cases "i < length ys")
    case True
    then have "mset (ys[i := y]) = add_mset y (mset ys - {#ys ! i#})" by (simp add: mset_update)
    with True show ?thesis by (simp add: xs butlast_list_update list_update_append nth_append)
  next
    case False
    with i have "i = length ys" by (simp add: xs)
    then show ?thesis by (simp add: xs)
  qed
qed

end
