(* ===== verification/Apis.thy ===== *)
theory Apis
  imports Prelude
begin

text \<open>
  The data model: the PodProtector custom resource of \<open>apis/v1alpha1/types.go\<close>, the
  parts of the Kubernetes objects that the code reads, the names declared in
  \<open>apis/constants.go\<close>, and the admission history configuration with its defaults
  (\<open>util/defaultconfig/options.go\<close>). A Go pointer is an \<open>option\<close>.
\<close>

section \<open>Kubernetes metadata the code reads\<close>

record LabelSelectorRequirement =
  ReqKey :: string
  ReqOperator :: string
  ReqValues :: "string list"

record LabelSelector =
  MatchLabels :: "(string, string) gomap"
  MatchExpressions :: "LabelSelectorRequirement list"

record OwnerReference =
  OwnerAPIVersion :: string
  OwnerKind :: string
  OwnerName :: string
  OwnerUID :: string
  OwnerController :: "bool option"

record ObjectMeta =
  Name :: string
  Namespace :: string
  UID :: string
  ResourceVersion :: string
  CreationTimestamp :: gotime
  DeletionTimestamp :: "gotime option"
  Labels :: "(string, string) gomap"
  Annotations :: "(string, string) gomap"
  Finalizers :: "string list"
  OwnerReferences :: "OwnerReference list"

record PodCondition =
  CondType :: string
  CondStatus :: string
  LastProbeTime :: gotime
  LastTransitionTime :: gotime

record Pod =
  PodMeta :: ObjectMeta
  Phase :: string
  Conditions :: "PodCondition list"
  NodeName :: string

text \<open>\<open>(*metav1.Time).IsZero\<close>: a nil pointer and the zero instant are both zero.\<close>

definition ts_IsZero :: "gotime option \<Rightarrow> bool" where
  "ts_IsZero t = (case t of None \<Rightarrow> True | Some x \<Rightarrow> time_IsZero x)"

section \<open>PodProtector\<close>

record AdmissionHistoryConfig =
  cfg_MaxConcurrentLag :: "int32 option"
  cfg_CompactThreshold :: "int32 option"
  cfg_AggregationRateMillis :: "int32 option"

record PodProtectorSpec =
  MinAvailable :: int32
  MinReadySeconds :: int32
  Selector :: LabelSelector
  AggregationSelector :: "LabelSelector option"
  HistoryConfig :: AdmissionHistoryConfig

record PodProtectorAggregation =
  TotalReplicas :: int32
  AvailableReplicas :: int32
  ReadyReplicas :: int32
  ScheduledReplicas :: int32
  RunningReplicas :: int32
  PendingReplicas :: "int32 option"
  UnscheduledPendingReplicas :: "int32 option"
  LastEventTime :: gotime

record PodProtectorAdmissionBucket =
  StartTime :: gotime
  BucketPodName :: string
  PodUid :: "string option"
  EndTime :: "gotime option"
  Counter :: "int32 option"

record PodProtectorAdmissionHistory =
  Buckets :: "PodProtectorAdmissionBucket list"

record PodProtectorCellStatus =
  CellId :: string
  Aggregation :: PodProtectorAggregation
  History :: PodProtectorAdmissionHistory

record PodProtectorStatusSummary =
  Total :: int32
  AggregatedAvailable :: int32
  MaxLatencyMillis :: int64
  EstimatedAvailable :: int32
  AggregatedReady :: int32
  AggregatedScheduled :: int32
  AggregatedRunning :: int32

record PodProtectorStatus =
  Cells :: "PodProtectorCellStatus list"
  Summary :: PodProtectorStatusSummary

record PodProtector =
  PprMeta :: ObjectMeta
  Spec :: PodProtectorSpec
  Status :: PodProtectorStatus

text \<open>The key of a PodProtector in the indexed informer.\<close>

record PodProtectorKey =
  SourceName :: string
  KeyNamespace :: string
  KeyName :: string

type_synonym bucket = PodProtectorAdmissionBucket
type_synonym cell = PodProtectorCellStatus
type_synonym summary = PodProtectorStatusSummary

abbreviation cell_buckets :: "cell \<Rightarrow> bucket list" where
  "cell_buckets c \<equiv> Buckets (History c)"

text \<open>The zero values that the code's composite literals leave in unnamed fields.\<close>

definition zero_aggregation :: PodProtectorAggregation where
  "zero_aggregation = \<lparr>TotalReplicas = 0, AvailableReplicas = 0, ReadyReplicas = 0,
     ScheduledReplicas = 0, RunningReplicas = 0, PendingReplicas = None,
     UnscheduledPendingReplicas = None, LastEventTime = 0\<rparr>"

definition zero_summary :: PodProtectorStatusSummary where
  "zero_summary = \<lparr>Total = 0, AggregatedAvailable = 0, MaxLatencyMillis = 0,
     EstimatedAvailable = 0, AggregatedReady = 0, AggregatedScheduled = 0,
     AggregatedRunning = 0\<rparr>"

definition new_cell :: "string \<Rightarrow> PodProtectorCellStatus" where
  "new_cell cid = \<lparr>CellId = cid, Aggregation = zero_aggregation, History = \<lparr>Buckets = []\<rparr>\<rparr>"

definition zero_history_config :: AdmissionHistoryConfig where
  "zero_history_config = \<lparr>cfg_MaxConcurrentLag = None, cfg_CompactThreshold = None,
     cfg_AggregationRateMillis = None\<rparr>"

lemma new_cell_sel [simp]:
  "CellId (new_cell cid) = cid" "Buckets (History (new_cell cid)) = []"
  "Aggregation (new_cell cid) = zero_aggregation"
  by (simp_all add: new_cell_def)

section \<open>Names shared by the components\<close>

definition GeneratorFinalizer :: string where
  "GeneratorFinalizer = ''podseidon.kubewharf.io/generator''"

definition PprAnnotationRemoveCellOnce :: string where
  "PprAnnotationRemoveCellOnce = ''podseidon.kubewharf.io/remove-cell-once''"

definition PodAnnotationForceDelete :: string where
  "PodAnnotationForceDelete = ''podseidon.kubewharf.io/force-delete''"

definition AuditAnnotationDryRun :: string where
  "AuditAnnotationDryRun = ''dry-run''"

definition AuditAnnotationRejectByPpr :: string where
  "AuditAnnotationRejectByPpr = ''reject-by-podprotector''"

definition EvictionAnnotationHealthCriterion :: string where
  "EvictionAnnotationHealthCriterion = ''podseidon.kubewharf.io/health-criterion''"

section \<open>Admission history configuration\<close>

record ConfigOptions =
  opt_MaxConcurrentLag :: int32
  opt_CompactThreshold :: int32
  opt_AggregationRate :: duration

record Computed =
  MaxConcurrentLag :: int32
  CompactThreshold :: int32
  AggregationRate :: duration

definition default_options :: ConfigOptions where
  "default_options = \<lparr>opt_MaxConcurrentLag = 0, opt_CompactThreshold = 100,
     opt_AggregationRate = Second * 5\<rparr>"

definition milliDuration :: "int32 \<Rightarrow> duration" where
  "milliDuration i = i64 (i * Millisecond)"

definition Compute :: "ConfigOptions \<Rightarrow> AdmissionHistoryConfig option \<Rightarrow> Computed" where
  "Compute opts optionalConfig =
     (let config = (case optionalConfig of Some c \<Rightarrow> c | None \<Rightarrow> zero_history_config)
      in \<lparr>MaxConcurrentLag = (case cfg_MaxConcurrentLag config of
            Some x \<Rightarrow> x | None \<Rightarrow> opt_MaxConcurrentLag opts),
          CompactThreshold = (case cfg_CompactThreshold config of
            Some x \<Rightarrow> x | None \<Rightarrow> opt_CompactThreshold opts),
          AggregationRate = (case map_option milliDuration (cfg_AggregationRateMillis config) of
            Some d \<Rightarrow> d | None \<Rightarrow> opt_AggregationRate opts)\<rparr>)"

lemma milliDuration_exact: "is_int32 i \<Longrightarrow> milliDuration i = i * 1000000"
  by (simp add: milliDuration_def Millisecond_def i64_id is_int64_def is_int32_def)

text \<open>
  A field of the object wins over the command line option, each field on its own; the
  millisecond rate of an object never overflows.
\<close>

lemma Compute_override:
  assumes "\<And>i. cfg_AggregationRateMillis c = Some i \<Longrightarrow> is_int32 i"
  shows "MaxConcurrentLag (Compute opts (Some c)) =
           case_option (opt_MaxConcurrentLag opts) id (cfg_MaxConcurrentLag c)"
    and "CompactThreshold (Compute opts (Some c)) =
           case_option (opt_CompactThreshold opts) id (cfg_CompactThreshold c)"
    and "AggregationRate (Compute opts (Some c)) =
           case_option (opt_AggregationRate opts) (\<lambda>i. i * 1000000) (cfg_AggregationRateMillis c)"
    and "Compute opts None = \<lparr>MaxConcurrentLag = opt_MaxConcurrentLag opts,
           CompactThreshold = opt_CompactThreshold opts, AggregationRate = opt_AggregationRate opts\<rparr>"
  using assms
  by (auto simp: Compute_def milliDuration_exact zero_history_config_def split: option.splits)

end
