(* ===== verification/PprUtil.thy ===== *)
theory PprUtil
  imports Apis
begin

text \<open>
  The PodProtector status arithmetic of \<open>util/podprotector/podprotector.go\<close>:
  compaction of the admission history of a cell and the summary over all cells. Both run on
  a private deep copy of the object, so they are pure functions of it; \<open>None\<close> is a
  run-time panic (index out of range or nil dereference).
\<close>

section \<open>Operations\<close>

definition GetAggregationSelector :: "PodProtector \<Rightarrow> LabelSelector" where
  "GetAggregationSelector ppr =
     (case AggregationSelector (Spec ppr) of Some s \<Rightarrow> s | None \<Rightarrow> Selector (Spec ppr))"

text \<open>\<open>ptr.Deref(bucket.Counter, 1)\<close>\<close>

definition bucket_count :: "bucket \<Rightarrow> int" where
  "bucket_count b = (case Counter b of Some c \<Rightarrow> c | None \<Rightarrow> 1)"

definition bucket_end :: "bucket \<Rightarrow> gotime" where
  "bucket_end b = (case EndTime b of Some t \<Rightarrow> t | None \<Rightarrow> StartTime b)"

text \<open>The loop over bucket indices 1 to delta, which moves the end time of the compact
  bucket forward. The compact bucket's own end time is a pointer that must not be nil.\<close>

fun extend_end :: "gotime option \<Rightarrow> bucket list \<Rightarrow> nat \<Rightarrow> nat \<Rightarrow> gotime option option" where
  "extend_end compactEnd bs i 0 = Some compactEnd"
| "extend_end compactEnd bs i (Suc n) =
     (if i < length bs then
        (case compactEnd of
           None \<Rightarrow> None
         | Some e \<Rightarrow> extend_end (Some (if bucket_end (bs ! i) > e then bucket_end (bs ! i) else e))
                      bs (Suc i) n)
      else None)"

definition CompactBuckets ::
  "bucket sorter \<Rightarrow> Computed \<Rightarrow> bucket list \<Rightarrow> bucket list option" where
  "CompactBuckets srt config buckets =
     (let bs = srt (\<lambda>a b. StartTime a < StartTime b) buckets;
          delta = int (length bs) - CompactThreshold config
      in if delta > 0 \<and> length bs > 0 then
           let first = bs ! 0;
               bs0 = (if PodUid first \<noteq> None
                      then bs[0 := \<lparr>StartTime = StartTime first, BucketPodName = [], PodUid = None,
                                    EndTime = Some (StartTime first), Counter = Some 1\<rparr>]
                      else bs)
           in do {
             e \<leftarrow> extend_end (EndTime (bs0 ! 0)) bs0 1 (nat delta);
             let copyCount = int (length bs) - 1 - delta;
             if copyCount < 0 then None
             else Some ((bs0 ! 0)\<lparr>EndTime := e\<rparr> # drop (nat delta + 1) bs0)
           }
         else Some bs)"

text \<open>One iteration of the first loop of \<open>Summarize\<close>.\<close>

definition summarize_cell ::
  "bucket sorter \<Rightarrow> Computed \<Rightarrow> summary \<Rightarrow> cell \<Rightarrow> (summary \<times> cell) option" where
  "summarize_cell srt config summ c = do {
     let agg = Aggregation c;
     let s1 = summ\<lparr>Total := i32 (Total summ + TotalReplicas agg),
                   AggregatedAvailable := i32 (AggregatedAvailable summ + AvailableReplicas agg),
                   AggregatedReady := i32 (AggregatedReady summ + ReadyReplicas agg),
                   AggregatedScheduled := i32 (AggregatedScheduled summ + ScheduledReplicas agg),
                   AggregatedRunning := i32 (AggregatedRunning summ + RunningReplicas agg)\<rparr>;
     bs \<leftarrow> CompactBuckets srt config (cell_buckets c);
     let c' = c\<lparr>History := \<lparr>Buckets = bs\<rparr>\<rparr>;
     let s2 = (if length bs > 0 then
                 let lagDuration = (if \<not> time_IsZero (LastEventTime agg)
                                    then time_Sub (StartTime (last bs)) (LastEventTime agg) else 0)
                 in s1\<lparr>MaxLatencyMillis := max (MaxLatencyMillis s1) (Milliseconds lagDuration)\<rparr>
               else s1);
     Some (s2, c')
   }"

fun summarize_cells ::
  "bucket sorter \<Rightarrow> Computed \<Rightarrow> summary \<Rightarrow> cell list \<Rightarrow> (summary \<times> cell list) option" where
  "summarize_cells srt config summ [] = Some (summ, [])"
| "summarize_cells srt config summ (c # cs) = do {
     (s1, c') \<leftarrow> summarize_cell srt config summ c;
     (s2, cs') \<leftarrow> summarize_cells srt config s1 cs;
     Some (s2, c' # cs')
   }"

text \<open>The second loop: every remaining bucket is deducted from the estimate.\<close>

definition deduct_buckets :: "int32 \<Rightarrow> cell list \<Rightarrow> int32" where
  "deduct_buckets est cs =
     foldl (\<lambda>e c. foldl (\<lambda>e b. i32 (e - bucket_count b)) e (cell_buckets c)) est cs"

definition Summarize :: "bucket sorter \<Rightarrow> Computed \<Rightarrow> PodProtector \<Rightarrow> PodProtector option" where
  "Summarize srt config ppr = do {
     (summ, cs) \<leftarrow> summarize_cells srt config zero_summary (Cells (Status ppr));
     let est = deduct_buckets (AggregatedAvailable summ) cs;
     Some (ppr\<lparr>Status := \<lparr>Cells = cs, Summary = summ\<lparr>EstimatedAvailable := est\<rparr>\<rparr>\<rparr>)
   }"

section \<open>Well-formed admission history\<close>

text \<open>
  A bucket is either one admitted pod (a pod UID, no end time, no counter) or a compacted
  set of pods (no pod UID, an end time, a positive counter), as the comments on
  \<open>PodProtectorAdmissionBucket\<close> say.
\<close>

definition bucket_wf :: "bucket \<Rightarrow> bool" where
  "bucket_wf b = (case PodUid b of
     Some _ \<Rightarrow> EndTime b = None \<and> Counter b = None
   | None \<Rightarrow> EndTime b \<noteq> None \<and> Counter b \<noteq> None \<and> 1 \<le> bucket_count b)"

definition total_count :: "bucket list \<Rightarrow> int" where
  "total_count bs = sum_list (map bucket_count bs)"

definition cell_wf :: "cell \<Rightarrow> bool" where
  "cell_wf c \<longleftrightarrow> list_all bucket_wf (cell_buckets c)"

lemma total_count_simps [simp]:
  "total_count [] = 0" "total_count (b # bs) = bucket_count b + total_count bs"
  "total_count (bs @ cs) = total_count bs + total_count cs"
  by (simp_all add: total_count_def)

lemma bucket_count_single [simp]: "bucket_wf b \<Longrightarrow> PodUid b \<noteq> None \<Longrightarrow> bucket_count b = 1"
  by (auto simp: bucket_wf_def bucket_count_def split: option.splits)

lemma bucket_count_pos: "bucket_wf b \<Longrightarrow> 1 \<le> bucket_count b"
  by (auto simp: bucket_wf_def bucket_count_def split: option.splits)

lemma total_count_length: "list_all bucket_wf bs \<Longrightarrow> int (length bs) \<le> total_count bs"
  by (induction bs) (auto dest!: bucket_count_pos)

lemma total_count_mset: "mset xs = mset ys \<Longrightarrow> total_count xs = total_count ys"
  unfolding total_count_def by (rule sum_list_mset_eq)

section \<open>Compaction\<close>

lemma extend_end_eq:
  "i + n \<le> length bs \<Longrightarrow>
   extend_end (Some e) bs i n = Some (Some (fold max (map bucket_end (take n (drop i bs))) e))"
proof (induction n arbitrary: i e)
  case (Suc n)
  then have "drop i bs = bs ! i # drop (Suc i) bs" by (simp add: Cons_nth_drop_Suc)
  moreover have "(if bucket_end (bs ! i) > e then bucket_end (bs ! i) else e) = max (bucket_end (bs ! i)) e"
    by (simp add: max_def)
  ultimately show ?case using Suc by simp
qed simp

lemma extend_end_overrun: "0 < n \<Longrightarrow> length bs < i + n \<Longrightarrow> extend_end e bs i n = None"
proof (induction n arbitrary: i e)
  case (Suc n)
  show ?case
  proof (cases "i < length bs")
    case True
    with Suc.prems have "0 < n" "length bs < Suc i + n" by simp_all
    then show ?thesis using Suc.IH by (simp split: option.split)
  qed simp
qed simp

lemma fold_max_ge_acc: "e \<le> fold max xs (e::int)"
proof (induction xs arbitrary: e)
  case (Cons x xs)
  have "max x e \<le> fold max xs (max x e)" by (rule Cons.IH)
  then show ?case by simp
qed simp

lemma fold_max_ge_elem: "x \<in> set xs \<Longrightarrow> x \<le> fold max xs (e::int)"
proof (induction xs arbitrary: e)
  case (Cons y ys)
  have "max y e \<le> fold max ys (max y e)" by (rule fold_max_ge_acc)
  with Cons show ?case by auto
qed simp

definition compact_head :: "bucket \<Rightarrow> bucket" where
  "compact_head b = (if PodUid b \<noteq> None
     then \<lparr>StartTime = StartTime b, BucketPodName = [], PodUid = None,
           EndTime = Some (StartTime b), Counter = Some 1\<rparr> else b)"

lemma compact_head_facts [simp]:
  "StartTime (compact_head b) = StartTime b"
  "PodUid (compact_head b) = None"
  by (simp_all add: compact_head_def)

lemma compact_head_wf: "bucket_wf b \<Longrightarrow> bucket_wf (compact_head b)"
  by (auto simp: compact_head_def bucket_wf_def bucket_count_def split: option.splits)

lemma compact_head_count [simp]: "bucket_wf b \<Longrightarrow> bucket_count (compact_head b) = bucket_count b"
  by (auto simp: compact_head_def bucket_count_def[of "\<lparr>StartTime = _, BucketPodName = _, PodUid = _,
      EndTime = _, Counter = _\<rparr>"])

locale bucket_sorter = slice_sorter srt for srt :: "bucket sorter"
begin

abbreviation by_start :: "bucket list \<Rightarrow> bucket list" where
  "by_start bs \<equiv> srt (\<lambda>a b. StartTime a < StartTime b) bs"

lemma by_start_sorted: "sorted (map StartTime (by_start bs))"
  by (rule srt_by_key)

lemma by_start_wf [simp]: "list_all bucket_wf (by_start bs) = list_all bucket_wf bs"
  by (simp add: list_all_iff)

lemma by_start_count [simp]: "total_count (by_start bs) = total_count bs"
  by (rule total_count_mset[OF srt_mset])

lemma compact_none:
  "int (length bs) \<le> CompactThreshold config \<Longrightarrow> CompactBuckets srt config bs = Some (by_start bs)"
  by (simp add: CompactBuckets_def)

lemma compact_some:
  assumes "1 \<le> CompactThreshold config" "CompactThreshold config < int (length bs)"
    and "list_all bucket_wf bs"
  obtains b rest e where "by_start bs = b # rest"
    and "CompactBuckets srt config bs =
      Some ((compact_head b)\<lparr>EndTime := Some e\<rparr> # drop (length bs - nat (CompactThreshold config)) rest)"
    and "\<forall>x \<in> set (b # take (length bs - nat (CompactThreshold config)) rest). bucket_end x \<le> e"
proof -
  define delta where "delta = length bs - nat (CompactThreshold config)"
  have delta: "int (length bs) - CompactThreshold config = int delta" "0 < delta" "delta < length bs"
    using assms by (simp_all add: delta_def)
  obtain b rest where br: "by_start bs = b # rest"
    using assms by (metis length_0_conv list.exhaust srt_length of_nat_0 not_less order.trans zero_le_one)
  have len: "length bs = Suc (length rest)" using br by (metis length_Cons srt_length)
  have wf: "bucket_wf b" using assms(3) by_start_wf[of bs] br by simp
  then obtain e0 where e0: "EndTime (compact_head b) = Some e0" "bucket_end b \<le> e0"
    by (auto simp: compact_head_def bucket_wf_def bucket_end_def split: option.splits if_splits)
  define bs0 where "bs0 = compact_head b # rest"
  define e where "e = fold max (map bucket_end (take delta rest)) e0"
  have ext: "extend_end (Some e0) bs0 1 delta = Some (Some e)"
    using delta len by (subst extend_end_eq) (simp_all add: bs0_def e_def)
  have "CompactBuckets srt config bs = Some ((compact_head b)\<lparr>EndTime := Some e\<rparr> # drop delta rest)"
    using delta len ext e0(1) unfolding CompactBuckets_def Let_def br bs0_def
    by (cases "PodUid b") (simp_all add: compact_head_def)
  moreover have "\<forall>x \<in> set (b # take delta rest). bucket_end x \<le> e"
  proof -
    have "e0 \<le> e" unfolding e_def by (rule fold_max_ge_acc)
    moreover have "bucket_end x \<le> e" if "x \<in> set (take delta rest)" for x
      unfolding e_def by (rule fold_max_ge_elem) (use that in simp)
    ultimately show ?thesis using e0(2) by auto
  qed
  ultimately show thesis using that br unfolding delta_def by blast
qed

lemma compact_total:
  assumes "1 \<le> CompactThreshold config" "list_all bucket_wf bs"
  obtains bs' where "CompactBuckets srt config bs = Some bs'"
    and "length bs' = min (length bs) (nat (CompactThreshold config))"
    and "list_all bucket_wf bs'" and "sorted (map StartTime bs')"
proof (cases "int (length bs) \<le> CompactThreshold config")
  case True
  then show thesis
    by (intro that[of "by_start bs"]) (simp_all add: compact_none assms by_start_sorted)
next
  case False
  then have lt: "CompactThreshold config < int (length bs)" by simp
  obtain b rest e where br: "by_start bs = b # rest"
    and eq: "CompactBuckets srt config bs =
      Some ((compact_head b)\<lparr>EndTime := Some e\<rparr> # drop (length bs - nat (CompactThreshold config)) rest)"
    using compact_some[OF assms(1) lt assms(2)] by metis
  have len: "length bs = Suc (length rest)" using br by (metis length_Cons srt_length)
  have wf: "bucket_wf b" "list_all bucket_wf rest" using assms(2) by_start_wf[of bs] br by simp_all
  have sorted: "sorted (StartTime b # map StartTime rest)" using by_start_sorted[of bs] br by simp
  let ?d = "length bs - nat (CompactThreshold config)"
  let ?h = "(compact_head b)\<lparr>EndTime := Some e\<rparr>"
  have "bucket_wf ?h"
    using compact_head_wf[OF wf(1)] by (simp add: bucket_wf_def bucket_count_def split: option.splits)
  moreover have "list_all bucket_wf (drop ?d rest)"
    using wf(2) by (auto simp: list_all_iff dest: in_set_dropD)
  moreover have "sorted (map StartTime (?h # drop ?d rest))"
    using sorted by (auto simp: sorted_wrt_drop simp flip: drop_map dest!: in_set_dropD)
  ultimately show thesis using that[OF eq] len lt assms(1) br by (simp add: min_def)
qed

lemma by_start_stable_times:
  assumes "sorted (map StartTime bs)" shows "map StartTime (by_start bs) = map StartTime bs"
  using assms by_start_sorted[of bs] srt_mset[of _ bs]
  by (metis mset_map properties_for_sort)

end

interpretation insertion_buckets: bucket_sorter insertion_sort ..

section \<open>Summary\<close>

definition sum_over :: "(PodProtectorAggregation \<Rightarrow> int) \<Rightarrow> cell list \<Rightarrow> int" where
  "sum_over f cs = sum_list (map (\<lambda>c. f (Aggregation c)) cs)"

definition history_total :: "cell list \<Rightarrow> int" where
  "history_total cs = sum_list (map (\<lambda>c. total_count (cell_buckets c)) cs)"

text \<open>A coherent status: the summary is what the cells add up to, and the estimate is the
  aggregated availability less one unit per admitted disruption on record.\<close>

definition coherent :: "PodProtectorStatus \<Rightarrow> bool" where
  "coherent st \<longleftrightarrow>
     Total (Summary st) = i32 (sum_over TotalReplicas (Cells st))
   \<and> AggregatedAvailable (Summary st) = i32 (sum_over AvailableReplicas (Cells st))
   \<and> AggregatedReady (Summary st) = i32 (sum_over ReadyReplicas (Cells st))
   \<and> AggregatedScheduled (Summary st) = i32 (sum_over ScheduledReplicas (Cells st))
   \<and> AggregatedRunning (Summary st) = i32 (sum_over RunningReplicas (Cells st))
   \<and> EstimatedAvailable (Summary st) =
       i32 (sum_over AvailableReplicas (Cells st) - history_total (Cells st))"

definition compacted :: "bucket sorter \<Rightarrow> Computed \<Rightarrow> cell \<Rightarrow> cell \<Rightarrow> bool" where
  "compacted srt config c c' \<longleftrightarrow> (\<exists>bs. CompactBuckets srt config (cell_buckets c) = Some bs
     \<and> c' = c\<lparr>History := \<lparr>Buckets = bs\<rparr>\<rparr>)"

lemma sum_over_simps [simp]:
  "sum_over f [] = 0" "sum_over f (c # cs) = f (Aggregation c) + sum_over f cs"
  by (simp_all add: sum_over_def)

lemma history_total_simps [simp]:
  "history_total [] = 0"
  "history_total (c # cs) = total_count (cell_buckets c) + history_total cs"
  by (simp_all add: history_total_def)

definition cell_summary :: "summary \<Rightarrow> PodProtectorAggregation \<Rightarrow> bucket list \<Rightarrow> summary" where
  "cell_summary s agg bs = s\<lparr>
     Total := i32 (Total s + TotalReplicas agg),
     AggregatedAvailable := i32 (AggregatedAvailable s + AvailableReplicas agg),
     AggregatedReady := i32 (AggregatedReady s + ReadyReplicas agg),
     AggregatedScheduled := i32 (AggregatedScheduled s + ScheduledReplicas agg),
     AggregatedRunning := i32 (AggregatedRunning s + RunningReplicas agg),
     MaxLatencyMillis := (if bs = [] then MaxLatencyMillis s else
       max (MaxLatencyMillis s) (Milliseconds (if \<not> time_IsZero (LastEventTime agg)
         then time_Sub (StartTime (last bs)) (LastEventTime agg) else 0)))\<rparr>"

lemma cell_summary_cong:
  "(bs = [] \<longleftrightarrow> bs' = []) \<Longrightarrow> (bs' \<noteq> [] \<Longrightarrow> StartTime (last bs) = StartTime (last bs')) \<Longrightarrow>
   cell_summary s agg bs = cell_summary s agg bs'"
  by (simp add: cell_summary_def)

lemma summarize_cell_eq:
  "CompactBuckets srt config (cell_buckets c) = Some bs \<Longrightarrow>
   summarize_cell srt config s c =
     Some (cell_summary s (Aggregation c) bs, c\<lparr>History := \<lparr>Buckets = bs\<rparr>\<rparr>)"
  by (simp add: summarize_cell_def cell_summary_def Let_def)

lemma summarize_cell_facts:
  assumes "summarize_cell srt config s c = Some (s', c')"
  shows "compacted srt config c c'"
    and "Total s' = i32 (Total s + TotalReplicas (Aggregation c))"
    and "AggregatedAvailable s' = i32 (AggregatedAvailable s + AvailableReplicas (Aggregation c))"
    and "AggregatedReady s' = i32 (AggregatedReady s + ReadyReplicas (Aggregation c))"
    and "AggregatedScheduled s' = i32 (AggregatedScheduled s + ScheduledReplicas (Aggregation c))"
    and "AggregatedRunning s' = i32 (AggregatedRunning s + RunningReplicas (Aggregation c))"
  using assms by (auto simp: summarize_cell_def compacted_def Let_def bind_eq_Some_conv)

lemma summarize_cells_Cons:
  assumes "summarize_cells srt config s (c # cs) = Some (s', cs')"
  obtains s1 c1 cs1 where "summarize_cell srt config s c = Some (s1, c1)"
    and "summarize_cells srt config s1 cs = Some (s', cs1)" and "cs' = c1 # cs1"
  using assms by (auto simp: bind_eq_Some_conv)

lemma summarize_cells_compacted:
  "summarize_cells srt config s cs = Some (s', cs') \<Longrightarrow> list_all2 (compacted srt config) cs cs'"
proof (induction cs arbitrary: s cs')
  case (Cons c cs)
  from Cons.prems show ?case
    by (rule summarize_cells_Cons) (use Cons.IH summarize_cell_facts(1) in auto)
qed simp

text \<open>Each counter of the summary accumulates one field of the cells' aggregation.\<close>

lemma summarize_cells_sum:
  assumes field: "\<And>s c s' c'. summarize_cell srt config s c = Some (s', c') \<Longrightarrow>
      get s' = i32 (get s + f (Aggregation c))"
    and run: "summarize_cells srt config s cs = Some (s', cs')" and "is_int32 (get s)"
  shows "get s' = i32 (get s + sum_over f cs)"
  using run assms(3)
proof (induction cs arbitrary: s cs')
  case (Cons c cs)
  from Cons.prems(1) obtain s1 c1 cs1 where one: "summarize_cell srt config s c = Some (s1, c1)"
    and "summarize_cells srt config s1 cs = Some (s', cs1)"
    by (rule summarize_cells_Cons)
  then show ?case using Cons.IH field[OF one] by (simp add: add.assoc)
qed (simp add: i32_id)

lemma summarize_cells_facts:
  assumes "summarize_cells srt config s cs = Some (s', cs')"
  shows "is_int32 (Total s) \<Longrightarrow> Total s' = i32 (Total s + sum_over TotalReplicas cs)"
    and "is_int32 (AggregatedAvailable s) \<Longrightarrow> AggregatedAvailable s' = i32 (AggregatedAvailable s + sum_over AvailableReplicas cs)"
    and "is_int32 (AggregatedReady s) \<Longrightarrow> AggregatedReady s' = i32 (AggregatedReady s + sum_over ReadyReplicas cs)"
    and "is_int32 (AggregatedScheduled s) \<Longrightarrow> AggregatedScheduled s' = i32 (AggregatedScheduled s + sum_over ScheduledReplicas cs)"
    and "is_int32 (AggregatedRunning s) \<Longrightarrow> AggregatedRunning s' = i32 (AggregatedRunning s + sum_over RunningReplicas cs)"
  by (rule summarize_cells_sum[OF _ assms]; auto dest: summarize_cell_facts)+

lemma compacted_frame [simp]:
  "compacted srt config c c' \<Longrightarrow> CellId c' = CellId c"
  "compacted srt config c c' \<Longrightarrow> Aggregation c' = Aggregation c"
  by (auto simp: compacted_def)

lemma compacted_frame_all:
  assumes "list_all2 (compacted srt config) cs cs'"
  shows "map CellId cs' = map CellId cs" "map Aggregation cs' = map Aggregation cs"
    and "sum_over f cs' = sum_over f cs"
  using assms by (induction rule: list_all2_induct) auto

lemma deduct_cell: "is_int32 e \<Longrightarrow>
  foldl (\<lambda>e b. i32 (e - bucket_count b)) e bs = i32 (e - total_count bs)"
  by (induction bs arbitrary: e) (simp_all add: i32_id diff_diff_eq)

lemma deduct_buckets_eq: "is_int32 e \<Longrightarrow> deduct_buckets e cs = i32 (e - history_total cs)"
  unfolding deduct_buckets_def
  by (induction cs arbitrary: e) (simp_all add: i32_id deduct_cell diff_diff_eq)

lemma Summarize_facts:
  assumes "Summarize srt config ppr = Some ppr'"
  shows "list_all2 (compacted srt config) (Cells (Status ppr)) (Cells (Status ppr'))"
    and "coherent (Status ppr')" and "PprMeta ppr' = PprMeta ppr" and "Spec ppr' = Spec ppr"
proof -
  obtain s cs where sc: "summarize_cells srt config zero_summary (Cells (Status ppr)) = Some (s, cs)"
    and p: "ppr' = ppr\<lparr>Status := \<lparr>Cells = cs,
      Summary = s\<lparr>EstimatedAvailable := deduct_buckets (AggregatedAvailable s) cs\<rparr>\<rparr>\<rparr>"
    using assms by (auto simp: Summarize_def bind_eq_Some_conv Let_def)
  have cpt: "list_all2 (compacted srt config) (Cells (Status ppr)) cs"
    by (rule summarize_cells_compacted[OF sc])
  then show "list_all2 (compacted srt config) (Cells (Status ppr)) (Cells (Status ppr'))"
    using p by simp
  have z: "is_int32 0" by (simp add: is_int32_def)
  then show "coherent (Status ppr')"
    using summarize_cells_facts[OF sc] compacted_frame_all(3)[OF cpt]
    by (simp add: p coherent_def zero_summary_def deduct_buckets_eq)
  show "PprMeta ppr' = PprMeta ppr" "Spec ppr' = Spec ppr" using p by simp_all
qed

context bucket_sorter
begin

lemma summarize_cell_total:
  assumes "1 \<le> CompactThreshold config" "cell_wf c"
  obtains s' c' where "summarize_cell srt config s c = Some (s', c')" and "cell_wf c'"
    and "int (length (cell_buckets c')) \<le> CompactThreshold config"
    and "sorted (map StartTime (cell_buckets c'))"
proof -
  obtain bs where "CompactBuckets srt config (cell_buckets c) = Some bs"
    "length bs = min (length (cell_buckets c)) (nat (CompactThreshold config))"
    "list_all bucket_wf bs" "sorted (map StartTime bs)"
    using compact_total[OF assms(1)] assms(2) unfolding cell_wf_def by metis
  with assms(1) show thesis
    by (intro that) (auto simp: summarize_cell_def Let_def cell_wf_def)
qed

lemma summarize_cells_total:
  assumes "1 \<le> CompactThreshold config" "list_all cell_wf cs"
  shows "\<exists>s' cs'. summarize_cells srt config s cs = Some (s', cs') \<and> list_all (\<lambda>c. cell_wf c
     \<and> int (length (cell_buckets c)) \<le> CompactThreshold config
     \<and> sorted (map StartTime (cell_buckets c))) cs'"
  using assms(2)
proof (induction cs arbitrary: s)
  case (Cons c cs)
  then have "cell_wf c" "list_all cell_wf cs" by simp_all
  then obtain s1 c1 where c1: "summarize_cell srt config s c = Some (s1, c1)" "cell_wf c1"
    "int (length (cell_buckets c1)) \<le> CompactThreshold config"
    "sorted (map StartTime (cell_buckets c1))"
    using summarize_cell_total[OF assms(1)] by metis
  then show ?case using Cons.IH[of s1] \<open>list_all cell_wf cs\<close> by fastforce
qed simp

text \<open>Summarizing an already compacted cell only permutes buckets that start together.\<close>

lemma summarize_cell_again:
  assumes "summarize_cell srt config s c = Some (s', c')"
    and "int (length (cell_buckets c')) \<le> CompactThreshold config"
    and "sorted (map StartTime (cell_buckets c'))"
  shows "\<exists>c2. summarize_cell srt config s c' = Some (s', c2)
     \<and> total_count (cell_buckets c2) = total_count (cell_buckets c')"
proof -
  let ?bs = "cell_buckets c'"
  have agg: "Aggregation c' = Aggregation c"
    using summarize_cell_facts(1)[OF assms(1)] by simp
  have times: "map StartTime (by_start ?bs) = map StartTime ?bs"
    by (rule by_start_stable_times[OF assms(3)])
  have last: "StartTime (last (by_start ?bs)) = StartTime (last ?bs)" if ne: "?bs \<noteq> []"
  proof -
    have "by_start ?bs \<noteq> []" using ne by simp
    then show ?thesis using arg_cong[OF times, of last] ne by (simp add: last_map)
  qed
  obtain bs where cb: "CompactBuckets srt config (cell_buckets c) = Some bs"
    and c': "c' = c\<lparr>History := \<lparr>Buckets = bs\<rparr>\<rparr>"
    using summarize_cell_facts(1)[OF assms(1)] unfolding compacted_def by blast
  have bs: "?bs = bs" by (simp add: c')
  have s': "s' = cell_summary s (Aggregation c) bs"
    using summarize_cell_eq[OF cb] assms(1) by simp
  have again: "CompactBuckets srt config ?bs = Some (by_start ?bs)"
    by (rule compact_none[OF assms(2)])
  have "cell_summary s (Aggregation c) (by_start ?bs) = cell_summary s (Aggregation c) ?bs"
    by (rule cell_summary_cong) (simp, rule last)
  then show ?thesis using summarize_cell_eq[OF again, of s] by (simp add: s' bs agg)
qed

lemma summarize_cells_again:
  assumes "summarize_cells srt config s cs = Some (s', cs')"
    and "list_all (\<lambda>c. cell_wf c \<and> int (length (cell_buckets c)) \<le> CompactThreshold config
     \<and> sorted (map StartTime (cell_buckets c))) cs'"
  shows "\<exists>cs2. summarize_cells srt config s cs' = Some (s', cs2) \<and> history_total cs2 = history_total cs'"
  using assms
proof (induction cs arbitrary: s cs')
  case (Cons c cs)
  from Cons.prems(1) obtain s1 c1 cs1 where one: "summarize_cell srt config s c = Some (s1, c1)"
    and rest: "summarize_cells srt config s1 cs = Some (s', cs1)" and eq: "cs' = c1 # cs1"
    by (rule summarize_cells_Cons)
  have "\<exists>c2. summarize_cell srt config s c1 = Some (s1, c2)
     \<and> total_count (cell_buckets c2) = total_count (cell_buckets c1)"
    using summarize_cell_again[OF one] Cons.prems(2) eq by simp
  moreover have "\<exists>cs2. summarize_cells srt config s1 cs1 = Some (s', cs2) \<and>
      history_total cs2 = history_total cs1"
    using Cons.IH[OF rest] Cons.prems(2) eq by simp
  ultimately show ?case using eq by fastforce
qed simp

lemma Summarize_total:
  assumes "1 \<le> CompactThreshold config" "list_all cell_wf (Cells (Status ppr))"
  obtains ppr' where "Summarize srt config ppr = Some ppr'"
    and "list_all (\<lambda>c. cell_wf c \<and> int (length (cell_buckets c)) \<le> CompactThreshold config
     \<and> sorted (map StartTime (cell_buckets c))) (Cells (Status ppr'))"
  using summarize_cells_total[OF assms, of zero_summary]
  by (auto simp: Summarize_def)

lemma Summarize_again:
  assumes "Summarize srt config ppr = Some ppr'"
    and "list_all (\<lambda>c. cell_wf c \<and> int (length (cell_buckets c)) \<le> CompactThreshold config
     \<and> sorted (map StartTime (cell_buckets c))) (Cells (Status ppr'))"
  shows "\<exists>ppr2. Summarize srt config ppr' = Some ppr2
     \<and> Summary (Status ppr2) = Summary (Status ppr')"
proof -
  obtain s cs where sc: "summarize_cells srt config zero_summary (Cells (Status ppr)) = Some (s, cs)"
    and p: "ppr' = ppr\<lparr>Status := \<lparr>Cells = cs,
      Summary = s\<lparr>EstimatedAvailable := deduct_buckets (AggregatedAvailable s) cs\<rparr>\<rparr>\<rparr>"
    using assms(1) by (auto simp: Summarize_def bind_eq_Some_conv Let_def)
  obtain cs2 where sc2: "summarize_cells srt config zero_summary cs = Some (s, cs2)"
    and "history_total cs2 = history_total cs"
    using summarize_cells_again[OF sc] assms(2) p by auto
  moreover have "is_int32 (AggregatedAvailable s)"
    using summarize_cells_facts(2)[OF sc] by (simp add: zero_summary_def is_int32_def[of 0])
  ultimately show ?thesis using p by (simp add: Summarize_def deduct_buckets_eq)
qed

end

section \<open>What compaction and the summary guarantee\<close>

definition sample_bucket :: "int \<Rightarrow> string \<Rightarrow> bucket" where
  "sample_bucket t uid = \<lparr>StartTime = t, BucketPodName = ''p'', PodUid = Some uid, EndTime = None,
     Counter = None\<rparr>"

definition sample_config :: "int \<Rightarrow> Computed" where
  "sample_config n = \<lparr>MaxConcurrentLag = 0, CompactThreshold = n, AggregationRate = 5000000000\<rparr>"

definition sample_meta :: ObjectMeta where
  "sample_meta = \<lparr>Name = ''web'', Namespace = ''default'', UID = ''u1'', ResourceVersion = ''7'',
     CreationTimestamp = 1, DeletionTimestamp = None, Labels = [], Annotations = [],
     Finalizers = [], OwnerReferences = []\<rparr>"

definition sample_ppr :: "int \<Rightarrow> cell list \<Rightarrow> PodProtector" where
  "sample_ppr minAvail cs = \<lparr>PprMeta = sample_meta,
     Spec = \<lparr>MinAvailable = minAvail, MinReadySeconds = 0,
             Selector = \<lparr>MatchLabels = [(''app'', ''web'')], MatchExpressions = []\<rparr>,
             AggregationSelector = None, HistoryConfig = zero_history_config\<rparr>,
     Status = \<lparr>Cells = cs, Summary = zero_summary\<rparr>\<rparr>"

definition sample_cell :: "string \<Rightarrow> int \<Rightarrow> bucket list \<Rightarrow> cell" where
  "sample_cell cid avail bs = \<lparr>CellId = cid,
     Aggregation = zero_aggregation\<lparr>TotalReplicas := avail, AvailableReplicas := avail,
       LastEventTime := 1\<rparr>, History = \<lparr>Buckets = bs\<rparr>\<rparr>"

lemmas sample_defs = sample_bucket_def sample_config_def sample_meta_def sample_ppr_def
  sample_cell_def zero_aggregation_def zero_history_config_def zero_summary_def

lemmas compact_eval = CompactBuckets_def insertion_sort_def bucket_end_def bucket_count_def
  bucket_wf_def eval_nat_numeral

text \<open>With a compaction threshold of at least one, compaction of a well-formed history
  never panics: it returns the history sorted by start time, still well formed and no longer
  than the threshold, whatever order \<open>sort.Slice\<close> gives to buckets that start
  together. When something is compacted, the first bucket of the result starts with the
  oldest bucket, carries no pod UID and ends no earlier than any bucket it replaces.\<close>

theorem CompactBuckets_bounds_history:
  assumes "bucket_sorter srt" and "1 \<le> CompactThreshold config" and "list_all bucket_wf bs"
  shows "\<exists>bs'. CompactBuckets srt config bs = Some bs'
    \<and> length bs' = min (length bs) (nat (CompactThreshold config))
    \<and> list_all bucket_wf bs' \<and> sorted (map StartTime bs')
    \<and> (length bs' < length bs \<longrightarrow> (\<exists>b absorbed.
          srt (\<lambda>a b. StartTime a < StartTime b) bs = b # absorbed @ tl bs'
        \<and> StartTime (hd bs') = StartTime b \<and> PodUid (hd bs') = None
        \<and> (\<forall>x \<in> set (b # absorbed). bucket_end x \<le> bucket_end (hd bs'))))"
proof (cases "int (length bs) \<le> CompactThreshold config")
  case True
  moreover obtain bs' where bs': "CompactBuckets srt config bs = Some bs'"
    "length bs' = min (length bs) (nat (CompactThreshold config))"
    "list_all bucket_wf bs'" "sorted (map StartTime bs')"
    by (rule bucket_sorter.compact_total[OF assms])
  ultimately have "\<not> length bs' < length bs" by simp
  with bs' show ?thesis by blast
next
  case False
  then have lt: "CompactThreshold config < int (length bs)" by simp
  let ?d = "length bs - nat (CompactThreshold config)"
  obtain bs' where bs': "CompactBuckets srt config bs = Some bs'"
    "length bs' = min (length bs) (nat (CompactThreshold config))"
    "list_all bucket_wf bs'" "sorted (map StartTime bs')"
    by (rule bucket_sorter.compact_total[OF assms])
  obtain b rest e where br: "srt (\<lambda>a b. StartTime a < StartTime b) bs = b # rest"
    and eq: "CompactBuckets srt config bs = Some ((compact_head b)\<lparr>EndTime := Some e\<rparr> # drop ?d rest)"
    and e: "\<forall>x \<in> set (b # take ?d rest). bucket_end x \<le> e"
    by (rule bucket_sorter.compact_some[OF assms(1,2) lt assms(3)])
  have hd_tl: "bs' = (compact_head b)\<lparr>EndTime := Some e\<rparr> # drop ?d rest"
    using eq bs'(1) by simp
  then have "srt (\<lambda>a b. StartTime a < StartTime b) bs = b # take ?d rest @ tl bs'"
    using br by simp
  moreover have "StartTime (hd bs') = StartTime b" "PodUid (hd bs') = None" "bucket_end (hd bs') = e"
    using hd_tl by (simp_all add: bucket_end_def)
  ultimately show ?thesis using bs' e by blast
qed

theorem CompactBuckets_bounds_history_witness:
  "\<exists>bs'. CompactBuckets insertion_sort (sample_config 2)
       [sample_bucket 30 ''c'', sample_bucket 10 ''a'', sample_bucket 20 ''b''] = Some bs'
     \<and> length bs' = 2 \<and> sorted (map StartTime bs')"
  using CompactBuckets_bounds_history[of insertion_sort "sample_config 2"
    "[sample_bucket 30 ''c'', sample_bucket 10 ''a'', sample_bucket 20 ''b'']"]
    insertion_buckets.bucket_sorter_axioms
  by (auto simp: sample_defs bucket_wf_def)

text \<open>Compaction forgets disruptions. When the history is longer than the threshold,
  the counter of the compact bucket is not increased for the buckets it absorbs, so the total
  number of disruptions on record drops by the counts of all absorbed buckets, at least one
  for each position the history is shortened by.\<close>

theorem CompactBuckets_forgets_count:
  assumes "bucket_sorter srt" and "1 \<le> CompactThreshold config"
    and "CompactThreshold config < int (length bs)" and "list_all bucket_wf bs"
  shows "\<exists>bs' absorbed. CompactBuckets srt config bs = Some bs' \<and> mset absorbed \<subseteq># mset bs
    \<and> length absorbed = length bs - nat (CompactThreshold config)
    \<and> total_count bs' = total_count bs - total_count absorbed
    \<and> total_count bs' \<le> total_count bs - (int (length bs) - CompactThreshold config)"
proof -
  let ?d = "length bs - nat (CompactThreshold config)"
  obtain b rest e where br: "srt (\<lambda>a b. StartTime a < StartTime b) bs = b # rest"
    and eq: "CompactBuckets srt config bs = Some ((compact_head b)\<lparr>EndTime := Some e\<rparr> # drop ?d rest)"
    by (rule bucket_sorter.compact_some[OF assms])
  let ?bs' = "(compact_head b)\<lparr>EndTime := Some e\<rparr> # drop ?d rest"
  have ms: "mset (b # rest) = mset bs"
    using slice_sorter.srt_mset[OF bucket_sorter.axioms[OF assms(1)]] br by metis
  have wf: "list_all bucket_wf (b # rest)"
    using assms(4) mset_eq_setD[OF ms] by (simp add: list_all_iff)
  have len: "length bs = Suc (length rest)" using mset_eq_length[OF ms] by simp
  have "total_count rest = total_count (take ?d rest) + total_count (drop ?d rest)"
    by (metis append_take_drop_id total_count_simps(3))
  moreover have "total_count bs = bucket_count b + total_count rest"
    using total_count_mset[OF ms] by simp
  moreover have "bucket_count ((compact_head b)\<lparr>EndTime := Some e\<rparr>) = bucket_count b"
    using compact_head_count[of b] wf by (simp add: bucket_count_def)
  ultimately have tot: "total_count ?bs' = total_count bs - total_count (take ?d rest)" by simp
  have "list_all bucket_wf (take ?d rest)" using wf by (auto simp: list_all_iff dest: in_set_takeD)
  then have "int ?d \<le> total_count (take ?d rest)"
    using total_count_length[of "take ?d rest"] len assms by simp
  moreover have "mset (take ?d rest) \<subseteq># mset bs"
    unfolding ms[symmetric] by (metis append_take_drop_id mset_append mset.simps(2) mset_subset_eq_add_left
        subset_mset.order_trans mset_subset_eq_add_right add_mset_add_single)
  moreover have "length (take ?d rest) = ?d" using len assms by simp
  ultimately show ?thesis using eq tot assms(2,3) by (intro exI conjI) auto
qed

theorem CompactBuckets_forgets_count_witness:
  "\<exists>bs'. CompactBuckets insertion_sort (sample_config 1)
       [sample_bucket 10 ''a'', sample_bucket 20 ''b'', sample_bucket 30 ''c''] = Some bs'
     \<and> total_count bs' \<le> 1"
  using CompactBuckets_forgets_count[of insertion_sort "sample_config 1"
    "[sample_bucket 10 ''a'', sample_bucket 20 ''b'', sample_bucket 30 ''c'']"]
    insertion_buckets.bucket_sorter_axioms
  by (auto simp: sample_defs bucket_wf_def bucket_count_def)

text \<open>A compaction threshold of zero or less makes compaction of any non-empty
  history panic with an index out of range.\<close>

theorem CompactBuckets_panics_without_threshold:
  assumes "bucket_sorter srt" and "CompactThreshold config \<le> 0" and "bs \<noteq> []"
  shows "CompactBuckets srt config bs = None"
proof -
  let ?sorted = "srt (\<lambda>a b. StartTime a < StartTime b) bs"
  have len: "length ?sorted = length bs"
    by (rule slice_sorter.srt_length[OF bucket_sorter.axioms[OF assms(1)]])
  let ?delta = "int (length bs) - CompactThreshold config"
  have "0 < length bs" using assms(3) by simp
  then have len_pos: "CompactThreshold config < int (length bs)" using assms(2) by linarith
  have pos: "0 < ?delta" "length bs < 1 + nat ?delta" "0 < nat ?delta"
    using assms(2) len_pos by (simp_all add: nat_less_iff)
  have over: "extend_end e xs 1 (nat ?delta) = None" if "length xs = length bs" for e xs
    by (rule extend_end_overrun) (use pos that in auto)
  have "?sorted \<noteq> []" using len assms(3) by auto
  then show ?thesis
    using pos by (simp add: CompactBuckets_def Let_def len over[unfolded One_nat_def])
qed

theorem CompactBuckets_panics_without_threshold_witness:
  "CompactBuckets insertion_sort (sample_config 0) [sample_bucket 10 ''a''] = None"
  using CompactBuckets_panics_without_threshold[of insertion_sort "sample_config 0"
    "[sample_bucket 10 ''a'']"] insertion_buckets.bucket_sorter_axioms
  by (simp add: sample_config_def)

text \<open>C5: \<open>Summarize\<close> on well-formed cells always returns, changes neither the
  metadata, the specification, the cell identities nor the cell aggregations, leaves every
  history well formed, sorted and within the threshold, and makes the summary coherent: each
  counter is the (32-bit) sum over the cells, and the estimated availability is the aggregated
  availability less every disruption still on record.\<close>

theorem Summarize_makes_coherent:
  assumes "bucket_sorter srt" and "1 \<le> CompactThreshold config"
    and "list_all cell_wf (Cells (Status ppr))"
  shows "\<exists>ppr'. Summarize srt config ppr = Some ppr' \<and> coherent (Status ppr')
    \<and> PprMeta ppr' = PprMeta ppr \<and> Spec ppr' = Spec ppr
    \<and> map CellId (Cells (Status ppr')) = map CellId (Cells (Status ppr))
    \<and> map Aggregation (Cells (Status ppr')) = map Aggregation (Cells (Status ppr))
    \<and> list_all (\<lambda>c. cell_wf c \<and> int (length (cell_buckets c)) \<le> CompactThreshold config
        \<and> sorted (map StartTime (cell_buckets c))) (Cells (Status ppr'))"
proof -
  obtain ppr' where run: "Summarize srt config ppr = Some ppr'"
    and wf: "list_all (\<lambda>c. cell_wf c \<and> int (length (cell_buckets c)) \<le> CompactThreshold config
        \<and> sorted (map StartTime (cell_buckets c))) (Cells (Status ppr'))"
    by (rule bucket_sorter.Summarize_total[OF assms])
  show ?thesis
    using run wf Summarize_facts[OF run] compacted_frame_all[OF Summarize_facts(1)[OF run]]
    by blast
qed

theorem Summarize_makes_coherent_witness:
  "\<exists>ppr'. Summarize insertion_sort (sample_config 2)
       (sample_ppr 1 [sample_cell ''c1'' 5 [sample_bucket 20 ''b'', sample_bucket 10 ''a'']]) = Some ppr'
     \<and> coherent (Status ppr')"
  using Summarize_makes_coherent[of insertion_sort "sample_config 2"
    "sample_ppr 1 [sample_cell ''c1'' 5 [sample_bucket 20 ''b'', sample_bucket 10 ''a'']]"]
    insertion_buckets.bucket_sorter_axioms
  by (auto simp: sample_defs cell_wf_def bucket_wf_def)

text \<open>Summarizing is idempotent on what it reports: running \<open>Summarize\<close> on its own
  result returns again and computes exactly the same summary, although the unstable sort may
  reorder buckets that start together.\<close>

theorem Summarize_idempotent:
  assumes "bucket_sorter srt" and "1 \<le> CompactThreshold config"
    and "list_all cell_wf (Cells (Status ppr))" and "Summarize srt config ppr = Some ppr'"
  shows "\<exists>ppr2. Summarize srt config ppr' = Some ppr2
     \<and> Summary (Status ppr2) = Summary (Status ppr')"
proof -
  obtain p where p: "Summarize srt config ppr = Some p"
    and wf: "list_all (\<lambda>c. cell_wf c \<and> int (length (cell_buckets c)) \<le> CompactThreshold config
        \<and> sorted (map StartTime (cell_buckets c))) (Cells (Status p))"
    by (rule bucket_sorter.Summarize_total[OF assms(1-3)])
  have "p = ppr'" using p assms(4) by simp
  then show ?thesis using bucket_sorter.Summarize_again[OF assms(1) p wf] by simp
qed

theorem Summarize_idempotent_witness:
  "\<exists>p. Summarize insertion_sort (sample_config 1)
       (sample_ppr 1 [sample_cell ''c1'' 5 [sample_bucket 20 ''b'', sample_bucket 10 ''a'']]) = Some p
     \<and> (\<exists>p2. Summarize insertion_sort (sample_config 1) p = Some p2
           \<and> Summary (Status p2) = Summary (Status p))"
proof -
  let ?ppr = "sample_ppr 1 [sample_cell ''c1'' 5 [sample_bucket 20 ''b'', sample_bucket 10 ''a'']]"
  have wf: "list_all cell_wf (Cells (Status ?ppr))" "1 \<le> CompactThreshold (sample_config 1)"
    by (simp_all add: sample_defs cell_wf_def bucket_wf_def)
  obtain p where "Summarize insertion_sort (sample_config 1) ?ppr = Some p"
    by (rule insertion_buckets.Summarize_total[OF wf(2,1)])
  with Summarize_idempotent[OF insertion_buckets.bucket_sorter_axioms wf(2,1)] show ?thesis by blast
qed


end
