(* ===== verification/GoOptional.thy ===== *)
theory GoOptional
  imports Prelude
begin

text \<open>
  The generic optional value of \<open>util/optional/optional.go\<close> as the code has it, a
  struct with a value and a flag. The zero value of the element type is an argument
  \<open>zero\<close> where Go takes it from the type. \<open>opt_abs\<close> reads such a struct as an
  \<open>option\<close>; the other theories use \<open>option\<close> for optional values, which the
  refinement lemmas below justify.
\<close>

section \<open>The struct and its operations\<close>

record 'a Optional =
  opt_value :: 'a
  isSome :: bool

definition opt_Some :: "'a \<Rightarrow> 'a Optional" where
  "opt_Some v = \<lparr>opt_value = v, isSome = True\<rparr>"

definition opt_None :: "'a \<Rightarrow> 'a Optional" where
  "opt_None zero = \<lparr>opt_value = zero, isSome = False\<rparr>"

definition IsSome :: "'a Optional \<Rightarrow> bool" where "IsSome v = isSome v"
definition IsNone :: "'a Optional \<Rightarrow> bool" where "IsNone v = (\<not> isSome v)"

definition opt_Get :: "'a Optional \<Rightarrow> 'a \<times> bool" where
  "opt_Get v = (opt_value v, isSome v)"

definition GetOrFn :: "'a Optional \<Rightarrow> (unit \<Rightarrow> 'a) \<Rightarrow> 'a" where
  "GetOrFn v fn = (if isSome v then opt_value v else fn ())"

definition GetOr :: "'a Optional \<Rightarrow> 'a \<Rightarrow> 'a" where
  "GetOr v d = GetOrFn v (\<lambda>_. d)"

definition GetOrZero :: "'a \<Rightarrow> 'a Optional \<Rightarrow> 'a" where
  "GetOrZero zero v = GetOrFn v (\<lambda>_. zero)"

definition OrFn :: "'a Optional \<Rightarrow> (unit \<Rightarrow> 'a Optional) \<Rightarrow> 'a Optional" where
  "OrFn v fn = (if isSome v then v else fn ())"

definition MustGet :: "'a Optional \<Rightarrow> 'a option" where
  "MustGet v = (if \<not> isSome v then None else Some (opt_value v))"

definition AsSlice :: "'a Optional \<Rightarrow> 'a list" where
  "AsSlice v = (if isSome v then [opt_value v] else [])"

definition IsSomeAnd :: "'a Optional \<Rightarrow> ('a \<Rightarrow> bool) \<Rightarrow> bool" where
  "IsSomeAnd v fn \<longleftrightarrow> isSome v \<and> fn (opt_value v)"

definition IsNoneOr :: "'a Optional \<Rightarrow> ('a \<Rightarrow> bool) \<Rightarrow> bool" where
  "IsNoneOr v fn \<longleftrightarrow> \<not> isSome v \<or> fn (opt_value v)"

definition SetOrFn :: "'a Optional \<Rightarrow> 'a \<Rightarrow> ('a \<Rightarrow> 'a \<Rightarrow> 'a) \<Rightarrow> 'a Optional" where
  "SetOrFn v x fn = (if isSome v then v\<lparr>opt_value := fn (opt_value v) x\<rparr>
                     else v\<lparr>opt_value := x, isSome := True\<rparr>)"

definition SetOrChoose :: "'a Optional \<Rightarrow> 'a \<Rightarrow> ('a \<Rightarrow> 'a \<Rightarrow> bool) \<Rightarrow> 'a Optional" where
  "SetOrChoose v x preferRight =
     SetOrFn v x (\<lambda>base increment. if preferRight base increment then increment else base)"

definition opt_Map :: "'b \<Rightarrow> 'a Optional \<Rightarrow> ('a \<Rightarrow> 'b) \<Rightarrow> 'b Optional" where
  "opt_Map zero v fn = (if isSome v then opt_Some (fn (opt_value v)) else opt_None zero)"

definition FromPtr :: "'a \<Rightarrow> 'a option \<Rightarrow> 'a Optional" where
  "FromPtr zero p = (case p of None \<Rightarrow> opt_None zero | Some x \<Rightarrow> opt_Some x)"

definition IfNonZero :: "'a \<Rightarrow> 'a \<Rightarrow> 'a Optional" where
  "IfNonZero zero v = (if v = zero then opt_None zero else opt_Some v)"

definition opt_Filter :: "'a \<Rightarrow> 'a Optional \<Rightarrow> ('a \<Rightarrow> bool) \<Rightarrow> 'a Optional" where
  "opt_Filter zero v fn = (if IsSomeAnd v fn then v else opt_None zero)"

definition GetSlice :: "'a \<Rightarrow> 'a list \<Rightarrow> int \<Rightarrow> 'a Optional" where
  "GetSlice zero xs i = (if i \<ge> 0 \<and> i < int (length xs) then opt_Some (xs ! nat i) else opt_None zero)"

definition GetMap :: "'v \<Rightarrow> ('k, 'v) gomap \<Rightarrow> 'k \<Rightarrow> 'v Optional" where
  "GetMap zero m k = (case map_of m k of Some v \<Rightarrow> opt_Some v | None \<Rightarrow> opt_None zero)"

text \<open>
  \<open>GetValueRef\<close> has a pointer receiver, \<open>GetValueRefOrNil\<close> a value
  receiver. A store is a list of cells: the variable that holds the optional is a cell, and
  a call with a value receiver copies it into a fresh cell. The result is the address whose
  \<open>value\<close> field the returned pointer refers to.
\<close>

type_synonym 'a cells = "'a Optional list"

definition GetValueRef :: "'a cells \<Rightarrow> nat \<Rightarrow> 'a cells \<times> nat" where
  "GetValueRef h recv = (h, recv)"

definition GetValueRefOrNil :: "'a cells \<Rightarrow> nat \<Rightarrow> 'a cells \<times> nat option" where
  "GetValueRefOrNil h recv =
     (let h' = h @ [h ! recv]; v = length h
      in if isSome (h' ! v) then (h', Some v) else (h', None))"

definition write_value :: "'a cells \<Rightarrow> nat \<Rightarrow> ('a \<Rightarrow> 'a) \<Rightarrow> 'a cells" where
  "write_value h p f = h[p := (h ! p)\<lparr>opt_value := f (opt_value (h ! p))\<rparr>]"

text \<open>The value of a variable after
  \<open>if ref := v.GetValueRefOrNil(); ref != nil { *ref = f(*ref) }\<close>.\<close>

definition update_through_ref :: "'a Optional \<Rightarrow> ('a \<Rightarrow> 'a) \<Rightarrow> 'a Optional" where
  "update_through_ref v f =
     (case GetValueRefOrNil [v] 0 of
        (h, Some p) \<Rightarrow> write_value h p f ! 0
      | (h, None) \<Rightarrow> h ! 0)"

section \<open>Refinement to \<open>option\<close>\<close>

definition opt_abs :: "'a Optional \<Rightarrow> 'a option" where
  "opt_abs v = (if isSome v then Some (opt_value v) else None)"

definition opt_wf :: "'a \<Rightarrow> 'a Optional \<Rightarrow> bool" where
  "opt_wf zero v \<longleftrightarrow> isSome v \<or> opt_value v = zero"

lemmas opt_defs = opt_abs_def opt_wf_def opt_Some_def opt_None_def GetOrFn_def GetOr_def
  GetOrZero_def OrFn_def MustGet_def AsSlice_def IsSomeAnd_def IsNoneOr_def SetOrFn_def
  SetOrChoose_def opt_Map_def FromPtr_def IfNonZero_def opt_Filter_def GetSlice_def GetMap_def
  IsSome_def IsNone_def opt_Get_def

lemma opt_abs_ops [simp]:
  "opt_abs (opt_Some x) = Some x" "opt_abs (opt_None z) = None"
  "opt_abs (SetOrFn v x fn) = Some (case opt_abs v of None \<Rightarrow> x | Some y \<Rightarrow> fn y x)"
  "opt_abs (opt_Map z v f) = map_option f (opt_abs v)"
  "opt_abs (FromPtr z p) = p"
  "opt_abs (opt_Filter z v P) = (case opt_abs v of Some x \<Rightarrow> if P x then Some x else None | None \<Rightarrow> None)"
  "opt_abs (OrFn v g) = (case opt_abs v of None \<Rightarrow> opt_abs (g ()) | Some x \<Rightarrow> Some x)"
  "opt_abs (GetMap z' mp k) = map_of mp k"
  by (auto simp: opt_defs split: option.splits)

lemma opt_abs_IfNonZero [simp]: "opt_abs (IfNonZero z x) = (if x = z then None else Some x)"
  by (simp add: opt_defs)

lemma opt_wf_ops [simp]:
  "opt_wf z (opt_Some x)" "opt_wf z (opt_None z)" "opt_wf z (SetOrFn v x fn)"
  "opt_wf z (opt_Map z w f)" "opt_wf z (FromPtr z p)" "opt_wf z (IfNonZero z x)"
  "opt_wf z v \<Longrightarrow> opt_wf z (opt_Filter z v P)"
  "opt_wf z v \<Longrightarrow> opt_wf z (g ()) \<Longrightarrow> opt_wf z (OrFn v g)"
  by (auto simp: opt_defs split: option.splits)

text \<open>Go's \<open>==\<close> on two optionals compares both fields; on well-formed values
  that is equality of what they stand for.\<close>

lemma opt_eq_iff: "opt_wf z v \<Longrightarrow> opt_wf z w \<Longrightarrow> v = w \<longleftrightarrow> opt_abs v = opt_abs w"
  by (cases v; cases w) (auto simp: opt_defs)

text \<open>The struct implements an optional value: every operation commutes with reading
  the struct as an \<open>option\<close>, keeps the documented invariant that an absent value holds
  the zero value, and on such values \<open>==\<close> is equality of the optional values.\<close>

theorem Optional_refines_option:
  "opt_abs (opt_Map z' v f) = map_option f (opt_abs v) \<and> opt_wf z' (opt_Map z' v f)
   \<and> opt_abs (SetOrFn v x fn) = Some (case opt_abs v of None \<Rightarrow> x | Some y \<Rightarrow> fn y x)
   \<and> opt_wf z (SetOrFn v x fn)
   \<and> opt_abs (SetOrChoose v x pref) =
       Some (case opt_abs v of None \<Rightarrow> x | Some y \<Rightarrow> if pref y x then x else y)
   \<and> GetOrFn v g = (case opt_abs v of None \<Rightarrow> g () | Some y \<Rightarrow> y)
   \<and> MustGet v = opt_abs v
   \<and> AsSlice v = (case opt_abs v of None \<Rightarrow> [] | Some y \<Rightarrow> [y])
   \<and> IsSomeAnd v P = (case opt_abs v of None \<Rightarrow> False | Some y \<Rightarrow> P y)
   \<and> IsNoneOr v P = (case opt_abs v of None \<Rightarrow> True | Some y \<Rightarrow> P y)
   \<and> opt_abs (IfNonZero z x) = (if x = z then None else Some x) \<and> opt_wf z (IfNonZero z x)
   \<and> opt_abs (GetSlice z xs i) = (if 0 \<le> i \<and> nat i < length xs then Some (xs ! nat i) else None)
   \<and> (v = w \<longleftrightarrow> (opt_abs v = opt_abs w \<and> opt_value v = opt_value w))"
proof -
  have "v = w \<longleftrightarrow> (opt_abs v = opt_abs w \<and> opt_value v = opt_value w)"
    by (cases v; cases w) (auto simp: opt_abs_def split: if_splits)
  then show ?thesis
    by (auto simp: opt_defs split: option.splits)
qed

text \<open>A write through the pointer that \<open>GetValueRefOrNil\<close> returns never
  reaches the optional it was called on, because the method has a value receiver: the
  variable is unchanged, whatever the update. A write through \<open>GetValueRef\<close>, which
  has a pointer receiver, does change it.\<close>

theorem GetValueRefOrNil_write_is_lost:
  "update_through_ref v f = v
   \<and> (case GetValueRef [v] 0 of (h, p) \<Rightarrow> write_value h p f ! 0) = v\<lparr>opt_value := f (opt_value v)\<rparr>"
  by (simp add: update_through_ref_def GetValueRefOrNil_def GetValueRef_def write_value_def Let_def)

lemma update_through_ref_id [simp]: "update_through_ref v f = v"
  by (simp add: update_through_ref_def GetValueRefOrNil_def write_value_def Let_def)

end
