(* ===== verification/Slices.thy ===== *)
theory Slices
  imports Prelude
begin

text \<open>
  The slice helpers of \<open>util/util/slices.go\<close>. A slice is a list; a helper that takes
  a pointer to a slice returns the new slice. Predicates with side effects (the retry pool
  sends answers from inside one) thread a state \<open>'s\<close>. \<open>None\<close> is an index
  panic.
\<close>

section \<open>Operations\<close>

fun map_slice_loop :: "('a \<Rightarrow> 'b) \<Rightarrow> 'a list \<Rightarrow> nat \<Rightarrow> 'b list \<Rightarrow> 'b list" where
  "map_slice_loop fn [] i output = output"
| "map_slice_loop fn (x # xs) i output = map_slice_loop fn xs (Suc i) (output[i := fn x])"

definition MapSlice :: "'b \<Rightarrow> 'a list \<Rightarrow> ('a \<Rightarrow> 'b) \<Rightarrow> 'b list" where
  "MapSlice zero input fn = map_slice_loop fn input 0 (replicate (length input) zero)"

definition CountSlice :: "'a list \<Rightarrow> ('a \<Rightarrow> bool) \<Rightarrow> int" where
  "CountSlice input predicate = foldl (\<lambda>count x. if predicate x then count + 1 else count) 0 input"

definition SliceToMap :: "'v list \<Rightarrow> ('v \<Rightarrow> 'k) \<Rightarrow> ('k, 'v) gomap" where
  "SliceToMap input keyFn = foldl (\<lambda>out x. map_put (keyFn x) x out) [] input"

fun find_from :: "int \<Rightarrow> 'a list \<Rightarrow> ('a \<Rightarrow> bool) \<Rightarrow> int" where
  "find_from i [] P = -1"
| "find_from i (x # xs) P = (if P x then i else find_from (i + 1) xs P)"

definition FindInSliceWith :: "'a list \<Rightarrow> ('a \<Rightarrow> bool) \<Rightarrow> int" where
  "FindInSliceWith input predicate = find_from 0 input predicate"

definition FindInSlice :: "'a list \<Rightarrow> 'a \<Rightarrow> int" where
  "FindInSlice input needle = FindInSliceWith input (\<lambda>other. needle = other)"

definition SliceContains :: "'a list \<Rightarrow> 'a \<Rightarrow> bool" where
  "SliceContains input needle \<longleftrightarrow> FindInSlice input needle \<noteq> -1"

definition SwapRemove :: "'a list \<Rightarrow> nat \<Rightarrow> 'a list option" where
  "SwapRemove input i =
     (if i < length input then Some (butlast (input[i := last input])) else None)"

function drain_swap :: "('a \<Rightarrow> 's \<Rightarrow> bool \<times> 's) \<Rightarrow> nat \<Rightarrow> 'a list \<Rightarrow> 's \<Rightarrow> 'a list \<times> 's" where
  "drain_swap predicate i xs s =
     (if i < length xs then
        let (keep, s') = predicate (xs ! i) s
        in if keep then drain_swap predicate (Suc i) xs s'
           else drain_swap predicate i (butlast (xs[i := last xs])) s'
      else (xs, s))"
  by pat_completeness auto
termination by (relation "measure (\<lambda>(p, i, xs, s). length xs - i)") auto

definition DrainSliceUnordered :: "('a \<Rightarrow> 's \<Rightarrow> bool \<times> 's) \<Rightarrow> 'a list \<Rightarrow> 's \<Rightarrow> 'a list \<times> 's" where
  "DrainSliceUnordered predicate xs s = drain_swap predicate 0 xs s"

text \<open>The two loops of \<open>DrainSliceOrdered\<close>: compaction to the front, then the
  swap-removal of the unordered variant, then the cut at the writer index.\<close>

function drain_copy :: "('a \<Rightarrow> bool) \<Rightarrow> nat \<Rightarrow> nat \<Rightarrow> 'a list \<Rightarrow> nat \<times> 'a list" where
  "drain_copy predicate writer reader xs =
     (if reader < length xs then
        if predicate (xs ! reader)
        then drain_copy predicate (Suc writer) (Suc reader) (xs[writer := xs ! reader])
        else drain_copy predicate writer (Suc reader) xs
      else (writer, xs))"
  by pat_completeness auto
termination by (relation "measure (\<lambda>(p, w, r, xs). length xs - r)") auto

definition DrainSliceOrdered :: "('a \<Rightarrow> bool) \<Rightarrow> 'a list \<Rightarrow> 'a list option" where
  "DrainSliceOrdered predicate xs =
     (let (writer, ys) = drain_copy predicate 0 0 xs;
          zs = fst (drain_swap (\<lambda>x s. (predicate x, s)) 0 ys ())
      in if writer \<le> length zs then Some (take writer zs) else None)"

definition AppendSliceCopy :: "'a list \<Rightarrow> 'a list \<Rightarrow> 'a list" where
  "AppendSliceCopy immutable suffix = immutable @ suffix"

text \<open>The returned pointer is an index into the new slice.\<close>

definition GetOrAppendSliceWith :: "'a list \<Rightarrow> ('a \<Rightarrow> bool) \<Rightarrow> (unit \<Rightarrow> 'a) \<Rightarrow> 'a list \<times> nat" where
  "GetOrAppendSliceWith xs predicate ctor =
     (let i = FindInSliceWith xs predicate
      in if i \<noteq> -1 then (xs, nat i) else (xs @ [ctor ()], length xs))"

definition GetOrAppend :: "'a \<Rightarrow> 'a list \<Rightarrow> ('a \<Rightarrow> bool) \<Rightarrow> 'a list \<times> nat" where
  "GetOrAppend zero xs predicate = GetOrAppendSliceWith xs predicate (\<lambda>_. zero)"

definition ClearSlice :: "'a list \<Rightarrow> 'a list" where
  "ClearSlice xs = take 0 xs"

definition ForEachRef :: "'a list \<Rightarrow> ('a \<Rightarrow> 'a) \<Rightarrow> 'a list" where
  "ForEachRef xs eachFn = map eachFn xs"

section \<open>Searching\<close>

lemma find_from_spec:
  "(find_from k xs P = -1 \<and> list_all (\<lambda>x. \<not> P x) xs)
   \<or> (\<exists>i < length xs. find_from k xs P = k + int i \<and> P (xs ! i) \<and> list_all (\<lambda>x. \<not> P x) (take i xs))"
proof (induction xs arbitrary: k)
  case (Cons x xs)
  show ?case
  proof (cases "P x")
    case False
    from Cons.IH[of "k + 1"] show ?thesis
    proof (elim disjE exE conjE)
      fix i assume "i < length xs" "find_from (k + 1) xs P = k + 1 + int i" "P (xs ! i)"
        "list_all (\<lambda>x. \<not> P x) (take i xs)"
      with False show ?thesis by (intro disjI2 exI[of _ "Suc i"]) simp
    qed (use False in simp)
  qed auto
qed simp

lemma FindInSliceWith_cases:
  obtains (none) "FindInSliceWith xs P = -1" "list_all (\<lambda>x. \<not> P x) xs"
  | (some) i where "i < length xs" "FindInSliceWith xs P = int i" "P (xs ! i)"
      "list_all (\<lambda>x. \<not> P x) (take i xs)"
  using find_from_spec[of 0 xs P] by (auto simp: FindInSliceWith_def)

lemma FindInSliceWith_none [simp]:
  "FindInSliceWith xs P = -1 \<longleftrightarrow> (\<forall>x \<in> set xs. \<not> P x)"
  by (rule FindInSliceWith_cases[of xs P]) (auto simp: list_all_iff)

lemma FindInSliceWith_nth:
  "FindInSliceWith xs P \<noteq> -1 \<Longrightarrow>
   nat (FindInSliceWith xs P) < length xs \<and> P (xs ! nat (FindInSliceWith xs P))"
  by (rule FindInSliceWith_cases[of xs P]) auto

lemma find_from_shift:
  "0 \<le> k \<Longrightarrow> find_from (k + 1) xs P = (if find_from k xs P = -1 then -1 else find_from k xs P + 1)"
proof (induction xs arbitrary: k)
  case (Cons x xs)
  show ?case using Cons.IH[of "k + 1"] Cons.prems by (cases "P x") auto
qed simp

lemma FindInSliceWith_Nil [simp]: "FindInSliceWith [] P = -1"
  by (simp add: FindInSliceWith_def)

lemma FindInSliceWith_Cons:
  "FindInSliceWith (x # xs) P =
     (if P x then 0 else if FindInSliceWith xs P = -1 then -1 else FindInSliceWith xs P + 1)"
  using find_from_shift[of 0 xs P] by (simp add: FindInSliceWith_def)

lemma FindInSliceWith_nonneg: "FindInSliceWith xs P \<noteq> -1 \<Longrightarrow> 0 \<le> FindInSliceWith xs P"
  by (rule FindInSliceWith_cases[of xs P]) auto

text \<open>Updating the entry that \<open>GetOrAppendSliceWith\<close> gives, as a recursion.\<close>

fun update_or_append :: "('a \<Rightarrow> bool) \<Rightarrow> ('a \<Rightarrow> 'a) \<Rightarrow> 'a \<Rightarrow> 'a list \<Rightarrow> 'a list" where
  "update_or_append P f z [] = [f z]"
| "update_or_append P f z (x # xs) = (if P x then f x # xs else x # update_or_append P f z xs)"

lemma GetOrAppend_update:
  "(case GetOrAppendSliceWith xs P (\<lambda>_. z) of (ys, i) \<Rightarrow> ys[i := f (ys ! i)]) = update_or_append P f z xs"
proof (induction xs)
  case (Cons x xs)
  then show ?case
    using FindInSliceWith_nonneg[of xs P]
    by (auto simp: GetOrAppendSliceWith_def Let_def FindInSliceWith_Cons nat_add_distrib
        simp del: FindInSliceWith_none)
qed (simp add: GetOrAppendSliceWith_def)

lemma SliceContains_eq [simp]: "SliceContains xs x \<longleftrightarrow> x \<in> set xs"
  by (auto simp: SliceContains_def FindInSlice_def)

lemma find_index:
  assumes "i < length xs" "P (xs ! i)" "list_all (\<lambda>x. \<not> P x) (take i xs)"
  shows "List.find P xs = Some (xs ! i)"
  using assms
proof (induction xs arbitrary: i)
  case (Cons x xs) then show ?case by (cases i) auto
qed simp

lemma find_none: "list_all (\<lambda>x. \<not> P x) xs \<Longrightarrow> List.find P xs = None"
  by (induction xs) auto

lemma FindInSliceWith_find:
  "List.find P xs = (if FindInSliceWith xs P = -1 then None else Some (xs ! nat (FindInSliceWith xs P)))"
proof (rule FindInSliceWith_cases[of xs P])
  fix i assume "i < length xs" "FindInSliceWith xs P = int i" "P (xs ! i)"
    "list_all (\<lambda>x. \<not> P x) (take i xs)"
  then show ?thesis using find_index[of i xs P] by (simp del: FindInSliceWith_none)
qed (simp add: find_none del: FindInSliceWith_none)

section \<open>Mapping and collecting\<close>

lemma map_slice_loop_eq:
  "i + length xs = length out \<Longrightarrow> map_slice_loop fn xs i out = take i out @ map fn xs"
proof (induction xs arbitrary: i out)
  case (Cons x xs)
  then have "take (Suc i) (out[i := fn x]) = take i out @ [fn x]"
    by (simp add: take_Suc_conv_app_nth)
  with Cons show ?case by simp
qed simp

lemma MapSlice_eq [simp]: "MapSlice zero xs fn = map fn xs"
  by (simp add: MapSlice_def map_slice_loop_eq)

lemma CountSlice_eq: "CountSlice xs P = int (length (filter P xs))"
proof -
  have "foldl (\<lambda>count x. if P x then count + 1 else count) n xs = n + int (length (filter P xs))" for n :: int
    by (induction xs arbitrary: n) auto
  then show ?thesis by (simp add: CountSlice_def)
qed

lemma SliceToMap_acc:
  "map_of (foldl (\<lambda>out x. map_put (keyFn x) x out) m xs) k =
     (case List.find (\<lambda>x. keyFn x = k) (rev xs) of Some x \<Rightarrow> Some x | None \<Rightarrow> map_of m k)"
proof (induction xs arbitrary: m)
  case (Cons x xs)
  have "List.find P (ys @ [z]) = (case List.find P ys of Some y \<Rightarrow> Some y | None \<Rightarrow> if P z then Some z else None)"
    for P and ys :: "'a list" and z by (induction ys) auto
  then show ?case using Cons by (auto split: option.splits)
qed simp

section \<open>Removing\<close>

lemma SwapRemove_mset: "SwapRemove xs i = Some ys \<Longrightarrow> mset ys = mset xs - {#xs ! i#}"
  using mset_eq_swap_last[of i xs] by (auto simp: SwapRemove_def split: if_splits)

declare drain_swap.simps [simp del] drain_copy.simps [simp del]

lemma swap_remove_take:
  assumes "i < length xs"
  shows "take i (butlast (xs[i := last xs])) = take i xs"
  using assms by (simp add: take_butlast)

lemma swap_remove_drop:
  assumes "i < length xs"
  shows "mset (drop i (butlast (xs[i := last xs]))) = mset (drop (Suc i) xs)"
proof -
  have "mset (butlast (xs[i := last xs])) + {#xs ! i#} = mset xs"
    using mset_eq_swap_last[OF assms] assms by simp
  moreover have "mset xs = mset (take i xs) + {#xs ! i#} + mset (drop (Suc i) xs)"
    using id_take_nth_drop[OF assms] by (metis mset.simps(2) mset_append union_mset_add_mset_right
        add_mset_add_single union_assoc union_commute)
  moreover have "mset (butlast (xs[i := last xs])) =
      mset (take i xs) + mset (drop i (butlast (xs[i := last xs])))"
    by (metis append_take_drop_id mset_append swap_remove_take[OF assms])
  ultimately show ?thesis by simp
qed

text \<open>The pure case: what is before the index stays, and of the rest exactly the elements that
  satisfy the predicate remain, in some order.\<close>

lemma drain_swap_pure:
  fixes P :: "'a \<Rightarrow> bool" and f :: "'a \<Rightarrow> 's \<Rightarrow> 's"
  assumes "i \<le> length xs"
  shows "take i (fst (drain_swap (\<lambda>x s. (P x, f x s)) i xs s)) = take i xs
    \<and> mset (drop i (fst (drain_swap (\<lambda>x s. (P x, f x s)) i xs s))) = filter_mset P (mset (drop i xs))
    \<and> i \<le> length (fst (drain_swap (\<lambda>x s. (P x, f x s)) i xs s))"
  using assms
proof (induction "length xs - i" arbitrary: i xs s)
  case 0
  then show ?case by (simp add: drain_swap.simps)
next
  case (Suc n)
  let ?D = "\<lambda>i xs s. fst (drain_swap (\<lambda>x s. (P x, f x s)) i xs s)"
  have lt: "i < length xs" using Suc.hyps(2) by simp
  have drop_i: "drop i xs = xs ! i # drop (Suc i) xs" using lt by (simp add: Cons_nth_drop_Suc)
  show ?case
  proof (cases "P (xs ! i)")
    case keep: True
    let ?R = "?D (Suc i) xs (f (xs ! i) s)"
    have eq: "?D i xs s = ?R" using lt keep by (subst drain_swap.simps) simp
    have "n = length xs - Suc i" "Suc i \<le> length xs" using Suc.hyps(2) lt by simp_all
    then have "take (Suc i) ?R = take (Suc i) xs
      \<and> mset (drop (Suc i) ?R) = filter_mset P (mset (drop (Suc i) xs)) \<and> Suc i \<le> length ?R"
      by (rule Suc.hyps(1))
    then have ih: "take (Suc i) ?R = take (Suc i) xs"
      "mset (drop (Suc i) ?R) = filter_mset P (mset (drop (Suc i) xs))" "Suc i \<le> length ?R"
      by blast+
    have "?R ! i = take (Suc i) ?R ! i" by simp
    also have "\<dots> = xs ! i" unfolding ih(1) by simp
    finally have "drop i ?R = xs ! i # drop (Suc i) ?R"
      using Cons_nth_drop_Suc[of i ?R] Suc_le_lessD[OF ih(3)] by simp
    moreover have "take i ?R = take i xs" using arg_cong[OF ih(1), of "take i"] by simp
    ultimately show ?thesis using keep ih unfolding eq drop_i by simp
  next
    case drop: False
    let ?ys = "butlast (xs[i := last xs])"
    let ?R = "?D i ?ys (f (xs ! i) s)"
    have eq: "?D i xs s = ?R" using lt drop by (subst drain_swap.simps) simp
    have "n = length ?ys - i" "i \<le> length ?ys" using Suc.hyps(2) lt by simp_all
    then have "take i ?R = take i ?ys \<and> mset (drop i ?R) = filter_mset P (mset (drop i ?ys)) \<and> i \<le> length ?R"
      by (rule Suc.hyps(1))
    then show ?thesis
      using drop swap_remove_take[OF lt] swap_remove_drop[OF lt] unfolding eq drop_i by simp
  qed
qed

text \<open>An index that has only kept elements before it can be skipped.\<close>

lemma drain_swap_skip:
  assumes "w \<le> length xs" "\<forall>j < w. P (xs ! j)" "i \<le> w"
  shows "drain_swap (\<lambda>x s. (P x, s)) i xs s = drain_swap (\<lambda>x s. (P x, s)) w xs s"
  using assms(3)
proof (induction "w - i" arbitrary: i)
  case (Suc n)
  then have "i < length xs" "P (xs ! i)" using assms by auto
  then have "drain_swap (\<lambda>x s. (P x, s)) i xs s = drain_swap (\<lambda>x s. (P x, s)) (Suc i) xs s"
    by (subst drain_swap.simps) simp
  also have "\<dots> = drain_swap (\<lambda>x s. (P x, s)) w xs s"
    using Suc by (intro Suc.hyps(1)) auto
  finally show ?case .
qed simp

lemma drain_copy_eq:
  assumes "writer \<le> reader" "reader \<le> length xs" "drain_copy P writer reader xs = (w, ys)"
  shows "take w ys = take writer xs @ filter P (drop reader xs) \<and> w \<le> length ys"
  using assms
proof (induction "length xs - reader" arbitrary: writer reader xs)
  case 0
  then show ?case by (simp add: drain_copy.simps)
next
  case (Suc n)
  then have lt: "reader < length xs" by simp
  have drop_r: "drop reader xs = xs ! reader # drop (Suc reader) xs"
    using lt by (simp add: Cons_nth_drop_Suc)
  show ?case
  proof (cases "P (xs ! reader)")
    case True
    let ?xs = "xs[writer := xs ! reader]"
    have run: "drain_copy P (Suc writer) (Suc reader) ?xs = (w, ys)"
      using Suc.prems(3) True lt by (subst (asm) drain_copy.simps) simp
    have "n = length ?xs - Suc reader" using Suc.hyps(2) by simp
    then have ih: "take w ys = take (Suc writer) ?xs @ filter P (drop (Suc reader) ?xs) \<and> w \<le> length ys"
      using Suc.hyps(1)[of ?xs "Suc reader" "Suc writer"] Suc.prems(1) lt run by simp
    have "drop (Suc reader) ?xs = drop (Suc reader) xs" using Suc.prems(1) by simp
    moreover have "take (Suc writer) ?xs = take writer xs @ [xs ! reader]"
      using Suc.prems(1) lt by (simp add: take_Suc_conv_app_nth)
    ultimately show ?thesis using ih True drop_r by simp
  next
    case False
    have run: "drain_copy P writer (Suc reader) xs = (w, ys)"
      using Suc.prems(3) False lt by (subst (asm) drain_copy.simps) simp
    have "n = length xs - Suc reader" using Suc.hyps(2) by simp
    then have "take w ys = take writer xs @ filter P (drop (Suc reader) xs) \<and> w \<le> length ys"
      using Suc.hyps(1)[of xs "Suc reader" writer] Suc.prems(1) lt run by simp
    then show ?thesis using False drop_r by simp
  qed
qed

text \<open>\<open>DrainSliceOrdered\<close> is a filter. Although its second loop swaps the
  remaining junk around before the slice is cut, it never panics and returns exactly the
  matching elements in their original order.\<close>

theorem DrainSliceOrdered_is_filter: "DrainSliceOrdered P xs = Some (filter P xs)"
proof -
  obtain w ys where run: "drain_copy P 0 0 xs = (w, ys)" by fastforce
  have copied: "take w ys = filter P xs" "w \<le> length ys"
    using drain_copy_eq[OF _ _ run] by simp_all
  have "\<forall>j < w. P (ys ! j)"
  proof (intro allI impI)
    fix j assume "j < w"
    then have "ys ! j \<in> set (take w ys)" using copied(2) by (auto simp: in_set_conv_nth intro!: exI[of _ j])
    then show "P (ys ! j)" using copied(1) by simp
  qed
  then have skip: "drain_swap (\<lambda>x s. (P x, s)) 0 ys () = drain_swap (\<lambda>x s. (P x, s)) w ys ()"
    by (intro drain_swap_skip) (use copied in auto)
  have "take w (fst (drain_swap (\<lambda>x s. (P x, s)) w ys ())) = take w ys
      \<and> w \<le> length (fst (drain_swap (\<lambda>x s. (P x, s)) w ys ()))"
    using drain_swap_pure[OF copied(2), of P "\<lambda>x s. s" "()"] by simp
  then show ?thesis using copied run skip by (simp add: DrainSliceOrdered_def)
qed

lemma DrainSliceUnordered_mset:
  "mset (fst (DrainSliceUnordered (\<lambda>x s. (P x, f x s)) xs s)) = filter_mset P (mset xs)"
  using drain_swap_pure[of 0 xs P f s] by (simp add: DrainSliceUnordered_def)

text \<open>\<open>GetOrAppendSliceWith\<close> gives an entry that satisfies the predicate, provided a fresh one
  does, and changes nothing else.\<close>

lemma GetOrAppendSliceWith_spec:
  assumes "GetOrAppendSliceWith xs P ctor = (ys, i)" "P (ctor ())"
  shows "i < length ys" "P (ys ! i)" "ys = xs \<or> ys = xs @ [ctor ()] \<and> (\<forall>x \<in> set xs. \<not> P x)"
  using assms FindInSliceWith_nth[of xs P]
  by (auto simp: GetOrAppendSliceWith_def Let_def split: if_splits)

end
