(* ===== verification/PodStatus.thy ===== *)
theory PodStatus
  imports Apis Slices
begin

text \<open>
  Pod health as \<open>util/pod/status.go\<close> reads it from a pod object. The clock is the
  current instant; the optional requeue period that \<open>IsPodAvailable\<close> may shorten is
  threaded as state, \<open>None\<close> in the outer option when the caller passed nil.
\<close>

record PodStatus =
  IsScheduled :: bool
  IsRunning :: bool
  IsReady :: bool
  IsAvailable :: bool

definition isPodConditionTrue :: "Pod \<Rightarrow> string \<Rightarrow> bool" where
  "isPodConditionTrue pod ct =
     list_ex (\<lambda>c. CondType c = ct \<and> CondStatus c = ''True'') (Conditions pod)"

type_synonym requeue = "duration option option"

definition shorten_requeue :: "requeue \<Rightarrow> duration \<Rightarrow> requeue" where
  "shorten_requeue r d = map_option (\<lambda>cur. Some (case cur of None \<Rightarrow> d | Some b \<Rightarrow> min b d)) r"

definition IsPodAvailable :: "gotime \<Rightarrow> Pod \<Rightarrow> int32 \<Rightarrow> requeue \<Rightarrow> bool \<times> requeue" where
  "IsPodAvailable now pod minReadySeconds requeue =
     (if \<not> ts_IsZero (DeletionTimestamp (PodMeta pod)) then (False, requeue)
      else let idx = FindInSliceWith (Conditions pod) (\<lambda>c. CondType c = ''Ready'')
      in if idx = -1 then (False, requeue)
      else let readyCondition = Conditions pod ! nat idx
      in if CondStatus readyCondition \<noteq> ''True'' then (False, requeue)
      else let readyTime = time_Sub now (LastTransitionTime readyCondition);
               minReadyDuration = i64 (minReadySeconds * Second)
      in if readyTime < minReadyDuration
         then (False, shorten_requeue requeue (i64 (minReadyDuration - readyTime)))
         else (True, requeue))"

definition GetPodStatus :: "gotime \<Rightarrow> Pod \<Rightarrow> int32 \<Rightarrow> requeue \<Rightarrow> PodStatus \<times> requeue" where
  "GetPodStatus now pod minReadySeconds requeue =
     (let (avail, r) = IsPodAvailable now pod minReadySeconds requeue
      in (\<lparr>IsScheduled = isPodConditionTrue pod ''PodScheduled'',
           IsRunning = (Phase pod = ''Running''),
           IsReady = isPodConditionTrue pod ''Ready'',
           IsAvailable = avail\<rparr>, r))"

section \<open>Availability\<close>

lemma i64_seconds: "is_int32 m \<Longrightarrow> i64 (m * Second) = m * Second"
  by (simp add: i64_id is_int64_def is_int32_def Second_def)

lemma time_Sub_less_iff:
  assumes "is_int32 m" shows "time_Sub a b < m * Second \<longleftrightarrow> a - b < m * Second"
  using assms unfolding time_Sub_def Second_def MinInt64_def MaxInt64_def is_int32_def by linarith

text \<open>The pod's readiness as the availability check sees it: the transition time of its first
  Ready condition when that condition is true and the pod is not terminating.\<close>

definition ready_since :: "Pod \<Rightarrow> gotime option" where
  "ready_since pod =
     (if \<not> ts_IsZero (DeletionTimestamp (PodMeta pod)) then None
      else case List.find (\<lambda>c. CondType c = ''Ready'') (Conditions pod) of
        Some c \<Rightarrow> if CondStatus c = ''True'' then Some (LastTransitionTime c) else None
      | None \<Rightarrow> None)"

lemma IsPodAvailable_eq:
  assumes "is_int32 m"
  shows "IsPodAvailable now pod m r =
    (case ready_since pod of
       None \<Rightarrow> (False, r)
     | Some t \<Rightarrow> if now - t \<ge> m * Second then (True, r)
                 else (False, shorten_requeue r (i64 (m * Second - time_Sub now t))))"
  by (simp add: IsPodAvailable_def ready_since_def Let_def FindInSliceWith_find i64_seconds[OF assms]
      time_Sub_less_iff[OF assms] not_less del: FindInSliceWith_none)

text \<open>A pod is available exactly when it is not terminating, its first Ready condition
  is true and that condition has held for the minimum ready time; the 32-bit number of seconds
  never overflows the duration. When only the time is missing and the caller asked for a
  requeue period, the period is set to at most the time that is missing, and after that time
  the pod is available.\<close>

theorem IsPodAvailable_correct:
  assumes "is_int32 m" and "r = Some q"
  shows "fst (IsPodAvailable now pod m r) =
           (case ready_since pod of None \<Rightarrow> False | Some t \<Rightarrow> m * Second \<le> now - t)
     \<and> (\<forall>t. ready_since pod = Some t \<and> now - t < m * Second \<and> is_int64 (now - t)
           \<and> is_int64 (m * Second - (now - t)) \<longrightarrow>
         (\<exists>d. snd (IsPodAvailable now pod m r) = Some (Some d)
           \<and> d = (case q of None \<Rightarrow> m * Second - (now - t) | Some b \<Rightarrow> min b (m * Second - (now - t)))
           \<and> fst (IsPodAvailable (now + (m * Second - (now - t))) pod m r)))"
proof -
  have "\<exists>d. snd (IsPodAvailable now pod m r) = Some (Some d)
           \<and> d = (case q of None \<Rightarrow> m * Second - (now - t) | Some b \<Rightarrow> min b (m * Second - (now - t)))
           \<and> fst (IsPodAvailable (now + (m * Second - (now - t))) pod m r)"
    if t: "ready_since pod = Some t" and w: "is_int64 (now - t)" "is_int64 (m * Second - (now - t))"
      and lt: "now - t < m * Second" for t
  proof -
    have "time_Sub now t = now - t"
      using w(1) by (simp add: time_Sub_def is_int64_def MinInt64_def MaxInt64_def)
    then show ?thesis
      using t lt w(2) assms(2)
      by (simp add: IsPodAvailable_eq[OF assms(1)] shorten_requeue_def i64_id split: option.split)
  qed
  then show ?thesis by (auto simp: IsPodAvailable_eq[OF assms(1)] split: option.split)
qed

definition sample_pod :: "gotime \<Rightarrow> Pod" where
  "sample_pod t = \<lparr>PodMeta = \<lparr>Name = ''web-1'', Namespace = ''default'', UID = ''p1'',
       ResourceVersion = ''3'', CreationTimestamp = 1, DeletionTimestamp = None,
       Labels = [(''app'', ''web'')], Annotations = [], Finalizers = [], OwnerReferences = []\<rparr>,
     Phase = ''Running'',
     Conditions = [\<lparr>CondType = ''Ready'', CondStatus = ''True'', LastProbeTime = 0,
       LastTransitionTime = t\<rparr>], NodeName = ''node-1''\<rparr>"

theorem IsPodAvailable_correct_witness:
  "fst (IsPodAvailable 5000000000 (sample_pod 1000000000) 3 (Some None))
   \<and> \<not> fst (IsPodAvailable 5000000000 (sample_pod 1000000000) 10 (Some None))
   \<and> snd (IsPodAvailable 5000000000 (sample_pod 1000000000) 10 (Some None)) = Some (Some 6000000000)"
  using IsPodAvailable_correct[of 3 "Some None" None 5000000000 "sample_pod 1000000000"]
    IsPodAvailable_correct[of 10 "Some None" None 5000000000 "sample_pod 1000000000"]
  by (auto simp: sample_pod_def ready_since_def ts_IsZero_def is_int32_def is_int64_def Second_def)

end
