(* ===== verification/Quota.thy ===== *)
theory Quota
  imports Apis GoOptional PodStatus
begin

text \<open>
  The disruption quota of the webhook (\<open>webhook/handler/disruptionquota/quota.go\<close>):
  given the summary of a PodProtector and a batch of pods about to be disrupted, decide which
  of them may proceed.
\<close>

section \<open>Types and operations\<close>

text \<open>\<open>healthcriterion.Type\<close> is a \<open>uint8\<close>; \<open>OtherCriterion\<close> stands for
  the values the switch statements send to their default branch.\<close>

datatype HealthCriterionType = CritScheduled | CritRunning | CritReady | CritAvailable | OtherCriterion nat

record QuotaPodStatus =
  HealthCriterion :: HealthCriterionType
  qStatus :: PodStatus

record Threshold =
  Reject :: int32
  Retry :: int32
  Remaining :: "int32 Optional"

record State =
  Scheduled :: int32
  Running :: int32
  Ready :: int32
  Available :: int32
  stThreshold :: Threshold

datatype Result = ResultOk | ResultAlreadyUnhealthy | ResultRetry | ResultDenied

definition MakeState :: "PodProtector \<Rightarrow> Computed \<Rightarrow> State" where
  "MakeState ppr config =
     (let summary = Summary (Status ppr);
          lag = i32 (AggregatedAvailable summary - EstimatedAvailable summary)
      in \<lparr>Scheduled = AggregatedScheduled summary,
          Running = AggregatedRunning summary,
          Ready = AggregatedReady summary,
          Available = AggregatedAvailable summary,
          stThreshold = \<lparr>Reject = MinAvailable (Spec ppr),
            Retry = i32 (MinAvailable (Spec ppr) + lag),
            Remaining = opt_Map 0 (IfNonZero 0 (MaxConcurrentLag config))
              (\<lambda>maxLag. i32 (maxLag - lag))\<rparr>\<rparr>)"

definition ShouldDisrupt :: "Result \<Rightarrow> bool" where
  "ShouldDisrupt result \<longleftrightarrow> result = ResultOk \<or> result = ResultAlreadyUnhealthy"

definition getResultForCriterion :: "int32 \<Rightarrow> bool \<Rightarrow> Threshold \<Rightarrow> Result" where
  "getResultForCriterion current isContributor threshold =
     (if \<not> isContributor then ResultAlreadyUnhealthy
      else if current \<le> Reject threshold then ResultDenied
      else if current \<le> Retry threshold then ResultRetry
      else ResultOk)"

definition getResult :: "State \<Rightarrow> QuotaPodStatus \<Rightarrow> Result" where
  "getResult state podStatus =
     (if Remaining (stThreshold state) = opt_Some 0 then ResultRetry
      else case HealthCriterion podStatus of
        CritScheduled \<Rightarrow>
          getResultForCriterion (Scheduled state) (IsScheduled (qStatus podStatus)) (stThreshold state)
      | CritRunning \<Rightarrow>
          getResultForCriterion (Running state) (IsRunning (qStatus podStatus)) (stThreshold state)
      | CritReady \<Rightarrow>
          getResultForCriterion (Ready state) (IsReady (qStatus podStatus)) (stThreshold state)
      | _ \<Rightarrow>
          getResultForCriterion (Available state) (IsAvailable (qStatus podStatus)) (stThreshold state))"

definition disruptState :: "State \<Rightarrow> QuotaPodStatus \<Rightarrow> State" where
  "disruptState s podStatus =
     (let st = qStatus podStatus;
          s1 = (if IsScheduled st then s\<lparr>Scheduled := i32 (Scheduled s - 1)\<rparr> else s);
          s2 = (if IsRunning st then s1\<lparr>Running := i32 (Running s1 - 1)\<rparr> else s1);
          s3 = (if IsReady st then s2\<lparr>Ready := i32 (Ready s2 - 1)\<rparr> else s2);
          s4 = (if IsAvailable st then s3\<lparr>Available := i32 (Available s3 - 1)\<rparr> else s3)
      in s4\<lparr>stThreshold := (stThreshold s4)\<lparr>Remaining :=
            update_through_ref (Remaining (stThreshold s4)) (\<lambda>t. i32 (t - 1))\<rparr>\<rparr>)"

definition AdmitBatchItem :: "State \<Rightarrow> QuotaPodStatus \<Rightarrow> Result \<times> State" where
  "AdmitBatchItem state podStatus =
     (let result = getResult state podStatus
      in (result, if ShouldDisrupt result then disruptState state podStatus else state))"

text \<open>The loop of \<open>AdmitBatch\<close>, from index \<open>n - 1\<close> down to 0, filling the
  result array.\<close>

fun admit_loop :: "State \<Rightarrow> QuotaPodStatus list \<Rightarrow> Result list \<Rightarrow> nat \<Rightarrow> Result list" where
  "admit_loop state podStatuses resultArray 0 = resultArray"
| "admit_loop state podStatuses resultArray (Suc i) =
     (let (result, state') = AdmitBatchItem state (podStatuses ! i)
      in admit_loop state' podStatuses (resultArray[i := result]) i)"

definition AdmitBatch :: "PodProtector \<Rightarrow> QuotaPodStatus list \<Rightarrow> Computed \<Rightarrow> Result list" where
  "AdmitBatch ppr podStatuses config =
     admit_loop (MakeState ppr config) podStatuses
       (replicate (length podStatuses) ResultOk) (length podStatuses)"

section \<open>The batch as a recursion from the last request\<close>

text \<open>\<open>admit_down\<close> takes the pods latest first and threads the state.\<close>

fun admit_down :: "State \<Rightarrow> QuotaPodStatus list \<Rightarrow> Result list \<times> State" where
  "admit_down s [] = ([], s)"
| "admit_down s (p # ps) =
     (let (r, s1) = AdmitBatchItem s p; (rs, s2) = admit_down s1 ps in (r # rs, s2))"

lemma admit_down_Cons:
  "admit_down s (p # ps) =
     (fst (AdmitBatchItem s p) # fst (admit_down (snd (AdmitBatchItem s p)) ps),
      snd (admit_down (snd (AdmitBatchItem s p)) ps))"
  by (simp add: Let_def split: prod.splits)

declare admit_down.simps(2) [simp del]
declare admit_down_Cons [simp]

lemma admit_down_length [simp]: "length (fst (admit_down s ps)) = length ps"
  by (induction ps arbitrary: s) auto

lemma admit_loop_eq:
  "length arr = length ps \<Longrightarrow> n \<le> length ps \<Longrightarrow>
   admit_loop s ps arr n = rev (fst (admit_down s (rev (take n ps)))) @ drop n arr"
proof (induction n arbitrary: s arr)
  case (Suc n)
  have "rev (take (Suc n) ps) = ps ! n # rev (take n ps)"
    using Suc.prems by (simp add: take_Suc_conv_app_nth)
  moreover have "drop n (arr[n := r]) = r # drop (Suc n) arr" for r
    using Suc.prems by (metis Cons_nth_drop_Suc drop_update_cancel lessI Suc_le_lessD
        length_list_update nth_list_update_eq)
  ultimately show ?case
    using Suc by (simp add: case_prod_beta)
qed simp

lemma AdmitBatch_eq:
  "AdmitBatch ppr ps config = rev (fst (admit_down (MakeState ppr config) (rev ps)))"
  by (simp add: AdmitBatch_def admit_loop_eq)

section \<open>One criterion at a time\<close>

fun current :: "HealthCriterionType \<Rightarrow> State \<Rightarrow> int32" where
  "current CritScheduled s = Scheduled s"
| "current CritRunning s = Running s"
| "current CritReady s = Ready s"
| "current _ s = Available s"

fun contributes :: "HealthCriterionType \<Rightarrow> QuotaPodStatus \<Rightarrow> bool" where
  "contributes CritScheduled p = IsScheduled (qStatus p)"
| "contributes CritRunning p = IsRunning (qStatus p)"
| "contributes CritReady p = IsReady (qStatus p)"
| "contributes _ p = IsAvailable (qStatus p)"

lemma getResult_eq:
  "getResult s p = (if Remaining (stThreshold s) = opt_Some 0 then ResultRetry else
     getResultForCriterion (current (HealthCriterion p) s) (contributes (HealthCriterion p) p) (stThreshold s))"
  by (simp add: getResult_def split: HealthCriterionType.split)

lemma disruptState_threshold [simp]: "stThreshold (disruptState s p) = stThreshold s"
  by (simp add: disruptState_def Let_def)

lemma disruptState_current [simp]:
  "current c (disruptState s p) = (if contributes c p then i32 (current c s - 1) else current c s)"
  by (cases c) (simp_all add: disruptState_def Let_def)

lemma AdmitBatchItem_threshold [simp]:
  "stThreshold (snd (AdmitBatchItem s p)) = stThreshold s"
  by (simp add: AdmitBatchItem_def Let_def)

lemma admit_down_threshold [simp]: "stThreshold (snd (admit_down s ps)) = stThreshold s"
  by (induction ps arbitrary: s) auto

section \<open>The exact verdicts of a batch\<close>

text \<open>The value the counter of a criterion must exceed for a disruption to be admitted, and
  the verdict when it does not.\<close>

definition floor_of :: "Threshold \<Rightarrow> int" where
  "floor_of t = max (Reject t) (Retry t)"

definition refusal :: "int \<Rightarrow> Threshold \<Rightarrow> Result" where
  "refusal cur t = (if min cur (floor_of t) \<le> Reject t then ResultDenied else ResultRetry)"

lemma getResultForCriterion_eq:
  "getResultForCriterion cur contrib t =
     (if \<not> contrib then ResultAlreadyUnhealthy
      else if floor_of t < cur then ResultOk else refusal cur t)"
  by (auto simp: getResultForCriterion_def floor_of_def refusal_def)

lemma AdmitBatchItem_eq:
  assumes "Remaining (stThreshold s) \<noteq> opt_Some 0"
  shows "AdmitBatchItem s p =
    (let c = HealthCriterion p; t = stThreshold s
     in if \<not> contributes c p then (ResultAlreadyUnhealthy, disruptState s p)
        else if floor_of t < current c s then (ResultOk, disruptState s p)
        else (refusal (current c s) t, s))"
  using assms
  by (simp add: AdmitBatchItem_def Let_def getResult_eq getResultForCriterion_eq ShouldDisrupt_def
      refusal_def)

lemma admit_down_exact:
  assumes "Remaining (stThreshold s) \<noteq> opt_Some 0" "is_int32 (current c s)"
    "is_int32 (floor_of (stThreshold s))" "\<forall>p \<in> set ps. HealthCriterion p = c" "i < length ps"
  shows "fst (admit_down s ps) ! i =
    (if \<not> contributes c (ps ! i) then ResultAlreadyUnhealthy
     else if int (length (filter (contributes c) (take i ps))) < current c s - floor_of (stThreshold s)
     then ResultOk else refusal (current c s) (stThreshold s))"
  using assms
proof (induction ps arbitrary: s i)
  case (Cons p ps)
  let ?t = "stThreshold s" and ?cur = "current c s"
  have crit: "HealthCriterion p = c" using Cons.prems(4) by simp
  note item = AdmitBatchItem_eq[OF Cons.prems(1), of p, unfolded crit]
  show ?case
  proof (cases i)
    case 0
    then show ?thesis using item by (simp add: Let_def)
  next
    case (Suc j)
    with Cons.prems have j: "j < length ps" "\<forall>p \<in> set ps. HealthCriterion p = c" by auto
    consider "\<not> contributes c p" | "contributes c p" "floor_of ?t < ?cur" | "contributes c p" "\<not> floor_of ?t < ?cur"
      by blast
    then show ?thesis
    proof cases
      case 1
      then show ?thesis
        using item Cons.prems Cons.IH[of "disruptState s p" j] j by (simp add: Suc Let_def)
    next
      case 2
      then have wrap: "i32 (?cur - 1) = ?cur - 1" "is_int32 (?cur - 1)"
        using Cons.prems(2,3) by (simp_all add: i32_id is_int32_def)
      moreover have "refusal (?cur - 1) ?t = refusal ?cur ?t"
        using 2(2) by (simp add: refusal_def min_def)
      ultimately show ?thesis
        using item 2 Cons.prems Cons.IH[of "disruptState s p" j] j
        by (simp add: Suc Let_def wrap algebra_simps)
    next
      case 3
      then show ?thesis
        using item Cons.prems Cons.IH[of s j] j by (simp add: Suc Let_def)
    qed
  qed
qed simp

lemma admit_down_exhausted:
  "Remaining (stThreshold s) = opt_Some 0 \<Longrightarrow>
   fst (admit_down s ps) = replicate (length ps) ResultRetry"
  by (induction ps arbitrary: s) (simp_all add: AdmitBatchItem_def getResult_def ShouldDisrupt_def)

section \<open>Mixed criteria\<close>

text \<open>The criterion that decides: everything the switch does not know is availability.\<close>

fun effective :: "HealthCriterionType \<Rightarrow> HealthCriterionType" where
  "effective (OtherCriterion _) = CritAvailable"
| "effective c = c"

lemma current_effective [simp]: "current (effective c) s = current c s"
  by (cases c) auto

lemma contributes_effective [simp]: "contributes (effective c) p = contributes c p"
  by (cases c) auto

lemma current_by_effective: "effective c = effective d \<Longrightarrow> current c s = current d s"
  by (metis current_effective)

lemma contributes_by_effective: "effective c = effective d \<Longrightarrow> contributes c p = contributes d p"
  by (metis contributes_effective)

definition admitted_for :: "HealthCriterionType \<Rightarrow> (QuotaPodStatus \<times> Result) list \<Rightarrow> int" where
  "admitted_for c prs = int (length (filter
     (\<lambda>(p, r). effective (HealthCriterion p) = effective c \<and> r = ResultOk) prs))"

lemma admitted_for_simps [simp]:
  "admitted_for c [] = 0"
  "admitted_for c ((p, r) # prs) =
     (if effective (HealthCriterion p) = effective c \<and> r = ResultOk then 1 else 0) + admitted_for c prs"
  by (simp_all add: admitted_for_def)

lemma admit_down_quota:
  assumes "is_int32 (current c s - int (length ps))" "is_int32 (current c s)"
  shows "admitted_for c (zip ps (fst (admit_down s ps)))
    \<le> max 0 (current c s - floor_of (stThreshold s))"
  using assms
proof (induction ps arbitrary: s)
  case (Cons p ps)
  show ?case
  proof (cases "Remaining (stThreshold s) = opt_Some 0")
    case True
    then have "AdmitBatchItem s p = (ResultRetry, s)"
      by (simp add: AdmitBatchItem_def getResult_def ShouldDisrupt_def)
    then show ?thesis using Cons.IH[of s] Cons.prems by (simp add: is_int32_def)
  next
    case False
    note item = AdmitBatchItem_eq[OF False, of p]
    have step: "i32 (current c s - 1) = current c s - 1"
      using Cons.prems by (simp add: i32_id is_int32_def)
    have IH: "admitted_for c (zip ps (fst (admit_down s' ps))) \<le> max 0 (current c s' - floor_of (stThreshold s))"
      if "s' = s \<or> s' = disruptState s p" for s'
      using that Cons.IH[of s'] Cons.prems step by (auto simp: is_int32_def split: if_splits)
    show ?thesis
    proof (cases "effective (HealthCriterion p) = effective c \<and> fst (AdmitBatchItem s p) = ResultOk")
      case True
      then have "contributes c p" "floor_of (stThreshold s) < current c s"
        using item current_by_effective[of "HealthCriterion p" c s]
          contributes_by_effective[of "HealthCriterion p" c p]
        by (auto simp: Let_def refusal_def split: if_splits)
      then show ?thesis
        using True item IH[of "disruptState s p"] step by (auto simp: Let_def refusal_def split: if_splits)
    next
      case False
      then have "admitted_for c (zip (p # ps) (fst (admit_down s (p # ps)))) =
        admitted_for c (zip ps (fst (admit_down (snd (AdmitBatchItem s p)) ps)))" by auto
      also have "\<dots> \<le> max 0 (current c (snd (AdmitBatchItem s p)) - floor_of (stThreshold s))"
        by (rule IH) (simp add: item Let_def)
      also have "current c (snd (AdmitBatchItem s p)) \<le> current c s"
        using step by (simp add: item Let_def)
      finally show ?thesis by simp
    qed
  qed
qed simp

section \<open>What the quota guarantees\<close>

definition lag_of :: "PodProtector \<Rightarrow> int32" where
  "lag_of ppr = i32 (AggregatedAvailable (Summary (Status ppr)) - EstimatedAvailable (Summary (Status ppr)))"

lemma MakeState_threshold:
  "stThreshold (MakeState ppr config) = \<lparr>Reject = MinAvailable (Spec ppr),
     Retry = i32 (MinAvailable (Spec ppr) + lag_of ppr),
     Remaining = (if MaxConcurrentLag config = 0 then opt_None 0
                  else opt_Some (i32 (MaxConcurrentLag config - lag_of ppr)))\<rparr>"
  by (simp add: MakeState_def Let_def lag_of_def opt_Map_def IfNonZero_def opt_Some_def opt_None_def)

lemma MakeState_remaining_zero:
  "Remaining (stThreshold (MakeState ppr config)) = opt_Some 0 \<longleftrightarrow>
     MaxConcurrentLag config \<noteq> 0 \<and> i32 (MaxConcurrentLag config - lag_of ppr) = 0"
  by (simp add: MakeState_threshold opt_Some_def opt_None_def)

definition quota_headroom :: "HealthCriterionType \<Rightarrow> PodProtector \<Rightarrow> Computed \<Rightarrow> int" where
  "quota_headroom c ppr config =
     current c (MakeState ppr config) - floor_of (stThreshold (MakeState ppr config))"

text \<open>C14: the exact verdicts of a batch whose pods use one health criterion, for a PodProtector without
  a maximum concurrent lag (\<open>maxConcurrentLag\<close> 0, the default). A pod that is
  already unhealthy is let through at no cost; of the healthy pods exactly the latest ones are
  admitted, as many as the counter of the criterion exceeds the larger of the reject and retry
  thresholds by, and every earlier healthy pod gets the same refusal.\<close>

theorem AdmitBatch_exact:
  assumes "\<forall>p \<in> set ps. HealthCriterion p = c" and "i < length ps"
    and "is_int32 (current c (MakeState ppr config))" and "is_int32 (MinAvailable (Spec ppr))"
    and "MaxConcurrentLag config = 0"
  shows "length (AdmitBatch ppr ps config) = length ps
    \<and> AdmitBatch ppr ps config ! i =
      (if \<not> contributes c (ps ! i) then ResultAlreadyUnhealthy
       else if int (length (filter (contributes c) (drop (Suc i) ps))) < quota_headroom c ppr config
       then ResultOk
       else refusal (current c (MakeState ppr config)) (stThreshold (MakeState ppr config)))"
proof -
  let ?s = "MakeState ppr config"
  let ?j = "length ps - Suc i"
  have j: "?j < length (rev ps)" using assms(2) by auto
  have rem: "Remaining (stThreshold ?s) \<noteq> opt_Some 0"
    using assms(5) by (simp add: MakeState_remaining_zero)
  have fl: "is_int32 (floor_of (stThreshold ?s))"
    using assms(4) is_int32_i32[of "MinAvailable (Spec ppr) + lag_of ppr"]
    by (simp add: MakeState_threshold floor_of_def max_def)
  have "AdmitBatch ppr ps config ! i = fst (admit_down ?s (rev ps)) ! ?j"
    using assms(2) by (simp add: AdmitBatch_eq rev_nth)
  moreover have "rev ps ! ?j = ps ! i" using assms(2) by (simp add: rev_nth)
  moreover have "length (filter (contributes c) (take ?j (rev ps))) =
      length (filter (contributes c) (drop (Suc i) ps))"
    using assms(2) by (simp add: take_rev rev_filter[symmetric])
  ultimately show ?thesis
    using admit_down_exact[OF rem assms(3) fl _ j] assms(1)
    by (simp add: quota_headroom_def AdmitBatch_eq)
qed

lemma AdmitBatch_quota_bound:
  fixes ppr :: PodProtector
  defines "summ \<equiv> Summary (Status ppr)"
  assumes "is_int32 (AggregatedAvailable summ - int (length ps))" and "is_int32 (AggregatedAvailable summ)"
    and "is_int32 (AggregatedAvailable summ - EstimatedAvailable summ)"
    and "is_int32 (MinAvailable (Spec ppr) + (AggregatedAvailable summ - EstimatedAvailable summ))"
  shows "admitted_for CritAvailable (zip ps (AdmitBatch ppr ps config))
    \<le> max 0 (EstimatedAvailable summ - MinAvailable (Spec ppr))"
proof -
  let ?s = "MakeState ppr config"
  have cur: "current CritAvailable ?s = AggregatedAvailable summ"
    by (simp add: MakeState_def Let_def summ_def)
  have "Retry (stThreshold ?s) = MinAvailable (Spec ppr) + (AggregatedAvailable summ - EstimatedAvailable summ)"
    using assms(4,5) by (simp add: MakeState_threshold lag_of_def i32_id summ_def)
  then have fl: "AggregatedAvailable summ - floor_of (stThreshold ?s)
      \<le> EstimatedAvailable summ - MinAvailable (Spec ppr)"
    by (simp add: floor_of_def)
  have "zip ps (AdmitBatch ppr ps config) = rev (zip (rev ps) (fst (admit_down ?s (rev ps))))"
    using zip_rev[of "rev ps" "fst (admit_down ?s (rev ps))"] by (simp add: AdmitBatch_eq)
  then have "admitted_for CritAvailable (zip ps (AdmitBatch ppr ps config)) =
      admitted_for CritAvailable (zip (rev ps) (fst (admit_down ?s (rev ps))))"
    by (simp add: admitted_for_def rev_filter[symmetric])
  also have "\<dots> \<le> max 0 (AggregatedAvailable summ - floor_of (stThreshold ?s))"
    using admit_down_quota[of CritAvailable ?s "rev ps"] assms(2,3) unfolding cur by simp
  finally show ?thesis using fl by linarith
qed

text \<open>C4: the quota is never overdrawn, whatever mix of health criteria a batch contains:
  the number of healthy pods admitted under the availability criterion is at most the estimated
  availability less the required minimum, as long as the counters do not overflow.\<close>

theorem AdmitBatch_within_quota:
  fixes ppr :: PodProtector
  defines "summ \<equiv> Summary (Status ppr)"
  assumes "is_int32 (AggregatedAvailable summ - int (length ps))" and "is_int32 (AggregatedAvailable summ)"
    and "is_int32 (AggregatedAvailable summ - EstimatedAvailable summ)"
    and "is_int32 (MinAvailable (Spec ppr) + (AggregatedAvailable summ - EstimatedAvailable summ))"
  shows "admitted_for CritAvailable (zip ps (AdmitBatch ppr ps config))
    \<le> max 0 (EstimatedAvailable summ - MinAvailable (Spec ppr))"
  using AdmitBatch_quota_bound assms(2-5) unfolding summ_def .

lemma disruptState_remaining:
  "disruptState (s\<lparr>stThreshold := (stThreshold s)\<lparr>Remaining := r\<rparr>\<rparr>) p =
   (disruptState s p)\<lparr>stThreshold := (stThreshold s)\<lparr>Remaining := r\<rparr>\<rparr>"
  by (cases s; cases "stThreshold s") (simp add: disruptState_def Let_def)

lemma admit_down_remaining:
  assumes "Remaining (stThreshold s) \<noteq> opt_Some 0" "r \<noteq> opt_Some 0"
  shows "fst (admit_down (s\<lparr>stThreshold := (stThreshold s)\<lparr>Remaining := r\<rparr>\<rparr>) ps) =
    fst (admit_down s ps)"
  using assms(1)
proof (induction ps arbitrary: s)
  case (Cons p ps)
  let ?u = "\<lambda>s. s\<lparr>stThreshold := (stThreshold s)\<lparr>Remaining := r\<rparr>\<rparr>"
  have cur: "current c (?u s) = current c s" for c by (cases c) simp_all
  have "AdmitBatchItem (?u s) p =
      (fst (AdmitBatchItem s p), ?u (snd (AdmitBatchItem s p)))"
    using Cons.prems assms(2)
    by (simp add: AdmitBatchItem_def getResult_eq Let_def cur disruptState_remaining
        getResultForCriterion_def)
  then show ?case using Cons.IH[of "snd (AdmitBatchItem s p)"] Cons.prems by simp
qed simp

text \<open>The limit on concurrently lagging admissions is not consumed by a batch: it acts
  only when exactly zero admissions remain before the batch, and then every pod is told to
  retry; with any other remainder, negative ones included, a batch of any size gets the same
  verdicts as with no limit.\<close>

theorem AdmitBatch_max_concurrent_lag:
  "AdmitBatch ppr ps config =
     (if MaxConcurrentLag config \<noteq> 0 \<and> i32 (MaxConcurrentLag config - lag_of ppr) = 0
      then replicate (length ps) ResultRetry
      else AdmitBatch ppr ps (config\<lparr>MaxConcurrentLag := 0\<rparr>))"
proof (cases "Remaining (stThreshold (MakeState ppr config)) = opt_Some 0")
  case True
  then show ?thesis
    using MakeState_remaining_zero[of ppr config] by (simp add: AdmitBatch_eq admit_down_exhausted)
next
  case False
  let ?s = "MakeState ppr config"
  have "MakeState ppr (config\<lparr>MaxConcurrentLag := 0\<rparr>) =
      ?s\<lparr>stThreshold := (stThreshold ?s)\<lparr>Remaining := opt_None 0\<rparr>\<rparr>"
    by (simp add: MakeState_def Let_def opt_Map_def IfNonZero_def opt_None_def)
  then show ?thesis
    using admit_down_remaining[OF False, of "opt_None 0" "rev ps"] False
      MakeState_remaining_zero[of ppr config]
    by (auto simp: AdmitBatch_eq opt_Some_def opt_None_def)
qed

section \<open>Witnesses\<close>

definition quota_ppr :: "int \<Rightarrow> int \<Rightarrow> int \<Rightarrow> PodProtector" where
  "quota_ppr minAvail agg est = \<lparr>PprMeta = \<lparr>Name = ''web'', Namespace = ''default'', UID = ''u1'',
       ResourceVersion = ''7'', CreationTimestamp = 1, DeletionTimestamp = None, Labels = [],
       Annotations = [], Finalizers = [], OwnerReferences = []\<rparr>,
     Spec = \<lparr>MinAvailable = minAvail, MinReadySeconds = 0,
             Selector = \<lparr>MatchLabels = [], MatchExpressions = []\<rparr>,
             AggregationSelector = None, HistoryConfig = zero_history_config\<rparr>,
     Status = \<lparr>Cells = [], Summary = zero_summary\<lparr>AggregatedAvailable := agg,
       EstimatedAvailable := est\<rparr>\<rparr>\<rparr>"

definition quota_pod :: "bool \<Rightarrow> QuotaPodStatus" where
  "quota_pod avail = \<lparr>HealthCriterion = CritAvailable,
     qStatus = \<lparr>IsScheduled = True, IsRunning = True, IsReady = True, IsAvailable = avail\<rparr>\<rparr>"

definition quota_config :: Computed where
  "quota_config = \<lparr>MaxConcurrentLag = 0, CompactThreshold = 100, AggregationRate = 5000000000\<rparr>"

lemmas quota_sample_defs = quota_ppr_def quota_pod_def quota_config_def zero_summary_def
  MakeState_def Let_def opt_Map_def IfNonZero_def lag_of_def i32_def is_int32_def

theorem AdmitBatch_exact_witness:
  "AdmitBatch (quota_ppr 3 6 5) [quota_pod True, quota_pod False, quota_pod True, quota_pod True]
     quota_config ! 0 = ResultRetry
   \<and> AdmitBatch (quota_ppr 3 6 5) [quota_pod True, quota_pod False, quota_pod True, quota_pod True]
     quota_config ! 2 = ResultOk"
  using AdmitBatch_exact[of "[quota_pod True, quota_pod False, quota_pod True, quota_pod True]"
      CritAvailable 0 "quota_ppr 3 6 5" quota_config]
    AdmitBatch_exact[of "[quota_pod True, quota_pod False, quota_pod True, quota_pod True]"
      CritAvailable 2 "quota_ppr 3 6 5" quota_config]
  by (simp add: quota_sample_defs quota_headroom_def floor_of_def refusal_def)

theorem AdmitBatch_within_quota_witness:
  "admitted_for CritAvailable (zip [quota_pod True, quota_pod True, quota_pod True]
     (AdmitBatch (quota_ppr 3 6 5) [quota_pod True, quota_pod True, quota_pod True] quota_config)) \<le> 2"
  using AdmitBatch_within_quota[of "quota_ppr 3 6 5" "[quota_pod True, quota_pod True, quota_pod True]"
      quota_config]
  by (simp add: quota_ppr_def zero_summary_def is_int32_def)

end
