(* ===== verification/Errors.thy ===== *)
theory Errors
  imports Slices
begin

text \<open>
  Go error values and the tags of \<open>util/errors\<close>. An error is the tree that
  \<open>Unwrap\<close> exposes: leaves, context errors, Kubernetes API status errors (which carry
  a reason), \<open>fmt.Errorf\<close> wrappers, joins, and the tagged errors of
  \<open>util/errors/tag.go\<close>. A nil error is \<open>None\<close>.
\<close>

section \<open>Errors and tags\<close>

datatype go_error =
    ErrorString string
  | ContextCanceled
  | ContextDeadlineExceeded
  | StatusError string string
  | WrapError string go_error
  | JoinError "go_error list"
  | TaggedError go_error string

text \<open>\<open>errors.Is\<close> against the two context sentinels: the error or anything it wraps.\<close>

fun errors_Is :: "go_error \<Rightarrow> go_error \<Rightarrow> bool" where
  "errors_Is (WrapError m e) target \<longleftrightarrow> WrapError m e = target \<or> errors_Is e target"
| "errors_Is (JoinError es) target \<longleftrightarrow> JoinError es = target \<or> list_ex (\<lambda>e. errors_Is e target) es"
| "errors_Is (TaggedError e t) target \<longleftrightarrow> TaggedError e t = target \<or> errors_Is e target"
| "errors_Is e target \<longleftrightarrow> e = target"

fun strings_Join :: "string list \<Rightarrow> string \<Rightarrow> string" where
  "strings_Join [] sep = []"
| "strings_Join [x] sep = x"
| "strings_Join (x # y # ys) sep = x @ sep @ strings_Join (y # ys) sep"

text \<open>\<open>strings.Split\<close> with a separator of one character.\<close>

fun strings_Split :: "string \<Rightarrow> char \<Rightarrow> string list" where
  "strings_Split [] sep = [[]]"
| "strings_Split (c # cs) sep =
     (if c = sep then [] # strings_Split cs sep
      else case strings_Split cs sep of w # ws \<Rightarrow> (c # w) # ws | [] \<Rightarrow> [[c]])"

text \<open>\<open>strconv.Quote\<close>, the verb \<open>%q\<close>, on printable ASCII text.\<close>

definition sprintf_q :: "string \<Rightarrow> string" where
  "sprintf_q s = CHR 0x22 # concat (map (\<lambda>c. if c = CHR 0x22 \<or> c = CHR 0x5C then [CHR 0x5C, c] else [c]) s) @ [CHR 0x22]"

text \<open>The message of an error, as its \<open>Error\<close> method gives it.\<close>

fun err_Error :: "go_error \<Rightarrow> string" where
  "err_Error (ErrorString m) = m"
| "err_Error ContextCanceled = ''context canceled''"
| "err_Error ContextDeadlineExceeded = ''context deadline exceeded''"
| "err_Error (StatusError reason m) = m"
| "err_Error (WrapError m e) = m @ '': '' @ err_Error e"
| "err_Error (JoinError es) = strings_Join (map err_Error es) [CHR 0x0A]"
| "err_Error (TaggedError e t) = err_Error e"

text \<open>\<open>errors.As\<close> with a \<open>*apierrors.StatusError\<close> target: the first status error
  of the tree.\<close>

fun as_status :: "go_error \<Rightarrow> (string \<times> string) option" where
  "as_status (StatusError reason m) = Some (reason, m)"
| "as_status (WrapError m e) = as_status e"
| "as_status (TaggedError e t) = as_status e"
| "as_status (JoinError es) = (case List.find (\<lambda>r. r \<noteq> None) (map as_status es) of Some r \<Rightarrow> r | None \<Rightarrow> None)"
| "as_status _ = None"

definition Tag :: "string \<Rightarrow> go_error option \<Rightarrow> go_error option" where
  "Tag tag err = (case err of None \<Rightarrow> None | Some e \<Rightarrow> Some (TaggedError e tag))"

definition TagErrorf :: "string \<Rightarrow> string \<Rightarrow> go_error" where
  "TagErrorf tag message = TaggedError (ErrorString message) tag"

definition TagWrapf :: "string \<Rightarrow> go_error \<Rightarrow> string \<Rightarrow> go_error" where
  "TagWrapf tag err message = TaggedError (WrapError message err) tag"

definition context_tags :: "go_error \<Rightarrow> string list" where
  "context_tags err = (if errors_Is err ContextCanceled then [''ContextCancel''] else [])
     @ (if errors_Is err ContextDeadlineExceeded then [''ContextTimeout''] else [])"

fun recurseScanTags :: "go_error \<Rightarrow> string list \<Rightarrow> string list" where
  "recurseScanTags (TaggedError e t) tags =
     recurseScanTags e (tags @ [t] @ context_tags (TaggedError e t))"
| "recurseScanTags (StatusError reason m) tags =
     tags @ [reason] @ context_tags (StatusError reason m)"
| "recurseScanTags (WrapError m e) tags = recurseScanTags e (tags @ context_tags (WrapError m e))"
| "recurseScanTags (JoinError es) tags =
     foldl (\<lambda>acc e. recurseScanTags e acc) (tags @ context_tags (JoinError es)) es"
| "recurseScanTags e tags = tags @ context_tags e"

definition GetTags :: "go_error \<Rightarrow> string list" where
  "GetTags err = recurseScanTags err []"

text \<open>The loop that keeps a tag only when it does not occur among the earlier tags.\<close>

fun unique_tags :: "string list \<Rightarrow> string list \<Rightarrow> string list" where
  "unique_tags seen [] = []"
| "unique_tags seen (t # ts) =
     (if FindInSlice seen t = -1 then t # unique_tags (seen @ [t]) ts else unique_tags (seen @ [t]) ts)"

definition SerializeTags :: "go_error option \<Rightarrow> string" where
  "SerializeTags err = (case err of
     None \<Rightarrow> ''nil''
   | Some e \<Rightarrow> (let tags = GetTags e in
       if length tags = 0 then ''unknown'' else strings_Join (unique_tags [] tags) ''/''))"

section \<open>Tag order and uniqueness\<close>

text \<open>The tags of an error in the order of a pre-order walk: each node contributes its own tag,
  then the context marks that hold of the tree below it.\<close>

fun tags_of :: "go_error \<Rightarrow> string list" where
  "tags_of (TaggedError e t) = t # context_tags (TaggedError e t) @ tags_of e"
| "tags_of (StatusError reason m) = [reason]"
| "tags_of (WrapError m e) = context_tags (WrapError m e) @ tags_of e"
| "tags_of (JoinError es) = context_tags (JoinError es) @ concat (map tags_of es)"
| "tags_of e = context_tags e"

lemma recurseScanTags_eq: "recurseScanTags e acc = acc @ tags_of e"
proof (induction e arbitrary: acc)
  case (JoinError es)
  have "foldl (\<lambda>acc e. recurseScanTags e acc) acc fs = acc @ concat (map tags_of fs)"
    if "set fs \<subseteq> set es" for fs acc
    using that by (induction fs arbitrary: acc) (auto simp: JoinError.IH)
  then show ?case by simp
qed (simp_all add: context_tags_def)

lemma unique_tags_set: "set (unique_tags seen ts) = set ts - set seen"
  by (induction ts arbitrary: seen) (auto simp: FindInSlice_def)

lemma unique_tags_distinct: "distinct (unique_tags seen ts)"
  by (induction ts arbitrary: seen) (auto simp: unique_tags_set)

text \<open>The tags reported for an error are those of a pre-order walk of everything it wraps,
  so tagging a wrapped error puts the new tag in front; the serialized form lists every tag once,
  and is \<open>nil\<close> exactly for no error.\<close>

theorem SerializeTags_correct:
  "GetTags (TagWrapf t e m) =
     t # context_tags (TagWrapf t e m) @ context_tags (WrapError m e) @ GetTags e
   \<and> GetTags (JoinError es) = context_tags (JoinError es) @ concat (map GetTags es)
   \<and> SerializeTags None = ''nil''
   \<and> (GetTags e \<noteq> [] \<longrightarrow> SerializeTags (Some e) = strings_Join (unique_tags [] (GetTags e)) ''/''
        \<and> distinct (unique_tags [] (GetTags e)) \<and> set (unique_tags [] (GetTags e)) = set (GetTags e))"
  by (auto simp: GetTags_def recurseScanTags_eq TagWrapf_def SerializeTags_def unique_tags_distinct
      unique_tags_set cong: map_cong)

theorem SerializeTags_correct_witness:
  "SerializeTags (Some (TagWrapf ''Joined'' (JoinError [TagWrapf ''Tag1'' (StatusError ''BadRequest'' ''test1'') ''x'',
     ErrorString ''test3'', TagErrorf ''Test4'' ''test4'']) ''y'')) = ''Joined/Tag1/BadRequest/Test4''"
  using SerializeTags_correct[of "''a''" "TagWrapf ''Joined'' (JoinError [TagWrapf ''Tag1''
     (StatusError ''BadRequest'' ''test1'') ''x'', ErrorString ''test3'', TagErrorf ''Test4'' ''test4'']) ''y''" "[]" "[]"]
  by (simp add: GetTags_def recurseScanTags_eq TagWrapf_def TagErrorf_def context_tags_def FindInSlice_def)

end
