(* ===== verification/RetryMessages.thy ===== *)
theory RetryMessages
  imports Errors
begin

text \<open>
  The values that the retry pool and its adapter exchange
  (\<open>util/retrybatch/messages.go\<close>). The result function of a successful execution
  returns \<open>None\<close> where indexing its result slice would panic.
\<close>

datatype 'r ExecuteResult =
    ExecuteResultSuccess "nat \<Rightarrow> 'r option"
  | ExecuteResultNeedRetry duration
  | ExecuteResultErr go_error

record 'r submitResult =
  ExecuteResultOf :: 'r
  Retries :: nat
  SubmitErr :: "go_error option"

definition errorSubmitResult :: "'r \<Rightarrow> nat \<Rightarrow> go_error \<Rightarrow> 'r submitResult" where
  "errorSubmitResult zero retries err =
     \<lparr>ExecuteResultOf = zero, Retries = retries, SubmitErr = Some err\<rparr>"

text \<open>The channel that answers a submitter is identified by a number; \<open>ctxErr\<close> is the state
  of the submitter's context when it is asked.\<close>

record 'a operationRequest =
  req_arg :: 'a
  req_retries :: nat
  resultCh :: nat

end
