(* ===== verification/PoolAdapter.thy ===== *)
theory PoolAdapter
  imports Quota PprUtil RetryMessages
begin

text \<open>
  One attempt to admit a batch of pods against a PodProtector
  (\<open>webhook/handler/pool_adapter.go\<close>): read the object, compact it, recognise pods
  that already have a bucket, give the others to the quota from the last to the first, record
  a bucket for every pod that may be disrupted, and write the status back. The informer, the
  clock, the backoff and the status endpoint are parameters; the status endpoint transforms a
  world \<open>'w\<close>. \<open>None\<close> is a panic.
\<close>

section \<open>Operations\<close>

record BatchItem =
  ItemCellId :: string
  ItemPodUid :: string
  ItemPodName :: string
  ItemPodStatus :: QuotaPodStatus

text \<open>\<open>batchitem.Result\<close>; \<open>BatchZero\<close> is the zero value of a fresh result slot.\<close>

datatype BatchResult = BatchZero | NewDisruption | NoPpr | AlreadyUnhealthy | AlreadyHasBucket
  | BatchNeedRetry | Rejected

fun admitResultToBatchItemResult :: "Result \<Rightarrow> BatchResult" where
  "admitResultToBatchItemResult ResultOk = NewDisruption"
| "admitResultToBatchItemResult ResultAlreadyUnhealthy = AlreadyUnhealthy"
| "admitResultToBatchItemResult ResultRetry = BatchNeedRetry"
| "admitResultToBatchItemResult ResultDenied = Rejected"

record RequiresPodNameArg =
  ArgCellId :: string
  ArgPodName :: string

definition ConstantRequiresPodName :: "bool \<Rightarrow> RequiresPodNameArg \<Rightarrow> bool" where
  "ConstantRequiresPodName b arg = b"

definition filterByCellRequiresPodName :: "string list \<Rightarrow> RequiresPodNameArg \<Rightarrow> bool" where
  "filterByCellRequiresPodName cells arg \<longleftrightarrow> ArgCellId arg \<in> set cells"

text \<open>One iteration of the first loop: an item whose pod already has a bucket in its cell has
  that bucket refreshed and is settled; any other item stays undetermined.\<close>

definition scan_item :: "gotime \<Rightarrow> cell list \<Rightarrow> BatchItem \<Rightarrow> cell list option" where
  "scan_item executeTime cells arg =
     (let cellIndex = FindInSliceWith cells (\<lambda>c. CellId c = ItemCellId arg)
      in if cellIndex \<noteq> -1 then
           let cellStatus = cells ! nat cellIndex;
               duplicateBucket = FindInSliceWith (cell_buckets cellStatus)
                 (\<lambda>b. PodUid b = Some (ItemPodUid arg))
           in if duplicateBucket \<noteq> -1 then
                let bs = cell_buckets cellStatus; j = nat duplicateBucket
                in Some (cells[nat cellIndex := cellStatus\<lparr>History := \<lparr>Buckets =
                     bs[j := (bs ! j)\<lparr>StartTime := executeTime\<rparr>]\<rparr>\<rparr>])
              else None
         else None)"

fun scan_args :: "gotime \<Rightarrow> cell list \<Rightarrow> BatchResult list \<Rightarrow> (nat \<times> BatchItem) list \<Rightarrow> nat \<Rightarrow>
    BatchItem list \<Rightarrow> cell list \<times> BatchResult list \<times> (nat \<times> BatchItem) list" where
  "scan_args executeTime cells results undetermined argIndex [] = (cells, results, undetermined)"
| "scan_args executeTime cells results undetermined argIndex (arg # args) =
     (case scan_item executeTime cells arg of
        Some cells' \<Rightarrow> scan_args executeTime cells' (results[argIndex := AlreadyHasBucket])
          undetermined (Suc argIndex) args
      | None \<Rightarrow> scan_args executeTime cells results (undetermined @ [(argIndex, arg)])
          (Suc argIndex) args)"

definition add_bucket :: "(RequiresPodNameArg \<Rightarrow> bool) \<Rightarrow> gotime \<Rightarrow> BatchItem \<Rightarrow> cell list \<Rightarrow> cell list" where
  "add_bucket requiresPodName executeTime item cells =
     (let writePodName = (if requiresPodName \<lparr>ArgCellId = ItemCellId item, ArgPodName = ItemPodName item\<rparr>
                          then ItemPodName item else []);
          bucket = \<lparr>StartTime = executeTime, BucketPodName = writePodName,
                    PodUid = Some (ItemPodUid item), EndTime = None, Counter = None\<rparr>
      in case GetOrAppendSliceWith cells (\<lambda>c. CellId c = ItemCellId item) (\<lambda>_. new_cell (ItemCellId item)) of
           (cells', i) \<Rightarrow> cells'[i := (\<lambda>c. c\<lparr>History := \<lparr>Buckets = cell_buckets c @ [bucket]\<rparr>\<rparr>) (cells' ! i)])"

text \<open>The second loop, over the undetermined items from the last to the first (the list
  argument is already reversed).\<close>

fun admit_items :: "(RequiresPodNameArg \<Rightarrow> bool) \<Rightarrow> gotime \<Rightarrow> State \<Rightarrow> cell list \<Rightarrow> BatchResult list \<Rightarrow>
    (nat \<times> BatchItem) list \<Rightarrow> cell list \<times> BatchResult list" where
  "admit_items rpn executeTime state cells results [] = (cells, results)"
| "admit_items rpn executeTime state cells results ((resultEntry, item) # rest) =
     (let (admitResult, state') = AdmitBatchItem state (ItemPodStatus item);
          results' = results[resultEntry := admitResultToBatchItemResult admitResult];
          cells' = (if ShouldDisrupt admitResult then add_bucket rpn executeTime item cells else cells)
      in admit_items rpn executeTime state' cells' results' rest)"

record PoolAdapter =
  pprInformerGet :: "PodProtectorKey \<Rightarrow> go_error + PodProtector option"
  clockNow :: gotime
  requiresPodName :: "RequiresPodNameArg \<Rightarrow> bool"
  retryBackoff :: duration
  defaultConfig :: ConfigOptions

definition stage :: "bucket sorter \<Rightarrow> PoolAdapter \<Rightarrow> Computed \<Rightarrow> PodProtector \<Rightarrow> BatchItem list \<Rightarrow>
    PodProtector \<times> BatchResult list" where
  "stage srt adapter config ppr args =
     (let (cells, results, undetermined) =
            scan_args (clockNow adapter) (Cells (Status ppr)) (replicate (length args) BatchZero) [] 0 args;
          ppr1 = ppr\<lparr>Status := (Status ppr)\<lparr>Cells := cells\<rparr>\<rparr>
      in if length undetermined > 0 then
           let (cells', results') = admit_items (requiresPodName adapter) (clockNow adapter)
                 (MakeState ppr1 config) cells results (rev undetermined)
           in (ppr1\<lparr>Status := (Status ppr1)\<lparr>Cells := cells'\<rparr>\<rparr>, results')
         else (ppr1, results))"

text \<open>The end of \<open>tryExecute\<close>: the status is written only when something changed, and
  a conflict asks for a retry.\<close>

definition write_back ::
  "(go_error \<Rightarrow> bool) \<Rightarrow> (string \<Rightarrow> PodProtector \<Rightarrow> 'w \<Rightarrow> go_error option \<times> 'w) \<Rightarrow>
   PoolAdapter \<Rightarrow> PodProtectorKey \<Rightarrow> PodProtector \<Rightarrow> PodProtector \<Rightarrow> BatchResult list \<Rightarrow> 'w \<Rightarrow>
   BatchResult ExecuteResult \<times> 'w" where
  "write_back IsConflict UpdateStatus adapter key originalPpr ppr results w =
     (let success = ExecuteResultSuccess (\<lambda>i. if i < length results then Some (results ! i) else None)
      in if originalPpr \<noteq> ppr then
           (case UpdateStatus (SourceName key) ppr w of
              (Some err, w') \<Rightarrow>
                (if IsConflict err then ExecuteResultNeedRetry (retryBackoff adapter)
                 else ExecuteResultErr (TagWrapf ''BatchUpdatePprStatus'' err
                   ''unable to update PodProtector status''), w')
            | (None, w') \<Rightarrow> (success, w'))
         else (success, w))"

definition tryExecute ::
  "bucket sorter \<Rightarrow> (go_error \<Rightarrow> bool) \<Rightarrow> (string \<Rightarrow> PodProtector \<Rightarrow> 'w \<Rightarrow> go_error option \<times> 'w) \<Rightarrow>
   PoolAdapter \<Rightarrow> PodProtectorKey \<Rightarrow> BatchItem list \<Rightarrow> 'w \<Rightarrow> (BatchResult ExecuteResult \<times> 'w) option" where
  "tryExecute srt IsConflict UpdateStatus adapter key args w =
     (case pprInformerGet adapter key of
        Inl err \<Rightarrow>
          Some (ExecuteResultErr (TagWrapf ''GetListerPpr'' err ''get ppr from lister''), w)
      | Inr None \<Rightarrow> Some (ExecuteResultSuccess (\<lambda>_. Some NoPpr), w)
      | Inr (Some originalPpr) \<Rightarrow> do {
          let config = Compute (defaultConfig adapter) (Some (HistoryConfig (Spec originalPpr)));
          ppr \<leftarrow> Summarize srt config originalPpr;
          let (staged, results) = stage srt adapter config ppr args;
          ppr' \<leftarrow> Summarize srt config staged;
          Some (write_back IsConflict UpdateStatus adapter key originalPpr ppr' results w)
        })"

section \<open>Already recorded pods\<close>

definition has_bucket :: "cell list \<Rightarrow> BatchItem \<Rightarrow> bool" where
  "has_bucket cells arg \<longleftrightarrow> (case List.find (\<lambda>c. CellId c = ItemCellId arg) cells of
     None \<Rightarrow> False
   | Some c \<Rightarrow> \<exists>b \<in> set (cell_buckets c). PodUid b = Some (ItemPodUid arg))"

text \<open>Everything of a cell but the start times of its buckets.\<close>

definition cell_shape :: "cell \<Rightarrow> string \<times> PodProtectorAggregation \<times> (string \<times> string option \<times>
    gotime option \<times> int32 option) list" where
  "cell_shape c = (CellId c, Aggregation c,
     map (\<lambda>b. (BucketPodName b, PodUid b, EndTime b, Counter b)) (cell_buckets c))"

lemma cell_shape_eqD:
  assumes "cell_shape c = cell_shape c'"
  shows "CellId c = CellId c'" "Aggregation c = Aggregation c'"
    "map PodUid (cell_buckets c) = map PodUid (cell_buckets c')"
    "total_count (cell_buckets c) = total_count (cell_buckets c')"
    "cell_wf c = cell_wf c'" "length (cell_buckets c) = length (cell_buckets c')"
proof -
  let ?f = "\<lambda>b. (BucketPodName b, PodUid b, EndTime b, Counter b)"
  have eq: "map ?f (cell_buckets c) = map ?f (cell_buckets c')"
    using assms by (simp add: cell_shape_def)
  show "CellId c = CellId c'" "Aggregation c = Aggregation c'" using assms by (simp_all add: cell_shape_def)
  show "map PodUid (cell_buckets c) = map PodUid (cell_buckets c')"
    using arg_cong[OF eq, of "map (\<lambda>(n, u, e, k). u)"] by (simp add: comp_def)
  have "map bucket_count (cell_buckets c) = map bucket_count (cell_buckets c')"
    using arg_cong[OF eq, of "map (\<lambda>(n, u, e, k). case k of Some x \<Rightarrow> x | None \<Rightarrow> 1)"]
    by (simp add: comp_def bucket_count_def[abs_def])
  then show "total_count (cell_buckets c) = total_count (cell_buckets c')" by (simp add: total_count_def)
  have "map bucket_wf (cell_buckets c) = map bucket_wf (cell_buckets c')"
    using arg_cong[OF eq, of "map (\<lambda>(n, u, e, k). case u of Some _ \<Rightarrow> e = None \<and> k = None
      | None \<Rightarrow> e \<noteq> None \<and> k \<noteq> None \<and> 1 \<le> (case k of Some x \<Rightarrow> x | None \<Rightarrow> 1))"]
    by (simp add: comp_def bucket_wf_def[abs_def] bucket_count_def cong: option.case_cong)
  then have "list_all (\<lambda>x. x) (map bucket_wf (cell_buckets c)) = list_all (\<lambda>x. x) (map bucket_wf (cell_buckets c'))"
    by simp
  then show "cell_wf c = cell_wf c'" by (simp add: cell_wf_def list_all_iff)
  show "length (cell_buckets c) = length (cell_buckets c')" using eq by (rule map_eq_imp_length_eq)
qed

lemma has_bucket_shape:
  "map cell_shape cs = map cell_shape cs' \<Longrightarrow> has_bucket cs a = has_bucket cs' a"
proof (induction cs arbitrary: cs')
  case (Cons c cs)
  then obtain c' ds where cs': "cs' = c' # ds" and sh: "cell_shape c = cell_shape c'"
    and rest: "map cell_shape cs = map cell_shape ds" by (cases cs') auto
  have "set (map PodUid (cell_buckets c)) = set (map PodUid (cell_buckets c'))"
    using cell_shape_eqD(3)[OF sh] by simp
  then have "(\<exists>b \<in> set (cell_buckets c). PodUid b = Some u) = (\<exists>b \<in> set (cell_buckets c'). PodUid b = Some u)" for u
    by (auto simp: image_iff set_eq_iff) (metis)+
  then show ?case
    using Cons.IH[OF rest] cell_shape_eqD(1)[OF sh] by (simp add: has_bucket_def cs')
qed simp

lemma scan_item_none: "scan_item t cells a = None \<longleftrightarrow> \<not> has_bucket cells a"
  using FindInSliceWith_find[of "\<lambda>c. CellId c = ItemCellId a" cells]
  by (auto simp: scan_item_def has_bucket_def Let_def split: if_splits)

lemma scan_item_shape:
  assumes "scan_item t cells a = Some cells'"
  shows "map cell_shape cells' = map cell_shape cells"
proof -
  let ?i = "nat (FindInSliceWith cells (\<lambda>c. CellId c = ItemCellId a))"
  let ?c = "cells ! ?i"
  let ?j = "nat (FindInSliceWith (cell_buckets ?c) (\<lambda>b. PodUid b = Some (ItemPodUid a)))"
  let ?c' = "?c\<lparr>History := \<lparr>Buckets = (cell_buckets ?c)[?j := (cell_buckets ?c ! ?j)\<lparr>StartTime := t\<rparr>]\<rparr>\<rparr>"
  have eq: "cells' = cells[?i := ?c']" and i: "?i < length cells"
    and j: "?j < length (cell_buckets ?c)"
    using assms FindInSliceWith_nth[of cells "\<lambda>c. CellId c = ItemCellId a"]
      FindInSliceWith_nth[of "cell_buckets ?c" "\<lambda>b. PodUid b = Some (ItemPodUid a)"]
    by (auto simp: scan_item_def Let_def split: if_splits simp del: FindInSliceWith_none)
  have "cell_shape ?c' = cell_shape ?c"
    using j by (simp add: cell_shape_def map_update list_update_same_conv)
  then show ?thesis using eq i by (simp add: map_update list_update_same_conv)
qed

definition undetermined_of :: "cell list \<Rightarrow> nat \<Rightarrow> BatchItem list \<Rightarrow> (nat \<times> BatchItem) list" where
  "undetermined_of cells k args = filter (\<lambda>(i, a). \<not> has_bucket cells a) (enumerate k args)"

lemma undetermined_of_simps [simp]:
  "undetermined_of cells k [] = []"
  "undetermined_of cells k (a # args) =
     (if has_bucket cells a then undetermined_of cells (Suc k) args
      else (k, a) # undetermined_of cells (Suc k) args)"
  by (simp_all add: undetermined_of_def)

lemma undetermined_of_cong:
  "map cell_shape cs = map cell_shape cs' \<Longrightarrow> undetermined_of cs k args = undetermined_of cs' k args"
  by (simp add: undetermined_of_def has_bucket_shape[of cs cs'])

lemma undetermined_index:
  "(i, a) \<in> set (undetermined_of cells k args) \<longleftrightarrow>
     k \<le> i \<and> i < k + length args \<and> a = args ! (i - k) \<and> \<not> has_bucket cells a"
  by (auto simp: undetermined_of_def in_set_enumerate_eq)

lemma undetermined_distinct: "distinct (map fst (undetermined_of cells k args))"
  unfolding undetermined_of_def by (rule distinct_map_filter) simp

lemma scan_args_spec:
  assumes "scan_args t cells res und k args = (cells', res', und')" "k + length args = length res"
  shows "map cell_shape cells' = map cell_shape cells"
    and "und' = und @ undetermined_of cells k args"
    and "res' = take k res @ map (\<lambda>(a, r). if has_bucket cells a then AlreadyHasBucket else r)
      (zip args (drop k res))"
proof -
  have "map cell_shape cells' = map cell_shape cells \<and> und' = und @ undetermined_of cells k args
    \<and> res' = take k res @ map (\<lambda>(a, r). if has_bucket cells a then AlreadyHasBucket else r)
      (zip args (drop k res))"
    using assms
  proof (induction args arbitrary: cells res und k)
    case (Cons a args)
    then have k: "k < length res" by simp
    have drop_k: "drop k res = res ! k # drop (Suc k) res" using k by (simp add: Cons_nth_drop_Suc)
    have take_k: "take (Suc k) (res[k := r]) = take k res @ [r]" for r
      using k by (simp add: take_Suc_conv_app_nth)
    show ?case
    proof (cases "scan_item t cells a")
      case None
      then have nb: "\<not> has_bucket cells a" by (simp add: scan_item_none)
      have "take (Suc k) res = take k res @ [res ! k]" using k by (simp add: take_Suc_conv_app_nth)
      with None nb Cons.prems Cons.IH[of cells res "und @ [(k, a)]" "Suc k"] show ?thesis
        by (simp add: drop_k)
    next
      case (Some cs)
      then have hb: "has_bucket cells a" using scan_item_none[of t cells a] by auto
      have sh: "map cell_shape cs = map cell_shape cells" by (rule scan_item_shape[OF Some])
      have "has_bucket cs = has_bucket cells" using has_bucket_shape[OF sh] by blast
      with Some hb sh Cons.prems Cons.IH[of cs "res[k := AlreadyHasBucket]" und "Suc k"] show ?thesis
        using undetermined_of_cong[OF sh] by (simp add: drop_k take_k)
    qed
  qed simp
  then show "map cell_shape cells' = map cell_shape cells"
    "und' = und @ undetermined_of cells k args"
    "res' = take k res @ map (\<lambda>(a, r). if has_bucket cells a then AlreadyHasBucket else r)
      (zip args (drop k res))" by simp_all
qed

section \<open>Recording admitted pods\<close>

definition new_bucket :: "(RequiresPodNameArg \<Rightarrow> bool) \<Rightarrow> gotime \<Rightarrow> BatchItem \<Rightarrow> bucket" where
  "new_bucket rpn t item = \<lparr>StartTime = t,
     BucketPodName = (if rpn \<lparr>ArgCellId = ItemCellId item, ArgPodName = ItemPodName item\<rparr>
       then ItemPodName item else []),
     PodUid = Some (ItemPodUid item), EndTime = None, Counter = None\<rparr>"

lemma add_bucket_eq:
  "add_bucket rpn t item cells = update_or_append (\<lambda>c. CellId c = ItemCellId item)
     (\<lambda>c. c\<lparr>History := \<lparr>Buckets = cell_buckets c @ [new_bucket rpn t item]\<rparr>\<rparr>)
     (new_cell (ItemCellId item)) cells"
  unfolding add_bucket_def new_bucket_def Let_def by (rule GetOrAppend_update)

lemma new_bucket_facts [simp]:
  "bucket_count (new_bucket rpn t item) = 1" "bucket_wf (new_bucket rpn t item)"
  "PodUid (new_bucket rpn t item) = Some (ItemPodUid item)"
  by (simp_all add: new_bucket_def bucket_count_def bucket_wf_def)

lemma add_bucket_history [simp]:
  "history_total (add_bucket rpn t item cells) = history_total cells + 1"
  unfolding add_bucket_eq by (induction cells) auto

lemma add_bucket_sum: "f zero_aggregation = 0 \<Longrightarrow> sum_over f (add_bucket rpn t item cells) = sum_over f cells"
  unfolding add_bucket_eq by (induction cells) auto

lemma add_bucket_wf [simp]:
  "list_all cell_wf (add_bucket rpn t item cells) = list_all cell_wf cells"
  unfolding add_bucket_eq by (induction cells) (auto simp: cell_wf_def)

lemma add_bucket_has: "has_bucket (add_bucket rpn t item cells) item"
  unfolding add_bucket_eq has_bucket_def by (induction cells) auto

lemma add_bucket_mono: "has_bucket cells a \<Longrightarrow> has_bucket (add_bucket rpn t item cells) a"
  unfolding add_bucket_eq has_bucket_def by (induction cells) (auto split: if_splits)

lemma admit_items_results:
  assumes "distinct (map fst items)" "\<forall>x \<in> set items. fst x < length results"
    and "admit_items rpn t s cells results items = (cells', results')"
  shows "length results' = length results"
    and "i \<notin> fst ` set items \<Longrightarrow> results' ! i = results ! i"
    and "map (\<lambda>(i, a). results' ! i) items =
      map admitResultToBatchItemResult (fst (admit_down s (map (ItemPodStatus \<circ> snd) items)))"
proof -
  have "length results' = length results \<and> (\<forall>i. i \<notin> fst ` set items \<longrightarrow> results' ! i = results ! i)
    \<and> map (\<lambda>(i, a). results' ! i) items =
      map admitResultToBatchItemResult (fst (admit_down s (map (ItemPodStatus \<circ> snd) items)))"
    using assms
  proof (induction items arbitrary: s cells results)
    case (Cons x items)
    obtain k a where x: "x = (k, a)" by (cases x)
    let ?r = "AdmitBatchItem s (ItemPodStatus a)"
    let ?res = "results[k := admitResultToBatchItemResult (fst ?r)]"
    let ?cs = "if ShouldDisrupt (fst ?r) then add_bucket rpn t a cells else cells"
    have run: "admit_items rpn t (snd ?r) ?cs ?res items = (cells', results')"
      using Cons.prems(3) by (simp add: x case_prod_beta Let_def)
    have ih: "length results' = length ?res \<and> (\<forall>i. i \<notin> fst ` set items \<longrightarrow> results' ! i = ?res ! i)
      \<and> map (\<lambda>(i, a). results' ! i) items =
        map admitResultToBatchItemResult (fst (admit_down (snd ?r) (map (ItemPodStatus \<circ> snd) items)))"
      by (rule Cons.IH) (use Cons.prems run in auto)
    have "k \<notin> fst ` set items" "k < length results" using Cons.prems by (auto simp: x)
    with ih show ?case by (auto simp: x comp_def)
  qed simp
  then show "length results' = length results"
    "i \<notin> fst ` set items \<Longrightarrow> results' ! i = results ! i"
    "map (\<lambda>(i, a). results' ! i) items =
      map admitResultToBatchItemResult (fst (admit_down s (map (ItemPodStatus \<circ> snd) items)))"
    by auto
qed

text \<open>The items that the quota lets through.\<close>

definition disrupted :: "(nat \<times> BatchItem) list \<Rightarrow> Result list \<Rightarrow> BatchItem list" where
  "disrupted items rs = map (snd \<circ> fst) (filter (\<lambda>(x, r). ShouldDisrupt r) (zip items rs))"

lemma admit_items_cells:
  assumes "admit_items rpn t s cells results items = (cells', results')"
  shows "cells' = fold (add_bucket rpn t)
    (disrupted items (fst (admit_down s (map (ItemPodStatus \<circ> snd) items)))) cells"
  using assms
proof (induction items arbitrary: s cells results)
  case (Cons x items)
  obtain k a where x: "x = (k, a)" by (cases x)
  show ?case
    using Cons.prems by (auto simp: x case_prod_beta Let_def disrupted_def dest!: Cons.IH)
qed (simp add: disrupted_def)

lemma fold_add_bucket:
  "history_total (fold (add_bucket rpn t) items cells) = history_total cells + int (length items)"
  "f zero_aggregation = 0 \<Longrightarrow> sum_over f (fold (add_bucket rpn t) items cells) = sum_over f cells"
  "list_all cell_wf (fold (add_bucket rpn t) items cells) = list_all cell_wf cells"
  by (induction items arbitrary: cells) (simp_all add: add_bucket_sum)

lemma fold_add_bucket_mono:
  "has_bucket cells a \<Longrightarrow> has_bucket (fold (add_bucket rpn t) items cells) a"
  by (induction items arbitrary: cells) (simp_all add: add_bucket_mono)

lemma fold_add_bucket_has:
  "a \<in> set items \<Longrightarrow> has_bucket (fold (add_bucket rpn t) items cells) a"
proof (induction items arbitrary: cells)
  case (Cons b items)
  then show ?case using add_bucket_has[of rpn t b cells] fold_add_bucket_mono by (cases "a = b") auto
qed simp

section \<open>A staged batch\<close>

lemma MakeState_cells [simp]:
  "MakeState (ppr\<lparr>Status := (Status ppr)\<lparr>Cells := cs\<rparr>\<rparr>) config = MakeState ppr config"
  by (simp add: MakeState_def)

lemma AdmitBatch_length [simp]: "length (AdmitBatch ppr ps config) = length ps"
  by (simp add: AdmitBatch_eq)

lemma disrupted_rev:
  "length xs = length rs \<Longrightarrow> disrupted (rev xs) (rev rs) = rev (disrupted xs rs)"
  by (simp add: disrupted_def zip_rev rev_map rev_filter)

lemma stage_spec:
  fixes ppr config args
  defines "cells \<equiv> Cells (Status ppr)"
  defines "und \<equiv> undetermined_of cells 0 args"
  defines "verdicts \<equiv> AdmitBatch ppr (map (ItemPodStatus \<circ> snd) und) config"
  assumes "stage srt adapter config ppr args = (staged, results)"
  shows "length results = length args"
    and "\<forall>i < length args. has_bucket cells (args ! i) \<longrightarrow> results ! i = AlreadyHasBucket"
    and "map (\<lambda>(i, a). results ! i) und = map admitResultToBatchItemResult verdicts"
    and "\<exists>cells1. map cell_shape cells1 = map cell_shape cells \<and> staged = ppr\<lparr>Status := (Status ppr)\<lparr>Cells :=
      fold (add_bucket (requiresPodName adapter) (clockNow adapter)) (rev (disrupted und verdicts)) cells1\<rparr>\<rparr>"
proof -
  let ?rpn = "requiresPodName adapter" and ?t = "clockNow adapter"
  obtain cells1 res1 und1 where scan: "scan_args ?t cells (replicate (length args) BatchZero) [] 0 args
      = (cells1, res1, und1)" by (metis prod_cases3)
  note sc = scan_args_spec[OF scan, simplified]
  have und1: "und1 = und" using sc(2) by (simp add: und_def)
  obtain cells2 res2 where adm: "admit_items ?rpn ?t (MakeState ppr config) cells1 res1 (rev und) = (cells2, res2)"
    by fastforce
  have stg: "staged = ppr\<lparr>Status := (Status ppr)\<lparr>Cells := cells2\<rparr>\<rparr>" "results = res2"
    using assms(4) scan adm by (auto simp: stage_def cells_def und1 Let_def split: if_splits)
  have len1: "length res1 = length args" using sc(3) by simp
  have idx: "\<forall>x \<in> set (rev und). fst x < length res1" "distinct (map fst (rev und))"
    using undetermined_index[of _ _ cells 0 args] undetermined_distinct[of cells 0 args]
    by (auto simp: und_def len1 rev_map[symmetric])
  note ad = admit_items_results[OF idx(2,1) adm]
  show "length results = length args" using ad(1) len1 stg by simp
  show "\<forall>i < length args. has_bucket cells (args ! i) \<longrightarrow> results ! i = AlreadyHasBucket"
  proof (intro allI impI)
    fix i assume i: "i < length args" and hb: "has_bucket cells (args ! i)"
    then have "i \<notin> fst ` set (rev und)" using undetermined_index[of _ _ cells 0 args] by (auto simp: und_def)
    then show "results ! i = AlreadyHasBucket" using ad(2) i hb sc(3) stg by simp
  qed
  have down: "fst (admit_down (MakeState ppr config) (map (ItemPodStatus \<circ> snd) (rev und))) = rev verdicts"
    by (simp add: verdicts_def AdmitBatch_eq rev_map[symmetric])
  have "rev (map (\<lambda>(i, a). res2 ! i) und) = rev (map admitResultToBatchItemResult verdicts)"
    using ad(3) by (simp add: down rev_map)
  then show "map (\<lambda>(i, a). results ! i) und = map admitResultToBatchItemResult verdicts"
    using stg by simp
  have "cells2 = fold (add_bucket ?rpn ?t) (disrupted (rev und) (rev verdicts)) cells1"
    using admit_items_cells[OF adm] by (simp add: down)
  also have "disrupted (rev und) (rev verdicts) = rev (disrupted und verdicts)"
    by (rule disrupted_rev) (simp add: verdicts_def)
  finally show "\<exists>cells1. map cell_shape cells1 = map cell_shape cells \<and> staged = ppr\<lparr>Status := (Status ppr)\<lparr>Cells :=
      fold (add_bucket ?rpn ?t) (rev (disrupted und verdicts)) cells1\<rparr>\<rparr>"
    using sc(1) stg by blast
qed

lemma same_shape_facts:
  assumes "map cell_shape cs = map cell_shape cs'"
  shows "history_total cs = history_total cs'" "sum_over f cs = sum_over f cs'"
    "list_all cell_wf cs = list_all cell_wf cs'"
    "list_all (\<lambda>c. length (cell_buckets c) \<le> n) cs = list_all (\<lambda>c. length (cell_buckets c) \<le> n) cs'"
proof -
  have "list_all2 (\<lambda>c c'. cell_shape c = cell_shape c') cs cs'"
    using assms by (simp add: list_all2_conv_all_nth) (metis length_map nth_map)
  then show "history_total cs = history_total cs'" "sum_over f cs = sum_over f cs'"
    "list_all cell_wf cs = list_all cell_wf cs'"
    "list_all (\<lambda>c. length (cell_buckets c) \<le> n) cs = list_all (\<lambda>c. length (cell_buckets c) \<le> n) cs'"
    by (induction rule: list_all2_induct) (auto dest: cell_shape_eqD)
qed

text \<open>The results that record a disruption.\<close>

definition disrupting :: "BatchResult \<Rightarrow> bool" where
  "disrupting r \<longleftrightarrow> r = NewDisruption \<or> r = AlreadyUnhealthy"

lemma disrupting_convert [simp]: "disrupting (admitResultToBatchItemResult r) = ShouldDisrupt r"
  by (cases r) (simp_all add: disrupting_def ShouldDisrupt_def)

lemma count_undetermined:
  assumes "\<forall>i. k \<le> i \<and> i < k + length args \<and> has_bucket cells (args ! (i - k)) \<longrightarrow> \<not> g i"
  shows "length (filter g [k..<k + length args]) = length (filter (g \<circ> fst) (undetermined_of cells k args))"
  using assms
proof (induction args arbitrary: k)
  case (Cons a args)
  have "\<forall>i. Suc k \<le> i \<and> i < Suc k + length args \<and> has_bucket cells (args ! (i - Suc k)) \<longrightarrow> \<not> g i"
    using Cons.prems by (auto simp: nth_Cons' Suc_diff_le dest!: spec)
  from Cons.IH[OF this] have ih: "length (filter g [Suc k..<Suc k + length args]) =
      length (filter (g \<circ> fst) (undetermined_of cells (Suc k) args))" .
  have "[k..<k + length (a # args)] = k # [Suc k..<Suc k + length args]" by (subst upt_rec) simp
  moreover have "has_bucket cells a \<Longrightarrow> \<not> g k" using Cons.prems by auto
  ultimately show ?case using ih by (auto simp: comp_def)
qed simp

lemma length_disrupted:
  "length xs = length rs \<Longrightarrow> length (disrupted xs rs) = length (filter ShouldDisrupt rs)"
proof (induction xs rs rule: list_induct2)
  case (Cons x xs r rs) then show ?case by (auto simp: disrupted_def)
qed (simp add: disrupted_def)

lemma disrupted_member:
  assumes "length xs = length rs" "j < length xs" "ShouldDisrupt (rs ! j)"
  shows "snd (xs ! j) \<in> set (disrupted xs rs)"
proof -
  have "(xs ! j, rs ! j) \<in> set (zip xs rs)" using assms by (auto simp: set_zip)
  then show ?thesis using assms(3) by (force simp: disrupted_def)
qed

lemma stage_count:
  assumes "stage srt adapter config ppr args = (staged, results)"
  shows "history_total (Cells (Status staged)) =
      history_total (Cells (Status ppr)) + int (length (filter disrupting results))"
    and "i < length args \<Longrightarrow> disrupting (results ! i) \<or> results ! i = AlreadyHasBucket \<Longrightarrow>
      has_bucket (Cells (Status staged)) (args ! i)"
proof -
  let ?cells = "Cells (Status ppr)"
  let ?und = "undetermined_of ?cells 0 args"
  let ?v = "AdmitBatch ppr (map (ItemPodStatus \<circ> snd) ?und) config"
  note spec = stage_spec[OF assms]
  obtain cells1 where sh: "map cell_shape cells1 = map cell_shape ?cells"
    and st: "staged = ppr\<lparr>Status := (Status ppr)\<lparr>Cells := fold (add_bucket (requiresPodName adapter)
      (clockNow adapter)) (rev (disrupted ?und ?v)) cells1\<rparr>\<rparr>"
    using spec(4) by blast
  have "filter disrupting results = filter disrupting (map (nth results) [0..<length args])"
    using spec(1) by (metis map_nth)
  then have "length (filter disrupting results) = length (filter (\<lambda>i. disrupting (results ! i)) [0..<0 + length args])"
    by (simp add: filter_map comp_def)
  also have "\<dots> = length (filter ((\<lambda>i. disrupting (results ! i)) \<circ> fst) ?und)"
    by (rule count_undetermined) (use spec(2) in \<open>auto simp: disrupting_def\<close>)
  also have "\<dots> = length (filter disrupting (map (\<lambda>(i, a). results ! i) ?und))"
    by (simp add: filter_map comp_def case_prod_beta)
  also have "\<dots> = length (filter ShouldDisrupt ?v)"
    unfolding spec(3) by (simp add: filter_map comp_def)
  also have "\<dots> = length (disrupted ?und ?v)" by (rule length_disrupted[symmetric]) simp
  finally show "history_total (Cells (Status staged)) =
      history_total ?cells + int (length (filter disrupting results))"
    using fold_add_bucket(1) same_shape_facts(1)[OF sh] by (simp add: st)
  assume i: "i < length args" and r: "disrupting (results ! i) \<or> results ! i = AlreadyHasBucket"
  show "has_bucket (Cells (Status staged)) (args ! i)"
  proof (cases "has_bucket ?cells (args ! i)")
    case True
    then have "has_bucket cells1 (args ! i)" using has_bucket_shape[OF sh] by simp
    then show ?thesis by (simp add: st fold_add_bucket_mono)
  next
    case False
    then have "(i, args ! i) \<in> set ?und" using i undetermined_index[of i "args ! i" ?cells 0 args] by simp
    then obtain j where j: "j < length ?und" "?und ! j = (i, args ! i)" by (auto simp: in_set_conv_nth)
    have "map (\<lambda>(i, a). results ! i) ?und ! j = map admitResultToBatchItemResult ?v ! j"
      using spec(3) by simp
    then have conv: "results ! i = admitResultToBatchItemResult (?v ! j)" using j by simp
    then have "ShouldDisrupt (?v ! j)" using r by (cases "?v ! j") (auto simp: disrupting_def ShouldDisrupt_def)
    then have "args ! i \<in> set (disrupted ?und ?v)"
      using disrupted_member[of ?und ?v j] j by simp
    then show ?thesis by (simp add: st fold_add_bucket_has)
  qed
qed

section \<open>Summaries without compaction\<close>

definition same_buckets :: "cell \<Rightarrow> cell \<Rightarrow> bool" where
  "same_buckets c c' \<longleftrightarrow> CellId c' = CellId c \<and> Aggregation c' = Aggregation c
     \<and> mset (cell_buckets c') = mset (cell_buckets c)"

lemma same_buckets_facts:
  assumes "list_all2 same_buckets cs cs'"
  shows "history_total cs' = history_total cs" "has_bucket cs' a = has_bucket cs a"
    "list_all (\<lambda>c. length (cell_buckets c) \<le> n) cs' = list_all (\<lambda>c. length (cell_buckets c) \<le> n) cs"
  using assms
proof (induction rule: list_all2_induct)
  case (Cons c cs c' cs')
  { case 1
    then show ?case using Cons total_count_mset[of "cell_buckets c'" "cell_buckets c"]
      by (simp add: same_buckets_def)
  next
    case 2
    have "set (cell_buckets c') = set (cell_buckets c)"
      using Cons.hyps(1) by (metis same_buckets_def set_mset_mset)
    then show ?case using Cons by (simp add: same_buckets_def has_bucket_def)
  next
    case 3
    have "length (cell_buckets c') = length (cell_buckets c)"
      using Cons.hyps(1) by (metis same_buckets_def size_mset)
    then show ?case using Cons by simp }
qed simp_all

context bucket_sorter
begin

lemma Summarize_permutes:
  assumes "Summarize srt config ppr = Some ppr'"
    and "list_all (\<lambda>c. int (length (cell_buckets c)) \<le> CompactThreshold config) (Cells (Status ppr))"
  shows "list_all2 same_buckets (Cells (Status ppr)) (Cells (Status ppr'))"
proof (rule list_all2_all_nthI)
  note comp = Summarize_facts(1)[OF assms(1)]
  show "length (Cells (Status ppr)) = length (Cells (Status ppr'))" using list_all2_lengthD[OF comp] .
  fix i assume i: "i < length (Cells (Status ppr))"
  let ?c = "Cells (Status ppr) ! i" and ?c' = "Cells (Status ppr') ! i"
  have c: "compacted srt config ?c ?c'" using list_all2_nthD[OF comp i] .
  have "int (length (cell_buckets ?c)) \<le> CompactThreshold config"
    using assms(2) i by (simp add: list_all_length)
  then have "CompactBuckets srt config (cell_buckets ?c) = Some (by_start (cell_buckets ?c))"
    by (rule compact_none)
  then have "?c' = ?c\<lparr>History := \<lparr>Buckets = by_start (cell_buckets ?c)\<rparr>\<rparr>"
    using c unfolding compacted_def by (metis option.inject)
  then show "same_buckets ?c ?c'" unfolding same_buckets_def by (simp add: srt_mset)
qed

lemma stage_wf:
  assumes "stage s adapter config ppr args = (staged, results)" "list_all cell_wf (Cells (Status ppr))"
  shows "list_all cell_wf (Cells (Status staged))"
proof -
  obtain cells1 items where "map cell_shape cells1 = map cell_shape (Cells (Status ppr))"
    and "Cells (Status staged) = fold (add_bucket (requiresPodName adapter) (clockNow adapter)) items cells1"
    using stage_spec(4)[OF assms(1)] by fastforce
  then show ?thesis using assms(2) by (simp add: fold_add_bucket(3) same_shape_facts(3)[of cells1])
qed

lemma tryExecute_run:
  assumes "pprInformerGet adapter key = Inr (Some ppr0)"
    and "config = Compute (defaultConfig adapter) (Some (HistoryConfig (Spec ppr0)))"
    and "1 \<le> CompactThreshold config" "list_all cell_wf (Cells (Status ppr0))"
  obtains ppr staged results ppr' where "Summarize srt config ppr0 = Some ppr"
    and "stage srt adapter config ppr args = (staged, results)"
    and "Summarize srt config staged = Some ppr'"
    and "list_all cell_wf (Cells (Status ppr))"
    and "tryExecute srt ic us adapter key args w = Some (write_back ic us adapter key ppr0 ppr' results w)"
proof -
  obtain ppr where ppr: "Summarize srt config ppr0 = Some ppr"
    and wf: "list_all (\<lambda>c. cell_wf c \<and> int (length (cell_buckets c)) \<le> CompactThreshold config
     \<and> sorted (map StartTime (cell_buckets c))) (Cells (Status ppr))"
    by (rule Summarize_total[OF assms(3,4)])
  have wf': "list_all cell_wf (Cells (Status ppr))" using wf by (simp add: list_all_iff)
  obtain staged results where st: "stage srt adapter config ppr args = (staged, results)" by fastforce
  obtain ppr' where "Summarize srt config staged = Some ppr'"
    by (rule Summarize_total[OF assms(3) stage_wf[OF st wf']])
  with ppr wf' st show thesis
    using that by (simp add: tryExecute_def assms(1,2) Let_def split: prod.splits option.splits)
qed

end

lemma add_bucket_bound:
  "list_all (\<lambda>c. length (cell_buckets c) \<le> n) cs \<Longrightarrow>
   list_all (\<lambda>c. length (cell_buckets c) \<le> Suc n) (add_bucket rpn t item cs)"
  unfolding add_bucket_eq by (induction cs) (auto simp: list_all_iff)

lemma fold_add_bucket_bound:
  "list_all (\<lambda>c. length (cell_buckets c) \<le> n) cs \<Longrightarrow>
   list_all (\<lambda>c. length (cell_buckets c) \<le> n + length items) (fold (add_bucket rpn t) items cs)"
proof (induction items arbitrary: cs n)
  case (Cons a items)
  from Cons.IH[OF add_bucket_bound[OF Cons.prems]] show ?case by simp
qed simp

lemma stage_bound:
  assumes "stage srt adapter config ppr args = (staged, results)"
    and "list_all (\<lambda>c. length (cell_buckets c) \<le> n) (Cells (Status ppr))"
  shows "list_all (\<lambda>c. length (cell_buckets c) \<le> n + length args) (Cells (Status staged))"
proof -
  let ?und = "undetermined_of (Cells (Status ppr)) 0 args"
  let ?d = "disrupted ?und (AdmitBatch ppr (map (ItemPodStatus \<circ> snd) ?und) config)"
  obtain cells1 where sh: "map cell_shape cells1 = map cell_shape (Cells (Status ppr))"
    and st: "staged = ppr\<lparr>Status := (Status ppr)\<lparr>Cells := fold (add_bucket (requiresPodName adapter)
      (clockNow adapter)) (rev ?d) cells1\<rparr>\<rparr>"
    using stage_spec(4)[OF assms(1)] by blast
  have "length ?d \<le> length ?und"
    using length_disrupted[of ?und "AdmitBatch ppr (map (ItemPodStatus \<circ> snd) ?und) config"]
    by (simp add: le_trans[OF length_filter_le])
  also have "\<dots> \<le> length args"
    unfolding undetermined_of_def by (metis length_enumerate length_filter_le)
  finally have "length ?d \<le> length args" .
  moreover have "list_all (\<lambda>c. length (cell_buckets c) \<le> n) cells1"
    using assms(2) same_shape_facts(4)[OF sh] by simp
  from fold_add_bucket_bound[OF this, of "rev ?d" "requiresPodName adapter" "clockNow adapter"]
  have "list_all (\<lambda>c. length (cell_buckets c) \<le> n + length ?d) (Cells (Status staged))"
    by (simp add: st)
  ultimately show ?thesis by (auto simp: list_all_iff)
qed

section \<open>What one execution guarantees\<close>

definition committed :: "(string \<Rightarrow> PodProtector \<Rightarrow> 'w \<Rightarrow> go_error option \<times> 'w) \<Rightarrow> PodProtectorKey \<Rightarrow>
    PodProtector \<Rightarrow> PodProtector \<Rightarrow> 'w \<Rightarrow> 'w \<Rightarrow> bool" where
  "committed us key ppr0 ppr' w w' \<longleftrightarrow>
     (ppr' = ppr0 \<and> w' = w) \<or> us (SourceName key) ppr' w = (None, w')"

lemma write_back_success:
  assumes "write_back ic us adapter key ppr0 ppr' results w = (ExecuteResultSuccess f, w')"
  shows "f = (\<lambda>i. if i < length results then Some (results ! i) else None)"
    and "committed us key ppr0 ppr' w w'"
  using assms
  by (auto simp: write_back_def Let_def committed_def split: prod.splits option.splits if_splits)

lemma tryExecute_decides:
  assumes "bucket_sorter srt" and "pprInformerGet adapter key = Inr (Some ppr0)"
    and "config = Compute (defaultConfig adapter) (Some (HistoryConfig (Spec ppr0)))"
    and "1 \<le> CompactThreshold config" and "list_all cell_wf (Cells (Status ppr0))"
  shows "\<exists>ppr out w'. Summarize srt config ppr0 = Some ppr
    \<and> tryExecute srt ic us adapter key args w = Some (out, w')
    \<and> (\<forall>f. out = ExecuteResultSuccess f \<longrightarrow>
         (\<forall>i < length args. has_bucket (Cells (Status ppr)) (args ! i) \<longrightarrow> f i = Some AlreadyHasBucket)
       \<and> (let und = undetermined_of (Cells (Status ppr)) 0 args
          in map (\<lambda>(i, a). f i) und =
             map (Some \<circ> admitResultToBatchItemResult)
               (AdmitBatch ppr (map (ItemPodStatus \<circ> snd) und) config)))"
proof -
  obtain ppr staged results ppr' where ppr: "Summarize srt config ppr0 = Some ppr"
    and st: "stage srt adapter config ppr args = (staged, results)"
    and run: "tryExecute srt ic us adapter key args w = Some (write_back ic us adapter key ppr0 ppr' results w)"
    by (rule bucket_sorter.tryExecute_run[OF assms])
  note spec = stage_spec[OF st]
  let ?und = "undetermined_of (Cells (Status ppr)) 0 args"
  let ?g = "\<lambda>i. if i < length results then Some (results ! i) else None"
  obtain out w' where out: "write_back ic us adapter key ppr0 ppr' results w = (out, w')" by fastforce
  have f: "f = ?g" if "out = ExecuteResultSuccess f" for f
    using write_back_success(1)[of ic us adapter key ppr0 ppr' results w f w'] that out by simp
  have "map (\<lambda>(i, a). ?g i) ?und = map Some (map (\<lambda>(i, a). results ! i) ?und)"
    using undetermined_index[of _ _ "Cells (Status ppr)" 0 args] spec(1) by auto
  then have und: "map (\<lambda>(i, a). ?g i) ?und =
      map (Some \<circ> admitResultToBatchItemResult) (AdmitBatch ppr (map (ItemPodStatus \<circ> snd) ?und) config)"
    unfolding spec(3) by simp
  show ?thesis
    using ppr out run f spec(1,2) und by (intro exI conjI) (auto simp: Let_def)
qed

text \<open>C13: one execution decides exactly as the quota does. For a well-formed object it never
  panics, and when it succeeds every pod that already has a bucket in its cell is answered so,
  while the answers to all the others, in order, are those of \<open>AdmitBatch\<close> on the
  summarized object.\<close>

theorem tryExecute_verdicts:
  assumes "bucket_sorter srt" and "pprInformerGet adapter key = Inr (Some ppr0)"
    and "config = Compute (defaultConfig adapter) (Some (HistoryConfig (Spec ppr0)))"
    and "1 \<le> CompactThreshold config" and "list_all cell_wf (Cells (Status ppr0))"
  shows "\<exists>ppr out w'. Summarize srt config ppr0 = Some ppr
    \<and> tryExecute srt ic us adapter key args w = Some (out, w')
    \<and> (\<forall>f. out = ExecuteResultSuccess f \<longrightarrow>
         (\<forall>i < length args. has_bucket (Cells (Status ppr)) (args ! i) \<longrightarrow> f i = Some AlreadyHasBucket)
       \<and> (let und = undetermined_of (Cells (Status ppr)) 0 args
          in map (\<lambda>(i, a). f i) und =
             map (Some \<circ> admitResultToBatchItemResult)
               (AdmitBatch ppr (map (ItemPodStatus \<circ> snd) und) config)))"
  by (rule tryExecute_decides[OF assms])

definition disruptions :: "(nat \<Rightarrow> BatchResult option) \<Rightarrow> nat \<Rightarrow> int" where
  "disruptions f n = int (length (filter
     (\<lambda>i. f i = Some NewDisruption \<or> f i = Some AlreadyUnhealthy) [0..<n]))"

lemma disruptions_results:
  "int (length (filter disrupting results)) =
     disruptions (\<lambda>i. if i < length results then Some (results ! i) else None) (length results)"
proof -
  have "filter disrupting results = filter disrupting (map (nth results) [0..<length results])"
    by (simp add: map_nth)
  also have "length \<dots> = length (filter (\<lambda>i. disrupting (results ! i)) [0..<length results])"
    by (simp add: filter_map comp_def)
  also have "filter (\<lambda>i. disrupting (results ! i)) [0..<length results] =
      filter (\<lambda>i. (if i < length results then Some (results ! i) else None) = Some NewDisruption
        \<or> (if i < length results then Some (results ! i) else None) = Some AlreadyUnhealthy) [0..<length results]"
    by (rule filter_cong) (auto simp: disrupting_def)
  finally show ?thesis by (simp add: disruptions_def)
qed

lemma stage_sum:
  assumes "stage srt adapter config ppr args = (staged, results)"
  shows "sum_over AvailableReplicas (Cells (Status staged)) = sum_over AvailableReplicas (Cells (Status ppr))"
    and "Spec staged = Spec ppr" and "PprMeta staged = PprMeta ppr"
proof -
  obtain cells1 items where "map cell_shape cells1 = map cell_shape (Cells (Status ppr))"
    and "staged = ppr\<lparr>Status := (Status ppr)\<lparr>Cells := fold (add_bucket (requiresPodName adapter)
      (clockNow adapter)) items cells1\<rparr>\<rparr>"
    using stage_spec(4)[OF assms] by blast
  then show "sum_over AvailableReplicas (Cells (Status staged)) = sum_over AvailableReplicas (Cells (Status ppr))"
    "Spec staged = Spec ppr" "PprMeta staged = PprMeta ppr"
    using same_shape_facts(2)[of cells1] fold_add_bucket(2)[of AvailableReplicas]
    by (simp_all add: zero_aggregation_def)
qed

context bucket_sorter
begin

text \<open>With room below the threshold neither of the two summaries compacts anything.\<close>

lemma stage_uncompacted:
  assumes "Summarize srt config ppr0 = Some ppr" "stage srt adapter config ppr args = (staged, results)"
    and "Summarize srt config staged = Some ppr'"
    and "list_all (\<lambda>c. int (length (cell_buckets c) + length args) \<le> CompactThreshold config)
      (Cells (Status ppr0))"
    and "int (length args) \<le> CompactThreshold config"
  shows "list_all2 same_buckets (Cells (Status ppr0)) (Cells (Status ppr))"
    and "list_all2 same_buckets (Cells (Status staged)) (Cells (Status ppr'))"
proof -
  let ?n = "nat (CompactThreshold config) - length args"
  have "list_all (\<lambda>c. int (length (cell_buckets c)) \<le> CompactThreshold config) (Cells (Status ppr0))"
    using assms(4) by (auto simp: list_all_iff)
  then show perm: "list_all2 same_buckets (Cells (Status ppr0)) (Cells (Status ppr))"
    by (rule Summarize_permutes[OF assms(1)])
  have "list_all (\<lambda>c. length (cell_buckets c) \<le> ?n) (Cells (Status ppr0))"
    using assms(4) by (auto simp: list_all_iff)
  then have "list_all (\<lambda>c. length (cell_buckets c) \<le> ?n) (Cells (Status ppr))"
    using same_buckets_facts(3)[OF perm] by simp
  from stage_bound[OF assms(2) this]
  have "list_all (\<lambda>c. int (length (cell_buckets c)) \<le> CompactThreshold config) (Cells (Status staged))"
    using assms(5) by (auto simp: list_all_iff)
  then show "list_all2 same_buckets (Cells (Status staged)) (Cells (Status ppr'))"
    by (rule Summarize_permutes[OF assms(3)])
qed

end

text \<open>What a successful execution has recorded.\<close>

lemma execute_records:
  assumes "bucket_sorter srt" and "pprInformerGet adapter key = Inr (Some ppr0)"
    and "config = Compute (defaultConfig adapter) (Some (HistoryConfig (Spec ppr0)))"
    and "1 \<le> CompactThreshold config" and "list_all cell_wf (Cells (Status ppr0))"
    and "list_all (\<lambda>c. int (length (cell_buckets c) + length args) \<le> CompactThreshold config)
      (Cells (Status ppr0))"
    and "int (length args) \<le> CompactThreshold config"
    and "tryExecute srt ic us adapter key args w = Some (ExecuteResultSuccess f, w')"
  shows "\<exists>ppr'. committed us key ppr0 ppr' w w' \<and> coherent (Status ppr')
    \<and> PprMeta ppr' = PprMeta ppr0 \<and> Spec ppr' = Spec ppr0
    \<and> list_all cell_wf (Cells (Status ppr'))
    \<and> sum_over AvailableReplicas (Cells (Status ppr')) = sum_over AvailableReplicas (Cells (Status ppr0))
    \<and> history_total (Cells (Status ppr')) = history_total (Cells (Status ppr0)) + disruptions f (length args)
    \<and> (\<forall>i < length args. f i \<in> {Some NewDisruption, Some AlreadyUnhealthy, Some AlreadyHasBucket} \<longrightarrow>
         has_bucket (Cells (Status ppr')) (args ! i))"
proof -
  obtain ppr staged results ppr' where ppr: "Summarize srt config ppr0 = Some ppr"
    and st: "stage srt adapter config ppr args = (staged, results)"
    and ppr': "Summarize srt config staged = Some ppr'" and wf: "list_all cell_wf (Cells (Status ppr))"
    and run: "tryExecute srt ic us adapter key args w = Some (write_back ic us adapter key ppr0 ppr' results w)"
    by (rule bucket_sorter.tryExecute_run[OF assms(1-5)])
  note spec = stage_spec[OF st]
  have "write_back ic us adapter key ppr0 ppr' results w = (ExecuteResultSuccess f, w')"
    using assms(8) run by simp
  note f = write_back_success[OF this]
  note perm = bucket_sorter.stage_uncompacted[OF assms(1) ppr st ppr' assms(6,7)]
  obtain p where "Summarize srt config staged = Some p" "list_all (\<lambda>c. cell_wf c \<and>
      int (length (cell_buckets c)) \<le> CompactThreshold config \<and> sorted (map StartTime (cell_buckets c)))
      (Cells (Status p))"
    by (rule bucket_sorter.Summarize_total[OF assms(1,4) bucket_sorter.stage_wf[OF assms(1) st wf]])
  then have wf': "list_all cell_wf (Cells (Status ppr'))" using ppr' by (auto simp: list_all_iff)
  have hist: "history_total (Cells (Status ppr')) = history_total (Cells (Status ppr0)) + disruptions f (length args)"
    using stage_count(1)[OF st] disruptions_results[of results] spec(1) f(1)
      same_buckets_facts(1)[OF perm(1)] same_buckets_facts(1)[OF perm(2)] by simp
  have has: "\<forall>i < length args. f i \<in> {Some NewDisruption, Some AlreadyUnhealthy, Some AlreadyHasBucket} \<longrightarrow>
         has_bucket (Cells (Status ppr')) (args ! i)"
    using stage_count(2)[OF st] spec(1) same_buckets_facts(2)[OF perm(2)] by (auto simp: f(1) disrupting_def)
  have "sum_over AvailableReplicas (Cells (Status ppr')) = sum_over AvailableReplicas (Cells (Status ppr0))"
    using compacted_frame_all(3)[OF Summarize_facts(1)[OF ppr']] stage_sum(1)[OF st]
      compacted_frame_all(3)[OF Summarize_facts(1)[OF ppr]] by simp
  moreover have "Spec ppr' = Spec ppr0" "PprMeta ppr' = PprMeta ppr0"
    using Summarize_facts(3,4)[OF ppr'] stage_sum(2,3)[OF st] Summarize_facts(3,4)[OF ppr] by simp_all
  ultimately show ?thesis
    using f(2) hist has wf' Summarize_facts(2)[OF ppr'] by blast
qed

text \<open>C3: a success is only reported for what has been recorded. If the whole batch fits below
  the compaction threshold, a successful execution either found nothing to write or had its
  status update accepted; the accepted status is coherent, keeps the cells' availability,
  contains one more disruption for every pod it reports as disrupted and no other, and holds a
  bucket for every pod reported as disrupted or already recorded.\<close>

theorem tryExecute_records:
  assumes "bucket_sorter srt" and "pprInformerGet adapter key = Inr (Some ppr0)"
    and "config = Compute (defaultConfig adapter) (Some (HistoryConfig (Spec ppr0)))"
    and "1 \<le> CompactThreshold config" and "list_all cell_wf (Cells (Status ppr0))"
    and "list_all (\<lambda>c. int (length (cell_buckets c) + length args) \<le> CompactThreshold config)
      (Cells (Status ppr0))"
    and "int (length args) \<le> CompactThreshold config"
    and "tryExecute srt ic us adapter key args w = Some (ExecuteResultSuccess f, w')"
  shows "\<exists>ppr'. committed us key ppr0 ppr' w w' \<and> coherent (Status ppr') \<and> Spec ppr' = Spec ppr0
    \<and> list_all cell_wf (Cells (Status ppr'))
    \<and> sum_over AvailableReplicas (Cells (Status ppr')) = sum_over AvailableReplicas (Cells (Status ppr0))
    \<and> history_total (Cells (Status ppr')) = history_total (Cells (Status ppr0)) + disruptions f (length args)
    \<and> (\<forall>i < length args. f i \<in> {Some NewDisruption, Some AlreadyUnhealthy, Some AlreadyHasBucket} \<longrightarrow>
         has_bucket (Cells (Status ppr')) (args ! i))"
  using execute_records[OF assms] by blast

text \<open>C39: asking again for pods that are already recorded costs nothing: when every pod of
  the batch has a bucket in its cell and the histories do not exceed the threshold of compaction, an execution that succeeds answers all of them as already
  recorded and leaves the number of recorded disruptions as it was.\<close>

theorem tryExecute_retry_idempotent:
  assumes "bucket_sorter srt" and "pprInformerGet adapter key = Inr (Some ppr0)"
    and "config = Compute (defaultConfig adapter) (Some (HistoryConfig (Spec ppr0)))"
    and "1 \<le> CompactThreshold config" and "list_all cell_wf (Cells (Status ppr0))"
    and "list_all (\<lambda>c. int (length (cell_buckets c)) \<le> CompactThreshold config) (Cells (Status ppr0))"
    and "\<forall>i < length args. has_bucket (Cells (Status ppr0)) (args ! i)"
    and "tryExecute srt ic us adapter key args w = Some (ExecuteResultSuccess f, w')"
  shows "(\<forall>i < length args. f i = Some AlreadyHasBucket)
    \<and> (\<exists>ppr'. committed us key ppr0 ppr' w w'
          \<and> history_total (Cells (Status ppr')) = history_total (Cells (Status ppr0)))"
proof -
  obtain ppr staged results ppr' where ppr: "Summarize srt config ppr0 = Some ppr"
    and st: "stage srt adapter config ppr args = (staged, results)"
    and ppr': "Summarize srt config staged = Some ppr'"
    and run: "tryExecute srt ic us adapter key args w = Some (write_back ic us adapter key ppr0 ppr' results w)"
    by (rule bucket_sorter.tryExecute_run[OF assms(1-5)])
  note spec = stage_spec[OF st]
  have "write_back ic us adapter key ppr0 ppr' results w = (ExecuteResultSuccess f, w')"
    using assms(8) run by simp
  note f = write_back_success[OF this]
  have perm: "list_all2 same_buckets (Cells (Status ppr0)) (Cells (Status ppr))"
    by (rule bucket_sorter.Summarize_permutes[OF assms(1) ppr assms(6)])
  have all: "\<forall>i < length args. has_bucket (Cells (Status ppr)) (args ! i)"
    using assms(7) same_buckets_facts(2)[OF perm] by simp
  then have und: "undetermined_of (Cells (Status ppr)) 0 args = []"
    using undetermined_index[of _ _ "Cells (Status ppr)" 0 args] by (auto simp: filter_empty_conv undetermined_of_def in_set_enumerate_eq)
  have "map cell_shape (Cells (Status staged)) = map cell_shape (Cells (Status ppr))"
    using spec(4) by (auto simp: und disrupted_def)
  note shape = same_shape_facts[OF this]
  have "list_all (\<lambda>c. length (cell_buckets c) \<le> nat (CompactThreshold config)) (Cells (Status ppr0))"
    using assms(6) by (auto simp: list_all_iff)
  then have "list_all (\<lambda>c. length (cell_buckets c) \<le> nat (CompactThreshold config)) (Cells (Status staged))"
    using same_buckets_facts(3)[OF perm] shape(4) by simp
  then have "list_all (\<lambda>c. int (length (cell_buckets c)) \<le> CompactThreshold config) (Cells (Status staged))"
    using assms(4) by (auto simp: list_all_iff)
  note perm' = bucket_sorter.Summarize_permutes[OF assms(1) ppr' this]
  have "history_total (Cells (Status ppr')) = history_total (Cells (Status ppr0))"
    using same_buckets_facts(1)[OF perm] same_buckets_facts(1)[OF perm'] shape(1) by simp
  moreover have "\<forall>i < length args. f i = Some AlreadyHasBucket"
    using all spec(1,2) by (simp add: f(1))
  ultimately show ?thesis using f(2) by blast
qed

definition new_available :: "(nat \<Rightarrow> BatchResult option) \<Rightarrow> BatchItem list \<Rightarrow> int" where
  "new_available f args = int (length (filter (\<lambda>i. f i = Some NewDisruption
     \<and> effective (HealthCriterion (ItemPodStatus (args ! i))) = CritAvailable) [0..<length args]))"

lemma convert_NewDisruption [simp]:
  "admitResultToBatchItemResult r = NewDisruption \<longleftrightarrow> r = ResultOk"
  "NewDisruption = admitResultToBatchItemResult r \<longleftrightarrow> r = ResultOk"
  by (cases r; simp)+

lemma count_zip_ok:
  assumes "length xs = length V" "map (\<lambda>(i, a). f i) xs = map (Some \<circ> admitResultToBatchItemResult) V"
  shows "length (filter (\<lambda>(i, a). f i = Some NewDisruption
      \<and> effective (HealthCriterion (ItemPodStatus a)) = CritAvailable) xs) =
    length (filter (\<lambda>(p, r). effective (HealthCriterion p) = CritAvailable \<and> r = ResultOk)
      (zip (map (ItemPodStatus \<circ> snd) xs) V))"
  using assms by (induction xs V rule: list_induct2) auto

lemma new_available_admitted:
  assumes "\<forall>i < length args. has_bucket cells (args ! i) \<longrightarrow> f i = Some AlreadyHasBucket"
    and "map (\<lambda>(i, a). f i) (undetermined_of cells 0 args) = map (Some \<circ> admitResultToBatchItemResult) V"
  shows "new_available f args =
    admitted_for CritAvailable (zip (map (ItemPodStatus \<circ> snd) (undetermined_of cells 0 args)) V)"
proof -
  let ?und = "undetermined_of cells 0 args"
  let ?g = "\<lambda>i. f i = Some NewDisruption \<and> effective (HealthCriterion (ItemPodStatus (args ! i))) = CritAvailable"
  have len: "length ?und = length V" using assms(2) by (rule map_eq_imp_length_eq)
  have "length (filter ?g [0..<0 + length args]) = length (filter (?g \<circ> fst) ?und)"
    by (rule count_undetermined) (use assms(1) in auto)
  also have "filter (?g \<circ> fst) ?und = filter (\<lambda>(i, a). f i = Some NewDisruption
      \<and> effective (HealthCriterion (ItemPodStatus a)) = CritAvailable) ?und"
    by (rule filter_cong) (auto simp: undetermined_index)
  also have "length \<dots> = length (filter (\<lambda>(p, r). effective (HealthCriterion p) = CritAvailable \<and> r = ResultOk)
      (zip (map (ItemPodStatus \<circ> snd) ?und) V))"
    by (rule count_zip_ok[OF len assms(2)])
  finally show ?thesis by (simp add: new_available_def admitted_for_def case_prod_beta)
qed

text \<open>A successful execution never hands out more disruptions of available pods than the
  estimate allows: their number is at most the estimated availability of the summarized object
  less its required minimum, whatever other criteria occur in the batch.\<close>

theorem tryExecute_within_quota:
  assumes "bucket_sorter srt" and "pprInformerGet adapter key = Inr (Some ppr0)"
    and "config = Compute (defaultConfig adapter) (Some (HistoryConfig (Spec ppr0)))"
    and "1 \<le> CompactThreshold config" and "list_all cell_wf (Cells (Status ppr0))"
    and "Summarize srt config ppr0 = Some ppr"
    and "is_int32 (AggregatedAvailable (Summary (Status ppr)) - int (length args))"
    and "is_int32 (AggregatedAvailable (Summary (Status ppr)))"
    and "is_int32 (AggregatedAvailable (Summary (Status ppr)) - EstimatedAvailable (Summary (Status ppr)))"
    and "is_int32 (MinAvailable (Spec ppr) +
      (AggregatedAvailable (Summary (Status ppr)) - EstimatedAvailable (Summary (Status ppr))))"
    and "tryExecute srt ic us adapter key args w = Some (ExecuteResultSuccess f, w')"
  shows "new_available f args \<le> max 0 (EstimatedAvailable (Summary (Status ppr)) - MinAvailable (Spec ppr))"
proof -
  let ?und = "undetermined_of (Cells (Status ppr)) 0 args"
  let ?ps = "map (ItemPodStatus \<circ> snd) ?und"
  have "\<forall>i < length args. has_bucket (Cells (Status ppr)) (args ! i) \<longrightarrow> f i = Some AlreadyHasBucket"
    "map (\<lambda>(i, a). f i) ?und = map (Some \<circ> admitResultToBatchItemResult) (AdmitBatch ppr ?ps config)"
    using tryExecute_decides[OF assms(1-5), of ic us args w] assms(6,11) by (auto simp: Let_def)
  then have "new_available f args = admitted_for CritAvailable (zip ?ps (AdmitBatch ppr ?ps config))"
    by (rule new_available_admitted)
  moreover have "length ?und \<le> length args"
    unfolding undetermined_of_def by (metis length_enumerate length_filter_le)
  then have "is_int32 (AggregatedAvailable (Summary (Status ppr)) - int (length ?ps))"
    using assms(7,8) by (auto simp: is_int32_def)
  ultimately show ?thesis using AdmitBatch_quota_bound[OF _ assms(8-10), of ?ps config] by simp
qed

text \<open>C34: no verdict without a stored status. An execution does not panic. A read error becomes a tagged error
  and an absent object lets every pod through, both without a write. With an object, the verdicts and
  the status \<open>ppr'\<close> come from the summarized and staged object; verdicts are reported only when that very
  status was accepted by the server, or equals the one that was read so that nothing is written; the backoff
  is asked for only when the server rejected it with a conflict, and a tagged error is returned only when it was
  rejected with any other error.\<close>

theorem tryExecute_failures:
  assumes "bucket_sorter srt"
    and "\<forall>ppr0. pprInformerGet adapter key = Inr (Some ppr0) \<longrightarrow> list_all cell_wf (Cells (Status ppr0)) \<and>
      1 \<le> CompactThreshold (Compute (defaultConfig adapter) (Some (HistoryConfig (Spec ppr0))))"
  shows "\<exists>out w'. tryExecute srt ic us adapter key args w = Some (out, w')
    \<and> (\<forall>e. pprInformerGet adapter key = Inl e \<longrightarrow> w' = w
         \<and> out = ExecuteResultErr (TagWrapf ''GetListerPpr'' e ''get ppr from lister''))
    \<and> (pprInformerGet adapter key = Inr None \<longrightarrow> w' = w
         \<and> (\<exists>f. out = ExecuteResultSuccess f \<and> (\<forall>i. f i = Some NoPpr)))
    \<and> (\<forall>ppr0. pprInformerGet adapter key = Inr (Some ppr0) \<longrightarrow>
         (\<exists>config ppr staged results ppr'.
            config = Compute (defaultConfig adapter) (Some (HistoryConfig (Spec ppr0)))
          \<and> Summarize srt config ppr0 = Some ppr \<and> stage srt adapter config ppr args = (staged, results)
          \<and> Summarize srt config staged = Some ppr' \<and> length results = length args
          \<and> (\<forall>f. out = ExecuteResultSuccess f \<longrightarrow> (\<forall>i < length args. f i = Some (results ! i))
               \<and> (ppr' = ppr0 \<and> w' = w \<or> ppr' \<noteq> ppr0 \<and> us (SourceName key) ppr' w = (None, w')))
          \<and> (\<forall>d. out = ExecuteResultNeedRetry d \<longrightarrow> d = retryBackoff adapter \<and> ppr' \<noteq> ppr0
               \<and> (\<exists>e. us (SourceName key) ppr' w = (Some e, w') \<and> ic e))
          \<and> (\<forall>e. out = ExecuteResultErr e \<longrightarrow> ppr' \<noteq> ppr0
               \<and> (\<exists>e'. us (SourceName key) ppr' w = (Some e', w') \<and> \<not> ic e'
                    \<and> e = TagWrapf ''BatchUpdatePprStatus'' e' ''unable to update PodProtector status''))))"
proof (cases "pprInformerGet adapter key")
  case (Inr o')
  show ?thesis
  proof (cases o')
    case None
    then show ?thesis using Inr by (simp add: tryExecute_def)
  next
    case (Some ppr0)
    then have get: "pprInformerGet adapter key = Inr (Some ppr0)" using Inr by simp
    have ok: "1 \<le> CompactThreshold (Compute (defaultConfig adapter) (Some (HistoryConfig (Spec ppr0))))"
      "list_all cell_wf (Cells (Status ppr0))" using assms(2) get by simp_all
    obtain ppr staged results ppr' where
      run: "Summarize srt (Compute (defaultConfig adapter) (Some (HistoryConfig (Spec ppr0)))) ppr0 = Some ppr"
        "stage srt adapter (Compute (defaultConfig adapter) (Some (HistoryConfig (Spec ppr0)))) ppr args = (staged, results)"
        "Summarize srt (Compute (defaultConfig adapter) (Some (HistoryConfig (Spec ppr0)))) staged = Some ppr'"
      and out: "tryExecute srt ic us adapter key args w = Some (write_back ic us adapter key ppr0 ppr' results w)"
      by (rule bucket_sorter.tryExecute_run[OF assms(1) get refl ok])
    obtain res w' where wb: "write_back ic us adapter key ppr0 ppr' results w = (res, w')" by fastforce
    note len = stage_spec(1)[OF run(2)]
    have "(\<forall>f. res = ExecuteResultSuccess f \<longrightarrow> (\<forall>i < length args. f i = Some (results ! i))
        \<and> (ppr' = ppr0 \<and> w' = w \<or> ppr' \<noteq> ppr0 \<and> us (SourceName key) ppr' w = (None, w')))
      \<and> (\<forall>d. res = ExecuteResultNeedRetry d \<longrightarrow> d = retryBackoff adapter \<and> ppr' \<noteq> ppr0
        \<and> (\<exists>e. us (SourceName key) ppr' w = (Some e, w') \<and> ic e))
      \<and> (\<forall>e. res = ExecuteResultErr e \<longrightarrow> ppr' \<noteq> ppr0
        \<and> (\<exists>e'. us (SourceName key) ppr' w = (Some e', w') \<and> \<not> ic e'
            \<and> e = TagWrapf ''BatchUpdatePprStatus'' e' ''unable to update PodProtector status''))"
      using wb by (auto simp: write_back_def Let_def len split: if_splits prod.splits option.splits)
    then show ?thesis using get out wb run len
      by (intro exI[of _ res] exI[of _ w']) (simp, blast)
  qed
qed (simp add: tryExecute_def)

section \<open>Witnesses\<close>

definition sample_options :: ConfigOptions where
  "sample_options = \<lparr>opt_MaxConcurrentLag = 0, opt_CompactThreshold = 100, opt_AggregationRate = 5000000000\<rparr>"

definition sample_adapter :: "PodProtector \<Rightarrow> PoolAdapter" where
  "sample_adapter ppr = \<lparr>pprInformerGet = (\<lambda>_. Inr (Some ppr)), clockNow = 50,
     requiresPodName = ConstantRequiresPodName True, retryBackoff = 100000000,
     defaultConfig = sample_options\<rparr>"

definition sample_key :: PodProtectorKey where
  "sample_key = \<lparr>SourceName = ''core'', KeyNamespace = ''default'', KeyName = ''web''\<rparr>"

definition sample_item :: "string \<Rightarrow> BatchItem" where
  "sample_item uid = \<lparr>ItemCellId = ''c1'', ItemPodUid = uid, ItemPodName = ''web-'' @ uid,
     ItemPodStatus = quota_pod True\<rparr>"

definition accept_status :: "string \<Rightarrow> PodProtector \<Rightarrow> PodProtector \<Rightarrow> go_error option \<times> PodProtector" where
  "accept_status source ppr w = (None, ppr)"

definition sample_object :: PodProtector where
  "sample_object = sample_ppr 3 [sample_cell ''c1'' 5 [sample_bucket 10 ''a'']]"

lemma sample_object_facts:
  "list_all cell_wf (Cells (Status sample_object))"
  "history_total (Cells (Status sample_object)) = 1"
  "sum_over AvailableReplicas (Cells (Status sample_object)) = 5"
  "CompactThreshold (Compute sample_options (Some (HistoryConfig (Spec sample_object)))) = 100"
  "has_bucket (Cells (Status sample_object)) (sample_item ''a'')"
  "list_all (\<lambda>c. length (cell_buckets c) = 1) (Cells (Status sample_object))"
  by (simp_all add: sample_object_def sample_defs cell_wf_def bucket_wf_def bucket_count_def
      Compute_def sample_options_def has_bucket_def sample_item_def)

lemma sample_run:
  obtains f w' where "tryExecute insertion_sort ic accept_status (sample_adapter sample_object)
    sample_key args sample_object = Some (ExecuteResultSuccess f, w')"
proof -
  have "pprInformerGet (sample_adapter sample_object) sample_key = Inr (Some sample_object)"
    "1 \<le> CompactThreshold (Compute (defaultConfig (sample_adapter sample_object))
      (Some (HistoryConfig (Spec sample_object))))"
    by (simp_all add: sample_adapter_def sample_object_facts(4))
  then obtain results ppr' where "tryExecute insertion_sort ic accept_status (sample_adapter sample_object)
      sample_key args sample_object = Some (write_back ic accept_status (sample_adapter sample_object)
        sample_key sample_object ppr' results sample_object)"
    using insertion_buckets.tryExecute_run[OF _ refl _ sample_object_facts(1)] by metis
  then show thesis using that
    by (auto simp: write_back_def accept_status_def Let_def split: if_splits)
qed

lemma sample_adapter_facts:
  "pprInformerGet (sample_adapter sample_object) sample_key = Inr (Some sample_object)"
  "1 \<le> CompactThreshold (Compute (defaultConfig (sample_adapter sample_object))
      (Some (HistoryConfig (Spec sample_object))))"
  "n \<le> 99 \<Longrightarrow> list_all (\<lambda>c. int (length (cell_buckets c) + n) \<le> CompactThreshold (Compute
      (defaultConfig (sample_adapter sample_object)) (Some (HistoryConfig (Spec sample_object)))))
      (Cells (Status sample_object))"
  "n \<le> 99 \<Longrightarrow> int n \<le> CompactThreshold (Compute (defaultConfig (sample_adapter sample_object))
      (Some (HistoryConfig (Spec sample_object))))"
  using sample_object_facts(6) by (auto simp: sample_adapter_def sample_object_facts(4) list_all_iff)

theorem tryExecute_verdicts_witness:
  "\<exists>ppr out w'. Summarize insertion_sort (Compute sample_options (Some (HistoryConfig (Spec sample_object))))
       sample_object = Some ppr
     \<and> tryExecute insertion_sort (\<lambda>_. False) accept_status (sample_adapter sample_object) sample_key
       [sample_item ''a'', sample_item ''b''] sample_object = Some (out, w')"
  using tryExecute_verdicts[OF insertion_buckets.bucket_sorter_axioms sample_adapter_facts(1) refl
      sample_adapter_facts(2) sample_object_facts(1), of "\<lambda>_. False" accept_status
      "[sample_item ''a'', sample_item ''b'']" sample_object]
  by (auto simp: sample_adapter_def)

theorem tryExecute_records_witness:
  "\<exists>f w' ppr'. tryExecute insertion_sort (\<lambda>_. False) accept_status (sample_adapter sample_object) sample_key
       [sample_item ''b'', sample_item ''c''] sample_object = Some (ExecuteResultSuccess f, w')
     \<and> committed accept_status sample_key sample_object ppr' sample_object w'
     \<and> history_total (Cells (Status ppr')) = 1 + disruptions f 2"
proof -
  obtain f w' where run: "tryExecute insertion_sort (\<lambda>_. False) accept_status (sample_adapter sample_object)
      sample_key [sample_item ''b'', sample_item ''c''] sample_object = Some (ExecuteResultSuccess f, w')"
    by (rule sample_run)
  have "length [sample_item ''b'', sample_item ''c''] \<le> 99" by simp
  note fits = sample_adapter_facts(3,4)[OF this]
  show ?thesis
    using tryExecute_records[OF insertion_buckets.bucket_sorter_axioms sample_adapter_facts(1) refl
        sample_adapter_facts(2) sample_object_facts(1) fits run] run sample_object_facts(2)
    by (auto simp: numeral_2_eq_2)
qed

theorem tryExecute_retry_idempotent_witness:
  "\<exists>f w'. tryExecute insertion_sort (\<lambda>_. False) accept_status (sample_adapter sample_object) sample_key
       [sample_item ''a''] sample_object = Some (ExecuteResultSuccess f, w') \<and> f 0 = Some AlreadyHasBucket"
proof -
  obtain f w' where run: "tryExecute insertion_sort (\<lambda>_. False) accept_status (sample_adapter sample_object)
      sample_key [sample_item ''a''] sample_object = Some (ExecuteResultSuccess f, w')"
    by (rule sample_run)
  have "\<forall>i < length [sample_item ''a'']. has_bucket (Cells (Status sample_object)) ([sample_item ''a''] ! i)"
    using sample_object_facts(5) by simp
  from tryExecute_retry_idempotent[OF insertion_buckets.bucket_sorter_axioms sample_adapter_facts(1) refl
      sample_adapter_facts(2) sample_object_facts(1) sample_adapter_facts(3)[of 0, simplified] this run]
  show ?thesis using run by auto
qed

definition reject_status :: "string \<Rightarrow> PodProtector \<Rightarrow> PodProtector \<Rightarrow> go_error option \<times> PodProtector" where
  "reject_status source ppr w = (Some (StatusError ''Conflict'' ''modified''), w)"

text \<open>A server that rejects every write: no verdict is reported but on an unchanged object.\<close>

theorem tryExecute_failures_witness:
  "\<exists>out w'. tryExecute insertion_sort (\<lambda>_. True) reject_status (sample_adapter sample_object) sample_key
       [sample_item ''b''] sample_object = Some (out, w')
     \<and> (out = ExecuteResultNeedRetry 100000000 \<or> (\<exists>f. out = ExecuteResultSuccess f \<and> w' = sample_object))"
proof -
  obtain out w' where run: "tryExecute insertion_sort (\<lambda>_. True) reject_status (sample_adapter sample_object) sample_key
       [sample_item ''b''] sample_object = Some (out, w')"
    and success: "\<And>f. out = ExecuteResultSuccess f \<Longrightarrow> w' = sample_object"
    and retry: "\<And>d. out = ExecuteResultNeedRetry d \<Longrightarrow> d = 100000000"
    and err: "\<And>e. out \<noteq> ExecuteResultErr e"
    using tryExecute_failures[OF insertion_buckets.bucket_sorter_axioms, of "sample_adapter sample_object"
        sample_key "\<lambda>_. True" reject_status "[sample_item ''b'']" sample_object]
      sample_adapter_facts(1,2) sample_object_facts(1) by (auto simp: reject_status_def sample_adapter_def)
  then show ?thesis by (cases out) auto
qed

end
