(* ===== verification/Admissions.thy ===== *)
theory Admissions
  imports PoolAdapter
begin

text \<open>
  All executions of batches for one PodProtector together: the goroutines of any number of webhooks, each
  reading the object from its own informer, at any version that was ever stored, and writing the status
  back to one API server. What makes them safe is the resource version, which is checked by the server.
\<close>

section \<open>The API server\<close>

definition version :: "PodProtector \<Rightarrow> string" where "version ppr = ResourceVersion (PprMeta ppr)"

text \<open>The documented behaviour of the status endpoint of an API server: \<open>versions\<close> is what has been
  stored for the object, the latest first. An update is accepted only when it carries the version that is
  stored; it changes the status alone and gets a version that no other had, unless nothing changes.\<close>

definition optimistic_server ::
  "(string \<Rightarrow> PodProtector \<Rightarrow> 'w \<Rightarrow> go_error option \<times> 'w) \<Rightarrow> ('w \<Rightarrow> PodProtector list) \<Rightarrow> bool" where
  "optimistic_server us versions \<longleftrightarrow> (\<forall>src ppr w cur old. versions w = cur # old \<longrightarrow>
     (case us src ppr w of
        (Some err, w') \<Rightarrow> versions w' = versions w
      | (None, w') \<Rightarrow> version ppr = version cur \<and>
          (Status ppr = Status cur \<and> versions w' = versions w
           \<or> (\<exists>rv. rv \<notin> version ` set (versions w)
                \<and> versions w' = cur\<lparr>PprMeta := (PprMeta cur)\<lparr>ResourceVersion := rv\<rparr>, Status := Status ppr\<rparr> # versions w))))"

section \<open>Interleavings\<close>

text \<open>The histories of an object have room for a batch below the threshold of compaction, and the
  counters of its summary fit their 32 bits.\<close>

definition has_room :: "PoolAdapter \<Rightarrow> PodProtector \<Rightarrow> BatchItem list \<Rightarrow> bool" where
  "has_room adapter ppr args \<longleftrightarrow>
     (let threshold = CompactThreshold (Compute (defaultConfig adapter) (Some (HistoryConfig (Spec ppr))));
          cells = Cells (Status ppr); avail = sum_over AvailableReplicas cells; recorded = history_total cells
      in 1 \<le> threshold \<and> int (length args) \<le> threshold
         \<and> list_all (\<lambda>c. cell_wf c \<and> int (length (cell_buckets c) + length args) \<le> threshold) cells
         \<and> is_int32 avail \<and> is_int32 (avail - int (length args)) \<and> is_int32 recorded \<and> is_int32 (avail - recorded)
         \<and> is_int32 (MinAvailable (Spec ppr) + recorded))"

fun granted_by :: "BatchResult ExecuteResult \<Rightarrow> BatchItem list \<Rightarrow> int" where
  "granted_by (ExecuteResultSuccess f) args = new_available f args"
| "granted_by _ args = 0"

text \<open>\<open>base\<close> is the object as the last writer other than the webhooks left it, and \<open>granted\<close> the
  number of available pods that the webhooks have let go since.\<close>

inductive admissions :: "bucket sorter \<Rightarrow> (go_error \<Rightarrow> bool) \<Rightarrow> (string \<Rightarrow> PodProtector \<Rightarrow> 'w \<Rightarrow> go_error option \<times> 'w) \<Rightarrow>
    ('w \<Rightarrow> PodProtector list) \<Rightarrow> PodProtectorKey \<Rightarrow> PodProtector \<Rightarrow> 'w \<Rightarrow> int \<Rightarrow> bool"
  for srt ic us versions key where
  start: "versions w = [base] \<Longrightarrow> admissions srt ic us versions key base w 0"
| execute: "admissions srt ic us versions key base w granted \<Longrightarrow>
    snap \<in> set (versions w) \<Longrightarrow> pprInformerGet adapter key = Inr (Some snap) \<Longrightarrow> has_room adapter snap args \<Longrightarrow>
    tryExecute srt ic us adapter key args w = Some (res, w') \<Longrightarrow>
    admissions srt ic us versions key base w' (granted + granted_by res args)"
| other: "admissions srt ic us versions key base w granted \<Longrightarrow>
    versions w' = ppr # versions w \<Longrightarrow> version ppr \<notin> version ` set (versions w) \<Longrightarrow>
    admissions srt ic us versions key ppr w' 0"

section \<open>One execution\<close>

lemma new_available_disruptions: "new_available f args \<le> disruptions f (length args)"
proof -
  have "length (filter (\<lambda>i. P i \<and> Q i) xs) \<le> length (filter (\<lambda>i. P i \<or> R i) xs)" for P Q R :: "nat \<Rightarrow> bool" and xs
    by (induction xs) auto
  then show ?thesis unfolding new_available_def disruptions_def by simp
qed

lemma server_step:
  assumes "optimistic_server us versions" "versions w = cur # old"
  shows "us src ppr w = (Some e, w') \<Longrightarrow> versions w' = versions w"
    and "us src ppr w = (None, w') \<Longrightarrow> version ppr = version cur"
    and "us src ppr w = (None, w') \<Longrightarrow> Status ppr = Status cur \<and> versions w' = versions w
      \<or> (\<exists>rv. rv \<notin> version ` set (versions w)
           \<and> versions w' = cur\<lparr>PprMeta := (PprMeta cur)\<lparr>ResourceVersion := rv\<rparr>, Status := Status ppr\<rparr> # versions w)"
proof -
  note step = assms(1)[unfolded optimistic_server_def, THEN spec[of _ src], THEN spec[of _ ppr], THEN spec[of _ w],
      THEN spec[of _ cur], THEN spec[of _ old], THEN mp, OF assms(2)]
  show "versions w' = versions w" if eq: "us src ppr w = (Some e, w')"
    using step[unfolded eq prod.case option.case] .
  show "version ppr = version cur" if eq: "us src ppr w = (None, w')"
    by (rule conjunct1[OF step[unfolded eq prod.case option.case]])
  show "Status ppr = Status cur \<and> versions w' = versions w
      \<or> (\<exists>rv. rv \<notin> version ` set (versions w)
           \<and> versions w' = cur\<lparr>PprMeta := (PprMeta cur)\<lparr>ResourceVersion := rv\<rparr>, Status := Status ppr\<rparr> # versions w)"
    if eq: "us src ppr w = (None, w')"
    by (rule conjunct2[OF step[unfolded eq prod.case option.case]])
qed

lemma execute_quota:
  assumes "bucket_sorter srt" "pprInformerGet adapter key = Inr (Some ppr0)" "has_room adapter ppr0 args"
    and "tryExecute srt ic us adapter key args w = Some (ExecuteResultSuccess f, w')"
  shows "new_available f args \<le> max 0 (sum_over AvailableReplicas (Cells (Status ppr0)) - history_total (Cells (Status ppr0)) - MinAvailable (Spec ppr0))"
proof -
  let ?config = "Compute (defaultConfig adapter) (Some (HistoryConfig (Spec ppr0)))"
  let ?avail = "sum_over AvailableReplicas (Cells (Status ppr0))" and ?rec = "history_total (Cells (Status ppr0))"
  have room: "1 \<le> CompactThreshold ?config" "list_all cell_wf (Cells (Status ppr0))"
    "list_all (\<lambda>c. int (length (cell_buckets c)) \<le> CompactThreshold ?config) (Cells (Status ppr0))"
    "is_int32 ?avail" "is_int32 (?avail - int (length args))" "is_int32 ?rec" "is_int32 (?avail - ?rec)" "is_int32 (MinAvailable (Spec ppr0) + ?rec)"
    using assms(3) by (auto simp: has_room_def Let_def list_all_iff)
  obtain ppr where ppr: "Summarize srt ?config ppr0 = Some ppr"
    using bucket_sorter.tryExecute_run[OF assms(1,2) refl room(1,2)] by metis
  have same: "history_total (Cells (Status ppr)) = ?rec" "sum_over AvailableReplicas (Cells (Status ppr)) = ?avail" "Spec ppr = Spec ppr0"
    using same_buckets_facts(1)[OF bucket_sorter.Summarize_permutes[OF assms(1) ppr room(3)]]
      compacted_frame_all(3)[OF Summarize_facts(1)[OF ppr]] Summarize_facts(4)[OF ppr] by simp_all
  then have sums: "AggregatedAvailable (Summary (Status ppr)) = ?avail" "EstimatedAvailable (Summary (Status ppr)) = ?avail - ?rec"
    using Summarize_facts(2)[OF ppr] room(4,7) by (simp_all add: coherent_def i32_id)
  show ?thesis
    using tryExecute_within_quota[OF assms(1,2) refl room(1,2) ppr _ _ _ _ assms(4)] room(4-8) sums same(3) by simp
qed

lemma execute_failed:
  assumes "optimistic_server us versions" "bucket_sorter srt" "versions w = cur # old"
    and "pprInformerGet adapter key = Inr (Some snap)"
    and "1 \<le> CompactThreshold (Compute (defaultConfig adapter) (Some (HistoryConfig (Spec snap))))" "list_all cell_wf (Cells (Status snap))"
    and "tryExecute srt ic us adapter key args w = Some (res, w')" "\<nexists>f. res = ExecuteResultSuccess f"
  shows "versions w' = versions w"
proof -
  obtain results ppr' where "write_back ic us adapter key snap ppr' results w = (res, w')"
    using bucket_sorter.tryExecute_run[OF assms(2,4) refl assms(5,6), of args ic us w] assms(7) by (metis option.inject)
  then show ?thesis
    using server_step(1)[OF assms(1,3)] assms(8)
    by (auto simp: write_back_def Let_def split: if_splits prod.splits option.splits)
qed

text \<open>An execution over a server: nothing is stored without a success, and a success has read the latest
  version or has granted nothing.\<close>

lemma execute_stores:
  assumes "optimistic_server us versions" "bucket_sorter srt" "versions w = cur # old" "distinct (map version (cur # old))"
    and "snap \<in> set (cur # old)" "pprInformerGet adapter key = Inr (Some snap)" "has_room adapter snap args"
    and "tryExecute srt ic us adapter key args w = Some (res, w')"
  shows "versions w' = versions w \<and> granted_by res args \<le> 0
    \<or> (\<exists>new. versions w' = new # versions w \<and> version new \<notin> version ` set (versions w) \<and> Spec new = Spec cur
        \<and> sum_over AvailableReplicas (Cells (Status new)) = sum_over AvailableReplicas (Cells (Status cur))
        \<and> history_total (Cells (Status cur)) + granted_by res args \<le> history_total (Cells (Status new))
        \<and> granted_by res args \<le> max 0 (sum_over AvailableReplicas (Cells (Status cur)) - history_total (Cells (Status cur)) - MinAvailable (Spec cur)))"
proof -
  let ?config = "Compute (defaultConfig adapter) (Some (HistoryConfig (Spec snap)))"
  have room: "1 \<le> CompactThreshold ?config" "list_all cell_wf (Cells (Status snap))" "int (length args) \<le> CompactThreshold ?config"
    "list_all (\<lambda>c. int (length (cell_buckets c) + length args) \<le> CompactThreshold ?config) (Cells (Status snap))"
    using assms(7) by (auto simp: has_room_def Let_def list_all_iff)
  show ?thesis
  proof (cases res)
    case (ExecuteResultSuccess f)
    obtain ppr' where ppr': "committed us key snap ppr' w w'" "PprMeta ppr' = PprMeta snap" "Spec ppr' = Spec snap"
      "sum_over AvailableReplicas (Cells (Status ppr')) = sum_over AvailableReplicas (Cells (Status snap))"
      "history_total (Cells (Status ppr')) = history_total (Cells (Status snap)) + disruptions f (length args)"
      using execute_records[OF assms(2,6) refl room(1,2,4,3) assms(8)[unfolded ExecuteResultSuccess]] by blast
    have few: "granted_by res args \<le> disruptions f (length args)" using ExecuteResultSuccess new_available_disruptions by simp
    show ?thesis
    proof (cases "us (SourceName key) ppr' w = (None, w')")
      case False
      then have "ppr' = snap" "w' = w" using ppr'(1) by (auto simp: committed_def)
      then show ?thesis using few ppr'(5) by simp
    next
      case True
      note stored = server_step(2,3)[OF assms(1,3) True]
      have "version snap = version cur" using stored(1) ppr'(2) by (simp add: version_def)
      then have snap: "snap = cur" using assms(4,5) by (auto simp: image_iff)
      have quota: "granted_by res args \<le> max 0 (sum_over AvailableReplicas (Cells (Status cur)) - history_total (Cells (Status cur)) - MinAvailable (Spec cur))"
        using execute_quota[OF assms(2,6,7) assms(8)[unfolded ExecuteResultSuccess]] ExecuteResultSuccess snap by simp
      from stored(2) show ?thesis
      proof
        assume "Status ppr' = Status cur \<and> versions w' = versions w"
        then show ?thesis using ppr'(5) few snap by simp
      next
        assume "\<exists>rv. rv \<notin> version ` set (versions w) \<and> versions w' = cur\<lparr>PprMeta := (PprMeta cur)\<lparr>ResourceVersion := rv\<rparr>, Status := Status ppr'\<rparr> # versions w"
        then obtain rv where rv: "rv \<notin> version ` set (versions w)"
          "versions w' = cur\<lparr>PprMeta := (PprMeta cur)\<lparr>ResourceVersion := rv\<rparr>, Status := Status ppr'\<rparr> # versions w" by blast
        show ?thesis
          using rv quota few ppr'(4,5) snap
          by (intro disjI2 exI[of _ "cur\<lparr>PprMeta := (PprMeta cur)\<lparr>ResourceVersion := rv\<rparr>, Status := Status ppr'\<rparr>"]) (simp add: version_def)
      qed
    qed
  next
    case (ExecuteResultNeedRetry d)
    have "versions w' = versions w"
      by (rule execute_failed[OF assms(1-3,6) room(1,2) assms(8)]) (simp add: ExecuteResultNeedRetry)
    then show ?thesis using ExecuteResultNeedRetry by simp
  next
    case (ExecuteResultErr e)
    have "versions w' = versions w"
      by (rule execute_failed[OF assms(1-3,6) room(1,2) assms(8)]) (simp add: ExecuteResultErr)
    then show ?thesis using ExecuteResultErr by simp
  qed
qed

section \<open>All executions together\<close>

lemma admissions_invariant:
  assumes "optimistic_server us versions" "bucket_sorter srt" "admissions srt ic us versions key base w granted"
  shows "\<exists>cur old. versions w = cur # old \<and> distinct (map version (cur # old)) \<and> Spec cur = Spec base
    \<and> sum_over AvailableReplicas (Cells (Status cur)) = sum_over AvailableReplicas (Cells (Status base))
    \<and> history_total (Cells (Status base)) + granted \<le> history_total (Cells (Status cur))
    \<and> granted \<le> max 0 (sum_over AvailableReplicas (Cells (Status base)) - history_total (Cells (Status base)) - MinAvailable (Spec base))"
  using assms(3)
proof induction
  case (execute base w granted snap adapter args res w')
  then obtain cur old where inv: "versions w = cur # old" "distinct (map version (cur # old))" "Spec cur = Spec base"
    "sum_over AvailableReplicas (Cells (Status cur)) = sum_over AvailableReplicas (Cells (Status base))"
    "history_total (Cells (Status base)) + granted \<le> history_total (Cells (Status cur))"
    "granted \<le> max 0 (sum_over AvailableReplicas (Cells (Status base)) - history_total (Cells (Status base)) - MinAvailable (Spec base))"
    by blast
  have snap: "snap \<in> set (cur # old)" using execute.hyps(2) inv(1) by simp
  from execute_stores[OF assms(1,2) inv(1,2) snap execute.hyps(3-5)] show ?case
  proof
    assume "versions w' = versions w \<and> granted_by res args \<le> 0"
    then show ?thesis using inv by simp
  next
    assume "\<exists>new. versions w' = new # versions w \<and> version new \<notin> version ` set (versions w) \<and> Spec new = Spec cur
        \<and> sum_over AvailableReplicas (Cells (Status new)) = sum_over AvailableReplicas (Cells (Status cur))
        \<and> history_total (Cells (Status cur)) + granted_by res args \<le> history_total (Cells (Status new))
        \<and> granted_by res args \<le> max 0 (sum_over AvailableReplicas (Cells (Status cur)) - history_total (Cells (Status cur)) - MinAvailable (Spec cur))"
    then obtain new where "versions w' = new # versions w" "version new \<notin> version ` set (versions w)" "Spec new = Spec cur"
      "sum_over AvailableReplicas (Cells (Status new)) = sum_over AvailableReplicas (Cells (Status cur))"
      "history_total (Cells (Status cur)) + granted_by res args \<le> history_total (Cells (Status new))"
      "granted_by res args \<le> max 0 (sum_over AvailableReplicas (Cells (Status cur)) - history_total (Cells (Status cur)) - MinAvailable (Spec cur))"
      by blast
    then show ?thesis using inv by auto
  qed
next
  case (other base w granted w' ppr)
  then show ?case by auto
qed simp

text \<open>C2: the webhooks together keep a PodProtector within its quota. Any number of webhook processes execute
  batches against one object, in any order, each deciding on any version of the object that was ever stored
  (a stale informer cache included), while other writers may replace the object at any time. The pods that
  are let go under the availability criterion, which is the default one, since the last write by anyone
  else never exceed the reported availability less the disruptions recorded then less \<open>minAvailable\<close>, and each
  of them is recorded in the histories of the stored object. This holds for an API server that accepts a
  status only at the stored resource version, for executions whose histories and batch fit below the threshold of
  compaction, and for counters within their 32 bits.\<close>

theorem concurrent_within_quota:
  assumes "optimistic_server us versions" "bucket_sorter srt" "admissions srt ic us versions key base w granted"
  shows "granted \<le> max 0 (sum_over AvailableReplicas (Cells (Status base)) - history_total (Cells (Status base)) - MinAvailable (Spec base))
    \<and> (\<exists>cur old. versions w = cur # old \<and> Spec cur = Spec base
         \<and> sum_over AvailableReplicas (Cells (Status cur)) = sum_over AvailableReplicas (Cells (Status base))
         \<and> history_total (Cells (Status base)) + granted \<le> history_total (Cells (Status cur)))"
  using admissions_invariant[OF assms] by blast

section \<open>Witnesses\<close>

text \<open>A server that keeps the versions in a list and numbers them in unary.\<close>

definition list_server :: "string \<Rightarrow> PodProtector \<Rightarrow> PodProtector list \<Rightarrow> go_error option \<times> PodProtector list" where
  "list_server src ppr w = (case w of
     [] \<Rightarrow> (Some (StatusError ''NotFound'' ''not found''), w)
   | cur # old \<Rightarrow>
       if version ppr \<noteq> version cur then (Some (StatusError ''Conflict'' ''conflict''), w)
       else if Status ppr = Status cur then (None, w)
       else (None, cur\<lparr>PprMeta := (PprMeta cur)\<lparr>ResourceVersion :=
              replicate (Suc (sum_list (map (length \<circ> version) w))) CHR ''1''\<rparr>, Status := Status ppr\<rparr> # w))"

lemma fresh_version: "replicate (Suc (sum_list (map (length \<circ> version) w))) CHR ''1'' \<notin> version ` set w"
proof
  assume "replicate (Suc (sum_list (map (length \<circ> version) w))) CHR ''1'' \<in> version ` set w"
  then obtain p where "p \<in> set w" "length (version p) = Suc (sum_list (map (length \<circ> version) w))"
    by (metis imageE length_replicate)
  moreover have "(length \<circ> version) p \<le> sum_list (map (length \<circ> version) w)" if "p \<in> set w"
    by (rule member_le_sum_list) (simp_all add: that)
  ultimately show False by simp
qed

lemma list_server_optimistic: "optimistic_server list_server id"
  unfolding optimistic_server_def list_server_def
  using fresh_version by (auto simp del: replicate_Suc)

theorem concurrent_within_quota_witness:
  "\<exists>res w'. tryExecute insertion_sort (\<lambda>_. True) list_server (sample_adapter sample_object) sample_key
       [sample_item ''b'', sample_item ''c''] [sample_object] = Some (res, w')
     \<and> granted_by res [sample_item ''b'', sample_item ''c''] \<le> 1"
proof -
  let ?args = "[sample_item ''b'', sample_item ''c'']"
  obtain res w' where run: "tryExecute insertion_sort (\<lambda>_. True) list_server (sample_adapter sample_object) sample_key
      ?args [sample_object] = Some (res, w')"
    using insertion_buckets.tryExecute_run[OF sample_adapter_facts(1) refl sample_adapter_facts(2) sample_object_facts(1)]
    by (metis surj_pair)
  have "has_room (sample_adapter sample_object) sample_object ?args"
    using sample_object_facts
    by (simp add: has_room_def Let_def sample_adapter_def list_all_iff is_int32_def sample_object_def sample_ppr_def)
  then have "admissions insertion_sort (\<lambda>_. True) list_server id sample_key sample_object w' (0 + granted_by res ?args)"
    using admissions.execute[OF admissions.start[of id "[sample_object]" sample_object] _ sample_adapter_facts(1) _ run] by simp
  then have adm: "admissions insertion_sort (\<lambda>_. True) list_server id sample_key sample_object w' (granted_by res ?args)"
    by simp
  have "MinAvailable (Spec sample_object) = 3" by (simp add: sample_object_def sample_ppr_def)
  then have "granted_by res ?args \<le> 1"
    using concurrent_within_quota[OF list_server_optimistic insertion_buckets.bucket_sorter_axioms adm] sample_object_facts(2,3)
    by simp
  then show ?thesis using run by blast
qed

end
