(* ===== verification/FusedRc.thy ===== *)
theory FusedRc
  imports Prelude
begin

text \<open>
  The fusable reference counter (\<open>util/retrybatch/fusedrc/fusedrc.go\<close>) and the life of
  a key's handle in the retry pool (\<open>acquireLazyHandle\<close> and the end of
  \<open>batchGoroutine\<close> in \<open>util/retrybatch/pool.go\<close>). Keys do not interact, so
  one key is modelled; submitters and the batch goroutine interleave at their atomic
  operations: the map's \<open>LoadOrCompute\<close> and \<open>Delete\<close>, and the counter's
  \<open>Acquire\<close>, \<open>Release\<close> and \<open>Fuse\<close>.
\<close>

section \<open>The counter\<close>

definition MinInt32 :: int where "MinInt32 = - 2147483648"
definition fusedInitValue :: int32 where "fusedInitValue = - 1073741824"

definition fusedrc_New :: int32 where "fusedrc_New = 0"

text \<open>Each operation returns the new counter; the first component is \<open>None\<close> for a panic.\<close>

definition Acquire :: "int32 \<Rightarrow> bool option \<times> int32" where
  "Acquire rc =
     (let newValue = i32 (rc + 1)
      in (if newValue > 0 then Some True
          else if newValue = 0 then None
          else if newValue = MinInt32 then None
          else Some False, newValue))"

definition Release :: "int32 \<Rightarrow> unit option \<times> int32" where
  "Release rc = (let newValue = i32 (rc - 1) in (if newValue < 0 then None else Some (), newValue))"

definition Fuse :: "int32 \<Rightarrow> bool \<times> int32" where
  "Fuse rc = (if rc = 0 then (True, fusedInitValue) else (False, rc))"

section \<open>Handles, submitters and goroutines of one key\<close>

datatype goroutine = NotStarted | Live | Fused | Ended

text \<open>A submitter is outside, has loaded a handle (the flag is \<open>isOld\<close>), or holds an
  acquired handle until its deferred release.\<close>

datatype submitter = Outside | Loaded nat bool | Holding nat

record pool_state =
  handle :: "nat option"
  rc :: "nat \<Rightarrow> int32"
  next_handle :: nat
  goroutine_of :: "nat \<Rightarrow> goroutine"
  submitter_of :: "nat \<Rightarrow> submitter"
  crashed :: bool

definition initial_pool :: pool_state where
  "initial_pool = \<lparr>handle = None, rc = (\<lambda>_. fusedrc_New), next_handle = 0,
     goroutine_of = (\<lambda>_. NotStarted), submitter_of = (\<lambda>_. Outside), crashed = False\<rparr>"

definition LoadOrCompute :: "nat \<Rightarrow> pool_state \<Rightarrow> pool_state" where
  "LoadOrCompute t s = (case handle s of
     Some h \<Rightarrow> s\<lparr>submitter_of := (submitter_of s)(t := Loaded h True)\<rparr>
   | None \<Rightarrow> s\<lparr>handle := Some (next_handle s), next_handle := Suc (next_handle s),
       rc := (rc s)(next_handle s := fusedrc_New),
       submitter_of := (submitter_of s)(t := Loaded (next_handle s) False)\<rparr>)"

text \<open>What follows the load: a failed acquisition goes back to the load, a successful one by the
  submitter that created the handle starts its goroutine.\<close>

definition acquire_handle :: "nat \<Rightarrow> nat \<Rightarrow> bool \<Rightarrow> pool_state \<Rightarrow> pool_state" where
  "acquire_handle t h isOld s = (case Acquire (rc s h) of
     (None, v) \<Rightarrow> s\<lparr>rc := (rc s)(h := v), crashed := True\<rparr>
   | (Some False, v) \<Rightarrow> s\<lparr>rc := (rc s)(h := v), submitter_of := (submitter_of s)(t := Outside)\<rparr>
   | (Some True, v) \<Rightarrow> s\<lparr>rc := (rc s)(h := v), submitter_of := (submitter_of s)(t := Holding h),
       goroutine_of := (if isOld then goroutine_of s else (goroutine_of s)(h := Live))\<rparr>)"

definition release_handle :: "nat \<Rightarrow> nat \<Rightarrow> pool_state \<Rightarrow> pool_state" where
  "release_handle t h s = (case Release (rc s h) of
     (None, v) \<Rightarrow> s\<lparr>rc := (rc s)(h := v), crashed := True\<rparr>
   | (Some _, v) \<Rightarrow> s\<lparr>rc := (rc s)(h := v), submitter_of := (submitter_of s)(t := Outside)\<rparr>)"

definition fuse_handle :: "nat \<Rightarrow> pool_state \<Rightarrow> pool_state" where
  "fuse_handle h s = (case Fuse (rc s h) of
     (True, v) \<Rightarrow> s\<lparr>rc := (rc s)(h := v), goroutine_of := (goroutine_of s)(h := Fused)\<rparr>
   | (False, v) \<Rightarrow> s\<lparr>rc := (rc s)(h := v)\<rparr>)"

definition cleanup_handle :: "nat \<Rightarrow> pool_state \<Rightarrow> pool_state" where
  "cleanup_handle h s = s\<lparr>handle := None, goroutine_of := (goroutine_of s)(h := Ended)\<rparr>"

inductive pool_step :: "pool_state \<Rightarrow> pool_state \<Rightarrow> bool" where
  load: "\<not> crashed s \<Longrightarrow> submitter_of s t = Outside \<Longrightarrow> pool_step s (LoadOrCompute t s)"
| acquire: "\<not> crashed s \<Longrightarrow> submitter_of s t = Loaded h isOld \<Longrightarrow> pool_step s (acquire_handle t h isOld s)"
| release: "\<not> crashed s \<Longrightarrow> submitter_of s t = Holding h \<Longrightarrow> pool_step s (release_handle t h s)"
| fuse: "\<not> crashed s \<Longrightarrow> goroutine_of s h = Live \<Longrightarrow> pool_step s (fuse_handle h s)"
| cleanup: "\<not> crashed s \<Longrightarrow> goroutine_of s h = Fused \<Longrightarrow> pool_step s (cleanup_handle h s)"

inductive pool_reachable :: "pool_state \<Rightarrow> bool" where
  init: "pool_reachable initial_pool"
| step: "pool_reachable s \<Longrightarrow> pool_step s s' \<Longrightarrow> pool_reachable s'"

section \<open>The invariant\<close>

definition holders :: "pool_state \<Rightarrow> nat \<Rightarrow> nat set" where
  "holders s h = {t. submitter_of s t = Holding h}"

definition creators :: "pool_state \<Rightarrow> nat \<Rightarrow> nat set" where
  "creators s h = {t. submitter_of s t = Loaded h False}"

text \<open>What the counter and the bookkeeping of one handle say to each other.\<close>

definition handle_ok :: "pool_state \<Rightarrow> nat \<Rightarrow> bool" where
  "handle_ok s h = (case goroutine_of s h of
     NotStarted \<Rightarrow> handle s = Some h \<and> card (creators s h) = 1 \<and> rc s h = int (card (holders s h))
   | Live \<Rightarrow> handle s = Some h \<and> creators s h = {} \<and> rc s h = int (card (holders s h))
   | Fused \<Rightarrow> handle s = Some h \<and> creators s h = {} \<and> holders s h = {} \<and> fusedInitValue \<le> rc s h \<and> rc s h < 0
   | Ended \<Rightarrow> handle s \<noteq> Some h \<and> creators s h = {} \<and> holders s h = {} \<and> fusedInitValue \<le> rc s h \<and> rc s h < 0)"

definition pool_inv :: "pool_state \<Rightarrow> bool" where
  "pool_inv s \<longleftrightarrow> finite {t. submitter_of s t \<noteq> Outside}
   \<and> (\<forall>h < next_handle s. handle_ok s h)
   \<and> (\<forall>h \<ge> next_handle s. goroutine_of s h = NotStarted)
   \<and> (\<forall>h. is_int32 (rc s h))
   \<and> (\<forall>t h b. submitter_of s t = Loaded h b \<or> submitter_of s t = Holding h \<longrightarrow> h < next_handle s)
   \<and> (\<forall>h. handle s = Some h \<longrightarrow> h < next_handle s)"

lemma handle_ok_cong:
  assumes "goroutine_of s' h = goroutine_of s h" "rc s' h = rc s h"
    "holders s' h = holders s h" "creators s' h = creators s h"
    "handle s' = Some h \<longleftrightarrow> handle s = Some h"
  shows "handle_ok s' h = handle_ok s h"
  using assms by (simp add: handle_ok_def split: goroutine.split)

lemma holders_update:
  "submitter_of s' = (submitter_of s)(t := x) \<Longrightarrow>
   holders s' h = (if x = Holding h then insert t (holders s h) else holders s h - {t})"
  by (auto simp: holders_def)

lemma creators_update:
  "submitter_of s' = (submitter_of s)(t := x) \<Longrightarrow>
   creators s' h = (if x = Loaded h False then insert t (creators s h) else creators s h - {t})"
  by (auto simp: creators_def)

lemma finite_submitters:
  assumes "pool_inv s" shows "finite (holders s h)" "finite (creators s h)"
proof -
  have "holders s h \<subseteq> {t. submitter_of s t \<noteq> Outside}" "creators s h \<subseteq> {t. submitter_of s t \<noteq> Outside}"
    by (auto simp: holders_def creators_def)
  then show "finite (holders s h)" "finite (creators s h)"
    using assms by (auto simp: pool_inv_def intro: finite_subset)
qed

lemma finite_update:
  "finite {t. f t \<noteq> Outside} \<Longrightarrow> finite {u. (f(t := x)) u \<noteq> Outside}"
  by (rule finite_subset[of _ "insert t {t. f t \<noteq> Outside}"]) (auto split: if_splits)

lemma pool_invD:
  assumes "pool_inv s"
  shows "h < next_handle s \<Longrightarrow> handle_ok s h"
    "submitter_of s t = Loaded h b \<Longrightarrow> h < next_handle s"
    "submitter_of s t = Holding h \<Longrightarrow> h < next_handle s"
    "handle s = Some h \<Longrightarrow> h < next_handle s" "is_int32 (rc s h)"
    "next_handle s \<le> h \<Longrightarrow> goroutine_of s h = NotStarted"
  using assms unfolding pool_inv_def by blast+

text \<open>A step that touches one handle and one submitter keeps the invariant when that handle is
  well kept afterwards.\<close>

lemma pool_inv_local:
  assumes inv: "pool_inv s" and h: "h < next_handle s"
    and sub: "submitter_of s' = (submitter_of s)(t := x)" and old: "submitter_of s t = Holding h \<or> (\<exists>b. submitter_of s t = Loaded h b)"
    and x: "x = Outside \<or> x = Holding h"
    and "handle s' = handle s" "next_handle s' = next_handle s"
    and rcs: "\<And>k. k \<noteq> h \<Longrightarrow> rc s' k = rc s k" "is_int32 (rc s' h)"
    and gs: "\<And>k. k \<noteq> h \<Longrightarrow> goroutine_of s' k = goroutine_of s k"
    and ok: "handle_ok s' h"
  shows "pool_inv s'"
proof -
  have "handle_ok s' k" if "k < next_handle s" for k
  proof (cases "k = h")
    case False
    have "holders s' k = holders s k" "creators s' k = creators s k"
      using old x False unfolding holders_update[OF sub] creators_update[OF sub]
      by (auto simp: holders_def creators_def)
    then have "handle_ok s' k = handle_ok s k"
      using False assms(6) rcs gs by (intro handle_ok_cong) auto
    then show ?thesis using pool_invD(1)[OF inv that] by simp
  qed (use ok in simp)
  then show ?thesis
    using inv assms(6,7) rcs gs h x finite_update[of "submitter_of s" t x]
    unfolding pool_inv_def sub by (auto split: if_splits) (metis not_less)+
qed

lemma load_inv:
  assumes inv: "pool_inv s" and t: "submitter_of s t = Outside"
  shows "pool_inv (LoadOrCompute t s)"
proof (cases "handle s")
  case (Some h)
  let ?s' = "LoadOrCompute t s"
  have s': "?s' = s\<lparr>submitter_of := (submitter_of s)(t := Loaded h True)\<rparr>"
    using Some by (simp add: LoadOrCompute_def)
  have "holders ?s' k = holders s k" "creators ?s' k = creators s k" for k
    using t by (auto simp: s' holders_def creators_def)
  then have "handle_ok ?s' k = handle_ok s k" for k by (intro handle_ok_cong) (simp_all add: s')
  then show ?thesis
    using inv pool_invD(4)[OF inv Some] finite_update[of "submitter_of s" t "Loaded h True"]
    by (auto simp: pool_inv_def s')
next
  case None
  let ?n = "next_handle s"
  let ?s' = "LoadOrCompute t s"
  have s': "?s' = s\<lparr>handle := Some ?n, next_handle := Suc ?n, rc := (rc s)(?n := 0),
       submitter_of := (submitter_of s)(t := Loaded ?n False)\<rparr>"
    using None by (simp add: LoadOrCompute_def fusedrc_New_def)
  have fresh: "holders s ?n = {}" "creators s ?n = {}"
    using pool_invD(2,3)[OF inv] by (fastforce simp: holders_def creators_def)+
  have "handle_ok ?s' k" if "k < Suc ?n" for k
  proof (cases "k = ?n")
    case True
    have "holders ?s' ?n = {}" "creators ?s' ?n = {t}"
      using fresh t by (auto simp: s' holders_def creators_def)
    then show ?thesis using True pool_invD(6)[OF inv, of ?n] by (simp add: handle_ok_def s')
  next
    case False
    then have k: "handle_ok s k" using that pool_invD(1)[OF inv] by simp
    have "holders ?s' k = holders s k" "creators ?s' k = creators s k"
      using t False by (auto simp: s' holders_def creators_def)
    then have "handle_ok ?s' k = handle_ok s k"
      using False None k by (intro handle_ok_cong) (simp_all add: s')
    then show ?thesis using k by simp
  qed
  then show ?thesis
    using inv pool_invD(2,3)[OF inv] finite_update[of "submitter_of s" t "Loaded ?n False"]
    by (auto simp: pool_inv_def s' is_int32_def[of 0] less_Suc_eq)
qed

lemma acquire_inv:
  assumes inv: "pool_inv s" and t: "submitter_of s t = Loaded h isOld"
  shows "pool_inv (acquire_handle t h isOld s) \<or> crashed (acquire_handle t h isOld s)"
proof (cases "fst (Acquire (rc s h))")
  case None
  then show ?thesis by (cases "Acquire (rc s h)") (simp add: acquire_handle_def)
next
  case (Some r)
  let ?v = "i32 (rc s h + 1)"
  define s1 where "s1 = acquire_handle t h isOld s"
  have h: "h < next_handle s" and ok: "handle_ok s h" using pool_invD(1,2)[OF inv] t by auto
  have r: "r = (?v > 0)" "?v \<noteq> 0" "?v \<noteq> MinInt32"
    using Some by (auto simp: Acquire_def Let_def MinInt32_def split: if_splits)
  have v: "?v = rc s h + 1"
  proof (cases "rc s h = 2147483647")
    case True
    then show ?thesis using r(3) by (simp add: i32_def MinInt32_def)
  next
    case False
    then show ?thesis using pool_invD(5)[OF inv, of h] by (intro i32_id) (simp add: is_int32_def)
  qed
  have notin: "t \<notin> holders s h" using t by (simp add: holders_def)
  have "pool_inv s1"
  proof (cases r)
    case True
    then have eq: "s1 = s\<lparr>rc := (rc s)(h := ?v), submitter_of := (submitter_of s)(t := Holding h),
       goroutine_of := (if isOld then goroutine_of s else (goroutine_of s)(h := Live))\<rparr>"
      using r by (simp add: s1_def acquire_handle_def Acquire_def Let_def)
    then have s': "rc s1 = (rc s)(h := ?v)" "submitter_of s1 = (submitter_of s)(t := Holding h)"
      "goroutine_of s1 = (if isOld then goroutine_of s else (goroutine_of s)(h := Live))"
      "handle s1 = handle s" "next_handle s1 = next_handle s" by simp_all
    have "0 \<le> rc s h" using True r(1) v by simp
    then have started: "goroutine_of s h \<in> {NotStarted, Live}" "rc s h = int (card (holders s h))"
      "handle s = Some h"
      using ok by (auto simp: handle_ok_def split: goroutine.splits)
    have hs: "holders s1 h = insert t (holders s h)" "creators s1 h = creators s h - {t}"
      using holders_update[of s1 s t "Holding h" h] creators_update[of s1 s t "Holding h" h]
      by (simp_all add: s')
    have card: "int (card (holders s1 h)) = ?v"
      using hs notin finite_submitters(1)[OF inv] started(2) v by simp
    have "handle_ok s1 h"
    proof (cases isOld)
      case True
      then have "t \<notin> creators s h" using t by (simp add: creators_def)
      then show ?thesis using True ok started hs card by (auto simp: handle_ok_def s' split: goroutine.splits)
    next
      case False
      then have mem: "t \<in> creators s h" using t by (simp add: creators_def)
      then have "card (creators s h) = 1"
        using ok started by (auto simp: handle_ok_def split: goroutine.splits)
      then have "creators s h = {t}" using mem by (metis card_1_singletonE singletonD)
      then show ?thesis using False started hs card by (simp add: handle_ok_def s')
    qed
    then show ?thesis
      by (intro pool_inv_local[OF inv h, of s1 t "Holding h"]) (use t in \<open>auto simp: s'\<close>)
  next
    case False
    then have eq: "s1 = s\<lparr>rc := (rc s)(h := ?v), submitter_of := (submitter_of s)(t := Outside)\<rparr>"
      using r by (simp add: s1_def acquire_handle_def Acquire_def Let_def)
    then have s': "rc s1 = (rc s)(h := ?v)" "submitter_of s1 = (submitter_of s)(t := Outside)"
      "goroutine_of s1 = goroutine_of s" "handle s1 = handle s" "next_handle s1 = next_handle s" by simp_all
    have neg: "?v < 0" using False r by auto
    then have gone: "goroutine_of s h \<in> {Fused, Ended}"
      using ok v by (auto simp: handle_ok_def split: goroutine.splits)
    have hs: "holders s1 h = holders s h - {t}" "creators s1 h = creators s h - {t}"
      using holders_update[of s1 s t Outside h] creators_update[of s1 s t Outside h] by (simp_all add: s')
    have "handle_ok s1 h"
      using ok gone hs neg v by (auto simp: handle_ok_def s' split: goroutine.splits)
    then show ?thesis
      by (intro pool_inv_local[OF inv h, of s1 t Outside]) (use t in \<open>auto simp: s'\<close>)
  qed
  then show ?thesis unfolding s1_def ..
qed

lemma release_inv:
  assumes inv: "pool_inv s" and t: "submitter_of s t = Holding h" and nc: "\<not> crashed s"
  shows "pool_inv (release_handle t h s) \<and> \<not> crashed (release_handle t h s)"
proof -
  let ?s' = "release_handle t h s"
  have h: "h < next_handle s" and ok: "handle_ok s h" using pool_invD(1,3)[OF inv] t by auto
  have mem: "t \<in> holders s h" using t by (simp add: holders_def)
  then have rc: "rc s h = int (card (holders s h))" "goroutine_of s h \<in> {NotStarted, Live}"
    using ok by (auto simp: handle_ok_def split: goroutine.splits)
  have pos: "0 < card (holders s h)" using mem finite_submitters(1)[OF inv] by (auto simp: card_gt_0_iff)
  have v: "i32 (rc s h - 1) = rc s h - 1"
    using rc pos pool_invD(5)[OF inv, of h] by (simp add: i32_id is_int32_def)
  have s': "?s' = s\<lparr>rc := (rc s)(h := rc s h - 1), submitter_of := (submitter_of s)(t := Outside)\<rparr>"
    using rc pos v by (simp add: release_handle_def Release_def Let_def)
  have hs: "holders ?s' h = holders s h - {t}" "creators ?s' h = creators s h - {t}"
    using holders_update[of ?s' s t Outside h] creators_update[of ?s' s t Outside h] by (simp_all add: s')
  have "t \<notin> creators s h" using t by (simp add: creators_def)
  moreover have "int (card (holders ?s' h)) = rc s h - 1"
    using hs mem rc pos finite_submitters(1)[OF inv] by (simp add: of_nat_diff)
  ultimately have "handle_ok ?s' h"
    using ok rc hs by (auto simp: handle_ok_def s' split: goroutine.splits)
  moreover have "is_int32 (rc s h - 1)" using v is_int32_i32[of "rc s h - 1"] by simp
  ultimately have "pool_inv ?s'"
    by (intro pool_inv_local[OF inv h, of ?s' t Outside]) (use t in \<open>auto simp: s'\<close>)
  then show ?thesis using nc by (simp add: s')
qed

lemma fuse_inv:
  assumes inv: "pool_inv s" and g: "goroutine_of s h = Live"
  shows "pool_inv (fuse_handle h s)"
proof (cases "rc s h = 0")
  case True
  let ?s' = "fuse_handle h s"
  have s': "?s' = s\<lparr>rc := (rc s)(h := fusedInitValue), goroutine_of := (goroutine_of s)(h := Fused)\<rparr>"
    using True by (simp add: fuse_handle_def Fuse_def)
  have h: "h < next_handle s" using g pool_invD(6)[OF inv, of h] by (metis goroutine.distinct(1) not_less)
  have ok: "handle_ok s h" using pool_invD(1)[OF inv h] .
  have sub: "holders ?s' k = holders s k" "creators ?s' k = creators s k" for k
    by (simp_all add: s' holders_def creators_def)
  have "holders s h = {}" using ok g True finite_submitters(1)[OF inv, of h] by (simp add: handle_ok_def)
  then have "handle_ok ?s' h"
    using ok g sub by (simp add: handle_ok_def s' fusedInitValue_def)
  moreover have "handle_ok ?s' k = handle_ok s k" if "k \<noteq> h" for k
    using that sub by (intro handle_ok_cong) (simp_all add: s')
  ultimately have "handle_ok ?s' k" if "k < next_handle s" for k
    using pool_invD(1)[OF inv that] by (cases "k = h") auto
  then show ?thesis
    using inv h by (auto simp: pool_inv_def s' is_int32_def[of "- 1073741824"] fusedInitValue_def)
qed (use inv in \<open>simp add: fuse_handle_def Fuse_def\<close>)

lemma cleanup_inv:
  assumes inv: "pool_inv s" and g: "goroutine_of s h = Fused"
  shows "pool_inv (cleanup_handle h s)"
proof -
  let ?s' = "cleanup_handle h s"
  have h: "h < next_handle s" using g pool_invD(6)[OF inv, of h] by (metis goroutine.distinct(3) not_less)
  have ok: "handle_ok s h" using pool_invD(1)[OF inv h] .
  then have cur: "handle s = Some h" using g by (simp add: handle_ok_def)
  have sub: "holders ?s' k = holders s k" "creators ?s' k = creators s k" for k
    by (simp_all add: cleanup_handle_def holders_def creators_def)
  have "handle_ok ?s' k" if "k < next_handle s" for k
  proof (cases "k = h")
    case True
    then show ?thesis using ok g sub by (simp add: handle_ok_def cleanup_handle_def)
  next
    case False
    then have "handle_ok ?s' k = handle_ok s k"
      using cur sub by (intro handle_ok_cong) (simp_all add: cleanup_handle_def)
    then show ?thesis using pool_invD(1)[OF inv that] by simp
  qed
  then show ?thesis using inv h by (auto simp: pool_inv_def cleanup_handle_def)
qed

lemma initial_inv: "pool_inv initial_pool"
  by (simp add: pool_inv_def initial_pool_def fusedrc_New_def is_int32_def)

lemma reachable_inv: "pool_reachable s \<Longrightarrow> pool_inv s \<or> crashed s"
proof (induction rule: pool_reachable.induct)
  case (step s s')
  from step.hyps(2) step.IH show ?case
    by cases (auto dest: load_inv acquire_inv release_inv fuse_inv cleanup_inv)
qed (simp add: initial_inv)

section \<open>What the handle protocol guarantees\<close>

text \<open>C11: however submitters and batch goroutines of a key interleave, unless a counter
  overflow has made a submitter panic: at most one goroutine of the key is running; a submitter
  that holds a handle holds the one in the map, whose goroutine runs or is about to be started by
  exactly one submitter, so its request will be received; and the counter of that handle is the
  number of its holders.\<close>

theorem pool_handle_safety:
  assumes "pool_reachable s" and "\<not> crashed s"
  shows "(\<forall>h h'. goroutine_of s h \<in> {Live, Fused} \<and> goroutine_of s h' \<in> {Live, Fused} \<longrightarrow> h = h')
    \<and> (\<forall>t h. submitter_of s t = Holding h \<longrightarrow> handle s = Some h
         \<and> (goroutine_of s h = Live \<or> goroutine_of s h = NotStarted \<and> (\<exists>!u. submitter_of s u = Loaded h False))
         \<and> rc s h = int (card {u. submitter_of s u = Holding h}))"
proof -
  have inv: "pool_inv s" using reachable_inv[OF assms(1)] assms(2) by simp
  have "handle s = Some h" if "goroutine_of s h \<in> {Live, Fused}" for h
  proof -
    have "h < next_handle s" using that pool_invD(6)[OF inv, of h] by (cases "h < next_handle s") auto
    then have "handle_ok s h" by (rule pool_invD(1)[OF inv])
    then show ?thesis using that by (auto simp: handle_ok_def)
  qed
  then have one: "\<forall>h h'. goroutine_of s h \<in> {Live, Fused} \<and> goroutine_of s h' \<in> {Live, Fused} \<longrightarrow> h = h'"
    by (metis option.inject)
  have "handle s = Some h
         \<and> (goroutine_of s h = Live \<or> goroutine_of s h = NotStarted \<and> (\<exists>!u. submitter_of s u = Loaded h False))
         \<and> rc s h = int (card {u. submitter_of s u = Holding h})" if t: "submitter_of s t = Holding h" for t h
  proof -
    have ok: "handle_ok s h" using pool_invD(1,3)[OF inv] t by auto
    have mem: "t \<in> holders s h" using t by (simp add: holders_def)
    have uniq: "\<exists>!u. submitter_of s u = Loaded h False" if "card (creators s h) = 1"
    proof -
      obtain u where "creators s h = {u}" using \<open>card (creators s h) = 1\<close> by (rule card_1_singletonE)
      then have "v \<in> creators s h \<longleftrightarrow> v = u" for v by simp
      then have "submitter_of s v = Loaded h False \<longleftrightarrow> v = u" for v by (simp add: creators_def)
      then show ?thesis by simp
    qed
    show ?thesis
      using ok mem uniq by (auto simp: handle_ok_def holders_def[symmetric] split: goroutine.splits)
  qed
  with one show ?thesis by blast
qed

theorem pool_handle_safety_witness:
  "\<exists>s. pool_reachable s \<and> goroutine_of s 0 = Live \<and> submitter_of s 7 = Holding 0 \<and> handle s = Some 0
     \<and> rc s 0 = int (card {u. submitter_of s u = Holding 0})"
proof -
  let ?s1 = "LoadOrCompute 7 initial_pool"
  let ?s2 = "acquire_handle 7 0 False ?s1"
  have "pool_step initial_pool ?s1" by (rule load) (simp_all add: initial_pool_def)
  moreover have "pool_step ?s1 ?s2" by (rule acquire) (simp_all add: initial_pool_def LoadOrCompute_def)
  ultimately have reach: "pool_reachable ?s2" by (meson init pool_reachable.step)
  have st: "goroutine_of ?s2 0 = Live" "submitter_of ?s2 7 = Holding 0" "\<not> crashed ?s2"
    by (simp_all add: initial_pool_def LoadOrCompute_def acquire_handle_def Acquire_def i32_def fusedrc_New_def)
  then show ?thesis using pool_handle_safety[OF reach st(3)] reach by blast
qed

end
