(* ===== verification/RetryBatch.thy ===== *)
theory RetryBatch
  imports PoolAdapter
begin

text \<open>
  The batch loop of the retry pool (\<open>processBatch\<close>, \<open>executeBatch\<close> and
  \<open>tryExecuteBatch\<close> in \<open>util/retrybatch/pool.go\<close>). The loop selects among
  three kinds of events, given as a list in the order in which the select statement takes them:
  the pool context is done, another request arrives, or the execution timer fires. The answers
  sent on the submitters' channels are recorded in order; each channel has room for one answer,
  so that answering a submitter at most once means that no send blocks. The adapter transforms a
  world \<open>'w\<close>; \<open>None\<close> is a panic.
\<close>

section \<open>Operations\<close>

record ('a, 'r, 'w) batch_state =
  batch :: "'a operationRequest list"
  sent :: "(nat \<times> 'r submitResult) list"
  world :: 'w
  nextExecute :: duration
  retryCount :: nat

text \<open>When the timer fires, the function gives the state of every submitter's context.\<close>

datatype 'a batch_event =
    PoolDone go_error
  | Incoming "'a operationRequest"
  | TimerFired "nat \<Rightarrow> go_error option"

type_synonym ('k, 'a, 'r, 'w) executor = "'k \<Rightarrow> 'a list \<Rightarrow> 'w \<Rightarrow> ('r ExecuteResult \<times> 'w) option"

definition check_canceled :: "'r \<Rightarrow> (nat \<Rightarrow> go_error option) \<Rightarrow> 'a operationRequest \<Rightarrow>
    (nat \<times> 'r submitResult) list \<Rightarrow> bool \<times> (nat \<times> 'r submitResult) list" where
  "check_canceled zero ctxErr request out =
     (case ctxErr (resultCh request) of
        None \<Rightarrow> (True, out)
      | Some err \<Rightarrow> (False, out @ [(resultCh request, errorSubmitResult zero (req_retries request)
          (TagWrapf ''OpCtxCancelDuringRetry'' err
            ''operation context canceled while waiting for retry batch''))]))"

fun dispatch_results :: "(nat \<Rightarrow> 'r option) \<Rightarrow> nat \<Rightarrow> 'a operationRequest list \<Rightarrow>
    (nat \<times> 'r submitResult) list \<Rightarrow> (nat \<times> 'r submitResult) list option" where
  "dispatch_results success i [] out = Some out"
| "dispatch_results success i (request # rest) out =
     (case success i of
        None \<Rightarrow> None
      | Some r \<Rightarrow> dispatch_results success (Suc i) rest
          (out @ [(resultCh request, \<lparr>ExecuteResultOf = r, Retries = req_retries request,
             SubmitErr = None\<rparr>)]))"

definition send_errors :: "'r \<Rightarrow> go_error \<Rightarrow> 'a operationRequest list \<Rightarrow>
    (nat \<times> 'r submitResult) list \<Rightarrow> (nat \<times> 'r submitResult) list" where
  "send_errors zero err reqs out =
     out @ map (\<lambda>request. (resultCh request, errorSubmitResult zero (req_retries request) err)) reqs"

text \<open>The first component of the result is the delay after which to execute again.\<close>

definition tryExecuteBatch :: "'r \<Rightarrow> ('k, 'a, 'r, 'w) executor \<Rightarrow> 'k \<Rightarrow> ('a, 'r, 'w) batch_state \<Rightarrow>
    (duration option \<times> ('a, 'r, 'w) batch_state) option" where
  "tryExecuteBatch zero execute key st =
     (if length (batch st) = 0 then Some (None, st)
      else let args = map req_arg (batch st);
               b = ForEachRef (batch st) (\<lambda>req. req\<lparr>req_retries := req_retries req + 1\<rparr>)
      in case execute key args (world st) of
           None \<Rightarrow> None
         | Some (ExecuteResultSuccess success, w) \<Rightarrow> do {
             out \<leftarrow> dispatch_results success 0 b (sent st);
             Some (None, st\<lparr>batch := b, sent := out, world := w\<rparr>)
           }
         | Some (ExecuteResultNeedRetry delay, w) \<Rightarrow> Some (Some delay, st\<lparr>batch := b, world := w\<rparr>)
         | Some (ExecuteResultErr err, w) \<Rightarrow>
             Some (None, st\<lparr>batch := ClearSlice b, world := w,
               sent := send_errors zero (TagWrapf ''ExecuteError'' err ''error executing retry batch'') b (sent st)\<rparr>))"

definition executeBatch :: "'r \<Rightarrow> ('k, 'a, 'r, 'w) executor \<Rightarrow> 'k \<Rightarrow> (nat \<Rightarrow> go_error option) \<Rightarrow>
    ('a, 'r, 'w) batch_state \<Rightarrow> (duration option \<times> ('a, 'r, 'w) batch_state) option" where
  "executeBatch zero execute key ctxErr st =
     (let (b, out) = DrainSliceUnordered (check_canceled zero ctxErr) (batch st) (sent st)
      in tryExecuteBatch zero execute key (st\<lparr>batch := b, sent := out\<rparr>))"

text \<open>One turn of the loop; the flag tells whether the loop breaks.\<close>

definition process_event :: "'r \<Rightarrow> ('k, 'a, 'r, 'w) executor \<Rightarrow> 'k \<Rightarrow> ('a, 'r, 'w) batch_state \<Rightarrow>
    'a batch_event \<Rightarrow> (('a, 'r, 'w) batch_state \<times> bool) option" where
  "process_event zero execute key st0 ev =
     (let st = st0\<lparr>retryCount := retryCount st0 + 1\<rparr>
      in case ev of
           PoolDone err \<Rightarrow> Some (st\<lparr>sent := send_errors zero (TagWrapf ''PoolCtxCancel'' err
             ''pool context canceled while waiting for retry batch'') (batch st) (sent st)\<rparr>, True)
         | Incoming request \<Rightarrow> Some (st\<lparr>batch := batch st @ [request]\<rparr>, False)
         | TimerFired ctxErr \<Rightarrow> do {
             (nxt, st') \<leftarrow> executeBatch zero execute key ctxErr st;
             Some (case nxt of
               Some delay \<Rightarrow> (st'\<lparr>nextExecute := delay\<rparr>, False)
             | None \<Rightarrow> (st', True))
           })"

text \<open>The loop on a list of events: the state, whether it has ended, and the events left over.\<close>

fun batch_loop :: "'r \<Rightarrow> ('k, 'a, 'r, 'w) executor \<Rightarrow> 'k \<Rightarrow> ('a, 'r, 'w) batch_state \<Rightarrow>
    'a batch_event list \<Rightarrow> (('a, 'r, 'w) batch_state \<times> bool \<times> 'a batch_event list) option" where
  "batch_loop zero execute key st [] = Some (st, False, [])"
| "batch_loop zero execute key st (ev # evs) =
     (case process_event zero execute key st ev of
        None \<Rightarrow> None
      | Some (st', True) \<Rightarrow> Some (st', True, evs)
      | Some (st', False) \<Rightarrow> batch_loop zero execute key st' evs)"

definition processBatch :: "'r \<Rightarrow> ('k, 'a, 'r, 'w) executor \<Rightarrow> 'k \<Rightarrow> duration \<Rightarrow> 'a operationRequest \<Rightarrow>
    'w \<Rightarrow> 'a batch_event list \<Rightarrow> (('a, 'r, 'w) batch_state \<times> bool \<times> 'a batch_event list) option" where
  "processBatch zero execute key coldStartDelay initialRequest w evs =
     batch_loop zero execute key \<lparr>batch = [initialRequest], sent = [], world = w,
       nextExecute = coldStartDelay, retryCount = 0\<rparr> evs"

section \<open>Channels\<close>

definition chans :: "'a operationRequest list \<Rightarrow> nat multiset" where
  "chans reqs = mset (map resultCh reqs)"

definition answered :: "(nat \<times> 'r submitResult) list \<Rightarrow> nat multiset" where
  "answered out = mset (map fst out)"

fun event_chan :: "'a batch_event \<Rightarrow> nat multiset" where
  "event_chan (Incoming r) = {#resultCh r#}"
| "event_chan _ = {#}"

lemma chans_simps [simp]:
  "chans [] = {#}" "chans (r # rs) = add_mset (resultCh r) (chans rs)" "chans (rs @ qs) = chans rs + chans qs"
  by (simp_all add: chans_def)

lemma answered_simps [simp]:
  "answered [] = {#}" "answered (x # xs) = add_mset (fst x) (answered xs)"
  "answered (xs @ ys) = answered xs + answered ys"
  by (simp_all add: answered_def)

lemma answered_send_errors [simp]: "answered (send_errors zero e reqs out) = answered out + chans reqs"
  by (simp add: send_errors_def answered_def chans_def comp_def)

lemma chans_retries [simp]: "chans (ForEachRef reqs (\<lambda>req. req\<lparr>req_retries := n req\<rparr>)) = chans reqs"
  by (simp add: chans_def ForEachRef_def comp_def)

lemma chans_clear [simp]: "chans (ClearSlice reqs) = {#}"
  by (simp add: ClearSlice_def)

text \<open>The canceled requests of a batch are answered, the others stay, in some order.\<close>

lemma drain_canceled_chans:
  assumes "i \<le> length b"
  shows "case drain_swap (check_canceled zero ctxErr) i b out of (b', out') \<Rightarrow>
    chans b' + answered out' = chans b + answered out"
  using assms
proof (induction "length b - i" arbitrary: i b out)
  case 0
  then show ?case by (simp add: drain_swap.simps)
next
  case (Suc n)
  have lt: "i < length b" using Suc.hyps(2) by simp
  show ?case
  proof (cases "ctxErr (resultCh (b ! i))")
    case None
    have "n = length b - Suc i" "Suc i \<le> length b" using Suc.hyps(2) lt by simp_all
    from Suc.hyps(1)[OF this, of out] show ?thesis
      using lt None by (subst drain_swap.simps) (simp add: check_canceled_def)
  next
    case (Some e)
    let ?b = "butlast (b[i := last b])"
    let ?out = "snd (check_canceled zero ctxErr (b ! i) out)"
    have n: "n = length ?b - i" "i \<le> length ?b" using Suc.hyps(2) lt by simp_all
    have "add_mset (b ! i) (mset ?b) = mset b" using mset_eq_swap_last[OF lt] lt by simp
    then have "chans b = add_mset (resultCh (b ! i)) (chans ?b)"
      unfolding chans_def by (metis image_mset_add_mset mset_map)
    then have "chans b + answered out = chans ?b + answered ?out"
      using Some by (simp add: check_canceled_def)
    then show ?thesis
      using Suc.hyps(1)[OF n, of ?out] lt Some
      by (subst drain_swap.simps) (simp add: check_canceled_def)
  qed
qed

lemma dispatch_results_chans:
  "dispatch_results f i reqs out = Some out' \<Longrightarrow> answered out' = answered out + chans reqs"
  by (induction reqs arbitrary: i out) (auto split: option.splits)

section \<open>The adapter contract\<close>

text \<open>
  What the pool needs of an adapter: a successful execution has a result for every argument of
  the batch. (The documented contract of \<open>ExecuteResult.Success\<close>.)
\<close>

locale batch_adapter =
  fixes execute :: "('k, 'a, 'r, 'w) executor"
  assumes success_complete: "execute key args w = Some (ExecuteResultSuccess f, w') \<Longrightarrow>
    i < length args \<Longrightarrow> \<exists>r. f i = Some r"
begin

lemma dispatch_total:
  assumes "\<And>j. i \<le> j \<Longrightarrow> j < i + length reqs \<Longrightarrow> \<exists>r. f j = Some r"
  shows "\<exists>out'. dispatch_results f i reqs out = Some out'"
  using assms
proof (induction reqs arbitrary: i out)
  case (Cons q reqs)
  obtain r where r: "f i = Some r" using Cons.prems[of i] by auto
  have "\<exists>out'. dispatch_results f (Suc i) reqs o' = Some out'" for o'
    by (rule Cons.IH) (use Cons.prems in auto)
  then show ?case using r by simp
qed simp

lemma tryExecuteBatch_run:
  assumes "\<And>args w. execute key args w \<noteq> None"
  obtains nxt st' where "tryExecuteBatch zero execute key st = Some (nxt, st')"
    and "chans (if nxt = None then [] else batch st') + answered (sent st') = chans (batch st) + answered (sent st)"
proof (cases "batch st = []")
  case True
  then show thesis using that[of None st] by (simp add: tryExecuteBatch_def)
next
  case False
  let ?args = "map req_arg (batch st)"
  let ?b = "ForEachRef (batch st) (\<lambda>req. req\<lparr>req_retries := req_retries req + 1\<rparr>)"
  obtain res w where run: "execute key ?args (world st) = Some (res, w)" using assms by fastforce
  show thesis
  proof (cases res)
    case (ExecuteResultSuccess f)
    have len: "length ?b = length ?args" by (simp add: ForEachRef_def)
    obtain out where out: "dispatch_results f 0 ?b (sent st) = Some out"
      using dispatch_total[of 0 ?b f "sent st"] success_complete[of key ?args "world st" f w] run ExecuteResultSuccess
      unfolding len by auto
    then show thesis
      using that[of None "st\<lparr>batch := ?b, sent := out, world := w\<rparr>"] False run ExecuteResultSuccess
        dispatch_results_chans[OF out]
      by (simp add: tryExecuteBatch_def Let_def union_commute)
  next
    case (ExecuteResultNeedRetry d)
    then show thesis
      using that[of "Some d" "st\<lparr>batch := ?b, world := w\<rparr>"] False run
      by (simp add: tryExecuteBatch_def Let_def)
  next
    case (ExecuteResultErr e)
    then show thesis
      using that False run by (simp add: tryExecuteBatch_def Let_def union_commute)
  qed
qed

lemma process_event_run:
  assumes "\<And>args w. execute key args w \<noteq> None"
  obtains st' fin where "process_event zero execute key st ev = Some (st', fin)"
    and "chans (if fin then [] else batch st') + answered (sent st') =
      chans (batch st) + answered (sent st) + event_chan ev"
proof (cases ev)
  case (PoolDone e)
  then show thesis using that by (simp add: process_event_def Let_def union_commute)
next
  case (Incoming r)
  then show thesis using that[of _ False] by (simp add: process_event_def Let_def)
next
  case (TimerFired ctxErr)
  let ?st = "st\<lparr>retryCount := retryCount st + 1\<rparr>"
  obtain b out where d: "drain_swap (check_canceled zero ctxErr) 0 (batch st) (sent st) = (b, out)"
    by fastforce
  have drained: "chans b + answered out = chans (batch st) + answered (sent st)"
    using drain_canceled_chans[where i = 0 and b = "batch st" and zero = zero and ctxErr = ctxErr and out = "sent st"] d by simp
  obtain nxt st' where run: "tryExecuteBatch zero execute key (?st\<lparr>batch := b, sent := out\<rparr>) = Some (nxt, st')"
    and bal: "chans (if nxt = None then [] else batch st') + answered (sent st') = chans b + answered out"
    by (rule tryExecuteBatch_run[OF assms, of zero "?st\<lparr>batch := b, sent := out\<rparr>"]) auto
  have ev: "process_event zero execute key st ev =
      Some (case nxt of Some delay \<Rightarrow> (st'\<lparr>nextExecute := delay\<rparr>, False) | None \<Rightarrow> (st', True))"
    using TimerFired d run by (simp add: process_event_def Let_def executeBatch_def DrainSliceUnordered_def)
  show thesis
  proof (cases nxt)
    case None
    then show thesis using that[of st' True] ev bal drained TimerFired by simp
  next
    case (Some delay)
    then show thesis using that[of "st'\<lparr>nextExecute := delay\<rparr>" False] ev bal drained TimerFired by simp
  qed
qed

lemma batch_loop_run:
  assumes "\<And>args w. execute key args w \<noteq> None"
  shows "\<exists>st' fin used rest. batch_loop zero execute key st evs = Some (st', fin, rest)
    \<and> evs = used @ rest \<and> (fin \<or> rest = [])
    \<and> chans (if fin then [] else batch st') + answered (sent st') =
      chans (batch st) + answered (sent st) + sum_mset (image_mset event_chan (mset used))"
proof (induction evs arbitrary: st)
  case Nil
  show ?case by (intro exI[of _ st] exI[of _ False] exI[of _ "[]"]) simp
next
  case (Cons ev evs)
  obtain st1 fin where one: "process_event zero execute key st ev = Some (st1, fin)"
    and bal: "chans (if fin then [] else batch st1) + answered (sent st1) =
      chans (batch st) + answered (sent st) + event_chan ev"
    by (rule process_event_run[OF assms])
  show ?case
  proof (cases fin)
    case True
    then show ?thesis using one bal by (intro exI[of _ st1] exI[of _ True] exI[of _ "[ev]"] exI[of _ evs]) simp
  next
    case False
    obtain st' fin' used rest where ih: "batch_loop zero execute key st1 evs = Some (st', fin', rest)"
      "evs = used @ rest" "fin' \<or> rest = []"
      "chans (if fin' then [] else batch st') + answered (sent st') =
        chans (batch st1) + answered (sent st1) + sum_mset (image_mset event_chan (mset used))"
      using Cons.IH by blast
    then show ?thesis
      using one bal False
      by (intro exI[of _ st'] exI[of _ fin'] exI[of _ "ev # used"] exI[of _ rest])
        (simp add: union_assoc union_commute union_lcomm)
  qed
qed

end

lemma batch_loop_not_done:
  "batch_loop zero execute key st evs = Some (st', False, rest) \<Longrightarrow> PoolDone e \<notin> set evs"
proof (induction evs arbitrary: st)
  case (Cons ev evs)
  then show ?case
    by (auto simp: process_event_def Let_def split: option.splits bool.splits prod.splits)
qed simp

text \<open>The webhook's adapter satisfies the contract, whatever the informer and the status
  endpoint do.\<close>

lemma tryExecute_complete:
  assumes "tryExecute srt ic us adapter key args w = Some (ExecuteResultSuccess f, w')" "i < length args"
  shows "\<exists>r. f i = Some r"
proof (cases "pprInformerGet adapter key")
  case (Inl e)
  then show ?thesis using assms by (simp add: tryExecute_def)
next
  case (Inr o')
  show ?thesis
  proof (cases o')
    case None
    then show ?thesis using assms Inr by (auto simp: tryExecute_def)
  next
    case (Some ppr0)
    let ?config = "Compute (defaultConfig adapter) (Some (HistoryConfig (Spec ppr0)))"
    obtain ppr ppr' where wb: "write_back ic us adapter key ppr0 ppr' (snd (stage srt adapter ?config ppr args)) w
        = (ExecuteResultSuccess f, w')"
      using assms(1) Inr Some by (auto simp: tryExecute_def Let_def bind_eq_Some_conv case_prod_beta)
    have "length (snd (stage srt adapter ?config ppr args)) = length args"
      by (rule stage_spec(1)[OF prod.collapse[symmetric]])
    then show ?thesis using write_back_success(1)[OF wb] assms(2) by simp
  qed
qed

interpretation webhook_adapter: batch_adapter "tryExecute srt ic us adapter" for srt ic us adapter
  by unfold_locales (rule tryExecute_complete)

section \<open>What the batch loop guarantees\<close>

text \<open>C10: every request is answered exactly once. As long as the adapter does not panic, the
  batch loop does not either, and at any point the answers sent so far and the requests still
  waiting in the batch together are exactly the requests received; when the loop ends nobody is
  left waiting, and it ends at the latest when the pool's context is done.\<close>

theorem processBatch_answers_once:
  assumes "batch_adapter execute" and "\<forall>args w. execute key args w \<noteq> None"
  shows "\<exists>st fin used rest.
      processBatch zero execute key coldStartDelay initialRequest w evs = Some (st, fin, rest)
    \<and> evs = used @ rest \<and> (fin \<or> rest = []) \<and> ((\<exists>e. PoolDone e \<in> set evs) \<longrightarrow> fin)
    \<and> mset (map fst (sent st)) + (if fin then {#} else mset (map resultCh (batch st))) =
        add_mset (resultCh initialRequest) (sum_mset (image_mset event_chan (mset used)))"
proof -
  let ?st0 = "\<lparr>batch = [initialRequest], sent = [], world = w, nextExecute = coldStartDelay, retryCount = 0\<rparr>"
  obtain st fin used rest where run: "batch_loop zero execute key ?st0 evs = Some (st, fin, rest)"
    "evs = used @ rest" "fin \<or> rest = []"
    "chans (if fin then [] else batch st) + answered (sent st) =
      chans (batch ?st0) + answered (sent ?st0) + sum_mset (image_mset event_chan (mset used))"
    using batch_adapter.batch_loop_run[OF assms(1), where key = key and zero = zero and st = ?st0 and evs = evs] assms(2) by auto
  have "(\<exists>e. PoolDone e \<in> set evs) \<longrightarrow> fin"
    using batch_loop_not_done[of zero execute key ?st0 evs st rest] run(1) by (cases fin) auto
  then show ?thesis
    using run by (auto simp: processBatch_def chans_def answered_def union_commute)
qed

definition sample_request :: "nat \<Rightarrow> string \<Rightarrow> BatchItem operationRequest" where
  "sample_request ch uid = \<lparr>req_arg = sample_item uid, req_retries = 0, resultCh = ch\<rparr>"

theorem processBatch_answers_once_witness:
  "\<exists>st fin used rest. processBatch BatchZero (\<lambda>k args w. Some (ExecuteResultSuccess (\<lambda>_. Some NoPpr), w))
       sample_key 0 (sample_request 1 ''a'') () [Incoming (sample_request 2 ''b''), TimerFired (\<lambda>_. None)]
         = Some (st, fin, rest)
     \<and> [Incoming (sample_request 2 ''b''), TimerFired (\<lambda>_. None)] = used @ rest
     \<and> mset (map fst (sent st)) + (if fin then {#} else mset (map resultCh (batch st))) =
        add_mset 1 (sum_mset (image_mset event_chan (mset used)))"
proof -
  let ?ex = "\<lambda>k args w. Some (ExecuteResultSuccess (\<lambda>_. Some NoPpr), w)"
  have ad: "batch_adapter ?ex" and total: "\<forall>args w. ?ex sample_key args w \<noteq> None"
    by (unfold_locales) auto
  have ch: "resultCh (sample_request 1 ''a'') = 1" by (simp add: sample_request_def)
  show ?thesis
    using processBatch_answers_once[where execute = ?ex and key = sample_key and zero = BatchZero
      and coldStartDelay = 0 and initialRequest = "sample_request 1 ''a''" and w = "()"
      and evs = "[Incoming (sample_request 2 ''b''), TimerFired (\<lambda>_. None)]", OF ad total]
    unfolding ch by blast
qed

section \<open>Delivery\<close>

lemma map_upt_Suc_shift: "map g [0..<Suc n] = g 0 # map (\<lambda>j. g (Suc j)) [0..<n]"
  by (simp only: upt_conv_Cons[OF zero_less_Suc] list.map map_Suc_upt[symmetric] map_map comp_def)

lemma dispatch_results_eq:
  "dispatch_results f i reqs out = Some out' \<Longrightarrow>
   out' = out @ map (\<lambda>j. (resultCh (reqs ! j), \<lparr>ExecuteResultOf = the (f (i + j)),
     Retries = req_retries (reqs ! j), SubmitErr = None\<rparr>)) [0..<length reqs]"
proof (induction reqs arbitrary: i out)
  case (Cons r reqs)
  obtain x where x: "f i = Some x" using Cons.prems by (auto split: option.splits)
  have "dispatch_results f (Suc i) reqs (out @ [(resultCh r, \<lparr>ExecuteResultOf = x,
      Retries = req_retries r, SubmitErr = None\<rparr>)]) = Some out'"
    using Cons.prems x by simp
  from Cons.IH[OF this] x show ?case unfolding length_Cons map_upt_Suc_shift by simp
qed simp

text \<open>The answers that the check for canceled requests adds.\<close>

lemma drain_canceled_sent:
  assumes "i \<le> length b"
  shows "\<exists>canceled. snd (drain_swap (check_canceled zero ctxErr) i b out) = out @ canceled
    \<and> (\<forall>x \<in> set canceled. SubmitErr (snd x) \<noteq> None)"
  using assms
proof (induction "length b - i" arbitrary: i b out)
  case 0
  then show ?case by (simp add: drain_swap.simps)
next
  case (Suc n)
  have lt: "i < length b" using Suc.hyps(2) by simp
  show ?case
  proof (cases "ctxErr (resultCh (b ! i))")
    case None
    have "n = length b - Suc i" "Suc i \<le> length b" using Suc.hyps(2) lt by simp_all
    from Suc.hyps(1)[OF this, of out] show ?thesis
      using lt None by (subst drain_swap.simps) (simp add: check_canceled_def)
  next
    case (Some e)
    let ?x = "(resultCh (b ! i), errorSubmitResult zero (req_retries (b ! i))
      (TagWrapf ''OpCtxCancelDuringRetry'' e ''operation context canceled while waiting for retry batch''))"
    have "n = length (butlast (b[i := last b])) - i" "i \<le> length (butlast (b[i := last b]))"
      using Suc.hyps(2) lt by simp_all
    from Suc.hyps(1)[OF this, of "out @ [?x]"] obtain canceled where
      "snd (drain_swap (check_canceled zero ctxErr) i (butlast (b[i := last b])) (out @ [?x])) =
        (out @ [?x]) @ canceled" "\<forall>x \<in> set canceled. SubmitErr (snd x) \<noteq> None" by blast
    then show ?thesis
      using lt Some
      by (subst drain_swap.simps)
        (simp add: check_canceled_def errorSubmitResult_def exI[of _ "_ # canceled"])
  qed
qed

lemma check_canceled_pure:
  "check_canceled zero ctxErr = (\<lambda>x s. (ctxErr (resultCh x) = None, snd (check_canceled zero ctxErr x s)))"
  by (intro ext) (simp add: check_canceled_def split: option.split)

lemma drain_canceled_live:
  "mset (fst (DrainSliceUnordered (check_canceled zero ctxErr) b out)) =
     filter_mset (\<lambda>r. ctxErr (resultCh r) = None) (mset b)"
  by (subst check_canceled_pure) (rule DrainSliceUnordered_mset)

text \<open>Results reach the requests they belong to. An execution first answers the requests
  whose context was canceled, and only those, with an error; the others are executed as one batch
  and, on success, each of them receives the result at its own position, with its number of
  attempts increased by one, while a request for a retry answers nobody and keeps all of them.\<close>

theorem executeBatch_delivers:
  assumes "batch_adapter execute"
  shows "\<exists>live canceled. mset live = filter_mset (\<lambda>r. ctxErr (resultCh r) = None) (mset (batch st))
    \<and> (\<forall>x \<in> set canceled. SubmitErr (snd x) \<noteq> None)
    \<and> chans live + answered canceled = chans (batch st)
    \<and> (\<forall>f w'. live \<noteq> [] \<and> execute key (map req_arg live) (world st) = Some (ExecuteResultSuccess f, w') \<longrightarrow>
        (\<exists>st'. executeBatch zero execute key ctxErr st = Some (None, st')
          \<and> sent st' = sent st @ canceled @ map (\<lambda>j. (resultCh (live ! j),
              \<lparr>ExecuteResultOf = the (f j), Retries = req_retries (live ! j) + 1, SubmitErr = None\<rparr>))
              [0..<length live]))
    \<and> (\<forall>d w'. live \<noteq> [] \<and> execute key (map req_arg live) (world st) = Some (ExecuteResultNeedRetry d, w') \<longrightarrow>
        (\<exists>st'. executeBatch zero execute key ctxErr st = Some (Some d, st')
          \<and> sent st' = sent st @ canceled
          \<and> batch st' = map (\<lambda>r. r\<lparr>req_retries := req_retries r + 1\<rparr>) live))"
proof -
  let ?D = "DrainSliceUnordered (check_canceled zero ctxErr) (batch st) (sent st)"
  obtain live out where d: "?D = (live, out)" by fastforce
  obtain canceled where out: "out = sent st @ canceled" "\<forall>x \<in> set canceled. SubmitErr (snd x) \<noteq> None"
    using drain_canceled_sent[where i = 0 and b = "batch st" and zero = zero and ctxErr = ctxErr and out = "sent st"] d by (auto simp: DrainSliceUnordered_def)
  have live: "mset live = filter_mset (\<lambda>r. ctxErr (resultCh r) = None) (mset (batch st))"
    using drain_canceled_live[of zero ctxErr "batch st" "sent st"] d by simp
  have bal: "chans live + answered canceled = chans (batch st)"
    using drain_canceled_chans[where i = 0 and b = "batch st" and zero = zero and ctxErr = ctxErr and out = "sent st"] d out(1)
    by (simp add: DrainSliceUnordered_def)
  have ok: "\<exists>st'. executeBatch zero execute key ctxErr st = Some (None, st')
      \<and> sent st' = sent st @ canceled @ map (\<lambda>j. (resultCh (live ! j),
          \<lparr>ExecuteResultOf = the (f j), Retries = req_retries (live ! j) + 1, SubmitErr = None\<rparr>)) [0..<length live]"
    if ne: "live \<noteq> []" and run: "execute key (map req_arg live) (world st) = Some (ExecuteResultSuccess f, w')" for f w'
  proof -
    let ?b = "ForEachRef live (\<lambda>req. req\<lparr>req_retries := req_retries req + 1\<rparr>)"
    have "\<exists>out'. dispatch_results f 0 ?b out = Some out'"
      by (rule batch_adapter.dispatch_total[OF assms])
        (use batch_adapter.success_complete[OF assms run] in \<open>auto simp: ForEachRef_def\<close>)
    then obtain out' where out': "dispatch_results f 0 ?b out = Some out'" by blast
    have "out' = out @ map (\<lambda>j. (resultCh (live ! j), \<lparr>ExecuteResultOf = the (f j),
        Retries = req_retries (live ! j) + 1, SubmitErr = None\<rparr>)) [0..<length live]"
      using dispatch_results_eq[OF out'] by (simp add: ForEachRef_def)
    then show ?thesis
      using ne run out' d out(1) by (simp add: executeBatch_def tryExecuteBatch_def Let_def)
  qed
  have retry: "\<exists>st'. executeBatch zero execute key ctxErr st = Some (Some d, st') \<and> sent st' = sent st @ canceled
      \<and> batch st' = map (\<lambda>r. r\<lparr>req_retries := req_retries r + 1\<rparr>) live"
    if "live \<noteq> []" "execute key (map req_arg live) (world st) = Some (ExecuteResultNeedRetry d, w')" for d w'
    using that d out(1) by (simp add: executeBatch_def tryExecuteBatch_def Let_def ForEachRef_def)
  show ?thesis using live out(2) bal ok retry by blast
qed

theorem executeBatch_delivers_witness:
  "\<exists>live. mset live = {#sample_request 2 ''b''#} \<and> (\<exists>st'. executeBatch BatchZero
      (\<lambda>k args w. Some (ExecuteResultNeedRetry 5, w)) sample_key
      (\<lambda>ch. if ch = 1 then Some ContextCanceled else None)
      \<lparr>batch = [sample_request 1 ''a'', sample_request 2 ''b''], sent = [], world = (),
       nextExecute = 0, retryCount = 0\<rparr> = Some (Some 5, st') \<and> length (batch st') = 1)"
proof -
  have "batch_adapter (\<lambda>k args w. Some (ExecuteResultNeedRetry 5, w))" by unfold_locales auto
  from executeBatch_delivers[OF this, where ctxErr = "\<lambda>ch. if ch = 1 then Some ContextCanceled else None"
      and st = "\<lparr>batch = [sample_request 1 ''a'', sample_request 2 ''b''], sent = [], world = (),
       nextExecute = 0, retryCount = 0\<rparr>" and key = sample_key and zero = BatchZero]
  obtain live where live: "mset live = {#sample_request 2 ''b''#}" and
    "live \<noteq> [] \<longrightarrow> (\<exists>st'. executeBatch BatchZero (\<lambda>k args w. Some (ExecuteResultNeedRetry 5, w)) sample_key
      (\<lambda>ch. if ch = 1 then Some ContextCanceled else None)
      \<lparr>batch = [sample_request 1 ''a'', sample_request 2 ''b''], sent = [], world = (),
       nextExecute = 0, retryCount = 0\<rparr> = Some (Some 5, st') \<and>
       batch st' = map (\<lambda>r. r\<lparr>req_retries := req_retries r + 1\<rparr>) live)"
    by (auto simp: sample_request_def)
  moreover have "live \<noteq> []" "length live = 1" using live by (auto dest: mset_eq_length[of live "[_]", simplified])
  ultimately show ?thesis by auto
qed

end
