(* ===== verification/Webhook.thy ===== *)
theory Webhook
  imports PoolAdapter
begin

text \<open>
  The admission webhook above the pool: interpretation of an admission request
  (\<open>webhook/handler/interpreter.go\<close>), the decision for one pod
  (\<open>webhook/handler/handler.go\<close>) and the HTTP response
  (\<open>webhook/server/server.go\<close>). Decoding of JSON, the pod client of a cell, the informer
  and the pool's \<open>Submit\<close> are parameters; \<open>Submit\<close> transforms a world
  \<open>'w\<close>. \<open>None\<close> is a panic.
\<close>

section \<open>Interpreting a request\<close>

record GroupVersionResource =
  gvr_Group :: string
  gvr_Version :: string
  gvr_Resource :: string

record AdmissionRequest =
  ReqUID :: string
  Operation :: string
  Resource :: GroupVersionResource
  SubResource :: string
  ReqNamespace :: string
  ReqName :: string
  OldObjectRaw :: string
  ObjectRaw :: string

text \<open>An eviction is represented by the annotations of its metadata.\<close>

datatype InterpretedRequest =
    interpretedPodRequest Pod
  | interpretedEvictionRequest Pod "(string, string) gomap"

fun subject_pod :: "InterpretedRequest \<Rightarrow> Pod" where
  "subject_pod (interpretedPodRequest p) = p"
| "subject_pod (interpretedEvictionRequest p a) = p"

definition PrefersDryRun :: "InterpretedRequest \<Rightarrow> bool" where
  "PrefersDryRun req \<longleftrightarrow>
     map_of (Annotations (PodMeta (subject_pod req))) PodAnnotationForceDelete \<noteq> None"

definition IsAlreadyTerminating :: "InterpretedRequest \<Rightarrow> bool" where
  "IsAlreadyTerminating req \<longleftrightarrow> \<not> ts_IsZero (DeletionTimestamp (PodMeta (subject_pod req)))"

definition DurationSinceReady :: "gotime \<Rightarrow> InterpretedRequest \<Rightarrow> duration option" where
  "DurationSinceReady now req =
     (let conditions = Conditions (subject_pod req);
          i = FindInSliceWith conditions (\<lambda>c. CondType c = ''Ready'')
      in if i \<noteq> -1 then
           let condition = conditions ! nat i
           in if CondStatus condition = ''True'' then Some (time_Sub now (LastTransitionTime condition))
              else None
         else None)"

fun GetAnnotation :: "InterpretedRequest \<Rightarrow> string \<Rightarrow> string option" where
  "GetAnnotation (interpretedPodRequest p) key = map_of (Annotations (PodMeta p)) key"
| "GetAnnotation (interpretedEvictionRequest p annots) key =
     (case map_of annots key of
        Some v \<Rightarrow> Some v
      | None \<Rightarrow> (case map_of (Annotations (PodMeta p)) key of Some v \<Rightarrow> Some v | None \<Rightarrow> None))"

definition request_GetPodStatus :: "gotime \<Rightarrow> InterpretedRequest \<Rightarrow> int32 \<Rightarrow> PodStatus" where
  "request_GetPodStatus realNow req minReadySeconds =
     fst (GetPodStatus realNow (subject_pod req) minReadySeconds None)"

definition interpretPodRequest ::
  "(string \<Rightarrow> go_error + Pod option) \<Rightarrow> AdmissionRequest \<Rightarrow> go_error + InterpretedRequest" where
  "interpretPodRequest unmarshal req =
     (let podJson = OldObjectRaw req
      in if length podJson = 0
         then Inl (TagErrorf ''EmptyOldObject'' ''oldObject is missing in delete review request'')
         else case unmarshal podJson of
           Inl err \<Rightarrow> Inl (TagWrapf ''OldObjectJsonError'' err ''cannot unmarshal oldObject as a *corev1.Pod'')
         | Inr None \<Rightarrow> Inl (TagErrorf ''NilOldObject'' ''oldObject is nil'')
         | Inr (Some subject) \<Rightarrow> Inr (interpretedPodRequest subject))"

definition interpretEvictionRequest ::
  "(string \<Rightarrow> go_error + (string, string) gomap option) \<Rightarrow> (go_error + (string \<Rightarrow> string \<Rightarrow> go_error + Pod)) \<Rightarrow>
   AdmissionRequest \<Rightarrow> go_error + InterpretedRequest" where
  "interpretEvictionRequest unmarshal podClientGetter req =
     (case podClientGetter of
        Inl err \<Rightarrow> Inl (TagWrapf ''GetClientForEvictedPod'' err ''get subject pod of eviction from apiserver'')
      | Inr podClient \<Rightarrow>
          (case podClient (ReqNamespace req) (ReqName req) of
             Inl err \<Rightarrow> Inl (TagWrapf ''GetEvictedPod'' err ''get subject pod of eviction from apiserver'')
           | Inr fetchedPod \<Rightarrow>
               (let evictionJson = ObjectRaw req
                in if length evictionJson = 0
                   then Inl (TagErrorf ''EmptyObject'' ''object is missing in eviction review request'')
                   else case unmarshal evictionJson of
                     Inl err \<Rightarrow> Inl (TagWrapf ''ObjectJsonError'' err ''cannot unmarshal object as a *policyv1.Eviction'')
                   | Inr None \<Rightarrow> Inl (TagErrorf ''NilObject'' ''object is nil'')
                   | Inr (Some eviction) \<Rightarrow> Inr (interpretedEvictionRequest fetchedPod eviction))))"

record decoder =
  unmarshalPod :: "string \<Rightarrow> go_error + Pod option"
  unmarshalEviction :: "string \<Rightarrow> go_error + (string, string) gomap option"

definition podGvr :: GroupVersionResource where
  "podGvr = \<lparr>gvr_Group = [], gvr_Version = ''v1'', gvr_Resource = ''pods''\<rparr>"

text \<open>\<open>Inr None\<close> is the nil request without an error.\<close>

definition interpretRequest ::
  "decoder \<Rightarrow> (go_error + (string \<Rightarrow> string \<Rightarrow> go_error + Pod)) \<Rightarrow> AdmissionRequest option \<Rightarrow>
   go_error + InterpretedRequest option" where
  "interpretRequest dec podClientGetter req' =
     (case req' of
        None \<Rightarrow> Inr None
      | Some req \<Rightarrow>
          if Operation req = ''DELETE'' \<and> Resource req = podGvr \<and> SubResource req = []
          then map_sum id Some (interpretPodRequest (unmarshalPod dec) req)
          else if Operation req = ''CREATE'' \<and> Resource req = podGvr \<and> SubResource req = ''eviction''
          then map_sum id Some (interpretEvictionRequest (unmarshalEviction dec) podClientGetter req)
          else Inr None)"

section \<open>Clients of cells\<close>

datatype 'c client_provider = NoneProvider | SingleProvider 'c | MapProvider "(string, 'c) gomap"

definition Provide :: "'c client_provider \<Rightarrow> string \<Rightarrow> go_error + 'c" where
  "Provide p cellId = (case p of
     NoneProvider \<Rightarrow> Inl (TagErrorf ''NoneProvider'' (''--webhook-worker-client-provider is set to '' @ sprintf_q ''none''))
   | SingleProvider client \<Rightarrow> Inr client
   | MapProvider clients \<Rightarrow> (case map_of clients cellId of
       None \<Rightarrow> Inl (TagErrorf ''UnknownCell'' (''unknown cell '' @ sprintf_q cellId))
     | Some client \<Rightarrow> Inr client))"

section \<open>Deciding\<close>

datatype RequestStatus = StatusUnmatched | StatusNotRelevant | StatusAlreadyTerminating
  | StatusAlreadyAdmitted | StatusAlreadyUnready | StatusAlreadyUnhealthy | StatusStillUnavailable
  | StatusAdmittedAll | StatusRejected | StatusRetryAdvised | StatusNotFound | StatusErr

record Rejection =
  RejCode :: int
  RejMessage :: string

record HandleResult =
  hStatus :: RequestStatus
  hRejection :: "Rejection option"
  hErr :: "go_error option"

definition errHandleResult :: "go_error \<Rightarrow> HandleResult" where
  "errHandleResult err = \<lparr>hStatus = StatusErr, hRejection = None, hErr = Some err\<rparr>"

definition pass :: "RequestStatus \<Rightarrow> HandleResult" where
  "pass st = \<lparr>hStatus = st, hRejection = None, hErr = None\<rparr>"

definition refuse :: "RequestStatus \<Rightarrow> int \<Rightarrow> string \<Rightarrow> HandleResult" where
  "refuse st code message = \<lparr>hStatus = st, hRejection = Some \<lparr>RejCode = code, RejMessage = message\<rparr>, hErr = None\<rparr>"

record HealthCriterionAnnotations =
  annScheduled :: "string \<times> string"
  annRunning :: "string \<times> string"
  annReady :: "string \<times> string"

definition NewCritAnnots :: HealthCriterionAnnotations where
  "NewCritAnnots = \<lparr>annScheduled = (EvictionAnnotationHealthCriterion, ''Scheduled''),
     annRunning = (EvictionAnnotationHealthCriterion, ''Running''),
     annReady = (EvictionAnnotationHealthCriterion, ''Ready'')\<rparr>"

definition critAnnots_Get :: "HealthCriterionAnnotations \<Rightarrow> InterpretedRequest \<Rightarrow> HealthCriterionType" where
  "critAnnots_Get annots intrp =
     (if GetAnnotation intrp (fst (annScheduled annots)) = Some (snd (annScheduled annots)) then CritScheduled
      else if GetAnnotation intrp (fst (annRunning annots)) = Some (snd (annRunning annots)) then CritRunning
      else if GetAnnotation intrp (fst (annReady annots)) = Some (snd (annReady annots)) then CritReady
      else CritAvailable)"

fun criterion_lower :: "HealthCriterionType \<Rightarrow> string" where
  "criterion_lower CritScheduled = ''scheduled''"
| "criterion_lower CritRunning = ''running''"
| "criterion_lower CritReady = ''ready''"
| "criterion_lower CritAvailable = ''available''"
| "criterion_lower _ = ''unknown''"

record 'w Api =
  informerGet :: "PodProtectorKey \<Rightarrow> go_error + PodProtector option"
  informerQuery :: "string \<Rightarrow> (string, string) gomap \<Rightarrow> PodProtectorKey list"
  informerHasSynced :: bool
  clkNow :: gotime
  realNow :: gotime
  critAnnots :: HealthCriterionAnnotations
  Submit :: "PodProtectorKey \<Rightarrow> BatchItem \<Rightarrow> 'w \<Rightarrow> (go_error + BatchResult) \<times> 'w"

definition key_text :: "PodProtectorKey \<Rightarrow> string" where
  "key_text k = KeyNamespace k @ ''/'' @ KeyName k"

fun result_to_handle :: "PodProtectorKey \<Rightarrow> HealthCriterionType \<Rightarrow> BatchResult \<Rightarrow> HandleResult option" where
  "result_to_handle k c NewDisruption = Some (pass StatusAdmittedAll)"
| "result_to_handle k c NoPpr = Some (pass StatusNotRelevant)"
| "result_to_handle k c AlreadyUnhealthy = Some (pass StatusAlreadyUnhealthy)"
| "result_to_handle k c AlreadyHasBucket = Some (pass StatusAlreadyAdmitted)"
| "result_to_handle k c BatchNeedRetry = Some (refuse StatusRetryAdvised 409 (''PodProtector '' @ key_text k @
     '' has full admission buffer and is temporarily unable to admit pod deletion''))"
| "result_to_handle k c Rejected = Some (refuse StatusRejected 429 (''PodProtector '' @ key_text k @
     '' reports too few '' @ criterion_lower c @ '' replicas to admit pod deletion''))"
| "result_to_handle k c BatchZero = None"

definition batch_item :: "'w Api \<Rightarrow> InterpretedRequest \<Rightarrow> string \<Rightarrow> int32 \<Rightarrow> BatchItem" where
  "batch_item api intrp cellId minReadySeconds =
     (let pod = PodMeta (subject_pod intrp)
      in \<lparr>ItemCellId = cellId, ItemPodUid = UID pod, ItemPodName = Name pod,
          ItemPodStatus = \<lparr>HealthCriterion = critAnnots_Get (critAnnots api) intrp,
            qStatus = request_GetPodStatus (realNow api) intrp minReadySeconds\<rparr>\<rparr>)"

text \<open>With a nil error and an absent object the message calls \<open>err.Error()\<close> on nil.\<close>

definition determineRejection ::
  "'w Api \<Rightarrow> PodProtectorKey \<Rightarrow> duration \<Rightarrow> InterpretedRequest \<Rightarrow> string \<Rightarrow> 'w \<Rightarrow> (HandleResult \<times> 'w) option" where
  "determineRejection api pprRef podReadyTime intrp cellId w =
     (case informerGet api pprRef of
        Inl err \<Rightarrow> Some (\<lparr>hStatus = StatusErr,
          hRejection = Some \<lparr>RejCode = 500,
            RejMessage = ''Cannot fetch ppr from informer store: '' @ err_Error err\<rparr>,
          hErr = Some (TagWrapf ''GetPprFromInformer'' err ''cannot fetch PodProtector from informer store'')\<rparr>, w)
      | Inr None \<Rightarrow> None
      | Inr (Some ppr) \<Rightarrow>
          (let minReadySeconds = MinReadySeconds (Spec ppr)
           in if podReadyTime < i64 (minReadySeconds * Second) then Some (pass StatusStillUnavailable, w)
              else case Submit api pprRef (batch_item api intrp cellId minReadySeconds) w of
                (Inl err, w') \<Rightarrow> Some (\<lparr>hStatus = StatusErr,
                   hRejection = Some \<lparr>RejCode = 500,
                     RejMessage = ''Cannot reserve PodProtector admission: '' @ err_Error err\<rparr>,
                   hErr = Some (TagWrapf ''ReserveAdmission'' err ''cannot reserve PodProtector admission'')\<rparr>, w')
              | (Inr result, w') \<Rightarrow>
                  map_option (\<lambda>r. (r, w'))
                    (result_to_handle pprRef (critAnnots_Get (critAnnots api) intrp) result)))"

definition can_continue :: "HandleResult \<Rightarrow> bool" where
  "can_continue result \<longleftrightarrow> hErr result = None \<and> hRejection result = None"

definition handlePodInPpr ::
  "'w Api \<Rightarrow> PodProtectorKey \<Rightarrow> InterpretedRequest \<Rightarrow> duration \<Rightarrow> string \<Rightarrow> 'w \<Rightarrow> (HandleResult \<times> bool \<times> 'w) option" where
  "handlePodInPpr api pprRef intrp podReadyTime cellId w = do {
     (result, w') \<leftarrow> determineRejection api pprRef podReadyTime intrp cellId w;
     Some (result, can_continue result, w')
   }"

text \<open>The loop over the matching PodProtectors: \<open>None\<close> in the first component when all
  of them let the pod pass.\<close>

fun handle_refs :: "'w Api \<Rightarrow> InterpretedRequest \<Rightarrow> duration \<Rightarrow> string \<Rightarrow> PodProtectorKey list \<Rightarrow> 'w \<Rightarrow>
    ((HandleResult \<times> PodProtectorKey) option \<times> 'w) option" where
  "handle_refs api intrp podReadyTime cellId [] w = Some (None, w)"
| "handle_refs api intrp podReadyTime cellId (pprRef # refs) w = do {
     (result, canContinue, w') \<leftarrow> handlePodInPpr api pprRef intrp podReadyTime cellId w;
     if \<not> canContinue then Some (Some (result, pprRef), w')
     else handle_refs api intrp podReadyTime cellId refs w'
   }"

text \<open>The result, the dry-run preference, the audit annotations and the world.\<close>

definition Handle ::
  "(go_error \<Rightarrow> bool) \<Rightarrow> decoder \<Rightarrow> (string \<Rightarrow> go_error + (string \<Rightarrow> string \<Rightarrow> go_error + Pod)) \<Rightarrow> 'w Api \<Rightarrow>
   AdmissionRequest option \<Rightarrow> string \<Rightarrow> (string, string) gomap \<Rightarrow> 'w \<Rightarrow>
   (HandleResult \<times> bool \<times> (string, string) gomap \<times> 'w) option" where
  "Handle IsNotFound dec clients api req cellId audit w =
     (let client = map_sum (\<lambda>err. TagWrapf ''GetCellClient'' err
            (''cannot retrieve cluster client for cell '' @ sprintf_q cellId)) id (clients cellId)
      in case interpretRequest dec client req of
        Inl err \<Rightarrow>
          if IsNotFound err then
            Some (refuse StatusNotFound 404 (case as_status err of Some (reason, m) \<Rightarrow> m | None \<Rightarrow> err_Error err),
              False, audit, w)
          else Some (errHandleResult err, False, audit, w)
      | Inr None \<Rightarrow> Some (refuse StatusNotRelevant 500
          ''Unexpected review subject; only pod deletions and evictions are handled by this webhook'', False, audit, w)
      | Inr (Some intrp) \<Rightarrow>
          (let preferDryRun = PrefersDryRun intrp
           in if IsAlreadyTerminating intrp then Some (pass StatusAlreadyTerminating, preferDryRun, audit, w)
              else case DurationSinceReady (clkNow api) intrp of
                None \<Rightarrow> Some (pass StatusAlreadyUnready, preferDryRun, audit, w)
              | Some podReadyTime \<Rightarrow>
                  if \<not> informerHasSynced api
                  then Some (errHandleResult (TagErrorf ''InformerNotSynced'' ''PodProtector informer is not synced yet''),
                    False, audit, w)
                  else let refs = informerQuery api (Namespace (PodMeta (subject_pod intrp)))
                             (Labels (PodMeta (subject_pod intrp)))
                  in do {
                    (outcome, w') \<leftarrow> handle_refs api intrp podReadyTime cellId refs w;
                    Some (case outcome of
                      Some (result, pprRef) \<Rightarrow>
                        (result, preferDryRun, map_put AuditAnnotationRejectByPpr (KeyName pprRef) audit, w')
                    | None \<Rightarrow>
                        (pass (if length refs = 0 then StatusUnmatched else StatusAdmittedAll), preferDryRun, audit, w'))
                  }))"

section \<open>The response\<close>

datatype response =
    HttpStatus int
  | Review string bool "Rejection option" "(string, string) gomap"

text \<open>The review's UID is read from the request, which is a nil dereference when the review has
  none.\<close>

definition serve :: "bool \<Rightarrow> AdmissionRequest option \<Rightarrow> (HandleResult \<times> bool \<times> (string, string) gomap \<times> 'w) \<Rightarrow>
    response option" where
  "serve optDryRun req handled =
     (case handled of (result, preferDryRun, audit, w) \<Rightarrow>
        let dryRun = optDryRun \<or> preferDryRun
        in if hErr result \<noteq> None \<and> \<not> dryRun then Some (HttpStatus 500)
           else if hErr result = None \<and> \<not> dryRun then
             (case req of None \<Rightarrow> None
              | Some r \<Rightarrow> Some (Review (ReqUID r) (hRejection result = None) (hRejection result) audit))
           else (case req of None \<Rightarrow> None
              | Some r \<Rightarrow> Some (Review (ReqUID r) True None (map_put AuditAnnotationDryRun ''1'' audit))))"

definition HandleReview ::
  "(go_error \<Rightarrow> bool) \<Rightarrow> decoder \<Rightarrow> (string \<Rightarrow> go_error + (string \<Rightarrow> string \<Rightarrow> go_error + Pod)) \<Rightarrow> 'w Api \<Rightarrow> bool \<Rightarrow>
   (string \<Rightarrow> go_error + AdmissionRequest option) \<Rightarrow> (go_error + string) \<Rightarrow> string \<Rightarrow> 'w \<Rightarrow>
   (response \<times> 'w) option" where
  "HandleReview IsNotFound dec clients api optDryRun unmarshal body cellId w =
     (case body of
        Inl err \<Rightarrow> Some (HttpStatus 400, w)
      | Inr postBody \<Rightarrow> (case unmarshal postBody of
          Inl err \<Rightarrow> Some (HttpStatus 400, w)
        | Inr req \<Rightarrow> do {
            handled \<leftarrow> Handle IsNotFound dec clients api req cellId [] w;
            resp \<leftarrow> serve optDryRun req handled;
            Some (resp, snd (snd (snd handled)))
          }))"

section \<open>Backoff\<close>

text \<open>\<open>rand.Int63n(n)\<close> panics unless \<open>n\<close> is positive; the random draw \<open>r\<close> is
  a number in \<open>[0, n)\<close>.\<close>

definition jitterDuration :: "(int \<Rightarrow> int) \<Rightarrow> duration \<Rightarrow> duration \<Rightarrow> duration option" where
  "jitterDuration Int63n base jitter = (if jitter \<le> 0 then None else Some (i64 (base + Int63n jitter)))"

definition handler_retryBackoff :: "(int \<Rightarrow> int) \<Rightarrow> duration \<Rightarrow> duration \<Rightarrow> duration option" where
  "handler_retryBackoff Int63n RetryBackoffBase RetryJitter =
     jitterDuration Int63n RetryBackoffBase (i64 (RetryBackoffBase + RetryJitter))"

section \<open>What an admission means\<close>

text \<open>One PodProtector lets a pod pass: the object is known, and either the pod has not been ready
  for its minimum time, in which case nothing is submitted, or the pool answered with one of the
  results that let a pod through.\<close>

definition lets_pass ::
  "'w Api \<Rightarrow> InterpretedRequest \<Rightarrow> duration \<Rightarrow> string \<Rightarrow> PodProtectorKey \<Rightarrow> 'w \<Rightarrow> 'w \<Rightarrow> bool" where
  "lets_pass api intrp t cellId k w w' \<longleftrightarrow> (\<exists>ppr. informerGet api k = Inr (Some ppr) \<and>
     (t < i64 (MinReadySeconds (Spec ppr) * Second) \<and> w' = w
      \<or> \<not> t < i64 (MinReadySeconds (Spec ppr) * Second) \<and> (\<exists>r. r \<in> {NewDisruption, NoPpr, AlreadyUnhealthy, AlreadyHasBucket}
          \<and> Submit api k (batch_item api intrp cellId (MinReadySeconds (Spec ppr))) w = (Inr r, w'))))"

lemma result_to_handle_pass:
  "result_to_handle k c r = Some h \<Longrightarrow>
   can_continue h \<longleftrightarrow> r \<in> {NewDisruption, NoPpr, AlreadyUnhealthy, AlreadyHasBucket}"
  by (cases r) (auto simp: can_continue_def pass_def refuse_def)

lemma handlePodInPpr_pass:
  assumes "handlePodInPpr api k intrp t cellId w = Some (res, True, w')"
  shows "lets_pass api intrp t cellId k w w'"
proof -
  have det: "determineRejection api k t intrp cellId w = Some (res, w')" and ok: "can_continue res"
    using assms by (auto simp: handlePodInPpr_def bind_eq_Some_conv)
  show ?thesis
  proof (cases "informerGet api k")
    case (Inl e)
    then show ?thesis using det ok by (auto simp: determineRejection_def can_continue_def)
  next
    case (Inr x)
    then obtain ppr where ppr: "informerGet api k = Inr (Some ppr)"
      using det by (cases x) (auto simp: determineRejection_def)
    show ?thesis
    proof (cases "t < i64 (MinReadySeconds (Spec ppr) * Second)")
      case True
      then show ?thesis using det ppr by (simp add: determineRejection_def lets_pass_def Let_def)
    next
      case False
      obtain r w1 where sub: "Submit api k (batch_item api intrp cellId (MinReadySeconds (Spec ppr))) w = (r, w1)"
        by fastforce
      show ?thesis
        using False det ppr sub ok result_to_handle_pass
        by (cases r) (fastforce simp: determineRejection_def lets_pass_def Let_def can_continue_def)+
    qed
  qed
qed

fun all_pass :: "'w Api \<Rightarrow> InterpretedRequest \<Rightarrow> duration \<Rightarrow> string \<Rightarrow> PodProtectorKey list \<Rightarrow> 'w \<Rightarrow> 'w \<Rightarrow> bool" where
  "all_pass api intrp t cellId [] w w' \<longleftrightarrow> w' = w"
| "all_pass api intrp t cellId (k # ks) w w' \<longleftrightarrow>
     (\<exists>w1. lets_pass api intrp t cellId k w w1 \<and> all_pass api intrp t cellId ks w1 w')"

lemma handle_refs_pass:
  "handle_refs api intrp t cellId refs w = Some (None, w') \<Longrightarrow> all_pass api intrp t cellId refs w w'"
proof (induction refs arbitrary: w)
  case (Cons k refs)
  then obtain res ok w1 where one: "handlePodInPpr api k intrp t cellId w = Some (res, ok, w1)"
    and ok: "ok" and rest: "handle_refs api intrp t cellId refs w1 = Some (None, w')"
    by (auto simp: bind_eq_Some_conv split: if_splits)
  then show ?case using handlePodInPpr_pass[of api k intrp t cellId w res w1] Cons.IH[OF rest] by auto
qed simp

lemma handle_refs_stop:
  "handle_refs api intrp t cellId refs w = Some (Some (res, k), w') \<Longrightarrow> \<not> can_continue res \<and> k \<in> set refs"
proof (induction refs arbitrary: w)
  case (Cons k' refs)
  then obtain r ok w1 where one: "handlePodInPpr api k' intrp t cellId w = Some (r, ok, w1)"
    and "if \<not> ok then Some (Some (r, k'), w1) = Some (Some (res, k), w')
      else handle_refs api intrp t cellId refs w1 = Some (Some (res, k), w')"
    by (auto simp: bind_eq_Some_conv split: if_splits)
  moreover have "ok = can_continue r" using one by (auto simp: handlePodInPpr_def bind_eq_Some_conv)
  ultimately show ?case using Cons.IH[of w1] by (cases ok) auto
qed simp

text \<open>A deletion is only allowed for one of three reasons. When the webhook, outside dry-run, answers a
  review with \<open>allowed\<close>, the pod was already terminating, or not ready, or every PodProtector that the
  informer returned for it let it pass one after the other. In particular no error on the way leads to an
  allowed deletion.\<close>

lemma HandleReview_reasons:
  assumes "HandleReview nf dec clients api False unmarshal (Inr body) cellId w = Some (Review uid True rej audit, w')"
    and "unmarshal body = Inr req"
    and "\<forall>intrp. interpretRequest dec (map_sum (\<lambda>err. TagWrapf ''GetCellClient'' err
      (''cannot retrieve cluster client for cell '' @ sprintf_q cellId)) id (clients cellId)) req = Inr (Some intrp) \<longrightarrow>
      \<not> PrefersDryRun intrp"
  shows "\<exists>intrp. interpretRequest dec (map_sum (\<lambda>err. TagWrapf ''GetCellClient'' err
      (''cannot retrieve cluster client for cell '' @ sprintf_q cellId)) id (clients cellId)) req = Inr (Some intrp)
    \<and> (IsAlreadyTerminating intrp \<or> DurationSinceReady (clkNow api) intrp = None
       \<or> (\<exists>t. DurationSinceReady (clkNow api) intrp = Some t \<and> informerHasSynced api
            \<and> all_pass api intrp t cellId (informerQuery api (Namespace (PodMeta (subject_pod intrp)))
                (Labels (PodMeta (subject_pod intrp)))) w w'))"
proof -
  let ?client = "map_sum (\<lambda>err. TagWrapf ''GetCellClient'' err
      (''cannot retrieve cluster client for cell '' @ sprintf_q cellId)) id (clients cellId)"
  obtain res dry aud where run: "Handle nf dec clients api req cellId [] w = Some (res, dry, aud, w')"
    and srv: "serve False req (res, dry, aud, w') = Some (Review uid True rej audit)"
    using assms(1,2) by (auto simp: HandleReview_def bind_eq_Some_conv)
  have dry: "\<not> dry" if "interpretRequest dec ?client req = Inr (Some intrp)" for intrp
    using run that assms(3)[rule_format, OF that]
    by (auto simp: Handle_def Let_def bind_eq_Some_conv split: if_splits option.splits)
  show ?thesis
  proof (cases "interpretRequest dec ?client req")
    case (Inl e)
    then show ?thesis
      using run srv by (auto simp: Handle_def Let_def serve_def refuse_def errHandleResult_def
          split: if_splits option.splits)
  next
    case (Inr x)
    show ?thesis
    proof (cases x)
      case None
      then show ?thesis using Inr run srv
        by (auto simp: Handle_def Let_def serve_def refuse_def split: if_splits option.splits)
    next
      case (Some intrp)
      have int: "interpretRequest dec ?client req = Inr (Some intrp)" using Inr Some by simp
      have ok: "can_continue res"
        using srv dry[OF int] by (auto simp: serve_def can_continue_def Let_def split: if_splits option.splits)
      show ?thesis
      proof (cases "IsAlreadyTerminating intrp \<or> DurationSinceReady (clkNow api) intrp = None")
        case False
        then obtain t where t: "DurationSinceReady (clkNow api) intrp = Some t" by auto
        have sync: "informerHasSynced api"
          using run int False t ok by (auto simp: Handle_def Let_def errHandleResult_def can_continue_def split: if_splits)
        let ?refs = "informerQuery api (Namespace (PodMeta (subject_pod intrp))) (Labels (PodMeta (subject_pod intrp)))"
        obtain outcome where refs: "handle_refs api intrp t cellId ?refs w = Some (outcome, w')"
          and "case outcome of Some (r, k) \<Rightarrow> res = r | None \<Rightarrow> True"
          using run int False t sync by (auto simp: Handle_def Let_def bind_eq_Some_conv split: option.splits)
        then have "outcome = None" using handle_refs_stop ok by (cases outcome) fastforce+
        then show ?thesis using handle_refs_pass refs int t sync by fastforce
      qed (use int in auto)
    qed
  qed
qed

text \<open>Dry-run never rejects and never hides a disruption. For a review that has a request, a
  server in dry-run answers every review that does not panic as allowed, without a rejection and
  with the dry-run mark, and the world after it, with every submission that was made, is the one
  that the same review leaves without dry-run.\<close>

theorem dry_run_allows_and_records:
  assumes "unmarshal body = Inr (Some r)"
  shows "(\<forall>resp w'. HandleReview nf dec clients api True unmarshal (Inr body) cellId w = Some (resp, w') \<longrightarrow>
        (\<exists>audit. resp = Review (ReqUID r) True None audit \<and> map_of audit AuditAnnotationDryRun = Some ''1''))
    \<and> map_option snd (HandleReview nf dec clients api True unmarshal (Inr body) cellId w) =
      map_option snd (HandleReview nf dec clients api False unmarshal (Inr body) cellId w)"
  using assms
  by (auto simp: serve_def HandleReview_def Let_def map_option_bind bind_eq_Some_conv split: Option.bind_split)

text \<open>The decision for one PodProtector panics exactly when the informer returns neither an
  object nor an error (the rejection message then dereferences a nil error) or the pool hands
  back the zero result; with a result the pool can produce and a known object it always
  decides.\<close>

theorem determineRejection_panics:
  "determineRejection api k t intrp cellId w = None \<longleftrightarrow>
     informerGet api k = Inr None
   \<or> (\<exists>ppr. informerGet api k = Inr (Some ppr) \<and> i64 (MinReadySeconds (Spec ppr) * Second) \<le> t
        \<and> fst (Submit api k (batch_item api intrp cellId (MinReadySeconds (Spec ppr))) w) = Inr BatchZero)"
proof -
  have none: "result_to_handle k c r = None \<longleftrightarrow> r = BatchZero" for c r by (cases r) auto
  show ?thesis
    by (auto simp: determineRejection_def Let_def none split: sum.split option.split prod.split)
qed

text \<open>The criterion a request is judged by, with the default annotations: the value of the
  health criterion annotation when it is one of the three weaker criteria, availability for any
  other value or none; an annotation on an eviction takes precedence over the one on the
  pod.\<close>

theorem criterion_from_annotation:
  "critAnnots_Get NewCritAnnots intrp =
     (case GetAnnotation intrp EvictionAnnotationHealthCriterion of
        None \<Rightarrow> CritAvailable
      | Some v \<Rightarrow> if v = ''Scheduled'' then CritScheduled else if v = ''Running'' then CritRunning
                  else if v = ''Ready'' then CritReady else CritAvailable)
   \<and> GetAnnotation (interpretedEvictionRequest p annots) key =
       (map_of (Annotations (PodMeta p)) ++ map_of annots) key"
  by (auto simp: critAnnots_Get_def NewCritAnnots_def map_add_def split: option.splits)

text \<open>The backoff after a conflict lies in \<open>[base, 2 * base + jitter)\<close>, and every
  value of that interval can be drawn, although the flag promises \<open>[base, base + jitter)\<close>:
  the base is added twice.\<close>

theorem retryBackoff_range:
  assumes "0 \<le> base" and "0 \<le> jitter" and "0 < base + jitter" and "is_int64 (2 * base + jitter)"
    and "\<forall>n > 0. 0 \<le> draw n \<and> draw n < n"
  shows "\<exists>d. handler_retryBackoff draw base jitter = Some d \<and> base \<le> d \<and> d < 2 * base + jitter
    \<and> (\<forall>e. base \<le> e \<and> e < 2 * base + jitter \<longrightarrow>
         (\<exists>draw'. (\<forall>n > 0. 0 \<le> draw' n \<and> draw' n < n) \<and> handler_retryBackoff draw' base jitter = Some e))"
proof -
  have w: "i64 (base + jitter) = base + jitter" "is_int64 (base + x)" if "0 \<le> x" "x < base + jitter" for x
    using assms(1-4) that by (auto simp: i64_id is_int64_def)
  have eq: "handler_retryBackoff dr base jitter = Some (base + dr (base + jitter))"
    if "\<forall>n > 0. 0 \<le> dr n \<and> dr n < n" for dr
    using that w[of "dr (base + jitter)"] assms(3) by (simp add: handler_retryBackoff_def jitterDuration_def i64_id)
  have "0 \<le> draw (base + jitter)" "draw (base + jitter) < base + jitter" using assms(3,5) by auto
  moreover have "\<exists>draw'. (\<forall>n > 0. 0 \<le> draw' n \<and> draw' n < n) \<and> handler_retryBackoff draw' base jitter = Some e"
    if e: "base \<le> e" "e < 2 * base + jitter" for e
  proof (intro exI[of _ "\<lambda>n. if n = base + jitter then e - base else 0"] conjI)
    show "\<forall>n > 0. 0 \<le> (if n = base + jitter then e - base else 0) \<and> (if n = base + jitter then e - base else 0) < n"
      using e by auto
    then show "handler_retryBackoff (\<lambda>n. if n = base + jitter then e - base else 0) base jitter = Some e"
      using eq[of "\<lambda>n. if n = base + jitter then e - base else 0"] by simp
  qed
  ultimately show ?thesis using eq[OF assms(5)] by (intro exI[of _ "base + draw (base + jitter)"]) auto
qed

theorem retryBackoff_range_witness:
  "\<exists>draw'. (\<forall>n. 0 < n \<longrightarrow> draw' n < n) \<and> handler_retryBackoff draw' 100000000 100000000 = Some 299999999"
proof -
  have "\<exists>d. handler_retryBackoff (\<lambda>_. 0) 100000000 100000000 = Some d
    \<and> (\<forall>e. 100000000 \<le> e \<and> e < 300000000 \<longrightarrow>
         (\<exists>draw'. (\<forall>n > 0. 0 \<le> draw' n \<and> draw' n < n) \<and> handler_retryBackoff draw' 100000000 100000000 = Some e))"
    using retryBackoff_range[of 100000000 100000000 "\<lambda>_. 0"] by (auto simp: is_int64_def)
  then obtain draw' where "\<forall>n > 0. 0 \<le> draw' n \<and> draw' n < n"
    "handler_retryBackoff draw' 100000000 100000000 = Some 299999999"
    by (elim exE conjE) (drule spec[of _ 299999999], auto)
  then show ?thesis by blast
qed

section \<open>Witnesses\<close>

definition sample_decoder :: decoder where
  "sample_decoder = \<lparr>unmarshalPod = (\<lambda>_. Inr (Some (sample_pod 1000000000))), unmarshalEviction = (\<lambda>_. Inr (Some []))\<rparr>"

definition sample_api :: "nat Api" where
  "sample_api = \<lparr>informerGet = (\<lambda>_. Inr (Some sample_object)), informerQuery = (\<lambda>_ _. [sample_key]),
     informerHasSynced = True, clkNow = 9000000000, realNow = 9000000000, critAnnots = NewCritAnnots,
     Submit = (\<lambda>_ _ w. (Inr NewDisruption, Suc w))\<rparr>"

definition sample_review :: AdmissionRequest where
  "sample_review = \<lparr>ReqUID = ''r1'', Operation = ''DELETE'', Resource = podGvr, SubResource = [],
     ReqNamespace = ''default'', ReqName = ''web-1'', OldObjectRaw = ''{}'', ObjectRaw = []\<rparr>"

lemma sample_interpreted:
  "interpretRequest sample_decoder c (Some sample_review) = Inr (Some (interpretedPodRequest (sample_pod 1000000000)))"
  by (simp add: interpretRequest_def sample_review_def interpretPodRequest_def sample_decoder_def)

lemma sample_pod_facts:
  "\<not> PrefersDryRun (interpretedPodRequest (sample_pod 1000000000))"
  "\<not> IsAlreadyTerminating (interpretedPodRequest (sample_pod 1000000000))"
  "DurationSinceReady 9000000000 (interpretedPodRequest (sample_pod 1000000000)) = Some 8000000000"
  by (simp_all add: PrefersDryRun_def IsAlreadyTerminating_def sample_pod_def ts_IsZero_def
      DurationSinceReady_def FindInSliceWith_def time_Sub_def MinInt64_def MaxInt64_def)

lemma sample_api_facts:
  "clkNow sample_api = 9000000000" "informerHasSynced sample_api" "informerQuery sample_api ns ls = [sample_key]"
  "determineRejection sample_api sample_key 8000000000 i cid w = Some (pass StatusAdmittedAll, Suc w)"
  by (simp_all add: sample_api_def determineRejection_def sample_object_def sample_ppr_def i64_def)

lemma sample_handled:
  "HandleReview (\<lambda>_. False) sample_decoder (\<lambda>_. Inr (\<lambda>_ _. Inr (sample_pod 0))) sample_api d (\<lambda>_. Inr (Some sample_review))
     (Inr ''body'') ''c1'' 0 = Some (Review ''r1'' True None (if d then [(AuditAnnotationDryRun, ''1'')] else []), 1)"
proof -
  have "Handle (\<lambda>_. False) sample_decoder (\<lambda>_. Inr (\<lambda>_ _. Inr (sample_pod 0))) sample_api (Some sample_review) ''c1'' [] 0 =
      Some (pass StatusAdmittedAll, False, [], 1)"
    by (simp add: Handle_def sample_interpreted Let_def sample_pod_facts sample_api_facts handlePodInPpr_def
        pass_def can_continue_def)
  then show ?thesis
    by (simp add: HandleReview_def serve_def pass_def sample_review_def)
qed

theorem dry_run_allows_and_records_witness:
  "map_option snd (HandleReview (\<lambda>_. False) sample_decoder (\<lambda>_. Inr (\<lambda>_ _. Inr (sample_pod 0))) sample_api True
     (\<lambda>_. Inr (Some sample_review)) (Inr ''body'') ''c1'' 0) = Some 1"
  using dry_run_allows_and_records[of "\<lambda>_. Inr (Some sample_review)" "''body''" sample_review
      "\<lambda>_. False" sample_decoder "\<lambda>_. Inr (\<lambda>_ _. Inr (sample_pod 0))" sample_api "''c1''" 0]
    sample_handled[of False] by simp

end
