(* ===== verification/Iter.thy ===== *)
theory Iter
  imports GoOptional Errors
begin

text \<open>
  The pushing iterators of \<open>util/iter/iter.go\<close>. A Go yield function is a closure
  that changes what it captures: here it maps an item and that state to a flow and the new
  state, and an iterator threads the state through the items it pushes. An adapter that
  keeps a variable of its own (the counter of \<open>Enumerate\<close>, the set of
  \<open>Deduplicate\<close>) pairs it with the state of the caller's yield function.

  The lemmas \<open>iter_lists\<close> say that every source and adapter except
  \<open>Filter\<close> equals the iterator over a plain slice, whatever yield does, break
  included; \<open>Filter\<close> does not stop when it is told to, and the properties at the
  end state what its callers get.
\<close>

section \<open>Flow, iterators, and the sources\<close>

type_synonym Flow = bool
abbreviation (input) Continue :: Flow where "Continue \<equiv> True"
abbreviation (input) Break :: Flow where "Break \<equiv> False"

definition ContinueIf :: "bool \<Rightarrow> Flow" where "ContinueIf condition = condition"

type_synonym ('a, 's) Yield = "'a \<Rightarrow> 's \<Rightarrow> Flow \<times> 's"
type_synonym ('a, 's) Iter = "('a, 's) Yield \<Rightarrow> 's \<Rightarrow> Flow \<times> 's"

fun iter_FromSlice :: "'a list \<Rightarrow> ('a, 's) Iter" where
  "iter_FromSlice [] yield s = (Continue, s)"
| "iter_FromSlice (item # slice) yield s =
     (case yield item s of (flow, s') \<Rightarrow>
        if \<not> flow then (Break, s') else iter_FromSlice slice yield s')"

definition iter_Empty :: "('a, 's) Iter" where
  "iter_Empty yield s = (Continue, s)"

fun iter_Chain :: "('a, 's) Iter list \<Rightarrow> ('a, 's) Iter" where
  "iter_Chain [] yield s = (Continue, s)"
| "iter_Chain (it # iters) yield s =
     (case it yield s of (flow, s') \<Rightarrow>
        if \<not> flow then (Break, s') else iter_Chain iters yield s')"

fun iter_Repeat :: "'a \<Rightarrow> nat \<Rightarrow> ('a, 's) Iter" where
  "iter_Repeat v 0 yield s = (Continue, s)"
| "iter_Repeat v (Suc n) yield s =
     (case yield v s of (flow, s') \<Rightarrow>
        if \<not> flow then (Break, s') else iter_Repeat v n yield s')"

function iter_Range :: "int \<Rightarrow> int \<Rightarrow> (int, 's) Iter" where
  "iter_Range i e yield s =
     (if i < e then
        case yield i s of (flow, s') \<Rightarrow>
          if \<not> flow then (Break, s') else iter_Range (i + 1) e yield s'
      else (Continue, s))"
  by pat_completeness auto
termination by (relation "measure (\<lambda>(i, e, _, _). nat (e - i))") auto

declare iter_Range.simps [simp del]

fun iter_MapKvs :: "('k, 'v) gomap \<Rightarrow> ('k \<times> 'v, 's) Iter" where
  "iter_MapKvs [] yield s = (Continue, s)"
| "iter_MapKvs ((k, v) # m) yield s =
     (case yield (k, v) s of (flow, s') \<Rightarrow>
        if \<not> flow then (Break, s') else iter_MapKvs m yield s')"

definition iter_FromMap :: "('k, 'v) gomap \<Rightarrow> ('k \<times> 'v, 's) Iter" where
  "iter_FromMap m yield s = iter_MapKvs m yield s"

fun iter_MapKeys :: "('k, 'v) gomap \<Rightarrow> ('k, 's) Iter" where
  "iter_MapKeys [] yield s = (Continue, s)"
| "iter_MapKeys ((k, v) # m) yield s =
     (case yield k s of (flow, s') \<Rightarrow>
        if \<not> flow then (Break, s') else iter_MapKeys m yield s')"

fun iter_MapValues :: "('k, 'v) gomap \<Rightarrow> ('v, 's) Iter" where
  "iter_MapValues [] yield s = (Continue, s)"
| "iter_MapValues ((k, v) # m) yield s =
     (case yield v s of (flow, s') \<Rightarrow>
        if \<not> flow then (Break, s') else iter_MapValues m yield s')"

text \<open>A \<open>sets.Set\<close> is the list of its elements in the order a range loop visits
  them.\<close>

fun iter_FromSet :: "'a list \<Rightarrow> ('a, 's) Iter" where
  "iter_FromSet [] yield s = (Continue, s)"
| "iter_FromSet (item # rest) yield s =
     (case yield item s of (flow, s') \<Rightarrow>
        if \<not> flow then (Break, s') else iter_FromSet rest yield s')"

fun from_map_left ::
    "('k, 'v2) gomap \<Rightarrow> ('k, 'v1) gomap \<Rightarrow> ('k \<times> 'v1 option \<times> 'v2 option, 's) Iter" where
  "from_map_left m2 [] yield s = (Continue, s)"
| "from_map_left m2 ((k, v1) # m) yield s =
     (case yield (k, Some v1, map_of m2 k) s of (flow, s') \<Rightarrow>
        if \<not> flow then (Break, s') else from_map_left m2 m yield s')"

fun from_map_right ::
    "('k, 'v1) gomap \<Rightarrow> ('k, 'v2) gomap \<Rightarrow> ('k \<times> 'v1 option \<times> 'v2 option, 's) Iter" where
  "from_map_right m1 [] yield s = (Continue, s)"
| "from_map_right m1 ((k, v2) # m) yield s =
     (if map_of m1 k = None then
        case yield (k, None, Some v2) s of (flow, s') \<Rightarrow>
          if \<not> flow then (Break, s') else from_map_right m1 m yield s'
      else from_map_right m1 m yield s)"

definition iter_FromMap2 ::
    "('k, 'v1) gomap \<Rightarrow> ('k, 'v2) gomap \<Rightarrow> ('k \<times> 'v1 option \<times> 'v2 option, 's) Iter" where
  "iter_FromMap2 m1 m2 yield s =
     (case from_map_left m2 m1 yield s of (flow, s') \<Rightarrow>
        if \<not> flow then (Break, s') else from_map_right m1 m2 yield s')"

fun iter_Zip :: "'a list \<Rightarrow> 'b list \<Rightarrow> ('a option \<times> 'b option, 's) Iter" where
  "iter_Zip [] [] yield s = (Continue, s)"
| "iter_Zip (l # ls) [] yield s =
     (case yield (Some l, None) s of (flow, s') \<Rightarrow>
        if \<not> flow then (Break, s') else iter_Zip ls [] yield s')"
| "iter_Zip [] (r # rs) yield s =
     (case yield (None, Some r) s of (flow, s') \<Rightarrow>
        if \<not> flow then (Break, s') else iter_Zip [] rs yield s')"
| "iter_Zip (l # ls) (r # rs) yield s =
     (case yield (Some l, Some r) s of (flow, s') \<Rightarrow>
        if \<not> flow then (Break, s') else iter_Zip ls rs yield s')"

section \<open>Adapters\<close>

definition iter_Filter :: "('a, 's) Iter \<Rightarrow> ('a \<Rightarrow> bool) \<Rightarrow> ('a, 's) Iter" where
  "iter_Filter it filterFn yield s =
     it (\<lambda>item s. if filterFn item then (Continue, snd (yield item s)) else (Continue, s)) s"

definition iter_Map :: "('a, 's) Iter \<Rightarrow> ('a \<Rightarrow> 'b) \<Rightarrow> ('b, 's) Iter" where
  "iter_Map it mapFn yield s = it (\<lambda>v s. yield (mapFn v) s) s"

definition iter_FlatMap :: "('a, 's) Iter \<Rightarrow> ('a \<Rightarrow> ('b, 's) Iter) \<Rightarrow> ('b, 's) Iter" where
  "iter_FlatMap it mapFn yield s = it (\<lambda>intoIter s. mapFn intoIter (\<lambda>v s. yield v s) s) s"

text \<open>The set of values seen is created when \<open>Deduplicate\<close> is called, not when
  the iterator runs; it is the second component of the state.\<close>

definition iter_Deduplicate :: "('a, 's \<times> 'a list) Iter \<Rightarrow> ('a, 's) Yield \<Rightarrow> 's \<times> 'a list \<Rightarrow>
    Flow \<times> ('s \<times> 'a list)" where
  "iter_Deduplicate it yield st =
     it (\<lambda>item (s, seen).
           if item \<in> set seen then (Continue, (s, seen))
           else (Continue, (snd (yield item s), item # seen))) st"

definition uint64 :: "nat \<Rightarrow> nat" where "uint64 n = n mod 18446744073709551616"

definition iter_Enumerate :: "('a, 's \<times> nat) Iter \<Rightarrow> (nat \<times> 'a, 's) Iter" where
  "iter_Enumerate it yield s =
     (case it (\<lambda>item (s, counter).
             case yield (counter, item) s of (flow, s') \<Rightarrow> (flow, (s', uint64 (counter + 1)))) (s, 0) of
        (flow, (s', _)) \<Rightarrow> (flow, s'))"

text \<open>The flag of the affine iterator is the second component; \<open>None\<close> is the
  panic.\<close>

definition iter_MustBeAffine :: "('a, 's) Iter \<Rightarrow> ('a, 's) Yield \<Rightarrow> 's \<times> bool \<Rightarrow>
    (Flow \<times> ('s \<times> bool)) option" where
  "iter_MustBeAffine it yield st =
     (case st of (s, used) \<Rightarrow>
        if used then None
        else (case it yield s of (flow, s') \<Rightarrow> Some (flow, (s', True))))"

definition iter_Defer :: "('a, 's) Iter \<Rightarrow> ('s \<Rightarrow> 's) \<Rightarrow> ('a, 's) Yield \<Rightarrow> 's \<times> bool \<Rightarrow>
    (Flow \<times> ('s \<times> bool)) option" where
  "iter_Defer it finalizer =
     iter_MustBeAffine (\<lambda>yield s. case it yield s of (flow, s') \<Rightarrow> (flow, finalizer s'))"

section \<open>Consumers\<close>

definition iter_Fold :: "('a, 'b) Iter \<Rightarrow> 'b \<Rightarrow> ('b \<Rightarrow> 'a \<Rightarrow> 'b) \<Rightarrow> 'b" where
  "iter_Fold it initial foldFn = snd (it (\<lambda>v state. (Continue, foldFn state v)) initial)"

definition iter_Reduce :: "('a, 'a option) Iter \<Rightarrow> ('a \<Rightarrow> 'a \<Rightarrow> 'a) \<Rightarrow> 'a option" where
  "iter_Reduce it reduceFn =
     iter_Fold it None (\<lambda>opt v. case opt of Some state \<Rightarrow> Some (reduceFn state v) | None \<Rightarrow> Some v)"

definition iter_Extremum :: "'a \<Rightarrow> ('a, 'a Optional) Iter \<Rightarrow> ('a \<Rightarrow> 'a \<Rightarrow> bool) \<Rightarrow> 'a Optional" where
  "iter_Extremum zero it preferRight =
     iter_Fold it (opt_None zero) (\<lambda>opt v. SetOrChoose opt v preferRight)"

definition iter_Any :: "(bool, bool) Iter \<Rightarrow> bool" where
  "iter_Any it = snd (it (\<lambda>v found. if v then (Break, True) else (Continue, found)) False)"

definition iter_All :: "(bool, bool) Iter \<Rightarrow> bool" where
  "iter_All it \<longleftrightarrow> \<not> iter_Any (iter_Map it (\<lambda>b. \<not> b))"

definition iter_CollectSlice :: "('a, 'a list) Iter \<Rightarrow> 'a list" where
  "iter_CollectSlice it = snd (it (\<lambda>v output. (Continue, output @ [v])) [])"

definition iter_Count :: "('a, nat) Iter \<Rightarrow> nat" where
  "iter_Count it = snd (it (\<lambda>_ output. (Continue, uint64 (output + 1))) 0)"

definition iter_CollectMap :: "('k \<times> 'v, ('k, 'v) gomap) Iter \<Rightarrow> ('k, 'v) gomap" where
  "iter_CollectMap it = snd (it (\<lambda>(k, v) output. (Continue, map_put k v output)) [])"

definition set_Insert :: "'a \<Rightarrow> 'a list \<Rightarrow> 'a list" where
  "set_Insert x s = (if x \<in> set s then s else s @ [x])"

definition iter_CollectSet :: "('a, 'a list) Iter \<Rightarrow> 'a list" where
  "iter_CollectSet it = snd (it (\<lambda>v s. (Continue, set_Insert v s)) [])"

text \<open>\<open>eachFn\<close> may have effects of its own: it transforms the caller's state.\<close>

definition iter_TryForEach ::
    "('a, 'e option \<times> 's) Iter \<Rightarrow> ('a \<Rightarrow> 's \<Rightarrow> 'e option \<times> 's) \<Rightarrow> 's \<Rightarrow> 'e option \<times> 's" where
  "iter_TryForEach it eachFn s =
     snd (it (\<lambda>v (err, s). case eachFn v s of (err', s') \<Rightarrow>
                if err' \<noteq> None then (Break, (err', s')) else (Continue, (err', s'))) (None, s))"

definition iter_Sum :: "(int \<Rightarrow> int) \<Rightarrow> (int, int) Iter \<Rightarrow> int" where
  "iter_Sum wrap it = iter_Fold it 0 (\<lambda>sum v. wrap (sum + v))"

definition iter_Histogram :: "('a, ('a, int) gomap) Iter \<Rightarrow> ('a, int) gomap" where
  "iter_Histogram it =
     snd (it (\<lambda>item output. (Continue,
            map_put item (i64 ((case map_of output item of Some n \<Rightarrow> n | None \<Rightarrow> 0) + 1)) output)) [])"

definition iter_FirstSome :: "('a option, 'a option) Iter \<Rightarrow> 'a option" where
  "iter_FirstSome it =
     snd (it (\<lambda>opt ret. if opt \<noteq> None then (Break, opt) else (Continue, opt)) None)"

section \<open>Every source and adapter as an iterator over a list\<close>

lemma iter_Empty_list: "iter_Empty = iter_FromSlice []"
  by (simp add: iter_Empty_def fun_eq_iff)

lemma iter_append:
  "iter_FromSlice (xs @ ys) yield s =
     (case iter_FromSlice xs yield s of (flow, s') \<Rightarrow>
        if \<not> flow then (Break, s') else iter_FromSlice ys yield s')"
  by (induction xs arbitrary: s) (auto split: prod.splits)

lemma iter_Chain_list: "iter_Chain (map iter_FromSlice xss) = iter_FromSlice (concat xss)"
proof (intro ext)
  fix yield s
  show "iter_Chain (map iter_FromSlice xss) yield s = iter_FromSlice (concat xss) yield s"
    by (induction xss arbitrary: s) (auto simp: iter_append split: prod.splits)
qed

lemma iter_Repeat_list: "iter_Repeat v n = iter_FromSlice (replicate n v)"
proof (intro ext)
  fix yield s
  show "iter_Repeat v n yield s = iter_FromSlice (replicate n v) yield s"
    by (induction n arbitrary: s) (auto split: prod.splits)
qed

lemma iter_Range_list: "iter_Range i e = iter_FromSlice [i..e - 1]"
proof (intro ext)
  fix yield s
  show "iter_Range i e yield s = iter_FromSlice [i..e - 1] yield s"
  proof (induction i e yield s rule: iter_Range.induct)
    case (1 i e yield s)
    then show ?case
      by (subst iter_Range.simps) (auto simp: upto_rec1 split: prod.splits)
  qed
qed

lemma iter_MapKvs_list: "iter_MapKvs m = iter_FromSlice m"
proof (intro ext)
  fix yield s
  show "iter_MapKvs m yield s = iter_FromSlice m yield s"
    by (induction m arbitrary: s) (auto split: prod.splits)
qed

lemma iter_FromMap_list: "iter_FromMap m = iter_FromSlice m"
  by (simp add: iter_FromMap_def fun_eq_iff iter_MapKvs_list)

lemma iter_MapKeys_list: "iter_MapKeys m = iter_FromSlice (map fst m)"
proof (intro ext)
  fix yield s
  show "iter_MapKeys m yield s = iter_FromSlice (map fst m) yield s"
    by (induction m arbitrary: s) (auto split: prod.splits)
qed

lemma iter_MapValues_list: "iter_MapValues m = iter_FromSlice (map snd m)"
proof (intro ext)
  fix yield s
  show "iter_MapValues m yield s = iter_FromSlice (map snd m) yield s"
    by (induction m arbitrary: s) (auto split: prod.splits)
qed

lemma iter_FromSet_list: "iter_FromSet xs = iter_FromSlice xs"
proof (intro ext)
  fix yield s
  show "iter_FromSet xs yield s = iter_FromSlice xs yield s"
    by (induction xs arbitrary: s) (auto split: prod.splits)
qed

definition map2_list :: "('k, 'v1) gomap \<Rightarrow> ('k, 'v2) gomap \<Rightarrow> ('k \<times> 'v1 option \<times> 'v2 option) list" where
  "map2_list m1 m2 = map (\<lambda>(k, v). (k, Some v, map_of m2 k)) m1 @
     map (\<lambda>(k, v). (k, None, Some v)) (filter (\<lambda>(k, _). map_of m1 k = None) m2)"

lemma iter_FromMap2_list: "iter_FromMap2 m1 m2 = iter_FromSlice (map2_list m1 m2)"
proof (intro ext)
  fix yield :: "('a \<times> 'b option \<times> 'c option, 's) Yield" and s
  have "from_map_left m2 m yield s =
      iter_FromSlice (map (\<lambda>(k, v). (k, Some v, map_of m2 k)) m) yield s" for m s
    by (induction m arbitrary: s) (auto split: prod.splits)
  moreover have "from_map_right m1 m yield s = iter_FromSlice
      (map (\<lambda>(k, v). (k, None, Some v)) (filter (\<lambda>(k, _). map_of m1 k = None) m)) yield s" for m s
    by (induction m arbitrary: s) (auto split: prod.splits)
  ultimately show "iter_FromMap2 m1 m2 yield s = iter_FromSlice (map2_list m1 m2) yield s"
    by (auto simp: iter_FromMap2_def map2_list_def iter_append split: prod.splits)
qed

fun zip_list :: "'a list \<Rightarrow> 'b list \<Rightarrow> ('a option \<times> 'b option) list" where
  "zip_list [] rs = map (\<lambda>r. (None, Some r)) rs"
| "zip_list (l # ls) [] = (Some l, None) # zip_list ls []"
| "zip_list (l # ls) (r # rs) = (Some l, Some r) # zip_list ls rs"

lemma iter_Zip_list: "iter_Zip ls rs = iter_FromSlice (zip_list ls rs)"
proof (intro ext)
  fix yield s
  show "iter_Zip ls rs yield s = iter_FromSlice (zip_list ls rs) yield s"
    by (induction ls rs yield s rule: iter_Zip.induct) (auto split: prod.splits)
qed

lemma iter_Map_list: "iter_Map (iter_FromSlice xs) f = iter_FromSlice (map f xs)"
proof (intro ext)
  fix yield s
  show "iter_Map (iter_FromSlice xs) f yield s = iter_FromSlice (map f xs) yield s"
    unfolding iter_Map_def by (induction xs arbitrary: s) (auto split: prod.splits)
qed

lemma iter_FlatMap_list:
  "iter_FlatMap (iter_FromSlice xs) (\<lambda>x. iter_FromSlice (g x)) = iter_FromSlice (concat (map g xs))"
proof (intro ext)
  fix yield s
  show "iter_FlatMap (iter_FromSlice xs) (\<lambda>x. iter_FromSlice (g x)) yield s =
      iter_FromSlice (concat (map g xs)) yield s"
    unfolding iter_FlatMap_def by (induction xs arbitrary: s) (auto simp: iter_append split: prod.splits)
qed

lemma enumerate_from:
  "iter_FromSlice xs (\<lambda>item (s, counter).
        case yield (counter, item) s of (flow, s') \<Rightarrow> (flow, (s', uint64 (counter + 1)))) (s, n) =
     (flow, s', n') \<Longrightarrow> n + length xs \<le> 18446744073709551616 \<Longrightarrow>
   iter_FromSlice (zip [n..<n + length xs] xs) yield s = (flow, s')"
proof (induction xs arbitrary: s n)
  case (Cons x xs)
  obtain fl s1 where y: "yield (n, x) s = (fl, s1)" by fastforce
  show ?case
  proof (cases fl)
    case True
    have "n + length xs < 18446744073709551616" using Cons.prems(2) by simp
    then have "uint64 (n + 1) = n + 1 \<or> xs = []" by (cases xs) (auto simp: uint64_def)
    then show ?thesis
      using Cons.prems Cons.IH[of s1 "n + 1"] y True
      by (auto simp: upt_rec[of n] simp del: upt_Suc)
  qed (use Cons.prems y in \<open>auto simp: upt_rec[of n] simp del: upt_Suc\<close>)
qed simp

lemma iter_Enumerate_list:
  assumes "length xs \<le> 18446744073709551616"
  shows "iter_Enumerate (iter_FromSlice xs) yield s = iter_FromSlice (enumerate 0 xs) yield s"
  using enumerate_from[of xs yield s 0] assms
  by (auto simp: iter_Enumerate_def enumerate_eq_zip split: prod.splits)

lemmas iter_lists = iter_Empty_list iter_Chain_list iter_Repeat_list iter_Range_list
  iter_MapKvs_list iter_FromMap_list iter_MapKeys_list iter_MapValues_list iter_FromSet_list
  iter_FromMap2_list iter_Zip_list iter_Map_list iter_FlatMap_list

section \<open>Consumers of an iterator over a list\<close>

lemma iter_run_total:
  "iter_FromSlice xs (\<lambda>v s. (Continue, f s v)) s = (Continue, foldl f s xs)"
  by (induction xs arbitrary: s) auto

lemma iter_Fold_list [simp]: "iter_Fold (iter_FromSlice xs) s f = foldl f s xs"
  by (simp add: iter_Fold_def iter_run_total)

lemma iter_Any_list [simp]: "iter_Any (iter_FromSlice xs) \<longleftrightarrow> True \<in> set xs"
  by (induction xs) (auto simp: iter_Any_def)

lemma iter_All_list [simp]: "iter_All (iter_FromSlice xs) \<longleftrightarrow> list_all id xs"
  unfolding iter_All_def iter_Map_list iter_Any_list by (induction xs) auto

lemma iter_CollectSlice_list [simp]: "iter_CollectSlice (iter_FromSlice xs) = xs"
proof -
  have "foldl (\<lambda>out v. out @ [v]) acc xs = acc @ xs" for acc
    by (induction xs arbitrary: acc) auto
  then show ?thesis by (simp add: iter_CollectSlice_def iter_run_total)
qed

lemma iter_Count_list [simp]: "iter_Count (iter_FromSlice xs) = uint64 (length xs)"
proof -
  have "foldl (\<lambda>out _. uint64 (out + 1)) (uint64 n) xs = uint64 (n + length xs)" for n
  proof (induction xs arbitrary: n)
    case (Cons x xs)
    have "uint64 (uint64 n + 1) = uint64 (n + 1)" by (simp add: uint64_def mod_Suc_eq)
    with Cons.IH[of "n + 1"] show ?case by simp
  qed simp
  from this[of 0] show ?thesis by (simp add: iter_Count_def iter_run_total uint64_def)
qed

lemma iter_CollectSet_acc:
  "set (foldl (\<lambda>s v. set_Insert v s) acc xs) = set acc \<union> set xs"
  "distinct acc \<Longrightarrow> distinct (foldl (\<lambda>s v. set_Insert v s) acc xs)"
  by (induction xs arbitrary: acc) (auto simp: set_Insert_def)

lemma iter_CollectSet_list [simp]: "set (iter_CollectSet (iter_FromSlice xs)) = set xs"
  by (simp add: iter_CollectSet_def iter_run_total iter_CollectSet_acc)

lemma iter_CollectMap_list:
  "iter_CollectMap (iter_FromSlice kvs) = foldl (\<lambda>m (k, v). map_put k v m) [] kvs"
proof -
  have *: "(\<lambda>(k, v) output. (Continue, map_put k v output)) =
      (\<lambda>p output. (Continue, (\<lambda>m (k, v). map_put k v m) output p))"
    by (simp add: fun_eq_iff)
  show ?thesis unfolding iter_CollectMap_def * iter_run_total by simp
qed

lemma collect_map_acc:
  "map_of (foldl (\<lambda>m (k, v). map_put k v m) acc kvs) = map_of acc ++ map_of (rev kvs)"
  by (induction kvs arbitrary: acc) (auto simp: map_add_upd_left split: prod.splits)

lemma iter_FirstSome_list [simp]:
  "iter_FirstSome (iter_FromSlice xs) = (case filter (\<lambda>x. x \<noteq> None) xs of [] \<Rightarrow> None | x # _ \<Rightarrow> x)"
  by (induction xs) (auto simp: iter_FirstSome_def)

lemma iter_Sum_list: "iter_Sum wrap (iter_FromSlice xs) = foldl (\<lambda>a x. wrap (a + x)) 0 xs"
  by (simp add: iter_Sum_def)

text \<open>The loop a caller of \<open>TryForEach\<close> expects: stop at the first error.\<close>

fun try_each :: "('a \<Rightarrow> 's \<Rightarrow> 'e option \<times> 's) \<Rightarrow> 'a list \<Rightarrow> 's \<Rightarrow> 'e option \<times> 's" where
  "try_each f [] s = (None, s)"
| "try_each f (x # xs) s =
     (case f x s of (err, s') \<Rightarrow> if err \<noteq> None then (err, s') else try_each f xs s')"

lemma iter_TryForEach_list [simp]:
  "iter_TryForEach (iter_FromSlice xs) f s = try_each f xs s"
  unfolding iter_TryForEach_def
  by (induction xs arbitrary: s) (auto split: prod.splits)

section \<open>\<open>Filter\<close> and what is built on it\<close>

lemma iter_Filter_total:
  assumes "\<And>x s. fst (yield x s)"
  shows "iter_Filter (iter_FromSlice xs) p yield s = iter_FromSlice (filter p xs) yield s"
  unfolding iter_Filter_def
proof (induction xs arbitrary: s)
  case (Cons x xs)
  then show ?case using assms[of x s] by (auto split: prod.splits)
qed simp

lemma iter_Filter_run:
  "iter_Filter (iter_FromSlice xs) p yield s =
     (Continue, foldl (\<lambda>s x. snd (yield x s)) s (filter p xs))"
  unfolding iter_Filter_def by (induction xs arbitrary: s) (auto split: prod.splits)

lemma iter_CollectSlice_Filter [simp]:
  "iter_CollectSlice (iter_Filter (iter_FromSlice xs) p) = filter p xs"
  by (simp add: iter_CollectSlice_def iter_Filter_total)
    (simp flip: iter_CollectSlice_def)

fun dedup_from :: "'a list \<Rightarrow> 'a list \<Rightarrow> 'a list" where
  "dedup_from seen [] = []"
| "dedup_from seen (x # xs) =
     (if x \<in> set seen then dedup_from seen xs else x # dedup_from (x # seen) xs)"

lemma dedup_from_set: "set (dedup_from seen xs) = set xs - set seen"
  by (induction seen xs rule: dedup_from.induct) auto

lemma dedup_from_distinct: "distinct (dedup_from seen xs)"
  by (induction seen xs rule: dedup_from.induct) (auto simp: dedup_from_set)

lemma iter_Deduplicate_run:
  "iter_Deduplicate (iter_FromSlice xs) yield (s, seen) =
     (Continue, (foldl (\<lambda>s x. snd (yield x s)) s (dedup_from seen xs), rev (dedup_from seen xs) @ seen))"
  unfolding iter_Deduplicate_def
  by (induction xs arbitrary: s seen) auto

section \<open>Properties\<close>

text \<open>The sources and adapters other than \<open>Filter\<close> are faithful to the list
  they stand for under every yield function, also one that breaks: mapping, flattening and
  chaining iterators push exactly the mapped, flattened and chained items and stop at the
  first break; \<open>FromMap2\<close> pushes each key of either map once when the maps have
  distinct keys, and collecting pairs into a map keeps the last value of each key.\<close>

theorem iterators_push_lists:
  fixes xs :: "'a list" and f :: "'a \<Rightarrow> 'b" and g :: "'a \<Rightarrow> 'b list" and yield :: "('b, 's) Yield"
    and m1 :: "('k, 'v) gomap" and m2 :: "('k, 'w) gomap"
  assumes "map_ok m1" "map_ok m2"
  shows "iter_Map (iter_FromSlice xs) f yield s = iter_FromSlice (map f xs) yield s
    \<and> iter_FlatMap (iter_FromSlice xs) (\<lambda>x. iter_FromSlice (g x)) yield s =
        iter_FromSlice (concat (map g xs)) yield s
    \<and> iter_Chain (map iter_FromSlice (map g xs)) yield s = iter_FromSlice (concat (map g xs)) yield s
    \<and> distinct (map fst (iter_CollectSlice (iter_FromMap2 m1 m2)))
    \<and> (\<forall>k a b. (k, a, b) \<in> set (iter_CollectSlice (iter_FromMap2 m1 m2)) \<longleftrightarrow>
          a = map_of m1 k \<and> b = map_of m2 k \<and> (a \<noteq> None \<or> b \<noteq> None))
    \<and> map_of (iter_CollectMap (iter_FromSlice kvs)) = map_of (rev kvs)"
proof -
  have keys: "map fst (map2_list m1 m2) = map fst m1 @ filter (\<lambda>k. map_of m1 k = None) (map fst m2)"
    by (induction m2) (auto simp: map2_list_def case_prod_beta filter_map o_def)
  have "distinct (map fst (map2_list m1 m2))"
    using assms unfolding keys map_ok_def by (auto simp: map_of_eq_None_iff)
  moreover have "(k, a, b) \<in> set (map2_list m1 m2) \<longleftrightarrow>
      a = map_of m1 k \<and> b = map_of m2 k \<and> (a \<noteq> None \<or> b \<noteq> None)" for k a b
  proof -
    have "(k, a, b) \<in> set (map2_list m1 m2) \<longleftrightarrow>
        (\<exists>v. (k, v) \<in> set m1 \<and> a = Some v \<and> b = map_of m2 k) \<or>
        (\<exists>v. (k, v) \<in> set m2 \<and> map_of m1 k = None \<and> a = None \<and> b = Some v)"
      by (force simp: map2_list_def)
    then show ?thesis unfolding map_ok_mem[OF assms(1)] map_ok_mem[OF assms(2)] by auto
  qed
  ultimately show ?thesis
    by (simp add: iter_lists iter_CollectMap_list collect_map_acc del: map_map)
qed

text \<open>The theorem at two maps with one key in common.\<close>

theorem iterators_push_lists_witness:
  "map_ok [(1::nat, True)] \<and> map_ok [(1::nat, ''x''), (2, ''y'')] \<and>
   (2, None, Some ''y'') \<in> set (iter_CollectSlice (iter_FromMap2 [(1::nat, True)] [(1, ''x''), (2, ''y'')]))"
proof -
  have ok: "map_ok [(1::nat, True)]" "map_ok [(1::nat, ''x''), (2, ''y'')]" by simp_all
  have "(2, None, Some ''y'') \<in> set (iter_CollectSlice (iter_FromMap2 [(1::nat, True)] [(1, ''x''), (2, ''y'')]))"
    by (subst iterators_push_lists[OF ok, THEN conjunct2, THEN conjunct2, THEN conjunct2,
        THEN conjunct2, THEN conjunct1, rule_format]) simp
  then show ?thesis using ok by simp
qed

lemma TryForEach_Filter_foldl:
  "iter_TryForEach (iter_Filter (iter_FromSlice xs) p) eachFn s =
     foldl (\<lambda>(_, s) x. eachFn x s) (None, s) (filter p xs)"
proof -
  have "(\<lambda>st x. snd (case st of (err, s) \<Rightarrow> case eachFn x s of (err', s') \<Rightarrow>
          if err' \<noteq> None then (Break, (err', s')) else (Continue, (err', s')))) =
        (\<lambda>(_, s) x. eachFn x s)"
    by (auto simp: fun_eq_iff split: prod.splits)
  then show ?thesis
    unfolding iter_TryForEach_def iter_Filter_run snd_conv by (rule arg_cong)
qed

text \<open>\<open>TryForEach\<close> over a slice stops at the first error and returns it; over
  a filtered iterator it calls the function for every remaining item although an earlier one
  failed, and returns what the last call returned, so that an error is lost when a later item
  succeeds: \<open>Filter\<close> drops the break of the function it feeds.\<close>

theorem TryForEach_over_Filter:
  "iter_TryForEach (iter_FromSlice xs) eachFn s = try_each eachFn xs s
   \<and> iter_TryForEach (iter_Filter (iter_FromSlice xs) p) eachFn s =
       foldl (\<lambda>(_, s) x. eachFn x s) (None, s) (filter p xs)"
  by (simp add: TryForEach_Filter_foldl)

text \<open>\<open>Deduplicate\<close> pushes each value once, in the order of the first
  occurrences; since the set of values seen belongs to the iterator and not to one run of it, a
  second run pushes nothing.\<close>

theorem Deduplicate_once:
  assumes "iter_Deduplicate (iter_FromSlice xs) (\<lambda>v out. (Continue, out @ [v])) ([], []) = (flow, (out, seen))"
  shows "distinct out \<and> set out = set xs \<and>
    iter_Deduplicate (iter_FromSlice xs) (\<lambda>v out. (Continue, out @ [v])) ([], seen) = (Continue, ([], seen))"
proof -
  have app: "foldl (\<lambda>s x. s @ [x]) acc ys = acc @ ys" for acc ys :: "'a list"
    by (induction ys arbitrary: acc) auto
  have out: "out = dedup_from [] xs" "seen = rev (dedup_from [] xs)"
    using assms by (auto simp: iter_Deduplicate_run app)
  then have "set seen = set xs" by (simp add: dedup_from_set)
  then have "set (dedup_from seen xs) = {}" by (simp add: dedup_from_set)
  then have "dedup_from seen xs = []" by simp
  then show ?thesis
    using out by (simp add: iter_Deduplicate_run dedup_from_set dedup_from_distinct)
qed

text \<open>The theorem at a slice with a repeated item.\<close>

theorem Deduplicate_once_witness:
  "iter_Deduplicate (iter_FromSlice [1, 2, 1::nat]) (\<lambda>v out. (Continue, out @ [v])) ([], []) =
     (Continue, ([1, 2], [2, 1]))
   \<and> distinct [1, 2::nat]"
proof -
  have run: "iter_Deduplicate (iter_FromSlice [1, 2, 1::nat]) (\<lambda>v out. (Continue, out @ [v])) ([], []) =
     (Continue, ([1, 2], [2, 1]))" by (simp add: iter_Deduplicate_def)
  show ?thesis using Deduplicate_once[OF run] run by simp
qed

end
