(* ===== verification/LabelCanonical.thy ===== *)
theory LabelCanonical
  imports Iter Slices Apis
begin

text \<open>
  Label sets and label selectors in the canonical, sorted form of
  \<open>util/labelindex/canonical\<close>, with the sorting helpers of \<open>util/sort\<close> and
  the multimap of \<open>util/labelindex/mm\<close>. \<open>selects\<close> is the meaning of a
  Kubernetes label selector; the main property is that the merge of the sorted lists computes
  it.
\<close>

section \<open>Sorting by key and the left join of two sorted slices\<close>

text \<open>\<open>sort.SliceStable\<close> with the comparison of the keys.\<close>

definition ByKey :: "('a \<Rightarrow> 'k::linorder) \<Rightarrow> 'a list \<Rightarrow> 'a list" where
  "ByKey keyFn slice = sort_key keyFn slice"

fun shift_right :: "('b \<Rightarrow> 'k::linorder) \<Rightarrow> 'k \<Rightarrow> 'b list \<Rightarrow> 'b list \<times> 'b option" where
  "shift_right rightKeyFn leftKey [] = ([], None)"
| "shift_right rightKeyFn leftKey (r # rightSlice) =
     (if rightKeyFn r < leftKey then shift_right rightKeyFn leftKey rightSlice
      else (r # rightSlice, if rightKeyFn r = leftKey then Some r else None))"

fun LeftZip :: "('a \<Rightarrow> 'k::linorder) \<Rightarrow> ('b \<Rightarrow> 'k) \<Rightarrow> 'a list \<Rightarrow> 'b list \<Rightarrow>
    ('a \<times> 'b option, 's) Iter" where
  "LeftZip leftKeyFn rightKeyFn [] rightSlice yield s = (Continue, s)"
| "LeftZip leftKeyFn rightKeyFn (leftItem # leftSlice) rightSlice yield s =
     (case shift_right rightKeyFn (leftKeyFn leftItem) rightSlice of (rightSlice', rightItem) \<Rightarrow>
      case yield (leftItem, rightItem) s of (flow, s') \<Rightarrow>
        if \<not> flow then (Break, s')
        else LeftZip leftKeyFn rightKeyFn leftSlice rightSlice' yield s')"

lemma shift_right_find:
  assumes "sorted (map key rs)"
  shows "snd (shift_right key k rs) = List.find (\<lambda>r. key r = k) rs
    \<and> (\<forall>k' \<ge> k. List.find (\<lambda>r. key r = k') (fst (shift_right key k rs)) = List.find (\<lambda>r. key r = k') rs)
    \<and> sorted (map key (fst (shift_right key k rs)))"
  using assms
proof (induction rs)
  case (Cons r rs)
  show ?case
  proof (cases "key r < k")
    case True
    then show ?thesis using Cons by auto
  next
    case False
    then have "key r \<noteq> k \<Longrightarrow> List.find (\<lambda>r. key r = k) rs = None"
      using Cons.prems by (auto simp: find_None_iff)
    then show ?thesis using False Cons.prems by auto
  qed
qed simp

lemma LeftZip_list:
  assumes "sorted (map lk ls)" "sorted (map rk rs)"
  shows "LeftZip lk rk ls rs yield s =
    iter_FromSlice (map (\<lambda>l. (l, List.find (\<lambda>r. rk r = lk l) rs)) ls) yield s"
  using assms
proof (induction ls arbitrary: rs s)
  case (Cons l ls)
  note sr = shift_right_find[OF Cons.prems(2), of "lk l"]
  obtain rs' ri where eq: "shift_right rk (lk l) rs = (rs', ri)" by fastforce
  have ge: "\<forall>x \<in> set ls. lk l \<le> lk x" using Cons.prems(1) by auto
  have same: "map (\<lambda>x. (x, List.find (\<lambda>r. rk r = lk x) rs')) ls = map (\<lambda>x. (x, List.find (\<lambda>r. rk r = lk x) rs)) ls"
    using sr ge by (auto simp: eq)
  have "LeftZip lk rk ls rs' yield s' =
      iter_FromSlice (map (\<lambda>x. (x, List.find (\<lambda>r. rk r = lk x) rs)) ls) yield s'" for s'
    unfolding same[symmetric] using Cons.IH[of rs'] Cons.prems(1) sr by (simp add: eq)
  then show ?case using sr by (auto simp: eq split: prod.splits)
qed simp

section \<open>Canonical label sets\<close>

record KvPair =
  Key :: string
  Value :: string

type_synonym LabelSet = "KvPair list"

definition CreateSet :: "(string, string) gomap \<Rightarrow> LabelSet" where
  "CreateSet rawSet = ByKey Key (map (\<lambda>(key, value). \<lparr>Key = key, Value = value\<rparr>) rawSet)"

lemma CreateSet_sorted [simp]: "sorted (map Key (CreateSet rawSet))"
  by (simp add: CreateSet_def ByKey_def)

lemma CreateSet_distinct [simp]:
  assumes "map_ok rawSet" shows "distinct (map Key (CreateSet rawSet))"
proof -
  have "map Key (map (\<lambda>(k, v). \<lparr>Key = k, Value = v\<rparr>) rawSet) = map fst rawSet"
    by (induction rawSet) auto
  then have "distinct (map Key (map (\<lambda>(k, v). \<lparr>Key = k, Value = v\<rparr>) rawSet))"
    using assms unfolding map_ok_def by (simp only:)
  moreover have "mset (map Key (CreateSet rawSet)) =
      mset (map Key (map (\<lambda>(k, v). \<lparr>Key = k, Value = v\<rparr>) rawSet))"
    by (simp add: CreateSet_def ByKey_def del: map_map)
  ultimately show ?thesis by (metis mset_eq_imp_distinct_iff)
qed

lemma CreateSet_set: "p \<in> set (CreateSet rawSet) \<longleftrightarrow> (Key p, Value p) \<in> set rawSet"
  by (force simp: CreateSet_def ByKey_def)

lemma CreateSet_find:
  assumes "map_ok rawSet"
  shows "List.find (\<lambda>p. Key p = k) (CreateSet rawSet) =
    map_option (\<lambda>v. \<lparr>Key = k, Value = v\<rparr>) (map_of rawSet k)"
proof (cases "List.find (\<lambda>p. Key p = k) (CreateSet rawSet)")
  case None
  then have "\<forall>p \<in> set (CreateSet rawSet). Key p \<noteq> k" by (simp add: find_None_iff)
  then have "map_of rawSet k = None"
    using CreateSet_set[of "\<lparr>Key = k, Value = v\<rparr>" rawSet for v]
    by (force simp: map_of_eq_None_iff)
  with None show ?thesis by simp
next
  case (Some p)
  then have "p \<in> set (CreateSet rawSet)" "Key p = k"
    by (auto simp: find_Some_iff)
  then show ?thesis using Some assms by (auto simp: CreateSet_set map_ok_mem)
qed

section \<open>Canonical selectors\<close>

record KeyInReqmt =
  InKey :: string
  InValues :: "string list"

record KeyExistReqmt =
  ExistKey :: string

record KeyNotInReqmt =
  NotInKey :: string
  NotInValues :: "string list"

record KeyNotExistReqmt =
  NotExistKey :: string

record Selector =
  KeyIn :: "KeyInReqmt list"
  KeyExist :: "KeyExistReqmt list"
  KeyNotIn :: "KeyNotInReqmt list"
  KeyNotExist :: "KeyNotExistReqmt list"

definition Matches :: "Selector \<Rightarrow> LabelSet \<Rightarrow> bool" where
  "Matches selector labels \<longleftrightarrow> iter_All (iter_Chain [
     iter_Map (LeftZip InKey Key (KeyIn selector) labels)
       (\<lambda>(l, r). case r of Some pair \<Rightarrow> SliceContains (InValues l) (Value pair) | None \<Rightarrow> False),
     iter_Map (LeftZip NotInKey Key (KeyNotIn selector) labels)
       (\<lambda>(l, r). case r of Some pair \<Rightarrow> \<not> SliceContains (NotInValues l) (Value pair) | None \<Rightarrow> True),
     iter_Map (LeftZip ExistKey Key (KeyExist selector) labels) (\<lambda>(l, r). r \<noteq> None),
     iter_Map (LeftZip NotExistKey Key (KeyNotExist selector) labels) (\<lambda>(l, r). \<not> r \<noteq> None)])"

definition zero_selector :: Selector where
  "zero_selector = \<lparr>KeyIn = [], KeyExist = [], KeyNotIn = [], KeyNotExist = []\<rparr>"

text \<open>The verb \<open>%q\<close> on a string without characters to escape.\<close>

definition quoted :: "string \<Rightarrow> string" where
  "quoted s = [CHR 0x22] @ s @ [CHR 0x22]"

definition addSelectorExprToSelector ::
    "Selector \<Rightarrow> LabelSelectorRequirement \<Rightarrow> go_error + Selector" where
  "addSelectorExprToSelector selector expr =
     (if ReqOperator expr = ''In'' then
        Inr (selector\<lparr>KeyIn := KeyIn selector @ [\<lparr>InKey = ReqKey expr, InValues = ReqValues expr\<rparr>]\<rparr>)
      else if ReqOperator expr = ''NotIn'' then
        Inr (selector\<lparr>KeyNotIn := KeyNotIn selector @
          [\<lparr>NotInKey = ReqKey expr, NotInValues = ReqValues expr\<rparr>]\<rparr>)
      else if ReqOperator expr = ''Exists'' then
        Inr (selector\<lparr>KeyExist := KeyExist selector @ [\<lparr>ExistKey = ReqKey expr\<rparr>]\<rparr>)
      else if ReqOperator expr = ''DoesNotExist'' then
        Inr (selector\<lparr>KeyNotExist := KeyNotExist selector @ [\<lparr>NotExistKey = ReqKey expr\<rparr>]\<rparr>)
      else Inl (TagErrorf ''UnknownSelectorOperator''
        (''unsupported selector operator '' @ quoted (ReqOperator expr))))"

fun add_exprs :: "Selector \<Rightarrow> LabelSelectorRequirement list \<Rightarrow> go_error + Selector" where
  "add_exprs selector [] = Inr selector"
| "add_exprs selector (expr # exprs) =
     (case addSelectorExprToSelector selector expr of
        Inl err \<Rightarrow> Inl err
      | Inr selector' \<Rightarrow> add_exprs selector' exprs)"

definition sort_selector :: "Selector \<Rightarrow> Selector" where
  "sort_selector s =
     \<lparr>KeyIn = ByKey InKey (KeyIn s), KeyExist = ByKey ExistKey (KeyExist s),
      KeyNotIn = ByKey NotInKey (KeyNotIn s), KeyNotExist = ByKey NotExistKey (KeyNotExist s)\<rparr>"

definition CreateSelector :: "LabelSelector \<Rightarrow> go_error + Selector" where
  "CreateSelector stringSelector =
     (let selector = zero_selector\<lparr>KeyIn :=
            map (\<lambda>(key, value). \<lparr>InKey = key, InValues = [value]\<rparr>) (MatchLabels stringSelector)\<rparr>
      in case add_exprs selector (MatchExpressions stringSelector) of
           Inl err \<Rightarrow> Inl err
         | Inr selector' \<Rightarrow> Inr (sort_selector selector'))"

section \<open>The stores\<close>

record 'n SelectorStore =
  selectors :: "('n, Selector) gomap"

definition NewSelectorStore :: "'n SelectorStore" where
  "NewSelectorStore = \<lparr>selectors = []\<rparr>"

record InsertResult =
  InsSelector :: Selector
  InsExistedBefore :: bool

definition SelectorStore_Insert :: "'n SelectorStore \<Rightarrow> 'n \<Rightarrow> LabelSelector \<Rightarrow>
    (go_error + InsertResult) \<times> 'n SelectorStore" where
  "SelectorStore_Insert store name stringSelector =
     (case CreateSelector stringSelector of
        Inl err \<Rightarrow> (Inl err, store)
      | Inr selector \<Rightarrow>
          (Inr \<lparr>InsSelector = selector, InsExistedBefore = (map_of (selectors store) name \<noteq> None)\<rparr>,
           store\<lparr>selectors := map_put name selector (selectors store)\<rparr>))"

definition SelectorStore_Remove :: "'n SelectorStore \<Rightarrow> 'n \<Rightarrow> Selector option \<times> 'n SelectorStore" where
  "SelectorStore_Remove store name =
     (case map_of (selectors store) name of
        None \<Rightarrow> (None, store)
      | Some selector \<Rightarrow> (Some selector, store\<lparr>selectors := map_del name (selectors store)\<rparr>))"

definition SelectorStore_Get :: "'n SelectorStore \<Rightarrow> 'n \<Rightarrow> Selector option" where
  "SelectorStore_Get store name = map_of (selectors store) name"

definition SelectorStore_Len :: "'n SelectorStore \<Rightarrow> int" where
  "SelectorStore_Len store = int (length (selectors store))"

definition SelectorStore_Iter :: "'n SelectorStore \<Rightarrow> ('n \<times> Selector, 's) Iter" where
  "SelectorStore_Iter store = iter_MapKvs (selectors store)"

record 'n SetStore =
  sets :: "('n, LabelSet) gomap"

definition NewSetStore :: "'n SetStore" where
  "NewSetStore = \<lparr>sets = []\<rparr>"

definition SetStore_Insert :: "'n SetStore \<Rightarrow> 'n \<Rightarrow> (string, string) gomap \<Rightarrow>
    (LabelSet \<times> bool) \<times> 'n SetStore" where
  "SetStore_Insert store name stringMap =
     ((CreateSet stringMap, map_of (sets store) name \<noteq> None),
      store\<lparr>sets := map_put name (CreateSet stringMap) (sets store)\<rparr>)"

definition SetStore_Remove :: "'n SetStore \<Rightarrow> 'n \<Rightarrow> (LabelSet \<times> bool) \<times> 'n SetStore" where
  "SetStore_Remove store name =
     (case map_of (sets store) name of
        None \<Rightarrow> (([], False), store)
      | Some labels \<Rightarrow> ((labels, True), store\<lparr>sets := map_del name (sets store)\<rparr>))"

definition SetStore_Get :: "'n SetStore \<Rightarrow> 'n \<Rightarrow> LabelSet option" where
  "SetStore_Get store name = map_of (sets store) name"

definition SetStore_Len :: "'n SetStore \<Rightarrow> int" where
  "SetStore_Len store = int (length (sets store))"

definition SetStore_Iter :: "'n SetStore \<Rightarrow> ('n \<times> LabelSet, 's) Iter" where
  "SetStore_Iter store = iter_MapKvs (sets store)"

section \<open>Multimaps\<close>

text \<open>A \<open>sets.Set\<close> is a list without repetitions.\<close>

type_synonym ('k, 'v) MultiMap = "('k, 'v list) gomap"

definition mm_Insert :: "('k, 'v) MultiMap \<Rightarrow> 'k \<Rightarrow> 'v \<Rightarrow> bool \<times> ('k, 'v) MultiMap" where
  "mm_Insert mm key v =
     (let vs = (case map_of mm key of Some vs \<Rightarrow> vs | None \<Rightarrow> [])
      in (v \<in> set vs, map_put key (set_Insert v vs) mm))"

definition mm_Remove :: "('k, 'v) MultiMap \<Rightarrow> 'k \<Rightarrow> 'v \<Rightarrow> bool \<times> ('k, 'v) MultiMap" where
  "mm_Remove mm key v =
     (case map_of mm key of
        None \<Rightarrow> (False, mm)
      | Some vs \<Rightarrow>
          if v \<notin> set vs then (False, mm)
          else (let vs' = filter (\<lambda>x. x \<noteq> v) vs
                in (True, if vs' = [] then map_del key mm else map_put key vs' mm)))"

text \<open>The set of a key, empty for an absent key as in Go.\<close>

definition mm_get :: "('k, 'v) MultiMap \<Rightarrow> 'k \<Rightarrow> 'v list" where
  "mm_get mm key = (case map_of mm key of Some vs \<Rightarrow> vs | None \<Rightarrow> [])"

definition mm_ok :: "('k, 'v) MultiMap \<Rightarrow> bool" where
  "mm_ok mm \<longleftrightarrow> map_ok mm \<and> (\<forall>vs \<in> ran (map_of mm). vs \<noteq> [] \<and> distinct vs)"

lemma mm_Insert_result [simp]: "fst (mm_Insert mm k v) \<longleftrightarrow> v \<in> set (mm_get mm k)"
  by (simp add: mm_Insert_def mm_get_def Let_def)

lemma mm_Insert_get: "mm_get (snd (mm_Insert mm k v)) k' =
    (if k' = k then set_Insert v (mm_get mm k) else mm_get mm k')"
  by (simp add: mm_Insert_def mm_get_def Let_def)

lemma mm_Remove_result [simp]: "fst (mm_Remove mm k v) \<longleftrightarrow> v \<in> set (mm_get mm k)"
  by (simp add: mm_Remove_def mm_get_def Let_def split: option.splits)

lemma mm_Remove_get: "mm_get (snd (mm_Remove mm k v)) k' =
    (if k' = k then filter (\<lambda>x. x \<noteq> v) (mm_get mm k) else mm_get mm k')"
proof (cases "v \<in> set (mm_get mm k)")
  case False
  then have "filter (\<lambda>x. x \<noteq> v) (mm_get mm k) = mm_get mm k" by (auto simp: filter_id_conv)
  moreover have "snd (mm_Remove mm k v) = mm"
    using False by (auto simp: mm_Remove_def mm_get_def split: option.splits)
  ultimately show ?thesis by simp
qed (auto simp: mm_Remove_def mm_get_def Let_def split: option.splits)

section \<open>Properties\<close>

text \<open>The meaning of a Kubernetes label selector: every requirement holds of the label
  map.\<close>

definition expr_holds :: "LabelSelectorRequirement \<Rightarrow> (string \<rightharpoonup> string) \<Rightarrow> bool" where
  "expr_holds expr labels \<longleftrightarrow>
     (if ReqOperator expr = ''In'' then \<exists>v \<in> set (ReqValues expr). labels (ReqKey expr) = Some v
      else if ReqOperator expr = ''NotIn'' then \<forall>v \<in> set (ReqValues expr). labels (ReqKey expr) \<noteq> Some v
      else if ReqOperator expr = ''Exists'' then labels (ReqKey expr) \<noteq> None
      else if ReqOperator expr = ''DoesNotExist'' then labels (ReqKey expr) = None
      else False)"

definition selects :: "LabelSelector \<Rightarrow> (string \<rightharpoonup> string) \<Rightarrow> bool" where
  "selects sel labels \<longleftrightarrow>
     (\<forall>(k, v) \<in> set (MatchLabels sel). labels k = Some v) \<and>
     (\<forall>expr \<in> set (MatchExpressions sel). expr_holds expr labels)"

definition known_operators :: "LabelSelector \<Rightarrow> bool" where
  "known_operators sel \<longleftrightarrow> (\<forall>expr \<in> set (MatchExpressions sel).
     ReqOperator expr \<in> {''In'', ''NotIn'', ''Exists'', ''DoesNotExist''})"

text \<open>What a canonical selector means, list order apart.\<close>

definition selector_holds :: "Selector \<Rightarrow> (string \<rightharpoonup> string) \<Rightarrow> bool" where
  "selector_holds s labels \<longleftrightarrow>
     (\<forall>r \<in> set (KeyIn s). \<exists>v \<in> set (InValues r). labels (InKey r) = Some v)
   \<and> (\<forall>r \<in> set (KeyNotIn s). \<forall>v \<in> set (NotInValues r). labels (NotInKey r) \<noteq> Some v)
   \<and> (\<forall>r \<in> set (KeyExist s). labels (ExistKey r) \<noteq> None)
   \<and> (\<forall>r \<in> set (KeyNotExist s). labels (NotExistKey r) = None)"

definition selector_sorted :: "Selector \<Rightarrow> bool" where
  "selector_sorted s \<longleftrightarrow> sorted (map InKey (KeyIn s)) \<and> sorted (map ExistKey (KeyExist s))
     \<and> sorted (map NotInKey (KeyNotIn s)) \<and> sorted (map NotExistKey (KeyNotExist s))"

lemma add_exprs_holds:
  "add_exprs s exprs = Inr s' \<Longrightarrow>
   selector_holds s' labels \<longleftrightarrow> selector_holds s labels \<and> (\<forall>expr \<in> set exprs. expr_holds expr labels)"
proof (induction exprs arbitrary: s)
  case (Cons expr exprs)
  then obtain s1 where s1: "addSelectorExprToSelector s expr = Inr s1" "add_exprs s1 exprs = Inr s'"
    by (auto split: sum.splits)
  have "selector_holds s1 labels \<longleftrightarrow> selector_holds s labels \<and> expr_holds expr labels"
    using s1(1) by (auto simp: addSelectorExprToSelector_def selector_holds_def expr_holds_def split: if_splits)
  with Cons.IH[OF s1(2)] show ?case by simp
qed simp

lemma add_exprs_fails: "(\<exists>err. add_exprs s exprs = Inl err) \<longleftrightarrow>
    (\<exists>expr \<in> set exprs. ReqOperator expr \<notin> {''In'', ''NotIn'', ''Exists'', ''DoesNotExist''})"
  by (induction exprs arbitrary: s) (auto simp: addSelectorExprToSelector_def)

lemma sort_selector_holds [simp]: "selector_holds (sort_selector s) labels \<longleftrightarrow> selector_holds s labels"
  by (simp add: selector_holds_def sort_selector_def ByKey_def)

lemma sort_selector_sorted [simp]: "selector_sorted (sort_selector s)"
  by (simp add: selector_sorted_def sort_selector_def ByKey_def)

lemma CreateSelector_sorted: "CreateSelector sel = Inr s \<Longrightarrow> selector_sorted s"
  by (auto simp: CreateSelector_def Let_def split: sum.splits)

lemma CreateSelector_holds:
  "CreateSelector sel = Inr s \<Longrightarrow> selector_holds s labels \<longleftrightarrow> selects sel labels"
  by (auto simp: CreateSelector_def Let_def selects_def add_exprs_holds split: sum.splits)
    (auto simp: selector_holds_def zero_selector_def)

lemma CreateSelector_fails: "(\<exists>err. CreateSelector sel = Inl err) \<longleftrightarrow> \<not> known_operators sel"
  using add_exprs_fails[of "zero_selector\<lparr>KeyIn := map (\<lambda>(key, value). \<lparr>InKey = key, InValues = [value]\<rparr>)
      (MatchLabels sel)\<rparr>" "MatchExpressions sel"]
  by (auto simp: CreateSelector_def known_operators_def Let_def split: sum.splits)

lemma Matches_holds:
  assumes "selector_sorted s" "map_ok rawSet"
  shows "Matches s (CreateSet rawSet) \<longleftrightarrow> selector_holds s (map_of rawSet)"
proof -
  have zip: "LeftZip lk Key ls (CreateSet rawSet) = iter_FromSlice
      (map (\<lambda>l. (l, map_option (\<lambda>v. \<lparr>Key = lk l, Value = v\<rparr>) (map_of rawSet (lk l)))) ls)"
    if "sorted (map lk ls)" for ls :: "'x list" and lk
    by (intro ext) (simp add: LeftZip_list[OF that] CreateSet_find[OF assms(2)])
  have chain: "iter_Chain [iter_FromSlice a, iter_FromSlice b, iter_FromSlice c, iter_FromSlice d] =
      iter_FromSlice (a @ b @ c @ d)" for a b c d :: "bool list"
    using iter_Chain_list[of "[a, b, c, d]"] by simp
  have some_iff: "((\<exists>y. x = Some y) \<and> (\<forall>y. x = Some y \<longrightarrow> y \<in> A)) \<longleftrightarrow> (\<exists>v \<in> A. x = Some v)"
    and none_iff: "(\<forall>y. x = Some y \<longrightarrow> y \<notin> A) \<longleftrightarrow> (\<forall>v \<in> A. x \<noteq> Some v)"
    for x :: "string option" and A by auto
  show ?thesis
    using assms(1) unfolding Matches_def selector_sorted_def
    by (simp add: zip iter_Map_list chain)
      (simp add: selector_holds_def list_all_iff some_iff none_iff split: option.splits)
qed

text \<open>C33: A selector is canonicalised unless one of its expressions has an operator other
  than \<open>In\<close>, \<open>NotIn\<close>, \<open>Exists\<close> and \<open>DoesNotExist\<close>; the
  canonical selector matches the canonical form of a label map exactly when the map satisfies
  every requirement of the original selector, whatever the order of the maps, also with
  several requirements on one key.\<close>

theorem Matches_is_selects:
  assumes "map_ok rawSet"
  shows "(case CreateSelector sel of
      Inl _ \<Rightarrow> \<not> known_operators sel
    | Inr s \<Rightarrow> known_operators sel \<and> (Matches s (CreateSet rawSet) \<longleftrightarrow> selects sel (map_of rawSet)))"
  using CreateSelector_fails[of sel] CreateSelector_holds[of sel] CreateSelector_sorted[of sel]
    Matches_holds[OF _ assms]
  by (auto split: sum.splits)

definition sample_labels :: "(string, string) gomap" where
  "sample_labels = [(''tier'', ''web''), (''app'', ''a'')]"

definition sample_selector :: LabelSelector where
  "sample_selector = \<lparr>MatchLabels = [(''app'', ''a'')],
     MatchExpressions = [\<lparr>ReqKey = ''tier'', ReqOperator = ''In'', ReqValues = [''db'', ''web'']\<rparr>,
       \<lparr>ReqKey = ''debug'', ReqOperator = ''DoesNotExist'', ReqValues = []\<rparr>]\<rparr>"

text \<open>The theorem at a selector with labels and expressions.\<close>

theorem Matches_is_selects_witness:
  "map_ok sample_labels \<and>
   (\<exists>s. CreateSelector sample_selector = Inr s \<and> Matches s (CreateSet sample_labels))"
proof -
  have ok: "map_ok sample_labels" by (simp add: sample_labels_def)
  have known: "known_operators sample_selector" "selects sample_selector (map_of sample_labels)"
    by (simp_all add: known_operators_def sample_selector_def selects_def expr_holds_def sample_labels_def)
  show ?thesis
    using Matches_is_selects[OF ok, of sample_selector] known ok by (auto split: sum.splits)
qed

end
