(* ===== verification/SetTrie.thy ===== *)
theory SetTrie
  imports Iter "HOL-Library.Sublist"
begin

text \<open>
  The set trie of \<open>util/labelindex/settrie\<close>: a map from words (sorted slices of
  letters) to data, with the query for all stored words whose letters are a subset of a given
  word, and \<open>Multi\<close>, which stores a map of subkeys at each word. The abstraction of a
  trie is its lookup function \<open>getWordInNode\<close>; every operation is characterised
  by what it does to the lookup.

  In the code the data of \<open>Multi\<close> is a Go map, that is a reference: the callbacks
  that receive a copy of the data (see \<open>GetValueRefOrNil\<close>) mutate the stored map. Here a
  callback returns the data after the call, and threads the variables it captures.
\<close>

section \<open>Words\<close>

type_synonym 'a Word = "'a list"

text \<open>\<open>sort.Slice\<close> is a parameter, as in the other theories.\<close>

definition NewWord :: "'a sorter \<Rightarrow> ('a \<Rightarrow> 'a \<Rightarrow> bool) \<Rightarrow> 'a list \<Rightarrow> 'a Word" where
  "NewWord srt less_fn unsorted = srt less_fn unsorted"

definition EqualsWord :: "'a Word \<Rightarrow> 'a Word \<Rightarrow> bool" where
  "EqualsWord left right = iter_All (iter_Map (iter_Zip left right) (\<lambda>(l, r). l = r))"

definition word_Append :: "'a Word \<Rightarrow> 'a \<Rightarrow> 'a Word" where
  "word_Append word alpha = word @ [alpha]"

definition PopFirst :: "'a Word \<Rightarrow> ('a \<times> 'a Word) option" where
  "PopFirst word = (case word of [] \<Rightarrow> None | a # rest \<Rightarrow> Some (a, rest))"

section \<open>The trie\<close>

datatype ('a, 'd) trieNode = Node (children: "('a \<times> ('a, 'd) trieNode) list") (data: "'d option")

definition newNode :: "('a, 'd) trieNode" where
  "newNode = Node [] None"

definition isGarbageNode :: "('a, 'd) trieNode \<Rightarrow> bool" where
  "isGarbageNode node \<longleftrightarrow> length (children node) = 0 \<and> \<not> data node \<noteq> None"

record ('a, 'd) SetTrie =
  root :: "('a, 'd) trieNode"
  maxDepth :: int

definition trie_New :: "('a, 'd) SetTrie" where
  "trie_New = \<lparr>root = newNode, maxDepth = 0\<rparr>"

text \<open>The child is stored, and deleted again when it is garbage after the edit.\<close>

definition store_child :: "('a, 'd) trieNode \<Rightarrow> 'a \<Rightarrow> ('a, 'd) trieNode \<Rightarrow> ('a, 'd) trieNode" where
  "store_child node alpha child =
     (let kids = map_put alpha child (children node)
      in Node (if isGarbageNode child then map_del alpha kids else kids) (data node))"

text \<open>The recursion pops the letters of the word. The callback threads the state
  \<open>'s\<close> of its closure.\<close>

fun cursorUnderNode :: "('a, 'd) trieNode \<Rightarrow> 'a Word \<Rightarrow> bool \<Rightarrow>
    ('d option \<Rightarrow> 's \<Rightarrow> 'd option \<times> 's) \<Rightarrow> 's \<Rightarrow> ('a, 'd) trieNode \<times> 's" where
  "cursorUnderNode node [] createMissingNodes editNode s =
     (case editNode (data node) s of (d, s') \<Rightarrow> (Node (children node) d, s'))"
| "cursorUnderNode node (alpha # word) createMissingNodes editNode s =
     (case map_of (children node) alpha of
        None \<Rightarrow>
          if \<not> createMissingNodes then (node, s)
          else (case cursorUnderNode newNode word createMissingNodes editNode s of
                  (child, s') \<Rightarrow> (store_child node alpha child, s'))
      | Some child0 \<Rightarrow>
          (case cursorUnderNode child0 word createMissingNodes editNode s of
             (child, s') \<Rightarrow> (store_child node alpha child, s')))"

definition RetainOrDrop :: "('a, 'd) SetTrie \<Rightarrow> 'a Word \<Rightarrow> ('d \<Rightarrow> 's \<Rightarrow> 'd option \<times> 's) \<Rightarrow> 's \<Rightarrow>
    ('a, 'd) SetTrie \<times> 's" where
  "RetainOrDrop trie word process s =
     (case cursorUnderNode (root trie) word True
            (\<lambda>d s. case d of Some x \<Rightarrow> process x s | None \<Rightarrow> (None, s)) s of
        (node, s') \<Rightarrow> (trie\<lparr>root := node\<rparr>, s'))"

definition CreateOrUpdate :: "('a, 'd) SetTrie \<Rightarrow> 'a Word \<Rightarrow> ('s \<Rightarrow> 'd \<times> 's) \<Rightarrow> ('d \<Rightarrow> 's \<Rightarrow> 'd \<times> 's) \<Rightarrow>
    's \<Rightarrow> ('a, 'd) SetTrie \<times> 's" where
  "CreateOrUpdate trie word initNode updateNode s =
     (case cursorUnderNode (root trie) word True
            (\<lambda>d s. case (case d of Some x \<Rightarrow> updateNode x s | None \<Rightarrow> initNode s) of
               (x', s') \<Rightarrow> (Some x', s')) s of
        (node, s') \<Rightarrow> (trie\<lparr>root := node\<rparr>, s'))"

fun getWordInNode :: "('a, 'd) trieNode \<Rightarrow> 'a Word \<Rightarrow> 'd option" where
  "getWordInNode node [] = data node"
| "getWordInNode node (alpha # word) =
     (case map_of (children node) alpha of
        None \<Rightarrow> None
      | Some child \<Rightarrow> getWordInNode child word)"

definition trie_Get :: "('a, 'd) SetTrie \<Rightarrow> 'a Word \<Rightarrow> 'd option" where
  "trie_Get trie word = getWordInNode (root trie) word"

text \<open>The loop over the positions of the word is \<open>subsets_loop\<close>: its argument is
  the rest of the word from the current position.\<close>

fun subsetsInNode :: "('a, 'd) trieNode \<Rightarrow> 'a Word \<Rightarrow> ('a Word \<times> 'd, 's) Yield \<Rightarrow> 'a Word \<Rightarrow> 's \<Rightarrow> Flow \<times> 's"
  and subsets_loop :: "('a, 'd) trieNode \<Rightarrow> 'a Word \<Rightarrow> ('a Word \<times> 'd, 's) Yield \<Rightarrow> 'a Word \<Rightarrow> 's \<Rightarrow> Flow \<times> 's"
where
  "subsetsInNode node word yield pre s =
     (case (case data node of Some d \<Rightarrow> yield (pre, d) s | None \<Rightarrow> (Continue, s)) of (flow, s') \<Rightarrow>
        if \<not> flow then (Break, s')
        else if word = [] then (Continue, s')
        else subsets_loop node word yield pre s')"
| "subsets_loop node [] yield pre s = (Continue, s)"
| "subsets_loop node (childAlpha # rest) yield pre s =
     (case map_of (children node) childAlpha of
        None \<Rightarrow> subsets_loop node rest yield pre s
      | Some child \<Rightarrow>
          (case subsetsInNode child rest yield (word_Append pre childAlpha) s of (flow, s') \<Rightarrow>
             if \<not> flow then (Break, s') else subsets_loop node rest yield pre s'))"

definition trie_Subsets :: "('a, 'd) SetTrie \<Rightarrow> 'a Word \<Rightarrow> ('a Word \<times> 'd, 's) Iter" where
  "trie_Subsets trie word yield s = subsetsInNode (root trie) word yield [] s"

section \<open>Several subkeys at each word\<close>

record ('a, 'k, 'd) Multi =
  multi_trie :: "('a, ('k, 'd) gomap) SetTrie"

definition NewMulti :: "('a, 'k, 'd) Multi" where
  "NewMulti = \<lparr>multi_trie = trie_New\<rparr>"

text \<open>The state threaded through the callbacks is the variable \<open>output\<close>, which
  starts as \<open>false\<close>.\<close>

definition Multi_Insert :: "('a, 'k, 'd) Multi \<Rightarrow> 'a Word \<Rightarrow> 'k \<Rightarrow> 'd \<Rightarrow> bool \<times> ('a, 'k, 'd) Multi" where
  "Multi_Insert multi word subkey d =
     (case CreateOrUpdate (multi_trie multi) word
             (\<lambda>output. ([(subkey, d)], False))
             (\<lambda>m output. (map_put subkey d m, map_of m subkey \<noteq> None))
             False of
        (trie, output) \<Rightarrow> (output, multi\<lparr>multi_trie := trie\<rparr>))"

definition Multi_Remove :: "('a, 'k, 'd) Multi \<Rightarrow> 'a Word \<Rightarrow> 'k \<Rightarrow> bool \<times> ('a, 'k, 'd) Multi" where
  "Multi_Remove multi word subkey =
     (case RetainOrDrop (multi_trie multi) word
             (\<lambda>m output. let m' = map_del subkey m
                in (if length m' = 0 then None else Some m', map_of m subkey \<noteq> None))
             False of
        (trie, output) \<Rightarrow> (output, multi\<lparr>multi_trie := trie\<rparr>))"

definition Multi_Subsets :: "('a, 'k, 'd) Multi \<Rightarrow> 'a Word \<Rightarrow> ('k \<times> 'd, 's) Iter" where
  "Multi_Subsets multi word =
     iter_FlatMap (trie_Subsets (multi_trie multi) word) (\<lambda>(_, m). iter_MapKvs m)"

section \<open>Lookup after an edit\<close>

lemma getWordInNode_newNode [simp]: "getWordInNode newNode word = None"
  by (cases word) (simp_all add: newNode_def)

lemma getWordInNode_garbage: "isGarbageNode node \<Longrightarrow> getWordInNode node word = None"
  by (cases word) (simp_all add: isGarbageNode_def)

lemma children_newNode [simp]: "children newNode = []" "data newNode = None"
  by (simp_all add: newNode_def)

lemma getWordInNode_store:
  "getWordInNode (store_child node a child) w =
     (case w of [] \<Rightarrow> data node
      | b # v \<Rightarrow> if b = a then getWordInNode child v else getWordInNode node w)"
  by (cases w) (auto simp: store_child_def Let_def getWordInNode_garbage)

lemma cursor_Cons:
  "cursorUnderNode node (a # w) True edit s =
     (case cursorUnderNode (case map_of (children node) a of None \<Rightarrow> newNode | Some c \<Rightarrow> c) w True edit s of
        (child, s') \<Rightarrow> (store_child node a child, s'))"
  by (simp split: option.splits)

lemma child_word: "getWordInNode (case map_of (children node) a of None \<Rightarrow> newNode | Some c \<Rightarrow> c) v =
    getWordInNode node (a # v)"
  by (simp split: option.splits)

lemma cursor_state:
  "snd (cursorUnderNode node w True edit s) = snd (edit (getWordInNode node w) s)"
proof (induction w arbitrary: node)
  case (Cons a w)
  show ?case unfolding cursor_Cons child_word[symmetric] Cons.IH[symmetric] by (simp split: prod.splits)
qed (simp split: prod.splits)

lemma cursor_get:
  "getWordInNode (fst (cursorUnderNode node w True edit s)) w' =
     (if w' = w then fst (edit (getWordInNode node w) s) else getWordInNode node w')"
proof (induction w arbitrary: node w')
  case Nil
  then show ?case by (cases w') (simp_all split: prod.splits)
next
  case (Cons a w)
  let ?child = "case map_of (children node) a of None \<Rightarrow> newNode | Some c \<Rightarrow> c"
  obtain c' s' where c': "cursorUnderNode ?child w True edit s = (c', s')" by fastforce
  have c'_get: "getWordInNode c' v =
      (if v = w then fst (edit (getWordInNode node (a # w)) s) else getWordInNode node (a # v))" for v
    using Cons.IH[of ?child v] unfolding c' child_word fst_conv .
  show ?case
    unfolding cursor_Cons c' prod.case fst_conv getWordInNode_store
    by (cases w') (simp_all del: getWordInNode.simps(2) add: c'_get)
qed

text \<open>Nothing but words is kept: below the root no node is without a word, so a trie from
  which every word has been removed is again the empty one.\<close>

fun trie_ok :: "('a, 'd) trieNode \<Rightarrow> bool" where
  "trie_ok (Node ch d) \<longleftrightarrow> map_ok ch \<and> (\<forall>p \<in> set ch. trie_ok (snd p) \<and> \<not> isGarbageNode (snd p))"

lemma trie_ok_newNode [simp]: "trie_ok newNode"
  by (simp add: newNode_def)

lemma trie_ok_child: "trie_ok node \<Longrightarrow> map_of (children node) a = Some c \<Longrightarrow> trie_ok c \<and> \<not> isGarbageNode c"
  by (cases node) (auto dest!: map_of_SomeD)

lemma in_map_del: "p \<in> set (map_del a m) \<longleftrightarrow> p \<in> set m \<and> fst p \<noteq> a"
  by (auto simp: map_del_def)

lemma in_map_put: "p \<in> set (map_put a c m) \<Longrightarrow> p = (a, c) \<or> p \<in> set m"
  by (induction m) (auto split: if_splits)

lemma trie_ok_store: "trie_ok node \<Longrightarrow> trie_ok c \<Longrightarrow> trie_ok (store_child node a c)"
  by (cases node) (auto simp: store_child_def Let_def in_map_del dest!: in_map_put)

lemma cursor_trie_ok: "trie_ok node \<Longrightarrow> trie_ok (fst (cursorUnderNode node w True edit s))"
proof (induction w arbitrary: node)
  case Nil
  then show ?case by (cases node) (auto split: prod.splits)
next
  case (Cons a w)
  let ?child = "case map_of (children node) a of None \<Rightarrow> newNode | Some c \<Rightarrow> c"
  have "trie_ok ?child" using trie_ok_child[OF Cons.prems] by (simp split: option.splits)
  then have "trie_ok (fst (cursorUnderNode ?child w True edit s))" by (rule Cons.IH)
  with Cons.prems show ?case unfolding cursor_Cons
    by (simp add: case_prod_beta trie_ok_store del: trie_ok.simps)
qed

lemma trie_ok_word: "trie_ok node \<Longrightarrow> \<not> isGarbageNode node \<Longrightarrow> \<exists>w. getWordInNode node w \<noteq> None"
proof (induction node)
  case (Node ch d)
  show ?case
  proof (cases ch)
    case Nil
    then show ?thesis using Node.prems by (intro exI[of _ "[]"]) (simp add: isGarbageNode_def)
  next
    case (Cons p ch')
    obtain a c where p: "p = (a, c)" by fastforce
    then have "\<exists>w. getWordInNode c w \<noteq> None"
      using Node.IH[of p c] Node.prems Cons by (auto simp: snds.intros)
    then obtain w where "getWordInNode c w \<noteq> None" by blast
    then show ?thesis using Cons p by (intro exI[of _ "a # w"]) simp
  qed
qed

lemma trie_ok_empty:
  assumes "trie_ok node" "\<And>w. getWordInNode node w = None" shows "node = newNode"
proof -
  have "isGarbageNode node"
  proof (rule ccontr)
    assume "\<not> isGarbageNode node"
    from trie_ok_word[OF assms(1) this] assms(2) show False by simp
  qed
  then show ?thesis by (cases node) (simp add: isGarbageNode_def newNode_def)
qed

section \<open>The subset query\<close>

fun subsets_list :: "('a, 'd) trieNode \<Rightarrow> 'a Word \<Rightarrow> 'a Word \<Rightarrow> ('a Word \<times> 'd) list"
  and subsets_rest :: "('a, 'd) trieNode \<Rightarrow> 'a Word \<Rightarrow> 'a Word \<Rightarrow> ('a Word \<times> 'd) list" where
  "subsets_list node word pre =
     (case data node of Some d \<Rightarrow> [(pre, d)] | None \<Rightarrow> []) @ subsets_rest node word pre"
| "subsets_rest node [] pre = []"
| "subsets_rest node (a # rest) pre =
     (case map_of (children node) a of None \<Rightarrow> []
      | Some child \<Rightarrow> subsets_list child rest (pre @ [a])) @ subsets_rest node rest pre"

lemma subsets_list_push:
  "subsetsInNode node word yield pre s = iter_FromSlice (subsets_list node word pre) yield s"
  "subsets_loop node word yield pre s = iter_FromSlice (subsets_rest node word pre) yield s"
  by (induction node word yield pre s and node word yield pre s rule: subsetsInNode_subsets_loop.induct)
    (auto simp: iter_append word_Append_def split: option.splits prod.splits)

lemma nonempty_subseq_Cons:
  "v \<noteq> [] \<and> subseq v (a # rest) \<longleftrightarrow>
     (\<exists>v'. v = a # v' \<and> subseq v' rest) \<or> (v \<noteq> [] \<and> subseq v rest)"
  by (cases v) (auto simp: subseq_Cons2_iff dest: subseq_Cons')

lemma subsets_list_set:
  "(w, d) \<in> set (subsets_list node word pre) \<longleftrightarrow>
     (\<exists>v. w = pre @ v \<and> subseq v word \<and> getWordInNode node v = Some d)"
  "(w, d) \<in> set (subsets_rest node word pre) \<longleftrightarrow>
     (\<exists>v. w = pre @ v \<and> v \<noteq> [] \<and> subseq v word \<and> getWordInNode node v = Some d)"
proof (induction node word pre and node word pre rule: subsets_list_subsets_rest.induct)
  case (1 node word pre)
  have "(w, d) \<in> set (subsets_list node word pre) \<longleftrightarrow>
      (w = pre \<and> data node = Some d) \<or> (w, d) \<in> set (subsets_rest node word pre)"
    by (auto split: option.splits)
  then show ?case using 1 by (metis append_Nil2 getWordInNode.simps(1) list_emb_Nil)
next
  case (2 node pre)
  then show ?case by auto
next
  case (3 node a rest pre)
  have rhs: "(w = pre @ v \<and> v \<noteq> [] \<and> subseq v (a # rest) \<and> G) =
      (w = pre @ v \<and> ((\<exists>v'. v = a # v' \<and> subseq v' rest) \<or> (v \<noteq> [] \<and> subseq v rest)) \<and> G)" for v G
    using nonempty_subseq_Cons[of v a rest] by argo
  have "(w, d) \<in> set (subsets_rest node (a # rest) pre) \<longleftrightarrow>
      (\<exists>c v. map_of (children node) a = Some c \<and> w = pre @ a # v \<and> subseq v rest \<and> getWordInNode c v = Some d)
      \<or> (w, d) \<in> set (subsets_rest node rest pre)"
  proof (cases "map_of (children node) a")
    case (Some c)
    show ?thesis using "3.IH"(1)[OF Some] Some by (simp del: subsets_list.simps)
  qed simp
  also have "\<dots> \<longleftrightarrow> (\<exists>v. w = pre @ a # v \<and> subseq v rest \<and> getWordInNode node (a # v) = Some d)
      \<or> (\<exists>v. w = pre @ v \<and> v \<noteq> [] \<and> subseq v rest \<and> getWordInNode node v = Some d)"
    using "3.IH"(2) by (auto split: option.splits)
  also have "\<dots> \<longleftrightarrow> (\<exists>v. w = pre @ v \<and> v \<noteq> [] \<and> subseq v (a # rest) \<and> getWordInNode node v = Some d)"
    unfolding rhs by (auto simp del: getWordInNode.simps(2))
  finally show ?case .
qed

lemma trie_Subsets_list: "trie_Subsets trie word = iter_FromSlice (subsets_list (root trie) word [])"
  by (intro ext) (simp add: trie_Subsets_def subsets_list_push del: subsetsInNode.simps subsets_list.simps)

lemma trie_Subsets_set:
  "(w, d) \<in> set (iter_CollectSlice (trie_Subsets trie word)) \<longleftrightarrow> subseq w word \<and> trie_Get trie w = Some d"
  unfolding trie_Subsets_list iter_CollectSlice_list subsets_list_set trie_Get_def by auto

section \<open>The multimap as a map from words and subkeys\<close>

definition multi_map :: "('a, 'k, 'd) Multi \<Rightarrow> 'a Word \<Rightarrow> 'k \<rightharpoonup> 'd" where
  "multi_map multi w = (case trie_Get (multi_trie multi) w of None \<Rightarrow> Map.empty | Some m \<Rightarrow> map_of m)"

definition multi_ok :: "('a, 'k, 'd) Multi \<Rightarrow> bool" where
  "multi_ok multi \<longleftrightarrow> trie_ok (root (multi_trie multi)) \<and>
     (\<forall>w m. trie_Get (multi_trie multi) w = Some m \<longrightarrow> m \<noteq> [] \<and> map_ok m)"

lemma multi_New [simp]: "multi_ok NewMulti" "multi_map NewMulti w = Map.empty"
  by (simp_all add: multi_ok_def multi_map_def NewMulti_def trie_New_def trie_Get_def)

lemma CreateOrUpdate_get:
  "trie_Get (fst (CreateOrUpdate trie w ini upd s)) w' =
     (if w' = w then Some (fst (case trie_Get trie w of Some x \<Rightarrow> upd x s | None \<Rightarrow> ini s)) else trie_Get trie w')"
  "snd (CreateOrUpdate trie w ini upd s) = snd (case trie_Get trie w of Some x \<Rightarrow> upd x s | None \<Rightarrow> ini s)"
  by (simp_all add: CreateOrUpdate_def trie_Get_def case_prod_beta cursor_get cursor_state)

lemma RetainOrDrop_get:
  "trie_Get (fst (RetainOrDrop trie w process s)) w' =
     (if w' = w then fst (case trie_Get trie w of Some x \<Rightarrow> process x s | None \<Rightarrow> (None, s)) else trie_Get trie w')"
  "snd (RetainOrDrop trie w process s) = snd (case trie_Get trie w of Some x \<Rightarrow> process x s | None \<Rightarrow> (None, s))"
  by (simp_all add: RetainOrDrop_def trie_Get_def case_prod_beta cursor_get cursor_state)

lemma trie_ok_edit:
  assumes "trie_ok (root trie)"
  shows "trie_ok (root (fst (CreateOrUpdate trie w ini upd s)))"
    and "trie_ok (root (fst (RetainOrDrop trie w process s)))"
  using assms by (simp_all add: CreateOrUpdate_def RetainOrDrop_def case_prod_beta cursor_trie_ok)

lemma Multi_Insert_map:
  "fst (Multi_Insert multi w k d) \<longleftrightarrow> multi_map multi w k \<noteq> None"
  "multi_map (snd (Multi_Insert multi w k d)) w' =
     (if w' = w then (multi_map multi w)(k \<mapsto> d) else multi_map multi w')"
  by (auto simp: Multi_Insert_def multi_map_def case_prod_beta CreateOrUpdate_get split: option.splits)

lemma Multi_Insert_ok: "multi_ok multi \<Longrightarrow> multi_ok (snd (Multi_Insert multi w k d))"
proof -
  have "map_put k d m \<noteq> []" for m by (induction m) (auto split: if_splits)
  then show "multi_ok multi \<Longrightarrow> multi_ok (snd (Multi_Insert multi w k d))"
    by (auto simp: Multi_Insert_def multi_ok_def case_prod_beta CreateOrUpdate_get trie_ok_edit
        split: option.splits if_splits)
qed

lemma Multi_Remove_map:
  "fst (Multi_Remove multi w k) \<longleftrightarrow> multi_map multi w k \<noteq> None"
  "multi_map (snd (Multi_Remove multi w k)) w' =
     (if w' = w then (multi_map multi w)(k := None) else multi_map multi w')"
proof -
  show "fst (Multi_Remove multi w k) \<longleftrightarrow> multi_map multi w k \<noteq> None"
    by (auto simp: Multi_Remove_def multi_map_def case_prod_beta RetainOrDrop_get Let_def split: option.splits)
  have "map_del k m = [] \<Longrightarrow> Map.empty = (map_of m)(k := None)" for m :: "('b, 'c) gomap"
    by (simp flip: map_of_map_del)
  then show "multi_map (snd (Multi_Remove multi w k)) w' =
     (if w' = w then (multi_map multi w)(k := None) else multi_map multi w')"
    by (auto simp: Multi_Remove_def multi_map_def case_prod_beta RetainOrDrop_get Let_def split: option.splits)
qed

lemma Multi_Remove_ok: "multi_ok multi \<Longrightarrow> multi_ok (snd (Multi_Remove multi w k))"
  by (auto simp: Multi_Remove_def multi_ok_def case_prod_beta RetainOrDrop_get Let_def trie_ok_edit
      split: option.splits if_splits)

lemma Multi_Subsets_list:
  "Multi_Subsets multi word = iter_FromSlice (concat (map snd (subsets_list (root (multi_trie multi)) word [])))"
proof -
  have fn: "(\<lambda>(_, m). iter_MapKvs m) = (\<lambda>p. iter_FromSlice (snd p))"
    by (simp add: fun_eq_iff iter_MapKvs_list)
  show ?thesis unfolding Multi_Subsets_def trie_Subsets_list fn iter_FlatMap_list by (rule refl)
qed

lemma Multi_Subsets_set:
  assumes "multi_ok multi"
  shows "(k, d) \<in> set (iter_CollectSlice (Multi_Subsets multi word)) \<longleftrightarrow>
    (\<exists>w. subseq w word \<and> multi_map multi w k = Some d)"
proof -
  have "(k, d) \<in> set (iter_CollectSlice (Multi_Subsets multi word)) \<longleftrightarrow>
      (\<exists>w m. subseq w word \<and> trie_Get (multi_trie multi) w = Some m \<and> (k, d) \<in> set m)"
    unfolding Multi_Subsets_list iter_CollectSlice_list
    by (simp only: set_concat set_map UN_iff image_iff bex_simps Bex_def Product_Type.split_paired_Ex
        subsets_list_set trie_Get_def) auto
  also have "\<dots> \<longleftrightarrow> (\<exists>w. subseq w word \<and> multi_map multi w k = Some d)"
    using assms by (fastforce simp: multi_map_def multi_ok_def map_ok_mem split: option.splits)
  finally show ?thesis .
qed

text \<open>C32: The trie is a map from words to maps of subkeys. Starting from any well-formed
  trie, inserting a subkey at a word and removing one change the entry of that word and subkey
  only and report whether it existed; a subset query finds exactly the entries at words that are
  a subsequence of the query (for sorted words: a subset); and when no entry is left the trie is
  the empty root node, so that removals leave no garbage behind.\<close>

theorem Multi_refines_map:
  assumes "multi_ok multi"
  shows "multi_ok (snd (Multi_Insert multi w k d)) \<and> multi_ok (snd (Multi_Remove multi w k))
    \<and> fst (Multi_Insert multi w k d) = (multi_map multi w k \<noteq> None)
    \<and> multi_map (snd (Multi_Insert multi w k d)) = (multi_map multi)(w := (multi_map multi w)(k \<mapsto> d))
    \<and> fst (Multi_Remove multi w k) = (multi_map multi w k \<noteq> None)
    \<and> multi_map (snd (Multi_Remove multi w k)) = (multi_map multi)(w := (multi_map multi w)(k := None))
    \<and> set (iter_CollectSlice (Multi_Subsets multi word)) =
        {(k', d'). \<exists>w'. subseq w' word \<and> multi_map multi w' k' = Some d'}
    \<and> ((\<forall>w'. multi_map multi w' = Map.empty) \<longrightarrow> root (multi_trie multi) = newNode)"
proof -
  have "root (multi_trie multi) = newNode" if empty: "\<forall>w'. multi_map multi w' = Map.empty"
  proof (rule trie_ok_empty)
    show "trie_ok (root (multi_trie multi))" using assms by (simp add: multi_ok_def)
    show "getWordInNode (root (multi_trie multi)) w' = None" for w'
    proof (cases "getWordInNode (root (multi_trie multi)) w'")
      case (Some m)
      then have "m \<noteq> []" "map_of m = Map.empty"
        using assms empty[rule_format, of w'] by (auto simp: multi_ok_def multi_map_def trie_Get_def)
      then show ?thesis by simp
    qed
  qed
  moreover have "set (iter_CollectSlice (Multi_Subsets multi word)) =
      {(k', d'). \<exists>w'. subseq w' word \<and> multi_map multi w' k' = Some d'}"
    by (auto simp: set_eq_iff Multi_Subsets_set[OF assms])
  ultimately show ?thesis
    using assms by (simp add: Multi_Insert_ok Multi_Remove_ok Multi_Insert_map(1) Multi_Remove_map(1)
        fun_eq_iff Multi_Insert_map(2) Multi_Remove_map(2))
qed

text \<open>The theorem at a trie with one word of two letters.\<close>

theorem Multi_refines_map_witness:
  "multi_ok (snd (Multi_Insert NewMulti [1::nat, 3] ''x'' True)) \<and>
   (''x'', True) \<in> set (iter_CollectSlice
      (Multi_Subsets (snd (Multi_Insert NewMulti [1::nat, 3] ''x'' True)) [1, 2, 3]))"
proof -
  have ok: "multi_ok (snd (Multi_Insert NewMulti [1::nat, 3] ''x'' True))"
    by (simp add: Multi_Insert_ok)
  have "multi_map (snd (Multi_Insert NewMulti [1::nat, 3] ''x'' True)) [1, 3] ''x'' = Some True"
    by (simp add: Multi_Insert_map)
  moreover have "subseq [1::nat, 3] [1, 2, 3]" by simp
  ultimately show ?thesis
    using Multi_refines_map[OF ok, where word = "[1, 2, 3]" and w = "[]" and k = "''x''" and d = True] ok
    by blast
qed

end
