(* ===== verification/LabelIndexSpec.thy ===== *)
theory LabelIndexSpec
  imports Iter
begin

text \<open>
  The interface \<open>Index\<close> of \<open>util/labelindex/interface.go\<close> with what it
  promises, and its two generic wrappers: \<open>Namespaced\<close> (one index per namespace) and
  \<open>Locked\<close> (a read/write lock around an index). The wrappers take the operations
  of the wrapped index as arguments, as the Go types take them from a type parameter.

  A call may panic (\<open>None\<close>). The error of \<open>Track\<close> is an option, the result of
  \<open>Query\<close> is an error or the names the iterator pushes.
\<close>

section \<open>The contract\<close>

text \<open>\<open>tracked\<close> is the abstract state, a map from names to canonical items;
  \<open>canon\<close> is \<open>None\<close> for an item that is refused, and \<open>accepts\<close> is
  \<open>None\<close> for a query that is refused. A refused query returns an error or no name; a
  refused item removes what was tracked under its name.\<close>

locale label_index =
  fixes new_index :: 'i
    and track :: "'i \<Rightarrow> 'n \<Rightarrow> 't \<Rightarrow> ('e option \<times> 'i) option"
    and untrack :: "'i \<Rightarrow> 'n \<Rightarrow> (bool \<times> 'i) option"
    and query :: "'i \<Rightarrow> 'q \<Rightarrow> ('f + 'n list) option"
    and ok :: "'i \<Rightarrow> bool"
    and tracked :: "'i \<Rightarrow> 'n \<Rightarrow> 'a option"
    and good_item :: "'t \<Rightarrow> bool"
    and good_query :: "'q \<Rightarrow> bool"
    and canon :: "'t \<Rightarrow> 'a option"
    and accepts :: "'q \<Rightarrow> ('n \<Rightarrow> 'a \<Rightarrow> bool) option"
  assumes new_ok: "ok new_index"
    and new_tracked: "tracked new_index = Map.empty"
    and track_law: "ok i \<Longrightarrow> good_item t \<Longrightarrow>
      \<exists>e i'. track i n t = Some (e, i') \<and> ok i' \<and> tracked i' = (tracked i)(n := canon t) \<and>
        (e = None \<longleftrightarrow> canon t \<noteq> None)"
    and untrack_law: "ok i \<Longrightarrow>
      \<exists>i'. untrack i n = Some (tracked i n \<noteq> None, i') \<and> ok i' \<and> tracked i' = (tracked i)(n := None)"
    and query_law: "ok i \<Longrightarrow> good_query q \<Longrightarrow> accepts q = Some P \<Longrightarrow>
      \<exists>ns. query i q = Some (Inr ns) \<and> distinct ns \<and>
        set ns = {n. \<exists>a. tracked i n = Some a \<and> P n a}"
    and query_refused: "ok i \<Longrightarrow> good_query q \<Longrightarrow> accepts q = None \<Longrightarrow>
      (\<exists>f. query i q = Some (Inl f)) \<or> query i q = Some (Inr [])"

section \<open>One index per namespace\<close>

record 'i Namespaced =
  namespaces :: "(string, 'i) gomap"

definition NewNamespaced :: "'i Namespaced" where
  "NewNamespaced = \<lparr>namespaces = []\<rparr>"

definition Namespaced_Track :: "'i \<Rightarrow> ('i \<Rightarrow> 'n \<Rightarrow> 't \<Rightarrow> ('e option \<times> 'i) option) \<Rightarrow>
    'i Namespaced \<Rightarrow> string \<times> 'n \<Rightarrow> 't \<Rightarrow> ('e option \<times> 'i Namespaced) option" where
  "Namespaced_Track newIndex trackFn index name item =
     (let namespaced = (case map_of (namespaces index) (fst name) of Some i \<Rightarrow> i | None \<Rightarrow> newIndex)
      in case trackFn namespaced (snd name) item of
           None \<Rightarrow> None
         | Some (err, i') \<Rightarrow>
             Some (err, index\<lparr>namespaces := map_put (fst name) i' (namespaces index)\<rparr>))"

definition Namespaced_Untrack :: "('i \<Rightarrow> 'n \<Rightarrow> (bool \<times> 'i) option) \<Rightarrow>
    'i Namespaced \<Rightarrow> string \<times> 'n \<Rightarrow> (bool \<times> 'i Namespaced) option" where
  "Namespaced_Untrack untrackFn index name =
     (case map_of (namespaces index) (fst name) of
        None \<Rightarrow> Some (False, index)
      | Some namespaced \<Rightarrow>
          (case untrackFn namespaced (snd name) of
             None \<Rightarrow> None
           | Some (existed, i') \<Rightarrow>
               Some (existed, index\<lparr>namespaces := map_put (fst name) i' (namespaces index)\<rparr>)))"

record 'q NamespacedQuery =
  QueryNamespace :: string
  NsQuery :: 'q

definition Namespaced_Query :: "('i \<Rightarrow> 'q \<Rightarrow> ('f + 'n list) option) \<Rightarrow>
    'i Namespaced \<Rightarrow> 'q NamespacedQuery \<Rightarrow> ('f + (string \<times> 'n) list) option" where
  "Namespaced_Query queryFn index query =
     (case map_of (namespaces index) (QueryNamespace query) of
        None \<Rightarrow> Some (Inr (iter_CollectSlice iter_Empty))
      | Some namespaced \<Rightarrow>
          (case queryFn namespaced (NsQuery query) of
             None \<Rightarrow> None
           | Some (Inl err) \<Rightarrow> Some (Inl err)
           | Some (Inr names) \<Rightarrow>
               Some (Inr (iter_CollectSlice
                 (iter_Map (iter_FromSlice names) (\<lambda>name. (QueryNamespace query, name)))))))"

section \<open>A lock around an index\<close>

text \<open>The read/write mutex is the number of readers and the flag of the writer. A call that
  finds the lock taken waits.\<close>

datatype 'r call = Blocked | Panicked | Returned 'r

record 'i Locked =
  readers :: nat
  writer :: bool
  locked_index :: 'i

definition NewLocked :: "'i \<Rightarrow> 'i Locked" where
  "NewLocked index = \<lparr>readers = 0, writer = False, locked_index = index\<rparr>"

definition with_lock :: "('i \<Rightarrow> ('r \<times> 'i) option) \<Rightarrow> 'i Locked \<Rightarrow> ('r \<times> 'i Locked) call" where
  "with_lock f index =
     (if writer index \<or> 0 < readers index then Blocked
      else case f (locked_index index) of
             None \<Rightarrow> Panicked
           | Some (r, i') \<Rightarrow> Returned (r, index\<lparr>locked_index := i'\<rparr>))"

definition Locked_Track :: "('i \<Rightarrow> 'n \<Rightarrow> 't \<Rightarrow> ('e option \<times> 'i) option) \<Rightarrow>
    'i Locked \<Rightarrow> 'n \<Rightarrow> 't \<Rightarrow> ('e option \<times> 'i Locked) call" where
  "Locked_Track trackFn index name item = with_lock (\<lambda>i. trackFn i name item) index"

definition Locked_Untrack :: "('i \<Rightarrow> 'n \<Rightarrow> (bool \<times> 'i) option) \<Rightarrow>
    'i Locked \<Rightarrow> 'n \<Rightarrow> (bool \<times> 'i Locked) call" where
  "Locked_Untrack untrackFn index name = with_lock (\<lambda>i. untrackFn i name) index"

text \<open>A successful query returns with the read lock held: the iterator it returns releases
  it when it has run. \<open>RUnlock\<close> is the finalizer.\<close>

definition RUnlock :: "'i Locked \<Rightarrow> 'i Locked" where
  "RUnlock index = index\<lparr>readers := readers index - 1\<rparr>"

definition Locked_Query :: "('i \<Rightarrow> 'q \<Rightarrow> ('f + 'n list) option) \<Rightarrow>
    'i Locked \<Rightarrow> 'q \<Rightarrow> (('f + 'n list) \<times> 'i Locked) call" where
  "Locked_Query queryFn index query =
     (if writer index then Blocked
      else let locked = index\<lparr>readers := readers index + 1\<rparr>
           in case queryFn (locked_index index) query of
                None \<Rightarrow> Panicked
              | Some (Inl err) \<Rightarrow> Returned (Inl err, RUnlock locked)
              | Some (Inr names) \<Rightarrow> Returned (Inr names, locked))"

text \<open>The iterator over the names, run on the lock it releases and the state of the
  consumer.\<close>

definition query_iter :: "'n list \<Rightarrow> ('n, 'i Locked \<times> 's) Yield \<Rightarrow> ('i Locked \<times> 's) \<times> bool \<Rightarrow>
    (Flow \<times> (('i Locked \<times> 's) \<times> bool)) option" where
  "query_iter names = iter_Defer (iter_FromSlice names) (\<lambda>(index, s). (RUnlock index, s))"

section \<open>Sequences of operations\<close>

datatype ('n, 't) index_op = OpTrack 'n 't | OpUntrack 'n

fun run_index :: "('i \<Rightarrow> 'n \<Rightarrow> 't \<Rightarrow> ('e option \<times> 'i) option) \<Rightarrow> ('i \<Rightarrow> 'n \<Rightarrow> (bool \<times> 'i) option) \<Rightarrow>
    ('n, 't) index_op list \<Rightarrow> 'i \<Rightarrow> 'i option" where
  "run_index trackFn untrackFn [] i = Some i"
| "run_index trackFn untrackFn (OpTrack n t # ops) i =
     (case trackFn i n t of None \<Rightarrow> None | Some (_, i') \<Rightarrow> run_index trackFn untrackFn ops i')"
| "run_index trackFn untrackFn (OpUntrack n # ops) i =
     (case untrackFn i n of None \<Rightarrow> None | Some (_, i') \<Rightarrow> run_index trackFn untrackFn ops i')"

fun final_items :: "('t \<Rightarrow> 'a option) \<Rightarrow> ('n, 't) index_op list \<Rightarrow> ('n \<rightharpoonup> 'a) \<Rightarrow> 'n \<rightharpoonup> 'a" where
  "final_items canonFn [] m = m"
| "final_items canonFn (OpTrack n t # ops) m = final_items canonFn ops (m(n := canonFn t))"
| "final_items canonFn (OpUntrack n # ops) m = final_items canonFn ops (m(n := None))"

fun op_good :: "('t \<Rightarrow> bool) \<Rightarrow> ('n, 't) index_op \<Rightarrow> bool" where
  "op_good P (OpTrack n t) = P t"
| "op_good P (OpUntrack n) = True"

lemma run_index_append:
  "run_index tr un (xs @ ys) ix = (case run_index tr un xs ix of None \<Rightarrow> None | Some ix' \<Rightarrow> run_index tr un ys ix')"
proof (induction xs arbitrary: ix)
  case (Cons op xs)
  then show ?case by (cases op) (auto split: option.split)
qed simp

section \<open>What the wrappers keep of the contract\<close>

context label_index
begin

lemma run_index_ok:
  assumes "ok i" "list_all (op_good good_item) ops"
  shows "\<exists>i'. run_index track untrack ops i = Some i' \<and> ok i' \<and>
    tracked i' = final_items canon ops (tracked i)"
  using assms
proof (induction ops arbitrary: i)
  case (Cons op ops)
  show ?case
  proof (cases op)
    case (OpTrack n t)
    with Cons.prems obtain e i1 where "track i n t = Some (e, i1)" "ok i1" "tracked i1 = (tracked i)(n := canon t)"
      using track_law[of i t n] by auto
    with Cons.IH[of i1] Cons.prems(2) OpTrack show ?thesis by (auto simp: fun_upd_def)
  next
    case (OpUntrack n)
    obtain i1 where "untrack i n = Some (tracked i n \<noteq> None, i1)" "ok i1" "tracked i1 = (tracked i)(n := None)"
      using untrack_law[OF Cons.prems(1), of n] by auto
    with Cons.IH[of i1] Cons.prems(2) OpUntrack show ?thesis by (auto simp: fun_upd_def)
  qed
qed simp

lemma run_query:
  assumes "list_all (op_good good_item) ops" "good_query q" "accepts q = Some P"
  shows "\<exists>i ns. run_index track untrack ops new_index = Some i \<and> query i q = Some (Inr ns) \<and> distinct ns \<and>
    set ns = {n. \<exists>a. final_items canon ops Map.empty n = Some a \<and> P n a}"
  using run_index_ok[OF new_ok assms(1)] query_law[OF _ assms(2,3)] by (fastforce simp: new_tracked)

abbreviation ns_ok :: "'i Namespaced \<Rightarrow> bool" where
  "ns_ok ix \<equiv> \<forall>ns i. map_of (namespaces ix) ns = Some i \<longrightarrow> ok i"

definition ns_tracked :: "'i Namespaced \<Rightarrow> string \<times> 'n \<Rightarrow> 'a option" where
  "ns_tracked ix name =
     (case map_of (namespaces ix) (fst name) of None \<Rightarrow> None | Some i \<Rightarrow> tracked i (snd name))"

definition ns_accepts :: "'q NamespacedQuery \<Rightarrow> (string \<times> 'n \<Rightarrow> 'a \<Rightarrow> bool) option" where
  "ns_accepts q = map_option (\<lambda>P name a. fst name = QueryNamespace q \<and> P (snd name) a) (accepts (NsQuery q))"

lemma ns_track:
  assumes "ns_ok ix" "good_item t"
  shows "\<exists>e ix'. Namespaced_Track new_index track ix name t = Some (e, ix') \<and> ns_ok ix' \<and>
    ns_tracked ix' = (ns_tracked ix)(name := canon t) \<and> (e = None \<longleftrightarrow> canon t \<noteq> None)"
proof -
  let ?i = "case map_of (namespaces ix) (fst name) of Some i \<Rightarrow> i | None \<Rightarrow> new_index"
  have "ok ?i" using assms(1) by (simp add: new_ok split: option.splits)
  from track_law[OF this assms(2), of "snd name"]
  obtain e i' where i': "track ?i (snd name) t = Some (e, i')" "ok i'"
      "tracked i' = (tracked ?i)(snd name := canon t)" "e = None \<longleftrightarrow> canon t \<noteq> None" by blast
  have "ns_tracked (ix\<lparr>namespaces := map_put (fst name) i' (namespaces ix)\<rparr>) = (ns_tracked ix)(name := canon t)"
    by (rule ext) (auto simp: ns_tracked_def i'(3) new_tracked prod_eq_iff split: option.splits)
  then show ?thesis using i' assms(1) by (auto simp: Namespaced_Track_def Let_def)
qed

lemma ns_untrack:
  assumes "ns_ok ix"
  shows "\<exists>ix'. Namespaced_Untrack untrack ix name = Some (ns_tracked ix name \<noteq> None, ix') \<and> ns_ok ix' \<and>
    ns_tracked ix' = (ns_tracked ix)(name := None)"
proof (cases "map_of (namespaces ix) (fst name)")
  case None
  then have "ns_tracked ix name = None" by (simp add: ns_tracked_def)
  then have "ns_tracked ix = (ns_tracked ix)(name := None)" by (simp add: fun_upd_idem)
  with None assms show ?thesis by (simp add: Namespaced_Untrack_def ns_tracked_def)
next
  case (Some i)
  then have "ok i" using assms by simp
  from untrack_law[OF this, of "snd name"]
  obtain i' where i': "untrack i (snd name) = Some (tracked i (snd name) \<noteq> None, i')" "ok i'"
      "tracked i' = (tracked i)(snd name := None)" by blast
  have "ns_tracked (ix\<lparr>namespaces := map_put (fst name) i' (namespaces ix)\<rparr>) = (ns_tracked ix)(name := None)"
    by (rule ext) (auto simp: ns_tracked_def i'(3) Some prod_eq_iff split: option.splits)
  then show ?thesis using i' Some assms by (auto simp: Namespaced_Untrack_def ns_tracked_def)
qed

lemma ns_query:
  assumes "ns_ok ix" "good_query (NsQuery q)" "ns_accepts q = Some P"
  shows "\<exists>ns. Namespaced_Query query ix q = Some (Inr ns) \<and> distinct ns \<and>
    set ns = {n. \<exists>a. ns_tracked ix n = Some a \<and> P n a}"
proof (cases "map_of (namespaces ix) (QueryNamespace q)")
  case None
  then have "{n. \<exists>a. ns_tracked ix n = Some a \<and> P n a} = {}"
    using assms(3) by (auto simp: ns_tracked_def ns_accepts_def)
  with None show ?thesis by (simp add: Namespaced_Query_def iter_Empty_list)
next
  case (Some i)
  obtain P' where P': "accepts (NsQuery q) = Some P'"
      "P = (\<lambda>name a. fst name = QueryNamespace q \<and> P' (snd name) a)"
    using assms(3) by (auto simp: ns_accepts_def)
  from Some assms(1) have "ok i" by simp
  from query_law[OF this assms(2) P'(1)]
  obtain ns where ns: "query i (NsQuery q) = Some (Inr ns)" "distinct ns"
      "set ns = {n. \<exists>a. tracked i n = Some a \<and> P' n a}" by blast
  have "set (map (Pair (QueryNamespace q)) ns) = {n. \<exists>a. ns_tracked ix n = Some a \<and> P n a}"
    using Some by (force simp: ns(3) ns_tracked_def P'(2))
  then show ?thesis
    using Some ns by (auto simp: Namespaced_Query_def iter_Map_list distinct_map inj_on_def)
qed

lemma ns_query_refused:
  assumes "ns_ok ix" "good_query (NsQuery q)" "ns_accepts q = None"
  shows "(\<exists>f. Namespaced_Query query ix q = Some (Inl f)) \<or> Namespaced_Query query ix q = Some (Inr [])"
proof (cases "map_of (namespaces ix) (QueryNamespace q)")
  case (Some i)
  then have "(\<exists>f. query i (NsQuery q) = Some (Inl f)) \<or> query i (NsQuery q) = Some (Inr [])"
    using query_refused[of i "NsQuery q"] assms by (simp add: ns_accepts_def)
  with Some show ?thesis by (auto simp: Namespaced_Query_def iter_Map_list)
qed (simp add: Namespaced_Query_def iter_Empty_list)

lemma namespaced_index:
  "label_index NewNamespaced (Namespaced_Track new_index track) (Namespaced_Untrack untrack)
     (Namespaced_Query query) ns_ok ns_tracked good_item (\<lambda>q. good_query (NsQuery q)) canon ns_accepts"
proof
  show "ns_tracked NewNamespaced = Map.empty"
    by (rule ext) (simp add: ns_tracked_def NewNamespaced_def)
qed (use ns_track ns_untrack ns_query ns_query_refused in \<open>simp_all add: NewNamespaced_def\<close>)

end

section \<open>Properties of the lock\<close>

text \<open>Once the iterator of a successful query has been run, whether to its end or to a
  break by its consumer, the lock is as it was before the query; until then the lock is held, so
  that \<open>Track\<close> and \<open>Untrack\<close> wait. A query that returns an error releases the
  lock itself, and a second run of the iterator panics without releasing it again.\<close>

theorem Locked_Query_releases:
  assumes "Locked_Query queryFn index q = Returned (result, index')"
  shows "(case result of
      Inl _ \<Rightarrow> index' = index
    | Inr names \<Rightarrow>
        Locked_Track trackFn index' n t = Blocked \<and> Locked_Untrack untrackFn index' n = Blocked \<and>
        (\<forall>flow st used.
           query_iter names (\<lambda>x (l, s). case yield x s of (fl, s') \<Rightarrow> (fl, (l, s'))) ((index', s), False) =
             Some (flow, (st, used)) \<longrightarrow>
           fst st = index \<and> used \<and> query_iter names y (st, used) = None))"
proof (cases result)
  case (Inl err)
  then show ?thesis
    using assms by (auto simp: Locked_Query_def RUnlock_def Let_def split: if_splits option.splits sum.splits)
next
  case (Inr names)
  then have index': "index' = index\<lparr>readers := readers index + 1\<rparr>"
    using assms by (auto simp: Locked_Query_def Let_def split: if_splits option.splits sum.splits)
  have kept: "fst (snd (iter_FromSlice ns (\<lambda>x (l, s). case yield x s of (fl, s') \<Rightarrow> (fl, (l, s'))) (l, s))) = l"
    for ns l s
    by (induction ns arbitrary: s) (auto split: prod.splits)
  have "fst st = RUnlock index' \<and> used \<and> query_iter names y (st, used) = None"
    if "query_iter names (\<lambda>x (l, s). case yield x s of (fl, s') \<Rightarrow> (fl, (l, s'))) ((index', s), False) =
      Some (flow, (st, used))" for flow st used
    using that kept[of names index' s]
    by (auto simp: query_iter_def iter_Defer_def iter_MustBeAffine_def split: prod.splits)
  moreover have "RUnlock index' = index" by (simp add: index' RUnlock_def)
  moreover have "Locked_Track trackFn index' n t = Blocked" "Locked_Untrack untrackFn index' n = Blocked"
    by (simp_all add: Locked_Track_def Locked_Untrack_def with_lock_def index')
  ultimately show ?thesis unfolding Inr sum.case by (intro conjI allI impI) blast+
qed

text \<open>The theorem at a query that finds two names.\<close>

theorem Locked_Query_releases_witness:
  "Locked_Query (\<lambda>i q. Some (Inr [1, 2::nat] :: unit + nat list)) (NewLocked ()) ''q'' =
     Returned (Inr [1, 2], \<lparr>readers = 1, writer = False, locked_index = ()\<rparr>)
   \<and> Locked_Track (\<lambda>i n t. Some (None :: unit option, i)) \<lparr>readers = 1, writer = False, locked_index = ()\<rparr> (1::nat) ''t''
       = Blocked"
proof -
  have run: "Locked_Query (\<lambda>i q. Some (Inr [1, 2::nat] :: unit + nat list)) (NewLocked ()) ''q'' =
     Returned (Inr [1, 2], \<lparr>readers = 1, writer = False, locked_index = ()\<rparr>)"
    by (simp add: Locked_Query_def NewLocked_def)
  note blocked = Locked_Query_releases[OF run, where trackFn = "\<lambda>i n t. Some (None :: unit option, i)"
      and n = 1 and t = "''t''", unfolded sum.case, THEN conjunct1]
  show ?thesis using run blocked by (rule conjI)
qed

end
