(* ===== verification/SelectorIndex.thy ===== *)
theory SelectorIndex
  imports LabelCanonical SetTrie LabelIndexSpec
begin

text \<open>
  The index of label selectors, \<open>util/labelindex/selectors.go\<close> with the alphabet of
  \<open>util/labelindex/matchable\<close>: each selector is stored in a set trie under one word per
  choice of values for its \<open>In\<close> requirements, and a label set is looked up by the
  subset query for the letters it contains. A panic is \<open>None\<close>.
\<close>

section \<open>Letters and words\<close>

record Matchable =
  mkey :: string
  mexists :: bool
  mvalue :: string

definition Less :: "Matchable \<Rightarrow> Matchable \<Rightarrow> bool" where
  "Less lhs rhs =
     (if mkey lhs \<noteq> mkey rhs then mkey lhs < mkey rhs
      else if mexists lhs \<noteq> mexists rhs then \<not> mexists lhs
      else mvalue lhs \<noteq> mvalue rhs)"

definition ForSet :: "LabelSet \<Rightarrow> (Matchable, 's) Iter" where
  "ForSet labels = iter_FlatMap (iter_FromSlice labels) (\<lambda>pair. iter_FromSlice
     [\<lparr>mkey = Key pair, mexists = True, mvalue = []\<rparr>,
      \<lparr>mkey = Key pair, mexists = False, mvalue = Value pair\<rparr>])"

text \<open>The recursion pops the requirements of the selector, of which it only reads the two
  positive lists.\<close>

fun recurseMatchableWordsForSelector :: "Matchable sorter \<Rightarrow> KeyExistReqmt list \<Rightarrow> KeyInReqmt list \<Rightarrow>
    Matchable list \<Rightarrow> (Matchable Word, 's) Yield \<Rightarrow> 's \<Rightarrow> Flow \<times> 's" where
  "recurseMatchableWordsForSelector srt (popped # keyExist) keyIn baseWord yield s =
     recurseMatchableWordsForSelector srt keyExist keyIn
       (baseWord @ [\<lparr>mkey = ExistKey popped, mexists = True, mvalue = []\<rparr>]) yield s"
| "recurseMatchableWordsForSelector srt [] (popped # keyIn) baseWord yield s =
     iter_FromSlice (InValues popped) (\<lambda>v s.
       recurseMatchableWordsForSelector srt [] keyIn
         (baseWord @ [\<lparr>mkey = InKey popped, mexists = False, mvalue = v\<rparr>]) yield s) s"
| "recurseMatchableWordsForSelector srt [] [] baseWord yield s =
     yield (NewWord srt Less baseWord) s"

definition WordsForSelector :: "Matchable sorter \<Rightarrow> Selector \<Rightarrow> (Matchable Word, 's) Iter" where
  "WordsForSelector srt selector yield s =
     recurseMatchableWordsForSelector srt (KeyExist selector) (KeyIn selector) [] yield s"

section \<open>The index\<close>

record 'n Selectors =
  knownSelectors :: "'n SelectorStore"
  sel_trie :: "(Matchable, 'n, unit) Multi"

definition NewSelectors :: "'n Selectors" where
  "NewSelectors = \<lparr>knownSelectors = NewSelectorStore, sel_trie = NewMulti\<rparr>"

text \<open>The bodies of the two loops over the words: the trie after the call, or the panic.\<close>

definition insert_word :: "'n \<Rightarrow> (Matchable Word, (Matchable, 'n, unit) Multi option) Yield" where
  "insert_word name word st =
     (case st of None \<Rightarrow> (Break, None) | Some trie \<Rightarrow>
      case Multi_Insert trie word name () of (existed, trie') \<Rightarrow>
        if existed then (Break, None) else (Continue, Some trie'))"

definition remove_word :: "'n \<Rightarrow> (Matchable Word, (Matchable, 'n, unit) Multi option) Yield" where
  "remove_word name word st =
     (case st of None \<Rightarrow> (Break, None) | Some trie \<Rightarrow>
      case Multi_Remove trie word name of (existed, trie') \<Rightarrow>
        if \<not> existed then (Break, None) else (Continue, Some trie'))"

definition doTrackSelector :: "Matchable sorter \<Rightarrow> 'n Selectors \<Rightarrow> 'n \<Rightarrow> LabelSelector \<Rightarrow>
    (go_error option \<times> 'n Selectors) option" where
  "doTrackSelector srt indexer name rawSelector =
     (case SelectorStore_Insert (knownSelectors indexer) name rawSelector of
        (Inl err, _) \<Rightarrow>
          Some (Some (TagWrapf ''CanonicalizeSelector'' err ''canonicalize label selector''), indexer)
      | (Inr result, store) \<Rightarrow>
          if InsExistedBefore result then None
          else (case snd (WordsForSelector srt (InsSelector result) (insert_word name)
                       (Some (sel_trie indexer))) of
                  None \<Rightarrow> None
                | Some trie \<Rightarrow> Some (None, indexer\<lparr>knownSelectors := store, sel_trie := trie\<rparr>)))"

definition doUntrackSelector :: "Matchable sorter \<Rightarrow> 'n Selectors \<Rightarrow> 'n \<Rightarrow> (bool \<times> 'n Selectors) option" where
  "doUntrackSelector srt indexer name =
     (case SelectorStore_Remove (knownSelectors indexer) name of
        (None, _) \<Rightarrow> Some (False, indexer)
      | (Some selector, store) \<Rightarrow>
          (case snd (WordsForSelector srt selector (remove_word name) (Some (sel_trie indexer))) of
             None \<Rightarrow> None
           | Some trie \<Rightarrow> Some (True, indexer\<lparr>knownSelectors := store, sel_trie := trie\<rparr>)))"

definition Selectors_Track :: "Matchable sorter \<Rightarrow> 'n Selectors \<Rightarrow> 'n \<Rightarrow> LabelSelector \<Rightarrow>
    (go_error option \<times> 'n Selectors) option" where
  "Selectors_Track srt indexer name rawSelector =
     (case doUntrackSelector srt indexer name of
        None \<Rightarrow> None
      | Some (_, indexer') \<Rightarrow> doTrackSelector srt indexer' name rawSelector)"

definition Selectors_Untrack :: "Matchable sorter \<Rightarrow> 'n Selectors \<Rightarrow> 'n \<Rightarrow> (bool \<times> 'n Selectors) option" where
  "Selectors_Untrack srt indexer name = doUntrackSelector srt indexer name"

text \<open>The filter of a query: \<open>None\<close> when a name of the index is not in the store
  (\<open>MustGet\<close>).\<close>

fun filter_known :: "('n \<Rightarrow> 'x option) \<Rightarrow> ('x \<Rightarrow> bool) \<Rightarrow> 'n list \<Rightarrow> 'n list option" where
  "filter_known get P [] = Some []"
| "filter_known get P (n # ns) =
     (case get n of None \<Rightarrow> None | Some x \<Rightarrow>
      case filter_known get P ns of None \<Rightarrow> None | Some r \<Rightarrow> Some (if P x then n # r else r))"

text \<open>The names a consumer of the deduplicated iterator receives.\<close>

definition collect_deduplicated :: "'n list \<Rightarrow> 'n list" where
  "collect_deduplicated ns =
     fst (snd (iter_Deduplicate (iter_FromSlice ns) (\<lambda>n out. (Continue, out @ [n])) ([], [])))"

definition doQuerySelector :: "Matchable sorter \<Rightarrow> 'n Selectors \<Rightarrow> LabelSet \<Rightarrow> 'n list option" where
  "doQuerySelector srt indexer labelSet =
     (let word = NewWord srt Less (iter_CollectSlice (ForSet labelSet));
          names = iter_CollectSlice (iter_Map (Multi_Subsets (sel_trie indexer) word) fst)
      in map_option collect_deduplicated
           (filter_known (SelectorStore_Get (knownSelectors indexer)) (\<lambda>s. Matches s labelSet) names))"

text \<open>The second result of \<open>Query\<close> is \<open>util.Empty\<close>: there is no error.\<close>

definition Selectors_Query :: "Matchable sorter \<Rightarrow> 'n Selectors \<Rightarrow> (string, string) gomap \<Rightarrow>
    (unit + 'n list) option" where
  "Selectors_Query srt indexer rawSet = map_option Inr (doQuerySelector srt indexer (CreateSet rawSet))"

section \<open>Generic lemmas\<close>

lemma collect_deduplicated_eq: "collect_deduplicated ns = dedup_from [] ns"
proof -
  have "foldl (\<lambda>s x. s @ [x]) acc ys = acc @ ys" for acc ys :: "'a list"
    by (induction ys arbitrary: acc) auto
  then show ?thesis by (simp add: collect_deduplicated_def iter_Deduplicate_run)
qed

lemma collect_deduplicated_props [simp]:
  "distinct (collect_deduplicated ns)" "set (collect_deduplicated ns) = set ns"
  by (simp_all add: collect_deduplicated_eq dedup_from_distinct dedup_from_set)

lemma filter_known_ok:
  assumes "\<And>n. n \<in> set ns \<Longrightarrow> get n \<noteq> None"
  shows "\<exists>r. filter_known get P ns = Some r \<and> set r = {n \<in> set ns. \<exists>x. get n = Some x \<and> P x}"
  using assms
proof (induction ns)
  case (Cons n ns)
  then obtain r where "filter_known get P ns = Some r"
      "set r = {n \<in> set ns. \<exists>x. get n = Some x \<and> P x}" by auto
  moreover obtain x where "get n = Some x" using Cons.prems[of n] by auto
  ultimately show ?case by auto
qed simp

lemma sorted_subset_subseq:
  assumes "sorted_wrt lt u" "sorted_wrt lt w" "set w \<subseteq> set u" "\<And>x. x \<in> set u \<Longrightarrow> \<not> lt x x"
    and "\<And>x y. x \<in> set u \<Longrightarrow> y \<in> set u \<Longrightarrow> lt x y \<Longrightarrow> \<not> lt y x"
  shows "subseq w u"
  using assms
proof (induction u arbitrary: w)
  case (Cons a u)
  show ?case
  proof (cases w)
    case (Cons b w')
    show ?thesis
    proof (cases "b = a")
      case True
      have "a \<notin> set w'" using Cons.prems(2,4) Cons True \<open>w = b # w'\<close> by auto
      then have "subseq w' u"
        using Cons.prems \<open>w = b # w'\<close> by (intro Cons.IH) auto
      then show ?thesis using True \<open>w = b # w'\<close> by simp
    next
      case False
      then have "b \<in> set u" "lt a b" using Cons.prems \<open>w = b # w'\<close> by auto
      have "a \<notin> set w'"
      proof
        assume "a \<in> set w'"
        then have "lt b a" using Cons.prems(2) \<open>w = b # w'\<close> by auto
        with \<open>lt a b\<close> Cons.prems(5)[of a b] \<open>b \<in> set u\<close> show False by simp
      qed
      then have "subseq w u" using Cons.prems \<open>w = b # w'\<close> False by (intro Cons.IH) auto
      then show ?thesis by auto
    qed
  qed simp
qed simp

section \<open>The words of a selector as a list\<close>

abbreviation exist_letter :: "KeyExistReqmt \<Rightarrow> Matchable" where
  "exist_letter r \<equiv> \<lparr>mkey = ExistKey r, mexists = True, mvalue = []\<rparr>"

abbreviation in_letters :: "KeyInReqmt \<Rightarrow> Matchable list" where
  "in_letters r \<equiv> map (\<lambda>v. \<lparr>mkey = InKey r, mexists = False, mvalue = v\<rparr>) (InValues r)"

definition selector_words :: "Matchable sorter \<Rightarrow> Selector \<Rightarrow> Matchable Word list" where
  "selector_words srt s =
     map (\<lambda>c. srt Less (map exist_letter (KeyExist s) @ c)) (product_lists (map in_letters (KeyIn s)))"

lemma words_push_in:
  "recurseMatchableWordsForSelector srt [] ins base yield s =
     iter_FromSlice (map (\<lambda>c. srt Less (base @ c)) (product_lists (map in_letters ins))) yield s"
proof (induction ins arbitrary: base s)
  case (Cons r ins)
  have IH: "recurseMatchableWordsForSelector srt [] ins base' yield =
      iter_FromSlice (map (\<lambda>c. srt Less (base' @ c)) (product_lists (map in_letters ins))) yield" for base'
    by (intro ext) (rule Cons.IH)
  have "recurseMatchableWordsForSelector srt [] (r # ins) base yield s =
      iter_FlatMap (iter_FromSlice (in_letters r)) (\<lambda>m. iter_FromSlice
        (map (\<lambda>c. srt Less (base @ m # c)) (product_lists (map in_letters ins)))) yield s"
    unfolding iter_FlatMap_def using iter_Map_list[THEN fun_cong, THEN fun_cong, of "InValues r"]
    by (simp add: iter_Map_def IH)
  also have "\<dots> = iter_FromSlice (map (\<lambda>c. srt Less (base @ c)) (product_lists (map in_letters (r # ins)))) yield s"
    unfolding iter_FlatMap_list by (simp add: map_concat o_def)
  finally show ?case .
qed (simp add: NewWord_def split: prod.splits)

lemma words_push:
  "recurseMatchableWordsForSelector srt exs ins base yield s =
     iter_FromSlice (map (\<lambda>c. srt Less (base @ map exist_letter exs @ c)) (product_lists (map in_letters ins))) yield s"
  by (induction exs arbitrary: base) (simp_all add: words_push_in)

lemma WordsForSelector_list: "WordsForSelector srt s = iter_FromSlice (selector_words srt s)"
  by (intro ext) (simp add: WordsForSelector_def words_push selector_words_def)

section \<open>The invariant of the index\<close>

text \<open>Selectors the index supports: no two \<open>Exists\<close> requirements and no two
  \<open>In\<close> requirements (labels of \<open>matchLabels\<close> included) on one key, and no value
  listed twice.\<close>

definition selector_good :: "Selector \<Rightarrow> bool" where
  "selector_good s \<longleftrightarrow> selector_sorted s \<and> distinct (map ExistKey (KeyExist s)) \<and>
     distinct (map InKey (KeyIn s)) \<and> (\<forall>r \<in> set (KeyIn s). distinct (InValues r))"

definition unambiguous :: "Matchable set \<Rightarrow> bool" where
  "unambiguous A \<longleftrightarrow> (\<forall>x \<in> A. \<forall>y \<in> A. mkey x = mkey y \<longrightarrow> mexists x = mexists y \<longrightarrow> x = y)"

lemma Less_strict:
  assumes "unambiguous A" "x \<in> A" "y \<in> A"
  shows "Less x y \<longleftrightarrow> mkey x < mkey y \<or> (mkey x = mkey y \<and> \<not> mexists x \<and> mexists y)"
proof (cases "mkey x = mkey y \<and> mexists x = mexists y")
  case True
  then have "x = y" using assms by (simp add: unambiguous_def)
  then show ?thesis by (simp add: Less_def)
qed (auto simp: Less_def)

lemma Less_weak: assumes "unambiguous A" shows "strict_weak_on A Less"
proof -
  have "\<not> Less x x" if "x \<in> A" for x
    using Less_strict[OF assms that that] by auto
  moreover have "Less x y \<Longrightarrow> Less y z \<Longrightarrow> Less x z" "\<not> Less x y \<Longrightarrow> \<not> Less y z \<Longrightarrow> \<not> Less x z"
    if "x \<in> A" "y \<in> A" "z \<in> A" for x y z
    using that Less_strict[OF assms] by (auto simp del: not_less simp: not_less_iff_gr_or_eq)
  ultimately show ?thesis unfolding strict_weak_on_def by blast
qed

lemma Less_total:
  "unambiguous A \<Longrightarrow> x \<in> A \<Longrightarrow> y \<in> A \<Longrightarrow> x \<noteq> y \<Longrightarrow> Less x y \<or> Less y x"
  unfolding unambiguous_def Less_def by fastforce

lemma Less_asym:
  "unambiguous A \<Longrightarrow> x \<in> A \<Longrightarrow> y \<in> A \<Longrightarrow> Less x y \<Longrightarrow> \<not> Less y x"
  by (auto simp: Less_strict)

lemma product_keys:
  assumes "c \<in> set (product_lists (map in_letters ins))"
  shows "map mkey c = map InKey ins \<and> (\<forall>m \<in> set c. \<not> mexists m)"
  using assms unfolding product_lists_set mem_Collect_eq
proof (induction c "map in_letters ins" arbitrary: ins rule: list_all2_induct)
  case (Cons m c ls lss)
  then show ?case by (cases ins) auto
qed simp

lemma insert_words:
  assumes "multi_ok t" "distinct ws" "\<And>w. w \<in> set ws \<Longrightarrow> multi_map t w n = None"
  shows "\<exists>t'. iter_FromSlice ws (insert_word n) (Some t) = (True, Some t') \<and> multi_ok t' \<and>
    (\<forall>w k. multi_map t' w k = (if k = n \<and> w \<in> set ws then Some () else multi_map t w k))"
  using assms
proof (induction ws arbitrary: t)
  case (Cons w ws)
  let ?t1 = "snd (Multi_Insert t w n ())"
  have no: "\<not> fst (Multi_Insert t w n ())" using Cons.prems(3)[of w] by (simp add: Multi_Insert_map)
  have "\<exists>t'. iter_FromSlice ws (insert_word n) (Some ?t1) = (True, Some t') \<and> multi_ok t' \<and>
    (\<forall>w k. multi_map t' w k = (if k = n \<and> w \<in> set ws then Some () else multi_map ?t1 w k))"
    using Cons.prems by (intro Cons.IH Multi_Insert_ok) (auto simp: Multi_Insert_map)
  moreover have "insert_word n w (Some t) = (True, Some ?t1)"
    using no by (simp add: insert_word_def case_prod_beta)
  ultimately show ?case by (auto simp: Multi_Insert_map)
qed simp

lemma remove_words:
  assumes "multi_ok t" "distinct ws" "\<And>w. w \<in> set ws \<Longrightarrow> multi_map t w n \<noteq> None"
  shows "\<exists>t'. iter_FromSlice ws (remove_word n) (Some t) = (True, Some t') \<and> multi_ok t' \<and>
    (\<forall>w k. multi_map t' w k = (if k = n \<and> w \<in> set ws then None else multi_map t w k))"
  using assms
proof (induction ws arbitrary: t)
  case (Cons w ws)
  let ?t1 = "snd (Multi_Remove t w n)"
  have yes: "fst (Multi_Remove t w n)" using Cons.prems(3)[of w] by (simp add: Multi_Remove_map)
  have "\<exists>t'. iter_FromSlice ws (remove_word n) (Some ?t1) = (True, Some t') \<and> multi_ok t' \<and>
    (\<forall>w k. multi_map t' w k = (if k = n \<and> w \<in> set ws then None else multi_map ?t1 w k))"
    using Cons.prems by (intro Cons.IH Multi_Remove_ok) (auto simp: Multi_Remove_map)
  moreover have "remove_word n w (Some t) = (True, Some ?t1)"
    using yes by (simp add: remove_word_def case_prod_beta)
  ultimately show ?case by (auto simp: Multi_Remove_map)
qed simp

definition index_ok :: "Matchable sorter \<Rightarrow> 'n Selectors \<Rightarrow> bool" where
  "index_ok srt ix \<longleftrightarrow> multi_ok (sel_trie ix) \<and>
     (\<forall>n s. SelectorStore_Get (knownSelectors ix) n = Some s \<longrightarrow> selector_good s) \<and>
     (\<forall>w n. multi_map (sel_trie ix) w n \<noteq> None \<longleftrightarrow>
        (\<exists>s. SelectorStore_Get (knownSelectors ix) n = Some s \<and> w \<in> set (selector_words srt s)))"

definition set_letters :: "(string, string) gomap \<Rightarrow> Matchable list" where
  "set_letters rawSet = iter_CollectSlice (ForSet (CreateSet rawSet))"

lemma set_letters_mem:
  assumes "map_ok rawSet"
  shows "m \<in> set (set_letters rawSet) \<longleftrightarrow>
    (if mexists m then mvalue m = [] \<and> map_of rawSet (mkey m) \<noteq> None
     else map_of rawSet (mkey m) = Some (mvalue m))"
proof -
  have "m \<in> set (set_letters rawSet) \<longleftrightarrow>
      (\<exists>k v. (k, v) \<in> set rawSet \<and> (m = \<lparr>mkey = k, mexists = True, mvalue = []\<rparr> \<or>
         m = \<lparr>mkey = k, mexists = False, mvalue = v\<rparr>))"
    unfolding set_letters_def ForSet_def iter_FlatMap_list iter_CollectSlice_list
    by (simp add: Bex_def CreateSet_set) (metis KvPair.select_convs)
  also have "\<dots> \<longleftrightarrow> (if mexists m then mvalue m = [] \<and> map_of rawSet (mkey m) \<noteq> None
     else map_of rawSet (mkey m) = Some (mvalue m))"
    unfolding map_ok_mem[OF assms] by (cases m) auto
  finally show ?thesis .
qed

lemma set_letters_unambiguous: "map_ok rawSet \<Longrightarrow> unambiguous (set (set_letters rawSet))"
  unfolding unambiguous_def by (auto simp: set_letters_mem split: if_splits intro: Matchable.equality)

lemma set_letters_distinct: assumes "map_ok rawSet" shows "distinct (set_letters rawSet)"
proof -
  have "distinct (concat (map (\<lambda>p. [\<lparr>mkey = Key p, mexists = True, mvalue = []\<rparr>,
      \<lparr>mkey = Key p, mexists = False, mvalue = Value p\<rparr>]) labels))"
    if "distinct (map Key labels)" for labels
    using that by (induction labels) auto
  from this[OF CreateSet_distinct[OF assms]] show ?thesis
    by (simp add: set_letters_def ForSet_def iter_FlatMap_list)
qed

locale matchable_sorter = slice_sorter srt for srt :: "Matchable sorter"
begin

lemma word_sorted:
  assumes "unambiguous (set xs)" "distinct xs" shows "sorted_wrt Less (srt Less xs)"
proof -
  have "sorted_wrt (\<lambda>x y. \<not> Less y x) (srt Less xs)" by (rule srt_sorted[OF Less_weak[OF assms(1)]])
  moreover have "sorted_wrt (\<noteq>) (srt Less xs)"
    using assms(2) mset_eq_imp_distinct_iff[OF srt_mset, of Less xs]
    by (simp add: sorted_wrt_iff_nth_less distinct_conv_nth)
  ultimately have "sorted_wrt (\<lambda>x y. \<not> Less y x \<and> x \<noteq> y) (srt Less xs)"
    by (simp add: sorted_wrt_iff_nth_less)
  then show ?thesis
    by (rule sorted_wrt_mono_rel[rotated]) (use Less_total[OF assms(1)] in auto)
qed

lemma selector_words_distinct:
  assumes "selector_good s" shows "distinct (selector_words srt s)"
proof -
  have "distinct (product_lists (map in_letters (KeyIn s)))"
    using assms by (intro distinct_product_lists) (auto simp: selector_good_def distinct_map inj_on_def)
  moreover have "inj_on (\<lambda>c. srt Less (map exist_letter (KeyExist s) @ c))
      (set (product_lists (map in_letters (KeyIn s))))"
  proof (rule inj_onI)
    fix c c' assume c: "c \<in> set (product_lists (map in_letters (KeyIn s)))"
      and c': "c' \<in> set (product_lists (map in_letters (KeyIn s)))"
      and eq: "srt Less (map exist_letter (KeyExist s) @ c) = srt Less (map exist_letter (KeyExist s) @ c')"
    from eq have "mset c = mset c'" using srt_mset[of Less "map exist_letter (KeyExist s) @ c"]
        srt_mset[of Less "map exist_letter (KeyExist s) @ c'"] by simp
    then have same: "set c = set c'" by (metis set_mset_mset)
    have keys: "map mkey c = map mkey c'" and dist: "distinct (map mkey c)"
      using product_keys[OF c] product_keys[OF c'] assms by (simp_all add: selector_good_def)
    have "inj_on mkey (set c \<union> set c')" using dist same by (simp add: distinct_map)
    with keys show "c = c'" by (rule map_inj_on)
  qed
  ultimately show ?thesis by (simp add: selector_words_def distinct_map)
qed

lemma matching_word:
  assumes good: "selector_good s" and ok: "map_ok rawSet" and holds: "selector_holds s (map_of rawSet)"
  obtains w where "w \<in> set (selector_words srt s)" "subseq w (srt Less (set_letters rawSet))"
proof -
  define c where "c = map (\<lambda>r. \<lparr>mkey = InKey r, mexists = False, mvalue = the (map_of rawSet (InKey r))\<rparr>) (KeyIn s)"
  let ?base = "map exist_letter (KeyExist s) @ c"
  have ins: "\<exists>v \<in> set (InValues r). map_of rawSet (InKey r) = Some v" if "r \<in> set (KeyIn s)" for r
    using holds that by (simp add: selector_holds_def)
  have "list_all2 (\<lambda>x ys. x \<in> set ys) c (map in_letters (KeyIn s))"
    unfolding c_def list_all2_map1 list_all2_map2 using ins by (force simp: list.rel_refl_strong intro!: list.rel_refl_strong)
  then have word: "srt Less ?base \<in> set (selector_words srt s)"
    by (simp add: selector_words_def product_lists_set)
  have sub: "set ?base \<subseteq> set (set_letters rawSet)"
    using ins holds by (force simp: c_def set_letters_mem[OF ok] selector_holds_def)
  have "distinct ?base"
    using good by (auto simp: c_def selector_good_def distinct_map inj_on_def)
  moreover have unamb: "unambiguous (set (set_letters rawSet))" by (rule set_letters_unambiguous[OF ok])
  then have "unambiguous (set ?base)" using sub unfolding unambiguous_def by blast
  ultimately have "sorted_wrt Less (srt Less ?base)" by (intro word_sorted)
  moreover have "sorted_wrt Less (srt Less (set_letters rawSet))"
    by (intro word_sorted unamb set_letters_distinct ok)
  ultimately have "subseq (srt Less ?base) (srt Less (set_letters rawSet))"
    using sub Less_asym[OF unamb] by (intro sorted_subset_subseq[where lt = Less]) auto
  with word show thesis by (rule that)
qed

abbreviation get_known :: "'n Selectors \<Rightarrow> 'n \<Rightarrow> Selector option" where
  "get_known ix \<equiv> SelectorStore_Get (knownSelectors ix)"

lemma index_okD:
  assumes "index_ok srt ix"
  shows "multi_ok (sel_trie ix)" "get_known ix n = Some s \<Longrightarrow> selector_good s"
    and "multi_map (sel_trie ix) w n \<noteq> None \<longleftrightarrow> (\<exists>s. get_known ix n = Some s \<and> w \<in> set (selector_words srt s))"
  using assms unfolding index_ok_def by blast+

lemma untrack_ok:
  assumes "index_ok srt ix"
  shows "\<exists>ix'. doUntrackSelector srt ix n = Some (get_known ix n \<noteq> None, ix') \<and> index_ok srt ix' \<and>
    get_known ix' = (get_known ix)(n := None)"
proof (cases "get_known ix n")
  case None
  then have "(get_known ix)(n := None) = get_known ix" by (simp add: fun_upd_idem)
  with None assms show ?thesis
    by (auto simp: doUntrackSelector_def SelectorStore_Remove_def SelectorStore_Get_def split: option.splits)
next
  case (Some s)
  note inv = index_okD[OF assms]
  have "\<exists>t'. iter_FromSlice (selector_words srt s) (remove_word n) (Some (sel_trie ix)) = (True, Some t') \<and>
      multi_ok t' \<and> (\<forall>w k. multi_map t' w k =
        (if k = n \<and> w \<in> set (selector_words srt s) then None else multi_map (sel_trie ix) w k))"
    using Some inv by (intro remove_words selector_words_distinct) auto
  then obtain t' where t': "iter_FromSlice (selector_words srt s) (remove_word n) (Some (sel_trie ix)) = (True, Some t')"
      "multi_ok t'" "\<And>w k. multi_map t' w k =
        (if k = n \<and> w \<in> set (selector_words srt s) then None else multi_map (sel_trie ix) w k)"
    by blast
  define ix' where "ix' = ix\<lparr>knownSelectors := (knownSelectors ix)\<lparr>selectors :=
      map_del n (selectors (knownSelectors ix))\<rparr>, sel_trie := t'\<rparr>"
  have run: "doUntrackSelector srt ix n = Some (True, ix')"
    using Some t'(1) by (simp add: doUntrackSelector_def SelectorStore_Remove_def SelectorStore_Get_def
        WordsForSelector_list ix'_def)
  have known: "get_known ix' = (get_known ix)(n := None)"
    by (rule ext) (simp add: ix'_def SelectorStore_Get_def)
  have "index_ok srt ix'"
    unfolding index_ok_def known using t'(2,3) inv(2,3) Some by (auto simp: ix'_def)
  with run known Some show ?thesis by auto
qed

lemma track_new_ok:
  assumes "index_ok srt ix" "get_known ix n = None" "CreateSelector raw = Inr s" "selector_good s"
  shows "\<exists>ix'. doTrackSelector srt ix n raw = Some (None, ix') \<and> index_ok srt ix' \<and>
    get_known ix' = (get_known ix)(n \<mapsto> s)"
proof -
  note inv = index_okD[OF assms(1)]
  have "\<exists>t'. iter_FromSlice (selector_words srt s) (insert_word n) (Some (sel_trie ix)) = (True, Some t') \<and>
      multi_ok t' \<and> (\<forall>w k. multi_map t' w k =
        (if k = n \<and> w \<in> set (selector_words srt s) then Some () else multi_map (sel_trie ix) w k))"
  proof (intro insert_words selector_words_distinct inv(1) assms(4))
    show "multi_map (sel_trie ix) w n = None" for w
      using inv(3)[of w n] assms(2) by (metis option.distinct(1))
  qed
  then obtain t' where t': "iter_FromSlice (selector_words srt s) (insert_word n) (Some (sel_trie ix)) = (True, Some t')"
      "multi_ok t'" "\<And>w k. multi_map t' w k =
        (if k = n \<and> w \<in> set (selector_words srt s) then Some () else multi_map (sel_trie ix) w k)"
    by blast
  define ix' where "ix' = ix\<lparr>knownSelectors := (knownSelectors ix)\<lparr>selectors :=
      map_put n s (selectors (knownSelectors ix))\<rparr>, sel_trie := t'\<rparr>"
  have run: "doTrackSelector srt ix n raw = Some (None, ix')"
    using assms(2,3) t'(1) by (simp add: doTrackSelector_def SelectorStore_Insert_def SelectorStore_Get_def
        WordsForSelector_list ix'_def)
  have known: "get_known ix' = (get_known ix)(n \<mapsto> s)"
    by (rule ext) (simp add: ix'_def SelectorStore_Get_def)
  have "index_ok srt ix'"
    unfolding index_ok_def known using t'(2,3) inv(2,3) assms(2,4) by (auto simp: ix'_def)
  with run known show ?thesis by blast
qed

lemma query_ok:
  assumes "index_ok srt ix" "map_ok rawSet"
  shows "\<exists>ns. Selectors_Query srt ix rawSet = Some (Inr ns) \<and> distinct ns \<and>
    set ns = {n. \<exists>s. get_known ix n = Some s \<and> selector_holds s (map_of rawSet)}"
proof -
  note inv = index_okD[OF assms(1)]
  define names where "names = iter_CollectSlice (iter_Map (Multi_Subsets (sel_trie ix)
      (srt Less (set_letters rawSet))) fst)"
  have names: "n \<in> set names \<longleftrightarrow>
      (\<exists>w. subseq w (srt Less (set_letters rawSet)) \<and> multi_map (sel_trie ix) w n = Some ())" for n
  proof -
    have "n \<in> set names \<longleftrightarrow> (n, ()) \<in> set (iter_CollectSlice (Multi_Subsets (sel_trie ix) (srt Less (set_letters rawSet))))"
      unfolding names_def Multi_Subsets_list iter_Map_list iter_CollectSlice_list by force
    then show ?thesis by (simp add: Multi_Subsets_set[OF inv(1)])
  qed
  have "get_known ix n \<noteq> None" if "n \<in> set names" for n
    using that inv(3)[of _ n] names[of n] by auto
  from filter_known_ok[where get = "get_known ix" and P = "\<lambda>s. Matches s (CreateSet rawSet)", OF this]
  obtain r where r: "filter_known (get_known ix) (\<lambda>s. Matches s (CreateSet rawSet)) names = Some r"
      "set r = {n \<in> set names. \<exists>s. get_known ix n = Some s \<and> Matches s (CreateSet rawSet)}" by blast
  have run: "Selectors_Query srt ix rawSet = Some (Inr (collect_deduplicated r))"
    using r(1) by (simp add: Selectors_Query_def doQuerySelector_def names_def set_letters_def NewWord_def)
  have "set r = {n. \<exists>s. get_known ix n = Some s \<and> selector_holds s (map_of rawSet)}"
  proof -
    have "n \<in> set names" if "get_known ix n = Some s" "selector_holds s (map_of rawSet)" for n s
      using matching_word[OF inv(2)[OF that(1)] assms(2) that(2)] inv(3)[of _ n] that(1) names[of n]
      by (metis option.distinct(1) option.exhaust old.unit.exhaust)
    moreover have "Matches s (CreateSet rawSet) \<longleftrightarrow> selector_holds s (map_of rawSet)"
      if "get_known ix n = Some s" for n s
      using inv(2)[OF that] assms(2) by (simp add: selector_good_def Matches_holds)
    ultimately show ?thesis unfolding r(2) by blast
  qed
  with run show ?thesis by simp
qed

end

section \<open>The index implements its interface\<close>

definition canon_selector :: "LabelSelector \<Rightarrow> Selector option" where
  "canon_selector raw = (case CreateSelector raw of Inl _ \<Rightarrow> None | Inr s \<Rightarrow> Some s)"

definition indexable :: "LabelSelector \<Rightarrow> bool" where
  "indexable raw \<longleftrightarrow> (case CreateSelector raw of Inl _ \<Rightarrow> True | Inr s \<Rightarrow> selector_good s)"

context matchable_sorter
begin

lemma track_ok:
  assumes "index_ok srt ix" "indexable raw"
  shows "\<exists>e ix'. Selectors_Track srt ix n raw = Some (e, ix') \<and> index_ok srt ix' \<and>
    get_known ix' = (get_known ix)(n := canon_selector raw) \<and> (e = None \<longleftrightarrow> canon_selector raw \<noteq> None)"
proof -
  obtain ix1 where ix1: "doUntrackSelector srt ix n = Some (get_known ix n \<noteq> None, ix1)" "index_ok srt ix1"
      "get_known ix1 = (get_known ix)(n := None)"
    using untrack_ok[OF assms(1), of n] by blast
  have run: "Selectors_Track srt ix n raw = doTrackSelector srt ix1 n raw"
    by (simp add: Selectors_Track_def ix1(1))
  show ?thesis
  proof (cases "CreateSelector raw")
    case (Inl err)
    then show ?thesis unfolding run
      using ix1(2,3) by (auto simp: doTrackSelector_def SelectorStore_Insert_def canon_selector_def)
  next
    case (Inr s)
    have "get_known ix1 n = None" by (simp add: ix1(3))
    moreover have "selector_good s" using assms(2) Inr by (simp add: indexable_def)
    ultimately obtain ix' where "doTrackSelector srt ix1 n raw = Some (None, ix')" "index_ok srt ix'"
        "get_known ix' = (get_known ix1)(n \<mapsto> s)"
      using track_new_ok[OF ix1(2) _ Inr] by blast
    then show ?thesis unfolding run by (auto simp: ix1(3) canon_selector_def Inr)
  qed
qed

lemma selectors_index:
  "label_index NewSelectors (Selectors_Track srt) (Selectors_Untrack srt) (Selectors_Query srt)
     (index_ok srt) get_known indexable map_ok canon_selector
     (\<lambda>q. Some (\<lambda>_ s. selector_holds s (map_of q)))"
proof
  show "index_ok srt NewSelectors"
    by (simp add: index_ok_def NewSelectors_def NewSelectorStore_def SelectorStore_Get_def)
  show "get_known NewSelectors = Map.empty"
    by (rule ext) (simp add: NewSelectors_def NewSelectorStore_def SelectorStore_Get_def)
  show "\<exists>ns. Selectors_Query srt i q = Some (Inr ns) \<and> distinct ns \<and>
      set ns = {n. \<exists>a. get_known i n = Some a \<and> P n a}"
    if "index_ok srt i" "map_ok q" "Some (\<lambda>_ s. selector_holds s (map_of q)) = Some P" for i q P
  proof -
    have P: "P = (\<lambda>_ s. selector_holds s (map_of q))" using that(3) by simp
    show ?thesis unfolding P by (rule query_ok[OF that(1,2)])
  qed
qed (use track_ok untrack_ok in \<open>simp_all add: Selectors_Untrack_def\<close>)

end

interpretation insertion_matchables: matchable_sorter insertion_sort ..

interpretation selector_index: label_index NewSelectors "Selectors_Track insertion_sort"
    "Selectors_Untrack insertion_sort" "Selectors_Query insertion_sort" "index_ok insertion_sort"
    "\<lambda>ix. SelectorStore_Get (knownSelectors ix)" indexable map_ok canon_selector
    "\<lambda>q. Some (\<lambda>_ s. selector_holds s (map_of q))"
  by (rule insertion_matchables.selectors_index)

section \<open>Properties\<close>

lemma canon_selector_eq: "canon_selector raw = Some s \<Longrightarrow> selector_holds s labels \<longleftrightarrow> selects raw labels"
  by (simp add: canon_selector_def CreateSelector_holds split: sum.splits)

lemma final_items_canon:
  "final_items canon_selector ops (\<lambda>n. Option.bind (m n) canon_selector) n =
     Option.bind (final_items (\<lambda>raw. if known_operators raw then Some raw else None) ops m n) canon_selector"
proof (induction ops arbitrary: m)
  case (Cons op ops)
  have canon: "canon_selector raw = Option.bind (if known_operators raw then Some raw else None) canon_selector" for raw
    using CreateSelector_fails[of raw] by (auto simp: canon_selector_def split: sum.splits)
  have upd: "(\<lambda>n. Option.bind (m n) canon_selector)(k := Option.bind r canon_selector) =
      (\<lambda>n. Option.bind ((m(k := r)) n) canon_selector)" for k r by (simp add: fun_eq_iff)
  show ?case
  proof (cases op)
    case (OpTrack k raw)
    show ?thesis unfolding OpTrack final_items.simps
      by (subst (1) canon) (simp only: upd Cons.IH)
  next
    case (OpUntrack k)
    show ?thesis unfolding OpUntrack final_items.simps using upd[of k None] Cons.IH[of "m(k := None)"]
      by (simp del: fun_upd_apply)
  qed
qed simp

lemma final_items_known:
  assumes "\<And>n raw. m n = Some raw \<Longrightarrow> known_operators raw"
    and "final_items (\<lambda>raw. if known_operators raw then Some raw else None) ops m n = Some raw"
  shows "\<exists>s. canon_selector raw = Some s"
proof -
  have "known_operators raw"
    using assms
  proof (induction ops arbitrary: m)
    case (Cons op ops)
    show ?case
    proof (cases op)
      case (OpTrack k t)
      show ?thesis
        by (rule Cons.IH[of "m(k := if known_operators t then Some t else None)"])
          (use Cons.prems OpTrack in \<open>auto simp: fun_upd_def split: if_splits\<close>)
    next
      case (OpUntrack k)
      show ?thesis
        by (rule Cons.IH[of "m(k := None)"]) (use Cons.prems OpUntrack in \<open>auto simp: fun_upd_def split: if_splits\<close>)
    qed
  qed simp
  then show ?thesis using CreateSelector_fails[of raw] by (auto simp: canon_selector_def split: sum.splits)
qed

lemma selectors_run_query:
  assumes "slice_sorter srt" "list_all (op_good indexable) ops" "map_ok labels"
  shows "\<exists>ix names.
     run_index (Namespaced_Track NewSelectors (Selectors_Track srt)) (Namespaced_Untrack (Selectors_Untrack srt))
       ops NewNamespaced = Some ix
   \<and> Namespaced_Query (Selectors_Query srt) ix \<lparr>QueryNamespace = ns, NsQuery = labels\<rparr> = Some (Inr names)
   \<and> distinct names
   \<and> set names = {(ns', n). ns' = ns \<and> (\<exists>raw.
        final_items (\<lambda>raw. if known_operators raw then Some raw else None) ops Map.empty (ns', n) = Some raw
        \<and> selects raw (map_of labels))}"
proof -
  have ix: "label_index NewSelectors (Selectors_Track srt) (Selectors_Untrack srt) (Selectors_Query srt)
     (index_ok srt) (\<lambda>ix. SelectorStore_Get (knownSelectors ix)) indexable map_ok canon_selector
     (\<lambda>q. Some (\<lambda>_ s. selector_holds s (map_of q)))"
    using assms(1) by (intro matchable_sorter.selectors_index) (simp add: matchable_sorter_def)
  let ?q = "\<lparr>QueryNamespace = ns, NsQuery = labels\<rparr>"
  let ?P = "\<lambda>name s. fst name = ns \<and> selector_holds s (map_of labels)"
  have accepts: "label_index.ns_accepts (\<lambda>q. Some (\<lambda>_ s. selector_holds s (map_of q))) ?q = Some ?P"
    by (simp add: label_index.ns_accepts_def[OF ix])
  have good: "map_ok (NsQuery ?q)" using assms(3) by simp
  from label_index.run_query[OF label_index.namespaced_index[OF ix] assms(2) good accepts]
  obtain i names where run: "run_index (Namespaced_Track NewSelectors (Selectors_Track srt))
        (Namespaced_Untrack (Selectors_Untrack srt)) ops NewNamespaced = Some i"
      "Namespaced_Query (Selectors_Query srt) i ?q = Some (Inr names)" "distinct names"
    and names: "set names = {n. \<exists>a. final_items canon_selector ops Map.empty n = Some a \<and> ?P n a}"
    by blast
  have "n \<in> set names \<longleftrightarrow> fst n = ns \<and> (\<exists>raw. final_items (\<lambda>raw. if known_operators raw then Some raw else None)
        ops Map.empty n = Some raw \<and> selects raw (map_of labels))" for n
    using final_items_canon[of ops Map.empty n] final_items_known[of Map.empty ops n]
    by (auto simp: names bind_eq_Some_conv canon_selector_eq)
  then have "set names = {(ns', n). ns' = ns \<and> (\<exists>raw.
        final_items (\<lambda>raw. if known_operators raw then Some raw else None) ops Map.empty (ns', n) = Some raw
        \<and> selects raw (map_of labels))}" by auto
  with run show ?thesis by blast
qed

text \<open>The selectors the index supports: the operators of Kubernetes, no label required by value twice, no label
  required to exist twice, and no value listed twice.\<close>

definition supported :: "LabelSelector \<Rightarrow> bool" where
  "supported raw \<longleftrightarrow> known_operators raw
     \<and> distinct (map fst (MatchLabels raw) @ map ReqKey (filter (\<lambda>e. ReqOperator e = ''In'') (MatchExpressions raw)))
     \<and> distinct (map ReqKey (filter (\<lambda>e. ReqOperator e = ''Exists'') (MatchExpressions raw)))
     \<and> (\<forall>e \<in> set (MatchExpressions raw). ReqOperator e = ''In'' \<longrightarrow> distinct (ReqValues e))"

lemma add_exprs_requirements:
  assumes "add_exprs s es = Inr s'"
  shows "KeyIn s' = KeyIn s @ map (\<lambda>e. \<lparr>InKey = ReqKey e, InValues = ReqValues e\<rparr>) (filter (\<lambda>e. ReqOperator e = ''In'') es)"
    and "KeyExist s' = KeyExist s @ map (\<lambda>e. \<lparr>ExistKey = ReqKey e\<rparr>) (filter (\<lambda>e. ReqOperator e = ''Exists'') es)"
  using assms
  by (induction es arbitrary: s) (auto simp: addSelectorExprToSelector_def split: if_splits sum.splits)

lemma supported_indexable:
  assumes "supported raw" shows "indexable raw"
proof (cases "CreateSelector raw")
  case (Inr s)
  let ?s0 = "zero_selector\<lparr>KeyIn := map (\<lambda>(key, value). \<lparr>InKey = key, InValues = [value]\<rparr>) (MatchLabels raw)\<rparr>"
  obtain t where t: "add_exprs ?s0 (MatchExpressions raw) = Inr t" "s = sort_selector t"
    using Inr by (auto simp: CreateSelector_def Let_def split: sum.splits)
  note req = add_exprs_requirements[OF t(1)]
  have "map InKey (map (\<lambda>(key, value). \<lparr>InKey = key, InValues = [value]\<rparr>) ls) = map fst ls" for ls :: "(string \<times> string) list"
    by (induction ls) auto
  then have "map InKey (KeyIn t) = map fst (MatchLabels raw) @ map ReqKey (filter (\<lambda>e. ReqOperator e = ''In'') (MatchExpressions raw))"
    "map ExistKey (KeyExist t) = map ReqKey (filter (\<lambda>e. ReqOperator e = ''Exists'') (MatchExpressions raw))"
    using req by (simp_all add: zero_selector_def o_def)
  then have "distinct (map InKey (KeyIn t))" "distinct (map ExistKey (KeyExist t))"
    using assms by (simp_all add: supported_def)
  then have "distinct (map InKey (KeyIn s))" "distinct (map ExistKey (KeyExist s))"
    using t(2) mset_eq_imp_distinct_iff[of "map InKey (KeyIn s)" "map InKey (KeyIn t)"]
      mset_eq_imp_distinct_iff[of "map ExistKey (KeyExist s)" "map ExistKey (KeyExist t)"]
    by (simp_all add: sort_selector_def ByKey_def)
  moreover have "\<forall>r \<in> set (KeyIn s). distinct (InValues r)"
    using assms req(1) by (auto simp: t(2) sort_selector_def ByKey_def supported_def zero_selector_def)
  ultimately show ?thesis using Inr t(2) by (simp add: indexable_def selector_good_def)
qed (simp add: indexable_def)

lemma final_items_supported:
  assumes "list_all (op_good supported) ops"
  shows "final_items (\<lambda>raw. if known_operators raw then Some raw else None) ops m = final_items Some ops m"
  using assms
proof (induction ops arbitrary: m)
  case (Cons op ops)
  then show ?case by (cases op) (auto simp: supported_def)
qed simp

lemma op_good_mono: "list_all (op_good P) ops \<Longrightarrow> (\<And>t. P t \<Longrightarrow> Q t) \<Longrightarrow> list_all (op_good Q) ops"
proof (induction ops)
  case (Cons op ops)
  then show ?case by (cases op) auto
qed simp

text \<open>C15: after any sequence of \<open>Track\<close> and \<open>Untrack\<close> calls with supported selectors (the operators of
  Kubernetes, no requirement and no value repeated), no call panics, and a query for a label map in a
  namespace returns, each once, exactly the names of that namespace whose last selector, if it was not
  untracked since, selects the labels in the sense of Kubernetes. This holds for every sorting routine that
  keeps the contract of \<open>sort.Slice\<close>, although the comparison of letters is not an order on arbitrary letters.
  Unsupported selectors are outside: see \<open>selector_index_repetitions\<close>.\<close>

theorem selector_index_correct:
  assumes "slice_sorter srt" "list_all (op_good supported) ops" "map_ok labels"
  shows "\<exists>ix names.
     run_index (Namespaced_Track NewSelectors (Selectors_Track srt)) (Namespaced_Untrack (Selectors_Untrack srt))
       ops NewNamespaced = Some ix
   \<and> Namespaced_Query (Selectors_Query srt) ix \<lparr>QueryNamespace = ns, NsQuery = labels\<rparr> = Some (Inr names)
   \<and> distinct names
   \<and> set names = {(ns', n). ns' = ns \<and> (\<exists>raw. final_items Some ops Map.empty (ns', n) = Some raw
        \<and> selects raw (map_of labels))}"
  using selectors_run_query[OF assms(1) op_good_mono[OF assms(2) supported_indexable] assms(3), of ns]
  unfolding final_items_supported[OF assms(2)] .

definition sample_ops :: "(string \<times> string, LabelSelector) index_op list" where
  "sample_ops = [OpTrack (''ns'', ''p'') sample_selector, OpTrack (''ns'', ''q'') sample_selector,
     OpUntrack (''ns'', ''q'')]"

text \<open>The theorem at a sequence with a selector that stays and one that is removed.\<close>

theorem selector_index_correct_witness:
  "slice_sorter (insertion_sort :: Matchable sorter) \<and> list_all (op_good supported) sample_ops \<and> map_ok sample_labels \<and>
   (\<exists>ix. Namespaced_Query (Selectors_Query insertion_sort) ix
      \<lparr>QueryNamespace = ''ns'', NsQuery = sample_labels\<rparr> = Some (Inr [(''ns'', ''p'')]))"
proof -
  have srt: "slice_sorter (insertion_sort :: Matchable sorter)" ..
  have items: "list_all (op_good supported) sample_ops"
    by (simp add: sample_ops_def supported_def sample_selector_def known_operators_def)
  have ok: "map_ok sample_labels" by (simp add: sample_labels_def)
  have "selects sample_selector (map_of sample_labels)"
    by (simp add: selects_def sample_selector_def sample_labels_def expr_holds_def)
  then have one: "{(ns', n). ns' = ''ns'' \<and> (\<exists>raw. final_items Some sample_ops Map.empty (ns', n) = Some raw
      \<and> selects raw (map_of sample_labels))} = {(''ns'', ''p'')}"
    by (auto simp: sample_ops_def)
  from selector_index_correct[OF srt items ok, of "''ns''"] obtain ix names where
    "Namespaced_Query (Selectors_Query insertion_sort) ix \<lparr>QueryNamespace = ''ns'', NsQuery = sample_labels\<rparr> =
       Some (Inr names)" "distinct names" "set names = {(''ns'', ''p'')}" unfolding one by blast
  moreover from this(2,3) have "names = [(''ns'', ''p'')]"
    by (cases names; cases "tl names") auto
  ultimately show ?thesis using srt items ok by blast
qed

definition repeated_selector :: LabelSelector where
  "repeated_selector = \<lparr>MatchLabels = [(''app'', ''a'')],
     MatchExpressions = [\<lparr>ReqKey = ''app'', ReqOperator = ''In'', ReqValues = [''a'']\<rparr>]\<rparr>"

definition double_value_selector :: LabelSelector where
  "double_value_selector = \<lparr>MatchLabels = [],
     MatchExpressions = [\<lparr>ReqKey = ''app'', ReqOperator = ''In'', ReqValues = [''a'', ''a'']\<rparr>]\<rparr>"

text \<open>The restriction on the selectors is needed. A selector that requires the same
  label twice is tracked without an error and selects the label set, but no query ever returns
  it, because its word repeats a letter and the word of a label set does not. A selector with a
  value listed twice makes \<open>Track\<close> panic.\<close>

theorem selector_index_repetitions:
  "selects repeated_selector (map_of [(''app'', ''a'')])
   \<and> (\<exists>ix. Selectors_Track insertion_sort NewSelectors ''p'' repeated_selector = Some (None, ix) \<and>
          Selectors_Query insertion_sort ix [(''app'', ''a'')] = Some (Inr []))
   \<and> known_operators double_value_selector
   \<and> Selectors_Track insertion_sort NewSelectors ''p'' double_value_selector = None"
proof -
  have "selects repeated_selector (map_of [(''app'', ''a'')])" "known_operators double_value_selector"
    by (simp_all add: selects_def repeated_selector_def expr_holds_def known_operators_def double_value_selector_def)
  moreover have "(case Selectors_Track insertion_sort NewSelectors ''p'' repeated_selector of
      Some (None, ix) \<Rightarrow> Selectors_Query insertion_sort ix [(''app'', ''a'')] = Some (Inr []) | _ \<Rightarrow> False)"
    by code_simp
  moreover have "Selectors_Track insertion_sort NewSelectors ''p'' double_value_selector = None"
    by code_simp
  ultimately show ?thesis by (auto split: option.splits prod.splits)
qed

end
