(* ===== verification/SetIndex.thy ===== *)
theory SetIndex
  imports SelectorIndex
begin

text \<open>
  The index of label sets, \<open>util/labelindex/sets.go\<close>: the names of the sets that
  contain a key or a key with a value are kept in two multimaps, and a query for a selector
  scans the smallest candidate list among its positive requirements. The index implements the
  same interface as the index of selectors.
\<close>

section \<open>The index\<close>

record 'n Sets =
  knownSets :: "'n SetStore"
  kvIndex :: "(KvPair, 'n) MultiMap"
  keyIndex :: "(string, 'n) MultiMap"

definition NewSets :: "'n Sets" where
  "NewSets = \<lparr>knownSets = NewSetStore, kvIndex = [], keyIndex = []\<rparr>"

fun index_pairs :: "'n \<Rightarrow> LabelSet \<Rightarrow> (KvPair, 'n) MultiMap \<times> (string, 'n) MultiMap \<Rightarrow>
    (KvPair, 'n) MultiMap \<times> (string, 'n) MultiMap" where
  "index_pairs name [] ix = ix"
| "index_pairs name (pair # labels) ix =
     index_pairs name labels (snd (mm_Insert (fst ix) pair name), snd (mm_Insert (snd ix) (Key pair) name))"

definition Sets_doTrack :: "'n Sets \<Rightarrow> 'n \<Rightarrow> (string, string) gomap \<Rightarrow> 'n Sets option" where
  "Sets_doTrack indexer name rawSet =
     (case SetStore_Insert (knownSets indexer) name rawSet of ((labels, existed), store) \<Rightarrow>
        if existed then None
        else (case index_pairs name labels (kvIndex indexer, keyIndex indexer) of (kvs, keys) \<Rightarrow>
          Some (indexer\<lparr>knownSets := store, kvIndex := kvs, keyIndex := keys\<rparr>)))"

fun unindex_pairs :: "'n \<Rightarrow> LabelSet \<Rightarrow> (KvPair, 'n) MultiMap \<times> (string, 'n) MultiMap \<Rightarrow>
    ((KvPair, 'n) MultiMap \<times> (string, 'n) MultiMap) option" where
  "unindex_pairs name [] ix = Some ix"
| "unindex_pairs name (pair # labels) ix =
     (case mm_Remove (fst ix) pair name of (kvExisted, kvs) \<Rightarrow>
        if \<not> kvExisted then None
        else (case mm_Remove (snd ix) (Key pair) name of (keyExisted, keys) \<Rightarrow>
                if \<not> keyExisted then None else unindex_pairs name labels (kvs, keys)))"

definition Sets_doUntrack :: "'n Sets \<Rightarrow> 'n \<Rightarrow> (bool \<times> 'n Sets) option" where
  "Sets_doUntrack indexer name =
     (case SetStore_Remove (knownSets indexer) name of ((labels, existed), store) \<Rightarrow>
        if \<not> existed then Some (False, indexer)
        else (case unindex_pairs name labels (kvIndex indexer, keyIndex indexer) of
                None \<Rightarrow> None
              | Some (kvs, keys) \<Rightarrow>
                  Some (True, indexer\<lparr>knownSets := store, kvIndex := kvs, keyIndex := keys\<rparr>)))"

text \<open>The result of \<open>Track\<close> is \<open>util.Empty\<close>, which is never an error.\<close>

definition Sets_Track :: "'n Sets \<Rightarrow> 'n \<Rightarrow> (string, string) gomap \<Rightarrow> (unit option \<times> 'n Sets) option" where
  "Sets_Track indexer name labels =
     (case Sets_doUntrack indexer name of
        None \<Rightarrow> None
      | Some (_, indexer') \<Rightarrow> map_option (Pair None) (Sets_doTrack indexer' name labels))"

definition Sets_Untrack :: "'n Sets \<Rightarrow> 'n \<Rightarrow> (bool \<times> 'n Sets) option" where
  "Sets_Untrack indexer name = Sets_doUntrack indexer name"

section \<open>Choosing an index for a query\<close>

datatype queryIndex = queryIndexAll | queryIndexKeyExist KeyExistReqmt | queryIndexKeyValues KeyInReqmt

definition qi_indices :: "KeyInReqmt \<Rightarrow> 'n Sets \<Rightarrow> ('n list, 's) Iter" where
  "qi_indices reqmt indexer = iter_Map (iter_FromSlice (InValues reqmt))
     (\<lambda>v. mm_get (kvIndex indexer) \<lparr>Key = InKey reqmt, Value = v\<rparr>)"

fun Cardinality :: "queryIndex \<Rightarrow> 'n Sets \<Rightarrow> int" where
  "Cardinality queryIndexAll indexer = SetStore_Len (knownSets indexer)"
| "Cardinality (queryIndexKeyExist reqmt) indexer = int (length (mm_get (keyIndex indexer) (ExistKey reqmt)))"
| "Cardinality (queryIndexKeyValues reqmt) indexer =
     iter_Sum i64 (iter_Map (qi_indices reqmt indexer) (\<lambda>ns. int (length ns)))"

fun qi_Iter :: "queryIndex \<Rightarrow> 'n Sets \<Rightarrow> ('n, 's) Iter" where
  "qi_Iter queryIndexAll indexer = iter_Map (SetStore_Iter (knownSets indexer)) fst"
| "qi_Iter (queryIndexKeyExist reqmt) indexer = iter_FromSet (mm_get (keyIndex indexer) (ExistKey reqmt))"
| "qi_Iter (queryIndexKeyValues reqmt) indexer = iter_FlatMap (qi_indices reqmt indexer) iter_FromSet"

definition replaceBetterIndex :: "'n Sets \<Rightarrow> queryIndex \<Rightarrow> queryIndex \<Rightarrow> queryIndex" where
  "replaceBetterIndex subj best candidate =
     (if Cardinality best subj > Cardinality candidate subj then candidate else best)"

definition best_index :: "'n Sets \<Rightarrow> Selector \<Rightarrow> queryIndex" where
  "best_index indexer selector =
     foldl (\<lambda>best r. replaceBetterIndex indexer best (queryIndexKeyValues r))
       (foldl (\<lambda>best r. replaceBetterIndex indexer best (queryIndexKeyExist r)) queryIndexAll (KeyExist selector))
       (KeyIn selector)"

definition Sets_Query :: "'n Sets \<Rightarrow> LabelSelector \<Rightarrow> (go_error + 'n list) option" where
  "Sets_Query indexer rawSelector =
     (case CreateSelector rawSelector of
        Inl err \<Rightarrow> Some (Inl (TagWrapf ''CanonicalizeSelector'' err ''canonicalize label selector''))
      | Inr selector \<Rightarrow>
          map_option (\<lambda>ns. Inr (collect_deduplicated ns))
            (filter_known (SetStore_Get (knownSets indexer)) (Matches selector)
               (iter_CollectSlice (qi_Iter (best_index indexer selector) indexer))))"

section \<open>The invariant\<close>

definition labels_ok :: "LabelSet \<Rightarrow> bool" where
  "labels_ok labels \<longleftrightarrow> (\<exists>rawSet. map_ok rawSet \<and> labels = CreateSet rawSet)"

definition sets_ok :: "'n Sets \<Rightarrow> bool" where
  "sets_ok ix \<longleftrightarrow>
     (\<forall>n labels. SetStore_Get (knownSets ix) n = Some labels \<longrightarrow> labels_ok labels)
   \<and> (\<forall>p n. n \<in> set (mm_get (kvIndex ix) p) \<longleftrightarrow>
        (\<exists>labels. SetStore_Get (knownSets ix) n = Some labels \<and> p \<in> set labels))
   \<and> (\<forall>k n. n \<in> set (mm_get (keyIndex ix) k) \<longleftrightarrow>
        (\<exists>labels. SetStore_Get (knownSets ix) n = Some labels \<and> k \<in> Key ` set labels))"

abbreviation get_set :: "'n Sets \<Rightarrow> 'n \<Rightarrow> LabelSet option" where
  "get_set ix \<equiv> SetStore_Get (knownSets ix)"

lemma sets_okD:
  assumes "sets_ok ix"
  shows "get_set ix n = Some labels \<Longrightarrow> labels_ok labels"
    and "n \<in> set (mm_get (kvIndex ix) p) \<longleftrightarrow> (\<exists>labels. get_set ix n = Some labels \<and> p \<in> set labels)"
    and "n \<in> set (mm_get (keyIndex ix) k) \<longleftrightarrow> (\<exists>labels. get_set ix n = Some labels \<and> k \<in> Key ` set labels)"
  using assms unfolding sets_ok_def by blast+

lemma set_set_Insert [simp]: "set (set_Insert x xs) = insert x (set xs)"
  by (auto simp: set_Insert_def)

lemma index_pairs_get:
  "n' \<in> set (mm_get (fst (index_pairs n labels ix)) p) \<longleftrightarrow> (n' = n \<and> p \<in> set labels) \<or> n' \<in> set (mm_get (fst ix) p)"
  "n' \<in> set (mm_get (snd (index_pairs n labels ix)) k) \<longleftrightarrow>
     (n' = n \<and> k \<in> Key ` set labels) \<or> n' \<in> set (mm_get (snd ix) k)"
  by (induction n labels ix rule: index_pairs.induct) (auto simp: mm_Insert_get)

lemma unindex_pairs_get:
  assumes "distinct (map Key labels)"
    and "\<And>p. p \<in> set labels \<Longrightarrow> n \<in> set (mm_get (fst ix) p)"
    and "\<And>p. p \<in> set labels \<Longrightarrow> n \<in> set (mm_get (snd ix) (Key p))"
  shows "\<exists>kvs keys. unindex_pairs n labels ix = Some (kvs, keys) \<and>
    (\<forall>n' p. n' \<in> set (mm_get kvs p) \<longleftrightarrow> n' \<in> set (mm_get (fst ix) p) \<and> \<not> (n' = n \<and> p \<in> set labels)) \<and>
    (\<forall>n' k. n' \<in> set (mm_get keys k) \<longleftrightarrow> n' \<in> set (mm_get (snd ix) k) \<and> \<not> (n' = n \<and> k \<in> Key ` set labels))"
  using assms
proof (induction labels arbitrary: ix)
  case (Cons q labels)
  let ?ix1 = "(snd (mm_Remove (fst ix) q n), snd (mm_Remove (snd ix) (Key q) n))"
  have "\<exists>kvs keys. unindex_pairs n labels ?ix1 = Some (kvs, keys) \<and>
    (\<forall>n' p. n' \<in> set (mm_get kvs p) \<longleftrightarrow> n' \<in> set (mm_get (fst ?ix1) p) \<and> \<not> (n' = n \<and> p \<in> set labels)) \<and>
    (\<forall>n' k. n' \<in> set (mm_get keys k) \<longleftrightarrow> n' \<in> set (mm_get (snd ?ix1) k) \<and> \<not> (n' = n \<and> k \<in> Key ` set labels))"
  proof (rule Cons.IH)
    show "distinct (map Key labels)" using Cons.prems(1) by simp
    show "n \<in> set (mm_get (fst ?ix1) p)" if "p \<in> set labels" for p
      using Cons.prems(1) Cons.prems(2)[of p] that by (auto simp: mm_Remove_get)
    show "n \<in> set (mm_get (snd ?ix1) (Key p))" if "p \<in> set labels" for p
      proof -
      have "Key q \<notin> Key ` set labels" using Cons.prems(1) by simp
      then have "Key p \<noteq> Key q" using that by (metis image_eqI)
      with Cons.prems(3)[of p] that show ?thesis by (simp add: mm_Remove_get)
    qed
  qed
  then obtain kvs keys where ih: "unindex_pairs n labels ?ix1 = Some (kvs, keys)"
    "\<And>n' p. n' \<in> set (mm_get kvs p) \<longleftrightarrow> n' \<in> set (mm_get (fst ?ix1) p) \<and> \<not> (n' = n \<and> p \<in> set labels)"
    "\<And>n' k. n' \<in> set (mm_get keys k) \<longleftrightarrow> n' \<in> set (mm_get (snd ?ix1) k) \<and> \<not> (n' = n \<and> k \<in> Key ` set labels)"
    by blast
  have "fst (mm_Remove (fst ix) q n)" "fst (mm_Remove (snd ix) (Key q) n)"
    using Cons.prems(2,3)[of q] by simp_all
  then have "unindex_pairs n (q # labels) ix = Some (kvs, keys)"
    using ih(1) by (simp add: case_prod_beta)
  then show ?case using ih(2,3) by (auto simp: mm_Remove_get)
next
  case Nil
  then show ?case by (cases ix) simp
qed

lemma labels_ok_distinct: "labels_ok labels \<Longrightarrow> distinct (map Key labels)"
  by (auto simp: labels_ok_def)

lemma sets_untrack_ok:
  assumes "sets_ok ix"
  shows "\<exists>ix'. Sets_doUntrack ix n = Some (get_set ix n \<noteq> None, ix') \<and> sets_ok ix' \<and>
    get_set ix' = (get_set ix)(n := None)"
proof (cases "get_set ix n")
  case None
  then have "(get_set ix)(n := None) = get_set ix" by (simp add: fun_upd_idem)
  with None assms show ?thesis
    by (auto simp: Sets_doUntrack_def SetStore_Remove_def SetStore_Get_def split: option.splits)
next
  case (Some labels)
  note inv = sets_okD[OF assms]
  have dist: "distinct (map Key labels)" by (rule labels_ok_distinct[OF inv(1)[OF Some]])
  have "\<exists>kvs keys. unindex_pairs n labels (kvIndex ix, keyIndex ix) = Some (kvs, keys) \<and>
    (\<forall>n' p. n' \<in> set (mm_get kvs p) \<longleftrightarrow> n' \<in> set (mm_get (fst (kvIndex ix, keyIndex ix)) p) \<and> \<not> (n' = n \<and> p \<in> set labels)) \<and>
    (\<forall>n' k. n' \<in> set (mm_get keys k) \<longleftrightarrow> n' \<in> set (mm_get (snd (kvIndex ix, keyIndex ix)) k) \<and> \<not> (n' = n \<and> k \<in> Key ` set labels))"
    using Some by (intro unindex_pairs_get dist) (auto simp: inv)
  then obtain kvs keys where un: "unindex_pairs n labels (kvIndex ix, keyIndex ix) = Some (kvs, keys)"
    "\<And>n' p. n' \<in> set (mm_get kvs p) \<longleftrightarrow> n' \<in> set (mm_get (kvIndex ix) p) \<and> \<not> (n' = n \<and> p \<in> set labels)"
    "\<And>n' k. n' \<in> set (mm_get keys k) \<longleftrightarrow> n' \<in> set (mm_get (keyIndex ix) k) \<and> \<not> (n' = n \<and> k \<in> Key ` set labels)"
    by auto
  define ix' where "ix' = ix\<lparr>knownSets := (knownSets ix)\<lparr>sets := map_del n (sets (knownSets ix))\<rparr>,
      kvIndex := kvs, keyIndex := keys\<rparr>"
  have run: "Sets_doUntrack ix n = Some (True, ix')"
    using Some un(1) by (simp add: Sets_doUntrack_def SetStore_Remove_def SetStore_Get_def ix'_def)
  have known: "get_set ix' = (get_set ix)(n := None)"
    by (rule ext) (simp add: ix'_def SetStore_Get_def)
  have "sets_ok ix'"
    unfolding sets_ok_def known using un(2,3) inv Some by (auto simp: ix'_def)
  with run known Some show ?thesis by auto
qed

lemma sets_track_ok:
  assumes "sets_ok ix" "map_ok raw"
  shows "\<exists>ix'. Sets_Track ix n raw = Some (None, ix') \<and> sets_ok ix' \<and>
    get_set ix' = (get_set ix)(n \<mapsto> CreateSet raw)"
proof -
  obtain ix1 where ix1: "Sets_doUntrack ix n = Some (get_set ix n \<noteq> None, ix1)" "sets_ok ix1"
      "get_set ix1 = (get_set ix)(n := None)"
    using sets_untrack_ok[OF assms(1), of n] by blast
  note inv = sets_okD[OF ix1(2)]
  define ix' where "ix' = ix1\<lparr>knownSets := (knownSets ix1)\<lparr>sets := map_put n (CreateSet raw) (sets (knownSets ix1))\<rparr>,
      kvIndex := fst (index_pairs n (CreateSet raw) (kvIndex ix1, keyIndex ix1)),
      keyIndex := snd (index_pairs n (CreateSet raw) (kvIndex ix1, keyIndex ix1))\<rparr>"
  have gone: "get_set ix1 n = None" by (simp add: ix1(3))
  have run: "Sets_Track ix n raw = Some (None, ix')"
    using gone by (simp add: Sets_Track_def ix1(1) Sets_doTrack_def SetStore_Insert_def SetStore_Get_def
        case_prod_beta ix'_def)
  have known: "get_set ix' = (get_set ix1)(n \<mapsto> CreateSet raw)"
    by (rule ext) (simp add: ix'_def SetStore_Get_def)
  have "sets_ok ix'"
    unfolding sets_ok_def known using inv gone assms(2)
    by (auto simp: ix'_def index_pairs_get labels_ok_def)
  with run known show ?thesis by (auto simp: ix1(3))
qed

section \<open>Queries\<close>

definition qi_names :: "queryIndex \<Rightarrow> 'n Sets \<Rightarrow> 'n list" where
  "qi_names qi ix = iter_CollectSlice (qi_Iter qi ix)"

text \<open>A candidate index serves a selector if every requirement it is built on belongs to the
  selector.\<close>

fun serves :: "Selector \<Rightarrow> queryIndex \<Rightarrow> bool" where
  "serves s queryIndexAll = True"
| "serves s (queryIndexKeyExist r) \<longleftrightarrow> r \<in> set (KeyExist s)"
| "serves s (queryIndexKeyValues r) \<longleftrightarrow> r \<in> set (KeyIn s)"

lemma best_index_serves: "serves s (best_index ix s)"
proof -
  have step: "serves s (foldl (\<lambda>best r. replaceBetterIndex ix best (f r)) qi rs)"
    if "serves s qi" "\<And>r. r \<in> set rs \<Longrightarrow> serves s (f r)" for qi rs and f :: "'r \<Rightarrow> queryIndex"
    using that by (induction rs arbitrary: qi) (auto simp: replaceBetterIndex_def)
  show ?thesis unfolding best_index_def by (intro step) auto
qed

lemma qi_Iter_list: "qi_names qi ix = (case qi of
    queryIndexAll \<Rightarrow> map fst (sets (knownSets ix))
  | queryIndexKeyExist r \<Rightarrow> mm_get (keyIndex ix) (ExistKey r)
  | queryIndexKeyValues r \<Rightarrow> concat (map (\<lambda>v. mm_get (kvIndex ix) \<lparr>Key = InKey r, Value = v\<rparr>) (InValues r)))"
proof (cases qi)
  case (queryIndexKeyValues r)
  have flat: "iter_FlatMap it iter_FromSet = iter_FlatMap it (\<lambda>xs. iter_FromSlice xs)" for it
    unfolding iter_FlatMap_def by (simp add: iter_FromSet_list)
  have by_values: "qi_Iter qi ix = iter_FlatMap (iter_FromSlice (map (\<lambda>v. mm_get (kvIndex ix) \<lparr>Key = InKey r, Value = v\<rparr>)
      (InValues r))) (\<lambda>xs. iter_FromSlice xs)"
    unfolding queryIndexKeyValues qi_Iter.simps qi_indices_def iter_Map_list flat by (rule refl)
  show ?thesis unfolding qi_names_def by_values iter_FlatMap_list[of _ "\<lambda>xs. xs"]
    by (simp add: queryIndexKeyValues)
qed (simp_all add: qi_names_def SetStore_Iter_def iter_lists)

lemma qi_names_known:
  assumes "sets_ok ix" "n \<in> set (qi_names qi ix)" shows "get_set ix n \<noteq> None"
  using assms sets_okD(2,3)[OF assms(1)]
  by (auto simp: qi_Iter_list SetStore_Get_def dom_map_of_conv_image_fst[symmetric] split: queryIndex.splits)

lemma qi_names_complete:
  assumes ix: "sets_ok ix" and known: "get_set ix n = Some (CreateSet raw)" and raw: "map_ok raw"
    and "serves s qi" "selector_holds s (map_of raw)"
  shows "n \<in> set (qi_names qi ix)"
proof (cases qi)
  case queryIndexAll
  then show ?thesis using known by (auto simp: qi_Iter_list SetStore_Get_def dest!: map_of_SomeD intro!: rev_image_eqI)
next
  case (queryIndexKeyExist r)
  then obtain v where "map_of raw (ExistKey r) = Some v" using assms by (auto simp: selector_holds_def)
  then have "\<lparr>Key = ExistKey r, Value = v\<rparr> \<in> set (CreateSet raw)" by (simp add: CreateSet_set map_ok_mem[OF raw])
  then show ?thesis
    using known by (force simp: queryIndexKeyExist qi_Iter_list sets_okD(3)[OF ix] intro: rev_image_eqI)
next
  case (queryIndexKeyValues r)
  then obtain v where "v \<in> set (InValues r)" "map_of raw (InKey r) = Some v"
    using assms by (auto simp: selector_holds_def)
  then have "v \<in> set (InValues r)" "\<lparr>Key = InKey r, Value = v\<rparr> \<in> set (CreateSet raw)"
    by (simp_all add: CreateSet_set map_ok_mem[OF raw])
  then show ?thesis
    using known by (auto simp: queryIndexKeyValues qi_Iter_list sets_okD(2)[OF ix])
qed

definition label_map :: "LabelSet \<Rightarrow> string \<rightharpoonup> string" where
  "label_map labels k = map_option Value (List.find (\<lambda>p. Key p = k) labels)"

lemma label_map_CreateSet: "map_ok raw \<Longrightarrow> label_map (CreateSet raw) = map_of raw"
  by (rule ext) (simp add: label_map_def CreateSet_find option.map_comp o_def option.map_ident)

lemma sets_query_ok:
  assumes "sets_ok ix" "known_operators sel"
  shows "\<exists>ns. Sets_Query ix sel = Some (Inr ns) \<and> distinct ns \<and>
    set ns = {n. \<exists>labels. get_set ix n = Some labels \<and> selects sel (label_map labels)}"
proof -
  obtain s where s: "CreateSelector sel = Inr s"
    using CreateSelector_fails[of sel] assms(2) by (cases "CreateSelector sel") auto
  define names where "names = qi_names (best_index ix s) ix"
  have "get_set ix n \<noteq> None" if "n \<in> set names" for n
    using qi_names_known[OF assms(1)] that by (simp add: names_def)
  from filter_known_ok[where get = "get_set ix" and P = "Matches s", OF this]
  obtain r where r: "filter_known (get_set ix) (Matches s) names = Some r"
      "set r = {n \<in> set names. \<exists>x. get_set ix n = Some x \<and> Matches s x}" by blast
  have "Sets_Query ix sel = Some (Inr (collect_deduplicated r))"
    using r(1) by (simp add: Sets_Query_def s names_def qi_names_def)
  moreover have "(n \<in> set names \<and> Matches s labels) \<longleftrightarrow> selects sel (label_map labels)"
    if known: "get_set ix n = Some labels" for n labels
  proof -
    obtain raw where raw: "map_ok raw" "labels = CreateSet raw"
      using sets_okD(1)[OF assms(1) known] by (auto simp: labels_ok_def)
    have "Matches s labels \<longleftrightarrow> selector_holds s (map_of raw)"
      using Matches_holds[OF CreateSelector_sorted[OF s] raw(1)] raw(2) by simp
    moreover have "selector_holds s (map_of raw) \<Longrightarrow> n \<in> set names"
      unfolding names_def using qi_names_complete[OF assms(1) _ raw(1) best_index_serves] known raw(2) by simp
    ultimately show ?thesis
      using raw by (auto simp: label_map_CreateSet CreateSelector_holds[OF s])
  qed
  then have "set r = {n. \<exists>labels. get_set ix n = Some labels \<and> selects sel (label_map labels)}"
    unfolding r(2) by blast
  ultimately show ?thesis by simp
qed

section \<open>The index implements its interface\<close>

interpretation set_index: label_index NewSets Sets_Track Sets_Untrack Sets_Query sets_ok
    "\<lambda>ix. SetStore_Get (knownSets ix)" map_ok "\<lambda>_. True" "\<lambda>raw. Some (CreateSet raw)"
    "\<lambda>sel. if known_operators sel then Some (\<lambda>_ labels. selects sel (label_map labels)) else None"
proof
  show "sets_ok NewSets"
    by (simp add: sets_ok_def NewSets_def NewSetStore_def SetStore_Get_def mm_get_def)
  show "get_set NewSets = Map.empty"
    by (rule ext) (simp add: NewSets_def NewSetStore_def SetStore_Get_def)
  show "\<exists>e i'. Sets_Track i n t = Some (e, i') \<and> sets_ok i' \<and> get_set i' = (get_set i)(n := Some (CreateSet t)) \<and>
      (e = None \<longleftrightarrow> Some (CreateSet t) \<noteq> None)"
    if "sets_ok i" "map_ok t" for i :: "'a Sets" and t n
    using sets_track_ok[OF that, of n] by auto
  show "\<exists>i'. Sets_Untrack i n = Some (get_set i n \<noteq> None, i') \<and> sets_ok i' \<and> get_set i' = (get_set i)(n := None)"
    if "sets_ok i" for i :: "'a Sets" and n
    unfolding Sets_Untrack_def by (rule sets_untrack_ok[OF that])
  show "\<exists>ns. Sets_Query i q = Some (Inr ns) \<and> distinct ns \<and> set ns = {n. \<exists>a. get_set i n = Some a \<and> P n a}"
    if "sets_ok i" "(if known_operators q then Some (\<lambda>_ labels. selects q (label_map labels)) else None) = Some P"
    for i :: "'a Sets" and q P
  proof -
    have P: "known_operators q" "P = (\<lambda>_ labels. selects q (label_map labels))"
      using that(2) by (auto split: if_splits)
    show ?thesis unfolding P(2) by (rule sets_query_ok[OF that(1) P(1)])
  qed
  show "(\<exists>f. Sets_Query i q = Some (Inl f)) \<or> Sets_Query i q = Some (Inr [])"
    if "(if known_operators q then Some (\<lambda>(_ :: 'a) labels. selects q (label_map labels)) else None) = None"
    for i :: "'a Sets" and q
    using that CreateSelector_fails[of q] by (auto simp: Sets_Query_def split: if_splits)
qed

section \<open>Properties\<close>

lemma final_items_map:
  "final_items (\<lambda>x. Some (f x)) ops (\<lambda>n. map_option f (m n)) n = map_option f (final_items Some ops m n)"
proof (induction ops arbitrary: m)
  case (Cons op ops)
  have upd: "(\<lambda>n. map_option f (m n))(k := map_option f r) = (\<lambda>n. map_option f ((m(k := r)) n))" for k r
    by (simp add: fun_eq_iff)
  show ?case
  proof (cases op)
    case (OpTrack k t)
    show ?thesis unfolding OpTrack final_items.simps
      using upd[of k "Some t"] Cons.IH[of "m(k \<mapsto> t)"] by (simp del: fun_upd_apply)
  next
    case (OpUntrack k)
    show ?thesis unfolding OpUntrack final_items.simps
      using upd[of k None] Cons.IH[of "m(k := None)"] by (simp del: fun_upd_apply)
  qed
qed simp

lemma final_items_good:
  assumes "list_all (op_good P) ops" "\<And>n t. m n = Some t \<Longrightarrow> P t" "final_items Some ops m n = Some t"
  shows "P t"
  using assms
proof (induction ops arbitrary: m)
  case (Cons op ops)
  show ?case
  proof (cases op)
    case (OpTrack k u)
    show ?thesis by (rule Cons.IH[of "m(k \<mapsto> u)"]) (use Cons.prems OpTrack in \<open>auto simp: fun_upd_def split: if_splits\<close>)
  next
    case (OpUntrack k)
    show ?thesis by (rule Cons.IH[of "m(k := None)"]) (use Cons.prems OpUntrack in \<open>auto simp: fun_upd_def split: if_splits\<close>)
  qed
qed simp

text \<open>C16: After any sequence of \<open>Track\<close> and \<open>Untrack\<close> calls the index of
  label sets does not panic, and a query returns, each once, exactly the names whose last tracked
  labels the selector selects, whichever requirement the query chose as its starting point; a
  selector with an unknown operator is an error.\<close>

theorem set_index_correct:
  assumes "list_all (op_good map_ok) ops"
  shows "\<exists>ix. run_index Sets_Track Sets_Untrack ops NewSets = Some ix \<and>
    (if known_operators sel then
       \<exists>names. Sets_Query ix sel = Some (Inr names) \<and> distinct names \<and>
         set names = {n. \<exists>raw. final_items Some ops Map.empty n = Some raw \<and> selects sel (map_of raw)}
     else \<exists>err. Sets_Query ix sel = Some (Inl err))"
proof -
  from set_index.run_index_ok[OF set_index.new_ok assms] obtain ix where
    ix: "run_index Sets_Track Sets_Untrack ops NewSets = Some ix" "sets_ok ix"
      "get_set ix = final_items (\<lambda>raw. Some (CreateSet raw)) ops Map.empty"
    by (auto simp: set_index.new_tracked)
  have known: "get_set ix n = map_option CreateSet (final_items Some ops Map.empty n)" for n
    using final_items_map[of CreateSet ops Map.empty n] by (simp add: ix(3))
  have "selects sel (label_map (CreateSet raw)) \<longleftrightarrow> selects sel (map_of raw)"
    if "final_items Some ops Map.empty n = Some raw" for n raw
    using final_items_good[OF assms _ that] by (simp add: label_map_CreateSet)
  then have "{n. \<exists>labels. get_set ix n = Some labels \<and> selects sel (label_map labels)} =
      {n. \<exists>raw. final_items Some ops Map.empty n = Some raw \<and> selects sel (map_of raw)}"
    unfolding known by auto
  then have "known_operators sel \<Longrightarrow> \<exists>names. Sets_Query ix sel = Some (Inr names) \<and> distinct names \<and>
         set names = {n. \<exists>raw. final_items Some ops Map.empty n = Some raw \<and> selects sel (map_of raw)}"
    using sets_query_ok[OF ix(2), of sel] by simp
  moreover have "\<not> known_operators sel \<Longrightarrow> \<exists>err. Sets_Query ix sel = Some (Inl err)"
    using CreateSelector_fails[of sel] by (auto simp: Sets_Query_def)
  ultimately show ?thesis using ix(1) by auto
qed

text \<open>The theorem at a sequence that tracks one label set.\<close>

theorem set_index_correct_witness:
  "list_all (op_good map_ok) [OpTrack ''pod'' sample_labels] \<and>
   (\<exists>ix names. run_index Sets_Track Sets_Untrack [OpTrack ''pod'' sample_labels] NewSets = Some ix \<and>
     Sets_Query ix sample_selector = Some (Inr names) \<and> ''pod'' \<in> set names)"
proof -
  have ok: "list_all (op_good map_ok) [OpTrack ''pod'' sample_labels]" by (simp add: sample_labels_def)
  have "known_operators sample_selector" "selects sample_selector (map_of sample_labels)"
    by (simp_all add: known_operators_def sample_selector_def selects_def expr_holds_def sample_labels_def)
  then show ?thesis using set_index_correct[OF ok, of sample_selector] ok by fastforce
qed

end
