(* ===== verification/UtilHelpers.thy ===== *)
theory UtilHelpers
  imports Prelude "HOL-Library.Word"
begin

text \<open>
  Small helpers of \<open>util/util\<close> and \<open>util/haschange\<close>: rounded division, the
  compare-and-swap loop of \<open>AtomicExtrema\<close> under concurrent writers, values that are
  initialised late, and the bit mask of change causes. \<open>None\<close> is a panic.
\<close>

unbundle bit_operations_syntax

section \<open>Rounded division\<close>

text \<open>At the type \<open>int64\<close>, the one the program uses.\<close>

definition RoundedIntDiv :: "int64 \<Rightarrow> int64 \<Rightarrow> int64 option" where
  "RoundedIntDiv numerator divisor0 =
     (let divisor = (if divisor0 < 0 then i64 (- divisor0) else divisor0)
      in if divisor = 0 then None
         else let quotient = i64 (quot numerator divisor);
                  remainder = i64 (rem numerator divisor);
                  q1 = (if numerator > 0 \<and> i64 (remainder * 2) \<ge> divisor then i64 (quotient + 1) else quotient);
                  q2 = (if numerator < 0 \<and> i64 (i64 (divisor + remainder) * 2) < divisor then i64 (q1 - 1) else q1)
              in Some q2)"

lemma quot_rem_pos:
  assumes "0 \<le> n" "0 < d" shows "quot n d = n div d" "rem n d = n mod d"
  using assms
  by (auto simp: quot_def rem_def sgn_if minus_div_mult_eq_mod)

lemma quot_rem_neg:
  assumes "n < 0" "0 < d" shows "quot n d = - (- n div d)" "rem n d = - (- n mod d)"
proof -
  show q: "quot n d = - (- n div d)" using assms by (simp add: quot_def sgn_if)
  show "rem n d = - (- n mod d)" unfolding rem_def q using minus_div_mult_eq_mod[of "- n" d] by linarith
qed

lemma RoundedIntDiv_nearest:
  assumes "\<bar>n\<bar> \<le> 2 ^ 61" "0 < d" "d \<le> 2 ^ 61"
  shows "RoundedIntDiv n d = Some ((2 * n + d) div (2 * d))"
proof -
  have wrap: "i64 x = x" if "\<bar>x\<bar> \<le> 2 ^ 63 - 1" for x
    using that by (simp add: i64_id is_int64_def abs_le_iff)
  show ?thesis
  proof (cases "0 \<le> n")
    case True
    define q r where "q = n div d" and "r = n mod d"
    have n: "n = d * q + r" and r: "0 \<le> r" "r < d" using assms by (simp_all add: q_def r_def)
    have q0: "0 \<le> q" using True assms by (simp add: q_def pos_imp_zdiv_nonneg_iff)
    have "q \<le> n" using mult_left_mono[of 1 d q] q0 n r(1) assms(2) by (simp add: mult.commute)
    then have small: "i64 q = q" "i64 r = r" "i64 (r * 2) = r * 2" "i64 (q + 1) = q + 1"
      using q0 r assms by (auto intro!: wrap)
    have "(2 * n + d) div (2 * d) = q + (2 * r + d) div (2 * d)"
    proof -
      have e: "2 * n + d = (2 * r + d) + q * (2 * d)" by (simp add: n algebra_simps)
      show ?thesis unfolding e by (rule div_mult_self1) (use assms in simp)
    qed
    moreover have "(2 * r + d) div (2 * d) = (if r * 2 \<ge> d then 1 else 0)"
    proof (cases "r * 2 \<ge> d")
      case True
      then have "(2 * r + d) div (2 * d) = 1" using r by (intro int_div_pos_eq[where r = "2 * r - d"]) auto
      with True show ?thesis by simp
    next
      case False
      then have "(2 * r + d) div (2 * d) = 0" using r by (intro div_pos_pos_trivial) auto
      with False show ?thesis by simp
    qed
    moreover have "n = 0 \<Longrightarrow> \<not> r * 2 \<ge> d" using assms(2) by (simp add: r_def)
    ultimately show ?thesis
      using assms(2) True small quot_rem_pos[OF True assms(2)]
      by (auto simp: RoundedIntDiv_def Let_def q_def[symmetric] r_def[symmetric])
  next
    case False
    then have neg: "n < 0" by simp
    define q r where "q = - n div d" and "r = - n mod d"
    have n: "- n = d * q + r" and r: "0 \<le> r" "r < d" using assms by (simp_all add: q_def r_def)
    have q0: "0 \<le> q" using neg assms by (simp add: q_def pos_imp_zdiv_nonneg_iff)
    have "q \<le> - n" using mult_left_mono[of 1 d q] q0 n r(1) assms(2) by (simp add: mult.commute)
    then have small: "i64 (- q) = - q" "i64 (- r) = - r" "i64 (d - r) = d - r" "i64 ((d - r) * 2) = (d - r) * 2"
        "i64 (- q - 1) = - q - 1"
      using q0 r assms by (auto intro!: wrap)
    have "(2 * n + d) div (2 * d) = - q + (d - 2 * r) div (2 * d)"
    proof -
      have e: "2 * n + d = (d - 2 * r) + (- q) * (2 * d)" using n by (simp add: algebra_simps)
      show ?thesis unfolding e by (rule div_mult_self1) (use assms in simp)
    qed
    moreover have "(d - 2 * r) div (2 * d) = (if (d - r) * 2 < d then -1 else 0)"
    proof (cases "(d - r) * 2 < d")
      case True
      then have "(d - 2 * r) div (2 * d) = -1" using r by (intro int_div_pos_eq[where r = "3 * d - 2 * r"]) auto
      with True show ?thesis by simp
    next
      case False
      then have "(d - 2 * r) div (2 * d) = 0" using r by (intro div_pos_pos_trivial) auto
      with False show ?thesis by simp
    qed
    ultimately show ?thesis
      using assms(2) neg small quot_rem_neg[OF neg assms(2)]
      by (auto simp: RoundedIntDiv_def Let_def q_def[symmetric] r_def[symmetric])
  qed
qed

section \<open>Compare-and-swap loops\<close>

text \<open>One writer that runs alone: the value is replaced if the new one is better. The second
  component is the result.\<close>

definition AtomicExtrema :: "('b \<Rightarrow> 'b \<Rightarrow> bool) \<Rightarrow> 'b \<Rightarrow> 'b \<Rightarrow> 'b \<times> bool" where
  "AtomicExtrema rightIsBetter other cell =
     (if \<not> rightIsBetter cell other then (cell, False) else (other, True))"

definition AtomicMax :: "'b::linorder \<Rightarrow> 'b \<Rightarrow> 'b \<times> bool" where
  "AtomicMax other cell = AtomicExtrema (\<lambda>left right. left < right) other cell"

definition AtomicMin :: "'b::linorder \<Rightarrow> 'b \<Rightarrow> 'b \<times> bool" where
  "AtomicMin other cell = AtomicExtrema (\<lambda>left right. left > right) other cell"

text \<open>Several writers on one variable, each at one of the points of the loop: before the load,
  between the load and the compare-and-swap, or returned.\<close>

datatype 'b writer = AtLoad 'b | AtSwap 'b 'b | Finished 'b bool

record 'b atomic_var =
  var :: 'b
  writers :: "'b writer list"

inductive extrema_step :: "('b \<Rightarrow> 'b \<Rightarrow> bool) \<Rightarrow> 'b atomic_var \<Rightarrow> 'b atomic_var \<Rightarrow> bool"
  for rightIsBetter :: "'b \<Rightarrow> 'b \<Rightarrow> bool" where
  load_worse: "i < length (writers s) \<Longrightarrow> writers s ! i = AtLoad other \<Longrightarrow>
    \<not> rightIsBetter (var s) other \<Longrightarrow>
    extrema_step rightIsBetter s (s\<lparr>writers := (writers s)[i := Finished other False]\<rparr>)"
| load_better: "i < length (writers s) \<Longrightarrow> writers s ! i = AtLoad other \<Longrightarrow>
    rightIsBetter (var s) other \<Longrightarrow>
    extrema_step rightIsBetter s (s\<lparr>writers := (writers s)[i := AtSwap (var s) other]\<rparr>)"
| swap_done: "i < length (writers s) \<Longrightarrow> writers s ! i = AtSwap old other \<Longrightarrow> var s = old \<Longrightarrow>
    extrema_step rightIsBetter s (s\<lparr>var := other, writers := (writers s)[i := Finished other True]\<rparr>)"
| swap_lost: "i < length (writers s) \<Longrightarrow> writers s ! i = AtSwap old other \<Longrightarrow> var s \<noteq> old \<Longrightarrow>
    extrema_step rightIsBetter s (s\<lparr>writers := (writers s)[i := AtLoad other]\<rparr>)"

fun written :: "'b writer \<Rightarrow> 'b" where
  "written (AtLoad v) = v"
| "written (AtSwap _ v) = v"
| "written (Finished v _) = v"

fun finished :: "'b writer \<Rightarrow> bool" where
  "finished (Finished _ _) = True"
| "finished _ = False"

definition extrema_inv :: "('b \<Rightarrow> 'k::linorder) \<Rightarrow> 'b \<Rightarrow> 'b list \<Rightarrow> 'b atomic_var \<Rightarrow> bool" where
  "extrema_inv key v0 vs s \<longleftrightarrow>
     map written (writers s) = vs \<and> var s \<in> insert v0 (set vs) \<and> key v0 \<le> key (var s)
   \<and> (\<forall>w \<in> set (writers s). finished w \<longrightarrow> key (written w) \<le> key (var s))
   \<and> (\<forall>w \<in> set (writers s). \<forall>old other. w = AtSwap old other \<longrightarrow> key old < key other)"

lemma map_update_same: "i < length xs \<Longrightarrow> f y = f (xs ! i) \<Longrightarrow> map f (xs[i := y]) = map f xs"
  by (simp add: map_update list_update_same_conv)

lemma extrema_inv_step:
  assumes "extrema_step (\<lambda>l r. key l < key r) s s'" "extrema_inv key v0 vs s"
  shows "extrema_inv key v0 vs s'"
  using assms
proof (cases rule: extrema_step.cases)
  case (swap_done i old other)
  have w: "AtSwap old other \<in> set (writers s)" using swap_done nth_mem by metis
  then have up: "key (var s) < key other" using assms(2) swap_done by (auto simp: extrema_inv_def)
  have "written (AtSwap old other) \<in> set (map written (writers s))" using w by (simp only: set_map image_eqI)
  then have "other \<in> set vs" using assms(2) by (auto simp: extrema_inv_def)
  with assms(2) swap_done up show ?thesis
    by (auto simp: extrema_inv_def map_update_same dest!: set_update_subset_insert[THEN subsetD]
        intro: order.trans[OF _ less_imp_le])
qed (auto simp: extrema_inv_def map_update_same not_less dest!: set_update_subset_insert[THEN subsetD])

lemma extrema_inv_init: "extrema_inv key v0 vs \<lparr>var = v0, writers = map AtLoad vs\<rparr>"
  by (auto simp: extrema_inv_def o_def)

lemma extrema_inv_reach:
  assumes "(extrema_step (\<lambda>l r. key l < key r))\<^sup>*\<^sup>* \<lparr>var = v0, writers = map AtLoad vs\<rparr> s"
  shows "extrema_inv key v0 vs s"
  using assms by (induction rule: rtranclp_induct) (auto intro: extrema_inv_init extrema_inv_step)

text \<open>Every step makes one of three counters smaller: the writers still running, those whose
  loaded value is out of date, and those before their load.\<close>

definition running :: "'b atomic_var \<Rightarrow> nat" where
  "running s = length (filter (\<lambda>w. \<not> finished w) (writers s))"

fun stale :: "'b \<Rightarrow> 'b writer \<Rightarrow> bool" where
  "stale c (AtSwap old _) = (old \<noteq> c)"
| "stale c _ = False"

fun at_load :: "'b writer \<Rightarrow> bool" where
  "at_load (AtLoad _) = True"
| "at_load _ = False"

definition extrema_measure :: "'b atomic_var \<Rightarrow> nat \<times> nat \<times> nat" where
  "extrema_measure s = (running s, length (filter (stale (var s)) (writers s)), length (filter at_load (writers s)))"

lemma filter_update_split:
  assumes "i < length xs"
  shows "length (filter P (xs[i := y])) =
    length (filter P (take i xs)) + (if P y then 1 else 0) + length (filter P (drop (Suc i) xs))"
  using assms by (simp add: upd_conv_take_nth_drop)

lemma filter_update_less:
  assumes "i < length xs" "P (xs ! i)" "\<not> P y"
  shows "length (filter P (xs[i := y])) < length (filter P xs)"
  using filter_update_split[OF assms(1), of P y] filter_update_split[OF assms(1), of P "xs ! i"] assms by simp

lemma filter_update_same:
  assumes "i < length xs" "P (xs ! i) = P y"
  shows "length (filter P (xs[i := y])) = length (filter P xs)"
  using filter_update_split[OF assms(1), of P y] filter_update_split[OF assms(1), of P "xs ! i"] assms by simp

lemma extrema_step_decreases:
  assumes "extrema_step rightIsBetter s s'"
  shows "(extrema_measure s', extrema_measure s) \<in> less_than <*lex*> less_than <*lex*> less_than"
  using assms
  by (cases rule: extrema_step.cases)
    (auto simp: extrema_measure_def running_def filter_update_less filter_update_same)

text \<open>C36: Concurrent calls of \<open>AtomicExtrema\<close> on one variable, with a comparison
  that orders values by a key, end after finitely many steps in every interleaving, and a writer
  that has not returned can always take a step; at every moment the variable is at least the
  value of every call that has returned; and when all have returned it holds the maximum of the
  initial value and of all values, as if the calls had run one after the other.\<close>

theorem AtomicExtrema_converges:
  fixes key :: "'b \<Rightarrow> 'k::linorder"
  assumes "(extrema_step (\<lambda>l r. key l < key r))\<^sup>*\<^sup>* \<lparr>var = v0, writers = map AtLoad vs\<rparr> s"
  shows "wfP (\<lambda>s' s :: 'b atomic_var. extrema_step (\<lambda>l r. key l < key r) s s')
    \<and> (running s > 0 \<longrightarrow> (\<exists>s'. extrema_step (\<lambda>l r. key l < key r) s s'))
    \<and> (\<forall>i < length vs. finished (writers s ! i) \<longrightarrow> key (vs ! i) \<le> key (var s))
    \<and> (running s = 0 \<longrightarrow> key (var s) = Max (key ` insert v0 (set vs))
        \<and> key (var s) = key (foldl (\<lambda>c v. fst (AtomicExtrema (\<lambda>l r. key l < key r) v c)) v0 vs))"
proof (intro conjI impI allI)
  note inv = extrema_inv_reach[OF assms, unfolded extrema_inv_def]
  have "wf (inv_image (less_than <*lex*> less_than <*lex*> less_than) (extrema_measure :: 'b atomic_var \<Rightarrow> _))"
    by (intro wf_inv_image wf_lex_prod wf_less_than)
  then show "wfP (\<lambda>s' s :: 'b atomic_var. extrema_step (\<lambda>l r. key l < key r) s s')"
    unfolding wfp_def by (rule wf_subset) (auto simp: inv_image_def extrema_step_decreases)
  show "\<exists>s'. extrema_step (\<lambda>l r. key l < key r) s s'" if "running s > 0"
  proof -
    obtain w where "w \<in> set (writers s)" "\<not> finished w"
      using \<open>running s > 0\<close> by (auto simp: running_def filter_empty_conv)
    then obtain i where i: "i < length (writers s)" "\<not> finished (writers s ! i)" by (metis in_set_conv_nth)
    show ?thesis
    proof (cases "writers s ! i")
      case (AtLoad v)
      with i show ?thesis by (metis load_worse load_better)
    next
      case (AtSwap old v)
      with i show ?thesis by (metis swap_done swap_lost)
    qed (use i in simp)
  qed
  have len: "length (writers s) = length vs" using inv by (metis length_map)
  show "key (vs ! i) \<le> key (var s)" if "i < length vs" "finished (writers s ! i)" for i
    using inv that len by (metis nth_map nth_mem)
  assume "running s = 0"
  then have all: "finished w" if "w \<in> set (writers s)" for w
    using that by (auto simp: running_def filter_empty_conv)
  have "key v \<le> key (var s)" if "v \<in> set vs" for v
    using inv all that by (metis (no_types, lifting) image_iff set_map)
  then show mx: "key (var s) = Max (key ` insert v0 (set vs))"
    using inv by (intro Max_eqI[symmetric]) auto
  have "key (foldl (\<lambda>c v. fst (AtomicExtrema (\<lambda>l r. key l < key r) v c)) c vs) = Max (key ` insert c (set vs))" for c vs
  proof (induction vs arbitrary: c)
    case (Cons v vs)
    let ?c = "fst (AtomicExtrema (\<lambda>l r. key l < key r) v c)"
    have "key ?c = max (key c) (key v)" by (auto simp: AtomicExtrema_def max_def)
    then have "Max (key ` insert ?c (set vs)) = Max (key ` insert c (set (v # vs)))"
      by (cases "vs = []") (simp_all add: max.assoc)
    then show ?case using Cons.IH[of ?c] by simp
  qed simp
  then show "key (var s) = key (foldl (\<lambda>c v. fst (AtomicExtrema (\<lambda>l r. key l < key r) v c)) v0 vs)"
    using mx by simp
qed

text \<open>The theorem at the initial state of two writers.\<close>

theorem AtomicExtrema_converges_witness:
  "(extrema_step (\<lambda>l r :: nat. id l < id r))\<^sup>*\<^sup>* \<lparr>var = 1, writers = map AtLoad [3, 2]\<rparr>
     \<lparr>var = 1, writers = map AtLoad [3, 2]\<rparr>
   \<and> (\<exists>s'. extrema_step (\<lambda>l r :: nat. id l < id r) \<lparr>var = 1, writers = map AtLoad [3, 2]\<rparr> s')"
proof -
  have r: "(extrema_step (\<lambda>l r :: nat. id l < id r))\<^sup>*\<^sup>* \<lparr>var = 1, writers = map AtLoad [3, 2]\<rparr>
     \<lparr>var = 1, writers = map AtLoad [3, 2]\<rparr>" by simp
  have "running \<lparr>var = 1, writers = map AtLoad [3, 2::nat]\<rparr> > 0" by (simp add: running_def)
  then show ?thesis using AtomicExtrema_converges[OF r] r by blast
qed

section \<open>Late initialisation, channels, maps\<close>

text \<open>The box and the flag of \<open>NewLateInit\<close>. A reader waits until the channel is
  closed: \<open>None\<close>.\<close>

record 'a LateInit =
  box :: 'a
  was_written :: bool

definition NewLateInit :: "'a \<Rightarrow> 'a LateInit" where
  "NewLateInit zero = \<lparr>box = zero, was_written = False\<rparr>"

definition LateInit_write :: "'a \<Rightarrow> 'a LateInit \<Rightarrow> 'a LateInit option" where
  "LateInit_write v s = (if was_written s then None else Some \<lparr>box = v, was_written = True\<rparr>)"

definition LateInit_Get :: "'a LateInit \<Rightarrow> 'a option" where
  "LateInit_Get s = (if was_written s then Some (box s) else None)"

record 'a TryRecvResult =
  Received :: bool
  ReceivedData :: 'a
  ChanClosed :: bool
  NoData :: bool

text \<open>A receive channel: the items that can be received now, and whether it is closed.\<close>

definition TryRecv :: "'a \<Rightarrow> 'a list \<times> bool \<Rightarrow> 'a TryRecvResult \<times> ('a list \<times> bool)" where
  "TryRecv zero ch =
     (case ch of
        (item # rest, closed) \<Rightarrow>
          (\<lparr>Received = True, ReceivedData = item, ChanClosed = False, NoData = False\<rparr>, (rest, closed))
      | ([], True) \<Rightarrow> (\<lparr>Received = False, ReceivedData = zero, ChanClosed = True, NoData = False\<rparr>, ch)
      | ([], False) \<Rightarrow> (\<lparr>Received = False, ReceivedData = zero, ChanClosed = False, NoData = True\<rparr>, ch))"

definition ClosedChan :: "'a list \<times> bool" where
  "ClosedChan = ([], True)"

definition GetArbitraryMapEntry :: "'k \<Rightarrow> 'v \<Rightarrow> ('k, 'v) gomap \<Rightarrow> 'k \<times> 'v \<times> bool" where
  "GetArbitraryMapEntry zk zv m = (case m of (k, v) # _ \<Rightarrow> (k, v, True) | [] \<Rightarrow> (zk, zv, False))"

lemma LateInit_once:
  "LateInit_write v (NewLateInit z) = Some s \<Longrightarrow> LateInit_Get s = Some v \<and> LateInit_write v' s = None"
  by (auto simp: LateInit_write_def NewLateInit_def LateInit_Get_def)

section \<open>Change causes\<close>

type_synonym cause = "32 word"

record Changed =
  mask :: cause

definition haschange_New :: Changed where
  "haschange_New = \<lparr>mask = 0\<rparr>"

definition HasChanged :: "Changed \<Rightarrow> bool" where
  "HasChanged changed \<longleftrightarrow> mask changed \<noteq> 0"

definition Changed_Add :: "Changed \<Rightarrow> cause \<Rightarrow> Changed" where
  "Changed_Add changed addend = changed\<lparr>mask := mask changed OR addend\<rparr>"

text \<open>The new value of the destination and the new mask.\<close>

definition Assign :: "Changed \<Rightarrow> 'a \<Rightarrow> 'a \<Rightarrow> cause \<Rightarrow> 'a \<times> Changed" where
  "Assign changed dst src c =
     (if dst \<noteq> src then (src, changed\<lparr>mask := mask changed OR c\<rparr>) else (dst, changed))"

lemma lowest_bit_removed: "m \<noteq> 0 \<Longrightarrow> m AND NOT (m AND - m) < (m :: 'w::len word)"
proof -
  assume "m \<noteq> 0"
  have "m AND NOT (m AND - m) \<noteq> m"
  proof
    assume eq: "m AND NOT (m AND - m) = m"
    have "m AND (m AND - m) = (m AND NOT (m AND - m)) AND (m AND - m)" by (simp only: eq)
    also have "\<dots> = 0" by (rule bit_eqI) (auto simp: bit_simps)
    finally have "m AND - m = 0" by (simp flip: and.assoc)
    then have "m + - m = m OR - m" by (rule disjunctive_add_eq_or)
    then have "m OR - m = 0" by simp
    then show False using \<open>m \<noteq> 0\<close> by (simp add: or_eq_0_iff)
  qed
  moreover have "m AND NOT (m AND - m) \<le> m" by (rule word_and_le2)
  ultimately show ?thesis by (simp only: order.strict_iff_order) simp
qed

text \<open>\<open>String\<close> takes the lowest bit off the mask until none is left; \<open>BitToString\<close>
  is the method of the cause type.\<close>

function mask_bits :: "cause \<Rightarrow> cause list" where
  "mask_bits m = (if m = 0 then [] else let bit = m AND - m in bit # mask_bits (m AND NOT bit))"
  by pat_completeness auto

termination
proof (relation "measure unat", goal_cases)
  case (2 m b)
  show ?case using lowest_bit_removed[OF 2(1)] unfolding 2(2) by (simp only: in_measure word_less_nat_alt[symmetric])
qed simp

declare mask_bits.simps [simp del]

definition Changed_String :: "(cause \<Rightarrow> string option) \<Rightarrow> Changed \<Rightarrow> string option" where
  "Changed_String bitToString changed =
     (if mask changed = 0 then Some ''nil''
      else foldl (\<lambda>out b. case (out, bitToString b) of
               (Some o', Some t) \<Rightarrow> Some (if o' \<noteq> [] then o' @ ''+'' @ t else t)
             | _ \<Rightarrow> None) (Some []) (mask_bits (mask changed)))"

lemma Assign_value [simp]: "fst (Assign ch dst src c) = src"
  by (simp add: Assign_def)

lemma or_nonzero [simp]: "(a :: cause) OR b \<noteq> 0 \<longleftrightarrow> a \<noteq> 0 \<or> b \<noteq> 0"
  by (simp add: or_eq_0_iff)

lemma Assign_changed:
  "c \<noteq> 0 \<Longrightarrow> HasChanged (snd (Assign ch dst src c)) \<longleftrightarrow> HasChanged ch \<or> dst \<noteq> src"
  by (simp add: Assign_def HasChanged_def)

end
