(* ===== verification/SyncTime.thy ===== *)
theory SyncTime
  imports UtilHelpers Apis Errors Iter
begin

text \<open>
  How far the pod informer of the aggregator has got: \<open>aggregator/synctime\<close> infers an
  instant from every pod event and keeps the latest, and \<open>next_event_pool.go\<close> keeps the
  keys to reconcile at the next event. The clock is the current instant, and the parser of
  time stamps (\<open>time.Parse\<close>) is an argument.
\<close>

section \<open>Interpreting a pod event\<close>

definition AnnotUpdateTriggerTime :: string where
  "AnnotUpdateTriggerTime = ''podseidon.kubewharf.io/update-trigger-time''"

definition ClockPodInterpreter :: "gotime \<Rightarrow> Pod \<Rightarrow> (go_error + gotime) option" where
  "ClockPodInterpreter now pod = Some (Inr now)"

text \<open>The selector of the deletion timestamp goes through a pointer: \<open>None\<close> is the nil
  dereference.\<close>

definition StatusPodInterpreter :: "(string \<Rightarrow> gotime option) \<Rightarrow> Pod \<Rightarrow> (go_error + gotime) option" where
  "StatusPodInterpreter parse pod =
     (case DeletionTimestamp (PodMeta pod) of
        None \<Rightarrow> None
      | Some deletion \<Rightarrow>
          (let t1 = (if \<not> time_IsZero deletion then deletion else CreationTimestamp (PodMeta pod));
               t2 = (case map_of (Annotations (PodMeta pod)) AnnotUpdateTriggerTime of
                       Some timeStr \<Rightarrow> (case parse timeStr of
                           Some updateTime \<Rightarrow> if updateTime > t1 then updateTime else t1
                         | None \<Rightarrow> t1)
                     | None \<Rightarrow> t1);
               t3 = foldl (\<lambda>t c. if LastProbeTime c > t then LastProbeTime c else t) t2 (Conditions pod)
           in Some (Inr t3)))"

section \<open>The latest instant\<close>

type_synonym sync_cell = "gotime option"

definition sync_better :: "sync_cell \<Rightarrow> sync_cell \<Rightarrow> bool" where
  "sync_better left right =
     (case left of None \<Rightarrow> True
      | Some l \<Rightarrow> (case right of None \<Rightarrow> False | Some r \<Rightarrow> r > l))"

definition initialMarker :: "gotime \<Rightarrow> sync_cell \<Rightarrow> sync_cell" where
  "initialMarker now lastInformerSync = (if lastInformerSync = None then Some now else lastInformerSync)"

definition notifier :: "(Pod \<Rightarrow> (go_error + gotime) option) \<Rightarrow> Pod \<Rightarrow> sync_cell \<Rightarrow>
    (go_error option \<times> sync_cell) option" where
  "notifier interp pod lastInformerSync =
     (case interp pod of
        None \<Rightarrow> None
      | Some (Inl err) \<Rightarrow>
          Some (Some (TagWrapf ''InterpretPod'' err ''interpreting sync timestamp from pod''), lastInformerSync)
      | Some (Inr newTime) \<Rightarrow>
          Some (None, fst (AtomicExtrema sync_better (Some newTime) lastInformerSync)))"

definition sync_reader :: "sync_cell \<Rightarrow> gotime option" where
  "sync_reader lastInformerSync = lastInformerSync"

section \<open>The pool of keys to reconcile at the next event\<close>

record 'k nextEventPool =
  undrainedTime :: "gotime option"
  lastDrain :: "gotime option"
  items :: "'k list"

definition newNextEventPool :: "'k nextEventPool" where
  "newNextEventPool = \<lparr>undrainedTime = None, lastDrain = None, items = []\<rparr>"

definition pool_Push :: "gotime \<Rightarrow> 'k \<Rightarrow> 'k nextEventPool \<Rightarrow> 'k nextEventPool" where
  "pool_Push now item pool =
     (let pool1 = (if length (items pool) = 0 then pool\<lparr>undrainedTime := Some now\<rparr> else pool)
      in pool1\<lparr>items := set_Insert item (items pool1)\<rparr>)"

definition pool_Drain :: "gotime \<Rightarrow> 'k nextEventPool \<Rightarrow>
    ('k list \<times> duration \<times> duration option) \<times> 'k nextEventPool" where
  "pool_Drain now pool =
     ((items pool,
       case undrainedTime pool of Some t \<Rightarrow> time_Sub now t | None \<Rightarrow> 0,
       map_option (time_Sub now) (lastDrain pool)),
      \<lparr>undrainedTime = None, lastDrain = Some now, items = []\<rparr>)"

definition TimeSinceLastDrain :: "gotime \<Rightarrow> 'k nextEventPool \<Rightarrow> duration" where
  "TimeSinceLastDrain now pool = (case undrainedTime pool of None \<Rightarrow> 0 | Some t \<Rightarrow> time_Sub now t)"

definition ItemCount :: "'k nextEventPool \<Rightarrow> int" where
  "ItemCount pool = int (length (items pool))"

text \<open>An item is in the pool from its push to the next drain, and the pool knows since when
  it is not empty.\<close>

definition pool_ok :: "'k nextEventPool \<Rightarrow> bool" where
  "pool_ok pool \<longleftrightarrow> distinct (items pool) \<and> (undrainedTime pool = None \<longleftrightarrow> items pool = [])"

lemma pool_ok_new [simp]: "pool_ok newNextEventPool"
  by (simp add: pool_ok_def newNextEventPool_def)

lemma pool_Push_items [simp]: "set (items (pool_Push now k pool)) = insert k (set (items pool))"
  by (auto simp: pool_Push_def Let_def set_Insert_def)

lemma pool_ok_Push [simp]: "pool_ok pool \<Longrightarrow> pool_ok (pool_Push now k pool)"
  by (auto simp: pool_ok_def pool_Push_def Let_def set_Insert_def)

lemma pool_ok_Drain [simp]: "pool_ok (snd (pool_Drain now pool))"
  by (simp add: pool_ok_def pool_Drain_def)

lemma pool_Drain_items [simp]: "fst (fst (pool_Drain now pool)) = items pool" "items (snd (pool_Drain now pool)) = []"
  by (simp_all add: pool_Drain_def)

section \<open>Properties\<close>

text \<open>Notifications one after the other.\<close>

fun notify_all :: "(Pod \<Rightarrow> (go_error + gotime) option) \<Rightarrow> Pod list \<Rightarrow> sync_cell \<Rightarrow> sync_cell option" where
  "notify_all interp [] cell = Some cell"
| "notify_all interp (pod # pods) cell =
     (case notifier interp pod cell of None \<Rightarrow> None | Some (_, cell') \<Rightarrow> notify_all interp pods cell')"

lemma sync_extrema: "fst (AtomicExtrema sync_better (Some t) cell) = Some (case cell of None \<Rightarrow> t | Some u \<Rightarrow> max u t)"
  by (auto simp: AtomicExtrema_def sync_better_def max_def split: option.splits)

lemma notify_all_Some:
  assumes "\<And>pod. pod \<in> set pods \<Longrightarrow> \<exists>t. interp pod = Some (Inr t)"
  shows "notify_all interp pods (Some u) = Some (Some (fold max (map (\<lambda>pod. projr (the (interp pod))) pods) u))"
  using assms
proof (induction pods arbitrary: u)
  case (Cons pod pods)
  obtain t where "interp pod = Some (Inr t)" using Cons.prems[of pod] by auto
  with Cons show ?case by (simp add: notifier_def sync_extrema max.commute)
qed simp

text \<open>When the interpreter understands every pod, the time the informer is taken to be
  synced to is, after any non-empty sequence of events, the latest of the times inferred from
  them, so it never goes back whatever the order of the events.\<close>

theorem synctime_is_maximum:
  assumes "\<And>pod. pod \<in> set pods \<Longrightarrow> interp pod = Some (Inr (f pod))" "pods \<noteq> []"
  shows "notify_all interp pods None = Some (Some (Max (f ` set pods)))"
proof -
  obtain pod pods' where pods: "pods = pod # pods'" using assms(2) by (cases pods) auto
  have same: "map (\<lambda>pod. projr (the (interp pod))) pods' = map f pods'"
    using assms(1) by (auto simp: pods)
  have first: "notify_all interp pods None = notify_all interp pods' (Some (f pod))"
    using assms(1)[of pod] by (simp add: pods notifier_def sync_extrema)
  have mx: "fold max (map f pods') (f pod) = Max (f ` set pods)"
    using Max.set_eq_fold[of "f pod" "map f pods'"] by (simp add: pods)
  have "\<exists>t. interp p = Some (Inr t)" if "p \<in> set pods'" for p using assms(1)[of p] that by (auto simp: pods)
  from notify_all_Some[where pods = pods' and interp = interp and u = "f pod", OF this] show ?thesis unfolding first same mx .
qed

definition sample_event_pod :: "string \<Rightarrow> string \<Rightarrow> Pod" where
  "sample_event_pod name node = \<lparr>PodMeta = \<lparr>Name = name, Namespace = ''default'', UID = name, ResourceVersion = ''1'',
       CreationTimestamp = 5, DeletionTimestamp = None, Labels = [(''app'', ''web'')], Annotations = [],
       Finalizers = [], OwnerReferences = []\<rparr>,
     Phase = ''Running'',
     Conditions = [\<lparr>CondType = ''Ready'', CondStatus = ''True'', LastProbeTime = 7, LastTransitionTime = 6\<rparr>],
     NodeName = node\<rparr>"

text \<open>The theorem with the clock interpreter.\<close>

theorem synctime_is_maximum_witness:
  "ClockPodInterpreter 9 (sample_event_pod ''a'' ''n'') = Some (Inr 9)
   \<and> notify_all (ClockPodInterpreter 9) [sample_event_pod ''a'' ''n''] None = Some (Some 9)"
  using synctime_is_maximum[of "[sample_event_pod ''a'' ''n'']" "ClockPodInterpreter 9" "\<lambda>_. 9"]
  by (simp add: ClockPodInterpreter_def)

text \<open>The interpreter that reads the pod status panics on every pod that is not being
  deleted, because it reads the deletion timestamp through a nil pointer; on the others it
  returns the latest of the deletion time, the update trigger and the probe times.\<close>

theorem StatusPodInterpreter_panics:
  "(StatusPodInterpreter parse pod = None \<longleftrightarrow> DeletionTimestamp (PodMeta pod) = None)
   \<and> (\<forall>d. DeletionTimestamp (PodMeta pod) = Some d \<longrightarrow> \<not> time_IsZero d \<longrightarrow>
        map_of (Annotations (PodMeta pod)) AnnotUpdateTriggerTime = None \<longrightarrow>
        StatusPodInterpreter parse pod = Some (Inr (Max (insert d (LastProbeTime ` set (Conditions pod))))))"
proof -
  have "foldl (\<lambda>t c. if LastProbeTime c > t then LastProbeTime c else t) d cs =
      Max (insert d (LastProbeTime ` set cs))" for d cs
  proof -
    have "foldl (\<lambda>t c. if LastProbeTime c > t then LastProbeTime c else t) d cs = fold max (map LastProbeTime cs) d"
      by (induction cs arbitrary: d) (auto simp: max_def)
    then show ?thesis using Max.set_eq_fold[of d "map LastProbeTime cs"] by simp
  qed
  then show ?thesis by (auto simp: StatusPodInterpreter_def Let_def split: option.splits)
qed

theorem StatusPodInterpreter_panics_witness:
  "StatusPodInterpreter (\<lambda>_. None) (sample_event_pod ''a'' ''n'') = None"
  using StatusPodInterpreter_panics[of "\<lambda>_. None" "sample_event_pod ''a'' ''n''"] by (simp add: sample_event_pod_def)

end
