(* ===== verification/Aggregator.thy ===== *)
theory Aggregator
  imports SyncTime SetIndex PprUtil PodStatus
begin

text \<open>
  The aggregator of one cell, \<open>aggregator/aggregator/controller.go\<close>: pod events keep
  an index of pod labels and the sync time of each informer shard; the reconciliation of a
  PodProtector counts the pods it selects, clears the admission history that the informer
  has caught up with, and writes the status back.

  Parameters: the pod listers of the shards, the informer of PodProtectors, the status endpoint
  (which transforms a world \<open>'w\<close>), the hash that assigns pods to shards
  (\<open>sharding.HashFNV32\<close>), the jitter of the delay, and the clock. The queue is the list
  of the delayed additions to it. \<open>None\<close> is a panic.
\<close>

section \<open>Caches\<close>

record Shard =
  podLister :: "string \<times> string \<Rightarrow> go_error + Pod option"
  informerSync :: sync_cell
  notifyOnInformerEvent :: "PodProtectorKey nextEventPool"

type_synonym podIndex = "string Sets Namespaced"

type_synonym delayQueue = "(PodProtectorKey \<times> duration) list"

text \<open>The error variable of the loop is overwritten by every lister.\<close>

fun findPodFromAnyShard :: "Shard list \<Rightarrow> string \<times> string \<Rightarrow> go_error option \<Rightarrow> Pod option \<times> go_error option" where
  "findPodFromAnyShard [] nsName err = (None, err)"
| "findPodFromAnyShard (shard # shards) nsName err =
     (case podLister shard nsName of
        Inr (Some pod) \<Rightarrow> (Some pod, None)
      | Inr None \<Rightarrow> findPodFromAnyShard shards nsName None
      | Inl err' \<Rightarrow> findPodFromAnyShard shards nsName (Some err'))"

definition getShardNumber :: "(string \<Rightarrow> nat) \<Rightarrow> nat \<Rightarrow> string \<Rightarrow> nat option" where
  "getShardNumber hash shardCount podName =
     (if shardCount = 0 then None else Some (hash podName mod shardCount))"

section \<open>The pods of a PodProtector\<close>

definition collect_pod :: "Shard list \<Rightarrow> string \<times> string \<Rightarrow> Pod list \<Rightarrow> go_error option \<times> Pod list" where
  "collect_pod shards podName relevantPods =
     (case findPodFromAnyShard shards podName None of
        (_, Some err) \<Rightarrow> (Some (TagWrapf ''PodListerGet'' err ''get pod from lister''), relevantPods)
      | (Some pod, None) \<Rightarrow>
          (None, if ts_IsZero (DeletionTimestamp (PodMeta pod)) then relevantPods @ [pod] else relevantPods)
      | (None, None) \<Rightarrow> (None, relevantPods))"

text \<open>The iterator of the index is built with \<open>Filter\<close>: it pushes every name, also
  after the consumer asked it to stop.\<close>

definition findRelevantPods :: "podIndex \<Rightarrow> Shard list \<Rightarrow> PodProtector \<Rightarrow> (go_error + Pod list) option" where
  "findRelevantPods index shards ppr =
     (case Namespaced_Query Sets_Query index
            \<lparr>QueryNamespace = Namespace (PprMeta ppr), NsQuery = GetAggregationSelector ppr\<rparr> of
        None \<Rightarrow> None
      | Some (Inl err) \<Rightarrow>
          Some (Inl (TagWrapf ''QueryPodIndex'' err ''query pods matching PodProtector selector from index''))
      | Some (Inr podNames) \<Rightarrow>
          (case iter_TryForEach (iter_Filter (iter_FromSlice podNames) (\<lambda>_. True)) (collect_pod shards) [] of
             (Some err, _) \<Rightarrow> Some (Inl err)
           | (None, relevantPods) \<Rightarrow> Some (Inr relevantPods)))"

section \<open>Counting\<close>

definition StatusChangeCauseAvailable :: cause where "StatusChangeCauseAvailable = 1"
definition StatusChangeCauseReady :: cause where "StatusChangeCauseReady = 2"
definition StatusChangeCauseRunning :: cause where "StatusChangeCauseRunning = 4"
definition StatusChangeCauseScheduled :: cause where "StatusChangeCauseScheduled = 8"
definition StatusChangeCauseCreated :: cause where "StatusChangeCauseCreated = 16"
definition StatusChangeCauseHistoryBucketAggregated :: cause where "StatusChangeCauseHistoryBucketAggregated = 32"
definition StatusChangeCausePending :: cause where "StatusChangeCausePending = 64"
definition StatusChangeCauseUnscheduledPending :: cause where "StatusChangeCauseUnscheduledPending = 128"

lemmas cause_defs = StatusChangeCauseAvailable_def StatusChangeCauseReady_def StatusChangeCauseRunning_def
  StatusChangeCauseScheduled_def StatusChangeCauseCreated_def StatusChangeCauseHistoryBucketAggregated_def
  StatusChangeCausePending_def StatusChangeCauseUnscheduledPending_def

definition cause_BitToString :: "cause \<Rightarrow> string option" where
  "cause_BitToString c =
     (if c = StatusChangeCauseAvailable then Some ''Available''
      else if c = StatusChangeCauseReady then Some ''Ready''
      else if c = StatusChangeCauseRunning then Some ''Running''
      else if c = StatusChangeCauseScheduled then Some ''Scheduled''
      else if c = StatusChangeCauseCreated then Some ''Created''
      else if c = StatusChangeCauseHistoryBucketAggregated then Some ''HistoryBucketAggregated''
      else if c = StatusChangeCausePending then Some ''Pending''
      else if c = StatusChangeCauseUnscheduledPending then Some ''UnscheduledPending''
      else None)"

text \<open>The local counters of the loop over the pods, with the requeue period that
  \<open>GetPodStatus\<close> shortens.\<close>

record Tally =
  t_ready :: int32
  t_scheduled :: int32
  t_running :: int32
  t_available :: int32
  t_pending :: int32
  t_unscheduled :: int32
  t_requeue :: requeue

definition incr :: "bool \<Rightarrow> int32 \<Rightarrow> int32" where
  "incr b n = (if b then i32 (n + 1) else n)"

definition count_pod :: "gotime \<Rightarrow> int32 \<Rightarrow> Tally \<Rightarrow> Pod \<Rightarrow> Tally" where
  "count_pod now minReadySeconds t pod =
     (let (podStatus, requeue) = GetPodStatus now pod minReadySeconds (t_requeue t);
          pending = (Phase pod = ''Pending'')
      in \<lparr>t_ready = incr (IsReady podStatus) (t_ready t),
          t_scheduled = incr (IsScheduled podStatus) (t_scheduled t),
          t_running = incr (IsRunning podStatus) (t_running t),
          t_available = incr (IsAvailable podStatus) (t_available t),
          t_pending = incr pending (t_pending t),
          t_unscheduled = incr (pending \<and> NodeName pod = []) (t_unscheduled t),
          t_requeue = requeue\<rparr>)"

definition assignOptionalInt32 :: "Changed \<Rightarrow> int32 option \<Rightarrow> int32 \<Rightarrow> cause \<Rightarrow> int32 option \<times> Changed" where
  "assignOptionalInt32 changed target v c =
     (if target = None \<or> target \<noteq> Some v then (Some v, Changed_Add changed c) else (target, changed))"

definition aggregateStatus :: "gotime \<Rightarrow> Pod list \<Rightarrow> PodProtector \<Rightarrow> requeue \<Rightarrow> PodProtectorAggregation \<Rightarrow> Changed \<Rightarrow>
    go_error + (requeue \<times> PodProtectorAggregation \<times> Changed)" where
  "aggregateStatus now relevantPods ppr requeue target changed =
     (if int (length relevantPods) > MaxInt32 then
        Inl (TagErrorf ''TooManyRelevantPods'' ''more than 2^31 pods'')
      else
        let totalReplicas = i32 (int (length relevantPods));
            (total, ch1) = Assign changed (TotalReplicas target) totalReplicas StatusChangeCauseCreated;
            t = foldl (count_pod now (MinReadySeconds (Spec ppr)))
                  \<lparr>t_ready = 0, t_scheduled = 0, t_running = 0, t_available = 0, t_pending = 0,
                   t_unscheduled = 0, t_requeue = requeue\<rparr> relevantPods;
            (ready, ch2) = Assign ch1 (ReadyReplicas target) (t_ready t) StatusChangeCauseReady;
            (scheduled, ch3) = Assign ch2 (ScheduledReplicas target) (t_scheduled t) StatusChangeCauseScheduled;
            (run, ch4) = Assign ch3 (RunningReplicas target) (t_running t) StatusChangeCauseRunning;
            (available, ch5) = Assign ch4 (AvailableReplicas target) (t_available t) StatusChangeCauseAvailable;
            (pending, ch6) = assignOptionalInt32 ch5 (PendingReplicas target) (t_pending t) StatusChangeCausePending;
            (unscheduled, ch7) = assignOptionalInt32 ch6 (UnscheduledPendingReplicas target) (t_unscheduled t)
              StatusChangeCauseUnscheduledPending
        in Inr (t_requeue t,
             target\<lparr>TotalReplicas := total, ReadyReplicas := ready, ScheduledReplicas := scheduled,
               RunningReplicas := run, AvailableReplicas := available, PendingReplicas := pending,
               UnscheduledPendingReplicas := unscheduled\<rparr>, ch7))"

section \<open>Clearing the admission history\<close>

record lastEventTimeList =
  let_shards :: "gotime list"
  let_min :: gotime

definition lastEventTime_get :: "lastEventTimeList \<Rightarrow> nat option \<Rightarrow> gotime option" where
  "lastEventTime_get l shardNumber =
     (case shardNumber of
        Some i \<Rightarrow> if i < length (let_shards l) then Some (let_shards l ! i) else None
      | None \<Rightarrow> Some (let_min l))"

definition mark_before :: "gotime list \<Rightarrow> gotime \<Rightarrow> bool list \<Rightarrow> bool list" where
  "mark_before evTimes t outstanding = map (\<lambda>(o', s). o' \<or> s < t) (zip outstanding evTimes)"

text \<open>One iteration of the loop over the buckets. The state is the flag, the buckets kept so
  far and the shards with outstanding buckets.\<close>

definition bucket_step :: "(string \<Rightarrow> nat) \<Rightarrow> nat \<Rightarrow> lastEventTimeList \<Rightarrow> bucket \<Rightarrow>
    bool \<times> bucket list \<times> bool list \<Rightarrow> (bool \<times> bucket list \<times> bool list) option" where
  "bucket_step hash shardCount evTimes b st =
     (case st of (changed, newBuckets, outstanding) \<Rightarrow>
        if PodUid b \<noteq> None then do {
          shardNumber \<leftarrow> (if BucketPodName b = [] then Some None
                          else map_option Some (getShardNumber hash shardCount (BucketPodName b)));
          t \<leftarrow> lastEventTime_get evTimes shardNumber;
          if StartTime b < t then Some (True, newBuckets, outstanding)
          else Some (changed, newBuckets @ [b],
                 case shardNumber of
                   Some i \<Rightarrow> outstanding[i := True]
                 | None \<Rightarrow> mark_before (let_shards evTimes) (StartTime b) outstanding)
        }
        else (case EndTime b of
                None \<Rightarrow> None
              | Some e \<Rightarrow>
                  if e < let_min evTimes then Some (True, newBuckets, outstanding)
                  else Some (changed, newBuckets @ [b],
                         mark_before (let_shards evTimes) (StartTime b) outstanding)))"

fun bucket_loop :: "(string \<Rightarrow> nat) \<Rightarrow> nat \<Rightarrow> lastEventTimeList \<Rightarrow> bucket list \<Rightarrow>
    bool \<times> bucket list \<times> bool list \<Rightarrow> (bool \<times> bucket list \<times> bool list) option" where
  "bucket_loop hash shardCount evTimes [] st = Some st"
| "bucket_loop hash shardCount evTimes (b # bs) st = do {
     st' \<leftarrow> bucket_step hash shardCount evTimes b st;
     bucket_loop hash shardCount evTimes bs st'
   }"

definition push_outstanding :: "gotime \<Rightarrow> PodProtectorKey \<Rightarrow> bool list \<Rightarrow> Shard list \<Rightarrow> Shard list" where
  "push_outstanding now queueItem outstanding shards =
     map (\<lambda>(shard, has). if has
            then shard\<lparr>notifyOnInformerEvent := pool_Push now queueItem (notifyOnInformerEvent shard)\<rparr>
            else shard) (zip shards outstanding)"

definition updateLastEventTime :: "(string \<Rightarrow> nat) \<Rightarrow> gotime \<Rightarrow> Shard list \<Rightarrow> PodProtectorKey \<Rightarrow> cell \<Rightarrow> Changed \<Rightarrow>
    lastEventTimeList \<Rightarrow> (cell \<times> Changed \<times> Shard list) option" where
  "updateLastEventTime hash now shards queueItem outputStatus outputChanged evTimes = do {
     (changed, newBuckets, outstanding) \<leftarrow> bucket_loop hash (length shards) evTimes
        (cell_buckets outputStatus) (False, [], replicate (length shards) False);
     let (status', changed') =
       (if changed then (outputStatus\<lparr>History := \<lparr>Buckets = newBuckets\<rparr>\<rparr>,
                         Changed_Add outputChanged StatusChangeCauseHistoryBucketAggregated)
        else (outputStatus, outputChanged));
     Some (status', changed',
       if length newBuckets > 0 then push_outstanding now queueItem outstanding shards else shards)
   }"

section \<open>Reconciliation\<close>

record EndReconcile =
  EndErr :: "go_error option"
  EndHasChange :: Changed
  EndAction :: string

definition end_error :: "go_error \<Rightarrow> EndReconcile" where
  "end_error err = \<lparr>EndErr = Some err, EndHasChange = haschange_New, EndAction = []\<rparr>"

record 'w AggEnv =
  agg_cellId :: string
  agg_config :: ConfigOptions
  agg_now :: gotime
  agg_selector :: "(string, string) gomap \<Rightarrow> bool"
  agg_pprGet :: "PodProtectorKey \<Rightarrow> go_error + PodProtector option"
  agg_UpdateStatus :: "string \<Rightarrow> PodProtector \<Rightarrow> 'w \<Rightarrow> go_error option \<times> 'w"
  agg_hash :: "string \<Rightarrow> nat"
  agg_sort :: "bucket sorter"

record AggState =
  st_index :: podIndex
  st_shards :: "Shard list"
  st_queue :: delayQueue

text \<open>The sync times of all shards, if each has one.\<close>

fun read_sync :: "Shard list \<Rightarrow> gotime list option" where
  "read_sync [] = Some []"
| "read_sync (shard # shards) =
     (case sync_reader (informerSync shard) of
        None \<Rightarrow> None
      | Some t \<Rightarrow> map_option (Cons t) (read_sync shards))"

text \<open>The end of the reconciliation: summarise and write if anything changed.\<close>

definition write_status :: "'w AggEnv \<Rightarrow> PodProtectorKey \<Rightarrow> PodProtector \<Rightarrow> Changed \<Rightarrow> 'w \<Rightarrow>
    (EndReconcile \<times> 'w) option" where
  "write_status env queueItem ppr hasChange w =
     (if HasChanged hasChange then do {
        ppr' \<leftarrow> Summarize (agg_sort env) (Compute (agg_config env) (Some (HistoryConfig (Spec ppr)))) ppr;
        case agg_UpdateStatus env (SourceName queueItem) ppr' w of
          (Some err, w') \<Rightarrow>
            Some (\<lparr>EndErr = Some (TagWrapf ''UpdatePprStatus'' err
                     ''apiserver error while updating aggregation status''),
                   EndHasChange = hasChange, EndAction = []\<rparr>, w')
        | (None, w') \<Rightarrow> Some (\<lparr>EndErr = None, EndHasChange = hasChange, EndAction = ''Updated''\<rparr>, w')
      }
      else Some (\<lparr>EndErr = None, EndHasChange = hasChange, EndAction = ''Updated''\<rparr>, w))"

text \<open>The middle: aggregate into the cell at \<open>idx\<close> of \<open>cells\<close>, clear its
  history, then write.\<close>

definition reconcile_cell :: "'w AggEnv \<Rightarrow> PodProtectorKey \<Rightarrow> AggState \<Rightarrow> PodProtector \<Rightarrow> cell list \<Rightarrow> nat \<Rightarrow>
    Pod list \<Rightarrow> 'w \<Rightarrow> (EndReconcile \<times> AggState \<times> 'w) option" where
  "reconcile_cell env queueItem st ppr cells idx relevantPods w =
     (case aggregateStatus (agg_now env) relevantPods ppr (Some None) (Aggregation (cells ! idx)) haschange_New of
        Inl err \<Rightarrow> Some (end_error err, st, w)
      | Inr (requeue, aggregation, changed1) \<Rightarrow>
          (case read_sync (st_shards st) of
             None \<Rightarrow> Some (end_error (TagErrorf ''NoInformerSyncTime''
                       ''did not receive prior informer sync time''), st, w)
           | Some evTimes \<Rightarrow> do {
               minLastEventTime \<leftarrow> MustGet (iter_Extremum 0 (iter_FromSlice evTimes) (\<lambda>a b. a > b));
               (status, changed2, shards) \<leftarrow> updateLastEventTime (agg_hash env) (agg_now env) (st_shards st)
                  queueItem ((cells ! idx)\<lparr>Aggregation := aggregation\<rparr>) changed1
                  \<lparr>let_shards = evTimes, let_min = minLastEventTime\<rparr>;
               let status' = (if HasChanged changed2
                  then status\<lparr>Aggregation := (Aggregation status)\<lparr>LastEventTime := minLastEventTime\<rparr>\<rparr>
                  else status);
               let st' = st\<lparr>st_shards := shards,
                  st_queue := (case requeue of Some (Some d) \<Rightarrow> st_queue st @ [(queueItem, d)] | _ \<Rightarrow> st_queue st)\<rparr>;
               (result, w') \<leftarrow> write_status env queueItem
                  (ppr\<lparr>Status := (Status ppr)\<lparr>Cells := cells[idx := status']\<rparr>\<rparr>) changed2 w;
               Some (result, st', w')
             }))"

definition tryReconcile :: "'w AggEnv \<Rightarrow> PodProtectorKey \<Rightarrow> AggState \<Rightarrow> 'w \<Rightarrow> (EndReconcile \<times> AggState \<times> 'w) option" where
  "tryReconcile env queueItem st w =
     (case agg_pprGet env queueItem of
        Inl err \<Rightarrow> Some (end_error (TagWrapf ''PprListerGet'' err ''get PodProtector from lister''), st, w)
      | Inr None \<Rightarrow> Some (\<lparr>EndErr = None, EndHasChange = haschange_New, EndAction = ''NoPpr''\<rparr>, st, w)
      | Inr (Some ppr) \<Rightarrow>
          if \<not> agg_selector env (Labels (PprMeta ppr)) then
            Some (\<lparr>EndErr = None, EndHasChange = haschange_New, EndAction = ''SelectorMismatch''\<rparr>, st, w)
          else
            (case findRelevantPods (st_index st) (st_shards st) ppr of
               None \<Rightarrow> None
             | Some (Inl err) \<Rightarrow> Some (end_error err, st, w)
             | Some (Inr relevantPods) \<Rightarrow>
                 (let cells = Cells (Status ppr);
                      statusIndex = FindInSliceWith cells (\<lambda>c. CellId c = agg_cellId env)
                  in if statusIndex = -1 \<and> length relevantPods = 0 then
                       Some (\<lparr>EndErr = None, EndHasChange = haschange_New, EndAction = ''Updated''\<rparr>, st, w)
                     else if statusIndex = -1 then
                       reconcile_cell env queueItem st ppr (cells @ [new_cell (agg_cellId env)]) (length cells)
                         relevantPods w
                     else reconcile_cell env queueItem st ppr cells (nat statusIndex) relevantPods w)))"

definition reconcile :: "'w AggEnv \<Rightarrow> PodProtectorKey \<Rightarrow> AggState \<Rightarrow> 'w \<Rightarrow> (go_error option \<times> AggState \<times> 'w) option" where
  "reconcile env item st w = do {
     (status, st', w') \<leftarrow> tryReconcile env item st w;
     Some (EndErr status, st', w')
   }"

section \<open>Pod events\<close>

definition enqueueDelayed :: "(duration \<Rightarrow> duration) \<Rightarrow> ConfigOptions \<Rightarrow> PodProtectorKey \<Rightarrow>
    (PodProtectorKey \<Rightarrow> go_error + PodProtector option) \<Rightarrow> delayQueue \<Rightarrow> delayQueue" where
  "enqueueDelayed jitter defaultConf key pprGet queue =
     (let pprConfig = (case pprGet key of
            Inr ppr \<Rightarrow> map_option (\<lambda>p. HistoryConfig (Spec p)) ppr
          | Inl _ \<Rightarrow> None)
      in queue @ [(key, jitter (AggregationRate (Compute defaultConf pprConfig)))])"

text \<open>The object of an event: a pod, the last known state of a deleted object, or something
  else.\<close>

datatype EventObject = EventPod Pod | DeletedFinalStateUnknown EventObject | EventOther

record podEventHandler =
  ev_config :: ConfigOptions
  ev_jitter :: "duration \<Rightarrow> duration"
  ev_pprGet :: "PodProtectorKey \<Rightarrow> go_error + PodProtector option"
  ev_pprQuery :: "string \<Rightarrow> (string, string) gomap \<Rightarrow> PodProtectorKey list"
  ev_interpret :: "Pod \<Rightarrow> (go_error + gotime) option"
  ev_now :: gotime

text \<open>The event handler of the shard with the given number. An event that is not about a pod,
  or whose sync time cannot be read, is only reported.\<close>

definition handle_event :: "podEventHandler \<Rightarrow> nat \<Rightarrow> EventObject \<Rightarrow> bool \<Rightarrow> AggState \<Rightarrow> AggState option" where
  "handle_event h shardNumber obj stillPresent st =
     (case (case obj of DeletedFinalStateUnknown o' \<Rightarrow> o' | _ \<Rightarrow> obj) of
        EventPod pod \<Rightarrow> do {
          let podNsName = (Namespace (PodMeta pod), Name (PodMeta pod));
          index \<leftarrow> (if stillPresent
             then map_option snd (Namespaced_Track NewSets Sets_Track (st_index st) podNsName (Labels (PodMeta pod)))
             else map_option snd (Namespaced_Untrack Sets_Untrack (st_index st) podNsName));
          let shard = st_shards st ! shardNumber;
          (err, sync) \<leftarrow> notifier (ev_interpret h) pod (informerSync shard);
          let st1 = st\<lparr>st_index := index, st_shards := (st_shards st)[shardNumber := shard\<lparr>informerSync := sync\<rparr>]\<rparr>;
          if err \<noteq> None then Some st1
          else do {
            let matchedPprs = ev_pprQuery h (Namespace (PodMeta pod)) (Labels (PodMeta pod));
            let ((drained, _), pool) = pool_Drain (ev_now h) (notifyOnInformerEvent shard);
            let triggerReconcile = foldl (\<lambda>s ppr. set_Insert ppr s) drained matchedPprs;
            Some (st1\<lparr>st_shards := (st_shards st1)[shardNumber :=
                        shard\<lparr>informerSync := sync, notifyOnInformerEvent := pool\<rparr>],
                      st_queue := foldl (\<lambda>q key. enqueueDelayed (ev_jitter h) (ev_config h) key (ev_pprGet h) q)
                        (st_queue st1) triggerReconcile\<rparr>)
          }
        }
      | _ \<Rightarrow> Some st)"

definition OnAdd :: "podEventHandler \<Rightarrow> nat \<Rightarrow> EventObject \<Rightarrow> AggState \<Rightarrow> AggState option" where
  "OnAdd h shardNumber obj st = handle_event h shardNumber obj True st"

definition OnUpdate :: "podEventHandler \<Rightarrow> nat \<Rightarrow> EventObject \<Rightarrow> EventObject \<Rightarrow> AggState \<Rightarrow> AggState option" where
  "OnUpdate h shardNumber oldObj newObj st = handle_event h shardNumber newObj True st"

definition OnDelete :: "podEventHandler \<Rightarrow> nat \<Rightarrow> EventObject \<Rightarrow> AggState \<Rightarrow> AggState option" where
  "OnDelete h shardNumber obj st = handle_event h shardNumber obj False st"

section \<open>Start\<close>

type_synonym lister = "string \<times> string \<Rightarrow> go_error + Pod option"

text \<open>\<open>createPodInformer\<close> may fail while it registers the transformation or the handler;
  its lister is an argument.\<close>

definition newPodInformerShard :: "(go_error + lister) \<Rightarrow> go_error + Shard" where
  "newPodInformerShard informer =
     (case informer of
        Inl err \<Rightarrow> Inl (TagWrapf ''CreatePodInformer'' err ''start PodProtector informer'')
      | Inr getPod \<Rightarrow> Inr \<lparr>podLister = getPod, informerSync = None, notifyOnInformerEvent = newNextEventPool\<rparr>)"

fun init_shards :: "(nat \<Rightarrow> go_error + lister) \<Rightarrow> nat list \<Rightarrow> go_error + Shard list" where
  "init_shards informers [] = Inr []"
| "init_shards informers (i # is) =
     (case newPodInformerShard (informers i) of
        Inl err \<Rightarrow> Inl err
      | Inr shard \<Rightarrow> (case init_shards informers is of Inl err \<Rightarrow> Inl err | Inr shards \<Rightarrow> Inr (shard # shards)))"

definition initController :: "int \<Rightarrow> (nat \<Rightarrow> go_error + lister) \<Rightarrow> go_error + AggState" where
  "initController podInformerShards informers =
     (if podInformerShards < 1 then
        Inl (TagErrorf ''TooFewShards'' ''--aggregator-pod-informer-shards must be a positive integer'')
      else (case init_shards informers [0..<nat podInformerShards] of
              Inl err \<Rightarrow> Inl err
            | Inr shards \<Rightarrow> Inr \<lparr>st_index = NewNamespaced, st_shards = shards, st_queue = []\<rparr>))"

record ListOptions =
  LabelSelectorString :: string
  ShardingIndex :: int
  ShardingCount :: int
  ShardingLabelKey :: string

definition configureListOptions :: "string \<Rightarrow> int \<Rightarrow> string \<Rightarrow> nat \<Rightarrow> ListOptions \<Rightarrow> ListOptions" where
  "configureListOptions podLabelSelector podInformerShards defaultKey shardNumber listOptions =
     (let l = listOptions\<lparr>LabelSelectorString := podLabelSelector\<rparr>
      in if podInformerShards > 1
         then l\<lparr>ShardingIndex := int shardNumber, ShardingCount := podInformerShards, ShardingLabelKey := defaultKey\<rparr>
         else l)"

text \<open>The list function of the informer: an empty list marks the shard as synced now.\<close>

definition list_pods :: "gotime \<Rightarrow> (ListOptions \<Rightarrow> go_error + Pod list) \<Rightarrow> (ListOptions \<Rightarrow> ListOptions) \<Rightarrow> ListOptions \<Rightarrow>
    Shard \<Rightarrow> (go_error + Pod list) \<times> Shard" where
  "list_pods now List configure listOptions shard =
     (case List (configure listOptions) of
        Inl err \<Rightarrow> (Inl err, shard)
      | Inr pods \<Rightarrow> (Inr pods, if length pods = 0 then shard\<lparr>informerSync := initialMarker now (informerSync shard)\<rparr> else shard))"

text \<open>The controller starts with at least one shard, none of which has a sync time.\<close>

lemma init_shards_all:
  "init_shards informers is = Inr shards \<Longrightarrow> length shards = length is \<and>
     (\<forall>shard \<in> set shards. informerSync shard = None \<and> notifyOnInformerEvent shard = newNextEventPool)"
  by (induction "is" arbitrary: shards) (auto simp: newPodInformerShard_def split: sum.splits)

lemma initController_shards:
  "initController n informers = Inr st \<Longrightarrow> st_shards st \<noteq> [] \<and> int (length (st_shards st)) = n \<and> read_sync (st_shards st) = None"
proof -
  assume init: "initController n informers = Inr st"
  then have st: "init_shards informers [0..<nat n] = Inr (st_shards st)" "1 \<le> n"
    by (auto simp: initController_def split: if_splits sum.splits)
  have "length (st_shards st) = nat n" using init_shards_all[OF st(1)] by simp
  moreover from this st(2) obtain shard rest where "st_shards st = shard # rest" by (cases "st_shards st") auto
  moreover from this init_shards_all[OF st(1)] have "informerSync shard = None" by simp
  ultimately show ?thesis using st(2) by (simp add: sync_reader_def)
qed

end
