(* ===== verification/AggregatorHistory.thy ===== *)
theory AggregatorHistory
  imports Aggregator
begin

text \<open>
  What the aggregator does with the admission history of its cell: which buckets
  \<open>updateLastEventTime\<close> clears, which it keeps, and which informer shards wake the
  reconciliation up again for those it keeps.
\<close>

section \<open>The buckets an aggregation has observed\<close>

definition observed :: "(string \<Rightarrow> nat) \<Rightarrow> lastEventTimeList \<Rightarrow> bucket \<Rightarrow> bool" where
  "observed hash l b =
     (case PodUid b of
        Some _ \<Rightarrow> StartTime b <
          (if BucketPodName b = [] then let_min l
           else let_shards l ! (hash (BucketPodName b) mod length (let_shards l)))
      | None \<Rightarrow> bucket_end b < let_min l)"

definition waits_for :: "(string \<Rightarrow> nat) \<Rightarrow> lastEventTimeList \<Rightarrow> bucket \<Rightarrow> nat \<Rightarrow> bool" where
  "waits_for hash l b i \<longleftrightarrow>
     (if PodUid b \<noteq> None \<and> BucketPodName b \<noteq> [] then i = hash (BucketPodName b) mod length (let_shards l)
      else let_shards l ! i < StartTime b)"

lemma mark_before_nth:
  "length outstanding = length ts \<Longrightarrow>
   mark_before ts t outstanding = map (\<lambda>i. outstanding ! i \<or> ts ! i < t) [0..<length ts]"
  by (rule nth_equalityI) (auto simp: mark_before_def)

lemma mark_one_nth:
  "outstanding[j := True] = map (\<lambda>i. outstanding ! i \<or> i = j) [0..<length outstanding]"
proof (rule nth_equalityI)
  fix i assume "i < length (outstanding[j := True])"
  then show "outstanding[j := True] ! i = map (\<lambda>i. outstanding ! i \<or> i = j) [0..<length outstanding] ! i"
    by (cases "i = j") auto
qed simp

lemma map_upt_same: "length xs = n \<Longrightarrow> map (\<lambda>i. xs ! i) [0..<n] = xs"
  using map_nth[of xs] by simp

lemma bucket_step_eq:
  assumes "bucket_wf b" "let_shards l \<noteq> []" "length outstanding = length (let_shards l)"
  shows "bucket_step hash (length (let_shards l)) l b (changed, kept, outstanding) = Some
    (if observed hash l b then (True, kept, outstanding)
     else (changed, kept @ [b], map (\<lambda>i. outstanding ! i \<or> waits_for hash l b i) [0..<length (let_shards l)]))"
proof (cases "PodUid b")
  case None
  then show ?thesis using assms
    by (auto simp: bucket_step_def bucket_wf_def observed_def waits_for_def bucket_end_def mark_before_nth)
next
  case (Some uid)
  then show ?thesis using assms
    by (auto simp: bucket_step_def observed_def waits_for_def getShardNumber_def lastEventTime_get_def
        mark_before_nth mark_one_nth)
qed

lemma bucket_loop_eq:
  assumes "list_all bucket_wf bs" "let_shards l \<noteq> []" "length outstanding = length (let_shards l)"
  shows "bucket_loop hash (length (let_shards l)) l bs (changed, kept, outstanding) = Some
    (changed \<or> (\<exists>b \<in> set bs. observed hash l b), kept @ filter (\<lambda>b. \<not> observed hash l b) bs,
     map (\<lambda>i. outstanding ! i \<or> (\<exists>b \<in> set bs. \<not> observed hash l b \<and> waits_for hash l b i)) [0..<length (let_shards l)])"
  using assms
proof (induction bs arbitrary: changed kept outstanding)
  case Nil
  then show ?case by (simp add: map_upt_same)
next
  case (Cons b bs)
  note step = bucket_step_eq[OF _ Cons.prems(2,3), of b hash changed kept]
  show ?case
  proof (cases "observed hash l b")
    case True
    then show ?thesis using Cons step by simp
  next
    case False
    have "map (\<lambda>i. (map (\<lambda>i. outstanding ! i \<or> waits_for hash l b i) [0..<length (let_shards l)]) ! i \<or> P i)
        [0..<length (let_shards l)] =
      map (\<lambda>i. outstanding ! i \<or> waits_for hash l b i \<or> P i) [0..<length (let_shards l)]" for P
      by (rule map_cong) auto
    with False show ?thesis using Cons step by simp
  qed
qed

lemma push_outstanding_nth:
  assumes "i < length shards" "length outstanding = length shards"
  shows "push_outstanding now k outstanding shards ! i =
    (if outstanding ! i then (shards ! i)\<lparr>notifyOnInformerEvent := pool_Push now k (notifyOnInformerEvent (shards ! i))\<rparr>
     else shards ! i)"
  using assms by (simp add: push_outstanding_def)

lemma push_outstanding_length [simp]:
  "length outstanding = length shards \<Longrightarrow> length (push_outstanding now k outstanding shards) = length shards"
  by (simp add: push_outstanding_def)

definition wake :: "gotime \<Rightarrow> PodProtectorKey \<Rightarrow> (nat \<Rightarrow> bool) \<Rightarrow> Shard list \<Rightarrow> Shard list" where
  "wake now k P shards = map (\<lambda>i. if P i
     then (shards ! i)\<lparr>notifyOnInformerEvent := pool_Push now k (notifyOnInformerEvent (shards ! i))\<rparr>
     else shards ! i) [0..<length shards]"

lemma push_outstanding_wake:
  "push_outstanding now k (map P [0..<length shards]) shards = wake now k P shards"
  by (rule nth_equalityI) (auto simp: push_outstanding_nth wake_def)

lemma wake_nobody: "(\<And>i. \<not> P i) \<Longrightarrow> wake now k P shards = shards"
  by (simp add: wake_def map_upt_same)

lemma wake_items:
  "i < length shards \<Longrightarrow> k' \<in> set (items (notifyOnInformerEvent (wake now k P shards ! i))) \<longleftrightarrow>
     k' \<in> set (items (notifyOnInformerEvent (shards ! i))) \<or> (k' = k \<and> P i)"
  by (auto simp: wake_def)

lemma Changed_Add_HasChanged [simp]: "c \<noteq> 0 \<Longrightarrow> HasChanged (Changed_Add ch c)"
  by (simp add: HasChanged_def Changed_Add_def or_nonzero)

lemma history_cause_nonzero [simp]: "StatusChangeCauseHistoryBucketAggregated \<noteq> 0"
  by (simp add: cause_defs)

text \<open>The whole of \<open>updateLastEventTime\<close> on well-formed buckets.\<close>

lemma updateLastEventTime_eq:
  assumes "cell_wf c" "shards \<noteq> []" "length (let_shards l) = length shards"
  shows "updateLastEventTime hash now shards k c ch l = Some
    (c\<lparr>History := \<lparr>Buckets = filter (\<lambda>b. \<not> observed hash l b) (cell_buckets c)\<rparr>\<rparr>,
     if \<exists>b \<in> set (cell_buckets c). observed hash l b
       then Changed_Add ch StatusChangeCauseHistoryBucketAggregated else ch,
     wake now k (\<lambda>i. \<exists>b \<in> set (cell_buckets c). \<not> observed hash l b \<and> waits_for hash l b i) shards)"
proof -
  let ?bs = "cell_buckets c" and ?kept = "filter (\<lambda>b. \<not> observed hash l b) (cell_buckets c)"
  have n: "length shards = length (let_shards l)" "let_shards l \<noteq> []" using assms(2,3) by auto
  have loop: "bucket_loop hash (length shards) l ?bs (False, [], replicate (length shards) False) = Some
      (\<exists>b \<in> set ?bs. observed hash l b, ?kept,
       map (\<lambda>i. \<exists>b \<in> set ?bs. \<not> observed hash l b \<and> waits_for hash l b i) [0..<length shards])"
    using bucket_loop_eq[of ?bs l "replicate (length shards) False" hash False "[]"] assms(1) n
    by (simp add: cell_wf_def cong: map_cong)
  have kept: "?kept = ?bs" "c\<lparr>History := \<lparr>Buckets = ?bs\<rparr>\<rparr> = c" if "\<not> (\<exists>b \<in> set ?bs. observed hash l b)"
    using that by (cases c; cases "History c"; auto simp: filter_id_conv)+
  show ?thesis
  proof (cases "?kept = []")
    case True
    then have "\<not> (\<exists>b \<in> set ?bs. \<not> observed hash l b \<and> waits_for hash l b i)" for i
      by (auto simp: filter_empty_conv)
    then show ?thesis using kept True unfolding updateLastEventTime_def loop
      by (auto simp: wake_nobody)
  next
    case False
    then show ?thesis using kept unfolding updateLastEventTime_def loop
      by (auto simp: push_outstanding_wake)
  qed
qed


section \<open>Properties\<close>

text \<open>The shards that may hold the pods of a bucket: that of the pod if its name is recorded, any of them
  otherwise. A bucket is over at its end; that of a single pod at its start.\<close>

definition shards_of :: "(string \<Rightarrow> nat) \<Rightarrow> nat \<Rightarrow> bucket \<Rightarrow> nat set" where
  "shards_of hash n b = (if PodUid b \<noteq> None \<and> BucketPodName b \<noteq> [] then {hash (BucketPodName b) mod n} else {..<n})"

definition bucket_over :: "bucket \<Rightarrow> gotime" where
  "bucket_over b = (if PodUid b = None then bucket_end b else StartTime b)"

lemma observed_iff:
  assumes "let_shards l \<noteq> []" "let_min l = Min (set (let_shards l))"
  shows "observed hash l b \<longleftrightarrow> (\<forall>i \<in> shards_of hash (length (let_shards l)) b. bucket_over b < let_shards l ! i)"
proof -
  have "t < let_min l \<longleftrightarrow> (\<forall>i < length (let_shards l). t < let_shards l ! i)" for t
    using assms by (simp add: all_set_conv_all_nth)
  then show ?thesis by (cases "PodUid b") (auto simp: observed_def shards_of_def bucket_over_def)
qed

lemma waits_for_before: "i < length (let_shards l) \<Longrightarrow> i \<in> shards_of hash (length (let_shards l)) b \<Longrightarrow>
    let_shards l ! i < StartTime b \<Longrightarrow> waits_for hash l b i"
  by (auto simp: waits_for_def shards_of_def split: if_splits)

lemma waits_for_not_past: "i < length (let_shards l) \<Longrightarrow> waits_for hash l b i \<Longrightarrow> \<not> observed hash l b \<Longrightarrow>
    i \<in> shards_of hash (length (let_shards l)) b \<and> let_shards l ! i \<le> StartTime b"
  by (auto simp: waits_for_def shards_of_def observed_def split: if_splits)

text \<open>What clearing does to one shard, with the buckets \<open>kept\<close>: whether it will trigger the PodProtector
  \<open>k\<close> at its next event.\<close>

definition will_trigger :: "PodProtectorKey \<Rightarrow> Shard \<Rightarrow> bool" where
  "will_trigger k shard \<longleftrightarrow> k \<in> set (items (notifyOnInformerEvent shard))"

definition shard_told :: "(string \<Rightarrow> nat) \<Rightarrow> gotime list \<Rightarrow> PodProtectorKey \<Rightarrow> bucket list \<Rightarrow> nat \<Rightarrow> Shard \<Rightarrow> Shard \<Rightarrow> bool" where
  "shard_told hash ts k kept i old new \<longleftrightarrow>
     informerSync new = informerSync old \<and> podLister new = podLister old
     \<and> (\<forall>k'. will_trigger k' old \<longrightarrow> will_trigger k' new) \<and> (\<forall>k'. k' \<noteq> k \<and> will_trigger k' new \<longrightarrow> will_trigger k' old)
     \<and> (\<forall>b \<in> set kept. i \<in> shards_of hash (length ts) b
          \<and> (ts ! i < StartTime b \<or> PodUid b \<noteq> None \<and> BucketPodName b \<noteq> []) \<longrightarrow> will_trigger k new)
     \<and> (will_trigger k new \<longrightarrow> will_trigger k old \<or> (\<exists>b \<in> set kept. i \<in> shards_of hash (length ts) b \<and> ts ! i \<le> StartTime b))"

lemma wake_told:
  assumes "length (let_shards l) = length shards" "i < length shards"
  shows "shard_told hash (let_shards l) k (filter (\<lambda>b. \<not> observed hash l b) bs) i (shards ! i)
    (wake now k (\<lambda>i. \<exists>b \<in> set bs. \<not> observed hash l b \<and> waits_for hash l b i) shards ! i)"
proof -
  have i: "i < length (let_shards l)" using assms by simp
  have named: "waits_for hash l b i"
    if "i \<in> shards_of hash (length (let_shards l)) b" "PodUid b \<noteq> None" "BucketPodName b \<noteq> []" for b
    using that by (simp add: waits_for_def shards_of_def)
  have frame: "informerSync (wake now k P shards ! i) = informerSync (shards ! i)"
    "podLister (wake now k P shards ! i) = podLister (shards ! i)" for P
    using assms(2) by (simp_all add: wake_def)
  have told: "will_trigger k (wake now k (\<lambda>i. \<exists>b \<in> set bs. \<not> observed hash l b \<and> waits_for hash l b i) shards ! i)"
    if "b \<in> set (filter (\<lambda>b. \<not> observed hash l b) bs)" "i \<in> shards_of hash (length (let_shards l)) b"
      "let_shards l ! i < StartTime b \<or> PodUid b \<noteq> None \<and> BucketPodName b \<noteq> []" for b
  proof -
    have "waits_for hash l b i" using that(3) waits_for_before[OF i that(2)] named[OF that(2)] by blast
    then show ?thesis using that(1) unfolding will_trigger_def wake_items[OF assms(2)] by auto
  qed
  have only: "will_trigger k (shards ! i)
      \<or> (\<exists>b \<in> set (filter (\<lambda>b. \<not> observed hash l b) bs). i \<in> shards_of hash (length (let_shards l)) b \<and> let_shards l ! i \<le> StartTime b)"
    if "will_trigger k (wake now k (\<lambda>i. \<exists>b \<in> set bs. \<not> observed hash l b \<and> waits_for hash l b i) shards ! i)"
  proof -
    from that consider "will_trigger k (shards ! i)" | b where "b \<in> set bs" "\<not> observed hash l b" "waits_for hash l b i"
      unfolding will_trigger_def wake_items[OF assms(2)] by auto
    then show ?thesis by cases (use waits_for_not_past[OF i] in auto)
  qed
  have frame': "will_trigger k' (wake now k P shards ! i) \<longleftrightarrow> will_trigger k' (shards ! i) \<or> (k' = k \<and> P i)" for k' P
    unfolding will_trigger_def wake_items[OF assms(2)] ..
  show ?thesis unfolding shard_told_def frame using told only frame' by blast
qed

text \<open>C7: Clearing the history of a cell whose buckets are well formed does not panic. It removes exactly the
  buckets that are over before the last event of every shard that may hold their pods. The aggregated counters are kept and
  the change mask records a removal. A shard that may hold a pod of a kept bucket and whose last event is before
  the bucket's start is told to reconcile the PodProtector at its next event, and so is the shard of the pod for every
  kept single-pod bucket with a pod name. No shard is told without a kept bucket of which it may hold a pod and whose start it
  has not passed, and the other PodProtectors that shards are told about stay. (A kept compacted bucket that every shard
  has seen the start of is not waited for: see \<open>compacted_bucket_not_woken\<close>.)\<close>

theorem updateLastEventTime_clears_observed:
  assumes "cell_wf c" "shards \<noteq> []" "length (let_shards l) = length shards" "let_min l = Min (set (let_shards l))"
  shows "\<exists>c' ch' shards'. updateLastEventTime hash now shards k c ch l = Some (c', ch', shards')
    \<and> cell_buckets c' = filter (\<lambda>b. \<exists>i \<in> shards_of hash (length shards) b. let_shards l ! i \<le> bucket_over b) (cell_buckets c)
    \<and> CellId c' = CellId c \<and> Aggregation c' = Aggregation c
    \<and> (HasChanged ch' \<longleftrightarrow> HasChanged ch \<or> cell_buckets c' \<noteq> cell_buckets c)
    \<and> length shards' = length shards
    \<and> (\<forall>i < length shards. shard_told hash (let_shards l) k (cell_buckets c') i (shards ! i) (shards' ! i))"
proof -
  let ?P = "\<lambda>i. \<exists>b \<in> set (cell_buckets c). \<not> observed hash l b \<and> waits_for hash l b i"
  let ?kept = "filter (\<lambda>b. \<not> observed hash l b) (cell_buckets c)"
  have "let_shards l \<noteq> []" using assms(2,3) by auto
  then have kept: "?kept = filter (\<lambda>b. \<exists>i \<in> shards_of hash (length shards) b. let_shards l ! i \<le> bucket_over b) (cell_buckets c)"
    using observed_iff[OF _ assms(4)] assms(3) by (simp add: not_less)
  have changed: "(\<exists>b \<in> set (cell_buckets c). observed hash l b) \<longleftrightarrow> ?kept \<noteq> cell_buckets c"
    by (simp add: filter_id_conv)
  have told: "\<forall>i < length shards. shard_told hash (let_shards l) k ?kept i (shards ! i) (wake now k ?P shards ! i)"
    using wake_told[OF assms(3)] by blast
  have "length (wake now k ?P shards) = length shards" by (simp add: wake_def)
  then show ?thesis
    unfolding updateLastEventTime_eq[OF assms(1-3)] kept[symmetric] changed using told by auto
qed

text \<open>The theorem at a cell with an observed and an outstanding bucket, and one shard.\<close>

definition sample_shard :: "Pod list \<Rightarrow> gotime option \<Rightarrow> Shard" where
  "sample_shard pods t =
     \<lparr>podLister = (\<lambda>nsName. case find (\<lambda>p. (Namespace (PodMeta p), Name (PodMeta p)) = nsName) pods of
          Some p \<Rightarrow> Inr (Some p) | None \<Rightarrow> Inl (TagErrorf ''NotFound'' ''pod not found'')),
      informerSync = t, notifyOnInformerEvent = newNextEventPool\<rparr>"

definition sample_key :: PodProtectorKey where
  "sample_key = \<lparr>SourceName = [], KeyNamespace = ''default'', KeyName = ''web''\<rparr>"

definition sample_history :: "bucket list \<Rightarrow> cell" where
  "sample_history bs = (new_cell ''cell'')\<lparr>History := \<lparr>Buckets = bs\<rparr>\<rparr>"

theorem updateLastEventTime_clears_observed_witness:
  "cell_wf (sample_history [sample_bucket 3 ''u'', sample_bucket 9 ''v''])
   \<and> (\<exists>c' ch' shards'. updateLastEventTime (\<lambda>_. 0) 10 [sample_shard [] (Some 5)] sample_key
        (sample_history [sample_bucket 3 ''u'', sample_bucket 9 ''v'']) haschange_New \<lparr>let_shards = [5], let_min = 5\<rparr>
        = Some (c', ch', shards') \<and> cell_buckets c' = [sample_bucket 9 ''v''] \<and> HasChanged ch' \<and> will_trigger sample_key (shards' ! 0))"
proof -
  have wf: "cell_wf (sample_history [sample_bucket 3 ''u'', sample_bucket 9 ''v''])"
    by (simp add: cell_wf_def sample_history_def sample_bucket_def bucket_wf_def)
  let ?b = "sample_bucket 9 ''v''"
  obtain c' ch' shards' where run: "updateLastEventTime (\<lambda>_. 0) 10 [sample_shard [] (Some 5)] sample_key
        (sample_history [sample_bucket 3 ''u'', ?b]) haschange_New \<lparr>let_shards = [5], let_min = 5\<rparr> = Some (c', ch', shards')"
    "cell_buckets c' = filter (\<lambda>b. \<exists>i \<in> shards_of (\<lambda>_. 0) 1 b. [5] ! i \<le> bucket_over b) [sample_bucket 3 ''u'', ?b]"
    "HasChanged ch' \<longleftrightarrow> HasChanged haschange_New \<or> cell_buckets c' \<noteq> [sample_bucket 3 ''u'', ?b]"
    "shard_told (\<lambda>_. 0) [5] sample_key (cell_buckets c') 0 (sample_shard [] (Some 5)) (shards' ! 0)"
    using updateLastEventTime_clears_observed[OF wf, of "[sample_shard [] (Some 5)]"
        "\<lparr>let_shards = [5], let_min = 5\<rparr>" "\<lambda>_. 0" 10 sample_key haschange_New]
    by (auto simp: sample_history_def)
  have kept: "cell_buckets c' = [?b]" using run(2) by (simp add: shards_of_def bucket_over_def sample_bucket_def)
  moreover have "will_trigger sample_key (shards' ! 0)"
    using run(4) by (simp add: kept shard_told_def shards_of_def sample_bucket_def)
  ultimately show ?thesis using wf run(1,3) by auto
qed

text \<open>A compacted bucket that has begun before every sync time but not ended before all of
  them is kept, and no shard is told to reconcile the PodProtector again: the shards to notify
  are chosen by the start of the bucket, while its removal depends on its end.\<close>

theorem compacted_bucket_not_woken:
  assumes "bucket_wf b" "PodUid b = None" "cell_buckets c = [b]"
    and "shards \<noteq> []" "length (let_shards l) = length shards"
    and "let_min l \<le> bucket_end b" "\<And>i. i < length shards \<Longrightarrow> StartTime b \<le> let_shards l ! i"
  shows "updateLastEventTime hash now shards k c ch l = Some (c, ch, shards)"
proof -
  have kept: "\<not> observed hash l b" using assms(2,6) by (simp add: observed_def)
  have none: "\<not> waits_for hash l b i" if "i < length shards" for i
    using assms(2) assms(7)[OF that] by (simp add: waits_for_def)
  have "wake now k (\<lambda>i. \<exists>b \<in> set (cell_buckets c). \<not> observed hash l b \<and> waits_for hash l b i) shards = shards"
    by (rule nth_equalityI) (auto simp: wake_def assms(3) none)
  moreover have "c\<lparr>History := \<lparr>Buckets = [b]\<rparr>\<rparr> = c" using assms(3) by (cases c; cases "History c") simp
  moreover have "cell_wf c" using assms(1,3) by (simp add: cell_wf_def)
  ultimately show ?thesis using kept assms(3) by (simp add: updateLastEventTime_eq[OF _ assms(4,5)])
qed

definition sample_compact :: bucket where
  "sample_compact = \<lparr>StartTime = 3, BucketPodName = [], PodUid = None, EndTime = Some 9, Counter = Some 2\<rparr>"

theorem compacted_bucket_not_woken_witness:
  "updateLastEventTime (\<lambda>_. 0) 10 [sample_shard [] (Some 5)] sample_key (sample_history [sample_compact])
     haschange_New \<lparr>let_shards = [5], let_min = 5\<rparr> =
   Some (sample_history [sample_compact], haschange_New, [sample_shard [] (Some 5)])"
  by (rule compacted_bucket_not_woken[where b = sample_compact])
    (simp_all add: sample_compact_def bucket_wf_def bucket_count_def bucket_end_def sample_history_def)

end
