(* ===== verification/AggregatorReconcile.thy ===== *)
theory AggregatorReconcile
  imports AggregatorHistory
begin

text \<open>
  The reconciliation of a PodProtector by the aggregator of a cell: what it counts, what it
  writes, and that it has nothing more to write once its own write has been read back.
\<close>

section \<open>Counting\<close>

definition number_of :: "('a \<Rightarrow> bool) \<Rightarrow> 'a list \<Rightarrow> int" where
  "number_of P xs = int (length (filter P xs))"

definition counted :: "gotime \<Rightarrow> int32 \<Rightarrow> Pod list \<Rightarrow> PodProtectorAggregation \<Rightarrow> PodProtectorAggregation" where
  "counted now minReady pods agg = agg\<lparr>
     TotalReplicas := int (length pods),
     ReadyReplicas := number_of (\<lambda>p. isPodConditionTrue p ''Ready'') pods,
     ScheduledReplicas := number_of (\<lambda>p. isPodConditionTrue p ''PodScheduled'') pods,
     RunningReplicas := number_of (\<lambda>p. Phase p = ''Running'') pods,
     AvailableReplicas := number_of (\<lambda>p. fst (IsPodAvailable now p minReady (Some None))) pods,
     PendingReplicas := Some (number_of (\<lambda>p. Phase p = ''Pending'') pods),
     UnscheduledPendingReplicas := Some (number_of (\<lambda>p. Phase p = ''Pending'' \<and> NodeName p = []) pods)\<rparr>"

lemma number_of_simps [simp]:
  "number_of P [] = 0" "number_of P (x # xs) = (if P x then 1 else 0) + number_of P xs"
  by (simp_all add: number_of_def)

lemma number_of_bounds: "0 \<le> number_of P xs" "number_of P xs \<le> int (length xs)"
  by (simp_all add: number_of_def)

lemma available_ignores_requeue: "fst (IsPodAvailable now p m r) = fst (IsPodAvailable now p m r')"
  by (simp add: IsPodAvailable_def Let_def)

definition tally_from :: "Tally \<Rightarrow> gotime \<Rightarrow> int32 \<Rightarrow> Pod list \<Rightarrow> Tally \<Rightarrow> bool" where
  "tally_from t now m pods t' \<longleftrightarrow>
     t_ready t' = i32 (t_ready t + number_of (\<lambda>p. isPodConditionTrue p ''Ready'') pods)
   \<and> t_scheduled t' = i32 (t_scheduled t + number_of (\<lambda>p. isPodConditionTrue p ''PodScheduled'') pods)
   \<and> t_running t' = i32 (t_running t + number_of (\<lambda>p. Phase p = ''Running'') pods)
   \<and> t_available t' = i32 (t_available t + number_of (\<lambda>p. fst (IsPodAvailable now p m (Some None))) pods)
   \<and> t_pending t' = i32 (t_pending t + number_of (\<lambda>p. Phase p = ''Pending'') pods)
   \<and> t_unscheduled t' = i32 (t_unscheduled t + number_of (\<lambda>p. Phase p = ''Pending'' \<and> NodeName p = []) pods)"

definition tally_wf :: "Tally \<Rightarrow> bool" where
  "tally_wf t \<longleftrightarrow> is_int32 (t_ready t) \<and> is_int32 (t_scheduled t) \<and> is_int32 (t_running t) \<and>
     is_int32 (t_available t) \<and> is_int32 (t_pending t) \<and> is_int32 (t_unscheduled t)"

lemma incr_eq: "is_int32 n \<Longrightarrow> incr b n = i32 (n + (if b then 1 else 0))"
  by (simp add: incr_def i32_id)

lemma count_pod_from:
  assumes "tally_wf t" shows "tally_from t now m [p] (count_pod now m t p)" "tally_wf (count_pod now m t p)"
proof -
  obtain avail r where a: "IsPodAvailable now p m (t_requeue t) = (avail, r)" by fastforce
  then have "fst (IsPodAvailable now p m (Some None)) = avail"
    using available_ignores_requeue[of now p m "Some None" "t_requeue t"] by simp
  then show "tally_from t now m [p] (count_pod now m t p)" "tally_wf (count_pod now m t p)"
    using assms by (simp_all add: count_pod_def GetPodStatus_def a Let_def tally_from_def tally_wf_def incr_eq)
qed

lemma tally_from_step:
  "tally_from t now m [p] t1 \<Longrightarrow> tally_from t1 now m pods t2 \<Longrightarrow> tally_from t now m (p # pods) t2"
  by (simp add: tally_from_def add.assoc)

lemma count_pods_from: "tally_wf t \<Longrightarrow> tally_from t now m pods (foldl (count_pod now m) t pods)"
proof (induction pods arbitrary: t)
  case Nil
  then show ?case by (simp add: tally_from_def tally_wf_def i32_id)
next
  case (Cons p pods)
  from tally_from_step[OF count_pod_from(1)[OF Cons.prems] Cons.IH[OF count_pod_from(2)[OF Cons.prems]]]
  show ?case by simp
qed

lemma number_of_exact: "int (length pods) \<le> MaxInt32 \<Longrightarrow> i32 (number_of P pods) = number_of P pods"
  using number_of_bounds[of P pods] by (simp add: i32_id is_int32_def MaxInt32_def)

lemma assignOptionalInt32_eq:
  "fst (assignOptionalInt32 ch target v c) = Some v"
  "c \<noteq> 0 \<Longrightarrow> HasChanged (snd (assignOptionalInt32 ch target v c)) \<longleftrightarrow> HasChanged ch \<or> target \<noteq> Some v"
  by (auto simp: assignOptionalInt32_def HasChanged_def Changed_Add_def)

lemma aggregation_eqI:
  "(agg = counted now m pods agg) \<longleftrightarrow>
     TotalReplicas agg = int (length pods)
   \<and> ReadyReplicas agg = number_of (\<lambda>p. isPodConditionTrue p ''Ready'') pods
   \<and> ScheduledReplicas agg = number_of (\<lambda>p. isPodConditionTrue p ''PodScheduled'') pods
   \<and> RunningReplicas agg = number_of (\<lambda>p. Phase p = ''Running'') pods
   \<and> AvailableReplicas agg = number_of (\<lambda>p. fst (IsPodAvailable now p m (Some None))) pods
   \<and> PendingReplicas agg = Some (number_of (\<lambda>p. Phase p = ''Pending'') pods)
   \<and> UnscheduledPendingReplicas agg = Some (number_of (\<lambda>p. Phase p = ''Pending'' \<and> NodeName p = []) pods)"
  by (cases agg) (auto simp: counted_def)

lemma aggregateStatus_eq:
  assumes "int (length pods) \<le> MaxInt32"
  shows "\<exists>r ch'. aggregateStatus now pods ppr rq agg ch =
      Inr (r, counted now (MinReadySeconds (Spec ppr)) pods agg, ch')
    \<and> (HasChanged ch' \<longleftrightarrow> HasChanged ch \<or> agg \<noteq> counted now (MinReadySeconds (Spec ppr)) pods agg)"
proof -
  let ?m = "MinReadySeconds (Spec ppr)"
  let ?start = "\<lparr>t_ready = 0, t_scheduled = 0, t_running = 0, t_available = 0, t_pending = 0,
                   t_unscheduled = 0, t_requeue = rq\<rparr>"
  let ?t = "foldl (count_pod now ?m) ?start pods"
  have "tally_wf ?start" by (simp add: tally_wf_def is_int32_def)
  from count_pods_from[OF this, of now ?m pods]
  have t: "t_ready ?t = number_of (\<lambda>p. isPodConditionTrue p ''Ready'') pods"
    "t_scheduled ?t = number_of (\<lambda>p. isPodConditionTrue p ''PodScheduled'') pods"
    "t_running ?t = number_of (\<lambda>p. Phase p = ''Running'') pods"
    "t_available ?t = number_of (\<lambda>p. fst (IsPodAvailable now p ?m (Some None))) pods"
    "t_pending ?t = number_of (\<lambda>p. Phase p = ''Pending'') pods"
    "t_unscheduled ?t = number_of (\<lambda>p. Phase p = ''Pending'' \<and> NodeName p = []) pods"
    by (simp_all add: tally_from_def number_of_exact[OF assms])
  have len: "i32 (int (length pods)) = int (length pods)"
    using assms by (simp add: i32_id is_int32_def MaxInt32_def)
  have nz: "StatusChangeCauseAvailable \<noteq> 0" "StatusChangeCauseReady \<noteq> 0" "StatusChangeCauseRunning \<noteq> 0"
    "StatusChangeCauseScheduled \<noteq> 0" "StatusChangeCauseCreated \<noteq> 0" "StatusChangeCausePending \<noteq> 0"
    "StatusChangeCauseUnscheduledPending \<noteq> 0" by (simp_all add: cause_defs)
  show ?thesis using assms nz unfolding aggregation_eqI
    by (simp add: aggregateStatus_def Let_def len t case_prod_beta assignOptionalInt32_eq Assign_changed)
      (simp add: counted_def, argo)
qed

lemma aggregateStatus_too_many:
  "int (length pods) > MaxInt32 \<Longrightarrow>
   aggregateStatus now pods ppr rq agg ch = Inl (TagErrorf ''TooManyRelevantPods'' ''more than 2^31 pods'')"
  by (simp add: aggregateStatus_def)

lemma counted_again [simp]: "counted now m pods (counted now m pods agg) = counted now m pods agg"
  by (simp add: counted_def)

lemma counted_frame [simp]: "counted now m pods (agg\<lparr>LastEventTime := t\<rparr>) = (counted now m pods agg)\<lparr>LastEventTime := t\<rparr>"
  by (simp add: counted_def)

section \<open>The oldest sync time\<close>

lemma choose_oldest:
  "iter_FromSlice ts (\<lambda>v state. (Continue, SetOrChoose state v (\<lambda>a b. a > b))) (opt_Some x) =
     (Continue, opt_Some (Min (set (x # ts))))" for x :: int
proof (induction ts arbitrary: x)
  case (Cons t ts)
  have "SetOrChoose (opt_Some x) t (\<lambda>a b. a > b) = opt_Some (min x t)"
    by (simp add: SetOrChoose_def SetOrFn_def opt_Some_def min_def)
  moreover have "Min (set (min x t # ts)) = Min (set (x # t # ts))"
    by (cases ts) (auto simp: min.assoc)
  ultimately show ?case using Cons.IH[of "min x t"] by simp
qed (simp add: opt_Some_def)

lemma oldest_sync:
  "ts \<noteq> [] \<Longrightarrow> MustGet (iter_Extremum 0 (iter_FromSlice ts) (\<lambda>a b. a > b)) = Some (Min (set ts))"
  for ts :: "int list"
proof (cases ts)
  case (Cons t ts')
  have "SetOrChoose (opt_None 0) t (\<lambda>a b. a > b) = opt_Some t"
    by (simp add: SetOrChoose_def SetOrFn_def opt_None_def opt_Some_def)
  then show ?thesis
    unfolding Cons iter_Extremum_def iter_Fold_def using choose_oldest[of ts' t] by (simp add: MustGet_def opt_Some_def)
qed simp

lemma read_sync_map: "read_sync shards = Some ts \<Longrightarrow> map informerSync shards = map Some ts"
  by (induction shards arbitrary: ts) (auto simp: sync_reader_def split: option.splits)

lemma read_sync_length: "read_sync shards = Some ts \<Longrightarrow> length ts = length shards"
  by (metis length_map read_sync_map)


section \<open>The cell of the aggregator\<close>

definition own_cell :: "string \<Rightarrow> cell list \<Rightarrow> cell list \<times> nat" where
  "own_cell cid cells = GetOrAppendSliceWith cells (\<lambda>c. CellId c = cid) (\<lambda>_. new_cell cid)"

definition all_times :: "gotime list \<Rightarrow> lastEventTimeList" where
  "all_times ts = \<lparr>let_shards = ts, let_min = Min (set ts)\<rparr>"

definition refreshed :: "(string \<Rightarrow> nat) \<Rightarrow> lastEventTimeList \<Rightarrow> gotime \<Rightarrow> int32 \<Rightarrow> Pod list \<Rightarrow> cell \<Rightarrow> cell" where
  "refreshed hash l now m pods c = c\<lparr>Aggregation := counted now m pods (Aggregation c),
     History := \<lparr>Buckets = filter (\<lambda>b. \<not> observed hash l b) (cell_buckets c)\<rparr>\<rparr>"

definition next_cell :: "(string \<Rightarrow> nat) \<Rightarrow> lastEventTimeList \<Rightarrow> gotime \<Rightarrow> int32 \<Rightarrow> Pod list \<Rightarrow> cell \<Rightarrow> cell" where
  "next_cell hash l now m pods c =
     (let c1 = refreshed hash l now m pods c
      in if c1 = c then c else c1\<lparr>Aggregation := (Aggregation c1)\<lparr>LastEventTime := let_min l\<rparr>\<rparr>)"

lemma refreshed_same:
  "refreshed hash l now m pods c = c \<longleftrightarrow>
     Aggregation c = counted now m pods (Aggregation c) \<and> (\<forall>b \<in> set (cell_buckets c). \<not> observed hash l b)"
  by (cases c; cases "History c") (auto simp: refreshed_def filter_id_conv)

lemma counted_LastEventTime:
  assumes "agg = (counted now m pods agg)\<lparr>LastEventTime := t\<rparr>" shows "agg = counted now m pods agg"
proof -
  have "counted now m pods agg = (counted now m pods agg)\<lparr>LastEventTime := t\<rparr>"
    by (subst (1) assms) simp
  with assms show ?thesis by simp
qed

lemma next_cell_same:
  "next_cell hash l now m pods c = c \<longleftrightarrow> refreshed hash l now m pods c = c"
proof (cases "refreshed hash l now m pods c = c")
  case False
  have "refreshed hash l now m pods c = c" if eq: "next_cell hash l now m pods c = c"
  proof -
    have hist: "cell_buckets c = filter (\<lambda>b. \<not> observed hash l b) (cell_buckets c)"
      by (subst (1) eq[symmetric]) (simp add: next_cell_def refreshed_def Let_def False[unfolded refreshed_def])
    have agg: "Aggregation c = (counted now m pods (Aggregation c))\<lparr>LastEventTime := let_min l\<rparr>"
      by (subst (1) eq[symmetric]) (simp add: next_cell_def refreshed_def Let_def False[unfolded refreshed_def])
    then show ?thesis unfolding refreshed_same
      using counted_LastEventTime[OF agg] hist by (metis (no_types, lifting) filter_id_conv)
  qed
  with False show ?thesis by blast
qed (simp add: next_cell_def)

lemma next_cell_fields [simp]:
  "CellId (next_cell hash l now m pods c) = CellId c"
  "cell_buckets (next_cell hash l now m pods c) = filter (\<lambda>b. \<not> observed hash l b) (cell_buckets c)"
proof -
  have "cell_buckets c = filter (\<lambda>b. \<not> observed hash l b) (cell_buckets c)" if "refreshed hash l now m pods c = c"
    using that unfolding refreshed_same by (simp add: filter_id_conv)
  then show "CellId (next_cell hash l now m pods c) = CellId c"
    "cell_buckets (next_cell hash l now m pods c) = filter (\<lambda>b. \<not> observed hash l b) (cell_buckets c)"
    by (auto simp: next_cell_def Let_def refreshed_def)
qed

lemma next_cell_aggregation:
  "next_cell hash l now m pods c \<noteq> c \<Longrightarrow>
   Aggregation (next_cell hash l now m pods c) = (counted now m pods (Aggregation c))\<lparr>LastEventTime := let_min l\<rparr>"
  unfolding next_cell_same by (simp add: next_cell_def Let_def refreshed_def)

lemma next_cell_wf: "cell_wf c \<Longrightarrow> cell_wf (next_cell hash l now m pods c)"
  by (auto simp: cell_wf_def list_all_iff)

lemma own_cell_spec:
  assumes "own_cell cid cells = (cells', idx)"
  shows "idx < length cells'" "CellId (cells' ! idx) = cid"
    and "cells' = cells \<or> (cells' = cells @ [new_cell cid] \<and> idx = length cells)"
  using assms FindInSliceWith_nth[of cells "\<lambda>c. CellId c = cid"]
  by (auto simp: own_cell_def GetOrAppendSliceWith_def Let_def simp del: FindInSliceWith_none split: if_splits)

section \<open>Reconciling the cell\<close>

lemma reconcile_cell_eq:
  assumes pods: "int (length pods) \<le> MaxInt32" and sync: "read_sync (st_shards st) = Some ts"
    and shards: "st_shards st \<noteq> []" and wf: "cell_wf (cells ! idx)"
    and c': "c' = next_cell (agg_hash env) (all_times ts) (agg_now env) (MinReadySeconds (Spec ppr)) pods (cells ! idx)"
  obtains ch q where "HasChanged ch \<longleftrightarrow> c' \<noteq> cells ! idx"
    and "reconcile_cell env k st ppr cells idx pods w =
      (case write_status env k (ppr\<lparr>Status := (Status ppr)\<lparr>Cells := cells[idx := c']\<rparr>\<rparr>) ch w of
         None \<Rightarrow> None
       | Some (r, w') \<Rightarrow> Some (r, st\<lparr>st_shards := wake (agg_now env) k
           (\<lambda>i. \<exists>b \<in> set (cell_buckets c'). waits_for (agg_hash env) (all_times ts) b i) (st_shards st), st_queue := q\<rparr>, w'))"
proof -
  let ?c = "cells ! idx" and ?m = "MinReadySeconds (Spec ppr)"
  let ?agg = "counted (agg_now env) ?m pods (Aggregation ?c)" and ?l = "all_times ts" and ?hash = "agg_hash env"
  obtain rq ch1 where agg: "aggregateStatus (agg_now env) pods ppr (Some None) (Aggregation ?c) haschange_New =
      Inr (rq, ?agg, ch1)" and ch1: "HasChanged ch1 \<longleftrightarrow> Aggregation ?c \<noteq> ?agg"
    using aggregateStatus_eq[OF pods, of "agg_now env" ppr "Some None" "Aggregation ?c" haschange_New]
    by (auto simp: HasChanged_def haschange_New_def)
  define ch where "ch = (if \<exists>b \<in> set (cell_buckets ?c). observed ?hash ?l b
       then Changed_Add ch1 StatusChangeCauseHistoryBucketAggregated else ch1)"
  have ts: "ts \<noteq> []" "length ts = length (st_shards st)"
    using read_sync_length[OF sync] shards by auto
  have wf': "cell_wf (?c\<lparr>Aggregation := ?agg\<rparr>)" using wf by (simp add: cell_wf_def)
  have wk: "(\<lambda>i. \<exists>b\<in>set (cell_buckets ?c). \<not> observed ?hash ?l b \<and> waits_for ?hash ?l b i) =
      (\<lambda>i. \<exists>b\<in>set (cell_buckets c'). waits_for ?hash ?l b i)"
    by (auto simp: c')
  have upd: "updateLastEventTime ?hash (agg_now env) (st_shards st) k (?c\<lparr>Aggregation := ?agg\<rparr>) ch1 ?l = Some
      (refreshed ?hash ?l (agg_now env) ?m pods ?c, ch,
       wake (agg_now env) k (\<lambda>i. \<exists>b\<in>set (cell_buckets c'). waits_for ?hash ?l b i) (st_shards st))"
    using updateLastEventTime_eq[OF wf' shards, of ?l ?hash "agg_now env" k ch1] ts(2)
    by (simp add: all_times_def[of ts] ch_def refreshed_def wk[unfolded all_times_def])
  have changed: "HasChanged ch \<longleftrightarrow> c' \<noteq> ?c"
    unfolding c' next_cell_same refreshed_same ch_def using ch1 by auto
  have status: "(if HasChanged ch then (refreshed ?hash ?l (agg_now env) ?m pods ?c)\<lparr>Aggregation :=
        (Aggregation (refreshed ?hash ?l (agg_now env) ?m pods ?c))\<lparr>LastEventTime := Min (set ts)\<rparr>\<rparr>
      else refreshed ?hash ?l (agg_now env) ?m pods ?c) = c'"
    unfolding changed using next_cell_same[of ?hash ?l "agg_now env" ?m pods ?c]
    by (auto simp: c' next_cell_def Let_def all_times_def)
  show thesis
  proof (rule that[OF changed])
    show "reconcile_cell env k st ppr cells idx pods w =
      (case write_status env k (ppr\<lparr>Status := (Status ppr)\<lparr>Cells := cells[idx := c']\<rparr>\<rparr>) ch w of
         None \<Rightarrow> None
       | Some (r, w') \<Rightarrow> Some (r, st\<lparr>st_shards := wake (agg_now env) k
           (\<lambda>i. \<exists>b \<in> set (cell_buckets c'). waits_for ?hash ?l b i) (st_shards st),
           st_queue := (case rq of Some (Some d) \<Rightarrow> st_queue st @ [(k, d)] | _ \<Rightarrow> st_queue st)\<rparr>, w'))"
      unfolding reconcile_cell_def agg sync sum.case prod.case option.case oldest_sync[OF ts(1)]
        Option.bind.bind_lunit all_times_def[symmetric] upd Let_def status
      by (auto split: option.split)
  qed
qed


lemma tryReconcile_own:
  assumes "agg_pprGet env k = Inr (Some ppr)" "agg_selector env (Labels (PprMeta ppr))"
    and "findRelevantPods (st_index st) (st_shards st) ppr = Some (Inr pods)"
    and "own_cell (agg_cellId env) (Cells (Status ppr)) = (cells, idx)"
    and "pods \<noteq> [] \<or> cells = Cells (Status ppr)"
  shows "tryReconcile env k st w = reconcile_cell env k st ppr cells idx pods w"
  using assms FindInSliceWith_nth[of "Cells (Status ppr)" "\<lambda>c. CellId c = agg_cellId env"]
  by (auto simp: tryReconcile_def own_cell_def GetOrAppendSliceWith_def Let_def simp del: FindInSliceWith_none
      split: if_splits)

abbreviation agg_computed :: "'w AggEnv \<Rightarrow> PodProtector \<Rightarrow> Computed" where
  "agg_computed env ppr \<equiv> Compute (agg_config env) (Some (HistoryConfig (Spec ppr)))"

lemma write_status_changed:
  assumes "slice_sorter (agg_sort env)" "1 \<le> CompactThreshold (agg_computed env ppr)"
    and "list_all cell_wf (Cells (Status ppr))" "HasChanged ch"
  obtains ppr' where "Summarize (agg_sort env) (agg_computed env ppr) ppr = Some ppr'"
    and "list_all cell_wf (Cells (Status ppr'))"
    and "write_status env k ppr ch w = Some
      (\<lparr>EndErr = map_option (\<lambda>err. TagWrapf ''UpdatePprStatus'' err ''apiserver error while updating aggregation status'')
          (fst (agg_UpdateStatus env (SourceName k) ppr' w)),
        EndHasChange = ch,
        EndAction = if fst (agg_UpdateStatus env (SourceName k) ppr' w) = None then ''Updated'' else []\<rparr>,
       snd (agg_UpdateStatus env (SourceName k) ppr' w))"
proof -
  have "bucket_sorter (agg_sort env)" using assms(1) by (simp add: bucket_sorter_def)
  from bucket_sorter.Summarize_total[OF this assms(2,3)] obtain ppr' where
    "Summarize (agg_sort env) (agg_computed env ppr) ppr = Some ppr'" "list_all cell_wf (Cells (Status ppr'))"
    by (metis (no_types, lifting) list_all_iff)
  then show thesis
    by (intro that) (auto simp: write_status_def assms(4) split: prod.splits option.splits)
qed

lemma write_status_unchanged:
  "\<not> HasChanged ch \<Longrightarrow>
   write_status env k ppr ch w = Some (\<lparr>EndErr = None, EndHasChange = ch, EndAction = ''Updated''\<rparr>, w)"
  by (simp add: write_status_def)

lemma own_cell_wf:
  "own_cell cid cells = (cells', idx) \<Longrightarrow> list_all cell_wf cells \<Longrightarrow> list_all cell_wf cells'"
  using own_cell_spec(3)[of cid cells cells' idx] by (auto simp: cell_wf_def)

lemma Summarize_cell:
  assumes "Summarize srt conf (ppr\<lparr>Status := (Status ppr)\<lparr>Cells := cells\<rparr>\<rparr>) = Some ppr'"
  shows "map Aggregation (Cells (Status ppr')) = map Aggregation cells"
    and "map CellId (Cells (Status ppr')) = map CellId cells"
    and "PprMeta ppr' = PprMeta ppr" "Spec ppr' = Spec ppr"
    and "list_all2 (compacted srt conf) cells (Cells (Status ppr'))" "coherent (Status ppr')"
  using Summarize_facts[OF assms] compacted_frame_all[OF Summarize_facts(1)[OF assms]] by simp_all

text \<open>The PodProtector is selected, its pods are listed, every shard has a sync time, the
  history on record is well formed and at least one bucket is kept by the compaction.\<close>

definition reconcilable :: "'w AggEnv \<Rightarrow> PodProtectorKey \<Rightarrow> AggState \<Rightarrow> PodProtector \<Rightarrow> Pod list \<Rightarrow> gotime list \<Rightarrow> bool" where
  "reconcilable env k st ppr pods ts \<longleftrightarrow>
     agg_pprGet env k = Inr (Some ppr) \<and> agg_selector env (Labels (PprMeta ppr))
   \<and> findRelevantPods (st_index st) (st_shards st) ppr = Some (Inr pods) \<and> int (length pods) \<le> MaxInt32
   \<and> read_sync (st_shards st) = Some ts \<and> st_shards st \<noteq> []
   \<and> list_all cell_wf (Cells (Status ppr)) \<and> 1 \<le> CompactThreshold (agg_computed env ppr)"

definition ppr_next_cell :: "'w AggEnv \<Rightarrow> PodProtector \<Rightarrow> Pod list \<Rightarrow> gotime list \<Rightarrow> cell \<Rightarrow> cell" where
  "ppr_next_cell env ppr pods ts c =
     next_cell (agg_hash env) (all_times ts) (agg_now env) (MinReadySeconds (Spec ppr)) pods c"

definition woken :: "'w AggEnv \<Rightarrow> PodProtectorKey \<Rightarrow> gotime list \<Rightarrow> cell \<Rightarrow> Shard list \<Rightarrow> Shard list" where
  "woken env k ts c shards = wake (agg_now env) k
     (\<lambda>i. \<exists>b \<in> set (cell_buckets c). waits_for (agg_hash env) (all_times ts) b i) shards"

lemma tryReconcile_cases:
  assumes "reconcilable env k st ppr pods ts" and sorts: "slice_sorter (agg_sort env)"
    and own: "own_cell (agg_cellId env) (Cells (Status ppr)) = (cells, idx)"
    and some: "pods \<noteq> [] \<or> cells = Cells (Status ppr)"
    and c': "c' = ppr_next_cell env ppr pods ts (cells ! idx)"
  obtains (same) r q where "c' = cells ! idx" "EndErr r = None"
      "tryReconcile env k st w = Some (r, st\<lparr>st_shards := woken env k ts c' (st_shards st), st_queue := q\<rparr>, w)"
  | (written) r q ppr' where "c' \<noteq> cells ! idx"
      "Summarize (agg_sort env) (agg_computed env ppr) (ppr\<lparr>Status := (Status ppr)\<lparr>Cells := cells[idx := c']\<rparr>\<rparr>) = Some ppr'"
      "list_all cell_wf (Cells (Status ppr'))"
      "tryReconcile env k st w = Some (r, st\<lparr>st_shards := woken env k ts c' (st_shards st), st_queue := q\<rparr>,
         snd (agg_UpdateStatus env (SourceName k) ppr' w))"
      "EndErr r = None \<longleftrightarrow> fst (agg_UpdateStatus env (SourceName k) ppr' w) = None"
proof -
  note asm = assms(1)[unfolded reconcilable_def, THEN conjunct1]
    assms(1)[unfolded reconcilable_def, THEN conjunct2, THEN conjunct1]
  have rest: "findRelevantPods (st_index st) (st_shards st) ppr = Some (Inr pods)" "int (length pods) \<le> MaxInt32"
    "read_sync (st_shards st) = Some ts" "st_shards st \<noteq> []" "list_all cell_wf (Cells (Status ppr))"
    and thr: "1 \<le> CompactThreshold (agg_computed env ppr)"
    using assms(1) by (simp_all add: reconcilable_def)
  have wf: "list_all cell_wf cells" by (rule own_cell_wf[OF own rest(5)])
  then have wfi: "cell_wf (cells ! idx)" using own_cell_spec(1)[OF own] by (simp add: list_all_length)
  let ?ppr = "ppr\<lparr>Status := (Status ppr)\<lparr>Cells := cells[idx := c']\<rparr>\<rparr>"
  obtain ch q where ch: "HasChanged ch \<longleftrightarrow> c' \<noteq> cells ! idx"
    and run: "reconcile_cell env k st ppr cells idx pods w = (case write_status env k ?ppr ch w of
         None \<Rightarrow> None
       | Some (r, w') \<Rightarrow> Some (r, st\<lparr>st_shards := woken env k ts c' (st_shards st), st_queue := q\<rparr>, w'))"
    using reconcile_cell_eq[where w = w and k = k, OF rest(2-4) wfi c'[unfolded ppr_next_cell_def]]
    unfolding woken_def by blast
  note run' = tryReconcile_own[where w = w, OF asm rest(1) own some, unfolded run]
  show thesis
  proof (cases "c' = cells ! idx")
    case True
    show thesis by (rule same[OF True _]) (use run' ch True in \<open>simp_all add: write_status_unchanged\<close>)
  next
    case False
    have wf': "list_all cell_wf (Cells (Status ?ppr))"
      using wf next_cell_wf[OF wfi] unfolding c' ppr_next_cell_def list_all_iff
      by (auto dest: subsetD[OF set_update_subset_insert])
    have thr': "1 \<le> CompactThreshold (agg_computed env ?ppr)" using thr by simp
    obtain ppr' where sum: "Summarize (agg_sort env) (agg_computed env ?ppr) ?ppr = Some ppr'"
      and wf'': "list_all cell_wf (Cells (Status ppr'))"
      and ws: "write_status env k ?ppr ch w = Some
      (\<lparr>EndErr = map_option (\<lambda>err. TagWrapf ''UpdatePprStatus'' err ''apiserver error while updating aggregation status'')
          (fst (agg_UpdateStatus env (SourceName k) ppr' w)),
        EndHasChange = ch,
        EndAction = if fst (agg_UpdateStatus env (SourceName k) ppr' w) = None then ''Updated'' else []\<rparr>,
       snd (agg_UpdateStatus env (SourceName k) ppr' w))"
      using write_status_changed[where w = w and k = k, OF sorts thr' wf', of ch] ch False by blast
    show thesis by (rule written[OF False _ wf'' run'[unfolded ws option.case prod.case]]) (use sum in simp_all)
  qed
qed

section \<open>Reading the own write back\<close>

lemma compact_keeps_unobserved:
  assumes "slice_sorter srt" "list_all bucket_wf bs" "1 \<le> CompactThreshold conf"
    and "CompactBuckets srt conf bs = Some bs'"
    and late: "\<And>b. b \<in> set bs \<Longrightarrow> \<not> observed hash l b" and least: "\<And>t. t \<in> set (let_shards l) \<Longrightarrow> let_min l \<le> t"
    and "let_shards l \<noteq> []" "b \<in> set bs'"
  shows "\<not> observed hash l b"
proof (cases "int (length bs) \<le> CompactThreshold conf")
  case True
  have "bs' = srt (\<lambda>a b. StartTime a < StartTime b) bs"
    using bucket_sorter.compact_none[of srt] True assms(1,4) by (simp add: bucket_sorter_def)
  then show ?thesis using late assms(8) slice_sorter.srt_set[OF assms(1)] by auto
next
  case False
  then have more: "CompactThreshold conf < int (length bs)" by simp
  have srt: "bucket_sorter srt" using assms(1) by (simp add: bucket_sorter_def)
  obtain a rest e where ordered: "srt (\<lambda>a b. StartTime a < StartTime b) bs = a # rest"
    and bs': "CompactBuckets srt conf bs =
      Some ((compact_head a)\<lparr>EndTime := Some e\<rparr> # drop (length bs - nat (CompactThreshold conf)) rest)"
    and e: "\<forall>x \<in> set (a # take (length bs - nat (CompactThreshold conf)) rest). bucket_end x \<le> e"
    by (rule bucket_sorter.compact_some[OF srt assms(3) more assms(2)])
  have mem: "set (a # rest) = set bs" using slice_sorter.srt_set[OF assms(1), of _ bs] ordered by metis
  have a: "a \<in> set bs" using mem by auto
  have "let_min l \<le> bucket_end a"
  proof (cases "PodUid a")
    case None
    then show ?thesis using late[OF a] by (simp add: observed_def)
  next
    case (Some u)
    have wf: "bucket_wf a" using assms(2) mem by (auto simp: list_all_iff)
    have "let_min l \<le> (if BucketPodName a = [] then let_min l
           else let_shards l ! (hash (BucketPodName a) mod length (let_shards l)))"
      using least[OF nth_mem] assms(7) by simp
    also have "\<dots> \<le> StartTime a" using late[OF a] Some by (simp add: observed_def not_less split: if_splits)
    also have "StartTime a = bucket_end a" using wf Some by (simp add: bucket_end_def bucket_wf_def)
    finally show ?thesis .
  qed
  then have "\<not> observed hash l ((compact_head a)\<lparr>EndTime := Some e\<rparr>)"
    using e by (auto simp: observed_def bucket_end_def)
  moreover have "b \<in> set ((compact_head a)\<lparr>EndTime := Some e\<rparr> # drop (length bs - nat (CompactThreshold conf)) rest)"
    using assms(8) unfolding assms(4)[unfolded bs', THEN option.inject[THEN iffD1], symmetric] .
  moreover have "\<not> observed hash l b" if "b \<in> set (drop (length bs - nat (CompactThreshold conf)) rest)"
    by (rule late) (use mem in_set_dropD[OF that] in auto)
  ultimately show ?thesis unfolding list.set insert_iff by (elim disjE) simp_all
qed

lemma findPod_listers:
  "map podLister shards = map podLister shards' \<Longrightarrow> findPodFromAnyShard shards n e = findPodFromAnyShard shards' n e"
proof (induction shards arbitrary: shards' e)
  case (Cons s shards)
  then obtain s' rest where "shards' = s' # rest" "podLister s = podLister s'"
    "map podLister shards = map podLister rest" by (cases shards') auto
  with Cons.IH show ?case by (auto split: sum.split option.split)
qed simp

lemma findRelevantPods_listers:
  assumes "map podLister shards = map podLister shards'" "PprMeta ppr = PprMeta ppr'" "Spec ppr = Spec ppr'"
  shows "findRelevantPods ix shards ppr = findRelevantPods ix shards' ppr'"
proof -
  have collect: "collect_pod shards = collect_pod shards'"
    by (intro ext) (simp add: collect_pod_def findPod_listers[OF assms(1)])
  show ?thesis unfolding findRelevantPods_def GetAggregationSelector_def assms(2,3) collect by (rule refl)
qed

lemma woken_frame [simp]:
  "length (woken env k ts c shards) = length shards"
  "map podLister (woken env k ts c shards) = map podLister shards"
  "map informerSync (woken env k ts c shards) = map informerSync shards"
  by (auto simp: woken_def wake_def intro: nth_equalityI)

lemma read_sync_listers: "map informerSync shards = map informerSync shards' \<Longrightarrow> read_sync shards = read_sync shards'"
proof (induction shards arbitrary: shards')
  case (Cons s shards)
  then obtain s' rest where "shards' = s' # rest" "informerSync s = informerSync s'"
    "map informerSync shards = map informerSync rest" by (cases shards') auto
  with Cons.IH show ?case by (auto split: option.split)
qed simp

lemma own_cell_ids:
  assumes "map CellId cells' = map CellId (fst (own_cell cid cells))"
  shows "own_cell cid cells' = (cells', snd (own_cell cid cells))"
proof -
  have find: "FindInSliceWith xs (\<lambda>c. CellId c = cid) = FindInSliceWith (map CellId xs) (\<lambda>i. i = cid)" for xs :: "cell list"
    by (induction xs) (auto simp: FindInSliceWith_Cons simp del: FindInSliceWith_none)
  have last: "FindInSliceWith (ids @ [cid]) (\<lambda>i. i = cid) = int (length ids)" if "cid \<notin> set ids" for ids
    using that by (induction ids) (auto simp: FindInSliceWith_Cons simp del: FindInSliceWith_none)
  show ?thesis
  proof (cases "FindInSliceWith cells (\<lambda>c. CellId c = cid) = -1")
    case True
    then have "cid \<notin> set (map CellId cells)" by auto
    with assms True last[of "map CellId cells"] show ?thesis
      by (simp add: own_cell_def GetOrAppendSliceWith_def Let_def find del: FindInSliceWith_none)
  next
    case False
    with assms find[of cells] show ?thesis
      by (simp add: own_cell_def GetOrAppendSliceWith_def Let_def find[of cells'] del: FindInSliceWith_none)
  qed
qed

section \<open>Properties\<close>

text \<open>C6: When the PodProtector exists, is selected, its pods can be listed and every shard has a
  sync time, the reconciliation either changes nothing (when the counters and the history of the
  cell of this aggregator are up to date) or writes one status, in which the counters of this
  cell are the numbers of listed pods that are ready, scheduled, running, available and
  pending, its last event time is the oldest sync time of the shards, the aggregation of
  every other cell is unchanged, and the summary agrees with the cells. An error of the
  write is returned.\<close>

theorem tryReconcile_writes_counts:
  assumes "reconcilable env k st ppr pods ts" "slice_sorter (agg_sort env)"
    and own: "own_cell (agg_cellId env) (Cells (Status ppr)) = (cells, idx)"
    and "pods \<noteq> [] \<or> cells = Cells (Status ppr)"
    and c': "c' = ppr_next_cell env ppr pods ts (cells ! idx)"
  shows "\<exists>r st'. if c' = cells ! idx then tryReconcile env k st w = Some (r, st', w) \<and> EndErr r = None
    else \<exists>ppr'. tryReconcile env k st w = Some (r, st', snd (agg_UpdateStatus env (SourceName k) ppr' w))
      \<and> (EndErr r = None \<longleftrightarrow> fst (agg_UpdateStatus env (SourceName k) ppr' w) = None)
      \<and> Aggregation (Cells (Status ppr') ! idx) = (counted (agg_now env) (MinReadySeconds (Spec ppr)) pods
            (Aggregation (cells ! idx)))\<lparr>LastEventTime := Min (set ts)\<rparr>
      \<and> map CellId (Cells (Status ppr')) = map CellId cells
      \<and> (\<forall>j < length cells. j \<noteq> idx \<longrightarrow> Aggregation (Cells (Status ppr') ! j) = Aggregation (cells ! j))
      \<and> coherent (Status ppr') \<and> PprMeta ppr' = PprMeta ppr \<and> Spec ppr' = Spec ppr"
  using assms
proof (cases rule: tryReconcile_cases[where w = w])
  case (same r q)
  then show ?thesis by simp
next
  case (written r q ppr')
  have idx: "idx < length cells" using own_cell_spec(1)[OF own] .
  note facts = Summarize_cell[OF written(2)]
  have aggs: "Aggregation (Cells (Status ppr') ! j) = Aggregation (cells[idx := c'] ! j)" if "j < length cells" for j
    using that arg_cong[OF facts(1), of "\<lambda>xs. xs ! j"] arg_cong[OF facts(1), of length] by simp
  have ids: "map CellId (cells[idx := c']) = map CellId cells"
    by (simp add: c' ppr_next_cell_def map_update list_update_same_conv idx)
  show ?thesis unfolding if_not_P[OF written(1)]
  proof (intro exI conjI)
    show "Aggregation (Cells (Status ppr') ! idx) = (counted (agg_now env) (MinReadySeconds (Spec ppr)) pods
          (Aggregation (cells ! idx)))\<lparr>LastEventTime := Min (set ts)\<rparr>"
      using aggs[OF idx] idx next_cell_aggregation[OF written(1)[unfolded c' ppr_next_cell_def]]
      by (simp add: c' ppr_next_cell_def all_times_def)
    show "\<forall>j < length cells. j \<noteq> idx \<longrightarrow> Aggregation (Cells (Status ppr') ! j) = Aggregation (cells ! j)"
      using aggs by simp
    show "map CellId (Cells (Status ppr')) = map CellId cells" using facts(2) ids by simp
  qed (fact written facts)+
qed


text \<open>C30: Once the aggregator has written a status and reads it back with the same pods and sync
  times, it writes nothing more: the compaction of the outstanding buckets does not produce one
  that counts as observed, and the counters are those it has just written.\<close>

theorem tryReconcile_converges:
  assumes ready: "reconcilable env k st ppr pods ts" and sorts: "slice_sorter (agg_sort env)"
    and own: "own_cell (agg_cellId env) (Cells (Status ppr)) = (cells, idx)"
    and "pods \<noteq> [] \<or> cells = Cells (Status ppr)"
    and store: "agg_UpdateStatus env = (\<lambda>src p w. (None, Some p))"
    and run: "tryReconcile env k st None = Some (r, st', Some ppr')"
  shows "\<exists>r2 st2. tryReconcile (env\<lparr>agg_pprGet := \<lambda>_. Inr (Some ppr')\<rparr>) k st' None = Some (r2, st2, None) \<and> EndErr r2 = None"
  using ready sorts own assms(4) refl
proof (cases rule: tryReconcile_cases[where w = None])
  case (same r0 q)
  then show ?thesis using run by simp
next
  case (written r0 q ppr0)
  let ?c = "ppr_next_cell env ppr pods ts (cells ! idx)" and ?l = "all_times ts"
  let ?env = "env\<lparr>agg_pprGet := \<lambda>_. Inr (Some ppr')\<rparr>"
  have ppr': "ppr0 = ppr'" and st': "st' = st\<lparr>st_shards := woken env k ts ?c (st_shards st), st_queue := q\<rparr>"
    using written(4) run store by simp_all
  note sum = Summarize_cell[OF written(2)[unfolded ppr']]
  have idx: "idx < length cells" and ts: "ts \<noteq> []" and thr: "1 \<le> CompactThreshold (agg_computed env ppr)"
    using own_cell_spec(1)[OF own] ready read_sync_length[of "st_shards st" ts] by (auto simp: reconcilable_def)
  have "map CellId (Cells (Status ppr')) = map CellId cells"
    by (simp add: sum(2) ppr_next_cell_def map_update list_update_same_conv idx)
  from own_cell_ids[of _ "agg_cellId env" "Cells (Status ppr)"] this own
  have own': "own_cell (agg_cellId ?env) (Cells (Status ppr')) = (Cells (Status ppr'), idx)" by simp
  let ?d = "Cells (Status ppr') ! idx"
  have len: "idx < length (Cells (Status ppr'))" using arg_cong[OF sum(1), of length] idx by simp
  have cd: "compacted (agg_sort env) (agg_computed env ppr) ?c ?d"
    using list_all2_nthD2[OF sum(5) len] idx by simp
  obtain bs where bs: "CompactBuckets (agg_sort env) (agg_computed env ppr) (cell_buckets ?c) = Some bs"
      "?d = ?c\<lparr>History := \<lparr>Buckets = bs\<rparr>\<rparr>" using cd unfolding compacted_def by (elim exE conjE)
  have wfc: "list_all bucket_wf (cell_buckets ?c)"
    using next_cell_wf[of "cells ! idx"] own_cell_wf[OF own] ready idx
    unfolding reconcilable_def ppr_next_cell_def cell_wf_def[symmetric] by (simp add: list_all_length)
  have "\<not> observed (agg_hash env) ?l b" if "b \<in> set bs" for b
    by (rule compact_keeps_unobserved[OF sorts wfc thr bs(1) _ _ _ that])
      (auto simp: ppr_next_cell_def all_times_def ts)
  then have fixpoint: "ppr_next_cell ?env ppr' pods ts ?d = ?d"
    using next_cell_aggregation[OF written(1)[unfolded ppr_next_cell_def]]
    unfolding ppr_next_cell_def next_cell_same refreshed_same by (simp add: bs(2) ppr_next_cell_def sum(4))
  have shards: "map podLister (st_shards st') = map podLister (st_shards st)"
    "map informerSync (st_shards st') = map informerSync (st_shards st)" "length (st_shards st') = length (st_shards st)"
    "st_index st' = st_index st" by (simp_all add: st')
  have ready': "reconcilable ?env k st' ppr' pods ts"
    using ready written(3) unfolding reconcilable_def ppr' shards(4)
      findRelevantPods_listers[OF shards(1) sum(3,4)] read_sync_listers[OF shards(2)]
    using shards(3) by (auto simp: sum(3,4))
  have sorts': "slice_sorter (agg_sort ?env)" using sorts by simp
  show ?thesis
    by (rule tryReconcile_cases[OF ready' sorts' own' disjI2[OF refl] fixpoint[symmetric], where w = None]) auto
qed

text \<open>Both theorems at a PodProtector without status and one available pod.\<close>

definition sample_agg_env :: "PodProtector option AggEnv" where
  "sample_agg_env = \<lparr>agg_cellId = ''cell'', agg_config = default_options, agg_now = 100, agg_selector = (\<lambda>_. True),
     agg_pprGet = (\<lambda>_. Inr (Some (sample_ppr 1 []))), agg_UpdateStatus = (\<lambda>src p w. (None, Some p)),
     agg_hash = (\<lambda>_. 0), agg_sort = insertion_sort\<rparr>"

definition sample_agg_state :: AggState where
  "sample_agg_state = \<lparr>st_index = snd (the (Namespaced_Track NewSets Sets_Track NewNamespaced
       (''default'', ''a'') [(''app'', ''web'')])),
     st_shards = [sample_shard [sample_event_pod ''a'' ''n''] (Some 5)], st_queue = []\<rparr>"

lemma sample_agg_ready:
  "reconcilable sample_agg_env sample_key sample_agg_state (sample_ppr 1 []) [sample_event_pod ''a'' ''n''] [5]"
  unfolding reconcilable_def by code_simp

lemma sample_agg_sorts: "slice_sorter (agg_sort sample_agg_env)"
  by (simp add: sample_agg_env_def insertion.slice_sorter_axioms)

lemma sample_agg_own:
  "own_cell (agg_cellId sample_agg_env) (Cells (Status (sample_ppr 1 []))) = ([new_cell ''cell''], 0)"
  by code_simp


lemma sample_agg_changes:
  "ppr_next_cell sample_agg_env (sample_ppr 1 []) [sample_event_pod ''a'' ''n''] [5] ([new_cell ''cell''] ! 0) \<noteq> [new_cell ''cell''] ! 0"
  by code_simp

lemma sample_agg_store: "agg_UpdateStatus sample_agg_env = (\<lambda>src p w. (None, Some p))"
  by (simp add: sample_agg_env_def)

lemma sample_agg_run: "\<exists>r st' ppr'. tryReconcile sample_agg_env sample_key sample_agg_state None = Some (r, st', Some ppr')"
  by (rule tryReconcile_cases[OF sample_agg_ready sample_agg_sorts sample_agg_own _ refl, where w = None])
    (use sample_agg_changes in \<open>simp_all add: sample_agg_store\<close>)

theorem tryReconcile_writes_counts_witness:
  "reconcilable sample_agg_env sample_key sample_agg_state (sample_ppr 1 []) [sample_event_pod ''a'' ''n''] [5]
   \<and> (\<exists>r st' ppr'. tryReconcile sample_agg_env sample_key sample_agg_state None = Some (r, st', Some ppr')
       \<and> AvailableReplicas (Aggregation (Cells (Status ppr') ! 0)) = 1)"
proof -
  have one: "AvailableReplicas (counted (agg_now sample_agg_env) (MinReadySeconds (Spec (sample_ppr 1 [])))
      [sample_event_pod ''a'' ''n''] (Aggregation ([new_cell ''cell''] ! 0))) = 1" by code_simp
  have "[sample_event_pod ''a'' ''n''] \<noteq> [] \<or> [new_cell ''cell''] = Cells (Status (sample_ppr 1 []))" by simp
  from tryReconcile_writes_counts[OF sample_agg_ready sample_agg_sorts sample_agg_own this refl, of None,
      unfolded if_not_P[OF sample_agg_changes]]
  obtain r st' ppr' where "tryReconcile sample_agg_env sample_key sample_agg_state None =
      Some (r, st', snd (agg_UpdateStatus sample_agg_env (SourceName sample_key) ppr' None))"
    "Aggregation (Cells (Status ppr') ! 0) = (counted (agg_now sample_agg_env) (MinReadySeconds (Spec (sample_ppr 1 [])))
      [sample_event_pod ''a'' ''n''] (Aggregation ([new_cell ''cell''] ! 0)))\<lparr>LastEventTime := Min (set [5])\<rparr>" by blast
  then show ?thesis using one sample_agg_ready by (auto simp: sample_agg_store)
qed

theorem tryReconcile_converges_witness:
  "\<exists>r st' ppr' r2 st2. tryReconcile sample_agg_env sample_key sample_agg_state None = Some (r, st', Some ppr')
   \<and> tryReconcile (sample_agg_env\<lparr>agg_pprGet := \<lambda>_. Inr (Some ppr')\<rparr>) sample_key st' None = Some (r2, st2, None)"
proof -
  obtain r st' ppr' where run: "tryReconcile sample_agg_env sample_key sample_agg_state None = Some (r, st', Some ppr')"
    using sample_agg_run by blast
  have "[sample_event_pod ''a'' ''n''] \<noteq> [] \<or> [new_cell ''cell''] = Cells (Status (sample_ppr 1 []))" by simp
  from tryReconcile_converges[OF sample_agg_ready sample_agg_sorts sample_agg_own this sample_agg_store run] run
  show ?thesis by blast
qed

end
