(* ===== verification/AggregatorEvents.thy ===== *)
theory AggregatorEvents
  imports AggregatorReconcile
begin

text \<open>
  Pod events of the aggregator: what the event handler leaves in the index, the sync times, the
  pools and the queue, which pods a reconciliation finds after a sequence of events, and what
  happens when an event comes between the listing of the pods and the reading of the sync times.
\<close>

section \<open>The index of the pods of a cell\<close>

interpretation pod_index: label_index NewNamespaced "Namespaced_Track NewSets Sets_Track"
    "Namespaced_Untrack Sets_Untrack" "Namespaced_Query Sets_Query"
    set_index.ns_ok set_index.ns_tracked map_ok "\<lambda>_. True" "\<lambda>raw. Some (CreateSet raw)" set_index.ns_accepts
  using set_index.namespaced_index by simp

section \<open>One event\<close>

definition event_object :: "EventObject \<Rightarrow> EventObject" where
  "event_object obj = (case obj of DeletedFinalStateUnknown o' \<Rightarrow> o' | _ \<Rightarrow> obj)"

definition event_ops :: "EventObject \<Rightarrow> bool \<Rightarrow> (string \<times> string, (string, string) gomap) index_op list" where
  "event_ops obj present =
     (case event_object obj of
        EventPod pod \<Rightarrow>
          [if present then OpTrack (Namespace (PodMeta pod), Name (PodMeta pod)) (Labels (PodMeta pod))
           else OpUntrack (Namespace (PodMeta pod), Name (PodMeta pod))]
      | _ \<Rightarrow> [])"

definition event_good :: "podEventHandler \<Rightarrow> EventObject \<Rightarrow> bool" where
  "event_good h obj = (case event_object obj of
     EventPod pod \<Rightarrow> map_ok (Labels (PodMeta pod)) \<and> ev_interpret h pod \<noteq> None | _ \<Rightarrow> True)"

lemma enqueue_all:
  "foldl (\<lambda>q key. enqueueDelayed jit conf key get q) q keys =
     q @ map (\<lambda>key. (key, jit (AggregationRate (Compute conf
       (case get key of Inr ppr \<Rightarrow> map_option (\<lambda>p. HistoryConfig (Spec p)) ppr | Inl _ \<Rightarrow> None))))) keys"
  by (induction keys arbitrary: q) (simp_all add: enqueueDelayed_def Let_def)

lemma set_insert_all: "set (foldl (\<lambda>s k. set_Insert k s) xs ys) = set xs \<union> set ys"
  by (induction ys arbitrary: xs) (auto simp: set_Insert_def)

lemma distinct_insert_all: "distinct xs \<Longrightarrow> distinct (foldl (\<lambda>s k. set_Insert k s) xs ys)"
  by (induction ys arbitrary: xs) (auto simp: set_Insert_def)

text \<open>The keys the event makes the worker reconcile: those waiting in the pool of the shard
  and those whose selector matches the pod.\<close>

definition triggered :: "podEventHandler \<Rightarrow> Shard \<Rightarrow> Pod \<Rightarrow> PodProtectorKey list" where
  "triggered h shard pod = foldl (\<lambda>s k. set_Insert k s) (items (notifyOnInformerEvent shard))
     (ev_pprQuery h (Namespace (PodMeta pod)) (Labels (PodMeta pod)))"

definition delayed :: "podEventHandler \<Rightarrow> PodProtectorKey \<Rightarrow> PodProtectorKey \<times> duration" where
  "delayed h key = (key, ev_jitter h (AggregationRate (Compute (ev_config h)
     (case ev_pprGet h key of Inr ppr \<Rightarrow> map_option (\<lambda>p. HistoryConfig (Spec p)) ppr | Inl _ \<Rightarrow> None))))"

lemma handle_event_pod:
  assumes "event_object obj = EventPod pod"
    and "(if present
       then map_option snd (Namespaced_Track NewSets Sets_Track (st_index st)
         (Namespace (PodMeta pod), Name (PodMeta pod)) (Labels (PodMeta pod)))
       else map_option snd (Namespaced_Untrack Sets_Untrack (st_index st)
         (Namespace (PodMeta pod), Name (PodMeta pod)))) = Some ix"
    and "notifier (ev_interpret h) pod (informerSync (st_shards st ! i)) = Some (err, sync)"
  shows "handle_event h i obj present st = Some (if err \<noteq> None
     then st\<lparr>st_index := ix, st_shards := (st_shards st)[i := (st_shards st ! i)\<lparr>informerSync := sync\<rparr>]\<rparr>
     else st\<lparr>st_index := ix, st_shards := (st_shards st)[i := (st_shards st ! i)\<lparr>informerSync := sync,
           notifyOnInformerEvent := snd (pool_Drain (ev_now h) (notifyOnInformerEvent (st_shards st ! i)))\<rparr>],
         st_queue := st_queue st @ map (delayed h) (triggered h (st_shards st ! i) pod)\<rparr>)"
  using assms(2,3) unfolding handle_event_def event_object_def[symmetric] assms(1)
  by (simp add: Let_def enqueue_all delayed_def[abs_def] triggered_def pool_Drain_def)

lemma handle_event_index:
  assumes "set_index.ns_ok (st_index st)" "event_good h obj" "i < length (st_shards st)"
  shows "\<exists>st'. handle_event h i obj present st = Some st'
    \<and> run_index (Namespaced_Track NewSets Sets_Track) (Namespaced_Untrack Sets_Untrack) (event_ops obj present) (st_index st)
        = Some (st_index st')
    \<and> map podLister (st_shards st') = map podLister (st_shards st)"
proof (cases "event_object obj")
  case (EventPod pod)
  let ?n = "(Namespace (PodMeta pod), Name (PodMeta pod))"
  have good: "map_ok (Labels (PodMeta pod))" "ev_interpret h pod \<noteq> None"
    using assms(2) EventPod by (simp_all add: event_good_def)
  obtain err sync where sync: "notifier (ev_interpret h) pod (informerSync (st_shards st ! i)) = Some (err, sync)"
    using good(2) by (cases "the (ev_interpret h pod)") (auto simp: notifier_def)
  have lister: "map podLister ((st_shards st)[i := (st_shards st ! i)\<lparr>informerSync := s\<rparr>]) = map podLister (st_shards st)"
    "map podLister ((st_shards st)[i := (st_shards st ! i)\<lparr>informerSync := s, notifyOnInformerEvent := p\<rparr>]) =
      map podLister (st_shards st)" for s p
    using assms(3) by (simp_all add: map_update list_update_same_conv)
  obtain e ix1 where track: "Namespaced_Track NewSets Sets_Track (st_index st) ?n (Labels (PodMeta pod)) = Some (e, ix1)"
    using pod_index.track_law[OF assms(1) good(1), of ?n] by blast
  obtain b ix2 where untrack: "Namespaced_Untrack Sets_Untrack (st_index st) ?n = Some (b, ix2)"
    using pod_index.untrack_law[OF assms(1), of ?n] by blast
  show ?thesis
    using handle_event_pod[OF EventPod _ sync, of present "if present then ix1 else ix2"] track untrack lister
    by (cases present) (simp_all add: event_ops_def EventPod)
qed (use assms(1) in \<open>simp_all add: handle_event_def event_object_def[symmetric] event_ops_def\<close>)

section \<open>Sequences of events\<close>

text \<open>Events, each with the number of the shard that delivers it and whether the object still
  exists.\<close>

fun run_events :: "podEventHandler \<Rightarrow> (nat \<times> EventObject \<times> bool) list \<Rightarrow> AggState \<Rightarrow> AggState option" where
  "run_events h [] st = Some st"
| "run_events h ((i, obj, present) # evs) st =
     (case handle_event h i obj present st of None \<Rightarrow> None | Some st' \<Rightarrow> run_events h evs st')"

definition events_ops :: "(nat \<times> EventObject \<times> bool) list \<Rightarrow> (string \<times> string, (string, string) gomap) index_op list" where
  "events_ops evs = concat (map (\<lambda>(i, obj, present). event_ops obj present) evs)"

definition events_good :: "podEventHandler \<Rightarrow> nat \<Rightarrow> (nat \<times> EventObject \<times> bool) list \<Rightarrow> bool" where
  "events_good h n evs \<longleftrightarrow> (\<forall>(i, obj, present) \<in> set evs. i < n \<and> event_good h obj)"

lemma event_ops_good: "event_good h obj \<Longrightarrow> list_all (op_good map_ok) (event_ops obj present)"
  by (cases "event_object obj") (simp_all add: event_ops_def event_good_def)

lemma events_ops_good: "events_good h n evs \<Longrightarrow> list_all (op_good map_ok) (events_ops evs)"
  using event_ops_good by (fastforce simp: events_good_def events_ops_def list_all_iff)

lemma run_events_index:
  assumes "set_index.ns_ok (st_index st)" "events_good h (length (st_shards st)) evs"
  shows "\<exists>st'. run_events h evs st = Some st'
    \<and> run_index (Namespaced_Track NewSets Sets_Track) (Namespaced_Untrack Sets_Untrack) (events_ops evs) (st_index st)
        = Some (st_index st')
    \<and> map podLister (st_shards st') = map podLister (st_shards st)"
  using assms
proof (induction evs arbitrary: st)
  case (Cons ev evs)
  obtain i obj present where ev: "ev = (i, obj, present)" by (cases ev) auto
  have good: "event_good h obj" "i < length (st_shards st)" "events_good h (length (st_shards st)) evs"
    using Cons.prems(2) by (auto simp: ev events_good_def)
  from handle_event_index[OF Cons.prems(1) good(1,2), of present] obtain st1 where
    st1: "handle_event h i obj present st = Some st1"
      "run_index (Namespaced_Track NewSets Sets_Track) (Namespaced_Untrack Sets_Untrack) (event_ops obj present) (st_index st)
        = Some (st_index st1)" "map podLister (st_shards st1) = map podLister (st_shards st)" by blast
  have "set_index.ns_ok (st_index st1)"
    using pod_index.run_index_ok[OF Cons.prems(1) event_ops_good[OF good(1), of present]] st1(2) by auto
  from Cons.IH[OF this] good(3) map_eq_imp_length_eq[OF st1(3)] st1 show ?case
    by (auto simp: ev events_ops_def run_index_append)
qed (simp add: events_ops_def)


lemma collect_found:
  assumes "\<And>n. n \<in> set ns \<Longrightarrow> findPodFromAnyShard shards n None = (Some (podOf n), None)"
  shows "foldl (\<lambda>(_, s) x. collect_pod shards x s) (None, acc) ns =
    (None, acc @ map podOf (filter (\<lambda>n. ts_IsZero (DeletionTimestamp (PodMeta (podOf n)))) ns))"
  using assms
proof (induction ns arbitrary: acc)
  case (Cons n ns)
  have "collect_pod shards n acc =
      (None, if ts_IsZero (DeletionTimestamp (PodMeta (podOf n))) then acc @ [podOf n] else acc)"
    using Cons.prems[of n] by (simp add: collect_pod_def)
  with Cons show ?case by simp
qed simp

lemma findRelevantPods_found:
  assumes "Namespaced_Query Sets_Query ix
      \<lparr>QueryNamespace = Namespace (PprMeta ppr), NsQuery = GetAggregationSelector ppr\<rparr> = Some (Inr ns)"
    and "\<And>n. n \<in> set ns \<Longrightarrow> findPodFromAnyShard shards n None = (Some (podOf n), None)"
  shows "findRelevantPods ix shards ppr =
    Some (Inr (map podOf (filter (\<lambda>n. ts_IsZero (DeletionTimestamp (PodMeta (podOf n)))) ns)))"
  using collect_found[where shards = shards and podOf = podOf and acc = "[]", OF assms(2)]
  by (simp add: findRelevantPods_def assms(1) TryForEach_Filter_foldl)

lemma pod_index_query:
  assumes "list_all (op_good map_ok) ops" "known_operators sel"
    and "run_index (Namespaced_Track NewSets Sets_Track) (Namespaced_Untrack Sets_Untrack) ops NewNamespaced = Some ix"
  shows "\<exists>ns. Namespaced_Query Sets_Query ix \<lparr>QueryNamespace = nspace, NsQuery = sel\<rparr> = Some (Inr ns) \<and> distinct ns
    \<and> set ns = {n. fst n = nspace \<and> (\<exists>raw. final_items Some ops Map.empty n = Some raw \<and> selects sel (map_of raw))}"
proof -
  let ?q = "\<lparr>QueryNamespace = nspace, NsQuery = sel\<rparr>" and ?f = "final_items (\<lambda>raw. Some (CreateSet raw)) ops Map.empty"
  have acc: "set_index.ns_accepts ?q = Some (\<lambda>name labels. fst name = nspace \<and> selects sel (label_map labels))"
    using assms(2) by (simp add: set_index.ns_accepts_def)
  from pod_index.run_query[OF assms(1) _ acc] assms(3) obtain ns where
    ns: "Namespaced_Query Sets_Query ix ?q = Some (Inr ns)" "distinct ns"
      "set ns = {n. \<exists>a. ?f n = Some a \<and> fst n = nspace \<and> selects sel (label_map a)}" by auto
  have known: "?f n = map_option CreateSet (final_items Some ops Map.empty n)" for n
    using final_items_map[of CreateSet ops Map.empty n] by simp
  have "selects sel (label_map (CreateSet raw)) \<longleftrightarrow> selects sel (map_of raw)"
    if "final_items Some ops Map.empty n = Some raw" for n raw
    using final_items_good[OF assms(1) _ that] by (simp add: label_map_CreateSet)
  then have "set ns = {n. fst n = nspace \<and> (\<exists>raw. final_items Some ops Map.empty n = Some raw \<and> selects sel (map_of raw))}"
    unfolding ns(3) known by auto
  with ns show ?thesis by blast
qed

section \<open>Properties\<close>

text \<open>C8: After any sequence of pod events, starting from an empty index, the aggregator lists
  for a PodProtector exactly the pods of its namespace whose last labels its aggregation selector
  selects and that are not terminating, each once: provided that the informer stores have
  these pods, that the labels are maps and that every selector operator is known.\<close>

theorem findRelevantPods_after_events:
  assumes "events_good h (length shards) evs" "known_operators (GetAggregationSelector ppr)"
    and stored: "\<And>n. final_items Some (events_ops evs) Map.empty n \<noteq> None \<Longrightarrow>
      findPodFromAnyShard shards n None = (Some (podOf n), None)"
  shows "\<exists>st' ns. run_events h evs \<lparr>st_index = NewNamespaced, st_shards = shards, st_queue = []\<rparr> = Some st'
    \<and> findRelevantPods (st_index st') (st_shards st') ppr =
        Some (Inr (map podOf (filter (\<lambda>n. ts_IsZero (DeletionTimestamp (PodMeta (podOf n)))) ns)))
    \<and> distinct ns
    \<and> set ns = {n. fst n = Namespace (PprMeta ppr) \<and> (\<exists>raw. final_items Some (events_ops evs) Map.empty n = Some raw
        \<and> selects (GetAggregationSelector ppr) (map_of raw))}"
proof -
  let ?st = "\<lparr>st_index = NewNamespaced, st_shards = shards, st_queue = []\<rparr> :: AggState"
  have "set_index.ns_ok (st_index ?st)" using pod_index.new_ok by simp
  from run_events_index[OF this, of h evs] assms(1) obtain st' where
    st': "run_events h evs ?st = Some st'"
      "run_index (Namespaced_Track NewSets Sets_Track) (Namespaced_Untrack Sets_Untrack) (events_ops evs) NewNamespaced
        = Some (st_index st')"
      "map podLister (st_shards st') = map podLister shards" by auto
  from pod_index_query[OF events_ops_good[OF assms(1)] assms(2) st'(2), of "Namespace (PprMeta ppr)"]
  obtain ns where ns: "Namespaced_Query Sets_Query (st_index st')
      \<lparr>QueryNamespace = Namespace (PprMeta ppr), NsQuery = GetAggregationSelector ppr\<rparr> = Some (Inr ns)" "distinct ns"
    "set ns = {n. fst n = Namespace (PprMeta ppr) \<and> (\<exists>raw. final_items Some (events_ops evs) Map.empty n = Some raw
        \<and> selects (GetAggregationSelector ppr) (map_of raw))}" by blast
  have "findPodFromAnyShard (st_shards st') n None = (Some (podOf n), None)" if "n \<in> set ns" for n
    using that stored[of n] unfolding findPod_listers[OF st'(3)] ns(3) by auto
  from findRelevantPods_found[where podOf = podOf, OF ns(1) this] ns st'(1) show ?thesis by blast
qed


definition sample_handler :: "gotime \<Rightarrow> podEventHandler" where
  "sample_handler now = \<lparr>ev_config = default_options, ev_jitter = (\<lambda>d. d),
     ev_pprGet = (\<lambda>_. Inr (Some (sample_ppr 1 []))), ev_pprQuery = (\<lambda>_ _. [sample_key]),
     ev_interpret = ClockPodInterpreter now, ev_now = now\<rparr>"

definition sample_events :: "(nat \<times> EventObject \<times> bool) list" where
  "sample_events = [(0, EventPod (sample_event_pod ''a'' ''n''), True)]"

lemma sample_final: "final_items Some (events_ops sample_events) Map.empty n =
    (if n = (''default'', ''a'') then Some [(''app'', ''web'')] else None)"
  by (simp add: sample_events_def events_ops_def event_ops_def event_object_def sample_event_pod_def)

theorem findRelevantPods_after_events_witness:
  "\<exists>st' ns. run_events (sample_handler 9) sample_events \<lparr>st_index = NewNamespaced,
        st_shards = [sample_shard [sample_event_pod ''a'' ''n''] None], st_queue = []\<rparr> = Some st'
    \<and> findRelevantPods (st_index st') (st_shards st') (sample_ppr 1 []) = Some (Inr (map (\<lambda>_. sample_event_pod ''a'' ''n'')
        (filter (\<lambda>n. ts_IsZero (DeletionTimestamp (PodMeta (sample_event_pod ''a'' ''n'')))) ns))) \<and> set ns = {(''default'', ''a'')}"
proof -
  have good: "events_good (sample_handler 9) (length [sample_shard [sample_event_pod ''a'' ''n''] None]) sample_events"
    by code_simp
  have sel: "known_operators (GetAggregationSelector (sample_ppr 1 []))"
    "selects (GetAggregationSelector (sample_ppr 1 [])) (map_of [(''app'', ''web'')])"
    by (simp_all add: known_operators_def selects_def GetAggregationSelector_def sample_ppr_def)
  have stored: "findPodFromAnyShard [sample_shard [sample_event_pod ''a'' ''n''] None] n None =
      (Some (sample_event_pod ''a'' ''n''), None)"
    if "final_items Some (events_ops sample_events) Map.empty n \<noteq> None" for n
  proof -
    have "n = (''default'', ''a'')" using that unfolding sample_final by (simp split: if_splits)
    then show ?thesis by (simp add: sample_shard_def sample_event_pod_def)
  qed
  have "Namespace (PprMeta (sample_ppr 1 [])) = ''default''" by (simp add: sample_ppr_def sample_meta_def)
  then have names: "{n. fst n = Namespace (PprMeta (sample_ppr 1 [])) \<and> (\<exists>raw. final_items Some (events_ops sample_events) Map.empty n = Some raw
        \<and> selects (GetAggregationSelector (sample_ppr 1 [])) (map_of raw))} = {(''default'', ''a'')}"
    unfolding sample_final using sel(2) by (auto split: if_splits)
  show ?thesis
    using findRelevantPods_after_events[where podOf = "\<lambda>_. sample_event_pod ''a'' ''n''", OF good sel(1) stored]
    unfolding names by blast
qed

text \<open>C31: An event about a pod makes the worker reconcile, after the delay of its own history
  configuration, every PodProtector that matches the pod and every one that was waiting for the
  next event of the shard, each once; it empties the pool of the shard, moves its sync time to
  the later of the old one and the time inferred from the pod, and leaves the other shards
  alone.\<close>

theorem handle_event_triggers:
  assumes "event_object obj = EventPod pod" "map_ok (Labels (PodMeta pod))" "set_index.ns_ok (st_index st)"
    and "i < length (st_shards st)" "pool_ok (notifyOnInformerEvent (st_shards st ! i))"
    and "ev_interpret h pod = Some (Inr t)"
  shows "\<exists>st' keys. handle_event h i obj present st = Some st'
    \<and> st_queue st' = st_queue st @ map (delayed h) keys \<and> distinct keys
    \<and> set keys = set (items (notifyOnInformerEvent (st_shards st ! i)))
        \<union> set (ev_pprQuery h (Namespace (PodMeta pod)) (Labels (PodMeta pod)))
    \<and> items (notifyOnInformerEvent (st_shards st' ! i)) = []
    \<and> informerSync (st_shards st' ! i) =
        Some (case informerSync (st_shards st ! i) of None \<Rightarrow> t | Some u \<Rightarrow> max u t)
    \<and> (\<forall>j. j \<noteq> i \<longrightarrow> st_shards st' ! j = st_shards st ! j)"
proof -
  let ?n = "(Namespace (PodMeta pod), Name (PodMeta pod))" and ?shard = "st_shards st ! i"
  obtain e ix1 where track: "Namespaced_Track NewSets Sets_Track (st_index st) ?n (Labels (PodMeta pod)) = Some (e, ix1)"
    using pod_index.track_law[OF assms(3,2), of ?n] by blast
  obtain b ix2 where untrack: "Namespaced_Untrack Sets_Untrack (st_index st) ?n = Some (b, ix2)"
    using pod_index.untrack_law[OF assms(3), of ?n] by blast
  have sync: "notifier (ev_interpret h) pod (informerSync ?shard) =
      Some (None, Some (case informerSync ?shard of None \<Rightarrow> t | Some u \<Rightarrow> max u t))"
    using assms(6) by (simp add: notifier_def sync_extrema)
  have keys: "distinct (triggered h ?shard pod)"
    "set (triggered h ?shard pod) = set (items (notifyOnInformerEvent ?shard))
      \<union> set (ev_pprQuery h (Namespace (PodMeta pod)) (Labels (PodMeta pod)))"
    using assms(5) by (simp_all add: triggered_def set_insert_all distinct_insert_all pool_ok_def)
  have run: "handle_event h i obj present st = Some (st\<lparr>st_index := if present then ix1 else ix2,
      st_shards := (st_shards st)[i := ?shard\<lparr>informerSync := Some (case informerSync ?shard of None \<Rightarrow> t | Some u \<Rightarrow> max u t),
         notifyOnInformerEvent := snd (pool_Drain (ev_now h) (notifyOnInformerEvent ?shard))\<rparr>],
      st_queue := st_queue st @ map (delayed h) (triggered h ?shard pod)\<rparr>)"
    using handle_event_pod[OF assms(1) _ sync, of present "if present then ix1 else ix2"] track untrack by simp
  show ?thesis unfolding run
    by (rule exI, rule exI[of _ "triggered h ?shard pod"], intro conjI, rule refl)
      (use assms(4) keys in simp_all)
qed

theorem handle_event_triggers_witness:
  "map_ok (Labels (PodMeta (sample_event_pod ''a'' ''n''))) \<and>
   (\<exists>st' keys. handle_event (sample_handler 9) 0 (EventPod (sample_event_pod ''a'' ''n'')) True
       \<lparr>st_index = NewNamespaced, st_shards = [sample_shard [] (Some 5)], st_queue = []\<rparr> = Some st'
     \<and> st_queue st' = map (delayed (sample_handler 9)) keys \<and> set keys = {sample_key}
     \<and> informerSync (st_shards st' ! 0) = Some 9)"
proof -
  let ?st = "\<lparr>st_index = NewNamespaced, st_shards = [sample_shard [] (Some 5)], st_queue = []\<rparr> :: AggState"
  have labels: "map_ok (Labels (PodMeta (sample_event_pod ''a'' ''n'')))" by code_simp
  have ok: "set_index.ns_ok (st_index ?st)" using pod_index.new_ok by simp
  show ?thesis
    using labels handle_event_triggers[of "EventPod (sample_event_pod ''a'' ''n'')" "sample_event_pod ''a'' ''n''" ?st 0
        "sample_handler 9" 9 True, OF _ labels ok]
    by (auto simp: event_object_def sample_shard_def sample_handler_def ClockPodInterpreter_def newNextEventPool_def pool_ok_def)
qed

definition race_ppr :: PodProtector where
  "race_ppr = sample_ppr 1 [(sample_history [(sample_bucket 7 ''a'')\<lparr>BucketPodName := ''a''\<rparr>])]"

text \<open>The pods are listed before the sync times are read, and the event handler runs
  concurrently. When the event of a deletion comes in between, the reconciliation counts the
  deleted pod as available and also clears the bucket of its admission, so the status it writes
  estimates one available pod where the index has none left.\<close>

theorem deletion_between_list_and_sync:
  "case findRelevantPods (st_index sample_agg_state) (st_shards sample_agg_state) race_ppr of
     Some (Inr pods) \<Rightarrow>
       (case handle_event (sample_handler 9) 0 (EventPod (sample_event_pod ''a'' ''n'')) False sample_agg_state of
          Some st1 \<Rightarrow>
            (case reconcile_cell sample_agg_env sample_key st1 race_ppr (Cells (Status race_ppr)) 0 pods None of
               Some (r, st2, Some ppr') \<Rightarrow>
                 EndErr r = None \<and> cell_buckets (Cells (Status ppr') ! 0) = []
                 \<and> EstimatedAvailable (Summary (Status ppr')) = 1
                 \<and> findRelevantPods (st_index st1) (st_shards st1) race_ppr = Some (Inr [])
             | _ \<Rightarrow> False)
        | _ \<Rightarrow> False)
   | _ \<Rightarrow> False"
  by code_simp

end
