(* ===== verification/Monitor.thy ===== *)
theory Monitor
  imports UtilHelpers Apis LabelIndexSpec
begin

text \<open>
  The monitor of the generator, \<open>generator/monitor/monitor.go\<close> with the counters of
  \<open>generator/observer/observer.go\<close>: it keeps what each PodProtector has contributed and
  the running sum of the contributions, all on 64 bits. \<open>None\<close> is a panic.
\<close>

section \<open>Counters\<close>

record StatusCount =
  MeetsMinAvailable :: int
  AggregatedReplicas :: int64
  SumProportionPpm :: int64

record MonitorWorkloads =
  NumWorkloads :: int
  NumNonZeroWorkloads :: int
  mw_MinAvailable :: int64
  EstimatedAvailableReplicas :: int64
  SumLatencyMillis :: int64
  CreatedCount :: StatusCount
  AvailableCount :: StatusCount
  ReadyCount :: StatusCount
  ScheduledCount :: StatusCount
  RunningCount :: StatusCount

definition StatusCount_Add :: "StatusCount \<Rightarrow> StatusCount \<Rightarrow> StatusCount" where
  "StatusCount_Add dest delta =
     \<lparr>MeetsMinAvailable = i64 (MeetsMinAvailable dest + MeetsMinAvailable delta),
      AggregatedReplicas = i64 (AggregatedReplicas dest + AggregatedReplicas delta),
      SumProportionPpm = i64 (SumProportionPpm dest + SumProportionPpm delta)\<rparr>"

definition StatusCount_Subtract :: "StatusCount \<Rightarrow> StatusCount \<Rightarrow> StatusCount" where
  "StatusCount_Subtract dest delta =
     \<lparr>MeetsMinAvailable = i64 (MeetsMinAvailable dest - MeetsMinAvailable delta),
      AggregatedReplicas = i64 (AggregatedReplicas dest - AggregatedReplicas delta),
      SumProportionPpm = i64 (SumProportionPpm dest - SumProportionPpm delta)\<rparr>"

definition MonitorWorkloads_Add :: "MonitorWorkloads \<Rightarrow> MonitorWorkloads \<Rightarrow> MonitorWorkloads" where
  "MonitorWorkloads_Add dest delta =
     \<lparr>NumWorkloads = i64 (NumWorkloads dest + NumWorkloads delta),
      NumNonZeroWorkloads = i64 (NumNonZeroWorkloads dest + NumNonZeroWorkloads delta),
      mw_MinAvailable = i64 (mw_MinAvailable dest + mw_MinAvailable delta),
      EstimatedAvailableReplicas = i64 (EstimatedAvailableReplicas dest + EstimatedAvailableReplicas delta),
      SumLatencyMillis = i64 (SumLatencyMillis dest + SumLatencyMillis delta),
      CreatedCount = StatusCount_Add (CreatedCount dest) (CreatedCount delta),
      AvailableCount = StatusCount_Add (AvailableCount dest) (AvailableCount delta),
      ReadyCount = StatusCount_Add (ReadyCount dest) (ReadyCount delta),
      ScheduledCount = StatusCount_Add (ScheduledCount dest) (ScheduledCount delta),
      RunningCount = StatusCount_Add (RunningCount dest) (RunningCount delta)\<rparr>"

definition MonitorWorkloads_Subtract :: "MonitorWorkloads \<Rightarrow> MonitorWorkloads \<Rightarrow> MonitorWorkloads" where
  "MonitorWorkloads_Subtract dest delta =
     \<lparr>NumWorkloads = i64 (NumWorkloads dest - NumWorkloads delta),
      NumNonZeroWorkloads = i64 (NumNonZeroWorkloads dest - NumNonZeroWorkloads delta),
      mw_MinAvailable = i64 (mw_MinAvailable dest - mw_MinAvailable delta),
      EstimatedAvailableReplicas = i64 (EstimatedAvailableReplicas dest - EstimatedAvailableReplicas delta),
      SumLatencyMillis = i64 (SumLatencyMillis dest - SumLatencyMillis delta),
      CreatedCount = StatusCount_Subtract (CreatedCount dest) (CreatedCount delta),
      AvailableCount = StatusCount_Subtract (AvailableCount dest) (AvailableCount delta),
      ReadyCount = StatusCount_Subtract (ReadyCount dest) (ReadyCount delta),
      ScheduledCount = StatusCount_Subtract (ScheduledCount dest) (ScheduledCount delta),
      RunningCount = StatusCount_Subtract (RunningCount dest) (RunningCount delta)\<rparr>"

definition zero_count :: StatusCount where
  "zero_count = \<lparr>MeetsMinAvailable = 0, AggregatedReplicas = 0, SumProportionPpm = 0\<rparr>"

definition zero_workloads :: MonitorWorkloads where
  "zero_workloads = \<lparr>NumWorkloads = 0, NumNonZeroWorkloads = 0, mw_MinAvailable = 0, EstimatedAvailableReplicas = 0,
     SumLatencyMillis = 0, CreatedCount = zero_count, AvailableCount = zero_count, ReadyCount = zero_count,
     ScheduledCount = zero_count, RunningCount = zero_count\<rparr>"

section \<open>The contribution of a PodProtector\<close>

definition ProportionPpmUnits :: int where "ProportionPpmUnits = 1000000"

definition makeStatusCount :: "int32 \<Rightarrow> int32 \<Rightarrow> StatusCount option" where
  "makeStatusCount aggregated minAvailable =
     (let meetsMinAvailable = (if aggregated \<ge> minAvailable then 1 else 0);
          proportionPpm = (if minAvailable > 0
            then map_option (min ProportionPpmUnits) (RoundedIntDiv (i64 (aggregated * ProportionPpmUnits)) minAvailable)
            else Some 0)
      in map_option (\<lambda>ppm. \<lparr>MeetsMinAvailable = meetsMinAvailable, AggregatedReplicas = aggregated,
           SumProportionPpm = ppm\<rparr>) proportionPpm)"

definition pprToStatus :: "PodProtector \<Rightarrow> MonitorWorkloads option" where
  "pprToStatus ppr = do {
     let isNonZero = (if MinAvailable (Spec ppr) > 0 then 1 else 0);
     let summ = Summary (Status ppr);
     created \<leftarrow> makeStatusCount (Total summ) (MinAvailable (Spec ppr));
     available \<leftarrow> makeStatusCount (AggregatedAvailable summ) (MinAvailable (Spec ppr));
     ready \<leftarrow> makeStatusCount (AggregatedReady summ) (MinAvailable (Spec ppr));
     scheduled \<leftarrow> makeStatusCount (AggregatedScheduled summ) (MinAvailable (Spec ppr));
     run \<leftarrow> makeStatusCount (AggregatedRunning summ) (MinAvailable (Spec ppr));
     Some \<lparr>NumWorkloads = 1, NumNonZeroWorkloads = isNonZero, mw_MinAvailable = MinAvailable (Spec ppr),
       EstimatedAvailableReplicas = EstimatedAvailable summ, SumLatencyMillis = MaxLatencyMillis summ,
       CreatedCount = created, AvailableCount = available, ReadyCount = ready, ScheduledCount = scheduled,
       RunningCount = run\<rparr>
   }"

section \<open>The running sum\<close>

record MonitorState =
  monitor_status :: MonitorWorkloads
  addedDeltaCache :: "(string \<times> string, MonitorWorkloads) gomap"

definition monitor_new :: MonitorState where
  "monitor_new = \<lparr>monitor_status = zero_workloads, addedDeltaCache = []\<rparr>"

definition monitor_add :: "string \<times> string \<Rightarrow> MonitorWorkloads \<Rightarrow> MonitorState \<Rightarrow> MonitorState" where
  "monitor_add nsName newDelta state =
     (let old = (case map_of (addedDeltaCache state) nsName of Some d \<Rightarrow> d | None \<Rightarrow> zero_workloads)
      in \<lparr>monitor_status = MonitorWorkloads_Add (MonitorWorkloads_Subtract (monitor_status state) old) newDelta,
          addedDeltaCache = map_put nsName newDelta (addedDeltaCache state)\<rparr>)"

definition monitor_remove :: "string \<times> string \<Rightarrow> MonitorState \<Rightarrow> MonitorState" where
  "monitor_remove nsName state =
     (let old = (case map_of (addedDeltaCache state) nsName of Some d \<Rightarrow> d | None \<Rightarrow> zero_workloads)
      in \<lparr>monitor_status = MonitorWorkloads_Subtract (monitor_status state) old,
          addedDeltaCache = map_del nsName (addedDeltaCache state)\<rparr>)"

definition monitor_event :: "PodProtector \<Rightarrow> bool \<Rightarrow> MonitorState \<Rightarrow> MonitorState option" where
  "monitor_event ppr stillPresent state =
     (let nsName = (Namespace (PprMeta ppr), Name (PprMeta ppr))
      in if stillPresent then map_option (\<lambda>status. monitor_add nsName status state) (pprToStatus ppr)
         else Some (monitor_remove nsName state))"

fun monitor_events :: "(PodProtector \<times> bool) list \<Rightarrow> MonitorState \<Rightarrow> MonitorState option" where
  "monitor_events [] state = Some state"
| "monitor_events ((ppr, present) # evs) state =
     (case monitor_event ppr present state of None \<Rightarrow> None | Some state' \<Rightarrow> monitor_events evs state')"

section \<open>Every counter is a sum\<close>

definition counter_list :: "(MonitorWorkloads \<Rightarrow> int) list" where
  "counter_list = [NumWorkloads, NumNonZeroWorkloads, mw_MinAvailable, EstimatedAvailableReplicas, SumLatencyMillis]
     @ concat (map (\<lambda>part. [\<lambda>m. MeetsMinAvailable (part m), \<lambda>m. AggregatedReplicas (part m), \<lambda>m. SumProportionPpm (part m)])
         [CreatedCount, AvailableCount, ReadyCount, ScheduledCount, RunningCount])"

lemmas monitor_defs = MonitorWorkloads_Add_def MonitorWorkloads_Subtract_def StatusCount_Add_def StatusCount_Subtract_def
  zero_workloads_def zero_count_def

lemma counter_Add: "f \<in> set counter_list \<Longrightarrow> f (MonitorWorkloads_Add a b) = i64 (f a + f b)"
  by (auto simp: counter_list_def monitor_defs)

lemma counter_Subtract: "f \<in> set counter_list \<Longrightarrow> f (MonitorWorkloads_Subtract a b) = i64 (f a - f b)"
  by (auto simp: counter_list_def monitor_defs)

lemma counter_zero: "f \<in> set counter_list \<Longrightarrow> f zero_workloads = 0"
  by (auto simp: counter_list_def monitor_defs)

definition cache_sum :: "(MonitorWorkloads \<Rightarrow> int) \<Rightarrow> (string \<times> string, MonitorWorkloads) gomap \<Rightarrow> int" where
  "cache_sum f cache = sum_list (map (\<lambda>p. f (snd p)) cache)"

lemma cache_sum_put:
  "cache_sum f (map_put k d cache) = cache_sum f cache - (case map_of cache k of Some old \<Rightarrow> f old | None \<Rightarrow> 0) + f d"
  by (induction k d cache rule: map_put.induct) (auto simp: cache_sum_def)

lemma cache_sum_del:
  "map_ok cache \<Longrightarrow> cache_sum f (map_del k cache) = cache_sum f cache - (case map_of cache k of Some old \<Rightarrow> f old | None \<Rightarrow> 0)"
proof (induction cache)
  case (Cons p cache)
  have "map_del k cache = cache" if "k \<notin> fst ` set cache"
    using that by (auto simp: map_del_def filter_id_conv)
  with Cons show ?case by (cases p) (auto simp: cache_sum_def map_del_def map_ok_def split: option.splits)
qed (simp add: cache_sum_def map_del_def)

definition monitor_ok :: "MonitorState \<Rightarrow> bool" where
  "monitor_ok state \<longleftrightarrow> map_ok (addedDeltaCache state)
     \<and> list_all (\<lambda>f. f (monitor_status state) = i64 (cache_sum f (addedDeltaCache state))) counter_list"

lemma monitor_ok_new: "monitor_ok monitor_new"
  by (simp add: monitor_ok_def monitor_new_def list_all_iff counter_zero cache_sum_def i64_def)

lemma monitor_ok_add: "monitor_ok state \<Longrightarrow> monitor_ok (monitor_add n d state)"
  by (auto simp: monitor_ok_def monitor_add_def Let_def list_all_iff counter_Add counter_Subtract counter_zero
      cache_sum_put i64_absorb i64_absorb_replace split: option.split)

lemma monitor_ok_remove: "monitor_ok state \<Longrightarrow> monitor_ok (monitor_remove n state)"
  by (auto simp: monitor_ok_def monitor_remove_def Let_def list_all_iff counter_Subtract counter_zero
      cache_sum_del i64_absorb split: option.split)


section \<open>Properties\<close>

lemma RoundedIntDiv_total: "0 < d \<Longrightarrow> RoundedIntDiv n d \<noteq> None"
  by (simp add: RoundedIntDiv_def Let_def)

lemma makeStatusCount_total: "\<exists>c. makeStatusCount a m = Some c"
  using RoundedIntDiv_total[of m "i64 (a * ProportionPpmUnits)"] by (auto simp: makeStatusCount_def Let_def)

lemma pprToStatus_total: "\<exists>d. pprToStatus ppr = Some d"
proof -
  obtain created available ready scheduled run where
    "makeStatusCount (Total (Summary (Status ppr))) (MinAvailable (Spec ppr)) = Some created"
    "makeStatusCount (AggregatedAvailable (Summary (Status ppr))) (MinAvailable (Spec ppr)) = Some available"
    "makeStatusCount (AggregatedReady (Summary (Status ppr))) (MinAvailable (Spec ppr)) = Some ready"
    "makeStatusCount (AggregatedScheduled (Summary (Status ppr))) (MinAvailable (Spec ppr)) = Some scheduled"
    "makeStatusCount (AggregatedRunning (Summary (Status ppr))) (MinAvailable (Spec ppr)) = Some run"
    using makeStatusCount_total by meson
  then show ?thesis by (simp add: pprToStatus_def Let_def)
qed

definition monitor_op :: "PodProtector \<times> bool \<Rightarrow> (string \<times> string, PodProtector) index_op" where
  "monitor_op ev = (let n = (Namespace (PprMeta (fst ev)), Name (PprMeta (fst ev)))
     in if snd ev then OpTrack n (fst ev) else OpUntrack n)"

lemma monitor_op_simps [simp]:
  "monitor_op (ppr, True) = OpTrack (Namespace (PprMeta ppr), Name (PprMeta ppr)) ppr"
  "monitor_op (ppr, False) = OpUntrack (Namespace (PprMeta ppr), Name (PprMeta ppr))"
  by (simp_all add: monitor_op_def Let_def)

lemma monitor_cache [simp]:
  "addedDeltaCache (monitor_add n d state) = map_put n d (addedDeltaCache state)"
  "addedDeltaCache (monitor_remove n state) = map_del n (addedDeltaCache state)"
  by (simp_all add: monitor_add_def monitor_remove_def Let_def)

lemma monitor_events_ok:
  assumes "monitor_ok state"
  shows "\<exists>state'. monitor_events evs state = Some state' \<and> monitor_ok state'
    \<and> map_of (addedDeltaCache state') = final_items pprToStatus (map monitor_op evs) (map_of (addedDeltaCache state))"
  using assms
proof (induction evs arbitrary: state)
  case (Cons ev evs)
  obtain ppr present where ev: "ev = (ppr, present)" by (cases ev) auto
  obtain d where d: "pprToStatus ppr = Some d" using pprToStatus_total by blast
  let ?n = "(Namespace (PprMeta ppr), Name (PprMeta ppr))"
  have "monitor_ok (if present then monitor_add ?n d state else monitor_remove ?n state)"
    using Cons.prems monitor_ok_add monitor_ok_remove by simp
  from Cons.IH[OF this] show ?case
    by (cases present) (simp_all add: ev monitor_event_def d Let_def del: fun_upd_apply)
qed simp

text \<open>C35: After any sequence of PodProtector events the monitor has not panicked, its cache holds
  the contribution of the last state of every PodProtector that still exists and nothing else,
  and each of its twenty counters is the sum of that counter over the cache, on 64 bits: a
  replaced or deleted object leaves nothing behind.\<close>

theorem monitor_counts_present:
  "\<exists>state. monitor_events evs monitor_new = Some state
    \<and> map_of (addedDeltaCache state) = final_items pprToStatus (map monitor_op evs) Map.empty
    \<and> distinct (map fst (addedDeltaCache state))
    \<and> list_all (\<lambda>f. f (monitor_status state) = i64 (cache_sum f (addedDeltaCache state))) counter_list"
  using monitor_events_ok[OF monitor_ok_new, of evs] by (auto simp: monitor_ok_def map_ok_def monitor_new_def)

text \<open>The proportion a PodProtector contributes is zero without a minimum; otherwise it is
  its aggregated count over its minimum in parts per million, rounded to the nearest and capped
  at one million, so it lies between zero and one million for a count that is not negative.
  Nothing overflows.\<close>

theorem makeStatusCount_proportion:
  assumes "is_int32 a" "is_int32 m"
  shows "\<exists>c. makeStatusCount a m = Some c \<and> AggregatedReplicas c = a \<and> MeetsMinAvailable c = (if a \<ge> m then 1 else 0)
    \<and> SumProportionPpm c = (if m \<le> 0 then 0 else min 1000000 ((2 * (a * 1000000) + m) div (2 * m)))
    \<and> (0 \<le> a \<longrightarrow> 0 \<le> SumProportionPpm c \<and> SumProportionPpm c \<le> 1000000)"
proof (cases "m \<le> 0")
  case False
  have fits: "i64 (a * ProportionPpmUnits) = a * 1000000"
    using assms(1) by (simp add: i64_id is_int64_def is_int32_def ProportionPpmUnits_def)
  have "\<bar>a * 1000000\<bar> \<le> 2 ^ 61" "0 < m" "m \<le> 2 ^ 61" using assms False by (auto simp: is_int32_def abs_le_iff)
  from RoundedIntDiv_nearest[OF this] False fits show ?thesis
    by (simp add: makeStatusCount_def ProportionPpmUnits_def pos_imp_zdiv_nonneg_iff)
qed (simp add: makeStatusCount_def)

theorem makeStatusCount_proportion_witness:
  "makeStatusCount 2 3 = Some \<lparr>MeetsMinAvailable = 0, AggregatedReplicas = 2, SumProportionPpm = 666667\<rparr>"
proof -
  have "is_int32 2" "is_int32 3" by (simp_all add: is_int32_def)
  then obtain c where "makeStatusCount 2 3 = Some c" "AggregatedReplicas c = 2" "MeetsMinAvailable c = 0"
    "SumProportionPpm c = 666667" using makeStatusCount_proportion[of 2 3] by auto
  then show ?thesis by (cases c) simp
qed

end
