(* ===== verification/Generator.thy ===== *)
theory Generator
  imports UtilHelpers Errors Iter Apis
begin

text \<open>
  The generator: \<open>generator/resource/interface.go\<close> and
  \<open>generator/resource/deployment/deployment.go\<close> (which PodProtector a Deployment needs) and
  \<open>generator/generator/controller.go\<close> (creating, updating and deleting PodProtectors, and the
  finalizers on both objects).

  Every request to the API server is recorded, in order, in a list of calls; what the server
  answers is a function of the calls before and of the object sent. The resolution of a number
  or percentage (\<open>intstr.GetValueFromIntOrPercent\<close>) and the informer caches are arguments.
  \<open>None\<close> is a panic.
\<close>

section \<open>Deployments\<close>

datatype IntOrString = IntVal int32 | StrVal string

record Deployment =
  DepMeta :: ObjectMeta
  Replicas :: "int32 option"
  RollingMaxUnavailable :: "IntOrString option"
  DepMinReadySeconds :: int32
  DepSelector :: "LabelSelector option"

record DeploymentOptions =
  opt_labelSelector :: "(string, string) gomap \<Rightarrow> bool"
  avoidNonZeroDeletion :: bool

type_synonym resolver = "IntOrString \<Rightarrow> int \<Rightarrow> bool \<Rightarrow> go_error + int"

text \<open>The only kind of requirement. It refers to the source object, so that its methods read
  the current state of that object.\<close>

datatype RequiredProtector = defaultReqmt

definition SourceObjectNameLabel :: string where "SourceObjectNameLabel = ''podseidon.kubewharf.io/source-name''"
definition SourceObjectGroupLabel :: string where "SourceObjectGroupLabel = ''podseidon.kubewharf.io/source-group''"
definition SourceObjectKindLabel :: string where "SourceObjectKindLabel = ''podseidon.kubewharf.io/source-kind''"
definition SourceObjectResourceLabel :: string where "SourceObjectResourceLabel = ''podseidon.kubewharf.io/source-resource''"

definition DeploymentGroup :: string where "DeploymentGroup = ''apps''"
definition DeploymentGroupVersion :: string where "DeploymentGroupVersion = ''apps/v1''"
definition DeploymentKind :: string where "DeploymentKind = ''Deployment''"
definition DeploymentResource :: string where "DeploymentResource = ''deployments''"

definition deref :: "'a option \<Rightarrow> 'a \<Rightarrow> 'a" where
  "deref p d = (case p of Some x \<Rightarrow> x | None \<Rightarrow> d)"

text \<open>The requirements and the decisions that are reported.\<close>

definition GetRequiredProtectors :: "DeploymentOptions \<Rightarrow> Deployment \<Rightarrow> RequiredProtector list \<times> string list" where
  "GetRequiredProtectors options dep =
     (let terminating = \<not> ts_IsZero (DeletionTimestamp (DepMeta dep));
          avoidNonZero = (avoidNonZeroDeletion options \<and> deref (Replicas dep) 1 > 0);
          decisions = (if terminating then [''TerminatingButNonZero''] else [])
      in if terminating \<and> \<not> avoidNonZero then ([], [''Terminating''])
         else if \<not> opt_labelSelector options (Labels (DepMeta dep)) then ([], decisions @ [''LabelSelectorMismatch''])
         else ([defaultReqmt], decisions @ [''Normal'']))"

definition reqmt_Name :: "Deployment \<Rightarrow> RequiredProtector \<Rightarrow> string" where
  "reqmt_Name dep reqmt = ''deployment-'' @ Name (DepMeta dep)"

definition reqmt_Spec :: "resolver \<Rightarrow> Deployment \<Rightarrow> RequiredProtector \<Rightarrow> (go_error + PodProtectorSpec) option" where
  "reqmt_Spec resolve dep reqmt =
     (let totalReplicas = deref (Replicas dep) 1;
          maxUnavailableIs = (case RollingMaxUnavailable dep of Some v \<Rightarrow> v | None \<Rightarrow> StrVal ''25%'')
      in case resolve maxUnavailableIs totalReplicas True of
           Inl err \<Rightarrow> Some (Inl (TagWrapf ''ParseMaxUnavailable'' err ''parse max unavailable from deployment''))
         | Inr maxUnavailableInt \<Rightarrow>
             if maxUnavailableInt > MaxInt32 then
               Some (Inl (TagErrorf ''TooManyReplicas'' ''maxUnavailable overflows after resolution: %!w(<nil>)''))
             else
               let requiredReplicas = i32 (totalReplicas - i32 maxUnavailableInt)
               in case DepSelector dep of
                    None \<Rightarrow> None
                  | Some selector \<Rightarrow>
                      Some (Inr \<lparr>MinAvailable = max requiredReplicas 0, MinReadySeconds = DepMinReadySeconds dep,
                        Selector = selector, AggregationSelector = None, HistoryConfig = zero_history_config\<rparr>))"

definition GeneratePodProtector :: "resolver \<Rightarrow> Deployment \<Rightarrow> RequiredProtector \<Rightarrow> (go_error + PodProtector) option" where
  "GeneratePodProtector resolve sourceObject rqmt =
     (case reqmt_Spec resolve sourceObject rqmt of
        None \<Rightarrow> None
      | Some (Inl err) \<Rightarrow> Some (Inl (TagWrapf ''ReplicaSpec'' err ''inferring replica spec from source object''))
      | Some (Inr spec) \<Rightarrow> Some (Inr
          \<lparr>PprMeta = \<lparr>Name = reqmt_Name sourceObject rqmt, Namespace = Namespace (DepMeta sourceObject),
             UID = [], ResourceVersion = [], CreationTimestamp = 0, DeletionTimestamp = None,
             Labels = [(SourceObjectNameLabel, Name (DepMeta sourceObject)), (SourceObjectKindLabel, DeploymentKind),
                       (SourceObjectResourceLabel, DeploymentResource), (SourceObjectGroupLabel, DeploymentGroup)],
             Annotations = [], Finalizers = [GeneratorFinalizer],
             OwnerReferences = [\<lparr>OwnerAPIVersion = DeploymentGroupVersion, OwnerKind = DeploymentKind,
               OwnerName = Name (DepMeta sourceObject), OwnerUID = UID (DepMeta sourceObject),
               OwnerController = Some True\<rparr>]\<rparr>,
           Spec = spec, Status = \<lparr>Cells = [], Summary = zero_summary\<rparr>\<rparr>))"

text \<open>The index under which the PodProtectors of a source are found.\<close>

definition label_or_empty :: "(string, string) gomap \<Rightarrow> string \<Rightarrow> string" where
  "label_or_empty m k = (case map_of m k of Some v \<Rightarrow> v | None \<Rightarrow> [])"

definition index_key :: "string \<Rightarrow> string \<Rightarrow> string \<Rightarrow> string \<Rightarrow> string" where
  "index_key grp kind namespace name = grp @ ''/'' @ kind @ ''/'' @ namespace @ ''/'' @ name"

definition GroupKindNamespaceNameIndexFunc :: "ObjectMeta \<Rightarrow> string list" where
  "GroupKindNamespaceNameIndexFunc m =
     [index_key (label_or_empty (Labels m) SourceObjectGroupLabel) (label_or_empty (Labels m) SourceObjectKindLabel)
        (Namespace m) (label_or_empty (Labels m) SourceObjectNameLabel)]"

section \<open>The API server\<close>

datatype gen_call =
    CreatePpr PodProtector
  | UpdatePpr PodProtector
  | UpdateStatusPpr PodProtector
  | DeletePpr string string
  | UpdateSource Deployment

record GenApi =
  api_Create :: "gen_call list \<Rightarrow> PodProtector \<Rightarrow> go_error option"
  api_Update :: "gen_call list \<Rightarrow> PodProtector \<Rightarrow> go_error + PodProtector"
  api_UpdateStatus :: "gen_call list \<Rightarrow> PodProtector \<Rightarrow> go_error + PodProtector"
  api_Delete :: "gen_call list \<Rightarrow> string \<Rightarrow> string \<Rightarrow> go_error option"
  api_UpdateSource :: "gen_call list \<Rightarrow> Deployment \<Rightarrow> go_error + Deployment"

text \<open>The calls made, the source object, which is mutable, and the flag
  \<open>sourceFinalizerNeedsRemoval\<close>.\<close>

record GenState =
  gen_calls :: "gen_call list"
  gen_source :: "Deployment option"
  needsRemoval :: bool

definition record_call :: "gen_call \<Rightarrow> GenState \<Rightarrow> GenState" where
  "record_call c st = st\<lparr>gen_calls := gen_calls st @ [c]\<rparr>"

definition set_finalizers :: "string list \<Rightarrow> Deployment \<Rightarrow> Deployment" where
  "set_finalizers fs dep = dep\<lparr>DepMeta := (DepMeta dep)\<lparr>Finalizers := fs\<rparr>\<rparr>"

definition source_Update :: "GenApi \<Rightarrow> Deployment \<Rightarrow> GenState \<Rightarrow> go_error option \<times> GenState" where
  "source_Update api dep st =
     (let st1 = record_call (UpdateSource dep) st
      in case api_UpdateSource api (gen_calls st) dep of
           Inl err \<Rightarrow> (Some (TagWrapf ''UpdateObject'' err ''apiserver error for update request''),
             st1\<lparr>gen_source := Some dep\<rparr>)
         | Inr newObj \<Rightarrow> (None, st1\<lparr>gen_source := Some newObj\<rparr>))"

section \<open>Reconciling one PodProtector\<close>

definition ErrNoFinalizerInTerminatingSource :: go_error where
  "ErrNoFinalizerInTerminatingSource =
     TagErrorf ''NoFinalizerInTerminatingSource'' ''source object is terminating but had no finalizer''"

definition ensureSourceFinalizer :: "GenApi \<Rightarrow> GenState \<Rightarrow> (go_error option \<times> GenState) option" where
  "ensureSourceFinalizer api st0 =
     (let st = st0\<lparr>needsRemoval := False\<rparr>
      in case gen_source st of
           None \<Rightarrow> None
         | Some dep \<Rightarrow>
             if FindInSlice (Finalizers (DepMeta dep)) GeneratorFinalizer \<noteq> -1 then Some (None, st)
             else if \<not> ts_IsZero (DeletionTimestamp (DepMeta dep)) then
               Some (Some ErrNoFinalizerInTerminatingSource, st)
             else
               (case source_Update api (set_finalizers (Finalizers (DepMeta dep) @ [GeneratorFinalizer]) dep) st of
                  (Some err, st') \<Rightarrow> Some (Some (TagWrapf ''UpdateSourceFinalizer'' err
                    ''update source object with the generator finalizer''), st')
                | (None, st') \<Rightarrow> Some (None, st')))"

definition createProtector :: "GenApi \<Rightarrow> resolver \<Rightarrow> RequiredProtector \<Rightarrow> GenState \<Rightarrow> (go_error option \<times> GenState) option" where
  "createProtector api resolve pprReqmt st = do {
     (ensured, st1) \<leftarrow> ensureSourceFinalizer api st;
     case ensured of
       Some err \<Rightarrow>
         if errors_Is err ErrNoFinalizerInTerminatingSource then Some (None, st1)
         else Some (Some (TagWrapf ''EnsureSourceFinalizer'' err ''ensure finalizer in source object''), st1)
     | None \<Rightarrow> do {
         sourceObject \<leftarrow> gen_source st1;
         generated \<leftarrow> GeneratePodProtector resolve sourceObject pprReqmt;
         case generated of
           Inl err \<Rightarrow> Some (Some (TagWrapf ''GeneratePpr'' err ''generating PodProtector from source object''), st1)
         | Inr ppr \<Rightarrow>
             Some (map_option (\<lambda>err. TagWrapf ''CreateNewPpr'' err ''create new PodProtector object'')
                     (api_Create api (gen_calls st1) ppr),
                   record_call (CreatePpr ppr) st1)
       }
   }"

definition tryRemoveCells :: "GenApi \<Rightarrow> PodProtector \<Rightarrow> GenState \<Rightarrow> (go_error + PodProtector \<times> bool) \<times> GenState" where
  "tryRemoveCells api current st =
     (case map_of (Annotations (PprMeta current)) PprAnnotationRemoveCellOnce of
        None \<Rightarrow> (Inr (current, False), st)
      | Some removals \<Rightarrow>
          (let removalSet = strings_Split removals (CHR '','');
               newCellList = iter_CollectSlice (iter_Filter (iter_FromSlice (Cells (Status current)))
                 (\<lambda>cellStatus. CellId cellStatus \<notin> set removalSet));
               drop_annotation = (\<lambda>p. p\<lparr>PprMeta := (PprMeta p)\<lparr>Annotations :=
                 map_del PprAnnotationRemoveCellOnce (Annotations (PprMeta p))\<rparr>\<rparr>)
           in if length (Cells (Status current)) \<noteq> length newCellList then
                let upd = current\<lparr>Status := (Status current)\<lparr>Cells := newCellList\<rparr>\<rparr>
                in case api_UpdateStatus api (gen_calls st) upd of
                     Inl err \<Rightarrow> (Inl (TagWrapf ''UpdateStatus'' err ''performing UpdateStatus call''),
                       record_call (UpdateStatusPpr upd) st)
                   | Inr nxt \<Rightarrow> (Inr (drop_annotation nxt, True), record_call (UpdateStatusPpr upd) st)
              else (Inr (drop_annotation current, True), st)))"

text \<open>\<open>reflect.DeepEqual\<close> of two specifications: Go maps are compared as maps.\<close>

definition map_DeepEqual :: "(string, string) gomap \<Rightarrow> (string, string) gomap \<Rightarrow> bool" where
  "map_DeepEqual m1 m2 \<longleftrightarrow> length m1 = length m2 \<and> list_all (\<lambda>(k, v). map_of m2 k = Some v) m1"

definition selector_DeepEqual :: "LabelSelector \<Rightarrow> LabelSelector \<Rightarrow> bool" where
  "selector_DeepEqual a b \<longleftrightarrow> map_DeepEqual (MatchLabels a) (MatchLabels b) \<and> MatchExpressions a = MatchExpressions b"

definition spec_DeepEqual :: "PodProtectorSpec \<Rightarrow> PodProtectorSpec \<Rightarrow> bool" where
  "spec_DeepEqual a b \<longleftrightarrow> MinAvailable a = MinAvailable b \<and> MinReadySeconds a = MinReadySeconds b
     \<and> selector_DeepEqual (Selector a) (Selector b)
     \<and> (case (AggregationSelector a, AggregationSelector b) of
          (None, None) \<Rightarrow> True | (Some x, Some y) \<Rightarrow> selector_DeepEqual x y | _ \<Rightarrow> False)
     \<and> HistoryConfig a = HistoryConfig b"

definition syncProtector :: "GenApi \<Rightarrow> resolver \<Rightarrow> PodProtector \<Rightarrow> RequiredProtector \<Rightarrow> GenState \<Rightarrow>
    (go_error option \<times> GenState) option" where
  "syncProtector api resolve current0 pprReqmt st = do {
     (ensured, st1) \<leftarrow> ensureSourceFinalizer api st;
     case ensured of
       Some err \<Rightarrow> Some (Some (TagWrapf ''EnsureSourceFinalizer'' err ''ensure finalizer in source object''), st1)
     | None \<Rightarrow>
         (case tryRemoveCells api current0 st1 of
            (Inl err, st2) \<Rightarrow>
              Some (Some (TagWrapf ''RemoveCells'' err ''removing obsolete cells from PodProtector status''), st2)
          | (Inr (current, hasChange), st2) \<Rightarrow> do {
              sourceObject \<leftarrow> gen_source st2;
              generated \<leftarrow> GeneratePodProtector resolve sourceObject pprReqmt;
              case generated of
                Inl err \<Rightarrow> Some (Some (TagWrapf ''GeneratePpr'' err ''generating PodProtector from source object''), st2)
              | Inr expected \<Rightarrow>
                  if hasChange \<or> \<not> spec_DeepEqual (Spec current) (Spec expected) then
                    let nxt = current\<lparr>Spec := Spec expected\<rparr>
                    in Some (case api_Update api (gen_calls st2) nxt of
                               Inl err \<Rightarrow> Some (TagWrapf ''UpdatePprSpec'' err ''update PodProtector object spec'')
                             | Inr _ \<Rightarrow> None,
                             record_call (UpdatePpr nxt) st2)
                  else Some (None, st2)
            })
   }"

text \<open>The deferred function clears the flag on every return but the last.\<close>

definition keep_finalizer :: "GenState \<Rightarrow> GenState" where
  "keep_finalizer st = st\<lparr>needsRemoval := False\<rparr>"

definition delete_ppr :: "GenApi \<Rightarrow> PodProtector \<Rightarrow> GenState \<Rightarrow> go_error option \<times> GenState" where
  "delete_ppr api currentPpr st =
     (if ts_IsZero (DeletionTimestamp (PprMeta currentPpr)) then
        (let ns = Namespace (PprMeta currentPpr); name = Name (PprMeta currentPpr)
         in case api_Delete api (gen_calls st) ns name of
              Some err \<Rightarrow> (Some (TagWrapf ''DeletePprObject'' err ''delete ppr object''),
                keep_finalizer (record_call (DeletePpr ns name) st))
            | None \<Rightarrow> (None, record_call (DeletePpr ns name) st))
      else (None, st))"

definition deleteProtector :: "GenApi \<Rightarrow> PodProtector \<Rightarrow> GenState \<Rightarrow> (go_error option \<times> GenState) option" where
  "deleteProtector api currentPpr st =
     (let toDelete = FindInSlice (Finalizers (PprMeta currentPpr)) GeneratorFinalizer
      in if toDelete \<noteq> -1 then do {
           finalizers \<leftarrow> SwapRemove (Finalizers (PprMeta currentPpr)) (nat toDelete);
           let nxt = currentPpr\<lparr>PprMeta := (PprMeta currentPpr)\<lparr>Finalizers := finalizers\<rparr>\<rparr>;
           let st1 = record_call (UpdatePpr nxt) st;
           Some (case api_Update api (gen_calls st) nxt of
                   Inl err \<Rightarrow> (Some (TagWrapf ''RemovePprFinalizer'' err
                     ''remove generator finalizer from PodProtector object''), keep_finalizer st1)
                 | Inr newPpr \<Rightarrow> delete_ppr api newPpr st1)
         }
         else Some (delete_ppr api currentPpr st))"

definition gen_tryReconcile :: "GenApi \<Rightarrow> resolver \<Rightarrow> RequiredProtector option \<Rightarrow> PodProtector option \<Rightarrow> GenState \<Rightarrow>
    ((string \<times> go_error option) \<times> GenState) option" where
  "gen_tryReconcile api resolve reqmt currentPpr st =
     (case (currentPpr, gen_source st, reqmt) of
        (None, None, _) \<Rightarrow> Some ((''NeitherObjectExists'', None), st)
      | (None, Some _, Some r) \<Rightarrow>
          map_option (\<lambda>(err, st'). ((''CreatingProtector'', err), st')) (createProtector api resolve r st)
      | (None, Some _, None) \<Rightarrow> Some ((''NoPprNeeded'', None), st)
      | (Some ppr, None, _) \<Rightarrow> Some ((''DanglingProtector'', None), st)
      | (Some ppr, Some _, Some r) \<Rightarrow>
          map_option (\<lambda>(err, st'). ((''SyncProtector'', err), st')) (syncProtector api resolve ppr r st)
      | (Some ppr, Some _, None) \<Rightarrow>
          map_option (\<lambda>(err, st'). ((''DeleteProtector'', err), st')) (deleteProtector api ppr st))"

section \<open>Reconciling one source object\<close>

definition removeSourceFinalizer :: "GenApi \<Rightarrow> GenState \<Rightarrow> (go_error option \<times> GenState) option" where
  "removeSourceFinalizer api st =
     (case gen_source st of
        None \<Rightarrow> None
      | Some sourceObject \<Rightarrow>
          (let toDelete = FindInSlice (Finalizers (DepMeta sourceObject)) GeneratorFinalizer
           in if toDelete = -1 then Some (None, st)
              else do {
                finalizers \<leftarrow> SwapRemove (Finalizers (DepMeta sourceObject)) (nat toDelete);
                Some (case source_Update api (set_finalizers finalizers sourceObject) st of
                        (Some err, st') \<Rightarrow> (Some (TagWrapf ''RemoveSourceFinalizer'' err
                          ''remove generator finalizer from source object''), st')
                      | (None, st') \<Rightarrow> (None, st'))
              }))"

record TypeProvider =
  tp_options :: DeploymentOptions
  tp_Get :: "string \<times> string \<Rightarrow> go_error + Deployment option"

definition GetObject :: "TypeProvider \<Rightarrow> string \<times> string \<Rightarrow> Deployment option" where
  "GetObject ty nsName = (case tp_Get ty nsName of Inr obj \<Rightarrow> obj | Inl _ \<Rightarrow> None)"

record QueueKey =
  NsName :: "string \<times> string"
  TypeDefIndex :: nat

definition required_map :: "DeploymentOptions \<Rightarrow> Deployment option \<Rightarrow> (string, RequiredProtector) gomap" where
  "required_map options sourceObject =
     (case sourceObject of
        None \<Rightarrow> []
      | Some dep \<Rightarrow> SliceToMap (fst (GetRequiredProtectors options dep)) (reqmt_Name dep))"

definition relevant_map :: "PodProtector list \<Rightarrow> (string, PodProtector) gomap" where
  "relevant_map relevantObjectsAny =
     iter_CollectMap (iter_Map (iter_FromSlice relevantObjectsAny) (\<lambda>ppr. (Name (PprMeta ppr), ppr)))"

text \<open>The function passed to \<open>TryForEach\<close>. A panic ends the iteration as an error does.\<close>

definition reconcile_pair :: "GenApi \<Rightarrow> resolver \<Rightarrow> string \<times> RequiredProtector option \<times> PodProtector option \<Rightarrow>
    GenState option \<Rightarrow> go_error option \<times> GenState option" where
  "reconcile_pair api resolve pair st =
     (case st of
        None \<Rightarrow> (Some (ErrorString ''panic''), None)
      | Some s \<Rightarrow>
          (case gen_tryReconcile api resolve (fst (snd pair)) (snd (snd pair)) s of
             None \<Rightarrow> (Some (ErrorString ''panic''), None)
           | Some ((action, err), s') \<Rightarrow> (err, Some s')))"

definition ReconcileItem :: "GenApi \<Rightarrow> resolver \<Rightarrow> TypeProvider list \<Rightarrow> (string \<Rightarrow> go_error + PodProtector list) \<Rightarrow>
    QueueKey \<Rightarrow> gen_call list \<Rightarrow> (go_error option \<times> GenState) option" where
  "ReconcileItem api resolve typeProviders byIndex key calls =
     (if TypeDefIndex key \<ge> length typeProviders then None
      else let ty = typeProviders ! TypeDefIndex key;
               sourceObject = GetObject ty (NsName key);
               reqmts = required_map (tp_options ty) sourceObject;
               st0 = \<lparr>gen_calls = calls, gen_source = sourceObject, needsRemoval = True\<rparr>
      in case byIndex (index_key DeploymentGroup DeploymentKind (fst (NsName key)) (snd (NsName key))) of
           Inl err \<Rightarrow> Some (Some (TagWrapf ''ListPprFromIndexer'' err
             ''find relevant PodProtector objects from indexer''), st0)
         | Inr relevantObjectsAny \<Rightarrow>
             (case iter_TryForEach (iter_FromMap2 reqmts (relevant_map relevantObjectsAny))
                     (reconcile_pair api resolve) (Some st0) of
                (_, None) \<Rightarrow> None
              | (Some err, Some st) \<Rightarrow> Some (Some err, st)
              | (None, Some st) \<Rightarrow>
                  if needsRemoval st \<and> sourceObject \<noteq> None then removeSourceFinalizer api st else Some (None, st)))"

end
