(* ===== verification/GeneratorCorrect.thy ===== *)
theory GeneratorCorrect
  imports Generator
begin

text \<open>
  Correctness of the generator: the order of its requests (a PodProtector is created only under
  a source that carries the finalizer, and the finalizer of the source goes last), the
  specification it derives from a Deployment, and that it settles.
\<close>

section \<open>What one reconciliation adds to the calls\<close>

definition has_finalizer :: "Deployment \<Rightarrow> bool" where
  "has_finalizer dep \<longleftrightarrow> GeneratorFinalizer \<in> set (Finalizers (DepMeta dep))"

definition terminating :: "PodProtector \<Rightarrow> bool" where
  "terminating ppr \<longleftrightarrow> \<not> ts_IsZero (DeletionTimestamp (PprMeta ppr))"

text \<open>A call that does not take the finalizer off the source.\<close>

definition keeps_source :: "gen_call \<Rightarrow> bool" where
  "keeps_source c = (case c of UpdateSource dep \<Rightarrow> has_finalizer dep | _ \<Rightarrow> True)"

lemma find_finalizer: "FindInSlice fs f = -1 \<longleftrightarrow> f \<notin> set fs"
  by (auto simp: FindInSlice_def)

text \<open>Every operation appends calls that keep the finalizer, and only ever clears the flag.\<close>

definition extends :: "GenState \<Rightarrow> GenState \<Rightarrow> bool" where
  "extends st st' \<longleftrightarrow> (\<exists>cs. gen_calls st' = gen_calls st @ cs \<and> list_all keeps_source cs)
     \<and> (needsRemoval st' \<longrightarrow> needsRemoval st) \<and> (gen_source st' = None \<longleftrightarrow> gen_source st = None)"

lemma extends_refl [simp]: "extends st st"
  by (simp add: extends_def)

lemma extends_trans: "extends a b \<Longrightarrow> extends b c \<Longrightarrow> extends a c"
  by (auto simp: extends_def)

lemma record_call_fields [simp]:
  "gen_calls (record_call c st) = gen_calls st @ [c]" "needsRemoval (record_call c st) = needsRemoval st"
  "gen_source (record_call c st) = gen_source st"
  by (simp_all add: record_call_def)

lemma extends_call [simp]:
  "keeps_source c \<Longrightarrow> extends st (record_call c st)"
  "keeps_source c \<Longrightarrow> extends st (keep_finalizer (record_call c st))"
  by (auto simp: extends_def keep_finalizer_def)

lemma source_Update_result:
  assumes "source_Update api dep st = (err, st')"
  shows "gen_calls st' = gen_calls st @ [UpdateSource dep]" "needsRemoval st' = needsRemoval st"
    and "gen_source st' = Some (case api_UpdateSource api (gen_calls st) dep of Inr new \<Rightarrow> new | Inl _ \<Rightarrow> dep)"
    and "err = None \<longleftrightarrow> (\<exists>new. api_UpdateSource api (gen_calls st) dep = Inr new)"
  using assms by (auto simp: source_Update_def record_call_def Let_def split: sum.splits)

lemma ensure_result:
  assumes "ensureSourceFinalizer api st = Some (err, st')"
  obtains dep where "gen_source st = Some dep" "\<not> needsRemoval st'"
    and "has_finalizer dep \<longrightarrow> err = None \<and> gen_calls st' = gen_calls st \<and> gen_source st' = Some dep"
    and "\<not> has_finalizer dep \<longrightarrow>
      (if ts_IsZero (DeletionTimestamp (DepMeta dep)) then
         (\<exists>dep1. has_finalizer dep1 \<and> gen_calls st' = gen_calls st @ [UpdateSource dep1] \<and> gen_source st' \<noteq> None
            \<and> (err = None \<longleftrightarrow> (\<exists>new. api_UpdateSource api (gen_calls st) dep1 = Inr new \<and> gen_source st' = Some new)))
       else err = Some ErrNoFinalizerInTerminatingSource \<and> gen_calls st' = gen_calls st \<and> gen_source st' = Some dep)"
proof -
  obtain dep where dep: "gen_source st = Some dep"
    using assms by (cases "gen_source st") (auto simp: ensureSourceFinalizer_def)
  let ?dep = "set_finalizers (Finalizers (DepMeta dep) @ [GeneratorFinalizer]) dep" and ?st = "st\<lparr>needsRemoval := False\<rparr>"
  have "has_finalizer ?dep" by (simp add: has_finalizer_def set_finalizers_def)
  obtain e s where upd: "source_Update api ?dep ?st = (e, s)" by fastforce
  note upd' = source_Update_result[OF upd]
  show thesis
  proof (rule that[OF dep])
    show "\<not> needsRemoval st'"
      using assms dep upd upd'(2)
      by (auto simp: ensureSourceFinalizer_def Let_def find_finalizer split: if_splits option.splits)
    show "has_finalizer dep \<longrightarrow> err = None \<and> gen_calls st' = gen_calls st \<and> gen_source st' = Some dep"
      using assms dep by (auto simp: ensureSourceFinalizer_def Let_def find_finalizer has_finalizer_def split: if_splits)
    show "\<not> has_finalizer dep \<longrightarrow>
      (if ts_IsZero (DeletionTimestamp (DepMeta dep)) then
         (\<exists>dep1. has_finalizer dep1 \<and> gen_calls st' = gen_calls st @ [UpdateSource dep1] \<and> gen_source st' \<noteq> None
            \<and> (err = None \<longleftrightarrow> (\<exists>new. api_UpdateSource api (gen_calls st) dep1 = Inr new \<and> gen_source st' = Some new)))
       else err = Some ErrNoFinalizerInTerminatingSource \<and> gen_calls st' = gen_calls st \<and> gen_source st' = Some dep)"
    proof
      assume no: "\<not> has_finalizer dep"
      show "if ts_IsZero (DeletionTimestamp (DepMeta dep)) then
         (\<exists>dep1. has_finalizer dep1 \<and> gen_calls st' = gen_calls st @ [UpdateSource dep1] \<and> gen_source st' \<noteq> None
            \<and> (err = None \<longleftrightarrow> (\<exists>new. api_UpdateSource api (gen_calls st) dep1 = Inr new \<and> gen_source st' = Some new)))
       else err = Some ErrNoFinalizerInTerminatingSource \<and> gen_calls st' = gen_calls st \<and> gen_source st' = Some dep"
      proof (cases "ts_IsZero (DeletionTimestamp (DepMeta dep))")
        case True
        then have res: "st' = s" "err = None \<longleftrightarrow> e = None"
          using assms dep no upd
          by (auto simp: ensureSourceFinalizer_def Let_def find_finalizer has_finalizer_def split: option.splits)
        have "err = None \<longleftrightarrow> (\<exists>new. api_UpdateSource api (gen_calls st) ?dep = Inr new \<and> gen_source st' = Some new)"
          using upd'(3,4) res by (auto split: sum.splits)
        then show ?thesis using True \<open>has_finalizer ?dep\<close> upd'(1,3) res by auto
      next
        case False
        then show ?thesis
          using assms dep no by (auto simp: ensureSourceFinalizer_def Let_def find_finalizer has_finalizer_def)
      qed
    qed
  qed
qed

lemma ensure_extends: "ensureSourceFinalizer api st = Some (err, st') \<Longrightarrow> extends st st' \<and> \<not> needsRemoval st'"
  by (erule ensure_result) (auto simp: extends_def keeps_source_def split: if_splits)

lemma create_cases:
  assumes "createProtector api resolve r st = Some (err, st')"
  obtains (not_ensured) e where "ensureSourceFinalizer api st = Some (Some e, st')"
      "err = None \<longleftrightarrow> errors_Is e ErrNoFinalizerInTerminatingSource"
  | (not_generated) st1 where "ensureSourceFinalizer api st = Some (None, st1)" "st' = st1" "err \<noteq> None"
  | (created) st1 src ppr where "ensureSourceFinalizer api st = Some (None, st1)" "gen_source st1 = Some src"
      "GeneratePodProtector resolve src r = Some (Inr ppr)" "st' = record_call (CreatePpr ppr) st1"
      "err = None \<longleftrightarrow> api_Create api (gen_calls st1) ppr = None"
proof -
  obtain e st1 where e: "ensureSourceFinalizer api st = Some (e, st1)"
    using assms by (auto simp: createProtector_def bind_eq_Some_conv)
  show thesis
  proof (cases e)
    case (Some x)
    then show thesis using assms e by (intro not_ensured[of x]) (auto simp: createProtector_def split: if_splits)
  next
    case None
    then obtain src gen where src: "gen_source st1 = Some src" "GeneratePodProtector resolve src r = Some gen"
      using assms e by (auto simp: createProtector_def bind_eq_Some_conv)
    show thesis
    proof (cases gen)
      case (Inl x)
      then show thesis using assms e None src by (intro not_generated[of st1]) (auto simp: createProtector_def)
    next
      case (Inr ppr)
      then show thesis using assms e None src by (intro created[of st1 src ppr]) (auto simp: createProtector_def)
    qed
  qed
qed

lemma create_extends:
  assumes "createProtector api resolve r st = Some (err, st')" shows "extends st st' \<and> \<not> needsRemoval st'"
  using assms
proof (cases rule: create_cases)
  case (created st1 src ppr)
  then show ?thesis using ensure_extends[OF created(1)] extends_trans extends_call(1)[of "CreatePpr ppr" st1]
    by (auto simp: keeps_source_def)
qed (use ensure_extends in auto)

lemma remove_cells_extends: "tryRemoveCells api p st = (res, st') \<Longrightarrow>
    extends st st' \<and> needsRemoval st' = needsRemoval st \<and> gen_source st' = gen_source st"
  by (auto simp: tryRemoveCells_def Let_def extends_def record_call_def keeps_source_def
      split: option.splits if_splits sum.splits)

lemma sync_cases:
  assumes "syncProtector api resolve p r st = Some (err, st')"
  obtains (not_ensured) e where "ensureSourceFinalizer api st = Some (Some e, st')" "err \<noteq> None"
  | (not_removed) st1 e where "ensureSourceFinalizer api st = Some (None, st1)" "tryRemoveCells api p st1 = (Inl e, st')" "err \<noteq> None"
  | (not_generated) st1 q ch where "ensureSourceFinalizer api st = Some (None, st1)" "tryRemoveCells api p st1 = (Inr (q, ch), st')"
      "err \<noteq> None"
  | (synced) st1 q ch st2 src expected where "ensureSourceFinalizer api st = Some (None, st1)"
      "tryRemoveCells api p st1 = (Inr (q, ch), st2)" "gen_source st2 = Some src"
      "GeneratePodProtector resolve src r = Some (Inr expected)"
      "st' = (if ch \<or> \<not> spec_DeepEqual (Spec q) (Spec expected)
              then record_call (UpdatePpr (q\<lparr>Spec := Spec expected\<rparr>)) st2 else st2)"
proof -
  obtain e st1 where e: "ensureSourceFinalizer api st = Some (e, st1)"
    using assms by (auto simp: syncProtector_def bind_eq_Some_conv)
  obtain res st2 where c: "tryRemoveCells api p st1 = (res, st2)" by fastforce
  show thesis
  proof (cases e)
    case (Some x)
    then show thesis using assms e by (intro not_ensured[of x]) (auto simp: syncProtector_def)
  next
    case None
    show thesis
    proof (cases res)
      case (Inl x)
      then show thesis using assms e None c by (intro not_removed[of st1 x]) (auto simp: syncProtector_def)
    next
      case (Inr qc)
      obtain q ch where qc: "qc = (q, ch)" by fastforce
      obtain src gen where src: "gen_source st2 = Some src" "GeneratePodProtector resolve src r = Some gen"
        using assms e None c Inr qc by (auto simp: syncProtector_def bind_eq_Some_conv)
      show thesis
      proof (cases gen)
        case (Inl x)
        then show thesis using assms e None c Inr qc src
          by (intro not_generated[of st1 q ch]) (auto simp: syncProtector_def)
      next
        case (Inr expected)
        then show thesis using assms e None c \<open>res = Inr qc\<close> qc src
          by (intro synced[of st1 q ch st2 src expected]) (auto simp: syncProtector_def Let_def split: if_splits)
      qed
    qed
  qed
qed

lemma sync_extends:
  assumes "syncProtector api resolve p r st = Some (err, st')" shows "extends st st' \<and> \<not> needsRemoval st'"
  using assms
proof (cases rule: sync_cases)
  case (synced st1 q ch st2 src expected)
  have "extends st2 st' \<and> needsRemoval st' = needsRemoval st2"
    by (auto simp: synced(5) keeps_source_def)
  then show ?thesis
    using ensure_extends[OF synced(1)] remove_cells_extends[OF synced(2)] extends_trans by blast
next
  case (not_ensured e)
  then show ?thesis using ensure_extends by blast
next
  case (not_removed st1 e)
  then show ?thesis using ensure_extends[OF not_removed(1)] remove_cells_extends[OF not_removed(2)] extends_trans by blast
next
  case (not_generated st1 q ch)
  then show ?thesis using ensure_extends[OF not_generated(1)] remove_cells_extends[OF not_generated(2)] extends_trans by blast
qed


section \<open>Deleting a PodProtector\<close>

text \<open>A call was accepted by the server after the calls before it, and all calls of a history were.\<close>

definition accepted :: "GenApi \<Rightarrow> gen_call list \<Rightarrow> gen_call \<Rightarrow> bool" where
  "accepted api h c = (case c of
     CreatePpr p \<Rightarrow> api_Create api h p = None
   | UpdatePpr p \<Rightarrow> (\<exists>q. api_Update api h p = Inr q)
   | UpdateStatusPpr p \<Rightarrow> (\<exists>q. api_UpdateStatus api h p = Inr q)
   | DeletePpr ns n \<Rightarrow> api_Delete api h ns n = None
   | UpdateSource dep \<Rightarrow> (\<exists>new. api_UpdateSource api h dep = Inr new))"

definition all_accepted :: "GenApi \<Rightarrow> gen_call list \<Rightarrow> bool" where
  "all_accepted api calls \<longleftrightarrow> (\<forall>h c rest. calls = h @ c # rest \<longrightarrow> accepted api h c)"

lemma all_accepted_snoc [simp]:
  "all_accepted api []" "all_accepted api (cs @ [c]) \<longleftrightarrow> all_accepted api cs \<and> accepted api cs c"
proof -
  show "all_accepted api (cs @ [c]) \<longleftrightarrow> all_accepted api cs \<and> accepted api cs c"
  proof (intro iffI conjI)
    assume all: "all_accepted api (cs @ [c])"
    then show "accepted api cs c" by (simp add: all_accepted_def)
    show "all_accepted api cs" using all by (auto simp: all_accepted_def)
  next
    assume all: "all_accepted api cs \<and> accepted api cs c"
    show "all_accepted api (cs @ [c])"
      unfolding all_accepted_def
    proof (intro allI impI)
      fix h d rest assume "cs @ [c] = h @ d # rest"
      then have "rest = [] \<and> h = cs \<and> d = c \<or> (\<exists>rest'. cs = h @ d # rest')"
        by (cases rest rule: rev_cases) auto
      then show "accepted api h d" using all by (auto simp: all_accepted_def)
    qed
  qed
qed (simp add: all_accepted_def)

text \<open>The PodProtector is terminating, or its deletion has been requested, or the server has answered an
  update of it with an object that is terminating.\<close>

definition deleted :: "GenApi \<Rightarrow> gen_call list \<Rightarrow> PodProtector \<Rightarrow> bool" where
  "deleted api calls ppr \<longleftrightarrow> terminating ppr
     \<or> DeletePpr (Namespace (PprMeta ppr)) (Name (PprMeta ppr)) \<in> set calls
     \<or> (\<exists>h u rest p. calls = h @ UpdatePpr u # rest \<and> api_Update api h u = Inr p \<and> terminating p
         \<and> Namespace (PprMeta u) = Namespace (PprMeta ppr) \<and> Name (PprMeta u) = Name (PprMeta ppr))"

text \<open>Its finalizer, if it had one, has been removed by an update that changes nothing else, and it is deleted.\<close>

definition gone :: "GenApi \<Rightarrow> gen_call list \<Rightarrow> PodProtector \<Rightarrow> bool" where
  "gone api calls ppr \<longleftrightarrow> deleted api calls ppr \<and>
     (GeneratorFinalizer \<in> set (Finalizers (PprMeta ppr)) \<longrightarrow>
        (\<exists>fs. mset fs = mset (Finalizers (PprMeta ppr)) - {#GeneratorFinalizer#}
           \<and> UpdatePpr (ppr\<lparr>PprMeta := (PprMeta ppr)\<lparr>Finalizers := fs\<rparr>\<rparr>) \<in> set calls))"

definition keeps_identity :: "GenApi \<Rightarrow> bool" where
  "keeps_identity api \<longleftrightarrow> (\<forall>h u p. api_Update api h u = Inr p \<longrightarrow>
     Namespace (PprMeta p) = Namespace (PprMeta u) \<and> Name (PprMeta p) = Name (PprMeta u))"

lemma deleted_mono: "deleted api calls ppr \<Longrightarrow> deleted api (calls @ cs) ppr"
  unfolding deleted_def by (elim disjE exE conjE) auto

lemma gone_mono: "gone api calls ppr \<Longrightarrow> gone api (calls @ cs) ppr"
  using deleted_mono by (auto simp: gone_def)

lemma delete_ppr_result:
  assumes "delete_ppr api ppr st = (err, st')"
  shows "extends st st'" "err = None \<Longrightarrow> deleted api (gen_calls st') ppr" "err \<noteq> None \<Longrightarrow> \<not> needsRemoval st'"
    and "err = None \<Longrightarrow> all_accepted api (gen_calls st) \<Longrightarrow> all_accepted api (gen_calls st')"
  using assms by (auto simp: delete_ppr_def Let_def deleted_def terminating_def keeps_source_def keep_finalizer_def extends_def
      accepted_def split: if_splits option.splits)

lemma delete_result:
  assumes "deleteProtector api ppr st = Some (err, st')" "keeps_identity api"
  shows "extends st st'" "err = None \<Longrightarrow> gone api (gen_calls st') ppr" "err \<noteq> None \<Longrightarrow> \<not> needsRemoval st'"
    and "err = None \<Longrightarrow> all_accepted api (gen_calls st) \<Longrightarrow> all_accepted api (gen_calls st')"
proof -
  have "extends st st' \<and> (err = None \<longrightarrow> gone api (gen_calls st') ppr) \<and> (err \<noteq> None \<longrightarrow> \<not> needsRemoval st')
      \<and> (err = None \<longrightarrow> all_accepted api (gen_calls st) \<longrightarrow> all_accepted api (gen_calls st'))"
  proof (cases "FindInSlice (Finalizers (PprMeta ppr)) GeneratorFinalizer = -1")
    case True
    then have "delete_ppr api ppr st = (err, st')" using assms(1) by (simp add: deleteProtector_def)
    from delete_ppr_result[OF this] True show ?thesis by (simp add: gone_def find_finalizer)
  next
    case False
    let ?i = "nat (FindInSlice (Finalizers (PprMeta ppr)) GeneratorFinalizer)"
    obtain fs where fs: "SwapRemove (Finalizers (PprMeta ppr)) ?i = Some fs"
      using False assms(1) by (auto simp: deleteProtector_def bind_eq_Some_conv Let_def)
    have found: "Finalizers (PprMeta ppr) ! ?i = GeneratorFinalizer"
      using False FindInSliceWith_nth[of "Finalizers (PprMeta ppr)" "(=) GeneratorFinalizer"] by (simp add: FindInSlice_def)
    let ?u = "ppr\<lparr>PprMeta := (PprMeta ppr)\<lparr>Finalizers := fs\<rparr>\<rparr>" and ?st = "record_call (UpdatePpr (ppr\<lparr>PprMeta := (PprMeta ppr)\<lparr>Finalizers := fs\<rparr>\<rparr>)) st"
    have st: "extends st ?st" by (simp add: keeps_source_def)
    show ?thesis
    proof (cases "api_Update api (gen_calls st) ?u")
      case (Inl e)
      then show ?thesis using assms(1) False fs by (auto simp: deleteProtector_def Let_def keeps_source_def keep_finalizer_def extends_def)
    next
      case (Inr p)
      then have d: "delete_ppr api p ?st = (err, st')" using assms(1) False fs by (simp add: deleteProtector_def Let_def)
      note d' = delete_ppr_result[OF d]
      have id: "Namespace (PprMeta p) = Namespace (PprMeta ppr)" "Name (PprMeta p) = Name (PprMeta ppr)"
        using assms(2) Inr by (auto simp: keeps_identity_def)
      obtain rest where calls: "gen_calls st' = gen_calls st @ UpdatePpr ?u # rest" using d'(1) by (auto simp: extends_def)
      have "deleted api (gen_calls st') ppr" if "err = None"
        using d'(2)[OF that] unfolding deleted_def id
      proof (elim disjE)
        assume "terminating p"
        then have "gen_calls st' = gen_calls st @ UpdatePpr ?u # rest \<and> api_Update api (gen_calls st) ?u = Inr p \<and> terminating p
            \<and> Namespace (PprMeta ?u) = Namespace (PprMeta ppr) \<and> Name (PprMeta ?u) = Name (PprMeta ppr)"
          using calls Inr by simp
        then show "terminating ppr \<or> DeletePpr (Namespace (PprMeta ppr)) (Name (PprMeta ppr)) \<in> set (gen_calls st')
           \<or> (\<exists>h u rest p. gen_calls st' = h @ UpdatePpr u # rest \<and> api_Update api h u = Inr p \<and> terminating p
             \<and> Namespace (PprMeta u) = Namespace (PprMeta ppr) \<and> Name (PprMeta u) = Name (PprMeta ppr))" by blast
      qed blast+
      moreover have "mset fs = mset (Finalizers (PprMeta ppr)) - {#GeneratorFinalizer#}"
        using SwapRemove_mset[OF fs] found by simp
      moreover have "UpdatePpr ?u \<in> set (gen_calls st')" using calls by simp
      ultimately have "gone api (gen_calls st') ppr" if "err = None" using that unfolding gone_def by blast
      moreover have "all_accepted api (gen_calls st')" if "err = None" "all_accepted api (gen_calls st)"
        using d'(4)[OF that(1)] that(2) Inr by (simp add: accepted_def)
      ultimately show ?thesis using d'(1,3) extends_trans[OF st] by blast
    qed
  qed
  then show "extends st st'" "err = None \<Longrightarrow> gone api (gen_calls st') ppr" "err \<noteq> None \<Longrightarrow> \<not> needsRemoval st'"
    "err = None \<Longrightarrow> all_accepted api (gen_calls st) \<Longrightarrow> all_accepted api (gen_calls st')" by blast+
qed

section \<open>The loop over the PodProtectors\<close>

lemma reconcile_pair_extends:
  assumes "reconcile_pair api resolve pair (Some st) = (err, Some st')" "keeps_identity api"
  shows "extends st st'"
    and "fst (snd pair) \<noteq> None \<Longrightarrow> gen_source st \<noteq> None \<Longrightarrow> \<not> needsRemoval st'"
    and "fst (snd pair) = None \<Longrightarrow> snd (snd pair) = Some ppr \<Longrightarrow> gen_source st \<noteq> None \<Longrightarrow> err = None \<Longrightarrow> gone api (gen_calls st') ppr"
proof -
  obtain k r p where pair: "pair = (k, r, p)" by (cases pair) auto
  obtain act where run: "gen_tryReconcile api resolve r p st = Some ((act, err), st')"
    using assms(1) by (auto simp: reconcile_pair_def pair split: option.splits prod.splits)
  show "extends st st'"
    using run create_extends sync_extends delete_result(1)[OF _ assms(2)]
    by (auto simp: gen_tryReconcile_def split: option.splits)
  show "\<not> needsRemoval st'" if "fst (snd pair) \<noteq> None" "gen_source st \<noteq> None"
    using run that create_extends sync_extends by (auto simp: gen_tryReconcile_def pair split: option.splits)
  show "gone api (gen_calls st') ppr" if "fst (snd pair) = None" "snd (snd pair) = Some ppr" "gen_source st \<noteq> None" "err = None"
    using run that delete_result(2)[OF _ assms(2)] by (auto simp: gen_tryReconcile_def pair split: option.splits)
qed

lemma reconcile_pair_panicked [simp]: "reconcile_pair api resolve pair None = (Some (ErrorString ''panic''), None)"
  by (simp add: reconcile_pair_def)

lemma reconcile_pairs:
  assumes "try_each (reconcile_pair api resolve) pairs (Some st) = (err, Some st')" "keeps_identity api"
  shows "extends st st'"
    and "pair \<in> set pairs \<Longrightarrow> fst (snd pair) \<noteq> None \<Longrightarrow> gen_source st \<noteq> None \<Longrightarrow> err = None \<Longrightarrow> \<not> needsRemoval st'"
    and "pair \<in> set pairs \<Longrightarrow> fst (snd pair) = None \<Longrightarrow> snd (snd pair) = Some ppr \<Longrightarrow> gen_source st \<noteq> None \<Longrightarrow> err = None \<Longrightarrow>
      gone api (gen_calls st') ppr"
proof -
  have "extends st st' \<and> (\<forall>pair \<in> set pairs. gen_source st \<noteq> None \<longrightarrow> err = None \<longrightarrow>
      (fst (snd pair) \<noteq> None \<longrightarrow> \<not> needsRemoval st')
      \<and> (\<forall>ppr. fst (snd pair) = None \<longrightarrow> snd (snd pair) = Some ppr \<longrightarrow> gone api (gen_calls st') ppr))"
    using assms(1)
  proof (induction pairs arbitrary: st)
    case (Cons p pairs)
    obtain e s1 where one: "reconcile_pair api resolve p (Some st) = (e, s1)" by fastforce
    then obtain st1 where s1: "s1 = Some st1"
      using Cons.prems by (cases s1; cases pairs; cases e) (auto simp: reconcile_pair_def split: option.splits prod.splits)
    note step = reconcile_pair_extends[OF one[unfolded s1] assms(2)]
    show ?case
    proof (cases e)
      case (Some x)
      then show ?thesis using Cons.prems one s1 step(1) by auto
    next
      case None
      then have rest: "try_each (reconcile_pair api resolve) pairs (Some st1) = (err, Some st')"
        using Cons.prems one s1 by simp
      note IH = Cons.IH[OF rest]
      have src: "gen_source st1 \<noteq> None" if "gen_source st \<noteq> None" using step(1) that by (simp add: extends_def)
      have keep: "\<not> needsRemoval st1 \<Longrightarrow> \<not> needsRemoval st'" using IH by (auto simp: extends_def)
      have calls: "gone api (gen_calls st1) ppr \<Longrightarrow> gone api (gen_calls st') ppr" for ppr
        using IH gone_mono by (auto simp: extends_def)
      show ?thesis using extends_trans[OF step(1)] IH step(2,3) None src keep calls by auto
    qed
  qed simp
  then show "extends st st'"
    and "pair \<in> set pairs \<Longrightarrow> fst (snd pair) \<noteq> None \<Longrightarrow> gen_source st \<noteq> None \<Longrightarrow> err = None \<Longrightarrow> \<not> needsRemoval st'"
    and "pair \<in> set pairs \<Longrightarrow> fst (snd pair) = None \<Longrightarrow> snd (snd pair) = Some ppr \<Longrightarrow> gen_source st \<noteq> None \<Longrightarrow> err = None \<Longrightarrow>
      gone api (gen_calls st') ppr"
    by blast+
qed


section \<open>The pairs of requirements and PodProtectors\<close>

lemma collect_distinct:
  "distinct (map fst (acc @ kvs)) \<Longrightarrow> foldl (\<lambda>m (k, v). map_put k v m) acc kvs = acc @ kvs"
proof (induction kvs arbitrary: acc)
  case (Cons p kvs)
  obtain k v where p: "p = (k, v)" by fastforce
  have "k \<notin> fst ` set acc" using Cons.prems by (auto simp: p)
  then show ?case using Cons.IH[of "acc @ [p]"] Cons.prems by (simp add: p map_put_new)
qed simp

lemma relevant_map_distinct:
  "distinct (map (\<lambda>p. Name (PprMeta p)) pprs) \<Longrightarrow> relevant_map pprs = map (\<lambda>p. (Name (PprMeta p), p)) pprs"
  using collect_distinct[of "[]" "map (\<lambda>p. (Name (PprMeta p), p)) pprs"]
  by (simp add: relevant_map_def iter_Map_list iter_CollectMap_list o_def)

lemma required_map_cases:
  "required_map options (Some dep) =
     (if fst (GetRequiredProtectors options dep) = [] then [] else [(reqmt_Name dep defaultReqmt, defaultReqmt)])"
  by (auto simp: required_map_def GetRequiredProtectors_def SliceToMap_def Let_def)

text \<open>What \<open>ReconcileItem\<close> amounts to when it returns.\<close>

lemma ReconcileItem_cases:
  assumes "ReconcileItem api resolve tys byIndex key calls = Some (err, st')"
  obtains (unlisted) e where "gen_calls st' = calls" "err \<noteq> None"
      "byIndex (index_key DeploymentGroup DeploymentKind (fst (NsName key)) (snd (NsName key))) = Inl e"
  | (listed) ty pprs e st where "TypeDefIndex key < length tys" "ty = tys ! TypeDefIndex key"
      "byIndex (index_key DeploymentGroup DeploymentKind (fst (NsName key)) (snd (NsName key))) = Inr pprs"
      "try_each (reconcile_pair api resolve) (map2_list (required_map (tp_options ty) (GetObject ty (NsName key))) (relevant_map pprs))
         (Some \<lparr>gen_calls = calls, gen_source = GetObject ty (NsName key), needsRemoval = True\<rparr>) = (e, Some st)"
      "if e = None \<and> needsRemoval st \<and> GetObject ty (NsName key) \<noteq> None then removeSourceFinalizer api st = Some (err, st')
       else err = e \<and> st' = st"
proof -
  define ty where "ty = tys ! TypeDefIndex key"
  have idx: "TypeDefIndex key < length tys" using assms by (simp add: ReconcileItem_def split: if_splits)
  let ?k = "index_key DeploymentGroup DeploymentKind (fst (NsName key)) (snd (NsName key))"
  show thesis
  proof (cases "byIndex ?k")
    case (Inl e)
    then show thesis using assms idx by (intro unlisted[of e]) (auto simp: ReconcileItem_def)
  next
    case (Inr pprs)
    obtain e s where run: "try_each (reconcile_pair api resolve) (map2_list (required_map (tp_options ty) (GetObject ty (NsName key))) (relevant_map pprs))
         (Some \<lparr>gen_calls = calls, gen_source = GetObject ty (NsName key), needsRemoval = True\<rparr>) = (e, s)" by fastforce
    have eq: "ReconcileItem api resolve tys byIndex key calls = (case (e, s) of
        (_, None) \<Rightarrow> None
      | (Some err, Some st) \<Rightarrow> Some (Some err, st)
      | (None, Some st) \<Rightarrow> if needsRemoval st \<and> GetObject ty (NsName key) \<noteq> None then removeSourceFinalizer api st else Some (None, st))"
      using idx Inr run unfolding ty_def by (simp add: ReconcileItem_def Let_def iter_FromMap2_list not_le)
    obtain st where s: "s = Some st" using assms eq by (cases s; cases e) auto
    show thesis
    proof (rule listed[OF idx ty_def Inr run[unfolded s]])
      show "if e = None \<and> needsRemoval st \<and> GetObject ty (NsName key) \<noteq> None then removeSourceFinalizer api st = Some (err, st')
       else err = e \<and> st' = st"
        using assms eq s by (auto split: option.splits if_splits)
    qed
  qed
qed

lemma removeSourceFinalizer_error:
  assumes "removeSourceFinalizer api st = Some (err, st')" "gen_calls st' = gen_calls st @ [UpdateSource dep]"
  shows "err = None \<longleftrightarrow> accepted api (gen_calls st) (UpdateSource dep)"
proof -
  obtain src fs where src: "gen_source st = Some src" and fs: "FindInSlice (Finalizers (DepMeta src)) GeneratorFinalizer \<noteq> -1"
    "SwapRemove (Finalizers (DepMeta src)) (nat (FindInSlice (Finalizers (DepMeta src)) GeneratorFinalizer)) = Some fs"
    using assms by (auto simp: removeSourceFinalizer_def Let_def bind_eq_Some_conv split: option.splits if_splits)
  obtain e s where upd: "source_Update api (set_finalizers fs src) st = (e, s)" by fastforce
  then have "st' = s" "err = None \<longleftrightarrow> e = None"
    using assms(1) src fs by (auto simp: removeSourceFinalizer_def Let_def split: option.splits)
  then show ?thesis using source_Update_result(1,4)[OF upd] assms(2) by (simp add: accepted_def)
qed

lemma removeSourceFinalizer_calls:
  assumes "removeSourceFinalizer api st = Some (err, st')"
  shows "gen_calls st' = gen_calls st \<or> (\<exists>dep. gen_calls st' = gen_calls st @ [UpdateSource dep])"
proof -
  obtain dep where dep: "gen_source st = Some dep" using assms by (auto simp: removeSourceFinalizer_def split: option.splits)
  show ?thesis
  proof (cases "FindInSlice (Finalizers (DepMeta dep)) GeneratorFinalizer = -1")
    case True
    then show ?thesis using assms dep by (simp add: removeSourceFinalizer_def)
  next
    case False
    then obtain fs where fs: "SwapRemove (Finalizers (DepMeta dep)) (nat (FindInSlice (Finalizers (DepMeta dep)) GeneratorFinalizer)) = Some fs"
      using assms dep by (auto simp: removeSourceFinalizer_def Let_def bind_eq_Some_conv)
    obtain e s where upd: "source_Update api (set_finalizers fs dep) st = (e, s)" by fastforce
    have "st' = s" using assms dep False fs upd by (auto simp: removeSourceFinalizer_def Let_def split: option.splits)
    then show ?thesis using source_Update_result(1)[OF upd] by blast
  qed
qed

section \<open>Creating a PodProtector\<close>

definition creates :: "gen_call \<Rightarrow> bool" where
  "creates c = (case c of CreatePpr _ \<Rightarrow> True | _ \<Rightarrow> False)"

lemma creates_simps [simp]: "creates (CreatePpr p)" "\<not> creates (UpdatePpr p)" "\<not> creates (UpdateStatusPpr p)"
  "\<not> creates (DeletePpr n m)" "\<not> creates (UpdateSource d)"
  by (simp_all add: creates_def)

definition adds_no_create :: "GenState \<Rightarrow> GenState \<Rightarrow> bool" where
  "adds_no_create st st' \<longleftrightarrow> (\<exists>cs. gen_calls st' = gen_calls st @ cs \<and> list_all (\<lambda>c. \<not> creates c) cs)"

lemma adds_no_create_trans: "adds_no_create a b \<Longrightarrow> adds_no_create b c \<Longrightarrow> adds_no_create a c"
  by (auto simp: adds_no_create_def)

lemma adds_no_create_same: "gen_calls st' = gen_calls st \<Longrightarrow> adds_no_create st st'"
  by (simp add: adds_no_create_def)

lemma adds_no_create_one: "gen_calls st' = gen_calls st @ [c] \<Longrightarrow> \<not> creates c \<Longrightarrow> adds_no_create st st'"
  by (simp add: adds_no_create_def)

lemma no_create_mem:
  assumes "adds_no_create st st'" "CreatePpr p \<in> set (gen_calls st')" shows "CreatePpr p \<in> set (gen_calls st)"
proof -
  obtain cs where cs: "gen_calls st' = gen_calls st @ cs" "list_all (\<lambda>c. \<not> creates c) cs"
    using assms(1) unfolding adds_no_create_def by blast
  have "CreatePpr p \<notin> set cs" using cs(2) creates_simps(1)[of p] unfolding list_all_iff by blast
  with cs(1) assms(2) show ?thesis by simp
qed

lemma ensure_no_create: "ensureSourceFinalizer api st = Some (e, st') \<Longrightarrow> adds_no_create st st'"
  by (erule ensure_result) (auto simp: adds_no_create_def split: if_splits)

lemma remove_cells_no_create: "tryRemoveCells api p st = (res, st') \<Longrightarrow> adds_no_create st st'"
  by (auto simp: tryRemoveCells_def Let_def adds_no_create_def split: option.splits if_splits sum.splits)

lemma sync_no_create:
  assumes "syncProtector api resolve p r st = Some (err, st')" shows "adds_no_create st st'"
  using assms
proof (cases rule: sync_cases)
  case (synced st1 q ch st2 src expected)
  have "adds_no_create st2 st'" by (auto simp: synced(5) adds_no_create_def)
  then show ?thesis
    using ensure_no_create[OF synced(1)] remove_cells_no_create[OF synced(2)] adds_no_create_trans by blast
qed (use ensure_no_create remove_cells_no_create adds_no_create_trans in blast)+

lemma delete_ppr_no_create: "delete_ppr api p st = (err, st') \<Longrightarrow> adds_no_create st st'"
  by (auto simp: delete_ppr_def Let_def adds_no_create_def keep_finalizer_def split: if_splits option.splits)

lemma delete_no_create:
  assumes "deleteProtector api p st = Some (err, st')" shows "adds_no_create st st'"
proof (cases "FindInSlice (Finalizers (PprMeta p)) GeneratorFinalizer = -1")
  case True
  then show ?thesis using assms delete_ppr_no_create[of api p st err st'] by (simp add: deleteProtector_def)
next
  case False
  then obtain fs where fs: "SwapRemove (Finalizers (PprMeta p)) (nat (FindInSlice (Finalizers (PprMeta p)) GeneratorFinalizer)) = Some fs"
    using assms by (auto simp: deleteProtector_def bind_eq_Some_conv Let_def)
  let ?u = "p\<lparr>PprMeta := (PprMeta p)\<lparr>Finalizers := fs\<rparr>\<rparr>"
  have st: "adds_no_create st (record_call (UpdatePpr ?u) st)" by (simp add: adds_no_create_def)
  show ?thesis
  proof (cases "api_Update api (gen_calls st) ?u")
    case (Inl e)
    then show ?thesis using assms False fs st by (auto simp: deleteProtector_def Let_def keep_finalizer_def adds_no_create_def)
  next
    case (Inr q)
    then have "delete_ppr api q (record_call (UpdatePpr ?u) st) = (err, st')" using assms False fs by (simp add: deleteProtector_def Let_def)
    from adds_no_create_trans[OF st delete_ppr_no_create[OF this]] show ?thesis .
  qed
qed

lemma unrequired_no_create:
  assumes "try_each (reconcile_pair api resolve) pairs (Some st) = (err, Some st')" "list_all (\<lambda>p. fst (snd p) = None) pairs"
  shows "adds_no_create st st'"
  using assms
proof (induction pairs arbitrary: st)
  case (Cons p pairs)
  obtain k q where p: "p = (k, None, q)" using Cons.prems(2) by (cases p) auto
  obtain e s1 where one: "reconcile_pair api resolve p (Some st) = (e, s1)" by fastforce
  then obtain st1 where s1: "s1 = Some st1"
    using Cons.prems(1) by (cases s1; cases pairs; cases e) (auto simp: reconcile_pair_def split: option.splits prod.splits)
  obtain act where run: "gen_tryReconcile api resolve None q st = Some ((act, e), st1)"
    using one by (auto simp: reconcile_pair_def p s1 split: option.splits prod.splits)
  have first: "adds_no_create st st1"
    using run delete_no_create by (auto simp: gen_tryReconcile_def adds_no_create_same split: option.splits)
  show ?case
  proof (cases e)
    case None
    then show ?thesis using Cons.IH[of st1] Cons.prems one s1 first adds_no_create_trans by simp
  qed (use Cons.prems one s1 first in auto)
qed (simp add: adds_no_create_def)

lemma unrequired_accepted:
  assumes "try_each (reconcile_pair api resolve) pairs (Some st) = (None, Some st')" "list_all (\<lambda>p. fst (snd p) = None) pairs"
    and "keeps_identity api" "all_accepted api (gen_calls st)"
  shows "all_accepted api (gen_calls st')"
  using assms(1,2,4)
proof (induction pairs arbitrary: st)
  case (Cons p pairs)
  obtain k q where p: "p = (k, None, q)" using Cons.prems(2) by (cases p) auto
  obtain e s1 where one: "reconcile_pair api resolve p (Some st) = (e, s1)" by fastforce
  then have e: "e = None" using Cons.prems(1) by (cases e) auto
  then obtain st1 where s1: "s1 = Some st1"
    using Cons.prems(1) one by (cases s1; cases pairs) (auto simp: reconcile_pair_def split: option.splits prod.splits)
  obtain act where run: "gen_tryReconcile api resolve None q st = Some ((act, None), st1)"
    using one by (auto simp: reconcile_pair_def p s1 e split: option.splits prod.splits)
  have "all_accepted api (gen_calls st1)"
    using run delete_result(4)[OF _ assms(3)] Cons.prems(3) by (auto simp: gen_tryReconcile_def split: option.splits)
  then show ?case using Cons.IH[of st1] Cons.prems one s1 e by simp
qed simp

section \<open>Properties\<close>

text \<open>C9: The finalizer of the source object is removed last. When a reconciliation sends an
  update of the source that lacks the finalizer, this is its last call, the source requires no
  PodProtector, and the server has accepted every call before it: from every PodProtector of the source that had
  the generator's finalizer this finalizer has been removed, and every one of them is terminating or its deletion
  has been requested. So an error of any earlier call keeps the finalizer, and the reconciliation reports an error exactly when
  this last update is refused. (The server answers an update with an object of the same name.)\<close>

theorem source_finalizer_removed_last:
  assumes run: "ReconcileItem api resolve tys byIndex key [] = Some (err, st')"
    and "UpdateSource dep \<in> set (gen_calls st')" "\<not> has_finalizer dep" "keeps_identity api"
    and "byIndex (index_key DeploymentGroup DeploymentKind (fst (NsName key)) (snd (NsName key))) = Inr pprs"
    and "distinct (map (\<lambda>p. Name (PprMeta p)) pprs)"
  shows "\<exists>src cs. GetObject (tys ! TypeDefIndex key) (NsName key) = Some src
    \<and> fst (GetRequiredProtectors (tp_options (tys ! TypeDefIndex key)) src) = []
    \<and> gen_calls st' = cs @ [UpdateSource dep] \<and> all_accepted api cs \<and> list_all (gone api cs) pprs
    \<and> (err = None \<longleftrightarrow> accepted api cs (UpdateSource dep))"
  using run
proof (cases rule: ReconcileItem_cases)
  case (unlisted e)
  then show ?thesis using assms(2) by simp
next
  case (listed ty pprs' e st)
  then have pprs: "pprs' = pprs" using assms(5) by simp
  note loop = reconcile_pairs[OF listed(4) assms(4)]
  have kept: "list_all keeps_source (gen_calls st)" using loop(1) by (auto simp: extends_def)
  have no: "UpdateSource dep \<notin> set (gen_calls st)"
    using kept assms(3) by (auto simp: list_all_iff keeps_source_def)
  then have cond: "e = None" "needsRemoval st" "GetObject ty (NsName key) \<noteq> None"
    and rem: "removeSourceFinalizer api st = Some (err, st')"
    using listed(5) assms(2) by (auto split: if_splits)
  obtain src where src: "GetObject ty (NsName key) = Some src" using cond(3) by blast
  have calls: "gen_calls st' = gen_calls st @ [UpdateSource dep]"
    using removeSourceFinalizer_calls[OF rem] assms(2) no by auto
  have req: "fst (GetRequiredProtectors (tp_options ty) src) = []"
  proof (rule ccontr)
    assume "fst (GetRequiredProtectors (tp_options ty) src) \<noteq> []"
    then have "(reqmt_Name src defaultReqmt, Some defaultReqmt, map_of (relevant_map pprs') (reqmt_Name src defaultReqmt))
        \<in> set (map2_list (required_map (tp_options ty) (GetObject ty (NsName key))) (relevant_map pprs'))"
      by (simp add: src required_map_cases map2_list_def)
    from loop(2)[OF this] cond src show False by simp
  qed
  have "gone api (gen_calls st) ppr" if "ppr \<in> set pprs" for ppr
  proof -
    have "(Name (PprMeta ppr), None, Some ppr) \<in> set (map2_list (required_map (tp_options ty) (GetObject ty (NsName key))) (relevant_map pprs'))"
      using that by (force simp: src required_map_cases req map2_list_def pprs relevant_map_distinct[OF assms(6)])
    from loop(3)[OF this] cond src show ?thesis by simp
  qed
  moreover have "list_all (\<lambda>p. fst (snd p) = None) (map2_list (required_map (tp_options ty) (GetObject ty (NsName key))) (relevant_map pprs'))"
    by (auto simp: src required_map_cases req map2_list_def list_all_iff case_prod_beta)
  then have "all_accepted api (gen_calls st)"
    using unrequired_accepted[OF listed(4)[unfolded cond(1)] _ assms(4)] by simp
  moreover have "err = None \<longleftrightarrow> accepted api (gen_calls st) (UpdateSource dep)"
    by (rule removeSourceFinalizer_error[OF rem calls])
  ultimately show ?thesis using src req calls listed(2) by (auto simp: list_all_iff)
qed


text \<open>C17: A PodProtector is only created under a source object that carries the finalizer: the
  creation is the first call when the source had it, and otherwise it follows one update that
  adds the finalizer and that the server has accepted, of a source that is not terminating. The
  object that is created carries the finalizer itself.\<close>

theorem protector_created_under_finalizer:
  assumes run: "ReconcileItem api resolve tys byIndex key [] = Some (err, st')" and "CreatePpr p \<in> set (gen_calls st')"
  shows "\<exists>src post. GetObject (tys ! TypeDefIndex key) (NsName key) = Some src
    \<and> (if has_finalizer src then gen_calls st' = CreatePpr p # post
       else ts_IsZero (DeletionTimestamp (DepMeta src)) \<and>
         (\<exists>dep new. has_finalizer dep \<and> api_UpdateSource api [] dep = Inr new \<and> gen_calls st' = UpdateSource dep # CreatePpr p # post))
    \<and> GeneratorFinalizer \<in> set (Finalizers (PprMeta p))"
  using run
proof (cases rule: ReconcileItem_cases)
  case (unlisted e)
  then show ?thesis using assms(2) by simp
next
  case (listed ty pprs e st)
  let ?st = "\<lparr>gen_calls = [], gen_source = GetObject ty (NsName key), needsRemoval = True\<rparr> :: GenState"
  have last: "adds_no_create st st'"
    using listed(5) removeSourceFinalizer_calls[of api st err st'] adds_no_create_one adds_no_create_same
    by (auto split: if_splits)
  then have p: "CreatePpr p \<in> set (gen_calls st)" using assms(2) no_create_mem by blast
  have some: "required_map (tp_options ty) (GetObject ty (NsName key)) \<noteq> []"
  proof
    assume "required_map (tp_options ty) (GetObject ty (NsName key)) = []"
    then have "adds_no_create ?st st" using unrequired_no_create[OF listed(4)] by (auto simp: map2_list_def list_all_iff case_prod_beta)
    from no_create_mem[OF this p] show False by simp
  qed
  then obtain src where src: "GetObject ty (NsName key) = Some src" by (auto simp: required_map_def split: option.splits)
  with some have req: "required_map (tp_options ty) (GetObject ty (NsName key)) = [(reqmt_Name src defaultReqmt, defaultReqmt)]"
    by (simp add: required_map_cases split: if_splits)
  obtain pairs q where pairs: "map2_list (required_map (tp_options ty) (GetObject ty (NsName key))) (relevant_map pprs) =
      (reqmt_Name src defaultReqmt, Some defaultReqmt, q) # pairs" "list_all (\<lambda>p. fst (snd p) = None) pairs"
    by (simp add: req map2_list_def list_all_iff case_prod_beta)
  obtain e1 s1 where one: "reconcile_pair api resolve (reqmt_Name src defaultReqmt, Some defaultReqmt, q) (Some ?st) = (e1, s1)" by fastforce
  then obtain st1 where s1: "s1 = Some st1"
    using listed(4) unfolding pairs(1)
    by (cases s1; cases pairs; cases e1) (auto simp: reconcile_pair_def split: option.splits prod.splits)
  have rest: "adds_no_create st1 st"
    using listed(4) unrequired_no_create[OF _ pairs(2)] unfolding pairs(1)
    by (auto simp: one s1 adds_no_create_def split: if_splits)
  then have p1: "CreatePpr p \<in> set (gen_calls st1)" using p no_create_mem by blast
  obtain act where act: "gen_tryReconcile api resolve (Some defaultReqmt) q ?st = Some ((act, e1), st1)"
    using one by (auto simp: reconcile_pair_def s1 split: option.splits prod.splits)
  have "q = None"
  proof (rule ccontr)
    assume "q \<noteq> None"
    then have "adds_no_create ?st st1" using act sync_no_create by (auto simp: gen_tryReconcile_def src)
    from no_create_mem[OF this p1] show False by simp
  qed
  then have "createProtector api resolve defaultReqmt ?st = Some (e1, st1)"
    using act by (auto simp: gen_tryReconcile_def src)
  then show ?thesis
  proof (cases rule: create_cases)
    case (created sta srca ppr)
    have "CreatePpr p \<notin> set (gen_calls sta)" using no_create_mem[OF ensure_no_create[OF created(1)], of p] by auto
    then have ppr: "ppr = p" using p1 by (simp add: created(4))
    have fin: "GeneratorFinalizer \<in> set (Finalizers (PprMeta p))"
      using created(3) by (auto simp: GeneratePodProtector_def ppr split: option.splits sum.splits)
    obtain post where post: "gen_calls st' = gen_calls sta @ CreatePpr p # post"
      using adds_no_create_trans[OF rest last] by (auto simp: adds_no_create_def created(4) ppr)
    show ?thesis
    proof (rule ensure_result[OF created(1)])
      fix dep
      assume dep: "gen_source ?st = Some dep"
        "has_finalizer dep \<longrightarrow> None = None \<and> gen_calls sta = gen_calls ?st \<and> gen_source sta = Some dep"
        "\<not> has_finalizer dep \<longrightarrow>
      (if ts_IsZero (DeletionTimestamp (DepMeta dep)) then
         (\<exists>dep1. has_finalizer dep1 \<and> gen_calls sta = gen_calls ?st @ [UpdateSource dep1] \<and> gen_source sta \<noteq> None
            \<and> (None = None \<longleftrightarrow> (\<exists>new. api_UpdateSource api (gen_calls ?st) dep1 = Inr new \<and> gen_source sta = Some new)))
       else None = Some ErrNoFinalizerInTerminatingSource \<and> gen_calls sta = gen_calls ?st \<and> gen_source sta = Some dep)"
      then have "dep = src" by (simp add: src)
      then show ?thesis using dep(2,3) post fin src listed(2) by (auto split: if_splits)
    qed
  next
    case (not_ensured x)
    then show ?thesis using p1 no_create_mem[OF ensure_no_create[OF not_ensured(1)], of p] by simp
  next
    case (not_generated sta)
    then show ?thesis using p1 no_create_mem[OF ensure_no_create[OF not_generated(1)], of p] by simp
  qed
qed


text \<open>C38: The PodProtector generated for a Deployment is found again: the informer index files it
  under the key that the reconciliation of this Deployment looks up, and, since a namespace has
  no slash, under the key of no other Deployment.\<close>

theorem generated_found_by_index:
  assumes "GeneratePodProtector resolve dep r = Some (Inr ppr)"
    and "CHR ''/'' \<notin> set (Namespace (DepMeta dep))" "CHR ''/'' \<notin> set ns"
  shows "index_key DeploymentGroup DeploymentKind ns name \<in> set (GroupKindNamespaceNameIndexFunc (PprMeta ppr)) \<longleftrightarrow>
    ns = Namespace (DepMeta dep) \<and> name = Name (DepMeta dep)"
proof -
  have split: "a @ CHR ''/'' # b = c @ CHR ''/'' # d \<longleftrightarrow> a = c \<and> b = d"
    if "CHR ''/'' \<notin> set a" "CHR ''/'' \<notin> set c" for a b c d :: string
    using that by (auto simp: append_eq_append_conv2 append_eq_Cons_conv Cons_eq_append_conv)
  have key: "GroupKindNamespaceNameIndexFunc (PprMeta ppr) =
      [index_key DeploymentGroup DeploymentKind (Namespace (DepMeta dep)) (Name (DepMeta dep))]"
    using assms(1) by (auto simp: GeneratePodProtector_def GroupKindNamespaceNameIndexFunc_def label_or_empty_def
        SourceObjectGroupLabel_def SourceObjectKindLabel_def SourceObjectNameLabel_def SourceObjectResourceLabel_def
        split: option.splits sum.splits)
  show ?thesis unfolding key using split[OF assms(3,2)] by (auto simp: index_key_def)
qed

text \<open>The minimum derived from a Deployment with a non-negative number of replicas and a
  resolved limit of unavailable pods is the number of replicas (one by default) less that limit,
  but not below zero; it never exceeds the replicas and nothing overflows. A limit beyond 32
  bits is an error.\<close>

theorem reqmt_Spec_minimum:
  assumes "resolve (case RollingMaxUnavailable dep of Some v \<Rightarrow> v | None \<Rightarrow> StrVal ''25%'') (deref (Replicas dep) 1) True = Inr n"
    and "0 \<le> deref (Replicas dep) 1" "is_int32 (deref (Replicas dep) 1)" "0 \<le> n" "DepSelector dep = Some sel"
  shows "if n > MaxInt32 then (\<exists>err. reqmt_Spec resolve dep r = Some (Inl err))
    else \<exists>spec. reqmt_Spec resolve dep r = Some (Inr spec) \<and> MinAvailable spec = max (deref (Replicas dep) 1 - n) 0
      \<and> 0 \<le> MinAvailable spec \<and> MinAvailable spec \<le> deref (Replicas dep) 1
      \<and> Selector spec = sel \<and> MinReadySeconds spec = DepMinReadySeconds dep"
proof (cases "n > MaxInt32")
  case False
  then have "i32 n = n" "i32 (deref (Replicas dep) 1 - n) = deref (Replicas dep) 1 - n"
    using assms(2-4) by (auto simp: i32_id is_int32_def MaxInt32_def)
  then show ?thesis using False assms(1,2,4,5) by (simp add: reqmt_Spec_def)
qed (use assms(1) in \<open>simp add: reqmt_Spec_def Let_def\<close>)

text \<open>When the source carries the finalizer and its PodProtector exists with the generated
  specification, the reconciliation makes no request at all.\<close>

theorem ReconcileItem_settled:
  assumes "TypeDefIndex key < length tys" "GetObject (tys ! TypeDefIndex key) (NsName key) = Some src" "has_finalizer src"
    and "fst (GetRequiredProtectors (tp_options (tys ! TypeDefIndex key)) src) \<noteq> []"
    and "GeneratePodProtector resolve src defaultReqmt = Some (Inr expected)"
    and "byIndex (index_key DeploymentGroup DeploymentKind (fst (NsName key)) (snd (NsName key))) = Inr [ppr]"
    and "Name (PprMeta ppr) = reqmt_Name src defaultReqmt" "spec_DeepEqual (Spec ppr) (Spec expected)"
    and "map_of (Annotations (PprMeta ppr)) PprAnnotationRemoveCellOnce = None"
  shows "\<exists>st'. ReconcileItem api resolve tys byIndex key calls = Some (None, st') \<and> gen_calls st' = calls"
proof -
  let ?st = "\<lparr>gen_calls = calls, gen_source = Some src, needsRemoval = True\<rparr> :: GenState"
  have pairs: "map2_list (required_map (tp_options (tys ! TypeDefIndex key)) (Some src)) (relevant_map [ppr]) =
      [(reqmt_Name src defaultReqmt, Some defaultReqmt, Some ppr)]"
    using assms(4,7) relevant_map_distinct[of "[ppr]"] by (simp add: required_map_cases map2_list_def)
  have ensure: "ensureSourceFinalizer api ?st = Some (None, ?st\<lparr>needsRemoval := False\<rparr>)"
    using assms(3) by (simp add: ensureSourceFinalizer_def Let_def find_finalizer has_finalizer_def)
  have sync: "syncProtector api resolve ppr defaultReqmt ?st = Some (None, ?st\<lparr>needsRemoval := False\<rparr>)"
    using assms(5,8,9) unfolding syncProtector_def ensure by (simp add: tryRemoveCells_def)
  have "reconcile_pair api resolve (reqmt_Name src defaultReqmt, Some defaultReqmt, Some ppr) (Some ?st) =
      (None, Some (?st\<lparr>needsRemoval := False\<rparr>))"
    by (simp add: reconcile_pair_def gen_tryReconcile_def sync)
  then show ?thesis
    using assms(1,2,6) pairs by (simp add: ReconcileItem_def Let_def iter_FromMap2_list)
qed

section \<open>Witnesses\<close>

definition sample_dep :: "gotime option \<Rightarrow> string list \<Rightarrow> Deployment" where
  "sample_dep deletion fs = \<lparr>DepMeta = \<lparr>Name = ''web'', Namespace = ''default'', UID = ''d1'', ResourceVersion = ''2'',
       CreationTimestamp = 1, DeletionTimestamp = deletion, Labels = [], Annotations = [], Finalizers = fs, OwnerReferences = []\<rparr>,
     Replicas = Some 4, RollingMaxUnavailable = Some (IntVal 1), DepMinReadySeconds = 10,
     DepSelector = Some \<lparr>MatchLabels = [(''app'', ''web'')], MatchExpressions = []\<rparr>\<rparr>"

definition sample_resolve :: resolver where
  "sample_resolve v n0 roundUp = (case v of IntVal n \<Rightarrow> Inr n | StrVal _ \<Rightarrow> Inr ((n0 + 3) div 4))"

definition sample_gen_api :: GenApi where
  "sample_gen_api = \<lparr>api_Create = (\<lambda>h p. None), api_Update = (\<lambda>h p. Inr p), api_UpdateStatus = (\<lambda>h p. Inr p),
     api_Delete = (\<lambda>h ns n. None), api_UpdateSource = (\<lambda>h d. Inr d)\<rparr>"

definition sample_generated :: PodProtector where
  "sample_generated = projr (the (GeneratePodProtector sample_resolve (sample_dep None []) defaultReqmt))"

definition sample_types :: "Deployment \<Rightarrow> TypeProvider list" where
  "sample_types dep = [\<lparr>tp_options = \<lparr>opt_labelSelector = (\<lambda>_. True), avoidNonZeroDeletion = False\<rparr>,
     tp_Get = (\<lambda>_. Inr (Some dep))\<rparr>]"

definition sample_queue_key :: QueueKey where
  "sample_queue_key = \<lparr>NsName = (''default'', ''web''), TypeDefIndex = 0\<rparr>"

definition sample_index :: "PodProtector list \<Rightarrow> string \<Rightarrow> go_error + PodProtector list" where
  "sample_index pprs k = Inr (filter (\<lambda>p. k \<in> set (GroupKindNamespaceNameIndexFunc (PprMeta p))) pprs)"

definition sample_deleted :: GenState where
  "sample_deleted = \<lparr>gen_calls = [UpdatePpr (sample_generated\<lparr>PprMeta := (PprMeta sample_generated)\<lparr>Finalizers := []\<rparr>\<rparr>),
       DeletePpr ''default'' ''deployment-web'', UpdateSource (sample_dep (Some 9) [])],
     gen_source = Some (sample_dep (Some 9) []), needsRemoval = True\<rparr>"

theorem source_finalizer_removed_last_witness:
  "ReconcileItem sample_gen_api sample_resolve (sample_types (sample_dep (Some 9) [GeneratorFinalizer]))
     (sample_index [sample_generated]) sample_queue_key [] = Some (None, sample_deleted)
   \<and> gone sample_gen_api [UpdatePpr (sample_generated\<lparr>PprMeta := (PprMeta sample_generated)\<lparr>Finalizers := []\<rparr>\<rparr>),
       DeletePpr ''default'' ''deployment-web''] sample_generated
   \<and> all_accepted sample_gen_api [UpdatePpr (sample_generated\<lparr>PprMeta := (PprMeta sample_generated)\<lparr>Finalizers := []\<rparr>\<rparr>),
       DeletePpr ''default'' ''deployment-web'']"
proof -
  have run: "ReconcileItem sample_gen_api sample_resolve (sample_types (sample_dep (Some 9) [GeneratorFinalizer]))
     (sample_index [sample_generated]) sample_queue_key [] = Some (None, sample_deleted)" by code_simp
  have "keeps_identity sample_gen_api" by (simp add: keeps_identity_def sample_gen_api_def)
  moreover have "UpdateSource (sample_dep (Some 9) []) \<in> set (gen_calls sample_deleted)"
    "\<not> has_finalizer (sample_dep (Some 9) [])"
    by (simp_all add: sample_deleted_def has_finalizer_def sample_dep_def)
  moreover have "sample_index [sample_generated] (index_key DeploymentGroup DeploymentKind (fst (NsName sample_queue_key))
      (snd (NsName sample_queue_key))) = Inr [sample_generated]" by code_simp
  ultimately obtain cs where "gen_calls sample_deleted = cs @ [UpdateSource (sample_dep (Some 9) [])]"
    "list_all (gone sample_gen_api cs) [sample_generated]" "all_accepted sample_gen_api cs"
    using source_finalizer_removed_last[OF run] by fastforce
  then show ?thesis using run by (simp add: sample_deleted_def)
qed

definition sample_created :: GenState where
  "sample_created = \<lparr>gen_calls = [UpdateSource (sample_dep None [GeneratorFinalizer]), CreatePpr sample_generated],
     gen_source = Some (sample_dep None [GeneratorFinalizer]), needsRemoval = False\<rparr>"

theorem protector_created_under_finalizer_witness:
  "ReconcileItem sample_gen_api sample_resolve (sample_types (sample_dep None [])) (sample_index []) sample_queue_key [] =
     Some (None, sample_created)
   \<and> GeneratorFinalizer \<in> set (Finalizers (PprMeta sample_generated))"
proof -
  have run: "ReconcileItem sample_gen_api sample_resolve (sample_types (sample_dep None [])) (sample_index []) sample_queue_key [] =
     Some (None, sample_created)" by code_simp
  have "CreatePpr sample_generated \<in> set (gen_calls sample_created)" by (simp add: sample_created_def)
  from protector_created_under_finalizer[OF run this] run show ?thesis by blast
qed

lemma sample_generates: "GeneratePodProtector sample_resolve (sample_dep d fs) defaultReqmt = Some (Inr sample_generated)"
  unfolding sample_dep_def by (simp add: sample_generated_def sample_dep_def GeneratePodProtector_def reqmt_Spec_def
      sample_resolve_def deref_def MaxInt32_def Let_def reqmt_Name_def)

theorem generated_found_by_index_witness:
  "GeneratePodProtector sample_resolve (sample_dep None []) defaultReqmt = Some (Inr sample_generated)
   \<and> index_key DeploymentGroup DeploymentKind ''default'' ''web'' \<in> set (GroupKindNamespaceNameIndexFunc (PprMeta sample_generated))"
  using generated_found_by_index[OF sample_generates[of None "[]"], of "''default''" "''web''"] sample_generates
  by (simp add: sample_dep_def)

theorem reqmt_Spec_minimum_witness:
  "\<exists>spec. reqmt_Spec sample_resolve (sample_dep None []) defaultReqmt = Some (Inr spec) \<and> MinAvailable spec = 3"
  using reqmt_Spec_minimum[of sample_resolve "sample_dep None []" 1 _ defaultReqmt]
  by (auto simp: sample_dep_def sample_resolve_def deref_def is_int32_def MaxInt32_def)

theorem ReconcileItem_settled_witness:
  "\<exists>st'. ReconcileItem sample_gen_api sample_resolve (sample_types (sample_dep None [GeneratorFinalizer]))
     (sample_index [sample_generated]) sample_queue_key [] = Some (None, st') \<and> gen_calls st' = []"
  by (rule ReconcileItem_settled[where src = "sample_dep None [GeneratorFinalizer]" and ppr = sample_generated,
        OF _ _ _ _ sample_generates]) code_simp+

end
