(* ===== verification/PprInformer.thy ===== *)
theory PprInformer
  imports SelectorIndex PprUtil Errors
begin

text \<open>
  The indexed informer of PodProtectors over a changing list of source clusters:
  \<open>util/podprotector/informer.go\<close>, \<open>multi_informer.go\<close> and
  \<open>single_source_provider.go\<close>. Every started informer has a number; the numbers of those
  whose context has been cancelled are collected. The informer library (the listers and whether
  they have synced, errors of registering a handler) and \<open>apierrors.IsNotFound\<close> are
  arguments; sorting is the sorter of the selector index.
\<close>

section \<open>One source\<close>

type_synonym SelectorIndex = "string Selectors Namespaced Locked"
type_synonym pprLister = "string \<times> string \<Rightarrow> go_error + PodProtector option"

definition NewSelectorIndex :: SelectorIndex where
  "NewSelectorIndex = NewLocked NewNamespaced"

text \<open>\<open>'h\<close> is the type of the post handlers. A source calls those that were registered when it was
  started.\<close>

record 'h sourceState =
  src_id :: nat
  src_lister :: pprLister
  src_hasSynced :: bool
  selectorIndex :: SelectorIndex
  src_handlers :: "'h list"

text \<open>The event handler. The error of \<open>Track\<close> is only reported; the post handlers run in
  any case.\<close>

definition ppr_handler :: "Matchable sorter \<Rightarrow> PodProtector \<Rightarrow> bool \<Rightarrow> SelectorIndex \<Rightarrow>
    ((string \<times> string) \<times> SelectorIndex) call" where
  "ppr_handler srt ppr stillPresent index =
     (let nsName = (Namespace (PprMeta ppr), Name (PprMeta ppr))
      in if stillPresent then
           (case Locked_Track (Namespaced_Track NewSelectors (Selectors_Track srt)) index nsName (GetAggregationSelector ppr) of
              Returned (_, index') \<Rightarrow> Returned (nsName, index')
            | Blocked \<Rightarrow> Blocked
            | Panicked \<Rightarrow> Panicked)
         else
           (case Locked_Untrack (Namespaced_Untrack (Selectors_Untrack srt)) index nsName of
              Returned (_, index') \<Rightarrow> Returned (nsName, index')
            | Blocked \<Rightarrow> Blocked
            | Panicked \<Rightarrow> Panicked))"

section \<open>The informer\<close>

record 'h informerState =
  isSourceIdent :: bool
  inf_sources :: "(string, 'h sourceState) gomap option"
  postHandlers :: "'h list"
  inf_nextId :: nat
  inf_cancelled :: "nat list"

definition newInformerState :: "bool \<Rightarrow> 'h informerState" where
  "newInformerState ident = \<lparr>isSourceIdent = ident, inf_sources = None, postHandlers = [], inf_nextId = 0, inf_cancelled = []\<rparr>"

definition AddPostHandler :: "'h \<Rightarrow> 'h informerState \<Rightarrow> 'h informerState" where
  "AddPostHandler handler state = state\<lparr>postHandlers := postHandlers state @ [handler]\<rparr>"

definition deref_sources :: "'h informerState \<Rightarrow> (string, 'h sourceState) gomap" where
  "deref_sources state = (case inf_sources state of Some m \<Rightarrow> m | None \<Rightarrow> [])"

definition cancel_all :: "nat list \<Rightarrow> 'h informerState \<Rightarrow> 'h informerState" where
  "cancel_all ids state = state\<lparr>inf_cancelled := inf_cancelled state @ ids\<rparr>"

text \<open>A description of a source: the error of registering the event handler, if any, and the
  lister of its informer. An informer that is not started is cancelled at once.\<close>

type_synonym SourceDesc = "go_error option \<times> pprLister"

definition startSourceInformer :: "SourceDesc \<Rightarrow> 'h informerState \<Rightarrow> (go_error + 'h sourceState) \<times> 'h informerState" where
  "startSourceInformer desc state =
     (let newId = inf_nextId state; state1 = state\<lparr>inf_nextId := Suc newId\<rparr>
      in case fst desc of
           Some err \<Rightarrow>
             (Inl (TagWrapf ''SetupPprInformer''
                (TagWrapf ''AddPodProtectorEventHandler'' err ''add event handler to PodProtector informer'')
                ''create ppr informer for cell''), cancel_all [newId] state1)
         | None \<Rightarrow>
             (Inr \<lparr>src_id = newId, src_lister = snd desc, src_hasSynced = False, selectorIndex = NewSelectorIndex,
                src_handlers = postHandlers state\<rparr>, state1))"

fun source_loop :: "(string, 'h sourceState) gomap \<Rightarrow> (string, SourceDesc) gomap \<Rightarrow> (string, 'h sourceState) gomap \<Rightarrow> nat list \<Rightarrow>
    'h informerState \<Rightarrow> (go_error + (string, 'h sourceState) gomap) \<times> nat list \<times> 'h informerState" where
  "source_loop prevMap [] nextMap uncommitted state = (Inr nextMap, uncommitted, state)"
| "source_loop prevMap ((name, desc) # descs) nextMap uncommitted state =
     (case map_of prevMap name of
        Some s \<Rightarrow> source_loop prevMap descs (map_put name s nextMap) uncommitted state
      | None \<Rightarrow>
          (case startSourceInformer desc state of
             (Inl err, state') \<Rightarrow> (Inl err, uncommitted, state')
           | (Inr s, state') \<Rightarrow>
               source_loop prevMap descs (map_put name s nextMap) (uncommitted @ [src_id s]) state'))"

definition tryUpdateSourceList :: "(string, SourceDesc) gomap \<Rightarrow> 'h informerState \<Rightarrow> go_error option \<times> 'h informerState" where
  "tryUpdateSourceList newDescs state =
     (let prevMap = deref_sources state
      in case source_loop prevMap newDescs [] [] state of
           (Inl err, uncommitted, state') \<Rightarrow> (Some err, cancel_all uncommitted state')
         | (Inr nextMap, _, state') \<Rightarrow>
             (let uncommitted = map (\<lambda>(name, item). src_id item) (filter (\<lambda>(name, item). map_of nextMap name = None) prevMap)
              in (None, cancel_all uncommitted (state'\<lparr>inf_sources := Some nextMap\<rparr>))))"

definition HasSynced :: "'h informerState \<Rightarrow> bool" where
  "HasSynced state = (case inf_sources state of
     None \<Rightarrow> False
   | Some sources \<Rightarrow> list_all (\<lambda>(name, cell). src_hasSynced cell) sources)"

text \<open>The calls that the post handler of a source makes.\<close>

definition post_calls :: "'h list \<Rightarrow> string \<Rightarrow> string \<times> string \<Rightarrow> ('h \<times> PodProtectorKey) list" where
  "post_calls handlers sourceName nn =
     map (\<lambda>handler. (handler, \<lparr>SourceName = sourceName, KeyNamespace = fst nn, KeyName = snd nn\<rparr>)) handlers"

text \<open>The informer of a source delivers an event.\<close>

definition deliver :: "Matchable sorter \<Rightarrow> string \<Rightarrow> PodProtector \<times> bool \<Rightarrow> 'h informerState \<Rightarrow>
    (('h \<times> PodProtectorKey) list \<times> 'h informerState) call" where
  "deliver srt sourceName ev state =
     (case map_of (deref_sources state) sourceName of
        None \<Rightarrow> Returned ([], state)
      | Some source \<Rightarrow>
          (case ppr_handler srt (fst ev) (snd ev) (selectorIndex source) of
             Blocked \<Rightarrow> Blocked
           | Panicked \<Rightarrow> Panicked
           | Returned (nsName, index) \<Rightarrow>
               Returned (post_calls (src_handlers source) sourceName nsName,
                 state\<lparr>inf_sources := Some (map_put sourceName (source\<lparr>selectorIndex := index\<rparr>) (deref_sources state))\<rparr>)))"

text \<open>The informer of a source has delivered its first list: its \<open>HasSynced\<close> says so from then
  on.\<close>

definition report_synced :: "string \<Rightarrow> 'h informerState \<Rightarrow> 'h informerState" where
  "report_synced sourceName state =
     (case map_of (deref_sources state) sourceName of
        None \<Rightarrow> state
      | Some source \<Rightarrow> state\<lparr>inf_sources := Some (map_put sourceName (source\<lparr>src_hasSynced := True\<rparr>) (deref_sources state))\<rparr>)"

section \<open>Lookups\<close>

fun get_loop :: "(go_error \<Rightarrow> bool) \<Rightarrow> PodProtectorKey \<Rightarrow> (string, 'h sourceState) gomap \<Rightarrow> PodProtector option \<Rightarrow>
    go_error + PodProtector option" where
  "get_loop IsNotFound key [] out = Inr out"
| "get_loop IsNotFound key ((name, cellState) # sources) out =
     (case src_lister cellState (KeyNamespace key, KeyName key) of
        Inl err \<Rightarrow>
          if \<not> IsNotFound err then Inl (TagWrapf ''GetListerPpr'' err ''get ppr from lister'')
          else get_loop IsNotFound key sources out
      | Inr None \<Rightarrow> get_loop IsNotFound key sources out
      | Inr (Some ppr) \<Rightarrow> get_loop IsNotFound key sources
          (Some (case out of
             None \<Rightarrow> ppr
           | Some pp1 \<Rightarrow> if CreationTimestamp (PprMeta ppr) > CreationTimestamp (PprMeta pp1) then ppr else pp1)))"

definition informer_Get :: "(go_error \<Rightarrow> bool) \<Rightarrow> PodProtectorKey \<Rightarrow> 'h informerState \<Rightarrow> go_error + PodProtector option" where
  "informer_Get IsNotFound key state =
     (let sources = deref_sources state;
          sources' = (if isSourceIdent state
            then iter_CollectMap (iter_Filter (iter_FromMap sources) (\<lambda>p. fst p = SourceName key)) else sources)
      in get_loop IsNotFound key sources' None)"

text \<open>The iterator of each source runs with the read lock of its index held and releases it. A
  query that fails would return no iterator.\<close>

fun query_loop :: "Matchable sorter \<Rightarrow> bool \<Rightarrow> (string, string) gomap NamespacedQuery \<Rightarrow> (string, 'h sourceState) gomap \<Rightarrow>
    PodProtectorKey list \<Rightarrow> (PodProtectorKey list \<times> (string, 'h sourceState) gomap) call" where
  "query_loop srt ident q [] out = Returned (out, [])"
| "query_loop srt ident q ((sourceName, cellState) # sources) out =
     (case Locked_Query (Namespaced_Query (Selectors_Query srt)) (selectorIndex cellState) q of
        Blocked \<Rightarrow> Blocked
      | Panicked \<Rightarrow> Panicked
      | Returned (Inl _, _) \<Rightarrow> Panicked
      | Returned (Inr names, locked) \<Rightarrow>
          (case query_iter names (\<lambda>nn (lck, acc). (Continue, (lck, set_Insert
                  \<lparr>SourceName = if ident then sourceName else [], KeyNamespace = fst nn, KeyName = snd nn\<rparr> acc)))
                ((locked, out), False) of
             None \<Rightarrow> Panicked
           | Some (_, ((lck, out'), _)) \<Rightarrow>
               (case query_loop srt ident q sources out' of
                  Blocked \<Rightarrow> Blocked
                | Panicked \<Rightarrow> Panicked
                | Returned (out'', sources') \<Rightarrow>
                    Returned (out'', (sourceName, cellState\<lparr>selectorIndex := lck\<rparr>) # sources'))))"

definition informer_Query :: "Matchable sorter \<Rightarrow> string \<Rightarrow> (string, string) gomap \<Rightarrow> 'h informerState \<Rightarrow>
    (PodProtectorKey list \<times> 'h informerState) call" where
  "informer_Query srt namespace labels state =
     (case query_loop srt (isSourceIdent state) \<lparr>QueryNamespace = namespace, NsQuery = labels\<rparr> (deref_sources state) [] of
        Blocked \<Rightarrow> Blocked
      | Panicked \<Rightarrow> Panicked
      | Returned (out, sources') \<Rightarrow> Returned (out, state\<lparr>inf_sources := map_option (\<lambda>_. sources') (inf_sources state)\<rparr>))"

section \<open>A provider with a single source\<close>

definition single_IsSourceIdentifying :: bool where "single_IsSourceIdentifying = False"

definition single_Watch :: "SourceDesc \<Rightarrow> (string, SourceDesc) gomap" where
  "single_Watch desc = [([], desc)]"

definition single_UpdateStatus :: "(PodProtector \<Rightarrow> 'w \<Rightarrow> go_error option \<times> 'w) \<Rightarrow> string \<Rightarrow> PodProtector \<Rightarrow> 'w \<Rightarrow>
    go_error option \<times> 'w" where
  "single_UpdateStatus clientUpdateStatus sourceName ppr w =
     (case clientUpdateStatus ppr w of
        (Some err, w') \<Rightarrow> (Some (TagWrapf ''ClientUpdateStatus'' err ''call update status on client''), w')
      | (None, w') \<Rightarrow> (None, w'))"


section \<open>The running informers\<close>

definition running_ids :: "'h informerState \<Rightarrow> nat set" where
  "running_ids state = {i. i < inf_nextId state} - set (inf_cancelled state)"

definition inf_ok :: "'h informerState \<Rightarrow> bool" where
  "inf_ok state \<longleftrightarrow> map_ok (deref_sources state)
     \<and> inj_on (\<lambda>p. src_id (snd p)) (set (deref_sources state))
     \<and> (\<lambda>p. src_id (snd p)) ` set (deref_sources state) = running_ids state
     \<and> (\<forall>i \<in> set (inf_cancelled state). i < inf_nextId state)"

lemma inf_ok_new: "inf_ok (newInformerState ident)"
  by (simp add: inf_ok_def newInformerState_def deref_sources_def running_ids_def)

text \<open>The entries of the next map: sources that are kept, and new ones with the next numbers.\<close>

definition entry_ok :: "(string, 'h sourceState) gomap \<Rightarrow> nat \<Rightarrow> nat \<Rightarrow> string \<times> 'h sourceState \<Rightarrow> bool" where
  "entry_ok prevMap lo hi p = (case map_of prevMap (fst p) of
     Some s \<Rightarrow> snd p = s | None \<Rightarrow> lo \<le> src_id (snd p) \<and> src_id (snd p) < hi \<and> selectorIndex (snd p) = NewSelectorIndex)"

lemma entry_ok_mono: "entry_ok prevMap lo hi p \<Longrightarrow> lo' \<le> lo \<Longrightarrow> hi \<le> hi' \<Longrightarrow> entry_ok prevMap lo' hi' p"
  by (auto simp: entry_ok_def split: option.splits)

lemma source_loop_success:
  assumes "source_loop prevMap descs nextMap uncommitted state = (Inr nextMap', uncommitted', state')"
    and "distinct (map fst nextMap @ map fst descs)"
  shows "\<exists>zs hi. nextMap' = nextMap @ zs \<and> map fst zs = map fst descs \<and> inf_nextId state \<le> hi
    \<and> state' = state\<lparr>inf_nextId := hi\<rparr> \<and> list_all (entry_ok prevMap (inf_nextId state) hi) zs
    \<and> map (\<lambda>p. src_id (snd p)) (filter (\<lambda>p. map_of prevMap (fst p) = None) zs) = [inf_nextId state..<hi]"
  using assms
proof (induction descs arbitrary: nextMap uncommitted state)
  case Nil
  then show ?case by (intro exI[of _ "[]"] exI[of _ "inf_nextId state"]) simp
next
  case (Cons d descs)
  obtain name desc where d: "d = (name, desc)" by (cases d) auto
  have new: "map_put name s nextMap = nextMap @ [(name, s)]" for s
    using Cons.prems(2) by (intro map_put_new) (auto simp: d)
  show ?case
  proof (cases "map_of prevMap name")
    case (Some s)
    from Cons.IH[of "nextMap @ [(name, s)]" uncommitted state] Cons.prems Some new obtain zs hi where
      zs: "nextMap' = nextMap @ (name, s) # zs" "map fst zs = map fst descs" "inf_nextId state \<le> hi"
        "state' = state\<lparr>inf_nextId := hi\<rparr>" "list_all (entry_ok prevMap (inf_nextId state) hi) zs"
        "map (\<lambda>p. src_id (snd p)) (filter (\<lambda>p. map_of prevMap (fst p) = None) zs) = [inf_nextId state..<hi]"
      by (auto simp: d)
    have "entry_ok prevMap (inf_nextId state) hi (name, s)" using Some by (simp add: entry_ok_def)
    then show ?thesis using Some zs by (intro exI[of _ "(name, s) # zs"] exI[of _ hi]) (simp add: d)
  next
    case None
    obtain res state1 where start: "startSourceInformer desc state = (res, state1)" by fastforce
    obtain s where s: "res = Inr s" using Cons.prems(1) None start by (cases res) (auto simp: d)
    have s1: "state1 = state\<lparr>inf_nextId := Suc (inf_nextId state)\<rparr>" "src_id s = inf_nextId state" "selectorIndex s = NewSelectorIndex"
      using start s by (auto simp: startSourceInformer_def Let_def split: option.splits)
    from Cons.IH[of "nextMap @ [(name, s)]" "uncommitted @ [src_id s]" state1] Cons.prems None start s new obtain zs hi where
      zs: "nextMap' = nextMap @ (name, s) # zs" "map fst zs = map fst descs" "Suc (inf_nextId state) \<le> hi"
        "state' = state\<lparr>inf_nextId := hi\<rparr>" "list_all (entry_ok prevMap (Suc (inf_nextId state)) hi) zs"
        "map (\<lambda>p. src_id (snd p)) (filter (\<lambda>p. map_of prevMap (fst p) = None) zs) = [Suc (inf_nextId state)..<hi]"
      by (auto simp: d s1)
    have "list_all (entry_ok prevMap (inf_nextId state) hi) zs"
      using zs(5) entry_ok_mono[of prevMap "Suc (inf_nextId state)" hi _ "inf_nextId state" hi] by (auto simp: list_all_iff)
    moreover have "entry_ok prevMap (inf_nextId state) hi (name, s)" using None zs(3) s1 by (simp add: entry_ok_def)
    ultimately show ?thesis using zs None s1(2)
      by (intro exI[of _ "(name, s) # zs"] exI[of _ hi]) (simp add: d upt_conv_Cons)
  qed
qed

lemma source_loop_failure:
  assumes "source_loop prevMap descs nextMap uncommitted state = (Inl err, uncommitted', state')"
  shows "\<exists>m. inf_nextId state \<le> m \<and> uncommitted' = uncommitted @ [inf_nextId state..<m]
    \<and> state' = cancel_all [m] (state\<lparr>inf_nextId := Suc m\<rparr>)"
  using assms
proof (induction descs arbitrary: nextMap uncommitted state)
  case (Cons d descs)
  obtain name desc where d: "d = (name, desc)" by (cases d) auto
  show ?case
  proof (cases "map_of prevMap name")
    case (Some s)
    then show ?thesis using Cons.IH[of "map_put name s nextMap" uncommitted state] Cons.prems by (simp add: d)
  next
    case None
    obtain res state1 where start: "startSourceInformer desc state = (res, state1)" by fastforce
    show ?thesis
    proof (cases res)
      case (Inl e)
      then show ?thesis using Cons.prems None start
        by (intro exI[of _ "inf_nextId state"]) (auto simp: d startSourceInformer_def Let_def split: option.splits)
    next
      case (Inr s)
      then have s1: "state1 = state\<lparr>inf_nextId := Suc (inf_nextId state)\<rparr>" "src_id s = inf_nextId state"
        using start by (auto simp: startSourceInformer_def Let_def split: option.splits)
      from Cons.IH[of "map_put name s nextMap" "uncommitted @ [src_id s]" state1] Cons.prems None start Inr obtain m where
        "Suc (inf_nextId state) \<le> m" "uncommitted' = uncommitted @ src_id s # [Suc (inf_nextId state)..<m]"
        "state' = cancel_all [m] (state\<lparr>inf_nextId := Suc m\<rparr>)" by (auto simp: d s1)
      then show ?thesis using s1(2) by (intro exI[of _ m]) (simp add: upt_conv_Cons)
    qed
  qed
qed simp


lemma update_failure:
  assumes "inf_ok state" "tryUpdateSourceList descs state = (Some err, state')"
  shows "inf_sources state' = inf_sources state \<and> running_ids state' = running_ids state \<and> inf_ok state'"
proof -
  obtain res uncommitted state1 where loop: "source_loop (deref_sources state) descs [] [] state = (res, uncommitted, state1)"
    by (metis prod_cases3)
  then obtain e where res: "res = Inl e" and st: "state' = cancel_all uncommitted state1"
    using assms(2) by (cases res) (auto simp: tryUpdateSourceList_def Let_def)
  obtain m where m: "inf_nextId state \<le> m" "uncommitted = [inf_nextId state..<m]"
    and st1: "state1 = cancel_all [m] (state\<lparr>inf_nextId := Suc m\<rparr>)"
    using source_loop_failure[OF loop[unfolded res]] by auto
  have next': "inf_nextId state' = Suc m" and srcs: "inf_sources state' = inf_sources state"
    and canc: "inf_cancelled state' = inf_cancelled state @ [m] @ [inf_nextId state..<m]"
    by (simp_all add: st st1 cancel_all_def m(2))
  have run: "running_ids state' = running_ids state"
    using m(1) assms(1) by (auto simp: running_ids_def next' canc inf_ok_def)
  moreover have "deref_sources state' = deref_sources state" by (simp add: deref_sources_def srcs)
  moreover have "\<forall>i \<in> set (inf_cancelled state'). i < inf_nextId state'"
    using assms(1) m(1) by (auto simp: canc next' inf_ok_def)
  ultimately show ?thesis using assms(1) srcs by (simp add: inf_ok_def)
qed

text \<open>The numbers of a map of sources.\<close>

abbreviation ids :: "(string, 'h sourceState) gomap \<Rightarrow> nat set" where
  "ids m \<equiv> (\<lambda>p. src_id (snd p)) ` set m"

lemma next_map_ids:
  assumes "map_ok prevMap" "map_ok zs" "list_all (entry_ok prevMap lo hi) zs"
    and "map (\<lambda>p. src_id (snd p)) (filter (\<lambda>p. map_of prevMap (fst p) = None) zs) = [lo..<hi]"
  shows "ids zs = ids (filter (\<lambda>p. fst p \<in> fst ` set zs) prevMap) \<union> {lo..<hi}"
proof -
  have kept: "p \<in> set prevMap" if "p \<in> set zs" "map_of prevMap (fst p) \<noteq> None" for p
    using assms(3) that map_of_SomeD[of prevMap "fst p"] by (cases p) (auto simp: list_all_iff entry_ok_def)
  have stays: "p \<in> set zs" if "p \<in> set prevMap" "fst p \<in> fst ` set zs" for p
  proof -
    from that(2) obtain q where q: "q \<in> set zs" "fst q = fst p" by force
    have "map_of prevMap (fst p) = Some (snd p)" using assms(1) that(1) map_ok_mem[of prevMap] by (cases p) auto
    then have "snd q = snd p" using assms(3) q by (auto simp: list_all_iff entry_ok_def)
    then show ?thesis using q by (cases p; cases q) auto
  qed
  have "set zs = set (filter (\<lambda>p. fst p \<in> fst ` set zs) prevMap) \<union> set (filter (\<lambda>p. map_of prevMap (fst p) = None) zs)"
    proof (intro set_eqI iffI)
    fix p assume "p \<in> set zs"
    then show "p \<in> set (filter (\<lambda>p. fst p \<in> fst ` set zs) prevMap) \<union> set (filter (\<lambda>p. map_of prevMap (fst p) = None) zs)"
      using kept[of p] by auto
  next
    fix p assume "p \<in> set (filter (\<lambda>p. fst p \<in> fst ` set zs) prevMap) \<union> set (filter (\<lambda>p. map_of prevMap (fst p) = None) zs)"
    then show "p \<in> set zs" using stays[of p] by auto
  qed
  moreover have "(\<lambda>p. src_id (snd p)) ` set (filter (\<lambda>p. map_of prevMap (fst p) = None) zs) = {lo..<hi}"
    using arg_cong[OF assms(4), of set] by simp
  ultimately show "ids zs = ids (filter (\<lambda>p. fst p \<in> fst ` set zs) prevMap) \<union> {lo..<hi}"
    by (metis image_Un)
qed


lemma next_map_inj:
  assumes "inj_on (\<lambda>p. src_id (snd p)) (set prevMap)" "\<forall>i \<in> ids prevMap. i < lo"
    and "map_ok zs" "list_all (entry_ok prevMap lo hi) zs"
    and "map (\<lambda>p. src_id (snd p)) (filter (\<lambda>p. map_of prevMap (fst p) = None) zs) = [lo..<hi]"
  shows "inj_on (\<lambda>p. src_id (snd p)) (set zs)"
proof -
  let ?old = "{p \<in> set zs. map_of prevMap (fst p) \<noteq> None}" and ?new = "{p \<in> set zs. map_of prevMap (fst p) = None}"
  have old: "?old \<subseteq> set prevMap"
    using assms(4) map_of_SomeD[of prevMap] by (fastforce simp: list_all_iff entry_ok_def)
  have new: "lo \<le> src_id (snd p)" if "p \<in> ?new" for p
    using assms(4) that by (auto simp: list_all_iff entry_ok_def)
  have "distinct (map (\<lambda>p. src_id (snd p)) (filter (\<lambda>p. map_of prevMap (fst p) = None) zs))" by (simp add: assms(5))
  then have "inj_on (\<lambda>p. src_id (snd p)) ?new" by (simp add: distinct_map)
  moreover have "inj_on (\<lambda>p. src_id (snd p)) ?old" using assms(1) old by (rule inj_on_subset)
  moreover have "(\<lambda>p. src_id (snd p)) ` ?old \<inter> (\<lambda>p. src_id (snd p)) ` ?new = {}"
  proof -
    have "src_id (snd p) \<noteq> src_id (snd q)" if "p \<in> ?old" "q \<in> ?new" for p q
    proof -
      have "src_id (snd p) < lo" using old that(1) assms(2) by blast
      then show ?thesis using new[OF that(2)] by simp
    qed
    then show ?thesis by blast
  qed
  ultimately have "inj_on (\<lambda>p. src_id (snd p)) (?old \<union> ?new)" by (auto simp: inj_on_Un)
  moreover have "?old \<union> ?new = set zs" by auto
  ultimately show ?thesis by simp
qed

lemma update_success:
  assumes "inf_ok state" "map_ok descs" "tryUpdateSourceList descs state = (None, state')"
  shows "map fst (deref_sources state') = map fst descs" "inf_sources state' = Some (deref_sources state')"
    and "\<And>name s. map_of (deref_sources state) name = Some s \<Longrightarrow> name \<in> fst ` set descs \<Longrightarrow>
      map_of (deref_sources state') name = Some s"
    and "\<And>name s. map_of (deref_sources state) name = None \<Longrightarrow> map_of (deref_sources state') name = Some s \<Longrightarrow>
      selectorIndex s = NewSelectorIndex"
    and "inf_ok state'"
proof -
  let ?prev = "deref_sources state" and ?lo = "inf_nextId state"
  have prev: "map_ok ?prev" "inj_on (\<lambda>p. src_id (snd p)) (set ?prev)" "ids ?prev = running_ids state"
    "\<forall>i \<in> set (inf_cancelled state). i < ?lo" using assms(1) by (simp_all add: inf_ok_def)
  obtain res uncommitted state1 where loop: "source_loop ?prev descs [] [] state = (res, uncommitted, state1)"
    by (metis prod_cases3)
  let ?gone = "\<lambda>zs. filter (\<lambda>(name, item). map_of zs name = None) ?prev"
  obtain zs0 where res: "res = Inr zs0"
    using assms(3) loop by (cases res) (auto simp: tryUpdateSourceList_def Let_def)
  obtain zs hi where zs: "zs0 = zs" "map fst zs = map fst descs" "?lo \<le> hi" "state1 = state\<lparr>inf_nextId := hi\<rparr>"
      "list_all (entry_ok ?prev ?lo hi) zs"
      "map (\<lambda>p. src_id (snd p)) (filter (\<lambda>p. map_of ?prev (fst p) = None) zs) = [?lo..<hi]"
    using source_loop_success[OF loop[unfolded res]] assms(2) by (auto simp: map_ok_def)
  have st: "state' = cancel_all (map (\<lambda>(name, item). src_id item) (?gone zs)) (state\<lparr>inf_nextId := hi, inf_sources := Some zs\<rparr>)"
    using assms(3) loop by (simp add: tryUpdateSourceList_def Let_def res zs(1) zs(4))
  have fields: "inf_sources state' = Some zs" "inf_nextId state' = hi" "deref_sources state' = zs"
    "inf_cancelled state' = inf_cancelled state @ map (\<lambda>(name, item). src_id item) (?gone zs)"
    by (simp_all add: st cancel_all_def deref_sources_def)
  show "map fst (deref_sources state') = map fst descs" "inf_sources state' = Some (deref_sources state')"
    by (simp_all add: fields zs(2))
  have ok: "map_ok zs" using assms(2) zs(2) by (simp add: map_ok_def)
  have names: "fst ` set zs = fst ` set descs" using arg_cong[OF zs(2), of set] by simp
  show "map_of (deref_sources state') name = Some s" if found: "map_of ?prev name = Some s" and named: "name \<in> fst ` set descs" for name s
  proof -
    have "name \<in> fst ` set zs" using named unfolding names .
    then obtain p where p: "p \<in> set zs" "fst p = name" by force
    then have "snd p = s" using zs(5) found by (auto simp: list_all_iff entry_ok_def)
    then show ?thesis using p ok map_ok_mem[of zs name s] by (cases p) (simp add: fields)
  qed
  show "selectorIndex s = NewSelectorIndex"
    if "map_of ?prev name = None" "map_of (deref_sources state') name = Some s" for name s
  proof -
    have "(name, s) \<in> set zs" using that(2) map_of_SomeD[of zs name s] by (simp add: fields)
    then show ?thesis using zs(5) that(1) by (auto simp: list_all_iff entry_ok_def)
  qed
  have below: "\<forall>i \<in> ids ?prev. i < ?lo" by (simp add: prev(3) running_ids_def)
  have gone: "set (map (\<lambda>(name, item). src_id item) (?gone zs)) = ids (filter (\<lambda>p. fst p \<notin> fst ` set zs) ?prev)"
    by (force simp: map_of_eq_None_iff)
  have "set (filter (\<lambda>p. fst p \<in> fst ` set zs) ?prev) = set ?prev - set (filter (\<lambda>p. fst p \<notin> fst ` set zs) ?prev)" by auto
  then have "ids (filter (\<lambda>p. fst p \<in> fst ` set zs) ?prev) = ids ?prev - ids (filter (\<lambda>p. fst p \<notin> fst ` set zs) ?prev)"
    using inj_on_image_set_diff[OF prev(2), of "set ?prev" "set (filter (\<lambda>p. fst p \<notin> fst ` set zs) ?prev)"] by (simp add: subset_iff)
  then have idz: "ids zs = (running_ids state - ids (filter (\<lambda>p. fst p \<notin> fst ` set zs) ?prev)) \<union> {?lo..<hi}"
    using next_map_ids[OF prev(1) ok zs(5,6)] by (simp add: prev(3))
  have rem: "ids (filter (\<lambda>p. fst p \<notin> fst ` set zs) ?prev) \<subseteq> running_ids state" by (auto simp: prev(3)[symmetric])
  have run': "running_ids state' = ids zs"
    using zs(3) rem prev(4) unfolding idz running_ids_def fields set_append gone by auto
  have "set (inf_cancelled state') = set (inf_cancelled state) \<union> ids (filter (\<lambda>p. fst p \<notin> fst ` set zs) ?prev)"
    unfolding fields set_append gone by (rule refl)
  moreover have "\<forall>i \<in> running_ids state. i < ?lo" by (simp add: running_ids_def)
  ultimately have "\<forall>i \<in> set (inf_cancelled state'). i < ?lo" using prev(4) rem by blast
  then have "\<forall>i \<in> set (inf_cancelled state'). i < hi" using zs(3) order_less_le_trans by blast
  then show "inf_ok state'" unfolding inf_ok_def fields(2,3)
    using ok next_map_inj[OF prev(2) below ok zs(5,6)] run' by simp
qed


section \<open>What a query finds\<close>

fun ppr_op :: "PodProtector \<times> bool \<Rightarrow> (string \<times> string, LabelSelector) index_op" where
  "ppr_op (ppr, True) = OpTrack (Namespace (PprMeta ppr), Name (PprMeta ppr)) (GetAggregationSelector ppr)"
| "ppr_op (ppr, False) = OpUntrack (Namespace (PprMeta ppr), Name (PprMeta ppr))"

text \<open>The PodProtectors that a source has after its events, with the selectors they are found
  by; a selector with an unknown operator is not indexed.\<close>

definition current_selectors :: "(PodProtector \<times> bool) list \<Rightarrow> string \<times> string \<Rightarrow> LabelSelector option" where
  "current_selectors evs = final_items (\<lambda>raw. if known_operators raw then Some raw else None) (map ppr_op evs) Map.empty"

fun handle_events :: "Matchable sorter \<Rightarrow> (PodProtector \<times> bool) list \<Rightarrow> SelectorIndex \<Rightarrow> SelectorIndex call" where
  "handle_events srt [] index = Returned index"
| "handle_events srt ((ppr, stillPresent) # evs) index =
     (case ppr_handler srt ppr stillPresent index of
        Blocked \<Rightarrow> Blocked | Panicked \<Rightarrow> Panicked | Returned (_, index') \<Rightarrow> handle_events srt evs index')"

lemma handle_events_run:
  assumes "run_index (Namespaced_Track NewSelectors (Selectors_Track srt)) (Namespaced_Untrack (Selectors_Untrack srt))
    (map ppr_op evs) ix = Some ix'"
  shows "handle_events srt evs (NewLocked ix) = Returned (NewLocked ix')"
  using assms
proof (induction evs arbitrary: ix)
  case (Cons ev evs)
  obtain ppr present where ev: "ev = (ppr, present)" by (cases ev)
  show ?case
    using Cons.prems Cons.IH
    by (cases present) (auto simp: ev ppr_handler_def Locked_Track_def Locked_Untrack_def with_lock_def NewLocked_def
        split: option.splits prod.splits)
qed simp

lemma iter_FromSlice_insert:
  "iter_FromSlice xs (\<lambda>x (l, acc). (Continue, (l, f x acc))) (l, acc) = (Continue, (l, fold f xs acc))"
  by (induction xs arbitrary: acc) simp_all

lemma query_iter_insert:
  "query_iter xs (\<lambda>x (l, acc). (Continue, (l, f x acc))) ((l, acc), False) = Some (Continue, ((RUnlock l, fold f xs acc), True))"
  by (simp add: query_iter_def iter_Defer_def iter_MustBeAffine_def iter_FromSlice_insert)


section \<open>The states of the informer\<close>

text \<open>The informer as a state machine. The second state is the history of the events of each
  current source since it was started.\<close>

inductive informer_reach :: "Matchable sorter \<Rightarrow> 'h informerState \<Rightarrow> (string \<Rightarrow> (PodProtector \<times> bool) list) \<Rightarrow> bool"
  for srt where
  init: "informer_reach srt (newInformerState ident) (\<lambda>_. [])"
| handler: "informer_reach srt state evs \<Longrightarrow> informer_reach srt (AddPostHandler h state) evs"
| update: "informer_reach srt state evs \<Longrightarrow> map_ok descs \<Longrightarrow> tryUpdateSourceList descs state = (err, state') \<Longrightarrow>
    informer_reach srt state'
      (\<lambda>name. if name \<in> dom (map_of (deref_sources state)) \<inter> dom (map_of (deref_sources state')) then evs name else [])"
| event: "informer_reach srt state evs \<Longrightarrow> op_good indexable (ppr_op ev) \<Longrightarrow>
    deliver srt name ev state = Returned (calls, state') \<Longrightarrow> informer_reach srt state' (evs(name := evs name @ [ev]))"
| synced: "informer_reach srt state evs \<Longrightarrow> informer_reach srt (report_synced name state) evs"

definition source_current :: "Matchable sorter \<Rightarrow> (PodProtector \<times> bool) list \<Rightarrow> 'h sourceState \<Rightarrow> bool" where
  "source_current srt evs s \<longleftrightarrow>
     list_all (op_good indexable) (map ppr_op evs) \<and> handle_events srt evs NewSelectorIndex = Returned (selectorIndex s)"

lemma source_current_new: "selectorIndex s = NewSelectorIndex \<Longrightarrow> source_current srt [] s"
  by (simp add: source_current_def)

lemma handle_events_append:
  "handle_events srt (xs @ ys) index = (case handle_events srt xs index of
     Blocked \<Rightarrow> Blocked | Panicked \<Rightarrow> Panicked | Returned index' \<Rightarrow> handle_events srt ys index')"
  by (induction srt xs index rule: handle_events.induct) (auto split: call.split)

lemma source_current_event:
  assumes "source_current srt evs s" "op_good indexable (ppr_op ev)"
    and "ppr_handler srt (fst ev) (snd ev) (selectorIndex s) = Returned (nn, index)"
  shows "source_current srt (evs @ [ev]) (s\<lparr>selectorIndex := index\<rparr>)"
  using assms by (cases ev) (simp add: source_current_def handle_events_append)

lemma map_put_same_id:
  assumes "map_of m k = Some s" "src_id s' = src_id s"
  shows "map (\<lambda>p. src_id (snd p)) (map_put k s' m) = map (\<lambda>p. src_id (snd p)) m" "map fst (map_put k s' m) = map fst m"
  using assms by (induction k s' m rule: map_put.induct) (auto split: if_splits)

lemma inf_ok_iff: "inf_ok state \<longleftrightarrow> distinct (map fst (deref_sources state))
     \<and> distinct (map (\<lambda>p. src_id (snd p)) (deref_sources state))
     \<and> set (map (\<lambda>p. src_id (snd p)) (deref_sources state)) = running_ids state
     \<and> (\<forall>i \<in> set (inf_cancelled state). i < inf_nextId state)"
proof -
  have "distinct (map (\<lambda>p. src_id (snd p)) m) \<longleftrightarrow> inj_on (\<lambda>p. src_id (snd p)) (set m)"
    if "map_ok m" for m :: "(string, 'a sourceState) gomap"
    using that unfolding map_ok_def distinct_map by blast
  then show ?thesis by (auto simp: inf_ok_def map_ok_def)
qed

lemma deliver_inf_ok:
  assumes "inf_ok state" "deliver srt name ev state = Returned (calls, state')"
  shows "inf_ok state'"
proof (cases "map_of (deref_sources state) name")
  case None
  then show ?thesis using assms by (simp add: deliver_def)
next
  case (Some s)
  then obtain nn index where
    "state' = state\<lparr>inf_sources := Some (map_put name (s\<lparr>selectorIndex := index\<rparr>) (deref_sources state))\<rparr>"
    using assms(2) by (auto simp: deliver_def split: call.splits prod.splits)
  then show ?thesis
    using assms(1) map_put_same_id[OF Some, of "s\<lparr>selectorIndex := index\<rparr>"]
    by (simp add: inf_ok_iff deref_sources_def running_ids_def)
qed

lemma report_synced_inf_ok: "inf_ok state \<Longrightarrow> inf_ok (report_synced name state)"
proof (cases "map_of (deref_sources state) name")
  case (Some s)
  assume "inf_ok state"
  then show ?thesis using Some map_put_same_id[OF Some, of "s\<lparr>src_hasSynced := True\<rparr>"]
    by (simp add: report_synced_def inf_ok_iff deref_sources_def running_ids_def)
qed (simp add: report_synced_def)

lemma informer_reach_inf_ok: "informer_reach srt state evs \<Longrightarrow> inf_ok state"
proof (induction rule: informer_reach.induct)
  case (init ident)
  show ?case by (rule inf_ok_new)
next
  case (handler state evs h)
  then show ?case by (simp add: inf_ok_def AddPostHandler_def deref_sources_def running_ids_def)
next
  case (update state evs descs err state')
  then show ?case using update_failure update_success(5) by (cases err) blast+
next
  case (event state evs ev name calls state')
  then show ?case using deliver_inf_ok by blast
next
  case (synced state evs name)
  then show ?case using report_synced_inf_ok by blast
qed

lemma informer_reach_current:
  "informer_reach srt state evs \<Longrightarrow> map_of (deref_sources state) name = Some s \<Longrightarrow> source_current srt (evs name) s"
proof (induction arbitrary: name s rule: informer_reach.induct)
  case (init ident)
  then show ?case by (simp add: newInformerState_def deref_sources_def)
next
  case (handler state evs h)
  then show ?case by (simp add: AddPostHandler_def deref_sources_def)
next
  case (update state evs descs err state')
  have ok: "inf_ok state" using update.hyps(1) by (rule informer_reach_inf_ok)
  show ?case
  proof (cases err)
    case (Some e)
    then have "deref_sources state' = deref_sources state"
      using update_failure[OF ok] update.hyps(3) by (simp add: deref_sources_def)
    then show ?thesis using update.prems update.IH[of name s] by (simp add: domI)
  next
    case None
    note success = update_success[OF ok update.hyps(2) update.hyps(3)[unfolded None]]
    show ?thesis
    proof (cases "map_of (deref_sources state) name")
      case None
      then show ?thesis using success(4)[OF None update.prems] by (simp add: source_current_new domIff)
    next
      case (Some s0)
      have "name \<in> fst ` set descs"
        using update.prems arg_cong[OF success(1), of set] map_of_SomeD[OF update.prems] by force
      then have "s = s0" using success(3)[OF Some] update.prems by simp
      then show ?thesis using update.IH[OF Some] Some update.prems by (simp add: domI)
    qed
  qed
next
  case (event state evs ev name' calls state')
  show ?case
  proof (cases "map_of (deref_sources state) name'")
    case None
    then have "state' = state" using event.hyps(3) by (simp add: deliver_def)
    then show ?thesis using event.prems event.IH[of name s] None by auto
  next
    case (Some s0)
    then obtain nn index where handled: "ppr_handler srt (fst ev) (snd ev) (selectorIndex s0) = Returned (nn, index)"
      and st: "deref_sources state' = map_put name' (s0\<lparr>selectorIndex := index\<rparr>) (deref_sources state)"
      using event.hyps(3) by (auto simp: deliver_def deref_sources_def split: call.splits prod.splits)
    show ?thesis
      using event.prems event.IH source_current_event[OF event.IH[OF Some] event.hyps(2) handled]
      by (auto simp: st split: if_splits)
  qed
next
  case (synced state evs name')
  show ?case
  proof (cases "map_of (deref_sources state) name'")
    case None
    then show ?thesis using synced by (simp add: report_synced_def)
  next
    case (Some s0)
    then have st: "deref_sources (report_synced name' state) = map_put name' (s0\<lparr>src_hasSynced := True\<rparr>) (deref_sources state)"
      by (simp add: report_synced_def deref_sources_def)
    show ?thesis using synced.prems synced.IH[of name] synced.IH[OF Some]
      by (auto simp: st source_current_def split: if_splits)
  qed
qed

lemma source_query:
  assumes "slice_sorter srt" "map_ok labels" "source_current srt evs s"
  shows "\<exists>names. Locked_Query (Namespaced_Query (Selectors_Query srt)) (selectorIndex s) \<lparr>QueryNamespace = ns, NsQuery = labels\<rparr>
        = Returned (Inr names, (selectorIndex s)\<lparr>readers := readers (selectorIndex s) + 1\<rparr>)
    \<and> set names = {(ns', n). ns' = ns \<and> (\<exists>raw. current_selectors evs (ns', n) = Some raw \<and> selects raw (map_of labels))}"
proof -
  have good: "list_all (op_good indexable) (map ppr_op evs)"
    and handled: "handle_events srt evs NewSelectorIndex = Returned (selectorIndex s)"
    using assms(3) by (auto simp: source_current_def)
  from selectors_run_query[OF assms(1) good assms(2), of ns] obtain ix names where
    run: "run_index (Namespaced_Track NewSelectors (Selectors_Track srt)) (Namespaced_Untrack (Selectors_Untrack srt))
        (map ppr_op evs) NewNamespaced = Some ix"
    and query: "Namespaced_Query (Selectors_Query srt) ix \<lparr>QueryNamespace = ns, NsQuery = labels\<rparr> = Some (Inr names)"
    and names: "set names = {(ns', n). ns' = ns \<and> (\<exists>raw. current_selectors evs (ns', n) = Some raw \<and> selects raw (map_of labels))}"
    unfolding current_selectors_def by blast
  have "selectorIndex s = NewLocked ix"
    using handle_events_run[OF run] handled by (simp add: NewSelectorIndex_def)
  then have "Locked_Query (Namespaced_Query (Selectors_Query srt)) (selectorIndex s) \<lparr>QueryNamespace = ns, NsQuery = labels\<rparr>
        = Returned (Inr names, (selectorIndex s)\<lparr>readers := readers (selectorIndex s) + 1\<rparr>)"
    by (simp add: Locked_Query_def NewLocked_def query)
  then show ?thesis using names by blast
qed

lemma set_fold_insert:
  "set (fold (\<lambda>x acc. set_Insert (f x) acc) xs acc) = set acc \<union> f ` set xs"
  "distinct acc \<Longrightarrow> distinct (fold (\<lambda>x acc. set_Insert (f x) acc) xs acc)"
  by (induction xs arbitrary: acc) (auto simp: set_Insert_def)

text \<open>The keys that a source contributes.\<close>

definition source_keys :: "bool \<Rightarrow> string \<Rightarrow> (string, string) gomap \<Rightarrow> string \<Rightarrow> (PodProtector \<times> bool) list \<Rightarrow> PodProtectorKey set" where
  "source_keys ident ns labels name evs = {key. KeyNamespace key = ns \<and> SourceName key = (if ident then name else [])
     \<and> (\<exists>raw. current_selectors evs (ns, KeyName key) = Some raw \<and> selects raw (map_of labels))}"

lemma query_loop_correct:
  assumes "slice_sorter srt" "map_ok labels" "distinct out"
    and "\<forall>p \<in> set sources. source_current srt (evs (fst p)) (snd p)"
  shows "\<exists>keys. query_loop srt ident \<lparr>QueryNamespace = ns, NsQuery = labels\<rparr> sources out = Returned (keys, sources)
    \<and> distinct keys \<and> set keys = set out \<union> (\<Union>p \<in> set sources. source_keys ident ns labels (fst p) (evs (fst p)))"
  using assms(3,4)
proof (induction sources arbitrary: out)
  case (Cons p sources)
  obtain name s where p: "p = (name, s)" by (cases p)
  let ?key = "\<lambda>nn. \<lparr>SourceName = if ident then name else [], KeyNamespace = fst nn, KeyName = snd nn\<rparr> :: PodProtectorKey"
  have cur: "source_current srt (evs name) s" using Cons.prems(2) by (simp add: p)
  from source_query[OF assms(1,2) cur, of ns] obtain names where
    query: "Locked_Query (Namespaced_Query (Selectors_Query srt)) (selectorIndex s) \<lparr>QueryNamespace = ns, NsQuery = labels\<rparr>
        = Returned (Inr names, (selectorIndex s)\<lparr>readers := readers (selectorIndex s) + 1\<rparr>)"
    and names: "set names = {(ns', n). ns' = ns \<and> (\<exists>raw. current_selectors (evs name) (ns', n) = Some raw \<and> selects raw (map_of labels))}"
    by blast
  let ?out = "fold (\<lambda>nn acc. set_Insert (?key nn) acc) names out"
  have keys: "?key ` set names = source_keys ident ns labels name (evs name)"
  proof (intro set_eqI iffI)
    fix key assume "key \<in> source_keys ident ns labels name (evs name)"
    then have "(ns, KeyName key) \<in> set names" "key = ?key (ns, KeyName key)"
      by (auto simp: names source_keys_def intro: PodProtectorKey.equality)
    then show "key \<in> ?key ` set names" by blast
  qed (auto simp: names source_keys_def)
  from Cons.IH[of ?out] Cons.prems obtain ks where
    ks: "query_loop srt ident \<lparr>QueryNamespace = ns, NsQuery = labels\<rparr> sources ?out = Returned (ks, sources)" "distinct ks"
      "set ks = set ?out \<union> (\<Union>p \<in> set sources. source_keys ident ns labels (fst p) (evs (fst p)))"
    using set_fold_insert(2)[of out ?key names] by (auto simp: p)
  have released: "RUnlock ((selectorIndex s)\<lparr>readers := readers (selectorIndex s) + 1\<rparr>) = selectorIndex s"
    by (simp add: RUnlock_def)
  have "query_loop srt ident \<lparr>QueryNamespace = ns, NsQuery = labels\<rparr> (p # sources) out = Returned (ks, p # sources)"
    unfolding p query_loop.simps query call.case prod.case sum.case
    unfolding query_iter_insert option.case prod.case ks(1) call.case released by simp
  then show ?case using ks(2,3) by (simp add: set_fold_insert(1) keys p Un_assoc)
qed simp


section \<open>What Get returns\<close>

text \<open>The sources that a key is looked up in.\<close>

definition sources_for :: "PodProtectorKey \<Rightarrow> 'h informerState \<Rightarrow> (string, 'h sourceState) gomap" where
  "sources_for key state = filter (\<lambda>p. isSourceIdent state \<longrightarrow> fst p = SourceName key) (deref_sources state)"

lemma iter_CollectMap_filter: "iter_CollectMap (iter_Filter (iter_FromSlice xs) P) = iter_CollectMap (iter_FromSlice (filter P xs))"
  by (simp add: iter_CollectMap_def iter_Filter_total split_def)

lemma CollectMap_Filter:
  assumes "map_ok m"
  shows "iter_CollectMap (iter_Filter (iter_FromMap m) P) = filter P m"
proof -
  have "foldl (\<lambda>m (k, v). map_put k v m) acc xs = acc @ xs" if "distinct (map fst acc @ map fst xs)"
    for acc xs :: "('a, 'b) gomap"
    using that
  proof (induction xs arbitrary: acc)
    case (Cons x xs)
    then have "map_put (fst x) (snd x) acc = acc @ [x]" by (subst map_put_new) auto
    with Cons show ?case by (cases x) simp
  qed simp
  moreover have "distinct (map fst (filter P m))" using assms by (auto simp: map_ok_def intro: distinct_map_filter)
  ultimately show ?thesis
    by (simp add: iter_FromMap_list iter_CollectMap_filter iter_CollectMap_list)
qed

lemma informer_Get_sources:
  "map_ok (deref_sources state) \<Longrightarrow> informer_Get IsNotFound key state = get_loop IsNotFound key (sources_for key state) None"
  by (simp add: informer_Get_def sources_for_def CollectMap_Filter Let_def)

abbreviation looked_up :: "PodProtectorKey \<Rightarrow> string \<times> 'h sourceState \<Rightarrow> go_error + PodProtector option" where
  "looked_up key p \<equiv> src_lister (snd p) (KeyNamespace key, KeyName key)"

lemma get_loop_error:
  "(\<exists>err. get_loop IsNotFound key sources out = Inl err) \<longleftrightarrow>
     (\<exists>p \<in> set sources. \<exists>e. looked_up key p = Inl e \<and> \<not> IsNotFound e)"
  by (induction IsNotFound key sources out rule: get_loop.induct) (auto split: sum.splits option.splits)

lemma get_loop_result:
  "get_loop IsNotFound key sources out = Inr r \<Longrightarrow>
     (r = None \<longleftrightarrow> out = None \<and> (\<forall>p \<in> set sources. \<forall>ppr. looked_up key p \<noteq> Inr (Some ppr)))
   \<and> (\<forall>ppr. r = Some ppr \<longrightarrow> (out = Some ppr \<or> (\<exists>p \<in> set sources. looked_up key p = Inr (Some ppr)))
        \<and> (\<forall>ppr'. out = Some ppr' \<or> (\<exists>p \<in> set sources. looked_up key p = Inr (Some ppr')) \<longrightarrow>
             CreationTimestamp (PprMeta ppr') \<le> CreationTimestamp (PprMeta ppr)))"
proof (induction IsNotFound key sources out rule: get_loop.induct)
  case (2 IsNotFound key name cellState sources out)
  then show ?case
    by (auto split: sum.splits option.splits if_splits; force)
qed auto


section \<open>Properties\<close>

text \<open>C29: In every reachable state the informers that run are exactly those of the current
  sources, one for each. An update that fails leaves the sources as they were and everything it
  started is cancelled; one that succeeds leaves exactly the sources of the new list, and a source
  that was there before keeps its informer and its index.\<close>

theorem informer_runs_current_sources:
  assumes "informer_reach srt state evs" "map_ok descs" "tryUpdateSourceList descs state = (err, state')"
  shows "running_ids state = ids (deref_sources state) \<and> distinct (map (\<lambda>p. src_id (snd p)) (deref_sources state))
    \<and> running_ids state' = ids (deref_sources state')
    \<and> (case err of
         Some _ \<Rightarrow> inf_sources state' = inf_sources state \<and> running_ids state' = running_ids state
       | None \<Rightarrow> map fst (deref_sources state') = map fst descs
           \<and> (\<forall>name s. map_of (deref_sources state) name = Some s \<and> name \<in> fst ` set descs \<longrightarrow>
                map_of (deref_sources state') name = Some s))"
proof -
  have ok: "inf_ok state" using assms(1) by (rule informer_reach_inf_ok)
  have "inf_ok state'" using informer_reach.update[OF assms] by (rule informer_reach_inf_ok)
  moreover have "(case err of
         Some _ \<Rightarrow> inf_sources state' = inf_sources state \<and> running_ids state' = running_ids state
       | None \<Rightarrow> map fst (deref_sources state') = map fst descs
           \<and> (\<forall>name s. map_of (deref_sources state) name = Some s \<and> name \<in> fst ` set descs \<longrightarrow>
                map_of (deref_sources state') name = Some s))"
  proof (cases err)
    case None
    then show ?thesis using update_success(1,3)[OF ok assms(2) assms(3)[unfolded None]] by simp
  next
    case (Some e)
    then show ?thesis using update_failure[OF ok assms(3)[unfolded Some]] by simp
  qed
  ultimately show ?thesis using ok by (simp add: inf_ok_iff)
qed

text \<open>The result of a query in a reachable state.\<close>

lemma informer_Query_keys:
  assumes "informer_reach srt state evs" "slice_sorter srt" "map_ok labels"
  shows "\<exists>keys. informer_Query srt ns labels state = Returned (keys, state) \<and> distinct keys
    \<and> set keys = {key. KeyNamespace key = ns \<and> (\<exists>p \<in> set (deref_sources state).
          SourceName key = (if isSourceIdent state then fst p else [])
          \<and> (\<exists>raw. current_selectors (evs (fst p)) (ns, KeyName key) = Some raw \<and> selects raw (map_of labels)))}"
proof -
  have ok: "map_ok (deref_sources state)" using informer_reach_inf_ok[OF assms(1)] by (simp add: inf_ok_def)
  have "source_current srt (evs (fst p)) (snd p)" if "p \<in> set (deref_sources state)" for p
    using informer_reach_current[OF assms(1), of "fst p" "snd p"] that map_ok_mem[OF ok, of "fst p" "snd p"] by simp
  then have cur: "\<forall>p \<in> set (deref_sources state). source_current srt (evs (fst p)) (snd p)" ..
  have "distinct ([] :: PodProtectorKey list)" by simp
  from query_loop_correct[where sources = "deref_sources state" and evs = evs and ident = "isSourceIdent state" and ns = ns,
      OF assms(2,3) this cur] obtain keys where keys: "query_loop srt (isSourceIdent state) \<lparr>QueryNamespace = ns, NsQuery = labels\<rparr> (deref_sources state) []
      = Returned (keys, deref_sources state)" "distinct keys"
    "set keys = set [] \<union> (\<Union>p \<in> set (deref_sources state). source_keys (isSourceIdent state) ns labels (fst p) (evs (fst p)))"
    by (elim exE conjE)
  have "state\<lparr>inf_sources := map_option (\<lambda>_. deref_sources state) (inf_sources state)\<rparr> = state"
    by (cases "inf_sources state") (simp_all add: deref_sources_def)
  then have "informer_Query srt ns labels state = Returned (keys, state)"
    by (simp add: informer_Query_def keys(1))
  moreover have "set keys = {key. KeyNamespace key = ns \<and> (\<exists>p \<in> set (deref_sources state).
          SourceName key = (if isSourceIdent state then fst p else [])
          \<and> (\<exists>raw. current_selectors (evs (fst p)) (ns, KeyName key) = Some raw \<and> selects raw (map_of labels)))}"
    unfolding keys(3) source_keys_def list.set by blast
  ultimately show ?thesis using keys(2) by blast
qed

text \<open>The PodProtectors that a source holds after its events, by name.\<close>

fun ppr_object :: "PodProtector \<times> bool \<Rightarrow> (string \<times> string, PodProtector) index_op" where
  "ppr_object (ppr, True) = OpTrack (Namespace (PprMeta ppr), Name (PprMeta ppr)) ppr"
| "ppr_object (ppr, False) = OpUntrack (Namespace (PprMeta ppr), Name (PprMeta ppr))"

definition current_pprs :: "(PodProtector \<times> bool) list \<Rightarrow> string \<times> string \<Rightarrow> PodProtector option" where
  "current_pprs evs = final_items Some (map ppr_object evs) Map.empty"

text \<open>What the documentation asks of a PodProtector: its aggregation selector, which is its selector if
  unspecified, selects at least the pods that its selector selects. The selectors without repetitions are
  those that the index supports.\<close>

definition valid_protector :: "PodProtector \<Rightarrow> bool" where
  "valid_protector ppr \<longleftrightarrow> supported (GetAggregationSelector ppr)
     \<and> (\<forall>labels. selects (Selector (Spec ppr)) labels \<longrightarrow> selects (GetAggregationSelector ppr) labels)"

definition valid_events :: "(string \<Rightarrow> (PodProtector \<times> bool) list) \<Rightarrow> 'h informerState \<Rightarrow> bool" where
  "valid_events evs state \<longleftrightarrow>
     (\<forall>p \<in> set (deref_sources state). \<forall>ev \<in> set (evs (fst p)). snd ev \<longrightarrow> valid_protector (fst ev))"

lemma current_selectors_pprs:
  assumes "\<forall>ev \<in> set evs. snd ev \<longrightarrow> valid_protector (fst ev)"
  shows "current_selectors evs nn = map_option GetAggregationSelector (current_pprs evs nn)"
proof -
  have "list_all (op_good supported) (map ppr_op evs)"
    unfolding list_all_iff
  proof
    fix op assume "op \<in> set (map ppr_op evs)"
    then obtain ppr present where "(ppr, present) \<in> set evs" "op = ppr_op (ppr, present)" by auto
    then show "op_good supported op" using assms by (cases present) (auto simp: valid_protector_def)
  qed
  moreover have "final_items Some (map ppr_op evs) (\<lambda>n. map_option GetAggregationSelector (m n)) nn
      = map_option GetAggregationSelector (final_items Some (map ppr_object evs) m nn)" for m
  proof (induction evs arbitrary: m)
    case (Cons ev evs)
    have upd: "(\<lambda>n. map_option GetAggregationSelector (m n))(k := map_option GetAggregationSelector x) =
        (\<lambda>n. map_option GetAggregationSelector ((m(k := x)) n))" for k x by (simp add: fun_eq_iff)
    show ?case
    proof (cases ev)
      case (Pair ppr present)
      then show ?thesis
        using Cons.IH upd[of _ "Some ppr"] upd[of _ None] by (cases present) (simp_all del: fun_upd_apply)
    qed
  qed simp
  from this[of Map.empty] show ?thesis
    using calculation by (simp add: current_selectors_def current_pprs_def final_items_supported)
qed

lemma current_pprs_valid:
  assumes "valid_events evs state" "name \<in> fst ` set (deref_sources state)" "current_pprs (evs name) nn = Some ppr"
  shows "valid_protector ppr"
proof -
  have "\<exists>ev \<in> set es. snd ev \<and> fst ev = ppr" if "final_items Some (map ppr_object es) m nn = Some ppr" "m nn \<noteq> Some ppr" for es m
    using that
  proof (induction es arbitrary: m)
    case (Cons ev es)
    obtain p present where ev: "ev = (p, present)" by (cases ev)
    show ?case
    proof (cases "present \<and> p = ppr")
      case False
      then show ?thesis
        using Cons.prems Cons.IH[of "m((Namespace (PprMeta p), Name (PprMeta p)) := if present then Some p else None)"]
        by (cases present) (fastforce simp: ev fun_upd_def split: if_splits)+
    qed (simp add: ev)
  qed simp
  then show ?thesis using assms by (fastforce simp: current_pprs_def valid_events_def)
qed

definition source_key :: "'h informerState \<Rightarrow> string \<Rightarrow> string \<times> string \<Rightarrow> PodProtectorKey" where
  "source_key state name nn = \<lparr>SourceName = (if isSourceIdent state then name else []), KeyNamespace = fst nn, KeyName = snd nn\<rparr>"

lemma informer_Query_pprs:
  assumes "informer_reach srt state evs" "slice_sorter srt" "map_ok labels" "valid_events evs state"
  shows "\<exists>keys. informer_Query srt ns labels state = Returned (keys, state) \<and> distinct keys
    \<and> set keys = {source_key state name (ns, n) | name n. \<exists>ppr. name \<in> fst ` set (deref_sources state)
         \<and> current_pprs (evs name) (ns, n) = Some ppr \<and> selects (GetAggregationSelector ppr) (map_of labels)}"
proof -
  obtain keys where keys: "informer_Query srt ns labels state = Returned (keys, state)" "distinct keys"
    "set keys = {key. KeyNamespace key = ns \<and> (\<exists>p \<in> set (deref_sources state).
          SourceName key = (if isSourceIdent state then fst p else [])
          \<and> (\<exists>raw. current_selectors (evs (fst p)) (ns, KeyName key) = Some raw \<and> selects raw (map_of labels)))}"
    using informer_Query_keys[OF assms(1-3), of ns] by blast
  have sel: "current_selectors (evs (fst p)) nn = map_option GetAggregationSelector (current_pprs (evs (fst p)) nn)"
    if "p \<in> set (deref_sources state)" for p nn
    by (rule current_selectors_pprs) (use assms(4) that in \<open>auto simp: valid_events_def\<close>)
  have key: "key = source_key state (fst p) (ns, KeyName key)"
    if "KeyNamespace key = ns" "SourceName key = (if isSourceIdent state then fst p else [])" for key and p :: "string \<times> 'a sourceState"
    using that by (cases key) (simp add: source_key_def)
  have "set keys = {source_key state name (ns, n) | name n. \<exists>ppr. name \<in> fst ` set (deref_sources state)
         \<and> current_pprs (evs name) (ns, n) = Some ppr \<and> selects (GetAggregationSelector ppr) (map_of labels)}" (is "_ = ?K")
  proof (intro set_eqI iffI)
    fix key assume "key \<in> set keys"
    then obtain p raw where p: "KeyNamespace key = ns" "p \<in> set (deref_sources state)"
      "SourceName key = (if isSourceIdent state then fst p else [])"
      "current_selectors (evs (fst p)) (ns, KeyName key) = Some raw" "selects raw (map_of labels)"
      unfolding keys(3) by blast
    then obtain ppr where "current_pprs (evs (fst p)) (ns, KeyName key) = Some ppr" "raw = GetAggregationSelector ppr"
      using sel[OF p(2)] by auto
    then show "key \<in> ?K" using key[OF p(1,3)] p(2,5) by blast
  next
    fix key assume "key \<in> ?K"
    then obtain name n ppr where "key = source_key state name (ns, n)" "name \<in> fst ` set (deref_sources state)"
      "current_pprs (evs name) (ns, n) = Some ppr" "selects (GetAggregationSelector ppr) (map_of labels)" by blast
    then show "key \<in> set keys" unfolding keys(3) using sel by (auto simp: source_key_def)
  qed
  then show ?thesis using keys(1,2) by blast
qed


text \<open>\<open>Get\<close> fails exactly when a source that is looked at fails with an
  error other than not-found. Otherwise it returns the PodProtector of the newest creation time among
  those sources, and none when no source has one. Only the source of the key is looked at when sources
  are identifying.\<close>

theorem informer_Get_newest:
  assumes "informer_reach srt state evs"
  shows "case informer_Get IsNotFound key state of
      Inl _ \<Rightarrow> \<exists>p \<in> set (sources_for key state). \<exists>e. looked_up key p = Inl e \<and> \<not> IsNotFound e
    | Inr r \<Rightarrow> (\<forall>p \<in> set (sources_for key state). \<forall>e. looked_up key p = Inl e \<longrightarrow> IsNotFound e)
        \<and> (case r of
             None \<Rightarrow> \<forall>p \<in> set (sources_for key state). \<forall>ppr. looked_up key p \<noteq> Inr (Some ppr)
           | Some ppr \<Rightarrow> (\<exists>p \<in> set (sources_for key state). looked_up key p = Inr (Some ppr))
               \<and> (\<forall>p \<in> set (sources_for key state). \<forall>ppr'. looked_up key p = Inr (Some ppr') \<longrightarrow>
                    CreationTimestamp (PprMeta ppr') \<le> CreationTimestamp (PprMeta ppr)))"
proof -
  have "map_ok (deref_sources state)" using informer_reach_inf_ok[OF assms] by (simp add: inf_ok_def)
  note get = informer_Get_sources[OF this, of IsNotFound key]
  show ?thesis
  proof (cases "informer_Get IsNotFound key state")
    case (Inl err)
    then show ?thesis using get_loop_error[of IsNotFound key "sources_for key state" None] get by simp
  next
    case (Inr r)
    then have "\<not> (\<exists>err. get_loop IsNotFound key (sources_for key state) None = Inl err)" using get by simp
    moreover have "get_loop IsNotFound key (sources_for key state) None = Inr r" using Inr get by simp
    ultimately show ?thesis
      using get_loop_result[of IsNotFound key "sources_for key state" None r]
      unfolding Inr sum.case get_loop_error by (cases r) auto
  qed
qed


subsection \<open>A sample run\<close>

definition sample_lister :: "gotime \<Rightarrow> pprLister" where
  "sample_lister created nn = Inr (Some (sample_ppr 3 [] \<lparr>PprMeta := sample_meta\<lparr>CreationTimestamp := created\<rparr>\<rparr>))"

definition sample_descs :: "(string, SourceDesc) gomap" where
  "sample_descs = [(''a'', (None, sample_lister 1)), (''b'', (None, sample_lister 2))]"

definition sample_started :: "nat informerState" where
  "sample_started = snd (tryUpdateSourceList sample_descs (newInformerState True))"

definition sample_informer :: "nat informerState" where
  "sample_informer = (case deliver insertion_sort ''a'' (sample_ppr 3 [], True) sample_started of
     Returned (_, state) \<Rightarrow> state | _ \<Rightarrow> sample_started)"

lemma sample_op_good: "op_good indexable (ppr_op (sample_ppr 3 [], True))"
  by (simp add: indexable_def sample_ppr_def GetAggregationSelector_def CreateSelector_def Let_def zero_selector_def
      addSelectorExprToSelector_def sort_selector_def ByKey_def selector_good_def selector_sorted_def)


lemma sample_informer_reach:
  "informer_reach insertion_sort sample_informer ((\<lambda>_. [])(''a'' := [(sample_ppr 3 [], True)]))"
proof -
  have "informer_reach insertion_sort (newInformerState True :: nat informerState) (\<lambda>_. [])" by (rule informer_reach.init)
  moreover have "map_ok sample_descs" by (simp add: sample_descs_def)
  moreover have "tryUpdateSourceList sample_descs (newInformerState True :: nat informerState) =
      (fst (tryUpdateSourceList sample_descs (newInformerState True :: nat informerState)), sample_started)" by (simp add: sample_started_def)
  ultimately have "informer_reach insertion_sort sample_started (\<lambda>_. [])"
    using informer_reach.update[of insertion_sort "newInformerState True" "\<lambda>_. []"] by simp
  moreover have "deliver insertion_sort ''a'' (sample_ppr 3 [], True) sample_started = Returned ([], sample_informer)"
  proof -
    have "(case deliver insertion_sort ''a'' (sample_ppr 3 [], True) sample_started of
        Returned (calls, state) \<Rightarrow> calls = [] | _ \<Rightarrow> False)" by code_simp
    then show ?thesis by (auto simp: sample_informer_def split: call.splits)
  qed
  ultimately show ?thesis using informer_reach.event[OF _ sample_op_good] by fastforce
qed

text \<open>The theorem at an update that removes the second of two sources.\<close>

theorem informer_runs_current_sources_witness:
  "map_ok (take 1 sample_descs) \<and> running_ids sample_informer = {0, 1}
   \<and> running_ids (snd (tryUpdateSourceList (take 1 sample_descs) sample_informer)) = {0}"
proof -
  let ?upd = "tryUpdateSourceList (take 1 sample_descs) sample_informer"
  have ok: "map_ok (take 1 sample_descs)" by (simp add: sample_descs_def)
  have "map (\<lambda>p. src_id (snd p)) (deref_sources sample_informer) = [0, 1]"
    "map (\<lambda>p. src_id (snd p)) (deref_sources (snd ?upd)) = [0]" by code_simp+
  then have "ids (deref_sources sample_informer) = {0, 1}" "ids (deref_sources (snd ?upd)) = {0}"
    by (metis list.set_map list.simps(15) empty_set)+
  then show ?thesis
    using informer_runs_current_sources[OF sample_informer_reach ok, of "fst ?upd" "snd ?upd"] ok by simp
qed

text \<open>The theorem at a source with one PodProtector.\<close>

lemma sample_valid: "valid_events ((\<lambda>_. [])(''a'' := [(sample_ppr 3 [], True)])) state"
  by (auto simp: valid_events_def valid_protector_def supported_def known_operators_def sample_ppr_def
      GetAggregationSelector_def split: if_splits)


text \<open>The theorem at a key of the second source.\<close>

theorem informer_Get_newest_witness:
  "informer_Get (\<lambda>_. True) \<lparr>SourceName = ''b'', KeyNamespace = ''default'', KeyName = ''web''\<rparr> sample_informer =
     Inr (Some (sample_ppr 3 [] \<lparr>PprMeta := sample_meta\<lparr>CreationTimestamp := 2\<rparr>\<rparr>))
   \<and> list_ex (\<lambda>p. looked_up \<lparr>SourceName = ''b'', KeyNamespace = ''default'', KeyName = ''web''\<rparr> p =
        Inr (Some (sample_ppr 3 [] \<lparr>PprMeta := sample_meta\<lparr>CreationTimestamp := 2\<rparr>\<rparr>)))
      (sources_for \<lparr>SourceName = ''b'', KeyNamespace = ''default'', KeyName = ''web''\<rparr> sample_informer)"
proof -
  let ?key = "\<lparr>SourceName = ''b'', KeyNamespace = ''default'', KeyName = ''web''\<rparr>"
  have val: "informer_Get (\<lambda>_. True) ?key sample_informer =
      Inr (Some (sample_ppr 3 [] \<lparr>PprMeta := sample_meta\<lparr>CreationTimestamp := 2\<rparr>\<rparr>))" by code_simp
  show ?thesis
    using informer_Get_newest[OF sample_informer_reach, where IsNotFound = "\<lambda>_. True" and key = ?key] unfolding val sum.case option.case list_ex_iff
    by simp
qed

end
