(* ===== verification/Worker.thy ===== *)
theory Worker
  imports Errors
begin

text \<open>
  The reconcile workers of \<open>util/worker/worker.go\<close> and \<open>prereq.go\<close>: the
  configuration of a worker, its start, and the loop that takes items from a rate-limited queue.
  The queue is client-go's, which is an argument: its operations are a record, what its documentation
  promises of them is \<open>workqueue_laws\<close>. \<open>apierrors.IsConflict\<close> and the
  executor are arguments too.
\<close>

section \<open>Configuration\<close>

text \<open>A prerequisite is what \<open>Wait\<close> returns when the context ends or the cache has
  synced, and what \<open>IsReady\<close> returns now.\<close>

record Prereq =
  prereq_Wait :: bool
  IsReady :: bool

text \<open>\<open>WaitForCacheSync\<close> returns once the cache has synced, or with false when the context
  is done first.\<close>

definition HasSyncedPrereq :: "bool \<Rightarrow> bool \<Rightarrow> Prereq" where
  "HasSyncedPrereq syncedInTime hasSynced = \<lparr>prereq_Wait = syncedInTime, IsReady = hasSynced\<rparr>"

record WorkerOptions =
  WorkerCount :: nat
  MaxDelay :: int
  MaxDelayConflict :: int

record ('x, 'c) WorkerState =
  executor :: "'x option"
  prereqs :: "(string, Prereq) gomap"
  beforeStart :: "('c \<Rightarrow> go_error + 'c) option"
  started :: bool
  completion :: nat

definition new_worker :: "('x, 'c) WorkerState" where
  "new_worker = \<lparr>executor = None, prereqs = [], beforeStart = None, started = False, completion = 0\<rparr>"

text \<open>Setting either twice panics.\<close>

definition SetExecutor :: "'x \<Rightarrow> (string, Prereq) gomap \<Rightarrow> ('x, 'c) WorkerState \<Rightarrow> ('x, 'c) WorkerState option" where
  "SetExecutor exec reqs state =
     (if executor state \<noteq> None then None else Some (state\<lparr>executor := Some exec, prereqs := reqs\<rparr>))"

definition SetBeforeStart :: "('c \<Rightarrow> go_error + 'c) \<Rightarrow> ('x, 'c) WorkerState \<Rightarrow> ('x, 'c) WorkerState option" where
  "SetBeforeStart before state =
     (if beforeStart state \<noteq> None then None else Some (state\<lparr>beforeStart := Some before\<rparr>))"

text \<open>The outcome of \<open>start\<close>: the goroutine panics, returns before it has started a
  worker, or starts the workers in a context with the conflict back-off it passes to them. The queue is
  shut down when that context is done.\<close>

datatype ('x, 'c) start_outcome = StartPanics | StartReturns | StartRuns 'x 'c "int option"

definition worker_start :: "WorkerOptions \<Rightarrow> 'c \<Rightarrow> ('x, 'c) WorkerState \<Rightarrow> ('x, 'c) start_outcome \<times> ('x, 'c) WorkerState" where
  "worker_start options ctx state =
     (case executor state of
        None \<Rightarrow> (StartPanics, state)
      | Some exec \<Rightarrow>
          (case (case beforeStart state of None \<Rightarrow> Inr ctx | Some before \<Rightarrow> before ctx) of
             Inl err \<Rightarrow> (StartReturns, state)
           | Inr runCtx \<Rightarrow>
               (let state1 = state\<lparr>started := True\<rparr>
                in if \<not> list_all (\<lambda>(name, prereq). prereq_Wait prereq) (prereqs state) then (StartReturns, state1)
                   else (StartRuns exec runCtx
                           (if MaxDelayConflict options \<noteq> MaxDelay options then Some (MaxDelayConflict options) else None),
                         state1\<lparr>completion := completion state1 + WorkerCount options\<rparr>))))"

definition HealthChecks :: "('x, 'c) WorkerState \<Rightarrow> (string \<times> go_error option) list" where
  "HealthChecks state = map (\<lambda>(name, prereq). (name,
     if \<not> started state then None
     else if \<not> IsReady prereq
     then Some (TagErrorf ''PrereqNotReady'' (''prerequisite '' @ name @ '' returned false''))
     else None)) (prereqs state)"

section \<open>The loop of a worker\<close>

text \<open>\<open>Get\<close> is \<open>None\<close> while it waits; otherwise the item and the shut-down
  flag.\<close>

record ('q, 'i) QueueOps =
  q_Add :: "'i \<Rightarrow> 'q \<Rightarrow> 'q"
  q_AddAfter :: "'i \<Rightarrow> int \<Rightarrow> 'q \<Rightarrow> 'q"
  q_AddRateLimited :: "'i \<Rightarrow> 'q \<Rightarrow> 'q"
  q_Get :: "'q \<Rightarrow> (('i \<times> bool) \<times> 'q) option"
  q_Done :: "'i \<Rightarrow> 'q \<Rightarrow> 'q"
  q_ShutDown :: "'q \<Rightarrow> 'q"

definition Enqueue :: "('q, 'i) QueueOps \<Rightarrow> 'i \<Rightarrow> 'q \<Rightarrow> 'q" where
  "Enqueue ops item q = q_Add ops item q"

definition EnqueueDelayed :: "('q, 'i) QueueOps \<Rightarrow> 'i \<Rightarrow> int \<Rightarrow> 'q \<Rightarrow> 'q" where
  "EnqueueDelayed ops item delay q = q_AddAfter ops item delay q"

text \<open>What \<open>spinOnce\<close> does once the executor has returned, up to the deferred
  \<open>Done\<close>.\<close>

definition spin_finish :: "('q, 'i) QueueOps \<Rightarrow> (go_error \<Rightarrow> bool) \<Rightarrow> int option \<Rightarrow> 'i \<Rightarrow> go_error option \<Rightarrow> 'q \<Rightarrow> 'q" where
  "spin_finish ops IsConflict conflictBackoff queueItem result q =
     q_Done ops queueItem
       (case result of
          None \<Rightarrow> q
        | Some err \<Rightarrow>
            (let q1 = q_AddRateLimited ops queueItem q
             in case conflictBackoff of
                  None \<Rightarrow> q1
                | Some backoff \<Rightarrow> if IsConflict err then q_AddAfter ops queueItem backoff q1 else q1))"

definition spinOnce :: "('q, 'i) QueueOps \<Rightarrow> (go_error \<Rightarrow> bool) \<Rightarrow> int option \<Rightarrow> ('i \<Rightarrow> 'w \<Rightarrow> go_error option \<times> 'w) \<Rightarrow>
    'i \<Rightarrow> 'q \<times> 'w \<Rightarrow> 'q \<times> 'w" where
  "spinOnce ops IsConflict conflictBackoff exec queueItem st =
     (case exec queueItem (snd st) of (err, w) \<Rightarrow>
        (spin_finish ops IsConflict conflictBackoff queueItem err (fst st), w))"

text \<open>A worker alone. \<open>None\<close> is a worker that still waits or has not ended within the
  fuel; the returned state is that at its end.\<close>

fun runWorker :: "nat \<Rightarrow> ('q, 'i) QueueOps \<Rightarrow> (go_error \<Rightarrow> bool) \<Rightarrow> int option \<Rightarrow> ('i \<Rightarrow> 'w \<Rightarrow> go_error option \<times> 'w) \<Rightarrow>
    'q \<times> 'w \<Rightarrow> ('q \<times> 'w) option" where
  "runWorker 0 ops IsConflict conflictBackoff exec st = None"
| "runWorker (Suc fuel) ops IsConflict conflictBackoff exec st =
     (case q_Get ops (fst st) of
        None \<Rightarrow> None
      | Some ((queueItem, shutdown), q) \<Rightarrow>
          if shutdown then Some (q, snd st)
          else runWorker fuel ops IsConflict conflictBackoff exec
                 (spinOnce ops IsConflict conflictBackoff exec queueItem (q, snd st)))"

section \<open>What the queue promises\<close>

text \<open>\<open>queued\<close> are the items that will be handed out, at once or after a delay,
  \<open>processing\<close> those that were handed out and are not done, \<open>failures\<close> the
  counter behind the rate limit of an item, \<open>closing\<close> whether the queue shuts down.\<close>

record ('q, 'i) QueueView =
  queued :: "'q \<Rightarrow> 'i set"
  processing :: "'q \<Rightarrow> 'i set"
  failures :: "'q \<Rightarrow> 'i \<Rightarrow> nat"
  closing :: "'q \<Rightarrow> bool"

definition same_rest :: "('q, 'i) QueueView \<Rightarrow> 'q \<Rightarrow> 'q \<Rightarrow> bool" where
  "same_rest v q q' \<longleftrightarrow> processing v q' = processing v q \<and> failures v q' = failures v q \<and> closing v q' = closing v q"

definition workqueue_laws :: "('q, 'i) QueueOps \<Rightarrow> ('q, 'i) QueueView \<Rightarrow> bool" where
  "workqueue_laws ops v \<longleftrightarrow>
     (\<forall>i q. same_rest v q (q_Add ops i q) \<and> (\<not> closing v q \<longrightarrow> queued v (q_Add ops i q) = insert i (queued v q)))
   \<and> (\<forall>i d q. same_rest v q (q_AddAfter ops i d q) \<and> (\<not> closing v q \<longrightarrow> queued v (q_AddAfter ops i d q) = insert i (queued v q)))
   \<and> (\<forall>i q. processing v (q_AddRateLimited ops i q) = processing v q \<and> closing v (q_AddRateLimited ops i q) = closing v q
        \<and> failures v (q_AddRateLimited ops i q) = (failures v q)(i := Suc (failures v q i))
        \<and> (\<not> closing v q \<longrightarrow> queued v (q_AddRateLimited ops i q) = insert i (queued v q)))
   \<and> (\<forall>q i q'. q_Get ops q = Some ((i, False), q') \<longrightarrow>
        i \<in> queued v q \<and> i \<notin> processing v q \<and> queued v q - {i} \<subseteq> queued v q' \<and> queued v q' \<subseteq> queued v q
        \<and> processing v q' = insert i (processing v q) \<and> failures v q' = failures v q \<and> closing v q' = closing v q)
   \<and> (\<forall>q i q'. q_Get ops q = Some ((i, True), q') \<longrightarrow> closing v q \<and> q' = q)
   \<and> (\<forall>i q. queued v (q_Done ops i q) = queued v q \<and> processing v (q_Done ops i q) = processing v q - {i}
        \<and> failures v (q_Done ops i q) = failures v q \<and> closing v (q_Done ops i q) = closing v q)
   \<and> (\<forall>q. closing v (q_ShutDown ops q) \<and> queued v (q_ShutDown ops q) = queued v q
        \<and> processing v (q_ShutDown ops q) = processing v q \<and> failures v (q_ShutDown ops q) = failures v q)"


section \<open>The pool of workers\<close>

text \<open>The workers run concurrently: each is idle in \<open>Get\<close>, executes an item, or has
  exited. Two ghost components record what the run owes: \<open>pending\<close> are the items that were
  enqueued, or failed, after their last execution began, and \<open>fails\<close> counts the failed
  executions of each item.\<close>

record ('q, 'i) Pool =
  pool_queue :: 'q
  idle :: nat
  executing :: "'i list"
  exited :: nat
  pending :: "'i set"
  fails :: "'i \<Rightarrow> nat"

definition new_pool :: "nat \<Rightarrow> 'q \<Rightarrow> ('q, 'i) Pool" where
  "new_pool n q = \<lparr>pool_queue = q, idle = n, executing = [], exited = 0, pending = {}, fails = (\<lambda>_. 0)\<rparr>"

inductive pool_step :: "('q, 'i) QueueOps \<Rightarrow> (go_error \<Rightarrow> bool) \<Rightarrow> int option \<Rightarrow> ('q, 'i) Pool \<Rightarrow> ('q, 'i) Pool \<Rightarrow> bool"
  for ops IsConflict backoff where
  enqueue: "pool_step ops IsConflict backoff st
     (st\<lparr>pool_queue := Enqueue ops item (pool_queue st), pending := insert item (pending st)\<rparr>)"
| enqueue_delayed: "pool_step ops IsConflict backoff st
     (st\<lparr>pool_queue := EnqueueDelayed ops item delay (pool_queue st), pending := insert item (pending st)\<rparr>)"
| take: "0 < idle st \<Longrightarrow> q_Get ops (pool_queue st) = Some ((item, False), q) \<Longrightarrow> pool_step ops IsConflict backoff st
     (st\<lparr>pool_queue := q, idle := idle st - 1, executing := item # executing st, pending := pending st - {item}\<rparr>)"
| finish: "item \<in> set (executing st) \<Longrightarrow> pool_step ops IsConflict backoff st
     (st\<lparr>pool_queue := spin_finish ops IsConflict backoff item result (pool_queue st), idle := Suc (idle st),
         executing := remove1 item (executing st),
         pending := (case result of None \<Rightarrow> pending st | Some _ \<Rightarrow> insert item (pending st)),
         fails := (case result of None \<Rightarrow> fails st | Some _ \<Rightarrow> (fails st)(item := Suc (fails st item)))\<rparr>)"
| exit: "0 < idle st \<Longrightarrow> q_Get ops (pool_queue st) = Some ((item, True), q) \<Longrightarrow> pool_step ops IsConflict backoff st
     (st\<lparr>pool_queue := q, idle := idle st - 1, exited := Suc (exited st)\<rparr>)"
| shutdown: "pool_step ops IsConflict backoff st (st\<lparr>pool_queue := q_ShutDown ops (pool_queue st)\<rparr>)"

inductive_simps pool_step_iff: "pool_step ops IsConflict backoff st st'"

definition fresh_queue :: "('q, 'i) QueueView \<Rightarrow> 'q \<Rightarrow> bool" where
  "fresh_queue v q \<longleftrightarrow> queued v q = {} \<and> processing v q = {} \<and> failures v q = (\<lambda>_. 0) \<and> \<not> closing v q"

definition pool_inv :: "('q, 'i) QueueView \<Rightarrow> nat \<Rightarrow> ('q, 'i) Pool \<Rightarrow> bool" where
  "pool_inv v n st \<longleftrightarrow> distinct (executing st) \<and> set (executing st) = processing v (pool_queue st)
     \<and> idle st + length (executing st) + exited st = n
     \<and> (0 < exited st \<longrightarrow> closing v (pool_queue st))
     \<and> (\<not> closing v (pool_queue st) \<longrightarrow> pending st \<subseteq> queued v (pool_queue st))
     \<and> failures v (pool_queue st) = fails st"

lemma pool_inv_new: "fresh_queue v q \<Longrightarrow> pool_inv v n (new_pool n q)"
  by (simp add: pool_inv_def new_pool_def fresh_queue_def)

lemma queue_laws:
  assumes "workqueue_laws ops v"
  shows "same_rest v q (q_Add ops i q)" "same_rest v q (q_AddAfter ops i d q)"
    and "\<not> closing v q \<Longrightarrow> queued v (q_Add ops i q) = insert i (queued v q)"
    and "\<not> closing v q \<Longrightarrow> queued v (q_AddAfter ops i d q) = insert i (queued v q)"
    and "processing v (q_AddRateLimited ops i q) = processing v q" "closing v (q_AddRateLimited ops i q) = closing v q"
    and "failures v (q_AddRateLimited ops i q) = (failures v q)(i := Suc (failures v q i))"
    and "\<not> closing v q \<Longrightarrow> queued v (q_AddRateLimited ops i q) = insert i (queued v q)"
    and "q_Get ops q = Some ((i, False), q') \<Longrightarrow> i \<in> queued v q \<and> i \<notin> processing v q \<and> queued v q - {i} \<subseteq> queued v q'
        \<and> queued v q' \<subseteq> queued v q \<and> processing v q' = insert i (processing v q) \<and> failures v q' = failures v q
        \<and> closing v q' = closing v q"
    and "q_Get ops q = Some ((i, True), q') \<Longrightarrow> closing v q \<and> q' = q"
    and "queued v (q_Done ops i q) = queued v q" "processing v (q_Done ops i q) = processing v q - {i}"
    and "failures v (q_Done ops i q) = failures v q" "closing v (q_Done ops i q) = closing v q"
    and "closing v (q_ShutDown ops q)" "processing v (q_ShutDown ops q) = processing v q"
    and "failures v (q_ShutDown ops q) = failures v q"
proof -
  note all = assms[unfolded workqueue_laws_def]
  note add = all[THEN conjunct1] and after = all[THEN conjunct2, THEN conjunct1]
    and limited = all[THEN conjunct2, THEN conjunct2, THEN conjunct1]
  note rest = all[THEN conjunct2, THEN conjunct2, THEN conjunct2]
  note get = rest[THEN conjunct1] and closed = rest[THEN conjunct2, THEN conjunct1]
  note finishing = rest[THEN conjunct2, THEN conjunct2, THEN conjunct1] and shut = rest[THEN conjunct2, THEN conjunct2, THEN conjunct2]
  show "same_rest v q (q_Add ops i q)" "\<not> closing v q \<Longrightarrow> queued v (q_Add ops i q) = insert i (queued v q)"
    using add by simp_all
  show "same_rest v q (q_AddAfter ops i d q)" "\<not> closing v q \<Longrightarrow> queued v (q_AddAfter ops i d q) = insert i (queued v q)"
    using after by simp_all
  show "processing v (q_AddRateLimited ops i q) = processing v q" "closing v (q_AddRateLimited ops i q) = closing v q"
    "failures v (q_AddRateLimited ops i q) = (failures v q)(i := Suc (failures v q i))"
    "\<not> closing v q \<Longrightarrow> queued v (q_AddRateLimited ops i q) = insert i (queued v q)"
    using limited by simp_all
  show "q_Get ops q = Some ((i, False), q') \<Longrightarrow> i \<in> queued v q \<and> i \<notin> processing v q \<and> queued v q - {i} \<subseteq> queued v q'
        \<and> queued v q' \<subseteq> queued v q \<and> processing v q' = insert i (processing v q) \<and> failures v q' = failures v q
        \<and> closing v q' = closing v q"
    by (rule get[rule_format])
  show "q_Get ops q = Some ((i, True), q') \<Longrightarrow> closing v q \<and> q' = q" by (rule closed[rule_format])
  show "queued v (q_Done ops i q) = queued v q" "processing v (q_Done ops i q) = processing v q - {i}"
    "failures v (q_Done ops i q) = failures v q" "closing v (q_Done ops i q) = closing v q"
    using finishing by simp_all
  show "closing v (q_ShutDown ops q)" "processing v (q_ShutDown ops q) = processing v q"
    "failures v (q_ShutDown ops q) = failures v q"
    using shut by simp_all
qed

lemma spin_finish_view:
  assumes "workqueue_laws ops v"
  shows "processing v (spin_finish ops IsConflict backoff item result q) = processing v q - {item}"
    and "closing v (spin_finish ops IsConflict backoff item result q) = closing v q"
    and "failures v (spin_finish ops IsConflict backoff item result q) =
      (case result of None \<Rightarrow> failures v q | Some _ \<Rightarrow> (failures v q)(item := Suc (failures v q item)))"
    and "\<not> closing v q \<Longrightarrow> queued v (spin_finish ops IsConflict backoff item result q) =
      (case result of None \<Rightarrow> queued v q | Some _ \<Rightarrow> insert item (queued v q))"
  using queue_laws[OF assms] by (auto simp: spin_finish_def same_rest_def Let_def split: option.splits)

lemma pool_inv_step:
  assumes "workqueue_laws ops v" "pool_inv v n st" "pool_step ops IsConflict backoff st st'"
  shows "pool_inv v n st'"
  using assms(3,2)
proof (cases rule: pool_step.cases)
  case (enqueue item)
  then show ?thesis
    using assms(2) queue_laws(1,3)[OF assms(1), of "pool_queue st" item]
    by (auto simp: pool_inv_def same_rest_def Enqueue_def)
next
  case (enqueue_delayed item delay)
  then show ?thesis
    using assms(2) queue_laws(2,4)[OF assms(1), of "pool_queue st" item delay]
    by (auto simp: pool_inv_def same_rest_def EnqueueDelayed_def)
next
  case (take item q)
  then show ?thesis
    using assms(2) queue_laws(9)[OF assms(1) take(3)] by (auto simp: pool_inv_def)
next
  case (finish item result)
  then show ?thesis
    using assms(2) spin_finish_view[OF assms(1), where q = "pool_queue st" and item = item and result = result]
      length_remove1[of item "executing st"] length_pos_if_in_set[OF finish(2)]
    by (auto simp: pool_inv_def split: option.splits)
next
  case (exit item q)
  then show ?thesis using assms(2) queue_laws(10)[OF assms(1) exit(3)] by (auto simp: pool_inv_def)
next
  case shutdown
  then show ?thesis using assms(2) queue_laws(15-17)[OF assms(1), of "pool_queue st"] by (simp add: pool_inv_def)
qed

lemma pool_inv_reach:
  assumes "workqueue_laws ops v" "fresh_queue v q" "(pool_step ops IsConflict backoff)\<^sup>*\<^sup>* (new_pool n q) st"
  shows "pool_inv v n st"
  using assms(3)
proof (induction rule: rtranclp_induct)
  case base
  show ?case using assms(2) by (rule pool_inv_new)
next
  case (step st st')
  then show ?case using pool_inv_step[OF assms(1)] by blast
qed


section \<open>Properties\<close>

text \<open>C18: With a queue that keeps its documented promises, no item is executed by two workers
  at once, every worker is idle, executing or exited, and none exits before the queue shuts down.
  Until then no item is lost: one that was enqueued, or whose execution failed, since its last
  execution began is still in the queue.\<close>

theorem worker_items_not_lost:
  assumes "workqueue_laws ops v" "fresh_queue v q" "(pool_step ops IsConflict backoff)\<^sup>*\<^sup>* (new_pool n q) st"
  shows "distinct (executing st) \<and> idle st + length (executing st) + exited st = n
    \<and> (\<not> closing v (pool_queue st) \<longrightarrow> exited st = 0 \<and> pending st \<subseteq> queued v (pool_queue st))"
  using pool_inv_reach[OF assms] by (auto simp: pool_inv_def)

text \<open>The rate limit of an item is never reset: its counter is the number of all its
  failed executions, whatever executions have succeeded in between, so that the back-off of an item
  only grows.\<close>

theorem worker_backoff_never_reset:
  assumes "workqueue_laws ops v" "fresh_queue v q" "(pool_step ops IsConflict backoff)\<^sup>*\<^sup>* (new_pool n q) st"
    and "(pool_step ops IsConflict backoff)\<^sup>*\<^sup>* st st'"
  shows "failures v (pool_queue st) item = fails st item \<and> failures v (pool_queue st) item \<le> failures v (pool_queue st') item"
proof -
  have inv: "pool_inv v n st" using pool_inv_reach[OF assms(1-3)] .
  have "(pool_step ops IsConflict backoff)\<^sup>*\<^sup>* (new_pool n q) st'" using assms(3,4) by (rule rtranclp_trans)
  then have inv': "pool_inv v n st'" by (rule pool_inv_reach[OF assms(1,2)])
  have "fails st item \<le> fails st' item"
    using assms(4)
  proof (induction rule: rtranclp_induct)
    case (step a b)
    from step.hyps(2) have "fails a item \<le> fails b item" by cases (auto split: option.splits)
    then show ?case using step.IH by simp
  qed simp
  then show ?thesis using inv inv' by (simp add: pool_inv_def)
qed

subsection \<open>A sample queue\<close>

record SampleQueue =
  sq_queue :: "nat list"
  sq_processing :: "nat list"
  sq_failures :: "nat \<Rightarrow> nat"
  sq_closed :: bool

definition sq_add :: "nat \<Rightarrow> SampleQueue \<Rightarrow> SampleQueue" where
  "sq_add i q = (if sq_closed q \<or> i \<in> set (sq_queue q) then q else q\<lparr>sq_queue := sq_queue q @ [i]\<rparr>)"

definition sample_queue_ops :: "(SampleQueue, nat) QueueOps" where
  "sample_queue_ops = \<lparr>q_Add = sq_add, q_AddAfter = (\<lambda>i d. sq_add i),
     q_AddRateLimited = (\<lambda>i q. sq_add i (q\<lparr>sq_failures := (sq_failures q)(i := Suc (sq_failures q i))\<rparr>)),
     q_Get = (\<lambda>q. case filter (\<lambda>i. i \<notin> set (sq_processing q)) (sq_queue q) of
        i # _ \<Rightarrow> Some ((i, False), q\<lparr>sq_queue := filter (\<lambda>j. j \<noteq> i) (sq_queue q), sq_processing := i # sq_processing q\<rparr>)
      | [] \<Rightarrow> if sq_closed q then Some ((0, True), q) else None),
     q_Done = (\<lambda>i q. q\<lparr>sq_processing := filter (\<lambda>j. j \<noteq> i) (sq_processing q)\<rparr>),
     q_ShutDown = (\<lambda>q. q\<lparr>sq_closed := True\<rparr>)\<rparr>"

definition sample_queue_view :: "(SampleQueue, nat) QueueView" where
  "sample_queue_view = \<lparr>queued = (\<lambda>q. set (sq_queue q)), processing = (\<lambda>q. set (sq_processing q)),
     failures = sq_failures, closing = sq_closed\<rparr>"

definition sample_queue :: SampleQueue where
  "sample_queue = \<lparr>sq_queue = [], sq_processing = [], sq_failures = (\<lambda>_. 0), sq_closed = False\<rparr>"

lemma sample_queue_laws: "workqueue_laws sample_queue_ops sample_queue_view"
proof -
  have get: "i \<in> set (sq_queue q) \<and> i \<notin> set (sq_processing q)"
    if "filter (\<lambda>i. i \<notin> set (sq_processing q)) (sq_queue q) = i # js" for i js q
  proof -
    have "i \<in> set (filter (\<lambda>i. i \<notin> set (sq_processing q)) (sq_queue q))" using that by simp
    then show ?thesis by simp
  qed
  show ?thesis
    using get by (auto simp: workqueue_laws_def same_rest_def sample_queue_ops_def sample_queue_view_def sq_add_def
        split: list.splits if_splits)
qed

lemma sample_queue_fresh: "fresh_queue sample_queue_view sample_queue"
  by (simp add: fresh_queue_def sample_queue_view_def sample_queue_def)

text \<open>An item that is enqueued, taken by one of two workers, and fails; then it is taken again
  and succeeds.\<close>

definition sample_failed :: "(SampleQueue, nat) Pool" where
  "sample_failed = \<lparr>pool_queue = sample_queue\<lparr>sq_queue := [7], sq_failures := (\<lambda>_. 0)(7 := 1)\<rparr>, idle = 2, executing = [],
     exited = 0, pending = {7}, fails = (\<lambda>_. 0)(7 := 1)\<rparr>"

definition sample_retried :: "(SampleQueue, nat) Pool" where
  "sample_retried = sample_failed\<lparr>pool_queue := sample_queue\<lparr>sq_failures := (\<lambda>_. 0)(7 := 1)\<rparr>, pending := {}\<rparr>"

lemmas sample_pool_defs = sample_failed_def sample_retried_def sample_queue_def sample_queue_ops_def sq_add_def
  new_pool_def Enqueue_def spin_finish_def

lemma pool_enqueue_run:
  assumes "0 < idle st" "q_Get ops (Enqueue ops item (pool_queue st)) = Some ((item, False), q)"
  shows "(pool_step ops IsConflict backoff)\<^sup>*\<^sup>* st (st\<lparr>pool_queue := q, idle := idle st - 1, executing := item # executing st,
    pending := pending st - {item}\<rparr>)"
proof -
  let ?st1 = "st\<lparr>pool_queue := Enqueue ops item (pool_queue st), pending := insert item (pending st)\<rparr>"
  have "pool_step ops IsConflict backoff st ?st1" by (rule pool_step.enqueue)
  moreover have "pool_step ops IsConflict backoff ?st1
      (?st1\<lparr>pool_queue := q, idle := idle ?st1 - 1, executing := item # executing ?st1, pending := pending ?st1 - {item}\<rparr>)"
    using assms by (intro pool_step.take) simp_all
  ultimately show ?thesis by (simp add: insert_Diff_if)
qed

lemma pool_finishI:
  assumes "item \<in> set (executing st)"
    and "st' = st\<lparr>pool_queue := spin_finish ops IsConflict backoff item result (pool_queue st), idle := Suc (idle st),
         executing := remove1 item (executing st),
         pending := (case result of None \<Rightarrow> pending st | Some _ \<Rightarrow> insert item (pending st)),
         fails := (case result of None \<Rightarrow> fails st | Some _ \<Rightarrow> (fails st)(item := Suc (fails st item)))\<rparr>"
  shows "pool_step ops IsConflict backoff st st'"
  unfolding assms(2) using assms(1) by (rule pool_step.finish)

lemma sample_failed_reach:
  "(pool_step sample_queue_ops (\<lambda>_. False) None)\<^sup>*\<^sup>* (new_pool 2 sample_queue) sample_failed"
proof -
  let ?st = "new_pool 2 sample_queue :: (SampleQueue, nat) Pool"
  let ?q = "sample_queue\<lparr>sq_processing := [7]\<rparr>"
  let ?st1 = "?st\<lparr>pool_queue := ?q, idle := idle ?st - 1, executing := 7 # executing ?st, pending := pending ?st - {7}\<rparr>"
  have "(pool_step sample_queue_ops (\<lambda>_. False) None)\<^sup>*\<^sup>* ?st ?st1"
    by (rule pool_enqueue_run) (simp_all add: sample_pool_defs)
  moreover have "pool_step sample_queue_ops (\<lambda>_. False) None ?st1 sample_failed"
    by (rule pool_finishI[where item = 7 and result = "Some (TagErrorf ''x'' ''y'')"]) (simp_all add: sample_pool_defs)
  ultimately show ?thesis by (rule rtranclp.rtrancl_into_rtrancl)
qed

lemma sample_retried_reach:
  "(pool_step sample_queue_ops (\<lambda>_. False) None)\<^sup>*\<^sup>* sample_failed sample_retried"
proof -
  let ?q = "sample_queue\<lparr>sq_processing := [7], sq_failures := (\<lambda>_. 0)(7 := 1)\<rparr>"
  let ?st1 = "sample_failed\<lparr>pool_queue := ?q, idle := idle sample_failed - 1, executing := 7 # executing sample_failed,
    pending := pending sample_failed - {7}\<rparr>"
  have "pool_step sample_queue_ops (\<lambda>_. False) None sample_failed ?st1"
    by (rule pool_step.take) (simp_all add: sample_pool_defs)
  moreover have "pool_step sample_queue_ops (\<lambda>_. False) None ?st1 sample_retried"
    by (rule pool_finishI[where item = 7 and result = None]) (simp_all add: sample_pool_defs)
  ultimately show ?thesis by (meson converse_rtranclp_into_rtranclp r_into_rtranclp)
qed

text \<open>The theorem at an item whose execution has failed: it is in the queue again.\<close>

theorem worker_items_not_lost_witness:
  "workqueue_laws sample_queue_ops sample_queue_view \<and> fresh_queue sample_queue_view sample_queue
   \<and> (pool_step sample_queue_ops (\<lambda>_. False) None)\<^sup>*\<^sup>* (new_pool 2 sample_queue) sample_failed
   \<and> pending sample_failed = {7} \<and> 7 \<in> queued sample_queue_view (pool_queue sample_failed)"
proof -
  have "\<not> closing sample_queue_view (pool_queue sample_failed)" "pending sample_failed = {7}"
    by (simp_all add: sample_queue_view_def sample_failed_def sample_queue_def)
  then show ?thesis
    using worker_items_not_lost[OF sample_queue_laws sample_queue_fresh sample_failed_reach]
      sample_queue_laws sample_queue_fresh sample_failed_reach by simp
qed

text \<open>The theorem at an item that failed once and then succeeded: its counter stays at one.\<close>

theorem worker_backoff_never_reset_witness:
  "workqueue_laws sample_queue_ops sample_queue_view \<and> fresh_queue sample_queue_view sample_queue
   \<and> (pool_step sample_queue_ops (\<lambda>_. False) None)\<^sup>*\<^sup>* sample_failed sample_retried
   \<and> 1 \<le> failures sample_queue_view (pool_queue sample_retried) 7"
proof -
  have "fails sample_failed 7 = 1" by (simp add: sample_failed_def)
  then show ?thesis
    using worker_backoff_never_reset[OF sample_queue_laws sample_queue_fresh sample_failed_reach sample_retried_reach, of 7]
      sample_queue_laws sample_queue_fresh sample_retried_reach by simp
qed

end
