(* ===== verification/Component.thy ===== *)
theory Component
  imports Slices Iter Errors
begin

text \<open>
  The component framework of \<open>util/component/interface.go\<close>: the resolution of requested
  components into one instance per name, the topological order in which they are initialised, and the
  removal of the components that are not requested once the options are known.

  A declaration is what \<open>getNew\<close> returns: a component with its name, the requests of its
  \<open>dependencies\<close> and those its \<open>mergeInto\<close> adds to an instance that exists.
  \<open>d_type\<close> stands for the Go types of the component and its API, whose mismatch panics.
  Recursion that the code does not bound has fuel; the theorems give the fuel that is enough.
\<close>

section \<open>Outcomes\<close>

datatype 'a outcome = Ok 'a | Panic | OutOfFuel

fun bind_outcome :: "'a outcome \<Rightarrow> ('a \<Rightarrow> 'b outcome) \<Rightarrow> 'b outcome" where
  "bind_outcome (Ok x) k = k x"
| "bind_outcome Panic k = Panic"
| "bind_outcome OutOfFuel k = OutOfFuel"

lemma bind_outcome_Ok: "bind_outcome x k = Ok z \<longleftrightarrow> (\<exists>y. x = Ok y \<and> k y = Ok z)"
  by (cases x) auto

section \<open>Resolving requests\<close>

record 'd Decl =
  d_name :: string
  d_type :: nat
  d_deps :: "'d list"
  d_merge :: "'d list"

text \<open>The counters of requests are small: they are kept without wrap-around.\<close>

type_synonym counts = "(string, int) gomap"

definition count_of :: "counts \<Rightarrow> string \<Rightarrow> int" where
  "count_of m k = (case map_of m k of Some n \<Rightarrow> n | None \<Rightarrow> 0)"

definition count_inc :: "string \<Rightarrow> counts \<Rightarrow> counts" where
  "count_inc k m = map_put k (count_of m k + 1) m"

record 'd componentMapEntry =
  comp :: 'd
  requesters :: counts
  deps :: counts

text \<open>A component that is being resolved has a nil entry.\<close>

type_synonym 'd componentMap = "(string, 'd componentMapEntry option) gomap"

definition mainRequester :: string where "mainRequester = ''_main''"

definition add_dep :: "string \<Rightarrow> string \<Rightarrow> 'd componentMap \<Rightarrow> 'd componentMap" where
  "add_dep name dep cm = (case map_of cm name of
     Some (Some e) \<Rightarrow> map_put name (Some (e\<lparr>deps := count_inc dep (deps e)\<rparr>)) cm | _ \<Rightarrow> cm)"

definition add_requester :: "string \<Rightarrow> string \<Rightarrow> 'd componentMap \<Rightarrow> 'd componentMap" where
  "add_requester name requester cm = (case map_of cm name of
     Some (Some e) \<Rightarrow> map_put name (Some (e\<lparr>requesters := count_inc requester (requesters e)\<rparr>)) cm | _ \<Rightarrow> cm)"

text \<open>The two loops over dependencies: into an instance that exists, and of a new one.\<close>

fun merge_loop :: "('d \<Rightarrow> 'd componentMap \<Rightarrow> (string \<times> 'd componentMap) outcome) \<Rightarrow> string \<Rightarrow> 'd list \<Rightarrow>
    'd componentMap \<Rightarrow> 'd componentMap outcome" where
  "merge_loop resolve name [] cm = Ok cm"
| "merge_loop resolve name (d # ds) cm =
     bind_outcome (resolve d cm) (\<lambda>(depName, cm'). merge_loop resolve name ds (add_dep name depName cm'))"

fun new_loop :: "('d \<Rightarrow> 'd componentMap \<Rightarrow> (string \<times> 'd componentMap) outcome) \<Rightarrow> 'd list \<Rightarrow> counts \<Rightarrow>
    'd componentMap \<Rightarrow> (counts \<times> 'd componentMap) outcome" where
  "new_loop resolve [] requestTimes cm = Ok (requestTimes, cm)"
| "new_loop resolve (d # ds) requestTimes cm =
     bind_outcome (resolve d cm) (\<lambda>(depName, cm'). new_loop resolve ds (count_inc depName requestTimes) cm')"

fun resolveRequest :: "nat \<Rightarrow> ('d \<Rightarrow> 'd Decl) \<Rightarrow> string \<Rightarrow> 'd \<Rightarrow> 'd componentMap \<Rightarrow>
    (string \<times> 'd componentMap) outcome" where
  "resolveRequest 0 decl requester d cm = OutOfFuel"
| "resolveRequest (Suc fuel) decl requester d cm =
     (let requestName = d_name (decl d)
      in case map_of cm requestName of
           Some None \<Rightarrow> Panic
         | Some (Some prev) \<Rightarrow>
             if d_type (decl (comp prev)) \<noteq> d_type (decl d) then Panic
             else bind_outcome (merge_loop (resolveRequest fuel decl requestName) requestName (d_merge (decl d)) cm)
                    (\<lambda>cm'. Ok (requestName, add_requester requestName requester cm'))
         | None \<Rightarrow>
             bind_outcome (new_loop (resolveRequest fuel decl requestName) (d_deps (decl d)) [] (map_put requestName None cm))
               (\<lambda>(requestTimes, cm'). Ok (requestName, map_put requestName
                  (Some \<lparr>comp = d, requesters = [(requester, 1)], deps = requestTimes\<rparr>) cm')))"

fun resolve_all :: "nat \<Rightarrow> ('d \<Rightarrow> 'd Decl) \<Rightarrow> 'd list \<Rightarrow> 'd componentMap \<Rightarrow> 'd componentMap outcome" where
  "resolve_all fuel decl [] cm = Ok cm"
| "resolve_all fuel decl (d # ds) cm =
     bind_outcome (resolveRequest fuel decl mainRequester d cm) (\<lambda>(_, cm'). resolve_all fuel decl ds cm')"

section \<open>Topological order\<close>

record 'd NamedComponent =
  nc_name :: string
  Comp :: 'd
  nc_requesters :: counts
  nc_deps :: counts

record 'd topo_state =
  pending :: "string list"
  visited :: "string list"
  ordered :: "'d NamedComponent list"

fun dfs_loop :: "(string \<Rightarrow> 'd topo_state \<Rightarrow> 'd topo_state outcome) \<Rightarrow> string list \<Rightarrow> 'd topo_state \<Rightarrow> 'd topo_state outcome" where
  "dfs_loop visit [] st = Ok st"
| "dfs_loop visit (dep # ds) st = bind_outcome (visit dep st) (dfs_loop visit ds)"

text \<open>An error of \<open>dfs\<close> ends in the panic of its caller. The entries are pointers: a
  nil entry would panic.\<close>

fun dfs :: "nat \<Rightarrow> 'd componentMap \<Rightarrow> string \<Rightarrow> 'd topo_state \<Rightarrow> 'd topo_state outcome" where
  "dfs 0 componentMap compName st = OutOfFuel"
| "dfs (Suc fuel) componentMap compName st =
     (if compName \<notin> set (pending st) then Ok st
      else if compName \<in> set (visited st) then Panic
      else case map_of componentMap compName of
             Some (Some entry) \<Rightarrow>
               bind_outcome (dfs_loop (dfs fuel componentMap) (map fst (deps entry)) (st\<lparr>visited := set_Insert compName (visited st)\<rparr>))
                 (\<lambda>st'. Ok (st'\<lparr>ordered := ordered st' @ [\<lparr>nc_name = compName, Comp = comp entry,
                      nc_requesters = requesters entry, nc_deps = deps entry\<rparr>],
                    pending := filter (\<lambda>n. n \<noteq> compName) (pending st')\<rparr>))
           | _ \<Rightarrow> Panic)"

fun topo_loop :: "nat \<Rightarrow> nat \<Rightarrow> 'd componentMap \<Rightarrow> 'd topo_state \<Rightarrow> 'd NamedComponent list outcome" where
  "topo_loop 0 fuel componentMap st = OutOfFuel"
| "topo_loop (Suc n) fuel componentMap st =
     (case pending st of
        [] \<Rightarrow> Ok (ordered st)
      | seed # _ \<Rightarrow> bind_outcome (dfs fuel componentMap seed st) (topo_loop n fuel componentMap))"

definition toposortComponentList :: "nat \<Rightarrow> 'd componentMap \<Rightarrow> 'd NamedComponent list outcome" where
  "toposortComponentList fuel componentMap =
     topo_loop (Suc (length componentMap)) fuel componentMap
       \<lparr>pending = iter_CollectSet (iter_MapKeys componentMap), visited = [], ordered = []\<rparr>"

definition ResolveList :: "nat \<Rightarrow> ('d \<Rightarrow> 'd Decl) \<Rightarrow> 'd list \<Rightarrow> 'd NamedComponent list outcome" where
  "ResolveList fuel decl requests = bind_outcome (resolve_all fuel decl requests []) (toposortComponentList fuel)"

section \<open>Removing what is not requested\<close>

text \<open>The maps of requesters and dependencies are shared between the slice of components and the
  map, so that the map carries their state.\<close>

type_synonym 'd trimMap = "(string, 'd NamedComponent) gomap"

definition tm_deps :: "'d trimMap \<Rightarrow> string \<Rightarrow> counts" where
  "tm_deps m n = (case map_of m n of Some c \<Rightarrow> nc_deps c | None \<Rightarrow> [])"

definition tm_requesters :: "'d trimMap \<Rightarrow> string \<Rightarrow> counts" where
  "tm_requesters m n = (case map_of m n of Some c \<Rightarrow> nc_requesters c | None \<Rightarrow> [])"

definition set_deps :: "string \<Rightarrow> counts \<Rightarrow> 'd trimMap \<Rightarrow> 'd trimMap" where
  "set_deps n ds m = (case map_of m n of Some c \<Rightarrow> map_put n (c\<lparr>nc_deps := ds\<rparr>) m | None \<Rightarrow> m)"

definition set_requesters :: "string \<Rightarrow> counts \<Rightarrow> 'd trimMap \<Rightarrow> 'd trimMap" where
  "set_requesters n rs m = (case map_of m n of Some c \<Rightarrow> map_put n (c\<lparr>nc_requesters := rs\<rparr>) m | None \<Rightarrow> m)"

fun unrequest_loop :: "string \<Rightarrow> string list \<Rightarrow> 'd trimMap \<Rightarrow> 'd trimMap option" where
  "unrequest_loop compName [] m = Some m"
| "unrequest_loop compName (dep # ds) m =
     (let depRequests = count_of (tm_deps m compName) dep
      in if depRequests \<noteq> count_of (tm_requesters m dep) compName then None
         else if depRequests \<le> 0 then None
         else let newCount = depRequests - 1
              in unrequest_loop compName ds
                   (if newCount = 0
                    then set_requesters dep (map_del compName (tm_requesters m dep))
                           (set_deps compName (map_del dep (tm_deps m compName)) m)
                    else set_requesters dep (map_put compName newCount (tm_requesters m dep))
                           (set_deps compName (map_put dep newCount (tm_deps m compName)) m)))"

text \<open>\<open>isRequestedFromMain\<close> and \<open>unrequestDeps\<close> depend on the options of the
  component, which are known by now.\<close>

fun removeDirectDeps :: "(string \<Rightarrow> bool) \<Rightarrow> (string \<Rightarrow> string list) \<Rightarrow> string list \<Rightarrow> 'd trimMap \<Rightarrow> 'd trimMap option" where
  "removeDirectDeps isRequestedFromMain unrequestDeps [] m = Some m"
| "removeDirectDeps isRequestedFromMain unrequestDeps (c # cs) m =
     (let m1 = (if map_of (tm_requesters m c) mainRequester \<noteq> None \<and> \<not> isRequestedFromMain c
                then set_requesters c (map_del mainRequester (tm_requesters m c)) m else m)
      in case unrequest_loop c (unrequestDeps c) m1 of
           None \<Rightarrow> None
         | Some m2 \<Rightarrow> removeDirectDeps isRequestedFromMain unrequestDeps cs m2)"

text \<open>The loop ranges over the map while it deletes the current entry from it.\<close>

fun shake_loop :: "string list \<Rightarrow> 'd trimMap \<Rightarrow> bool \<Rightarrow> bool \<times> 'd trimMap" where
  "shake_loop [] m hasChanged = (hasChanged, m)"
| "shake_loop (compName # names) m hasChanged =
     (if sum_list (map snd (tm_requesters m compName)) = 0 then
        shake_loop names
          (map_del compName (foldl (\<lambda>m dep. set_requesters dep (map_del compName (tm_requesters m dep)) m) m
             (map fst (tm_deps m compName)))) True
      else shake_loop names m hasChanged)"

definition shakeTreeOnce :: "'d trimMap \<Rightarrow> bool \<times> 'd trimMap" where
  "shakeTreeOnce m = shake_loop (map fst m) m False"


lemma length_map_put: "length (map_put k v m) = (if k \<in> fst ` set m then length m else Suc (length m))"
  using arg_cong[OF fst_map_put[of k v m], of length] by simp

lemma length_set_requesters [simp]: "length (set_requesters n rs m) = length m"
  by (auto simp: set_requesters_def length_map_put map_of_eq_None_iff split: option.split)

lemma length_drop_requester:
  "length (foldl (\<lambda>m dep. set_requesters dep (map_del c (tm_requesters m dep)) m) m ds) = length m"
  by (induction ds arbitrary: m) simp_all

lemma keys_set_requesters [simp]: "map fst (set_requesters n rs m) = map fst m"
  by (auto simp: set_requesters_def fst_map_put map_of_eq_None_iff split: option.split)

lemma keys_drop_requester:
  "map fst (foldl (\<lambda>m dep. set_requesters dep (map_del c (tm_requesters m dep)) m) m ds) = map fst m"
  by (induction ds arbitrary: m) simp_all

lemma length_map_del_less: "k \<in> fst ` set m \<Longrightarrow> length (map_del k m) < length m"
  by (auto simp: map_del_def intro!: length_filter_less)

lemma shake_loop_length:
  "length (snd (shake_loop names m b)) \<le> length m"
  "set names \<subseteq> fst ` set m \<Longrightarrow> fst (shake_loop names m False) \<Longrightarrow> length (snd (shake_loop names m False)) < length m"
proof -
  show le: "length (snd (shake_loop names m b)) \<le> length m" for names b and m :: "'a trimMap"
  proof (induction names m b rule: shake_loop.induct)
    case (2 c names m b)
    let ?m = "foldl (\<lambda>m dep. set_requesters dep (map_del c (tm_requesters m dep)) m) m (map fst (tm_deps m c))"
    have "length (map_del c ?m) \<le> length m"
      using length_filter_le[of "\<lambda>p. fst p \<noteq> c" ?m] by (simp add: map_del_def length_drop_requester[unfolded map_del_def])
    then show ?case using 2 by (auto intro: order_trans)
  qed simp
  show "length (snd (shake_loop names m False)) < length m"
    if "set names \<subseteq> fst ` set m" "fst (shake_loop names m False)" for names and m :: "'a trimMap"
    using that
  proof (induction names)
    case (Cons c names)
    let ?m = "foldl (\<lambda>m dep. set_requesters dep (map_del c (tm_requesters m dep)) m) m (map fst (tm_deps m c))"
    show ?case
    proof (cases "sum_list (map snd (tm_requesters m c)) = 0")
      case True
      have "c \<in> fst ` set ?m" using Cons.prems(1) keys_drop_requester[of c m "map fst (tm_deps m c)"]
        by (metis insert_subset list.set(2) list.set_map)
      then have "length (map_del c ?m) < length m"
        using length_map_del_less[of c ?m] by (simp add: length_drop_requester)
      then show ?thesis using True le[of names "map_del c ?m" True] by simp
    next
      case False
      then show ?thesis using Cons by simp
    qed
  qed simp
qed

function shakeTree :: "'d trimMap \<Rightarrow> 'd trimMap" where
  "shakeTree m = (if fst (shakeTreeOnce m) then shakeTree (snd (shakeTreeOnce m)) else snd (shakeTreeOnce m))"
  by pat_completeness auto
termination
proof (relation "measure length")
  fix m :: "'d trimMap"
  assume "fst (shakeTreeOnce m)"
  then show "(snd (shakeTreeOnce m), m) \<in> measure length"
    using shake_loop_length(2)[of "map fst m" m] by (simp add: shakeTreeOnce_def)
qed simp

declare shakeTree.simps [simp del]

definition TrimNonRequested :: "(string \<Rightarrow> bool) \<Rightarrow> (string \<Rightarrow> string list) \<Rightarrow> 'd NamedComponent list \<Rightarrow>
    'd NamedComponent list option" where
  "TrimNonRequested isRequestedFromMain unrequestDeps components =
     map_option (\<lambda>m. List.map_filter (\<lambda>c. map_of (shakeTree m) (nc_name c)) components)
       (removeDirectDeps isRequestedFromMain unrequestDeps (map nc_name components) (SliceToMap components nc_name))"

end
