(* ===== verification/ComponentResolve.thy ===== *)
theory ComponentResolve
  imports Component
begin

text \<open>
  Correctness of the resolution of components: when requests never lead from a name back to itself,
  every request is resolved without panic, and the numbers of requests that an instance has made and
  that its dependencies have received agree, which the removal of components relies on.
\<close>

section \<open>Counters\<close>

lemma count_of_Nil [simp]: "count_of [] k = 0"
  by (simp add: count_of_def)

lemma count_of_put [simp]: "count_of (map_put k v m) k' = (if k' = k then v else count_of m k')"
  by (simp add: count_of_def)

lemma count_of_del [simp]: "count_of (map_del k m) k' = (if k' = k then 0 else count_of m k')"
  by (simp add: count_of_def)

lemma count_of_inc [simp]: "count_of (count_inc k m) k' = count_of m k' + (if k' = k then 1 else 0)"
  by (simp add: count_inc_def)

definition counts_ok :: "counts \<Rightarrow> bool" where
  "counts_ok m \<longleftrightarrow> map_ok m \<and> list_all (\<lambda>p. 0 < snd p) m"

lemma counts_ok_put: "counts_ok m \<Longrightarrow> 0 < v \<Longrightarrow> counts_ok (map_put k v m)"
proof -
  have "list_all (\<lambda>p. 0 < snd p) m \<Longrightarrow> 0 < v \<Longrightarrow> list_all (\<lambda>p. 0 < snd p) (map_put k v m)"
    by (induction k v m rule: map_put.induct) auto
  then show "counts_ok m \<Longrightarrow> 0 < v \<Longrightarrow> counts_ok (map_put k v m)" by (simp add: counts_ok_def)
qed

lemma counts_ok_nonneg: "counts_ok m \<Longrightarrow> 0 \<le> count_of m k"
  by (force simp: counts_ok_def count_of_def list_all_iff dest: map_of_SomeD split: option.split)

lemma counts_ok_inc [simp]: "counts_ok m \<Longrightarrow> counts_ok (count_inc k m)"
  using counts_ok_nonneg[of m k] by (simp add: count_inc_def counts_ok_put)

lemma counts_ok_del [simp]: "counts_ok m \<Longrightarrow> counts_ok (map_del k m)"
  by (auto simp: counts_ok_def list_all_iff map_del_def[of k m]) (metis map_del_def map_ok_del)

lemma counts_ok_key: "counts_ok m \<Longrightarrow> k \<in> fst ` set m \<longleftrightarrow> count_of m k \<noteq> 0"
  by (force simp: counts_ok_def count_of_def list_all_iff dom_map_of_fst[symmetric] dest: map_of_SomeD split: option.split)

lemma counts_ok_sum:
  assumes "counts_ok m"
  shows "sum_list (map snd m) = 0 \<longleftrightarrow> (\<forall>k. count_of m k = 0)"
proof -
  have pos: "\<forall>p \<in> set m. 0 < snd p" using assms by (simp add: counts_ok_def list_all_iff)
  have "0 \<le> sum_list (map snd xs)" if "\<forall>p \<in> set xs. 0 < snd p" for xs :: counts
    using that by (intro sum_list_nonneg) auto
  then have "sum_list (map snd m) = 0 \<longleftrightarrow> m = []" using pos by (cases m) (force simp: add_pos_nonneg)+
  moreover have "m = [] \<longleftrightarrow> (\<forall>k. count_of m k = 0)"
    using counts_ok_key[OF assms] by (cases m) force+
  ultimately show ?thesis by simp
qed

section \<open>The requests on record\<close>

text \<open>The requests from \<open>a\<close> to \<open>b\<close>, as \<open>a\<close> and as
  \<open>b\<close> have them.\<close>

definition made :: "'d componentMap \<Rightarrow> string \<Rightarrow> string \<Rightarrow> int" where
  "made cm a b = (case map_of cm a of Some (Some e) \<Rightarrow> count_of (deps e) b | _ \<Rightarrow> 0)"

definition got :: "'d componentMap \<Rightarrow> string \<Rightarrow> string \<Rightarrow> int" where
  "got cm a b = (case map_of cm b of Some (Some e) \<Rightarrow> count_of (requesters e) a | _ \<Rightarrow> 0)"

definition in_progress :: "'d componentMap \<Rightarrow> string set" where
  "in_progress cm = {a. map_of cm a = Some None}"

definition resolved :: "'d componentMap \<Rightarrow> string set" where
  "resolved cm = {a. \<exists>e. map_of cm a = Some (Some e)}"

definition map_wf :: "('d \<Rightarrow> 'd Decl) \<Rightarrow> 'd componentMap \<Rightarrow> bool" where
  "map_wf decl cm \<longleftrightarrow> map_ok cm \<and> (\<forall>a e. map_of cm a = Some (Some e) \<longrightarrow>
     d_name (decl (comp e)) = a \<and> counts_ok (deps e) \<and> counts_ok (requesters e))"

text \<open>Names have a rank that every request lowers, and declarations of the same name agree in
  their type.\<close>

definition ranked :: "(string \<Rightarrow> nat) \<Rightarrow> ('d \<Rightarrow> 'd Decl) \<Rightarrow> bool" where
  "ranked r decl \<longleftrightarrow> (\<forall>d. r (d_name (decl d)) < r mainRequester
     \<and> (\<forall>d' \<in> set (d_deps (decl d)) \<union> set (d_merge (decl d)). r (d_name (decl d')) < r (d_name (decl d)))
     \<and> (\<forall>d'. d_name (decl d') = d_name (decl d) \<longrightarrow> d_type (decl d') = d_type (decl d)))"

text \<open>What a state must satisfy before a name is requested, and what resolving the request
  changes.\<close>

definition ready :: "('d \<Rightarrow> 'd Decl) \<Rightarrow> (string \<Rightarrow> nat) \<Rightarrow> string \<Rightarrow> 'd componentMap \<Rightarrow> bool" where
  "ready decl r n cm \<longleftrightarrow> map_wf decl cm \<and> (\<forall>a \<in> in_progress cm. r n < r a)
     \<and> (\<forall>a b. r a \<le> r n \<longrightarrow> made cm a b = got cm a b) \<and> (\<forall>a b. made cm a b \<noteq> 0 \<longrightarrow> r b < r a)"

definition requested :: "('d \<Rightarrow> 'd Decl) \<Rightarrow> (string \<Rightarrow> nat) \<Rightarrow> string \<Rightarrow> string \<Rightarrow> 'd componentMap \<Rightarrow> 'd componentMap \<Rightarrow> bool" where
  "requested decl r q n cm cm' \<longleftrightarrow> map_wf decl cm' \<and> in_progress cm' = in_progress cm
     \<and> resolved cm \<subseteq> resolved cm' \<and> n \<in> resolved cm'
     \<and> (\<forall>b. got cm' q b = got cm q b + (if b = n then 1 else 0))
     \<and> (\<forall>a b. r n < r a \<longrightarrow> made cm' a b = made cm a b \<and> (a \<noteq> q \<longrightarrow> got cm' a b = got cm a b))
     \<and> (\<forall>a b. r a \<le> r n \<longrightarrow> made cm' a b = got cm' a b) \<and> (\<forall>a b. made cm' a b \<noteq> 0 \<longrightarrow> r b < r a)"


section \<open>Changing one entry\<close>

lemma add_requester_view:
  assumes "map_of cm n = Some (Some e)"
  shows "made (add_requester n q cm) a b = made cm a b"
    and "got (add_requester n q cm) a b = got cm a b + (if a = q \<and> b = n then 1 else 0)"
    and "in_progress (add_requester n q cm) = in_progress cm" "resolved (add_requester n q cm) = resolved cm"
    and "map_wf decl cm \<Longrightarrow> map_wf decl (add_requester n q cm)"
  using assms by (auto simp: add_requester_def made_def got_def in_progress_def resolved_def map_wf_def)

lemma add_dep_view:
  assumes "map_of cm n = Some (Some e)"
  shows "made (add_dep n m cm) a b = made cm a b + (if a = n \<and> b = m then 1 else 0)"
    and "got (add_dep n m cm) a b = got cm a b"
    and "in_progress (add_dep n m cm) = in_progress cm" "resolved (add_dep n m cm) = resolved cm"
    and "map_wf decl cm \<Longrightarrow> map_wf decl (add_dep n m cm)"
  using assms by (auto simp: add_dep_def made_def got_def in_progress_def resolved_def map_wf_def)

section \<open>The loops over dependencies\<close>

text \<open>The state between two dependencies of \<open>n\<close>, which may be in progress.\<close>

definition between :: "('d \<Rightarrow> 'd Decl) \<Rightarrow> (string \<Rightarrow> nat) \<Rightarrow> string \<Rightarrow> 'd componentMap \<Rightarrow> bool" where
  "between decl r n cm \<longleftrightarrow> map_wf decl cm \<and> (\<forall>a \<in> in_progress cm - {n}. r n < r a)
     \<and> (\<forall>a b. a \<noteq> n \<longrightarrow> r a \<le> r n \<longrightarrow> made cm a b = got cm a b) \<and> (\<forall>a b. made cm a b \<noteq> 0 \<longrightarrow> r b < r a)"

text \<open>What the loops leave alone.\<close>

definition extends :: "(string \<Rightarrow> nat) \<Rightarrow> string \<Rightarrow> 'd componentMap \<Rightarrow> 'd componentMap \<Rightarrow> bool" where
  "extends r n cm cm' \<longleftrightarrow> in_progress cm' = in_progress cm \<and> resolved cm \<subseteq> resolved cm'
     \<and> (\<forall>a b. r n < r a \<longrightarrow> made cm' a b = made cm a b \<and> got cm' a b = got cm a b)"

lemma cm_extends_refl: "extends r n cm cm"
  by (simp add: extends_def)

lemma cm_extends_trans: "extends r n a b \<Longrightarrow> extends r n b c \<Longrightarrow> extends r n a c"
  by (auto simp: extends_def)

lemma between_ready:
  assumes "between decl r n cm" "r m < r n"
  shows "ready decl r m cm"
proof -
  note bt = assms(1)[unfolded between_def]
  have "r m < r a" if "a \<in> in_progress cm" for a
  proof (cases "a = n")
    case False
    then have "r n < r a" using bt[THEN conjunct2, THEN conjunct1] that by blast
    then show ?thesis using assms(2) by simp
  qed (use assms(2) in simp)
  moreover have "made cm a b = got cm a b" if "r a \<le> r m" for a b
  proof -
    have "a \<noteq> n" "r a \<le> r n" using that assms(2) by auto
    then show ?thesis using bt[THEN conjunct2, THEN conjunct2, THEN conjunct1] by blast
  qed
  ultimately show ?thesis unfolding ready_def using bt by blast
qed

lemma requested_step:
  assumes "between decl r n cm" "r m < r n" "requested decl r n m cm cm'"
  shows "between decl r n cm'" "extends r n cm cm'" "made cm' n b = made cm n b"
    "got cm' n b = got cm n b + (if b = m then 1 else 0)"
proof -
  note bt = assms(1)[unfolded between_def] and req = assms(3)[unfolded requested_def]
  have kept: "made cm' a b = made cm a b" "a \<noteq> n \<Longrightarrow> got cm' a b = got cm a b" if "r m < r a" for a b
    using req that by blast+
  have "made cm' a b = got cm' a b" if "a \<noteq> n" "r a \<le> r n" for a b
  proof (cases "r a \<le> r m")
    case True
    then show ?thesis using req by blast
  next
    case False
    then have "made cm' a b = made cm a b" "got cm' a b = got cm a b" using kept[of a b] that(1) by simp_all
    moreover have "made cm a b = got cm a b" using bt that by blast
    ultimately show ?thesis by simp
  qed
  then show "between decl r n cm'" unfolding between_def using bt req by blast
  have "made cm' a b = made cm a b \<and> got cm' a b = got cm a b" if "r n < r a" for a b
  proof -
    have "r m < r a" "a \<noteq> n" using that assms(2) by auto
    then show ?thesis using kept by blast
  qed
  then show "extends r n cm cm'" unfolding extends_def using req by blast
  show "made cm' n b = made cm n b" using kept(1)[OF assms(2)] .
  show "got cm' n b = got cm n b + (if b = m then 1 else 0)" using req by blast
qed

lemma merge_loop_ok:
  assumes "\<And>d cm. d \<in> set ds \<Longrightarrow> ready decl r (d_name (decl d)) cm \<Longrightarrow>
      \<exists>cm'. resolve d cm = Ok (d_name (decl d), cm') \<and> requested decl r n (d_name (decl d)) cm cm'"
    and "\<And>d. d \<in> set ds \<Longrightarrow> r (d_name (decl d)) < r n"
    and "between decl r n cm" "n \<in> resolved cm" "\<And>b. made cm n b = got cm n b"
  shows "\<exists>cm'. merge_loop resolve n ds cm = Ok cm' \<and> between decl r n cm' \<and> extends r n cm cm'
    \<and> (\<forall>b. made cm' n b = got cm' n b)"
  using assms
proof (induction ds arbitrary: cm)
  case Nil
  then show ?case by (auto simp: cm_extends_refl)
next
  case (Cons d ds)
  let ?m = "d_name (decl d)"
  have lower: "r ?m < r n" using Cons.prems(2) by simp
  obtain cm1 where run: "resolve d cm = Ok (?m, cm1)" and req: "requested decl r n ?m cm cm1"
    using Cons.prems(1)[OF _ between_ready[OF Cons.prems(3) lower]] by auto
  note step = requested_step[OF Cons.prems(3) lower req]
  have "n \<in> resolved cm1" using step(2) Cons.prems(4) by (auto simp: extends_def)
  then obtain e where e: "map_of cm1 n = Some (Some e)" by (auto simp: resolved_def)
  let ?cm2 = "add_dep n ?m cm1"
  note view = add_dep_view[OF e, where m = ?m]
  have "between decl r n ?cm2"
    using step(1) lower view(5)[of decl] unfolding between_def view by auto
  moreover have "n \<in> resolved ?cm2" using e by (simp add: view) (auto simp: resolved_def)
  moreover have "made ?cm2 n b = got ?cm2 n b" for b using Cons.prems(5)[of b] step(3,4)[of b] by (simp add: view)
  moreover have "extends r n cm ?cm2" using step(2) by (auto simp: extends_def view)
  ultimately show ?case
    using Cons.IH[of ?cm2] Cons.prems(1,2) run cm_extends_trans[of r n cm ?cm2] by auto
qed

lemma new_loop_ok:
  assumes "\<And>d cm. d \<in> set ds \<Longrightarrow> ready decl r (d_name (decl d)) cm \<Longrightarrow>
      \<exists>cm'. resolve d cm = Ok (d_name (decl d), cm') \<and> requested decl r n (d_name (decl d)) cm cm'"
    and "\<And>d. d \<in> set ds \<Longrightarrow> r (d_name (decl d)) < r n"
    and "between decl r n cm" "counts_ok tms" "\<And>b. count_of tms b = got cm n b" "\<And>b. count_of tms b \<noteq> 0 \<Longrightarrow> r b < r n"
  shows "\<exists>tms' cm'. new_loop resolve ds tms cm = Ok (tms', cm') \<and> between decl r n cm' \<and> extends r n cm cm'
    \<and> counts_ok tms' \<and> (\<forall>b. count_of tms' b = got cm' n b) \<and> (\<forall>b. count_of tms' b \<noteq> 0 \<longrightarrow> r b < r n)"
  using assms
proof (induction ds arbitrary: cm tms)
  case Nil
  then show ?case by (auto simp: cm_extends_refl)
next
  case (Cons d ds)
  let ?m = "d_name (decl d)"
  have lower: "r ?m < r n" using Cons.prems(2) by simp
  obtain cm1 where run: "resolve d cm = Ok (?m, cm1)" and req: "requested decl r n ?m cm cm1"
    using Cons.prems(1)[OF _ between_ready[OF Cons.prems(3) lower]] by auto
  note step = requested_step[OF Cons.prems(3) lower req]
  let ?tms = "count_inc ?m tms"
  have "counts_ok ?tms" using Cons.prems(4) by simp
  moreover have "count_of ?tms b = got cm1 n b" for b using Cons.prems(5)[of b] step(4)[of b] by simp
  moreover have "count_of ?tms b \<noteq> 0 \<Longrightarrow> r b < r n" for b using Cons.prems(6)[of b] lower by (auto split: if_splits)
  ultimately show ?case
    using Cons.IH[of cm1 ?tms] Cons.prems(1,2) run step(1,2) cm_extends_trans[of r n cm cm1] by auto
qed


section \<open>One request\<close>

lemma ranked_lower:
  assumes "ranked r decl"
  shows "d' \<in> set (d_deps (decl d)) \<Longrightarrow> r (d_name (decl d')) < r (d_name (decl d))"
    and "d' \<in> set (d_merge (decl d)) \<Longrightarrow> r (d_name (decl d')) < r (d_name (decl d))"
    and "r (d_name (decl d)) < r mainRequester"
    and "d_name (decl d') = d_name (decl d) \<Longrightarrow> d_type (decl d') = d_type (decl d)"
  using assms unfolding ranked_def by blast+

text \<open>The entry of a new component is filled in once its dependencies are resolved.\<close>

lemma requested_new:
  assumes absent: "map_of cm (d_name (decl d)) = None" and rd: "ready decl r (d_name (decl d)) cm"
    and lower: "r (d_name (decl d)) < r q"
    and bt: "between decl r (d_name (decl d)) cm1" and ext: "extends r (d_name (decl d)) (map_put (d_name (decl d)) None cm) cm1"
    and tms: "counts_ok tms" "\<And>b. count_of tms b = got cm1 (d_name (decl d)) b" "\<And>b. count_of tms b \<noteq> 0 \<Longrightarrow> r b < r (d_name (decl d))"
  shows "requested decl r q (d_name (decl d)) cm
    (map_put (d_name (decl d)) (Some \<lparr>comp = d, requesters = [(q, 1)], deps = tms\<rparr>) cm1)"
proof -
  let ?n = "d_name (decl d)"
  let ?cm' = "map_put ?n (Some \<lparr>comp = d, requesters = [(q, 1)], deps = tms\<rparr>) cm1"
  have "in_progress (map_put ?n None cm) = insert ?n (in_progress cm)" "resolved (map_put ?n None cm) = resolved cm"
    using absent by (auto simp: in_progress_def resolved_def)
  then have prog: "in_progress cm1 = insert ?n (in_progress cm)" "resolved cm \<subseteq> resolved cm1"
    using ext by (simp_all add: extends_def)
  then have gone: "map_of cm1 ?n = Some None" by (auto simp: in_progress_def)
  have made': "made ?cm' a b = (if a = ?n then count_of tms b else made cm1 a b)" for a b
    by (simp add: made_def)
  have got': "got ?cm' a b = (if b = ?n then (if a = q then 1 else 0) else got cm1 a b)" for a b
    by (simp add: got_def count_of_def)
  have got1: "got cm1 a ?n = 0" "got cm a ?n = 0" for a using gone absent by (simp_all add: got_def)
  have above: "made cm1 a b = made cm a b" "got cm1 a b = got cm a b" if "r ?n < r a" for a b
    using ext that absent by (auto simp: extends_def made_def got_def)
  show ?thesis
    unfolding requested_def
  proof (intro conjI allI impI)
    show "map_wf decl ?cm'" using bt tms(1) by (auto simp: between_def map_wf_def counts_ok_def)
    show "in_progress ?cm' = in_progress cm"
      using prog(1) absent by (auto simp: in_progress_def split: if_splits)
    show "resolved cm \<subseteq> resolved ?cm'" "?n \<in> resolved ?cm'" using prog(2) by (auto simp: resolved_def)
    show "got ?cm' q b = got cm q b + (if b = ?n then 1 else 0)" for b
      using above(2)[OF lower, of b] by (simp add: got' got1)
    show "made ?cm' a b = made cm a b" if "r ?n < r a" for a b
      using above(1)[OF that, of b] that by (auto simp: made')
    show "got ?cm' a b = got cm a b" if "r ?n < r a" "a \<noteq> q" for a b
      using above(2)[OF that(1), of b] that by (simp add: got' got1)
    show "made ?cm' a b = got ?cm' a b" if "r a \<le> r ?n" for a b
    proof -
      have "a \<noteq> q" using that lower by auto
      moreover have "a \<noteq> ?n \<Longrightarrow> made cm1 a b = got cm1 a b" using bt that unfolding between_def by blast
      ultimately show ?thesis using tms(2)[of b] got1(1)[of a] got1(1)[of ?n] by (auto simp: made' got')
    qed
    show "r b < r a" if "made ?cm' a b \<noteq> 0" for a b
      using that tms(3)[of b] bt unfolding made' between_def by (auto split: if_splits)
  qed
qed

text \<open>A component that exists counts one more request.\<close>

lemma requested_existing:
  assumes e: "map_of cm1 n = Some (Some e)" and lower: "r n < r q"
    and bt: "between decl r n cm1" and ext: "extends r n cm cm1" and own: "\<And>b. made cm1 n b = got cm1 n b"
  shows "requested decl r q n cm (add_requester n q cm1)"
proof -
  note view = add_requester_view[OF e, where q = q]
  show ?thesis
    unfolding requested_def view
  proof (intro conjI allI impI)
    show "map_wf decl (add_requester n q cm1)" using view(5)[of decl] bt by (simp add: between_def)
    show "in_progress cm1 = in_progress cm" "resolved cm \<subseteq> resolved cm1" using ext by (simp_all add: extends_def)
    show "n \<in> resolved cm1" using e by (simp add: resolved_def)
    show "got cm1 q b + (if q = q \<and> b = n then 1 else 0) = got cm q b + (if b = n then 1 else 0)" for b
      using ext lower by (simp add: extends_def)
    show "made cm1 a b = made cm a b" if "r n < r a" for a b using ext that by (simp add: extends_def)
    show "got cm1 a b + (if a = q \<and> b = n then 1 else 0) = got cm a b" if "r n < r a" "a \<noteq> q" for a b
      using ext that by (simp add: extends_def)
    show "made cm1 a b = got cm1 a b + (if a = q \<and> b = n then 1 else 0)" if "r a \<le> r n" for a b
    proof -
      have "a \<noteq> q" using that lower by auto
      moreover have "made cm1 a b = got cm1 a b" using bt that own unfolding between_def by (cases "a = n") auto
      ultimately show ?thesis by simp
    qed
    show "r b < r a" if "made cm1 a b \<noteq> 0" for a b using that bt unfolding between_def by blast
  qed
qed

lemma resolveRequest_ok:
  assumes "ranked r decl" "r (d_name (decl d)) < fuel" "ready decl r (d_name (decl d)) cm" "r (d_name (decl d)) < r q"
  shows "\<exists>cm'. resolveRequest fuel decl q d cm = Ok (d_name (decl d), cm') \<and> requested decl r q (d_name (decl d)) cm cm'"
  using assms(2-4)
proof (induction fuel arbitrary: d cm q)
  case (Suc fuel)
  let ?n = "d_name (decl d)"
  let ?resolve = "resolveRequest fuel decl ?n"
  note rd = Suc.prems(2)[unfolded ready_def]
  have deps: "\<exists>cm'. ?resolve d' cm = Ok (d_name (decl d'), cm') \<and> requested decl r ?n (d_name (decl d')) cm cm'"
    if "r (d_name (decl d')) < r ?n" "ready decl r (d_name (decl d')) cm" for d' cm
    using Suc.IH[of d' cm ?n] Suc.prems(1) that by simp
  have bt: "between decl r ?n cm" unfolding between_def using rd by blast
  have own: "made cm ?n b = got cm ?n b" for b using rd by blast
  consider (new) "map_of cm ?n = None" | (busy) "map_of cm ?n = Some None" | (old) prev where "map_of cm ?n = Some (Some prev)"
    by (cases "map_of cm ?n") auto
  then show ?case
  proof cases
    case new
    let ?cm0 = "map_put ?n None cm"
    have view0: "made ?cm0 a b = made cm a b" "got ?cm0 a b = got cm a b" "in_progress ?cm0 = insert ?n (in_progress cm)" for a b
      using new by (auto simp: made_def got_def in_progress_def)
    have "map_wf decl ?cm0" using rd by (auto simp: map_wf_def)
    then have bt0: "between decl r ?n ?cm0" using bt unfolding between_def view0 by blast
    have "count_of [] b = got ?cm0 ?n b" for b using own[of b] new unfolding view0 by (simp add: made_def)
    then obtain tms cm1 where run: "new_loop ?resolve (d_deps (decl d)) [] ?cm0 = Ok (tms, cm1)"
      and "between decl r ?n cm1" "extends r ?n ?cm0 cm1" "counts_ok tms"
        "\<And>b. count_of tms b = got cm1 ?n b" "\<And>b. count_of tms b \<noteq> 0 \<Longrightarrow> r b < r ?n"
      using new_loop_ok[of "d_deps (decl d)" decl r ?resolve ?n ?cm0 "[]"] deps ranked_lower(1)[OF assms(1)] bt0
      by (auto simp: counts_ok_def)
    with requested_new[OF new Suc.prems(2,3)] show ?thesis by (auto simp: Let_def new run)
  next
    case busy
    then have "?n \<in> in_progress cm" by (simp add: in_progress_def)
    then show ?thesis using rd by blast
  next
    case old
    then have "d_name (decl (comp prev)) = ?n" using rd unfolding map_wf_def by blast
    then have ty: "d_type (decl (comp prev)) = d_type (decl d)" by (rule ranked_lower(4)[OF assms(1)])
    have "?n \<in> resolved cm" using old by (simp add: resolved_def)
    then obtain cm1 where run: "merge_loop ?resolve ?n (d_merge (decl d)) cm = Ok cm1"
      and loop: "between decl r ?n cm1" "extends r ?n cm cm1" "\<And>b. made cm1 ?n b = got cm1 ?n b"
      using merge_loop_ok[of "d_merge (decl d)" decl r ?resolve ?n cm] deps ranked_lower(2)[OF assms(1)] bt own by blast
    have "?n \<in> resolved cm1" using loop(2) old by (auto simp: extends_def resolved_def)
    then obtain e where e: "map_of cm1 ?n = Some (Some e)" by (auto simp: resolved_def)
    show ?thesis using requested_existing[OF e Suc.prems(3) loop] by (auto simp: Let_def old ty run)
  qed
qed simp


section \<open>All requests\<close>

text \<open>The map that the requests from main leave: nothing is in progress, and every component has
  made as many requests as its dependencies have received from it.\<close>

definition consistent :: "('d \<Rightarrow> 'd Decl) \<Rightarrow> (string \<Rightarrow> nat) \<Rightarrow> 'd componentMap \<Rightarrow> bool" where
  "consistent decl r cm \<longleftrightarrow> map_wf decl cm \<and> in_progress cm = {}
     \<and> (\<forall>a b. a \<noteq> mainRequester \<longrightarrow> made cm a b = got cm a b)
     \<and> (\<forall>a b. made cm a b \<noteq> 0 \<longrightarrow> r b < r a) \<and> made cm mainRequester = (\<lambda>_. 0)"

lemma consistent_request:
  assumes "ranked r decl" "consistent decl r cm" "r mainRequester \<le> fuel"
  shows "\<exists>cm'. resolveRequest fuel decl mainRequester d cm = Ok (d_name (decl d), cm') \<and> consistent decl r cm'
    \<and> resolved cm \<subseteq> resolved cm' \<and> d_name (decl d) \<in> resolved cm'
    \<and> (\<forall>b. got cm' mainRequester b = got cm mainRequester b + (if b = d_name (decl d) then 1 else 0))"
proof -
  let ?n = "d_name (decl d)"
  note con = assms(2)[unfolded consistent_def]
  have lower: "r ?n < r mainRequester" by (rule ranked_lower(3)[OF assms(1)])
  have "made cm a b = got cm a b" if "r a \<le> r ?n" for a b
  proof -
    have "a \<noteq> mainRequester" using that lower by auto
    then show ?thesis using con by blast
  qed
  then have "ready decl r ?n cm" unfolding ready_def using con by blast
  moreover have "r ?n < fuel" using lower assms(3) by simp
  ultimately obtain cm' where run: "resolveRequest fuel decl mainRequester d cm = Ok (?n, cm')"
    and req: "requested decl r mainRequester ?n cm cm'"
    using resolveRequest_ok[OF assms(1) _ _ lower] by blast
  note req' = req[unfolded requested_def]
  have "made cm' a b = got cm' a b" if "a \<noteq> mainRequester" for a b
  proof (cases "r a \<le> r ?n")
    case True
    then show ?thesis using req' by blast
  next
    case False
    then have "r ?n < r a" by simp
    then have "made cm' a b = made cm a b" "got cm' a b = got cm a b" using req' that by blast+
    moreover have "made cm a b = got cm a b" using con that by blast
    ultimately show ?thesis by simp
  qed
  moreover have "made cm' mainRequester b = 0" for b
  proof -
    have "made cm' mainRequester b = made cm mainRequester b" using req' lower by blast
    then show ?thesis using con by simp
  qed
  ultimately have "consistent decl r cm'" unfolding consistent_def using req' con by (simp add: fun_eq_iff)
  then show ?thesis using run req' by blast
qed

lemma resolve_all_ok:
  assumes "ranked r decl" "consistent decl r cm" "r mainRequester \<le> fuel"
  shows "\<exists>cm'. resolve_all fuel decl ds cm = Ok cm' \<and> consistent decl r cm' \<and> resolved cm \<subseteq> resolved cm'
    \<and> (\<lambda>d. d_name (decl d)) ` set ds \<subseteq> resolved cm'
    \<and> (\<forall>b. got cm' mainRequester b = got cm mainRequester b + int (length (filter (\<lambda>d. d_name (decl d) = b) ds)))"
  using assms(2)
proof (induction ds arbitrary: cm)
  case (Cons d ds)
  obtain cm1 where run: "resolveRequest fuel decl mainRequester d cm = Ok (d_name (decl d), cm1)" "consistent decl r cm1"
    and cm1: "resolved cm \<subseteq> resolved cm1" "d_name (decl d) \<in> resolved cm1"
      "\<forall>b. got cm1 mainRequester b = got cm mainRequester b + (if b = d_name (decl d) then 1 else 0)"
    using consistent_request[OF assms(1) Cons.prems assms(3), of d] by blast
  obtain cm' where cm': "resolve_all fuel decl ds cm1 = Ok cm'" "consistent decl r cm'" "resolved cm1 \<subseteq> resolved cm'"
    "(\<lambda>d. d_name (decl d)) ` set ds \<subseteq> resolved cm'"
    "\<forall>b. got cm' mainRequester b = got cm1 mainRequester b + int (length (filter (\<lambda>d. d_name (decl d) = b) ds))"
    using Cons.IH[OF run(2)] by blast
  show ?case
    using run cm1 cm' by (intro exI[of _ cm']) auto
qed auto

lemma consistent_Nil: "consistent decl r []"
  by (simp add: consistent_def map_wf_def in_progress_def made_def got_def fun_eq_iff)

end
