(* ===== verification/ComponentOrder.thy ===== *)
theory ComponentOrder
  imports ComponentResolve
begin

text \<open>
  The order of initialisation: when requests never lead from a name back to itself,
  \<open>ResolveList\<close> lists every component once, after all its dependencies.
\<close>

section \<open>Dependencies first\<close>

fun deps_first :: "string set \<Rightarrow> 'd NamedComponent list \<Rightarrow> bool" where
  "deps_first before [] = True"
| "deps_first before (c # cs) \<longleftrightarrow> fst ` set (nc_deps c) \<subseteq> before \<and> deps_first (insert (nc_name c) before) cs"

lemma deps_first_append:
  "deps_first before (xs @ ys) \<longleftrightarrow> deps_first before xs \<and> deps_first (before \<union> nc_name ` set xs) ys"
  by (induction xs arbitrary: before) auto

lemma deps_first_mono: "deps_first before xs \<Longrightarrow> before \<subseteq> before' \<Longrightarrow> deps_first before' xs"
  by (induction xs arbitrary: before before') (auto, blast)

section \<open>The state of the search\<close>

text \<open>The components in progress are those that are visited and still pending.\<close>

definition gray :: "'d topo_state \<Rightarrow> string set" where
  "gray st = set (visited st) \<inter> set (pending st)"

definition entry_component :: "string \<Rightarrow> 'd componentMapEntry \<Rightarrow> 'd NamedComponent" where
  "entry_component n e = \<lparr>nc_name = n, Comp = comp e, nc_requesters = requesters e, nc_deps = deps e\<rparr>"

definition topo_inv :: "'d componentMap \<Rightarrow> 'd topo_state \<Rightarrow> bool" where
  "topo_inv cm st \<longleftrightarrow> distinct (map nc_name (ordered st)) \<and> distinct (pending st)
     \<and> nc_name ` set (ordered st) \<inter> set (pending st) = {}
     \<and> nc_name ` set (ordered st) \<union> set (pending st) = fst ` set cm
     \<and> deps_first {} (ordered st)
     \<and> (\<forall>c \<in> set (ordered st). \<exists>e. map_of cm (nc_name c) = Some (Some e) \<and> c = entry_component (nc_name c) e)"

definition visits :: "'d componentMap \<Rightarrow> string set \<Rightarrow> 'd topo_state \<Rightarrow> 'd topo_state \<Rightarrow> bool" where
  "visits cm ns st st' \<longleftrightarrow> topo_inv cm st' \<and> gray st' = gray st \<and> set (pending st') \<subseteq> set (pending st) - ns"

lemma visits_trans: "visits cm ns st st' \<Longrightarrow> visits cm ms st' st'' \<Longrightarrow> visits cm (ns \<union> ms) st st''"
  by (auto simp: visits_def)

lemma dfs_loop_ok:
  assumes "\<And>n st. n \<in> set ns \<Longrightarrow> topo_inv cm st \<Longrightarrow> (\<forall>g \<in> gray st. r n < r g) \<Longrightarrow> \<exists>st'. visit n st = Ok st' \<and> visits cm {n} st st'"
    and "topo_inv cm st" "\<forall>n \<in> set ns. \<forall>g \<in> gray st. r n < (r g :: nat)"
  shows "\<exists>st'. dfs_loop visit ns st = Ok st' \<and> visits cm (set ns) st st'"
  using assms
proof (induction ns arbitrary: st)
  case Nil
  then show ?case by (simp add: visits_def)
next
  case (Cons n ns)
  obtain st1 where run: "visit n st = Ok st1" and st1: "visits cm {n} st st1"
    using Cons.prems(1)[of n st] Cons.prems(2,3) by auto
  then have "topo_inv cm st1" "gray st1 = gray st" by (simp_all add: visits_def)
  then obtain st2 where "dfs_loop visit ns st1 = Ok st2" "visits cm (set ns) st1 st2"
    using Cons.IH[of st1] Cons.prems(1,3) by auto
  then show ?case using run visits_trans[OF st1] by auto
qed

lemma dfs_finish:
  assumes "visits cm (fst ` set (deps e)) (st\<lparr>visited := vs\<rparr>) st'" "set vs = insert n (set (visited st))"
    and "map_of cm n = Some (Some e)" "n \<in> set (pending st)" "n \<notin> set (visited st)"
    and "fst ` set (deps e) \<subseteq> fst ` set cm" "n \<notin> fst ` set (deps e)"
  shows "visits cm {n} st (st'\<lparr>ordered := ordered st' @ [entry_component n e], pending := filter (\<lambda>m. m \<noteq> n) (pending st')\<rparr>)"
proof -
  have inv: "topo_inv cm st'" and gray': "gray st' = insert n (gray st)"
    and pend: "set (pending st') \<subseteq> set (pending st) - fst ` set (deps e)"
    using assms(1,2,4) by (auto simp: visits_def gray_def)
  have "n \<in> gray st'" using gray' by simp
  then have n: "n \<in> set (pending st')" by (simp add: gray_def)
  have keys: "nc_name ` set (ordered st') \<union> set (pending st') = fst ` set cm" using inv by (simp add: topo_inv_def)
  have "fst ` set (deps e) \<subseteq> nc_name ` set (ordered st')"
  proof
    fix k assume k: "k \<in> fst ` set (deps e)"
    then have "k \<notin> set (pending st')" "k \<in> fst ` set cm" using pend assms(6) by auto
    then show "k \<in> nc_name ` set (ordered st')" using keys by auto
  qed
  then have "deps_first {} (ordered st' @ [entry_component n e])"
    using inv by (simp add: deps_first_append topo_inv_def entry_component_def)
  then have "topo_inv cm (st'\<lparr>ordered := ordered st' @ [entry_component n e], pending := filter (\<lambda>m. m \<noteq> n) (pending st')\<rparr>)"
    using inv n assms(3) by (auto simp: topo_inv_def entry_component_def)
  moreover have "gray (st'\<lparr>ordered := ordered st' @ [entry_component n e], pending := filter (\<lambda>m. m \<noteq> n) (pending st')\<rparr>) = gray st' - {n}"
    by (auto simp: gray_def)
  ultimately show ?thesis using gray' pend assms(5) by (auto simp: visits_def gray_def)
qed

lemma consistent_entry:
  assumes "consistent decl r cm" "map_of cm n = Some (Some e)" "k \<in> fst ` set (deps e)"
  shows "k \<in> resolved cm" "r k < r n"
proof -
  have "counts_ok (deps e)" using assms(1,2) unfolding consistent_def map_wf_def by blast
  then have "made cm n k \<noteq> 0" using assms(2,3) counts_ok_key by (simp add: made_def)
  moreover have "n \<noteq> mainRequester"
  proof
    assume "n = mainRequester"
    then have "made cm n = (\<lambda>_. 0)" using assms(1) unfolding consistent_def by blast
    then show False using \<open>made cm n k \<noteq> 0\<close> by (simp add: fun_eq_iff)
  qed
  ultimately have "got cm n k \<noteq> 0" "r k < r n" using assms(1) unfolding consistent_def by metis+
  then show "k \<in> resolved cm" "r k < r n" by (auto simp: got_def resolved_def split: option.splits)
qed

lemma resolved_key: "resolved cm \<subseteq> fst ` set cm"
  by (auto simp: resolved_def dest: map_of_SomeD intro: rev_image_eqI)

lemma consistent_key:
  assumes "consistent decl r cm" "n \<in> fst ` set cm"
  obtains e where "map_of cm n = Some (Some e)"
proof -
  have "n \<in> dom (map_of cm)" using assms(2) by (simp add: dom_map_of_fst)
  then obtain y where y: "map_of cm n = Some y" by blast
  have "n \<notin> in_progress cm" using assms(1) by (simp add: consistent_def)
  then show ?thesis using y that by (cases y) (auto simp: in_progress_def)
qed

lemma dfs_ok:
  assumes "consistent decl r cm" "topo_inv cm st" "r n < fuel" "\<forall>g \<in> gray st. r n < r g"
  shows "\<exists>st'. dfs fuel cm n st = Ok st' \<and> visits cm {n} st st'"
  using assms(2-)
proof (induction fuel arbitrary: n st)
  case (Suc fuel)
  show ?case
  proof (cases "n \<in> set (pending st)")
    case False
    then show ?thesis using Suc.prems(1) by (simp add: visits_def)
  next
    case True
    then have unvisited: "n \<notin> set (visited st)" using Suc.prems(3) by (auto simp: gray_def)
    have "n \<in> fst ` set cm" using True Suc.prems(1) unfolding topo_inv_def by blast
    then obtain e where e: "map_of cm n = Some (Some e)" using consistent_key[OF assms(1)] by blast
    note dep = consistent_entry[OF assms(1) e]
    let ?st = "st\<lparr>visited := set_Insert n (visited st)\<rparr>"
    have vs: "set (set_Insert n (visited st)) = insert n (set (visited st))" by (auto simp: set_Insert_def)
    have "topo_inv cm ?st" using Suc.prems(1) by (simp add: topo_inv_def)
    moreover have g: "gray ?st = insert n (gray st)" using True vs by (auto simp: gray_def)
    moreover have "r k < r g" if "k \<in> fst ` set (deps e)" "g \<in> gray ?st" for k g
    proof (cases "g = n")
      case False
      then have "r n < r g" using that(2) Suc.prems(3) g by simp
      then show ?thesis using dep(2)[OF that(1)] by simp
    qed (use dep(2)[OF that(1)] in simp)
    moreover have "\<exists>st'. dfs fuel cm k st0 = Ok st' \<and> visits cm {k} st0 st'"
      if "k \<in> fst ` set (deps e)" "topo_inv cm st0" "\<forall>g \<in> gray st0. r k < r g" for k st0
      using Suc.IH[OF that(2) _ that(3)] dep(2)[OF that(1)] Suc.prems(2) by simp
    ultimately obtain st1 where run: "dfs_loop (dfs fuel cm) (map fst (deps e)) ?st = Ok st1"
      and "visits cm (set (map fst (deps e))) ?st st1"
      using dfs_loop_ok[of "map fst (deps e)" cm r "dfs fuel cm" ?st] unfolding set_map by blast
    then have st1: "visits cm (fst ` set (deps e)) ?st st1" by simp
    have "fst ` set (deps e) \<subseteq> fst ` set cm" "n \<notin> fst ` set (deps e)" using dep resolved_key[of cm] by blast+
    from dfs_finish[OF st1 vs e True unvisited this] show ?thesis
      using True unvisited e run by (simp add: entry_component_def)
  qed
qed simp


lemma topo_loop_ok:
  assumes "consistent decl r cm" "topo_inv cm st" "gray st = {}" "\<forall>a \<in> fst ` set cm. r a < fuel" "length (pending st) < n"
  shows "\<exists>cs. topo_loop n fuel cm st = Ok cs \<and> topo_inv cm \<lparr>pending = [], visited = [], ordered = cs\<rparr>"
  using assms(2-)
proof (induction n arbitrary: st)
  case (Suc n)
  show ?case
  proof (cases "pending st")
    case Nil
    then show ?thesis using Suc.prems(1) by (simp add: topo_inv_def)
  next
    case (Cons seed rest)
    have "seed \<in> fst ` set cm" using Suc.prems(1) Cons unfolding topo_inv_def by auto
    then obtain st' where run: "dfs fuel cm seed st = Ok st'" and st': "visits cm {seed} st st'"
      using dfs_ok[OF assms(1) Suc.prems(1), of seed fuel] Suc.prems(2,3) by auto
    have inv: "topo_inv cm st'" and g: "gray st' = {}" and pend: "set (pending st') \<subseteq> set (pending st) - {seed}"
      using st' Suc.prems(2) by (auto simp: visits_def)
    have "distinct (pending st')" "distinct (pending st)" using inv Suc.prems(1) by (simp_all add: topo_inv_def)
    then have "length (pending st') < length (pending st)"
      using pend psubset_card_mono[of "set (pending st)" "set (pending st')"] Cons by (auto simp: distinct_card[symmetric])
    then show ?thesis using Suc.IH[OF inv g Suc.prems(3)] Suc.prems(4) run Cons by simp
  qed
qed simp

lemma CollectSet_keys: "map_ok cm \<Longrightarrow> iter_CollectSet (iter_MapKeys cm) = map fst cm"
proof -
  have "snd (iter_FromSlice xs (\<lambda>v s. (Continue, set_Insert v s)) acc) = acc @ xs" if "distinct (acc @ xs)" for xs acc :: "'a list"
    using that by (induction xs arbitrary: acc) (auto simp: set_Insert_def)
  from this[of "[]" "map fst cm"] show "map_ok cm \<Longrightarrow> ?thesis"
    by (simp add: iter_CollectSet_def iter_MapKeys_list map_ok_def)
qed

lemma toposort_ok:
  assumes "consistent decl r cm" "\<forall>a \<in> fst ` set cm. r a < fuel"
  shows "\<exists>cs. toposortComponentList fuel cm = Ok cs \<and> topo_inv cm \<lparr>pending = [], visited = [], ordered = cs\<rparr>"
proof -
  have ok: "map_ok cm" using assms(1) by (simp add: consistent_def map_wf_def)
  let ?st = "\<lparr>pending = map fst cm, visited = [], ordered = []\<rparr> :: 'a topo_state"
  have "topo_inv cm ?st" using ok by (simp add: topo_inv_def map_ok_def)
  then show ?thesis
    using topo_loop_ok[OF assms(1), of ?st fuel "Suc (length cm)"] assms(2)
    by (simp add: toposortComponentList_def CollectSet_keys[OF ok] gray_def)
qed

end
