(* ===== verification/ComponentTrim.thy ===== *)
theory ComponentTrim
  imports ComponentOrder
begin

text \<open>
  The removal of components that are not requested: counting requests finds exactly the components
  that are reachable from those main requires, over the requests that the options leave.
\<close>

section \<open>The requests in the map\<close>

abbreviation tmade :: "'d trimMap \<Rightarrow> string \<Rightarrow> string \<Rightarrow> int" where
  "tmade m a b \<equiv> count_of (tm_deps m a) b"

abbreviation tgot :: "'d trimMap \<Rightarrow> string \<Rightarrow> string \<Rightarrow> int" where
  "tgot m a b \<equiv> count_of (tm_requesters m b) a"

definition tmap_wf :: "'d trimMap \<Rightarrow> bool" where
  "tmap_wf m \<longleftrightarrow> map_ok m \<and> (\<forall>n c. map_of m n = Some c \<longrightarrow> nc_name c = n \<and> counts_ok (nc_deps c) \<and> counts_ok (nc_requesters c))"

lemma tmap_wf_counts:
  assumes "tmap_wf m"
  shows "counts_ok (tm_deps m n)" "counts_ok (tm_requesters m n)"
  using assms by (auto simp: tmap_wf_def tm_deps_def tm_requesters_def counts_ok_def split: option.split)

lemma set_deps_view:
  "tm_deps (set_deps n ds m) a = (if a = n \<and> a \<in> dom (map_of m) then ds else tm_deps m a)"
  "tm_requesters (set_deps n ds m) a = tm_requesters m a"
  "dom (map_of (set_deps n ds m)) = dom (map_of m)"
  "map_option Comp (map_of (set_deps n ds m) a) = map_option Comp (map_of m a)"
  by (auto simp: set_deps_def tm_deps_def tm_requesters_def split: option.splits)

lemma set_requesters_view:
  "tm_requesters (set_requesters n rs m) a = (if a = n \<and> a \<in> dom (map_of m) then rs else tm_requesters m a)"
  "tm_deps (set_requesters n rs m) a = tm_deps m a"
  "dom (map_of (set_requesters n rs m)) = dom (map_of m)"
  "map_option Comp (map_of (set_requesters n rs m) a) = map_option Comp (map_of m a)"
  by (auto simp: set_requesters_def tm_deps_def tm_requesters_def split: option.splits)

lemma tmap_wf_set [simp]:
  "tmap_wf m \<Longrightarrow> counts_ok ds \<Longrightarrow> tmap_wf (set_deps n ds m)"
  "tmap_wf m \<Longrightarrow> counts_ok rs \<Longrightarrow> tmap_wf (set_requesters n rs m)"
  by (auto simp: tmap_wf_def set_deps_def set_requesters_def split: option.splits)

lemma tm_absent: "n \<notin> dom (map_of m) \<Longrightarrow> tm_deps m n = []" "n \<notin> dom (map_of m) \<Longrightarrow> tm_requesters m n = []"
  by (auto simp: tm_deps_def tm_requesters_def split: option.split)

text \<open>Every component has made as many requests as its dependencies have received from it.\<close>

definition synced :: "'d trimMap \<Rightarrow> bool" where
  "synced m \<longleftrightarrow> tmap_wf m \<and> mainRequester \<notin> dom (map_of m) \<and> (\<forall>a b. a \<noteq> mainRequester \<longrightarrow> tmade m a b = tgot m a b)"

section \<open>Requests that the options withdraw\<close>

lemma unrequest_loop_ok:
  assumes "synced m" "c \<in> dom (map_of m)" "\<And>b. int (count_list ds b) \<le> tmade m c b"
  shows "\<exists>m'. unrequest_loop c ds m = Some m' \<and> synced m' \<and> dom (map_of m') = dom (map_of m)
    \<and> (\<forall>a b. tmade m' a b = tmade m a b - (if a = c then int (count_list ds b) else 0))
    \<and> (\<forall>b. tgot m' mainRequester b = tgot m mainRequester b)
    \<and> (\<forall>n. map_option Comp (map_of m' n) = map_option Comp (map_of m n))"
  using assms
proof (induction ds arbitrary: m)
  case (Cons d ds)
  let ?k = "tmade m c d"
  have main: "c \<noteq> mainRequester" using Cons.prems(1,2) by (auto simp: synced_def)
  have same: "?k = tgot m c d" using Cons.prems(1) main unfolding synced_def by blast
  have pos: "0 < ?k" using Cons.prems(3)[of d] by simp
  have d: "d \<in> dom (map_of m)" using pos same tm_absent(2)[of d m] by (cases "d \<in> dom (map_of m)") auto
  have wf: "tmap_wf m" using Cons.prems(1) by (simp add: synced_def)
  let ?m = "if ?k - 1 = 0 then set_requesters d (map_del c (tm_requesters m d)) (set_deps c (map_del d (tm_deps m c)) m)
     else set_requesters d (map_put c (?k - 1) (tm_requesters m d)) (set_deps c (map_put d (?k - 1) (tm_deps m c)) m)"
  have made: "tmade ?m a b = tmade m a b - (if a = c \<and> b = d then 1 else 0)" for a b
    using Cons.prems(2) by (simp add: set_deps_view set_requesters_view)
  have got: "tgot ?m a b = tgot m a b - (if a = c \<and> b = d then 1 else 0)" for a b
    using d same by (simp add: set_deps_view set_requesters_view)
  have dom': "dom (map_of ?m) = dom (map_of m)" by (simp add: set_deps_view set_requesters_view)
  have "tmap_wf ?m" using tmap_wf_counts[OF wf] wf pos by (simp add: counts_ok_put)
  then have "synced ?m" using Cons.prems(1) unfolding synced_def dom' made got by simp
  moreover have "c \<in> dom (map_of ?m)" using Cons.prems(2) unfolding dom' .
  moreover have "int (count_list ds b) \<le> tmade ?m c b" for b
    using Cons.prems(3)[of b] unfolding made by (auto split: if_splits)
  ultimately obtain m' where m': "unrequest_loop c ds ?m = Some m'" "synced m'" "dom (map_of m') = dom (map_of ?m)"
    "\<And>a b. tmade m' a b = tmade ?m a b - (if a = c then int (count_list ds b) else 0)"
    "\<And>b. tgot m' mainRequester b = tgot ?m mainRequester b"
    "\<And>n. map_option Comp (map_of m' n) = map_option Comp (map_of ?m n)"
    using Cons.IH[of ?m] by blast
  have "unrequest_loop c (d # ds) m = Some m'" using m'(1) same pos by (simp add: Let_def split: if_splits)
  moreover have "map_option Comp (map_of ?m n) = map_option Comp (map_of m n)" for n
    by (simp add: set_deps_view set_requesters_view)
  ultimately show ?case using m' main unfolding made got dom' by (intro exI[of _ m']) auto
qed auto

definition drop_main :: "(string \<Rightarrow> bool) \<Rightarrow> string \<Rightarrow> 'd trimMap \<Rightarrow> 'd trimMap" where
  "drop_main fromMain c m = (if map_of (tm_requesters m c) mainRequester \<noteq> None \<and> \<not> fromMain c
     then set_requesters c (map_del mainRequester (tm_requesters m c)) m else m)"

lemma drop_main_ok:
  assumes "synced m" "c \<in> dom (map_of m)"
  shows "synced (drop_main fromMain c m)" "dom (map_of (drop_main fromMain c m)) = dom (map_of m)"
    "tmade (drop_main fromMain c m) a b = tmade m a b"
    "tgot (drop_main fromMain c m) mainRequester b = (if b = c \<and> \<not> fromMain c then 0 else tgot m mainRequester b)"
    "map_option Comp (map_of (drop_main fromMain c m) n) = map_option Comp (map_of m n)"
proof -
  have got: "tgot (drop_main fromMain c m) a b = (if a = mainRequester \<and> b = c \<and> \<not> fromMain c then 0 else tgot m a b)" for a b
    using assms(2) by (auto simp: drop_main_def set_requesters_view count_of_def split: option.splits)
  then show "tgot (drop_main fromMain c m) mainRequester b = (if b = c \<and> \<not> fromMain c then 0 else tgot m mainRequester b)"
    by simp
  show made: "tmade (drop_main fromMain c m) a b = tmade m a b" for a b by (simp add: drop_main_def set_requesters_view)
  show dom': "dom (map_of (drop_main fromMain c m)) = dom (map_of m)" by (simp add: drop_main_def set_requesters_view)
  have "tmap_wf (drop_main fromMain c m)"
    using assms(1) tmap_wf_counts[of m c] by (simp add: drop_main_def synced_def)
  then show "synced (drop_main fromMain c m)" using assms(1) unfolding synced_def made got dom' by simp
  show "map_option Comp (map_of (drop_main fromMain c m) n) = map_option Comp (map_of m n)"
    by (simp add: drop_main_def set_requesters_view)
qed

lemma removeDirectDeps_ok:
  assumes "synced m" "set cs \<subseteq> dom (map_of m)" "distinct cs" "\<And>c b. c \<in> set cs \<Longrightarrow> int (count_list (unreq c) b) \<le> tmade m c b"
  shows "\<exists>m'. removeDirectDeps fromMain unreq cs m = Some m' \<and> synced m' \<and> dom (map_of m') = dom (map_of m)
    \<and> (\<forall>a b. tmade m' a b = tmade m a b - (if a \<in> set cs then int (count_list (unreq a) b) else 0))
    \<and> (\<forall>b. tgot m' mainRequester b = (if b \<in> set cs \<and> \<not> fromMain b then 0 else tgot m mainRequester b))
    \<and> (\<forall>n. map_option Comp (map_of m' n) = map_option Comp (map_of m n))"
  using assms
proof (induction cs arbitrary: m)
  case (Cons c cs)
  let ?m1 = "drop_main fromMain c m"
  have c: "c \<in> dom (map_of m)" using Cons.prems(2) by simp
  note drop = drop_main_ok[OF Cons.prems(1) c, of fromMain]
  obtain m2 where run: "unrequest_loop c (unreq c) ?m1 = Some m2" and m2: "synced m2" "dom (map_of m2) = dom (map_of ?m1)"
    "\<And>a b. tmade m2 a b = tmade ?m1 a b - (if a = c then int (count_list (unreq c) b) else 0)"
    "\<And>b. tgot m2 mainRequester b = tgot ?m1 mainRequester b" "\<And>n. map_option Comp (map_of m2 n) = map_option Comp (map_of ?m1 n)"
    using unrequest_loop_ok[OF drop(1), of c "unreq c"] c Cons.prems(4)[of c] unfolding drop by auto
  note m2' = m2[unfolded drop]
  have "int (count_list (unreq a) b) \<le> tmade m2 a b" if "a \<in> set cs" for a b
    using Cons.prems(4)[of a b] Cons.prems(3) that by (auto simp: m2'(3))
  then obtain m' where m': "removeDirectDeps fromMain unreq cs m2 = Some m'" "synced m'" "dom (map_of m') = dom (map_of m2)"
    "\<And>a b. tmade m' a b = tmade m2 a b - (if a \<in> set cs then int (count_list (unreq a) b) else 0)"
    "\<And>b. tgot m' mainRequester b = (if b \<in> set cs \<and> \<not> fromMain b then 0 else tgot m2 mainRequester b)"
    "\<And>n. map_option Comp (map_of m' n) = map_option Comp (map_of m2 n)"
    using Cons.IH[OF m2'(1)] Cons.prems(2,3) m2'(2) by auto
  have "removeDirectDeps fromMain unreq (c # cs) m = Some m'"
    using run m'(1) by (simp add: Let_def drop_main_def)
  then show ?case using m' m2' Cons.prems(3) by (intro exI[of _ m']) auto
qed auto


section \<open>Shaking the tree\<close>

text \<open>The components that main still requires, directly or through others.\<close>

inductive live :: "'d trimMap \<Rightarrow> string \<Rightarrow> bool" for m where
  root: "tgot m mainRequester n \<noteq> 0 \<Longrightarrow> live m n"
| dep: "live m a \<Longrightarrow> tmade m a b \<noteq> 0 \<Longrightarrow> live m b"

lemma live_cases:
  assumes "live m n" "synced m"
  shows "\<exists>a. tgot m a n \<noteq> 0 \<and> (a = mainRequester \<or> (live m a \<and> a \<noteq> mainRequester))"
  using assms(1)
proof cases
  case root
  then show ?thesis by blast
next
  case (dep a)
  have "a \<in> dom (map_of m)" using dep(2) tm_absent(1)[of a m] by (cases "a \<in> dom (map_of m)") simp_all
  then have "a \<noteq> mainRequester" using assms(2) unfolding synced_def by blast
  moreover have "tgot m a n \<noteq> 0" using dep(2) assms(2) calculation unfolding synced_def by metis
  ultimately show ?thesis using dep(1) by blast
qed

definition shaken :: "'d trimMap \<Rightarrow> 'd trimMap \<Rightarrow> bool" where
  "shaken m0 m \<longleftrightarrow> tmap_wf m \<and> dom (map_of m) \<subseteq> dom (map_of m0) \<and> {n. live m0 n} \<subseteq> dom (map_of m)
     \<and> (\<forall>a \<in> dom (map_of m). tm_deps m a = tm_deps m0 a \<and> map_option Comp (map_of m a) = map_option Comp (map_of m0 a))
     \<and> (\<forall>a. \<forall>b \<in> dom (map_of m). tgot m a b = (if a = mainRequester \<or> a \<in> dom (map_of m) then tgot m0 a b else 0))"

abbreviation drop_requester :: "string \<Rightarrow> string list \<Rightarrow> 'd trimMap \<Rightarrow> 'd trimMap" where
  "drop_requester c ds m \<equiv> foldl (\<lambda>m dep. set_requesters dep (map_del c (tm_requesters m dep)) m) m ds"

lemma map_del_idem [simp]: "map_del k (map_del k m) = map_del k m"
  by (simp add: map_del_def)

lemma drop_requester_view:
  "tm_requesters (drop_requester c ds m) n = (if n \<in> set ds then map_del c (tm_requesters m n) else tm_requesters m n)"
  "tm_deps (drop_requester c ds m) n = tm_deps m n"
  "dom (map_of (drop_requester c ds m)) = dom (map_of m)"
  "map_option Comp (map_of (drop_requester c ds m) n) = map_option Comp (map_of m n)"
proof -
  have one: "tm_requesters (set_requesters d (map_del c (tm_requesters m d)) m) n =
      (if n = d then map_del c (tm_requesters m n) else tm_requesters m n)" for d n and m :: "'a trimMap"
  proof (cases "n \<in> dom (map_of m)")
    case False
    then show ?thesis using tm_absent(2)[of n m] by (cases "n = d") (simp_all add: set_requesters_view(1) map_del_def)
  qed (simp add: set_requesters_view(1))
  show "tm_requesters (drop_requester c ds m) n = (if n \<in> set ds then map_del c (tm_requesters m n) else tm_requesters m n)"
    by (induction ds arbitrary: m) (simp_all add: one)
qed (induction ds arbitrary: m; simp add: set_requesters_view)+

lemma tmap_wf_drop: "tmap_wf m \<Longrightarrow> tmap_wf (drop_requester c ds m)"
proof (induction ds arbitrary: m)
  case (Cons d ds)
  have "tmap_wf (set_requesters d (map_del c (tm_requesters m d)) m)"
    using Cons.prems tmap_wf_counts(2)[OF Cons.prems] by simp
  then show ?case using Cons.IH by simp
qed simp

lemma map_del_view:
  "tm_deps (map_del c m) n = (if n = c then [] else tm_deps m n)"
  "tm_requesters (map_del c m) n = (if n = c then [] else tm_requesters m n)"
  by (simp_all add: tm_deps_def tm_requesters_def)

lemma tmap_wf_del: "tmap_wf m \<Longrightarrow> tmap_wf (map_del c m)"
  by (simp add: tmap_wf_def)

lemma shaken_remove:
  assumes "synced m0" "shaken m0 m" "c \<in> dom (map_of m)" "sum_list (map snd (tm_requesters m c)) = 0"
  shows "shaken m0 (map_del c (drop_requester c (map fst (tm_deps m c)) m))"
proof -
  note sh = assms(2)[unfolded shaken_def]
  let ?m = "map_del c (drop_requester c (map fst (tm_deps m c)) m)"
  have wf: "tmap_wf m" using sh by blast
  have none: "tgot m a c = 0" for a using counts_ok_sum[OF tmap_wf_counts(2)[OF wf]] assms(4) by blast
  have main: "c \<noteq> mainRequester" using assms(1,3) sh unfolding synced_def by blast
  have dom': "dom (map_of ?m) = dom (map_of m) - {c}" by (simp add: drop_requester_view)
  have "\<not> live m0 c"
  proof
    assume "live m0 c"
    then obtain a where a: "tgot m0 a c \<noteq> 0" "a = mainRequester \<or> live m0 a" using live_cases[OF _ assms(1)] by blast
    then have "tgot m a c = tgot m0 a c" using sh assms(3) by auto
    then show False using a(1) none by simp
  qed
  moreover have "tgot ?m a b = (if a = mainRequester \<or> a \<in> dom (map_of ?m) then tgot m0 a b else 0)"
    if b: "b \<in> dom (map_of ?m)" for a b
  proof -
    have bm: "b \<in> dom (map_of m)" "b \<noteq> c" using b dom' by auto
    have old: "tgot m a b = (if a = mainRequester \<or> a \<in> dom (map_of m) then tgot m0 a b else 0)" using sh bm(1) by blast
    have "tgot m c b = 0" if "b \<notin> fst ` set (tm_deps m c)"
    proof -
      have "tmade m c b = 0" using that counts_ok_key[OF tmap_wf_counts(1)[OF wf]] by blast
      moreover have "tmade m c b = tmade m0 c b" using sh assms(3) by auto
      moreover have "tgot m c b = tgot m0 c b" using sh assms(3) bm(1) by auto
      ultimately show ?thesis using assms(1) main unfolding synced_def by metis
    qed
    then have "tgot ?m a b = (if a = c then 0 else tgot m a b)"
      using bm(2) by (auto simp: map_del_view drop_requester_view)
    then show ?thesis using old main unfolding dom' by auto
  qed
  moreover have "tm_deps ?m a = tm_deps m0 a \<and> map_option Comp (map_of ?m a) = map_option Comp (map_of m0 a)"
    if "a \<in> dom (map_of ?m)" for a
  proof -
    have "a \<in> dom (map_of m)" "a \<noteq> c" using that dom' by auto
    then show ?thesis using sh by (simp add: map_del_view drop_requester_view)
  qed
  ultimately show ?thesis
    unfolding shaken_def using sh tmap_wf_del[OF tmap_wf_drop[OF wf]] unfolding dom' by blast
qed

lemma shake_loop_shaken:
  assumes "synced m0" "shaken m0 m" "distinct names" "set names \<subseteq> dom (map_of m)"
  shows "shaken m0 (snd (shake_loop names m b))"
    and "\<not> fst (shake_loop names m b) \<Longrightarrow> snd (shake_loop names m b) = m \<and> \<not> b
      \<and> (\<forall>n \<in> set names. sum_list (map snd (tm_requesters m n)) \<noteq> 0)"
proof -
  have "shaken m0 (snd (shake_loop names m b)) \<and> (\<not> fst (shake_loop names m b) \<longrightarrow>
      snd (shake_loop names m b) = m \<and> \<not> b \<and> (\<forall>n \<in> set names. sum_list (map snd (tm_requesters m n)) \<noteq> 0))"
    using assms(2-)
  proof (induction names m b rule: shake_loop.induct)
    case (2 c names m b)
    show ?case
    proof (cases "sum_list (map snd (tm_requesters m c)) = 0")
      case True
      let ?m = "map_del c (drop_requester c (map fst (tm_deps m c)) m)"
      have "shaken m0 ?m" using shaken_remove[OF assms(1) "2.prems"(1) _ True] "2.prems"(3) by simp
      moreover have "set names \<subseteq> dom (map_of ?m)" using "2.prems"(2,3) by (auto simp: drop_requester_view)
      moreover have "distinct names" using "2.prems"(2) by simp
      ultimately have "shaken m0 (snd (shake_loop names ?m True)) \<and> (\<not> fst (shake_loop names ?m True) \<longrightarrow>
          snd (shake_loop names ?m True) = ?m \<and> \<not> True \<and> (\<forall>n \<in> set names. sum_list (map snd (tm_requesters ?m n)) \<noteq> 0))"
        using "2.IH"(1)[OF True] by blast
      then show ?thesis using True by simp
    next
      case False
      then show ?thesis using "2.IH"(2)[OF False] "2.prems" by auto
    qed
  qed simp
  then show "shaken m0 (snd (shake_loop names m b))" "\<not> fst (shake_loop names m b) \<Longrightarrow> snd (shake_loop names m b) = m \<and> \<not> b
      \<and> (\<forall>n \<in> set names. sum_list (map snd (tm_requesters m n)) \<noteq> 0)" by blast+
qed

lemma shakeTree_shaken:
  assumes "synced m0" "shaken m0 m"
  shows "shaken m0 (shakeTree m) \<and> (\<forall>n \<in> dom (map_of (shakeTree m)). sum_list (map snd (tm_requesters (shakeTree m) n)) \<noteq> 0)"
  using assms(2)
proof (induction m rule: shakeTree.induct)
  case (1 m)
  have "map_ok m" using 1(2) by (simp add: shaken_def tmap_wf_def)
  then have "distinct (map fst m)" "set (map fst m) \<subseteq> dom (map_of m)" by (simp_all add: map_ok_def dom_map_of_fst)
  note loop = shake_loop_shaken[OF assms(1) 1(2) this, of False]
  show ?case
  proof (cases "fst (shakeTreeOnce m)")
    case True
    then show ?thesis using 1(1)[OF True] loop(1) by (subst (1 2 3) shakeTree.simps) (simp add: shakeTreeOnce_def)
  next
    case False
    then have "shakeTree m = m" "\<forall>n \<in> set (map fst m). sum_list (map snd (tm_requesters m n)) \<noteq> 0"
      using loop(2) by (simp_all add: shakeTree.simps[of m] shakeTreeOnce_def)
    then show ?thesis using 1(2) by (simp add: dom_map_of_fst)
  qed
qed

lemma shakeTree_live:
  assumes "synced m0" "\<And>a b. tmade m0 a b \<noteq> 0 \<Longrightarrow> r b < (r a :: nat)" "\<And>a. a \<in> dom (map_of m0) \<Longrightarrow> r a < r mainRequester"
  shows "dom (map_of (shakeTree m0)) = {n. live m0 n}" "shaken m0 (shakeTree m0)"
proof -
  have present: "live m0 n \<Longrightarrow> n \<in> dom (map_of m0)" for n
    using live_cases[OF _ assms(1), of n] tm_absent(2)[of n m0] by (cases "n \<in> dom (map_of m0)") auto
  have "tgot m0 a b = 0" if "a \<noteq> mainRequester" "a \<notin> dom (map_of m0)" for a b
  proof -
    have "tgot m0 a b = tmade m0 a b" using assms(1) that(1) unfolding synced_def by metis
    then show ?thesis using tm_absent(1)[OF that(2)] by simp
  qed
  then have "shaken m0 m0" using assms(1) present by (auto simp: shaken_def synced_def)
  note sh = shakeTree_shaken[OF assms(1) this]
  then show shk: "shaken m0 (shakeTree m0)" by blast
  let ?m = "shakeTree m0"
  have "live m0 n" if "n \<in> dom (map_of ?m)" for n
    using that
  proof (induction "r mainRequester - r n" arbitrary: n rule: less_induct)
    case less
    have "tmap_wf ?m" using shk by (simp add: shaken_def)
    then obtain a where "tgot ?m a n \<noteq> 0"
      using sh less.prems counts_ok_sum[OF tmap_wf_counts(2)[of ?m n]] by blast
    then have a: "a = mainRequester \<or> a \<in> dom (map_of ?m)" "tgot m0 a n \<noteq> 0"
      using shk less.prems unfolding shaken_def by (auto split: if_splits)
    show ?case
    proof (cases "a = mainRequester")
      case True
      then show ?thesis using a(2) live.root by blast
    next
      case False
      then have edge: "tmade m0 a n \<noteq> 0" using a(2) assms(1) unfolding synced_def by metis
      have "a \<in> dom (map_of m0)" using a(1) False shk unfolding shaken_def by blast
      then have "r mainRequester - r a < r mainRequester - r n" using assms(2)[OF edge] assms(3) by fastforce
      then have "live m0 a" using less.hyps a(1) False by blast
      then show ?thesis using edge by (rule live.dep)
    qed
  qed
  then show "dom (map_of ?m) = {n. live m0 n}" using shk unfolding shaken_def by blast
qed


section \<open>The components that are enabled\<close>

inductive enabled :: "'d NamedComponent list \<Rightarrow> (string \<Rightarrow> bool) \<Rightarrow> (string \<Rightarrow> string list) \<Rightarrow> string \<Rightarrow> bool" for cs fromMain unreq where
  main: "c \<in> set cs \<Longrightarrow> count_of (nc_requesters c) mainRequester \<noteq> 0 \<Longrightarrow> fromMain (nc_name c) \<Longrightarrow> enabled cs fromMain unreq (nc_name c)"
| needed: "c \<in> set cs \<Longrightarrow> enabled cs fromMain unreq (nc_name c) \<Longrightarrow> int (count_list (unreq (nc_name c)) b) < count_of (nc_deps c) b \<Longrightarrow>
    enabled cs fromMain unreq b"

text \<open>What \<open>ResolveList\<close> returns.\<close>

definition resolution :: "(string \<Rightarrow> nat) \<Rightarrow> 'd NamedComponent list \<Rightarrow> bool" where
  "resolution r cs \<longleftrightarrow> distinct (map nc_name cs) \<and> deps_first {} cs
     \<and> (\<forall>c \<in> set cs. r (nc_name c) < r mainRequester \<and> counts_ok (nc_deps c) \<and> counts_ok (nc_requesters c)
          \<and> (\<forall>b. count_of (nc_deps c) b \<noteq> 0 \<longrightarrow> r b < r (nc_name c)))
     \<and> synced (map (\<lambda>c. (nc_name c, c)) cs)"

lemma SliceToMap_distinct: "distinct (map keyFn xs) \<Longrightarrow> SliceToMap xs keyFn = map (\<lambda>x. (keyFn x, x)) xs"
proof -
  have "foldl (\<lambda>out x. map_put (keyFn x) x out) acc xs = acc @ map (\<lambda>x. (keyFn x, x)) xs"
    if "distinct (map fst acc @ map keyFn xs)" for acc
    using that by (induction xs arbitrary: acc) (auto simp: map_put_new image_iff)
  from this[of "[]"] show "distinct (map keyFn xs) \<Longrightarrow> ?thesis" by (simp add: SliceToMap_def)
qed

lemma named_map:
  assumes "distinct (map nc_name cs)" "c \<in> set cs"
  shows "map_of (map (\<lambda>c. (nc_name c, c)) cs) (nc_name c) = Some c"
    "tm_deps (map (\<lambda>c. (nc_name c, c)) cs) (nc_name c) = nc_deps c"
    "tm_requesters (map (\<lambda>c. (nc_name c, c)) cs) (nc_name c) = nc_requesters c"
proof -
  show m: "map_of (map (\<lambda>c. (nc_name c, c)) cs) (nc_name c) = Some c"
    using assms by (induction cs) (auto simp: image_iff)
  then show "tm_deps (map (\<lambda>c. (nc_name c, c)) cs) (nc_name c) = nc_deps c"
    "tm_requesters (map (\<lambda>c. (nc_name c, c)) cs) (nc_name c) = nc_requesters c" by (simp_all add: tm_deps_def tm_requesters_def)
qed

lemma dom_named: "dom (map_of (map (\<lambda>c. (nc_name c, c)) cs)) = nc_name ` set cs"
  by (simp add: dom_map_of_conv_image_fst image_image)

lemma consistent_resolution:
  assumes "ranked r decl" "consistent decl r cm" "topo_inv cm \<lparr>pending = [], visited = [], ordered = cs\<rparr>"
  shows "resolution r cs"
    and "c \<in> set cs \<Longrightarrow> d_name (decl (Comp c)) = nc_name c"
    and "nc_name ` set cs = resolved cm"
    and "c \<in> set cs \<Longrightarrow> count_of (nc_requesters c) mainRequester = got cm mainRequester (nc_name c)"
proof -
  let ?m = "map (\<lambda>c. (nc_name c, c)) cs"
  have inv: "distinct (map nc_name cs)" "deps_first {} cs" "nc_name ` set cs = fst ` set cm"
    "\<forall>c \<in> set cs. \<exists>e. map_of cm (nc_name c) = Some (Some e) \<and> c = entry_component (nc_name c) e"
    using assms(3) by (simp_all add: topo_inv_def)
  note con = assms(2)[unfolded consistent_def]
  have "fst ` set cm \<subseteq> resolved cm"
    using consistent_key[OF assms(2)] by (auto simp: resolved_def)
  then show names: "nc_name ` set cs = resolved cm" using inv(3) resolved_key[of cm] by (simp add: subset_antisym)
  have entry: "map_of cm (nc_name c) = Some (Some \<lparr>comp = Comp c, requesters = nc_requesters c, deps = nc_deps c\<rparr>)"
    if c: "c \<in> set cs" for c
  proof -
    obtain e where e: "map_of cm (nc_name c) = Some (Some e)" "c = entry_component (nc_name c) e" using inv(4) c by blast
    have "Comp c = comp e" "nc_requesters c = requesters e" "nc_deps c = deps e"
      by (subst e(2), simp add: entry_component_def)+
    then show ?thesis using e(1) by simp
  qed
  show named: "d_name (decl (Comp c)) = nc_name c" if "c \<in> set cs" for c
    using con entry[OF that] unfolding map_wf_def by fastforce
  have wf: "counts_ok (nc_deps c)" "counts_ok (nc_requesters c)" if "c \<in> set cs" for c
    using con entry[OF that] unfolding map_wf_def by fastforce+
  have rank: "r (nc_name c) < r mainRequester" if "c \<in> set cs" for c
    using ranked_lower(3)[OF assms(1), of "Comp c"] named[OF that] by simp
  show got: "count_of (nc_requesters c) mainRequester = got cm mainRequester (nc_name c)" if "c \<in> set cs" for c
    by (simp add: got_def entry[OF that])
  have absent: "map_of cm a = None" if "a \<notin> nc_name ` set cs" for a using that inv(3) by (simp add: map_of_eq_None_iff)
  have made_eq: "tmade ?m a b = made cm a b" for a b
  proof (cases "a \<in> nc_name ` set cs")
    case True
    then obtain c where c: "c \<in> set cs" "a = nc_name c" by blast
    then show ?thesis using named_map(2)[OF inv(1) c(1)] by (simp add: made_def entry)
  qed (simp add: tm_absent(1) dom_named made_def absent)
  have got_eq: "tgot ?m a b = got cm a b" for a b
  proof (cases "b \<in> nc_name ` set cs")
    case True
    then obtain c where c: "c \<in> set cs" "b = nc_name c" by blast
    then show ?thesis using named_map(3)[OF inv(1) c(1)] by (simp add: got_def entry)
  qed (simp add: tm_absent(2) dom_named got_def absent)
  have "nc_name c = n \<and> counts_ok (nc_deps c) \<and> counts_ok (nc_requesters c)" if "map_of ?m n = Some c" for n c
  proof -
    have "c \<in> set cs" "nc_name c = n" using map_of_SomeD[OF that] by auto
    then show ?thesis using wf by blast
  qed
  moreover have "map_ok ?m" using inv(1) by (simp add: map_ok_def o_def)
  ultimately have "tmap_wf ?m" unfolding tmap_wf_def by blast
  moreover have "mainRequester \<notin> dom (map_of ?m)"
  proof
    assume "mainRequester \<in> dom (map_of ?m)"
    then obtain c where "c \<in> set cs" "nc_name c = mainRequester" by (auto simp: dom_named)
    then show False using rank[of c] by simp
  qed
  ultimately have "synced ?m" using con by (simp add: synced_def made_eq got_eq)
  moreover have "r b < r (nc_name c)" if "c \<in> set cs" "count_of (nc_deps c) b \<noteq> 0" for c b
  proof -
    have "made cm (nc_name c) b \<noteq> 0" using that(2) by (simp add: made_def entry[OF that(1)])
    then show ?thesis using con by blast
  qed
  ultimately show "resolution r cs" using inv(1,2) wf rank unfolding resolution_def by blast
qed

lemma ResolveList_resolution:
  assumes "ranked r decl" "r mainRequester \<le> fuel"
  shows "\<exists>cs. ResolveList fuel decl requests = Ok cs \<and> resolution r cs
    \<and> (\<forall>c \<in> set cs. d_name (decl (Comp c)) = nc_name c
         \<and> count_of (nc_requesters c) mainRequester = int (length (filter (\<lambda>d. d_name (decl d) = nc_name c) requests)))
    \<and> (\<lambda>d. d_name (decl d)) ` set requests \<subseteq> nc_name ` set cs"
proof -
  obtain cm where cm: "resolve_all fuel decl requests [] = Ok cm" "consistent decl r cm"
    "(\<lambda>d. d_name (decl d)) ` set requests \<subseteq> resolved cm"
    "\<forall>b. got cm mainRequester b = int (length (filter (\<lambda>d. d_name (decl d) = b) requests))"
    using resolve_all_ok[OF assms(1) consistent_Nil assms(2), of requests]
    by (elim exE conjE) (rule that, simp_all add: got_def[of "[]"])
  have "r a < fuel" if key: "a \<in> fst ` set cm" for a
  proof -
    obtain e where "map_of cm a = Some (Some e)" using consistent_key[OF cm(2) key] by blast
    then have "d_name (decl (comp e)) = a" using cm(2) unfolding consistent_def map_wf_def by blast
    then show ?thesis using ranked_lower(3)[OF assms(1), of "comp e"] assms(2) by simp
  qed
  then obtain cs where cs: "toposortComponentList fuel cm = Ok cs" "topo_inv cm \<lparr>pending = [], visited = [], ordered = cs\<rparr>"
    using toposort_ok[OF cm(2)] by blast
  note res = consistent_resolution[OF assms(1) cm(2) cs(2)]
  have "ResolveList fuel decl requests = Ok cs" by (simp add: ResolveList_def cm(1) cs(1))
  moreover have "count_of (nc_requesters c) mainRequester = int (length (filter (\<lambda>d. d_name (decl d) = nc_name c) requests))"
    if "c \<in> set cs" for c using res(4)[OF that] cm(4) by (simp add: got_def)
  ultimately show ?thesis using res(1-3) cm(3) by blast
qed


section \<open>What trimming keeps\<close>

lemma live_enabled:
  assumes "distinct (map nc_name cs)" "mainRequester \<notin> nc_name ` set cs"
    and "\<And>a b. tmade m a b = tmade (map (\<lambda>c. (nc_name c, c)) cs) a b - (if a \<in> nc_name ` set cs then int (count_list (unreq a) b) else 0)"
    and "\<And>b. tgot m mainRequester b =
        (if b \<in> nc_name ` set cs \<and> \<not> fromMain b then 0 else tgot (map (\<lambda>c. (nc_name c, c)) cs) mainRequester b)"
    and "\<And>a b. a \<in> nc_name ` set cs \<Longrightarrow> 0 \<le> tmade m a b"
  shows "live m n \<longleftrightarrow> enabled cs fromMain unreq n"
proof
  let ?m = "map (\<lambda>c. (nc_name c, c)) cs"
  have present: "\<exists>c \<in> set cs. n = nc_name c" if "tm_deps ?m n \<noteq> [] \<or> tm_requesters ?m n \<noteq> []" for n
    using that tm_absent[of n ?m] by (auto simp: dom_named)
  show "enabled cs fromMain unreq n" if "live m n"
    using that
  proof induction
    case (root n)
    then have got: "tgot ?m mainRequester n \<noteq> 0" "n \<in> nc_name ` set cs \<longrightarrow> fromMain n" using assms(4)[of n] by (auto split: if_splits)
    then have "tm_requesters ?m n \<noteq> []" by auto
    then obtain c where c: "c \<in> set cs" "n = nc_name c" using present by blast
    then show ?case using got named_map(3)[OF assms(1) c(1)] enabled.main[OF c(1)] by auto
  next
    case (dep a b)
    then have "a \<in> nc_name ` set cs" using assms(3)[of a b] tm_absent(1)[of a ?m] by (auto simp: dom_named split: if_splits)
    then obtain c where c: "c \<in> set cs" "a = nc_name c" by blast
    then have "int (count_list (unreq a) b) < count_of (nc_deps c) b"
      using dep(2) assms(3)[of a b] assms(5)[of a b] named_map(2)[OF assms(1) c(1)] by auto
    then show ?case using dep(3) c enabled.needed by metis
  qed
  show "live m n" if "enabled cs fromMain unreq n"
    using that
  proof induction
    case (main c)
    then have "tgot m mainRequester (nc_name c) \<noteq> 0" using assms(4)[of "nc_name c"] named_map(3)[OF assms(1) main(1)] by simp
    then show ?case by (rule live.root)
  next
    case (needed c b)
    then have "tmade m (nc_name c) b \<noteq> 0" using assms(3)[of "nc_name c" b] named_map(2)[OF assms(1) needed(1)] by simp
    then show ?case using needed(4) live.dep by blast
  qed
qed

lemma map_filter_view:
  assumes "\<And>c c'. c \<in> set cs \<Longrightarrow> f c = Some c' \<Longrightarrow> g c' = g c" "\<And>c. c \<in> set cs \<Longrightarrow> f c \<noteq> None \<longleftrightarrow> P c"
  shows "map g (List.map_filter f cs) = map g (filter P cs)"
  using assms by (induction cs) (force simp: List.map_filter_simps split: option.split)+

lemma deps_first_trim:
  assumes "deps_first before cs"
    and "\<And>c c'. c \<in> set cs \<Longrightarrow> f c = Some c' \<Longrightarrow> nc_name c' = nc_name c \<and> fst ` set (nc_deps c') \<subseteq> fst ` set (nc_deps c) \<inter> P"
    and "\<And>c. c \<in> set cs \<Longrightarrow> f c \<noteq> None \<longleftrightarrow> nc_name c \<in> P"
  shows "deps_first (before \<inter> P) (List.map_filter f cs)"
  using assms
proof (induction cs arbitrary: before)
  case (Cons c cs)
  have rest: "deps_first (insert (nc_name c) before \<inter> P) (List.map_filter f cs)"
  proof (rule Cons.IH)
    show "deps_first (insert (nc_name c) before) cs" using Cons.prems(1) by simp
    show "nc_name d' = nc_name d \<and> fst ` set (nc_deps d') \<subseteq> fst ` set (nc_deps d) \<inter> P" if "d \<in> set cs" "f d = Some d'" for d d'
      using Cons.prems(2)[of d d'] that by simp
    show "f d \<noteq> None \<longleftrightarrow> nc_name d \<in> P" if "d \<in> set cs" for d using Cons.prems(3)[of d] that by simp
  qed
  show ?case
  proof (cases "f c")
    case None
    then have "nc_name c \<notin> P" using Cons.prems(3)[of c] by simp
    then show ?thesis using rest None by (simp add: List.map_filter_simps Int_insert_left)
  next
    case (Some c')
    then have "nc_name c \<in> P" using Cons.prems(3)[of c] by simp
    moreover have "nc_name c' = nc_name c" "fst ` set (nc_deps c') \<subseteq> before \<inter> P"
    proof -
      have "fst ` set (nc_deps c) \<subseteq> before" using Cons.prems(1) by simp
      moreover have "nc_name c' = nc_name c \<and> fst ` set (nc_deps c') \<subseteq> fst ` set (nc_deps c) \<inter> P"
        by (rule Cons.prems(2)[OF _ Some]) simp
      ultimately show "nc_name c' = nc_name c" "fst ` set (nc_deps c') \<subseteq> before \<inter> P" by blast+
    qed
    ultimately show ?thesis using rest Some by (simp add: List.map_filter_simps Int_insert_left)
  qed
qed (simp add: List.map_filter_simps)

lemma shaken_entry:
  assumes "shaken m0 m" "map_of m n = Some c"
  shows "nc_name c = n" "counts_ok (nc_deps c)" "nc_deps c = tm_deps m0 n" "map_option Comp (map_of m0 n) = Some (Comp c)"
proof -
  note sh = assms(1)[unfolded shaken_def]
  show "nc_name c = n" "counts_ok (nc_deps c)" using sh assms(2) unfolding tmap_wf_def by blast+
  have "n \<in> dom (map_of m)" using assms(2) by blast
  then have "tm_deps m n = tm_deps m0 n" "map_option Comp (map_of m n) = map_option Comp (map_of m0 n)" using sh by blast+
  then show "nc_deps c = tm_deps m0 n" "map_option Comp (map_of m0 n) = Some (Comp c)"
    using assms(2) by (simp_all add: tm_deps_def[of m])
qed

lemma TrimNonRequested_ok:
  assumes "resolution r cs" "\<And>c b. c \<in> set cs \<Longrightarrow> int (count_list (unreq (nc_name c)) b) \<le> count_of (nc_deps c) b"
  shows "\<exists>cs'. TrimNonRequested fromMain unreq cs = Some cs'
    \<and> map nc_name cs' = filter (enabled cs fromMain unreq) (map nc_name cs) \<and> deps_first {} cs'
    \<and> map Comp cs' = map Comp (filter (\<lambda>c. enabled cs fromMain unreq (nc_name c)) cs)
    \<and> (\<forall>c' \<in> set cs'. \<exists>c \<in> set cs. nc_name c' = nc_name c \<and> counts_ok (nc_deps c')
         \<and> (\<forall>b. count_of (nc_deps c') b = count_of (nc_deps c) b - int (count_list (unreq (nc_name c)) b)))"
proof -
  let ?m = "map (\<lambda>c. (nc_name c, c)) cs"
  note res = assms(1)[unfolded resolution_def]
  have dist: "distinct (map nc_name cs)" and first: "deps_first {} cs" and syn: "synced ?m" using res by blast+
  have made: "tmade ?m (nc_name c) b = count_of (nc_deps c) b" if "c \<in> set cs" for c b using named_map(2)[OF dist that] by simp
  have bound: "int (count_list (unreq a) b) \<le> tmade ?m a b" if "a \<in> set (map nc_name cs)" for a b
    using that assms(2) made by auto
  obtain m where m: "removeDirectDeps fromMain unreq (map nc_name cs) ?m = Some m" "synced m" "dom (map_of m) = dom (map_of ?m)"
    "\<And>a b. tmade m a b = tmade ?m a b - (if a \<in> set (map nc_name cs) then int (count_list (unreq a) b) else 0)"
    "\<And>b. tgot m mainRequester b = (if b \<in> set (map nc_name cs) \<and> \<not> fromMain b then 0 else tgot ?m mainRequester b)"
    "\<And>n. map_option Comp (map_of m n) = map_option Comp (map_of ?m n)"
    using removeDirectDeps_ok[OF syn _ dist bound, of fromMain] dom_named[of cs] by auto
  have dom_m: "dom (map_of m) = nc_name ` set cs" using m(3) by (simp add: dom_named)
  have main: "mainRequester \<notin> nc_name ` set cs" using syn unfolding synced_def dom_named by blast
  have live_iff: "live m n \<longleftrightarrow> enabled cs fromMain unreq n" for n
    using live_enabled[OF dist main, of m unreq fromMain] m(4,5) bound by auto
  have edge: "tmade ?m a b \<noteq> 0" if "tmade m a b \<noteq> 0" for a b
  proof (cases "a \<in> nc_name ` set cs")
    case True
    have "0 \<le> tmade m a b" using counts_ok_nonneg tmap_wf_counts(1) m(2) unfolding synced_def by blast
    then show ?thesis using that m(4)[of a b] True by simp
  qed (use that m(4)[of a b] in simp)
  have "r b < r a" if "tmade m a b \<noteq> 0" for a b
  proof -
    have "a \<in> nc_name ` set cs" using edge[OF that] tm_absent(1)[of a ?m] by (cases "a \<in> nc_name ` set cs") (simp_all add: dom_named)
    then show ?thesis using edge[OF that] made res by auto
  qed
  moreover have "r a < r mainRequester" if "a \<in> dom (map_of m)" for a using that res unfolding dom_m by auto
  ultimately have shake: "dom (map_of (shakeTree m)) = {n. live m n}" "shaken m (shakeTree m)"
    using shakeTree_live[OF m(2)] by blast+
  let ?f = "\<lambda>c. map_of (shakeTree m) (nc_name c)"
  have kept: "?f c \<noteq> None \<longleftrightarrow> nc_name c \<in> {n. live m n}" for c using shake(1) by (auto simp: domIff)
  have trimmed: "nc_name c' = nc_name c \<and> fst ` set (nc_deps c') \<subseteq> fst ` set (nc_deps c) \<inter> {n. live m n} \<and> Comp c' = Comp c"
    if c: "c \<in> set cs" and f: "?f c = Some c'" for c c'
  proof -
    note entry = shaken_entry[OF shake(2) f]
    have dom_c: "nc_name c \<in> dom (map_of (shakeTree m))" using f by blast
    have "b \<in> fst ` set (nc_deps c) \<and> live m b" if "b \<in> fst ` set (nc_deps c')" for b
    proof -
      have e: "tmade m (nc_name c) b \<noteq> 0" using that counts_ok_key[OF entry(2)] entry(3) by simp
      have "live m (nc_name c)" using dom_c shake(1) by blast
      then have "live m b" using e by (rule live.dep)
      moreover have "counts_ok (nc_deps c)" using res c by blast
      ultimately show ?thesis using edge[OF e] made[OF c] counts_ok_key by simp
    qed
    moreover have "Comp c' = Comp c" using entry(4) m(6)[of "nc_name c"] named_map(1)[OF dist c] by simp
    ultimately show ?thesis using entry(1) by blast
  qed
  have left: "\<exists>c \<in> set cs. nc_name c' = nc_name c \<and> counts_ok (nc_deps c')
         \<and> (\<forall>b. count_of (nc_deps c') b = count_of (nc_deps c) b - int (count_list (unreq (nc_name c)) b))"
    if kept': "c' \<in> set (List.map_filter ?f cs)" for c'
  proof -
    obtain c where c: "c \<in> set cs" "?f c = Some c'" using kept' by (auto simp: List.map_filter_def)
    note entry = shaken_entry[OF shake(2) c(2)]
    have "count_of (nc_deps c') b = count_of (nc_deps c) b - int (count_list (unreq (nc_name c)) b)" for b
      using m(4)[of "nc_name c" b] made[OF c(1)] c(1) by (simp add: entry(3))
    then show ?thesis using c(1) entry(1,2) by blast
  qed
  have run: "TrimNonRequested fromMain unreq cs = Some (List.map_filter ?f cs)"
    using m(1) by (simp add: TrimNonRequested_def SliceToMap_distinct[OF dist])
  have view: "map nc_name (List.map_filter ?f cs) = map nc_name (filter (\<lambda>c. live m (nc_name c)) cs)"
    "map Comp (List.map_filter ?f cs) = map Comp (filter (\<lambda>c. live m (nc_name c)) cs)"
    using map_filter_view[of cs ?f nc_name "\<lambda>c. live m (nc_name c)"] map_filter_view[of cs ?f Comp "\<lambda>c. live m (nc_name c)"]
      trimmed kept[unfolded mem_Collect_eq] by blast+
  have "deps_first ({} \<inter> {n. live m n}) (List.map_filter ?f cs)"
  proof (rule deps_first_trim[OF first])
    show "nc_name c' = nc_name c \<and> fst ` set (nc_deps c') \<subseteq> fst ` set (nc_deps c) \<inter> {n. live m n}"
      if "c \<in> set cs" "?f c = Some c'" for c c' using trimmed[OF that] by blast
    show "?f c \<noteq> None \<longleftrightarrow> nc_name c \<in> {n. live m n}" for c by (rule kept)
  qed
  then show ?thesis using run view left unfolding live_iff by (simp add: filter_map o_def)
qed

end
