(* ===== verification/StartUp.thy ===== *)
theory StartUp
  imports ComponentTrim
begin

text \<open>
  The life of a process, \<open>tryRun\<close> of \<open>util/cmd/cmd.go\<close>: components are
  resolved, trimmed by the options, initialised in order, started concurrently and joined in the
  reverse order. What the hooks of a component return is an argument, as is the order in which the
  goroutines of the start finish.
\<close>

section \<open>Life cycle\<close>

record 'd Hooks =
  hook_Init :: "'d \<Rightarrow> go_error option"
  hook_Start :: "'d \<Rightarrow> go_error option"
  hook_Join :: "'d \<Rightarrow> go_error option"

datatype life_call = InitCall string | RegisterCall string | StartCall string | JoinCall string

fun initComponents :: "'d Hooks \<Rightarrow> 'd NamedComponent list \<Rightarrow> go_error option \<times> life_call list" where
  "initComponents hooks [] = (None, [])"
| "initComponents hooks (c # cs) =
     (case hook_Init hooks (Comp c) of
        Some err \<Rightarrow> (Some (TagWrapf ''Init'' err (nc_name c @ '' init error'')), [InitCall (nc_name c)])
      | None \<Rightarrow> (case initComponents hooks cs of (err, tr) \<Rightarrow> (err, InitCall (nc_name c) # tr)))"

definition start_error :: "'d Hooks \<Rightarrow> 'd NamedComponent \<Rightarrow> go_error option" where
  "start_error hooks c = map_option (\<lambda>err. TagWrapf ''Start'' err (nc_name c @ '' start error'')) (hook_Start hooks (Comp c))"

definition startComponents :: "'d Hooks \<Rightarrow> 'd NamedComponent list \<Rightarrow> go_error option \<times> life_call list" where
  "startComponents hooks finished =
     (let errorList = List.map_filter (start_error hooks) finished
      in (if 0 < length errorList then Some (JoinError errorList) else None, map (\<lambda>c. StartCall (nc_name c)) finished))"

fun joinComponents :: "'d Hooks \<Rightarrow> 'd NamedComponent list \<Rightarrow> go_error option \<times> life_call list" where
  "joinComponents hooks [] = (None, [])"
| "joinComponents hooks (c # cs) =
     (case hook_Join hooks (Comp c) of
        Some err \<Rightarrow> (Some (TagWrapf ''Join'' err (nc_name c @ '' join error'')), [JoinCall (nc_name c)])
      | None \<Rightarrow> (case joinComponents hooks cs of (err, tr) \<Rightarrow> (err, JoinCall (nc_name c) # tr)))"

text \<open>The run of the components that the options leave; \<open>finished\<close> puts the started
  goroutines in the order in which they end.\<close>

definition run_components :: "'d Hooks \<Rightarrow> ('d NamedComponent list \<Rightarrow> 'd NamedComponent list) \<Rightarrow> 'd NamedComponent list \<Rightarrow>
    go_error option \<times> life_call list" where
  "run_components hooks finished components =
     (case initComponents hooks components of
        (Some err, inits) \<Rightarrow> (Some err, inits)
      | (None, inits) \<Rightarrow>
          (case startComponents hooks (finished components) of
             (Some err, starts) \<Rightarrow> (Some err, inits @ map (\<lambda>c. RegisterCall (nc_name c)) components @ starts)
           | (None, starts) \<Rightarrow>
               (case joinComponents hooks (rev components) of
                  (err, joins) \<Rightarrow> (err, inits @ map (\<lambda>c. RegisterCall (nc_name c)) components @ starts @ joins))))"

text \<open>\<open>own\<close> are the health server and the shutdown notifier that every process requests;
  \<open>parse\<close> is the result of parsing the flags.\<close>

definition tryRun :: "nat \<Rightarrow> ('d \<Rightarrow> 'd Decl) \<Rightarrow> 'd list \<Rightarrow> 'd list \<Rightarrow> go_error + (string \<Rightarrow> bool) \<times> (string \<Rightarrow> string list) \<Rightarrow>
    'd Hooks \<Rightarrow> ('d NamedComponent list \<Rightarrow> 'd NamedComponent list) \<Rightarrow> (go_error option \<times> life_call list) outcome" where
  "tryRun fuel decl requests own parse hooks finished =
     bind_outcome (ResolveList fuel decl (requests @ own)) (\<lambda>components.
       case parse of
         Inl err \<Rightarrow> Ok (Some (TagWrapf ''ParseArgs'' err ''parse args''), [])
       | Inr (isRequestedFromMain, unrequestDeps) \<Rightarrow>
           (case TrimNonRequested isRequestedFromMain unrequestDeps components of
              None \<Rightarrow> Panic
            | Some components' \<Rightarrow> Ok (run_components hooks finished components')))"

section \<open>Order of the calls\<close>

text \<open>A trace of calls respects the dependencies of the components.\<close>

definition call_ok :: "'d Hooks \<Rightarrow> 'd NamedComponent list \<Rightarrow> life_call list \<Rightarrow> life_call \<Rightarrow> bool" where
  "call_ok hooks cs before call = (case call of
     InitCall n \<Rightarrow> (\<exists>c \<in> set cs. nc_name c = n \<and> (\<forall>b \<in> fst ` set (nc_deps c). InitCall b \<in> set before))
   | RegisterCall n \<Rightarrow> n \<in> nc_name ` set cs \<and> (\<forall>c \<in> set cs. InitCall (nc_name c) \<in> set before \<and> hook_Init hooks (Comp c) = None)
   | StartCall n \<Rightarrow> n \<in> nc_name ` set cs \<and> (\<forall>c \<in> set cs. InitCall (nc_name c) \<in> set before \<and> hook_Init hooks (Comp c) = None)
   | JoinCall n \<Rightarrow> n \<in> nc_name ` set cs \<and> (\<forall>c \<in> set cs. StartCall (nc_name c) \<in> set before \<and> hook_Start hooks (Comp c) = None)
       \<and> (\<forall>c \<in> set cs. n \<in> fst ` set (nc_deps c) \<longrightarrow> JoinCall (nc_name c) \<in> set before))"

fun trace_ok :: "'d Hooks \<Rightarrow> 'd NamedComponent list \<Rightarrow> life_call list \<Rightarrow> life_call list \<Rightarrow> bool" where
  "trace_ok hooks cs before [] = True"
| "trace_ok hooks cs before (call # calls) \<longleftrightarrow> call_ok hooks cs before call \<and> trace_ok hooks cs (before @ [call]) calls"

lemma trace_ok_append: "trace_ok hooks cs before (xs @ ys) \<longleftrightarrow> trace_ok hooks cs before xs \<and> trace_ok hooks cs (before @ xs) ys"
  by (induction xs arbitrary: before) auto

lemma trace_ok_all:
  assumes "\<And>call zs. call \<in> set xs \<Longrightarrow> call_ok hooks cs (before @ zs) call"
  shows "trace_ok hooks cs before xs"
  using assms
proof (induction xs arbitrary: before)
  case (Cons x xs)
  have "call_ok hooks cs before x" using Cons.prems[of x "[]"] by simp
  moreover have "trace_ok hooks cs (before @ [x]) xs"
  proof (rule Cons.IH)
    show "call_ok hooks cs ((before @ [x]) @ zs) call" if "call \<in> set xs" for call zs
      using Cons.prems[of call "x # zs"] that by simp
  qed
  ultimately show ?case by simp
qed simp

lemma initComponents_trace:
  fixes cs ds :: "'d NamedComponent list"
  assumes "initComponents hooks cs = (err, tr)" "deps_first (nc_name ` set ds) cs" "set cs \<subseteq> set all"
    and "\<forall>d \<in> set ds. InitCall (nc_name d) \<in> set before"
  shows "trace_ok hooks all before tr"
    and "err = None \<longleftrightarrow> (\<forall>c \<in> set cs. hook_Init hooks (Comp c) = None)"
    and "err = None \<Longrightarrow> tr = map (\<lambda>c. InitCall (nc_name c)) cs"
proof -
  have "trace_ok hooks all before tr \<and> (err = None \<longleftrightarrow> (\<forall>c \<in> set cs. hook_Init hooks (Comp c) = None))
      \<and> (err = None \<longrightarrow> tr = map (\<lambda>c. InitCall (nc_name c)) cs)"
    using assms
  proof (induction cs arbitrary: err tr ds before)
    case (Cons c cs)
    have here: "call_ok hooks all before (InitCall (nc_name c))"
    proof -
      have "fst ` set (nc_deps c) \<subseteq> nc_name ` set ds" using Cons.prems(2) by simp
      then have "\<forall>b \<in> fst ` set (nc_deps c). InitCall b \<in> set before" using Cons.prems(4) by fastforce
      then show ?thesis using Cons.prems(3) by (auto simp: call_ok_def)
    qed
    show ?case
    proof (cases "hook_Init hooks (Comp c)")
      case None
      obtain err' tr' where rest: "initComponents hooks cs = (err', tr')" by fastforce
      have "deps_first (nc_name ` set (c # ds)) cs" using Cons.prems(2) by simp
      moreover have "set cs \<subseteq> set all" using Cons.prems(3) by simp
      moreover have "\<forall>d \<in> set (c # ds). InitCall (nc_name d) \<in> set (before @ [InitCall (nc_name c)])" using Cons.prems(4) by auto
      ultimately show ?thesis using Cons.IH[OF rest, of "c # ds" "before @ [InitCall (nc_name c)]"] Cons.prems(1) None here rest by auto
    next
      case (Some e)
      then show ?thesis using Cons.prems(1) here by auto
    qed
  qed simp
  then show "trace_ok hooks all before tr" "err = None \<longleftrightarrow> (\<forall>c \<in> set cs. hook_Init hooks (Comp c) = None)"
    "err = None \<Longrightarrow> tr = map (\<lambda>c. InitCall (nc_name c)) cs" by blast+
qed

lemma startComponents_trace:
  assumes "startComponents hooks finished = (err, tr)"
  shows "tr = map (\<lambda>c. StartCall (nc_name c)) finished" "err = None \<longleftrightarrow> (\<forall>c \<in> set finished. hook_Start hooks (Comp c) = None)"
proof -
  have "List.map_filter (start_error hooks) finished = [] \<longleftrightarrow> (\<forall>c \<in> set finished. hook_Start hooks (Comp c) = None)"
    by (induction finished) (auto simp: List.map_filter_simps start_error_def split: option.split)
  then show "tr = map (\<lambda>c. StartCall (nc_name c)) finished" "err = None \<longleftrightarrow> (\<forall>c \<in> set finished. hook_Start hooks (Comp c) = None)"
    using assms by (auto simp: startComponents_def Let_def split: if_splits)
qed

text \<open>Joining from the end: whoever depends on a component has been joined before.\<close>

lemma joinComponents_trace:
  assumes "joinComponents hooks (rev cs) = (err, tr)" "all = cs @ ds" "deps_first {} all" "distinct (map nc_name all)"
    and "\<forall>c \<in> set all. StartCall (nc_name c) \<in> set before \<and> hook_Start hooks (Comp c) = None"
    and "\<forall>d \<in> set ds. JoinCall (nc_name d) \<in> set before"
  shows "trace_ok hooks all before tr"
  using assms
proof (induction cs arbitrary: err tr ds before rule: rev_induct)
  case (snoc c cs)
  have "c' \<in> set ds" if "c' \<in> set all" "nc_name c \<in> fst ` set (nc_deps c')" for c'
  proof (rule ccontr)
    assume "c' \<notin> set ds"
    then have "c' \<in> set (cs @ [c])" using that(1) snoc.prems(2) by auto
    then obtain xs ys where xs: "cs @ [c] = xs @ c' # ys" by (meson split_list)
    then have "nc_name c \<in> nc_name ` set xs"
      using snoc.prems(2,3) that(2) by (auto simp: deps_first_append)
    moreover have "set xs \<subseteq> set cs" using xs by (cases ys rule: rev_cases) auto
    ultimately show False using snoc.prems(2,4) by auto
  qed
  then have here: "call_ok hooks all before (JoinCall (nc_name c))"
    using snoc.prems(2,5,6) by (auto simp: call_ok_def)
  show ?case
  proof (cases "hook_Join hooks (Comp c)")
    case None
    obtain err' tr' where rest: "joinComponents hooks (rev cs) = (err', tr')" by fastforce
    have "trace_ok hooks all (before @ [JoinCall (nc_name c)]) tr'"
      using snoc.IH[OF rest, of "c # ds" "before @ [JoinCall (nc_name c)]"] snoc.prems(2-) by auto
    then show ?thesis using snoc.prems(1) None rest here by auto
  next
    case (Some e)
    then show ?thesis using snoc.prems(1) here by auto
  qed
qed simp

lemma run_components_trace:
  assumes "deps_first {} cs" "distinct (map nc_name cs)" "mset (finished cs) = mset cs"
    and "run_components hooks finished cs = (err, tr)"
  shows "trace_ok hooks cs [] tr"
proof -
  obtain err1 inits where init: "initComponents hooks cs = (err1, inits)" by fastforce
  note itr = initComponents_trace[OF init, of "[]" cs "[]"]
  show ?thesis
  proof (cases err1)
    case (Some e)
    then show ?thesis using assms(1,4) init itr(1) by (simp add: run_components_def)
  next
    case None
    then have inits: "inits = map (\<lambda>c. InitCall (nc_name c)) cs" "\<forall>c \<in> set cs. hook_Init hooks (Comp c) = None"
      "trace_ok hooks cs [] inits" using itr assms(1) by auto
    have fin: "set (finished cs) = set cs" using assms(3) by (metis mset_eq_setD)
    obtain err2 starts where start: "startComponents hooks (finished cs) = (err2, starts)" by fastforce
    note str = startComponents_trace[OF start, unfolded fin]
    let ?regs = "map (\<lambda>c. RegisterCall (nc_name c)) cs"
    have regs: "trace_ok hooks cs inits (?regs @ starts)"
      using inits(1,2) str(1) fin by (intro trace_ok_all) (auto simp: call_ok_def)
    have prefix_ok: "trace_ok hooks cs [] (inits @ ?regs @ starts)" using inits(3) regs by (simp add: trace_ok_append)
    show ?thesis
    proof (cases err2)
      case (Some e)
      then show ?thesis using assms(4) init None start prefix_ok by (simp add: run_components_def)
    next
      case None2: None
      obtain err3 joins where join: "joinComponents hooks (rev cs) = (err3, joins)" by fastforce
      have "\<forall>c \<in> set cs. StartCall (nc_name c) \<in> set (inits @ ?regs @ starts) \<and> hook_Start hooks (Comp c) = None"
        using str None2 fin by auto
      then have "trace_ok hooks cs (inits @ ?regs @ starts) joins"
        using joinComponents_trace[OF join, of cs "[]"] assms(1,2) by simp
      then have "trace_ok hooks cs [] ((inits @ ?regs @ starts) @ joins)" using prefix_ok by (simp only: trace_ok_append append_Nil)
      then show ?thesis using assms(4) init None start None2 join by (simp add: run_components_def)
    qed
  qed
qed


section \<open>Completeness of the calls\<close>

text \<open>Some hook that was called has returned an error.\<close>

definition init_failed :: "'d Hooks \<Rightarrow> 'd NamedComponent list \<Rightarrow> life_call list \<Rightarrow> bool" where
  "init_failed hooks cs tr \<longleftrightarrow> (\<exists>c \<in> set cs. InitCall (nc_name c) \<in> set tr \<and> hook_Init hooks (Comp c) \<noteq> None)"

definition call_failed :: "'d Hooks \<Rightarrow> 'd NamedComponent list \<Rightarrow> life_call list \<Rightarrow> bool" where
  "call_failed hooks cs tr \<longleftrightarrow> init_failed hooks cs tr
     \<or> (\<exists>c \<in> set cs. StartCall (nc_name c) \<in> set tr \<and> hook_Start hooks (Comp c) \<noteq> None)
     \<or> (\<exists>c \<in> set cs. JoinCall (nc_name c) \<in> set tr \<and> hook_Join hooks (Comp c) \<noteq> None)"

text \<open>No call is repeated; all components are initialised, registered and started unless an initialisation
  failed; they are joined as well unless anything failed; an error is returned exactly when a
  hook that was called returned one; and a failed initialisation or join is the last call.\<close>

definition trace_complete :: "'d Hooks \<Rightarrow> 'd NamedComponent list \<Rightarrow> go_error option \<Rightarrow> life_call list \<Rightarrow> bool" where
  "trace_complete hooks cs err tr \<longleftrightarrow> distinct tr
     \<and> (\<not> init_failed hooks cs tr \<longrightarrow>
          (\<forall>n \<in> nc_name ` set cs. InitCall n \<in> set tr \<and> RegisterCall n \<in> set tr \<and> StartCall n \<in> set tr))
     \<and> (\<not> call_failed hooks cs tr \<longrightarrow> (\<forall>n \<in> nc_name ` set cs. JoinCall n \<in> set tr))
     \<and> (err \<noteq> None \<longleftrightarrow> call_failed hooks cs tr)
     \<and> (\<forall>c \<in> set cs. InitCall (nc_name c) \<in> set tr \<and> hook_Init hooks (Comp c) \<noteq> None \<longrightarrow> last tr = InitCall (nc_name c))
     \<and> (\<forall>c \<in> set cs. JoinCall (nc_name c) \<in> set tr \<and> hook_Join hooks (Comp c) \<noteq> None \<longrightarrow> last tr = JoinCall (nc_name c))"

lemma initComponents_calls:
  assumes "initComponents hooks cs = (err, tr)" "distinct (map nc_name cs)"
  shows "distinct tr \<and> set tr \<subseteq> InitCall ` nc_name ` set cs \<and> (err \<noteq> None \<longleftrightarrow> init_failed hooks cs tr)"
  using assms
proof (induction cs arbitrary: err tr)
  case (Cons c cs)
  show ?case
  proof (cases "hook_Init hooks (Comp c)")
    case None
    obtain err' tr' where rest: "initComponents hooks cs = (err', tr')" by fastforce
    have "\<forall>d \<in> set cs. nc_name d \<noteq> nc_name c" using Cons.prems(2) by (metis distinct.simps(2) image_eqI list.set_map list.simps(9))
    then show ?thesis using Cons.IH[OF rest] Cons.prems None rest by (auto simp: init_failed_def)
  qed (use Cons.prems in \<open>auto simp: init_failed_def\<close>)
qed (simp add: init_failed_def)

lemma joinComponents_calls:
  assumes "joinComponents hooks cs = (err, tr)" "distinct (map nc_name cs)"
  shows "distinct tr \<and> set tr \<subseteq> JoinCall ` nc_name ` set cs \<and> (err = None \<longrightarrow> set tr = JoinCall ` nc_name ` set cs)
    \<and> (err \<noteq> None \<longleftrightarrow> (\<exists>c \<in> set cs. JoinCall (nc_name c) \<in> set tr \<and> hook_Join hooks (Comp c) \<noteq> None))"
  using assms
proof (induction cs arbitrary: err tr)
  case (Cons c cs)
  show ?case
  proof (cases "hook_Join hooks (Comp c)")
    case None
    obtain err' tr' where rest: "joinComponents hooks cs = (err', tr')" by fastforce
    have "\<forall>d \<in> set cs. nc_name d \<noteq> nc_name c" using Cons.prems(2) by (metis distinct.simps(2) image_eqI list.set_map list.simps(9))
    then show ?thesis using Cons.IH[OF rest] Cons.prems None rest by auto
  qed (use Cons.prems in auto)
qed simp

lemma initComponents_last:
  assumes "initComponents hooks cs = (err, tr)" "distinct (map nc_name cs)" "c \<in> set cs"
    and "InitCall (nc_name c) \<in> set tr" "hook_Init hooks (Comp c) \<noteq> None"
  shows "last tr = InitCall (nc_name c)"
  using assms
proof (induction cs arbitrary: err tr)
  case (Cons d cs)
  show ?case
  proof (cases "hook_Init hooks (Comp d)")
    case None
    then have in_cs: "c \<in> set cs" "c \<noteq> d" using Cons.prems(3,5) by auto
    moreover have "nc_name d \<notin> nc_name ` set cs" using Cons.prems(2) by simp
    ultimately have other: "nc_name c \<noteq> nc_name d" by (metis image_eqI)
    obtain err' tr' where rest: "initComponents hooks cs = (err', tr')" by fastforce
    then have "tr = InitCall (nc_name d) # tr'" using Cons.prems(1) None by simp
    then show ?thesis using Cons.IH[OF rest] Cons.prems in_cs other by auto
  qed (use Cons.prems in auto)
qed simp

lemma joinComponents_last:
  assumes "joinComponents hooks cs = (err, tr)" "distinct (map nc_name cs)" "c \<in> set cs"
    and "JoinCall (nc_name c) \<in> set tr" "hook_Join hooks (Comp c) \<noteq> None"
  shows "last tr = JoinCall (nc_name c)"
  using assms
proof (induction cs arbitrary: err tr)
  case (Cons d cs)
  show ?case
  proof (cases "hook_Join hooks (Comp d)")
    case None
    then have in_cs: "c \<in> set cs" "c \<noteq> d" using Cons.prems(3,5) by auto
    moreover have "nc_name d \<notin> nc_name ` set cs" using Cons.prems(2) by simp
    ultimately have other: "nc_name c \<noteq> nc_name d" by (metis image_eqI)
    obtain err' tr' where rest: "joinComponents hooks cs = (err', tr')" by fastforce
    then have "tr = JoinCall (nc_name d) # tr'" using Cons.prems(1) None by simp
    then show ?thesis using Cons.IH[OF rest] Cons.prems in_cs other by auto
  qed (use Cons.prems in auto)
qed simp

lemma run_components_complete:
  assumes "deps_first {} cs" "distinct (map nc_name cs)" "mset (finished cs) = mset cs"
    and "run_components hooks finished cs = (err, tr)"
  shows "trace_complete hooks cs err tr"
proof -
  obtain err1 inits where init: "initComponents hooks cs = (err1, inits)" by fastforce
  note ic = initComponents_calls[OF init assms(2)]
  show ?thesis
  proof (cases err1)
    case (Some e)
    then have "err = Some e" "tr = inits" using assms(4) init by (simp_all add: run_components_def)
    then show ?thesis using ic Some initComponents_last[OF init assms(2)] by (auto simp: trace_complete_def call_failed_def)
  next
    case None
    then have inits: "inits = map (\<lambda>c. InitCall (nc_name c)) cs" "\<not> init_failed hooks cs inits"
      using initComponents_trace(3)[OF init, of "[]" cs "[]"] assms(1) ic by auto
    obtain err2 starts where start: "startComponents hooks (finished cs) = (err2, starts)" by fastforce
    have fin: "set (finished cs) = set cs" using assms(3) by (metis mset_eq_setD)
    have names: "mset (map nc_name (finished cs)) = mset (map nc_name cs)" using assms(3) by simp
    note str = startComponents_trace[OF start, unfolded fin]
    have starts: "distinct starts" "set starts = StartCall ` nc_name ` set cs"
      using str(1) fin assms(2) mset_eq_imp_distinct_iff[OF names]
      by (auto simp: distinct_map inj_on_def image_image)
    have no_init_error: "\<forall>c \<in> set cs. hook_Init hooks (Comp c) = None" using inits by (auto simp: init_failed_def)
    let ?regs = "map (\<lambda>c. RegisterCall (nc_name c)) cs"
    have prep: "distinct (inits @ ?regs @ starts)"
      using assms(2) starts ic by (auto simp: distinct_map inj_on_def)
    have calls: "set (inits @ ?regs @ starts) = InitCall ` nc_name ` set cs \<union> RegisterCall ` nc_name ` set cs \<union> StartCall ` nc_name ` set cs"
      using inits(1) starts(2) by (auto simp: image_image)
    show ?thesis
    proof (cases err2)
      case (Some e)
      then have run: "err = Some e" "tr = inits @ ?regs @ starts"
        using assms(4) init None start by (simp_all add: run_components_def)
      obtain c where "c \<in> set cs" "hook_Start hooks (Comp c) \<noteq> None" using str(2) Some by auto
      then have "call_failed hooks cs tr" unfolding call_failed_def run(2) calls by blast
      then show ?thesis using prep calls run no_init_error by (auto simp: trace_complete_def)
    next
      case none2: None
      obtain err3 joins where join: "joinComponents hooks (rev cs) = (err3, joins)" by fastforce
      have drev: "distinct (map nc_name (rev cs))" using assms(2) by (simp add: distinct_map)
      have run: "err = err3" "tr = inits @ ?regs @ starts @ joins"
        using assms(4) init None start none2 join by (simp_all add: run_components_def)
      have jc: "distinct joins" "set joins \<subseteq> JoinCall ` nc_name ` set cs" "err3 = None \<longrightarrow> set joins = JoinCall ` nc_name ` set cs"
        "err3 \<noteq> None \<longleftrightarrow> (\<exists>c \<in> set cs. JoinCall (nc_name c) \<in> set joins \<and> hook_Join hooks (Comp c) \<noteq> None)"
        "\<forall>c \<in> set cs. JoinCall (nc_name c) \<in> set joins \<and> hook_Join hooks (Comp c) \<noteq> None \<longrightarrow> last joins = JoinCall (nc_name c)"
        using joinComponents_calls[OF join drev] joinComponents_last[OF join drev] by simp_all
      have tr: "set tr = InitCall ` nc_name ` set cs \<union> RegisterCall ` nc_name ` set cs \<union> StartCall ` nc_name ` set cs \<union> set joins"
        using calls by (auto simp: run(2))
      have "distinct ((inits @ ?regs @ starts) @ joins)" using prep jc(1,2) calls by (auto simp del: set_append append_assoc simp: distinct_append)
      then have dist: "distinct tr" by (simp add: run(2))
      have "\<forall>c \<in> set cs. hook_Init hooks (Comp c) = None" "\<forall>c \<in> set cs. hook_Start hooks (Comp c) = None"
        using inits str(2) none2 by (auto simp: init_failed_def)
      note good = this
      then have failed: "call_failed hooks cs tr \<longleftrightarrow> err \<noteq> None"
        using jc(2,4) by (auto simp: call_failed_def init_failed_def tr run(1))
      have "last tr = last joins" if "call \<in> set joins" for call
      proof -
        have "joins \<noteq> []" using that by auto
        then show ?thesis by (simp add: run(2))
      qed
      then have "\<forall>c \<in> set cs. JoinCall (nc_name c) \<in> set joins \<and> hook_Join hooks (Comp c) \<noteq> None \<longrightarrow> last tr = JoinCall (nc_name c)"
        using jc(5) by metis
      then show ?thesis
        unfolding trace_complete_def failed tr using dist jc(3) run(1) good by auto
    qed
  qed
qed

section \<open>Properties\<close>

text \<open>C22: When no request leads from a name back to itself and declarations of one name agree in
  their types, \<open>ResolveList\<close> ends without panic. It lists every requested component, one
  instance per name, each after all its dependencies, and the requests that a component has made of
  another are those that the other has received from it. Fuel as high as the rank of main is
  enough.\<close>

theorem ResolveList_order:
  assumes "ranked r decl" "r mainRequester \<le> fuel"
  shows "\<exists>cs. ResolveList fuel decl requests = Ok cs \<and> distinct (map nc_name cs) \<and> deps_first {} cs
    \<and> (\<lambda>d. d_name (decl d)) ` set requests \<subseteq> nc_name ` set cs
    \<and> (\<forall>c \<in> set cs. d_name (decl (Comp c)) = nc_name c
         \<and> (\<forall>c' \<in> set cs. count_of (nc_deps c) (nc_name c') = count_of (nc_requesters c') (nc_name c)))"
proof -
  obtain cs where cs: "ResolveList fuel decl requests = Ok cs" "resolution r cs" "\<forall>c \<in> set cs. d_name (decl (Comp c)) = nc_name c"
    "(\<lambda>d. d_name (decl d)) ` set requests \<subseteq> nc_name ` set cs"
    using ResolveList_resolution[OF assms, of requests] by blast
  note res = cs(2)[unfolded resolution_def]
  have dist: "distinct (map nc_name cs)" and syn: "synced (map (\<lambda>c. (nc_name c, c)) cs)" using res by blast+
  have "count_of (nc_deps c) (nc_name c') = count_of (nc_requesters c') (nc_name c)" if "c \<in> set cs" "c' \<in> set cs" for c c'
  proof -
    have "mainRequester \<notin> nc_name ` set cs" using syn by (simp add: synced_def dom_named)
    then have "nc_name c \<noteq> mainRequester" using that(1) by (metis imageI)
    then have "tmade (map (\<lambda>c. (nc_name c, c)) cs) (nc_name c) (nc_name c') = tgot (map (\<lambda>c. (nc_name c, c)) cs) (nc_name c) (nc_name c')"
      using syn unfolding synced_def by blast
    then show ?thesis using named_map(2,3)[OF dist] that by simp
  qed
  then show ?thesis using cs res by blast
qed

text \<open>C21: Counting requests removes exactly the components that are not needed: what is left are
  the components that main requires and the options keep, and those they need through requests that
  the options do not withdraw, in the same order, with the requests that are left. Every dependency
  that is left is enabled and comes first. Nothing panics as long as no request is withdrawn more often
  than it was made.\<close>

theorem TrimNonRequested_reachable:
  assumes "ranked r decl" "r mainRequester \<le> fuel" "ResolveList fuel decl requests = Ok cs"
    and "\<And>c b. c \<in> set cs \<Longrightarrow> int (count_list (unreq (nc_name c)) b) \<le> count_of (nc_deps c) b"
  shows "\<exists>cs'. TrimNonRequested fromMain unreq cs = Some cs'
    \<and> map nc_name cs' = filter (enabled cs fromMain unreq) (map nc_name cs) \<and> deps_first {} cs'
    \<and> map Comp cs' = map Comp (filter (\<lambda>c. enabled cs fromMain unreq (nc_name c)) cs)
    \<and> (\<forall>c' \<in> set cs'. \<exists>c \<in> set cs. nc_name c' = nc_name c \<and> counts_ok (nc_deps c')
         \<and> (\<forall>b. count_of (nc_deps c') b = count_of (nc_deps c) b - int (count_list (unreq (nc_name c)) b)))"
proof -
  have "resolution r cs" using ResolveList_resolution[OF assms(1,2), of requests] assms(3) by auto
  then show ?thesis using assms(4) by (rule TrimNonRequested_ok)
qed

text \<open>C20: A process calls exactly the components that are enabled, in order. It initialises each, once, after its
  dependencies, up to the first one that fails; once all have been initialised without error it registers and starts all of them,
  whatever the order in which the starts end; and when all have started it joins all of them, each
  after everything that depends on it, up to the first one that fails. It returns an error exactly when a hook that it called
  has returned one.\<close>

theorem tryRun_order:
  assumes "ranked r decl" "r mainRequester \<le> fuel" "ResolveList fuel decl (requests @ own) = Ok cs"
    and "\<And>c b. c \<in> set cs \<Longrightarrow> int (count_list (unreq (nc_name c)) b) \<le> count_of (nc_deps c) b"
    and "\<And>xs. mset (finished xs) = mset xs"
  shows "\<exists>err tr cs'. tryRun fuel decl requests own (Inr (fromMain, unreq)) hooks finished = Ok (err, tr)
    \<and> TrimNonRequested fromMain unreq cs = Some cs' \<and> trace_ok hooks cs' [] tr \<and> trace_complete hooks cs' err tr
    \<and> nc_name ` set cs' = {n. enabled cs fromMain unreq n} \<inter> nc_name ` set cs"
proof -
  have res: "resolution r cs" using ResolveList_resolution[OF assms(1,2), of "requests @ own"] assms(3) by auto
  obtain cs' where trim: "TrimNonRequested fromMain unreq cs = Some cs'" "deps_first {} cs'"
    and names: "map nc_name cs' = filter (enabled cs fromMain unreq) (map nc_name cs)"
    using TrimNonRequested_ok[OF res, of unreq fromMain] assms(4) by blast
  have "distinct (map nc_name cs')" using res unfolding names resolution_def by simp
  then have "trace_ok hooks cs' [] (snd (run_components hooks finished cs'))"
    "trace_complete hooks cs' (fst (run_components hooks finished cs')) (snd (run_components hooks finished cs'))"
    using run_components_trace[where finished = finished and hooks = hooks, OF trim(2) _ assms(5)]
      run_components_complete[where finished = finished and hooks = hooks, OF trim(2) _ assms(5)] by (metis prod.collapse)+
  moreover have "tryRun fuel decl requests own (Inr (fromMain, unreq)) hooks finished = Ok (run_components hooks finished cs')"
    by (simp add: tryRun_def assms(3) trim(1))
  moreover have "nc_name ` set cs' = {n. enabled cs fromMain unreq n} \<inter> nc_name ` set cs"
    using arg_cong[OF names, of set] by auto
  ultimately show ?thesis using trim(1) by (metis prod.collapse)
qed


subsection \<open>A sample program\<close>

text \<open>An application with a worker that share a client, and a component that the options
  disable.\<close>

definition sample_decl :: "nat \<Rightarrow> nat Decl" where
  "sample_decl d =
     (if d = 0 then \<lparr>d_name = ''app'', d_type = 0, d_deps = [1, 2], d_merge = []\<rparr>
      else if d = 1 then \<lparr>d_name = ''worker'', d_type = 1, d_deps = [2], d_merge = []\<rparr>
      else if d = 2 then \<lparr>d_name = ''client'', d_type = 2, d_deps = [], d_merge = []\<rparr>
      else \<lparr>d_name = ''pprof'', d_type = 3, d_deps = [], d_merge = []\<rparr>)"

definition sample_rank :: "string \<Rightarrow> nat" where
  "sample_rank n = (if n = mainRequester then 3 else if n = ''app'' then 2 else if n = ''worker'' then 1 else 0)"

definition sample_hooks :: "nat Hooks" where
  "sample_hooks = \<lparr>hook_Init = (\<lambda>_. None), hook_Start = (\<lambda>_. None), hook_Join = (\<lambda>_. None)\<rparr>"

lemma sample_ranked: "ranked sample_rank sample_decl" "sample_rank mainRequester \<le> 3"
  by (auto simp: ranked_def sample_decl_def sample_rank_def mainRequester_def)

definition sample_names :: "nat NamedComponent list outcome \<Rightarrow> string list" where
  "sample_names r = (case r of Ok cs \<Rightarrow> map nc_name cs | _ \<Rightarrow> [])"

text \<open>The theorem at the sample program.\<close>

theorem ResolveList_order_witness:
  "ranked sample_rank sample_decl \<and> sample_rank mainRequester \<le> 3
   \<and> sample_names (ResolveList 3 sample_decl [0, 3]) = [''client'', ''worker'', ''app'', ''pprof'']
   \<and> (\<exists>cs. ResolveList 3 sample_decl [0, 3] = Ok cs \<and> deps_first {} cs)"
proof -
  have "sample_names (ResolveList 3 sample_decl [0, 3]) = [''client'', ''worker'', ''app'', ''pprof'']" by code_simp
  then show ?thesis using ResolveList_order[OF sample_ranked, of "[0, 3]"] sample_ranked by blast
qed

definition sample_resolved :: "nat NamedComponent list" where
  "sample_resolved = (case ResolveList 3 sample_decl [0, 3] of Ok cs \<Rightarrow> cs | _ \<Rightarrow> [])"

lemma sample_resolved_run: "ResolveList 3 sample_decl ([0, 3] @ []) = Ok sample_resolved" "ResolveList 3 sample_decl [0, 3] = Ok sample_resolved"
proof -
  have "(case ResolveList 3 sample_decl [0, 3] of Ok cs \<Rightarrow> True | _ \<Rightarrow> False)" by code_simp
  then show "ResolveList 3 sample_decl ([0, 3] @ []) = Ok sample_resolved" "ResolveList 3 sample_decl [0, 3] = Ok sample_resolved"
    by (auto simp: sample_resolved_def split: outcome.splits)
qed

lemma sample_bound: "c \<in> set sample_resolved \<Longrightarrow> int (count_list [] b) \<le> count_of (nc_deps c) b"
proof -
  have "resolution sample_rank sample_resolved"
    using ResolveList_resolution[OF sample_ranked, of "[0, 3]"] sample_resolved_run(2) by auto
  then show "c \<in> set sample_resolved \<Longrightarrow> ?thesis" unfolding resolution_def by (simp add: counts_ok_nonneg)
qed

text \<open>The theorem at options that disable the profiler: the rest stays.\<close>

theorem TrimNonRequested_reachable_witness:
  "map_option (map nc_name) (TrimNonRequested (\<lambda>n. n \<noteq> ''pprof'') (\<lambda>_. []) sample_resolved) = Some [''client'', ''worker'', ''app'']
   \<and> filter (enabled sample_resolved (\<lambda>n. n \<noteq> ''pprof'') (\<lambda>_. [])) (map nc_name sample_resolved) = [''client'', ''worker'', ''app'']"
proof -
  have val: "map_option (map nc_name) (TrimNonRequested (\<lambda>n. n \<noteq> ''pprof'') (\<lambda>_. []) sample_resolved) = Some [''client'', ''worker'', ''app'']"
    by code_simp
  obtain cs' where "TrimNonRequested (\<lambda>n. n \<noteq> ''pprof'') (\<lambda>_. []) sample_resolved = Some cs'"
    "map nc_name cs' = filter (enabled sample_resolved (\<lambda>n. n \<noteq> ''pprof'') (\<lambda>_. [])) (map nc_name sample_resolved)"
    using TrimNonRequested_reachable[OF sample_ranked sample_resolved_run(2), where unreq = "\<lambda>_. []" and fromMain = "\<lambda>n. n \<noteq> ''pprof''"]
      sample_bound by blast
  then show ?thesis using val by simp
qed

text \<open>The theorem at a run whose starts end in the reverse order.\<close>

theorem tryRun_order_witness:
  "tryRun 3 sample_decl [0, 3] [] (Inr (\<lambda>n. n \<noteq> ''pprof'', \<lambda>_. [])) sample_hooks rev =
     Ok (None, [InitCall ''client'', InitCall ''worker'', InitCall ''app'', RegisterCall ''client'', RegisterCall ''worker'',
       RegisterCall ''app'', StartCall ''app'', StartCall ''worker'', StartCall ''client'', JoinCall ''app'', JoinCall ''worker'',
       JoinCall ''client''])
   \<and> (\<exists>cs'. TrimNonRequested (\<lambda>n. n \<noteq> ''pprof'') (\<lambda>_. []) sample_resolved = Some cs' \<and> trace_ok sample_hooks cs' []
       [InitCall ''client'', InitCall ''worker'', InitCall ''app'', RegisterCall ''client'', RegisterCall ''worker'',
       RegisterCall ''app'', StartCall ''app'', StartCall ''worker'', StartCall ''client'', JoinCall ''app'', JoinCall ''worker'',
       JoinCall ''client''] \<and> trace_complete sample_hooks cs' None
       [InitCall ''client'', InitCall ''worker'', InitCall ''app'', RegisterCall ''client'', RegisterCall ''worker'',
       RegisterCall ''app'', StartCall ''app'', StartCall ''worker'', StartCall ''client'', JoinCall ''app'', JoinCall ''worker'',
       JoinCall ''client''])"
proof -
  let ?run = "tryRun 3 sample_decl [0, 3] [] (Inr (\<lambda>n. n \<noteq> ''pprof'', \<lambda>_. [])) sample_hooks rev"
  have val: "?run = Ok (None, [InitCall ''client'', InitCall ''worker'', InitCall ''app'', RegisterCall ''client'', RegisterCall ''worker'',
       RegisterCall ''app'', StartCall ''app'', StartCall ''worker'', StartCall ''client'', JoinCall ''app'', JoinCall ''worker'',
       JoinCall ''client''])" by code_simp
  have "\<exists>err tr cs'. ?run = Ok (err, tr) \<and> TrimNonRequested (\<lambda>n. n \<noteq> ''pprof'') (\<lambda>_. []) sample_resolved = Some cs'
      \<and> trace_ok sample_hooks cs' [] tr \<and> trace_complete sample_hooks cs' err tr"
    using tryRun_order[OF sample_ranked sample_resolved_run(1), where unreq = "\<lambda>_. []" and fromMain = "\<lambda>n. n \<noteq> ''pprof''" and finished = rev
        and hooks = sample_hooks] sample_bound by (simp add: mset_rev) blast
  then show ?thesis using val by auto
qed

end
