(* ===== verification/Flags.thy ===== *)
theory Flags
  imports Iter "HOL-Library.Word"
begin

text \<open>
  The command line flags of \<open>util/flag\<close>: enumerations, integers of a width, maps, slices and
  sets of strings, label selectors, and the names that the flags of a component get. A flag is its
  value; \<open>Set\<close> returns the new value or an error, \<open>String\<close> prints it.
\<close>

section \<open>Text of the standard library\<close>

text \<open>The loop of \<open>strconv.ParseUint\<close> in base 10. Its checks against a wrap of the 64 bits
  are below the maximum here, since the sum is that of natural numbers.\<close>

datatype num_error = ErrSyntax | ErrRange

definition digit_of :: "char \<Rightarrow> nat option" where
  "digit_of c = (let n = of_char c :: nat in if 48 \<le> n \<and> n \<le> 57 then Some (n - 48) else None)"

fun parse_digits :: "nat \<Rightarrow> string \<Rightarrow> nat \<Rightarrow> num_error + nat" where
  "parse_digits maxVal [] n = Inr n"
| "parse_digits maxVal (c # s) n =
     (case digit_of c of
        None \<Rightarrow> Inl ErrSyntax
      | Some d \<Rightarrow> if maxVal < n * 10 + d then Inl ErrRange else parse_digits maxVal s (n * 10 + d))"

definition ParseUint :: "string \<Rightarrow> nat \<Rightarrow> num_error + nat" where
  "ParseUint s bitSize = (if s = [] then Inl ErrSyntax else parse_digits (2 ^ bitSize - 1) s 0)"

definition ParseInt :: "string \<Rightarrow> nat \<Rightarrow> num_error + int" where
  "ParseInt s bitSize =
     (if s = [] then Inl ErrSyntax
      else let neg = (hd s = CHR ''-'');
               digits = (if hd s = CHR ''+'' \<or> neg then tl s else s);
               cutoff = 2 ^ (bitSize - 1)
           in case ParseUint digits bitSize of
                Inl err \<Rightarrow> Inl err
              | Inr un \<Rightarrow> if \<not> neg \<and> cutoff \<le> un then Inl ErrRange
                          else if neg \<and> cutoff < un then Inl ErrRange
                          else Inr (if neg then - int un else int un))"

fun FormatUint :: "nat \<Rightarrow> string" where
  "FormatUint n = (if n < 10 then [char_of (48 + n)] else FormatUint (n div 10) @ [char_of (48 + n mod 10)])"

declare FormatUint.simps [simp del]

definition FormatInt :: "int \<Rightarrow> string" where
  "FormatInt i = (if i < 0 then CHR ''-'' # FormatUint (nat (- i)) else FormatUint (nat i))"

definition num_error_text :: "string \<Rightarrow> string \<Rightarrow> num_error \<Rightarrow> go_error" where
  "num_error_text fn s err = ErrorString (''strconv.'' @ fn @ '': parsing '' @ sprintf_q s @ '': '' @
     (case err of ErrSyntax \<Rightarrow> ''invalid syntax'' | ErrRange \<Rightarrow> ''value out of range''))"

section \<open>Integers\<close>

text \<open>The value is a word of the width of the type parameter \<open>T\<close>; the bit size of the
  parser is an argument of its own.\<close>

definition signed_parser :: "nat \<Rightarrow> string \<Rightarrow> string \<Rightarrow> go_error + 'a::len word" where
  "signed_parser bitSize typeName s = (case ParseInt s bitSize of
     Inl err \<Rightarrow> Inl (TagWrapf ''ParseArg'' (num_error_text ''ParseInt'' s err) (''argument expects '' @ typeName))
   | Inr value \<Rightarrow> Inr (word_of_int value))"

definition unsigned_parser :: "nat \<Rightarrow> string \<Rightarrow> string \<Rightarrow> go_error + 'a::len word" where
  "unsigned_parser bitSize typeName s = (case ParseUint s bitSize of
     Inl err \<Rightarrow> Inl (TagWrapf ''ParseArg'' (num_error_text ''ParseUint'' s err) (''argument expects '' @ typeName))
   | Inr value \<Rightarrow> Inr (word_of_nat value))"

record 'w integerValue =
  iv_value :: 'w
  iv_typeName :: string
  parser :: "string \<Rightarrow> go_error + 'w"
  formatter :: "'w \<Rightarrow> string"

definition makeSignedIntegerFunc :: "nat \<Rightarrow> string \<Rightarrow> 'a::len word \<Rightarrow> 'a word integerValue" where
  "makeSignedIntegerFunc bitSize typeName defaultValue =
     \<lparr>iv_value = defaultValue, iv_typeName = typeName, parser = signed_parser bitSize typeName,
      formatter = (\<lambda>i. FormatInt (sint i))\<rparr>"

definition makeUnsignedIntegerFunc :: "nat \<Rightarrow> string \<Rightarrow> 'a::len word \<Rightarrow> 'a word integerValue" where
  "makeUnsignedIntegerFunc bitSize typeName defaultValue =
     \<lparr>iv_value = defaultValue, iv_typeName = typeName, parser = unsigned_parser bitSize typeName,
      formatter = (\<lambda>i. FormatUint (unat i))\<rparr>"

definition integer_String :: "'w integerValue \<Rightarrow> string" where
  "integer_String value = formatter value (iv_value value)"

definition integer_Set :: "string \<Rightarrow> 'w integerValue \<Rightarrow> go_error + 'w integerValue" where
  "integer_Set input value = (case parser value input of
     Inl err \<Rightarrow> Inl err
   | Inr parsed \<Rightarrow> Inr (value\<lparr>iv_value := parsed\<rparr>))"

definition flag_Int8 :: "8 word \<Rightarrow> 8 word integerValue" where "flag_Int8 = makeSignedIntegerFunc 8 ''int8''"
definition flag_Int16 :: "16 word \<Rightarrow> 16 word integerValue" where "flag_Int16 = makeSignedIntegerFunc 16 ''int16''"
definition flag_Int32 :: "32 word \<Rightarrow> 32 word integerValue" where "flag_Int32 = makeSignedIntegerFunc 32 ''int32''"
definition flag_Int64 :: "32 word \<Rightarrow> 32 word integerValue" where "flag_Int64 = makeSignedIntegerFunc 64 ''int32''"
definition flag_Uint8 :: "8 word \<Rightarrow> 8 word integerValue" where "flag_Uint8 = makeUnsignedIntegerFunc 8 ''uint8''"
definition flag_Uint16 :: "16 word \<Rightarrow> 16 word integerValue" where "flag_Uint16 = makeUnsignedIntegerFunc 16 ''uint16''"
definition flag_Uint32 :: "32 word \<Rightarrow> 32 word integerValue" where "flag_Uint32 = makeUnsignedIntegerFunc 32 ''uint32''"
definition flag_Uint64 :: "32 word \<Rightarrow> 32 word integerValue" where "flag_Uint64 = makeUnsignedIntegerFunc 64 ''uint32''"

section \<open>Maps\<close>

definition ErrNoEqual :: go_error where
  "ErrNoEqual = TagErrorf ''ErrNoEqual'' ''map options expect values in the form k1=v1,k2=v2,k3=v3''"

text \<open>Printing a map; \<open>output.Len() == 0\<close> decides about the separator. \<open>printK\<close> and
  \<open>printV\<close> are \<open>fmt.Sprint\<close> on keys and values.\<close>

fun map_String_loop :: "('k \<Rightarrow> string) \<Rightarrow> ('v \<Rightarrow> string) \<Rightarrow> ('k, 'v) gomap \<Rightarrow> string \<Rightarrow> string" where
  "map_String_loop printK printV [] output = output"
| "map_String_loop printK printV ((entryKey, entryValue) # m) output =
     (let output = (if length output = 0 then output @ '','' else output)
      in map_String_loop printK printV m (output @ printK entryKey @ ''='' @ printV entryValue))"

definition map_String :: "('k \<Rightarrow> string) \<Rightarrow> ('v \<Rightarrow> string) \<Rightarrow> ('k, 'v) gomap \<Rightarrow> string" where
  "map_String printK printV value = map_String_loop printK printV value []"

definition split_eq :: "string \<Rightarrow> (string \<times> string) option" where
  "split_eq entry = (if CHR ''='' \<in> set entry
     then Some (takeWhile (\<lambda>c. c \<noteq> CHR ''='') entry, tl (dropWhile (\<lambda>c. c \<noteq> CHR ''='') entry)) else None)"

text \<open>The entries read so far stay in the value when an entry is not valid.\<close>

fun map_Set_loop :: "(string \<Rightarrow> go_error + 'k) \<Rightarrow> (string \<Rightarrow> go_error + 'v) \<Rightarrow> string list \<Rightarrow> ('k, 'v) gomap \<Rightarrow>
    go_error option \<times> ('k, 'v) gomap" where
  "map_Set_loop keyParser valueParser [] value = (None, value)"
| "map_Set_loop keyParser valueParser (entry # entries) value =
     (case split_eq entry of
        None \<Rightarrow> (Some ErrNoEqual, value)
      | Some (k, v) \<Rightarrow>
          (case keyParser k of
             Inl err \<Rightarrow> (Some err, value)
           | Inr entryKey \<Rightarrow>
               (case valueParser v of
                  Inl err \<Rightarrow> (Some err, value)
                | Inr entryValue \<Rightarrow> map_Set_loop keyParser valueParser entries (map_put entryKey entryValue value))))"

definition map_Set :: "(string \<Rightarrow> go_error + 'k) \<Rightarrow> (string \<Rightarrow> go_error + 'v) \<Rightarrow> string \<Rightarrow> go_error option \<times> ('k, 'v) gomap" where
  "map_Set keyParser valueParser input =
     (if input = [] then (None, []) else map_Set_loop keyParser valueParser (strings_Split input (CHR '','')) [])"

definition StringParser :: "string \<Rightarrow> go_error + string" where "StringParser s = Inr s"

section \<open>Slices and sets of strings\<close>

definition slice_String :: "string list \<Rightarrow> string" where "slice_String value = strings_Join value '',''"

definition slice_Set :: "string \<Rightarrow> string list" where
  "slice_Set input = (if input = [] then [] else strings_Split input (CHR '',''))"

text \<open>\<open>sets.List\<close> sorts the elements of a set.\<close>

definition set_String :: "string list \<Rightarrow> string" where "set_String value = strings_Join (sort value) '',''"

definition set_Set :: "string \<Rightarrow> string list" where
  "set_Set input = (if input \<noteq> [] then foldl (\<lambda>s x. set_Insert x s) [] (strings_Split input (CHR '','')) else [])"

section \<open>Label selectors\<close>

text \<open>\<open>labels.Parse\<close> is an argument.\<close>

definition selector_Set :: "(string \<Rightarrow> go_error + 'sel) \<Rightarrow> string \<Rightarrow> go_error + 'sel" where
  "selector_Set parse input = (case parse input of
     Inl err \<Rightarrow> Inl (TagWrapf ''ParseLabelSelector'' err ''invalid label seoector'')
   | Inr selector \<Rightarrow> Inr selector)"

section \<open>Enumerations\<close>

record 'a EnumValue =
  ev_typeName :: string
  options :: "string list"
  resolve :: "(string, 'a) gomap"
  selectedKey :: "string option"
  selectedValue :: "'a option"

definition EnumFromMap :: "string \<Rightarrow> (string, 'a) gomap \<Rightarrow> 'a EnumValue" where
  "EnumFromMap typeName m = \<lparr>ev_typeName = typeName, options = sort (map fst m), resolve = m,
     selectedKey = None, selectedValue = None\<rparr>"

definition TypeName :: "string \<Rightarrow> 'a EnumValue \<Rightarrow> 'a EnumValue" where
  "TypeName typeName enum = enum\<lparr>ev_typeName := typeName\<rparr>"

definition enum_With :: "string \<Rightarrow> 'a \<Rightarrow> 'a EnumValue \<Rightarrow> 'a EnumValue" where
  "enum_With key value enum = enum\<lparr>options := options enum @ [key], resolve := map_put key value (resolve enum)\<rparr>"

text \<open>A default that the map does not have selects the zero value of the type.\<close>

definition enum_Default :: "'a \<Rightarrow> string \<Rightarrow> 'a EnumValue \<Rightarrow> 'a EnumValue" where
  "enum_Default zero key enum = enum\<lparr>selectedKey := Some key,
     selectedValue := Some (case map_of (resolve enum) key of Some v \<Rightarrow> v | None \<Rightarrow> zero)\<rparr>"

definition enum_String :: "'a EnumValue \<Rightarrow> string" where
  "enum_String enum = (case selectedKey enum of Some k \<Rightarrow> k | None \<Rightarrow> [CHR 0x22, CHR 0x22])"

definition enum_Set :: "string \<Rightarrow> 'a EnumValue \<Rightarrow> go_error + 'a EnumValue" where
  "enum_Set input enum = (case map_of (resolve enum) input of
     None \<Rightarrow> Inl (TagErrorf ''NoEnumVariant'' (''unknown option '' @ sprintf_q input))
   | Some value \<Rightarrow> Inr (enum\<lparr>selectedKey := Some input, selectedValue := Some value\<rparr>))"

fun usage_loop :: "nat \<Rightarrow> nat \<Rightarrow> string list \<Rightarrow> string \<Rightarrow> string" where
  "usage_loop n i [] usageOptions = usageOptions"
| "usage_loop n i (opt # opts) usageOptions =
     usage_loop n (Suc i) opts
       (usageOptions @ (if 0 < i then (if Suc i < n then '', '' else '' or '') else []) @ sprintf_q opt)"

definition enum_usage :: "'a EnumValue \<Rightarrow> string \<Rightarrow> string" where
  "enum_usage enum usage = usage @ '' ('' @ usage_loop (length (options enum)) 0 (options enum) [] @ '')''"

section \<open>Names of flags\<close>

definition EmptyFlagName :: string where "EmptyFlagName = ''zzz-empty-flag-name''"

text \<open>The flags of a component are visited in the order of their names. \<open>AddGoFlag\<close> of the
  set of all flags is an argument.\<close>

fun AddSubset_loop :: "(string \<Rightarrow> 'fs \<Rightarrow> 'fs) \<Rightarrow> string \<Rightarrow> string list \<Rightarrow> 'fs \<Rightarrow> 'fs" where
  "AddSubset_loop AddGoFlag prefix [] super = super"
| "AddSubset_loop AddGoFlag prefix (fl # fls) super =
     (let name = (if fl = EmptyFlagName then prefix else prefix @ ''-'' @ fl)
      in AddSubset_loop AddGoFlag prefix fls (AddGoFlag name super))"

definition AddSubset :: "(string \<Rightarrow> 'fs \<Rightarrow> 'fs) \<Rightarrow> 'fs \<Rightarrow> string \<Rightarrow> string list \<Rightarrow> 'fs" where
  "AddSubset AddGoFlag super prefix flags = AddSubset_loop AddGoFlag prefix (sort flags) super"

fun setupFlags :: "(string \<Rightarrow> 'fs \<Rightarrow> 'fs) \<Rightarrow> (string \<times> string list) list \<Rightarrow> 'fs \<Rightarrow> 'fs" where
  "setupFlags AddGoFlag [] fs = fs"
| "setupFlags AddGoFlag ((name, flags) # components) fs = setupFlags AddGoFlag components (AddSubset AddGoFlag fs name flags)"

section \<open>Decimal numerals\<close>

lemma digit_of_char: "n < 10 \<Longrightarrow> digit_of (char_of (48 + n)) = Some n"
  by (simp add: digit_of_def Let_def)

lemma FormatUint_not_Nil: "FormatUint n \<noteq> []"
  by (subst FormatUint.simps) simp

lemma parse_FormatUint: "n \<le> maxVal \<Longrightarrow> parse_digits maxVal (FormatUint n @ s) 0 = parse_digits maxVal s n"
proof (induction n arbitrary: s rule: FormatUint.induct)
  case (1 n)
  show ?case
  proof (cases "n < 10")
    case True
    then show ?thesis using 1(2) by (simp add: FormatUint.simps[of n] digit_of_char)
  next
    case False
    have "n div 10 \<le> maxVal" using 1(2) by linarith
    then have "parse_digits maxVal (FormatUint n @ s) 0 = parse_digits maxVal (char_of (48 + n mod 10) # s) (n div 10)"
      using 1(1)[OF False, of "char_of (48 + n mod 10) # s"] False by (simp add: FormatUint.simps[of n])
    also have "\<dots> = parse_digits maxVal s n"
      using 1(2) div_mult_mod_eq[of n 10] by (simp add: digit_of_char)
    finally show ?thesis .
  qed
qed

lemma hd_FormatUint: "hd (FormatUint n) \<noteq> CHR ''-''" "hd (FormatUint n) \<noteq> CHR ''+''"
proof -
  have "\<exists>d < (10::nat). hd (FormatUint n) = char_of (48 + d)"
  proof (induction n rule: FormatUint.induct)
    case (1 n)
    then show ?case
      by (cases "n < 10") (auto simp: FormatUint.simps[of n] FormatUint_not_Nil hd_append)
  qed
  then have "digit_of (hd (FormatUint n)) \<noteq> None" using digit_of_char by fastforce
  then show "hd (FormatUint n) \<noteq> CHR ''-''" "hd (FormatUint n) \<noteq> CHR ''+''" by (auto simp: digit_of_def)
qed

lemma parse_digits_range:
  "parse_digits maxVal s n = Inr v \<Longrightarrow> n \<le> maxVal \<Longrightarrow> v \<le> maxVal"
  by (induction maxVal s n rule: parse_digits.induct) (auto split: option.splits if_splits)

lemma parse_FormatUint_large: "maxVal < n \<Longrightarrow> parse_digits maxVal (FormatUint n @ s) 0 = Inl ErrRange"
proof (induction n arbitrary: s rule: FormatUint.induct)
  case (1 n)
  show ?case
  proof (cases "n < 10")
    case True
    then show ?thesis using 1(2) by (simp add: FormatUint.simps[of n] digit_of_char)
  next
    case False
    have unfold: "parse_digits maxVal (FormatUint n @ s) 0 =
        parse_digits maxVal (FormatUint (n div 10) @ char_of (48 + n mod 10) # s) 0"
      using False by (simp add: FormatUint.simps[of n])
    show ?thesis
    proof (cases "maxVal < n div 10")
      case True
      then show ?thesis using 1(1)[OF False] unfold by simp
    next
      case le: False
      then have "parse_digits maxVal (FormatUint n @ s) 0 = parse_digits maxVal (char_of (48 + n mod 10) # s) (n div 10)"
        using parse_FormatUint[of "n div 10" maxVal] unfold by simp
      then show ?thesis using 1(2) div_mult_mod_eq[of n 10] by (simp add: digit_of_char)
    qed
  qed
qed

lemma ParseUint_FormatUint: "ParseUint (FormatUint n) bitSize = (if n < 2 ^ bitSize then Inr n else Inl ErrRange)"
proof (cases "n < 2 ^ bitSize")
  case True
  then have "n \<le> 2 ^ bitSize - 1" by linarith
  then show ?thesis using True parse_FormatUint[of n "2 ^ bitSize - 1" "[]"] by (simp add: ParseUint_def FormatUint_not_Nil)
next
  case False
  moreover have "(0::nat) < 2 ^ bitSize" by simp
  ultimately have "2 ^ bitSize - 1 < n" by linarith
  then show ?thesis using False parse_FormatUint_large[of "2 ^ bitSize - 1" n "[]"] by (simp add: ParseUint_def FormatUint_not_Nil)
qed

lemma ParseInt_FormatInt:
  assumes "0 < bitSize"
  shows "ParseInt (FormatInt i) bitSize = (if - (2 ^ (bitSize - 1)) \<le> i \<and> i < 2 ^ (bitSize - 1) then Inr i else Inl ErrRange)"
proof -
  define half :: nat where "half = 2 ^ (bitSize - 1)"
  have full: "2 ^ bitSize = 2 * half" using assms by (simp add: half_def power_eq_if)
  have pos: "0 < half" by (simp add: half_def)
  have goal: "ParseInt (FormatInt i) bitSize = (if - int half \<le> i \<and> i < int half then Inr i else Inl ErrRange)"
  proof (cases "i < 0")
    case True
    then have "(nat (- i) < 2 * half) = (- i < 2 * int half)" "(half < nat (- i)) = (int half < - i)" by linarith+
    then show ?thesis using True pos
      unfolding ParseInt_def half_def[symmetric] by (simp add: FormatInt_def ParseUint_FormatUint full)
  next
    case False
    then have "(nat i < 2 * half) = (i < 2 * int half)" "(half \<le> nat i) = (int half \<le> i)" by linarith+
    then show ?thesis using False pos
      unfolding ParseInt_def half_def[symmetric]
      by (simp add: FormatInt_def ParseUint_FormatUint full FormatUint_not_Nil hd_FormatUint)
  qed
  then show ?thesis by (simp add: half_def)
qed

lemma sint_word_i32: "sint (word_of_int i :: 32 word) = i32 i"
  by (simp add: i32_def sint_sbintrunc' signed_take_bit_eq_take_bit_shift take_bit_eq_mod)

lemma signed_parser_FormatInt:
  assumes "0 < bitSize"
  shows "- (2 ^ (bitSize - 1)) \<le> i \<and> i < 2 ^ (bitSize - 1) \<Longrightarrow>
      signed_parser bitSize t (FormatInt i) = Inr (word_of_int i :: 'a::len word)"
    and "\<not> (- (2 ^ (bitSize - 1)) \<le> i \<and> i < 2 ^ (bitSize - 1)) \<Longrightarrow> \<exists>err. signed_parser bitSize t (FormatInt i) = (Inl err :: go_error + 'a::len word)"
  by (simp_all add: signed_parser_def ParseInt_FormatInt[OF assms])

lemma signed_parser_sint:
  assumes "LENGTH('a) \<le> bitSize"
  shows "signed_parser bitSize t (FormatInt (sint v)) = Inr (v :: 'a::len word)"
proof -
  have "(2::int) ^ (LENGTH('a) - 1) \<le> 2 ^ (bitSize - 1)" using assms by (intro power_increasing) auto
  moreover have "- (2 ^ (LENGTH('a) - 1)) \<le> sint v" "sint v < 2 ^ (LENGTH('a) - 1)" by (rule sint_ge sint_lt)+
  ultimately have "- (2 ^ (bitSize - 1)) \<le> sint v \<and> sint v < 2 ^ (bitSize - 1)" by linarith
  moreover have "0 < bitSize" using assms len_gt_0[where 'a = 'a] by linarith
  ultimately show ?thesis using signed_parser_FormatInt(1)[of bitSize "sint v" t, where 'a = 'a] by (simp add: scast_id)
qed

lemma unsigned_parser_unat:
  assumes "LENGTH('a) \<le> bitSize"
  shows "unsigned_parser bitSize t (FormatUint (unat v)) = Inr (v :: 'a::len word)"
proof -
  have "(2::nat) ^ LENGTH('a) \<le> 2 ^ bitSize" using assms by (intro power_increasing) auto
  then have "unat v < 2 ^ bitSize" by (rule order.strict_trans2[OF unsigned_less])
  then show ?thesis by (simp add: unsigned_parser_def ParseUint_FormatUint)
qed

section \<open>Separated lists\<close>

lemma strings_Split_not_Nil: "strings_Split s sep \<noteq> []"
  by (induction s) (auto split: list.split)

lemma strings_Split_word: "sep \<notin> set w \<Longrightarrow> strings_Split w sep = [w]"
  by (induction w) auto

lemma strings_Split_append: "sep \<notin> set w \<Longrightarrow> strings_Split (w @ sep # s) sep = w # strings_Split s sep"
  by (induction w) auto

lemma Split_Join:
  assumes "xs \<noteq> []" "\<And>x. x \<in> set xs \<Longrightarrow> sep \<notin> set x"
  shows "strings_Split (strings_Join xs [sep]) sep = xs"
  using assms by (induction xs "[sep]" rule: strings_Join.induct) (auto simp: strings_Split_word strings_Split_append)

lemma strings_Join_Cons: "xs \<noteq> [] \<Longrightarrow> strings_Join (x # xs) sep = x @ sep @ strings_Join xs sep"
  by (cases xs) auto

lemma strings_Join_hd: "strings_Join ((c # w) # ws) sep = c # strings_Join (w # ws) sep"
  by (cases ws) auto

lemma Join_Split: "strings_Join (strings_Split s sep) [sep] = s"
proof (induction s)
  case (Cons c s)
  obtain w ws where "strings_Split s sep = w # ws" using strings_Split_not_Nil by (meson neq_Nil_conv)
  then show ?case using Cons by (auto simp: strings_Join_hd)
qed simp

lemma strings_Split_parts: "x \<in> set (strings_Split s sep) \<Longrightarrow> sep \<notin> set x"
proof (induction s arbitrary: x)
  case (Cons c s)
  obtain w ws where "strings_Split s sep = w # ws" using strings_Split_not_Nil by (meson neq_Nil_conv)
  then show ?case using Cons by (auto split: if_splits)
qed simp

lemma slice_Set_iff: "slice_Set (slice_String v) = v \<longleftrightarrow> v \<noteq> [[]] \<and> (\<forall>x \<in> set v. CHR '','' \<notin> set x)"
proof
  assume eq: "slice_Set (slice_String v) = v"
  have "v \<noteq> [[]]" using eq by (auto simp: slice_Set_def slice_String_def)
  moreover have "CHR '','' \<notin> set x" if "x \<in> set v" for x
    using that eq strings_Split_parts[of x "slice_String v" "CHR '',''"] by (auto simp: slice_Set_def split: if_splits)
  ultimately show "v \<noteq> [[]] \<and> (\<forall>x \<in> set v. CHR '','' \<notin> set x)" by blast
next
  assume v: "v \<noteq> [[]] \<and> (\<forall>x \<in> set v. CHR '','' \<notin> set x)"
  show "slice_Set (slice_String v) = v"
  proof (cases "v = []")
    case False
    then have "slice_String v \<noteq> []" using v by (cases v rule: strings_Join.cases[of "(v, [])" for v, simplified]) (auto simp: slice_String_def neq_Nil_conv)
    then show ?thesis using False v Split_Join[of v "CHR '',''"] by (simp add: slice_Set_def slice_String_def)
  qed (simp add: slice_Set_def slice_String_def)
qed

section \<open>Flags that read what they print\<close>

text \<open>The contract of a flag whose default is shown to the user: what \<open>String\<close> prints of a
  value, \<open>Set\<close> reads back.\<close>

locale printable_flag =
  fixes show_flag :: "'v \<Rightarrow> string" and read_flag :: "string \<Rightarrow> 'e + 'v" and printable :: "'v \<Rightarrow> bool"
  assumes read_show: "printable v \<Longrightarrow> read_flag (show_flag v) = Inr v"
begin

lemma show_inj: "printable v \<Longrightarrow> printable w \<Longrightarrow> show_flag v = show_flag w \<Longrightarrow> v = w"
  using read_show by (metis sum.inject(2))

lemma reread: "read_flag s = Inr v \<Longrightarrow> printable v \<Longrightarrow> read_flag (show_flag v) = read_flag s"
  using read_show by simp

end

interpretation int32_flag: printable_flag "\<lambda>v :: 32 word. FormatInt (sint v)" "signed_parser 32 ''int32''" "\<lambda>_. True"
  by unfold_locales (simp add: signed_parser_sint)

interpretation uint16_flag: printable_flag "\<lambda>v :: 16 word. FormatUint (unat v)" "unsigned_parser 16 ''uint16''" "\<lambda>_. True"
  by unfold_locales (simp add: unsigned_parser_unat)

interpretation slice_flag: printable_flag slice_String "\<lambda>s. Inr (slice_Set s) :: go_error + string list"
    "\<lambda>v. v \<noteq> [[]] \<and> (\<forall>x \<in> set v. CHR '','' \<notin> set x)"
  by unfold_locales (simp add: slice_Set_iff)

section \<open>Entries of a map\<close>

lemma split_eq_entry: "CHR ''='' \<notin> set k \<Longrightarrow> split_eq (k @ ''='' @ v) = Some (k, v)"
proof -
  assume k: "CHR ''='' \<notin> set k"
  then have "takeWhile (\<lambda>c. c \<noteq> CHR ''='') k = k" "dropWhile (\<lambda>c. c \<noteq> CHR ''='') k = []" by (induction k) auto
  then show ?thesis using k by (auto simp: split_eq_def takeWhile_append dropWhile_append)
qed

lemma map_Set_loop_entries:
  assumes "\<And>k v. (k, v) \<in> set entries \<Longrightarrow> CHR ''='' \<notin> set k"
  shows "\<exists>m'. map_Set_loop StringParser StringParser (map (\<lambda>(k, v). k @ ''='' @ v) entries) m = (None, m')
    \<and> map_of m' = map_of m ++ map_of (rev entries) \<and> (map_ok m \<longrightarrow> map_ok m')"
  using assms
proof (induction entries arbitrary: m)
  case (Cons e entries)
  obtain k v where e: "e = (k, v)" by force
  have "CHR ''='' \<notin> set k" using Cons.prems[of k v] e by simp
  then have "split_eq (k @ ''='' @ v) = Some (k, v)" by (rule split_eq_entry)
  moreover obtain m' where m': "map_Set_loop StringParser StringParser (map (\<lambda>(k, v). k @ ''='' @ v) entries) (map_put k v m) = (None, m')"
    "map_of m' = map_of (map_put k v m) ++ map_of (rev entries)" "map_ok (map_put k v m) \<longrightarrow> map_ok m'"
    using Cons.IH[of "map_put k v m"] Cons.prems by (metis list.set_intros(2))
  ultimately have "map_Set_loop StringParser StringParser (map (\<lambda>(k, v). k @ ''='' @ v) (e # entries)) m = (None, m')"
    by (simp add: e StringParser_def[abs_def])
  moreover have "map_of m' = map_of m ++ map_of (rev (e # entries))" using m'(2) by (simp add: e map_of_map_put)
  moreover have "map_ok m \<longrightarrow> map_ok m'" using m'(3) by (simp add: map_ok_put)
  ultimately show ?case by blast
qed simp

lemma map_String_loop_prefix: "\<exists>s. map_String_loop printK printV m acc = acc @ s"
proof (induction m arbitrary: acc)
  case (Cons e m)
  show ?case
  proof (cases e)
    case (Pair k v)
    then show ?thesis using Cons[of "(if length acc = 0 then acc @ '','' else acc) @ printK k @ ''='' @ printV v"] by auto
  qed
qed simp

lemma set_Insert_fold: "set (foldl (\<lambda>s x. set_Insert x s) acc xs) = set acc \<union> set xs"
  by (induction xs arbitrary: acc) (auto simp: set_Insert_def)

section \<open>Properties\<close>

text \<open>What an integer flag prints, it reads back: for every value of its type, of any width that
  the bit size of the parser is not below, signed and unsigned.\<close>

theorem integer_flag_roundtrip:
  fixes v v' :: "'a::len word"
  assumes "LENGTH('a) \<le> bitSize"
  shows "integer_Set (integer_String (makeSignedIntegerFunc bitSize t v)) (makeSignedIntegerFunc bitSize t v') =
      Inr (makeSignedIntegerFunc bitSize t v)
    \<and> integer_Set (integer_String (makeUnsignedIntegerFunc bitSize t v)) (makeUnsignedIntegerFunc bitSize t v') =
      Inr (makeUnsignedIntegerFunc bitSize t v)"
  using signed_parser_sint[OF assms, of t v] unsigned_parser_unat[OF assms, of t v]
  by (simp add: integer_Set_def integer_String_def makeSignedIntegerFunc_def makeUnsignedIntegerFunc_def)

text \<open>The theorem at the flag of a port.\<close>

theorem integer_flag_roundtrip_witness:
  "integer_String (flag_Uint16 8080) = ''8080'' \<and> integer_Set ''8080'' (flag_Uint16 0) = Inr (flag_Uint16 8080)"
proof -
  have print: "integer_String (flag_Uint16 8080) = ''8080''"
    by (simp add: integer_String_def flag_Uint16_def makeUnsignedIntegerFunc_def FormatUint.simps char_of_def bit_0)
  then show ?thesis using integer_flag_roundtrip[where 'a = 16, of 16 "''uint16''" 8080 0] by (simp add: flag_Uint16_def)
qed

text \<open>C40: The flags of type \<open>Int32\<close> refuse the numerals outside of 32 bits and keep the
  others. Those of type \<open>Int64\<close> accept every numeral of 64 bits, but hold only its low 32 bits:
  their type parameter is \<open>int32\<close>.\<close>

theorem integer_flag_width:
  assumes "- (2 ^ 63) \<le> i" "i < 2 ^ 63"
  shows "(case integer_Set (FormatInt i) (flag_Int32 d) of
        Inl err \<Rightarrow> \<not> is_int32 i | Inr value \<Rightarrow> is_int32 i \<and> sint (iv_value value) = i)
    \<and> (\<exists>value. integer_Set (FormatInt i) (flag_Int64 d) = Inr value \<and> sint (iv_value value) = i32 i)"
proof -
  have small: "sint (word_of_int i :: 32 word) = i" if "is_int32 i"
    using that by (simp add: sint_word_i32 i32_def is_int32_def)
  have "(case integer_Set (FormatInt i) (flag_Int32 d) of
        Inl err \<Rightarrow> \<not> is_int32 i | Inr value \<Rightarrow> is_int32 i \<and> sint (iv_value value) = i)"
    using signed_parser_FormatInt[of 32 i "''int32''", where 'a = 32] small
    by (cases "is_int32 i") (auto simp: integer_Set_def flag_Int32_def makeSignedIntegerFunc_def is_int32_def)
  moreover have "integer_Set (FormatInt i) (flag_Int64 d) = Inr (flag_Int64 (word_of_int i))"
    using signed_parser_FormatInt(1)[of 64 i "''int32''", where 'a = 32] assms
    by (simp add: integer_Set_def flag_Int64_def makeSignedIntegerFunc_def)
  ultimately show ?thesis
    by (simp add: sint_word_i32 flag_Int64_def makeSignedIntegerFunc_def)
qed

text \<open>The theorem at the smallest positive number that needs 33 bits.\<close>

theorem integer_flag_width_witness:
  "(\<exists>value. integer_Set ''4294967296'' (flag_Int64 5) = Inr value \<and> sint (iv_value value) = 0)"
proof -
  have "FormatInt 4294967296 = ''4294967296''" by (simp add: FormatInt_def FormatUint.simps char_of_def bit_0)
  then show ?thesis using integer_flag_width[of 4294967296 5] by (simp add: i32_def)
qed

text \<open>Setting a map flag to a list of entries gives the map of these entries, and when a key
  occurs more than once the last value wins.\<close>

theorem map_flag_last_wins:
  assumes "entries \<noteq> []"
    and "\<And>k v. (k, v) \<in> set entries \<Longrightarrow> CHR ''='' \<notin> set k \<and> CHR '','' \<notin> set k \<and> CHR '','' \<notin> set v"
  shows "\<exists>m. map_Set StringParser StringParser (strings_Join (map (\<lambda>(k, v). k @ ''='' @ v) entries) '','') = (None, m)
    \<and> map_ok m \<and> map_of m = map_of (rev entries)"
proof -
  let ?texts = "map (\<lambda>(k, v). k @ ''='' @ v) entries"
  have nocomma: "CHR '','' \<notin> set x" if x: "x \<in> set ?texts" for x
  proof -
    obtain k v where "(k, v) \<in> set entries" "x = k @ ''='' @ v" using x by auto
    then show ?thesis using assms(2)[of k v] by simp
  qed
  have split: "strings_Split (strings_Join ?texts '','') (CHR '','') = ?texts"
    using Split_Join[of ?texts "CHR '',''"] assms(1) nocomma by simp
  have "strings_Join ?texts '','' \<noteq> []"
  proof
    assume "strings_Join ?texts '','' = []"
    then have "?texts = [[]]" using split by simp
    then show False by (cases entries) auto
  qed
  moreover obtain m where "map_Set_loop StringParser StringParser ?texts [] = (None, m)" "map_of m = map_of (rev entries)" "map_ok m"
    using map_Set_loop_entries[of entries "[]"] assms(2) by (auto simp: map_ok_def)
  ultimately show ?thesis using split by (simp add: map_Set_def)
qed

text \<open>The theorem at a flag that gives one key twice.\<close>

theorem map_flag_last_wins_witness:
  "\<exists>m. map_Set StringParser StringParser ''a=1,b=2,a=3'' = (None, m) \<and> map_of m ''a'' = Some ''3''"
proof -
  let ?entries = "[(''a'', ''1''), (''b'', ''2''), (''a'', ''3'')]"
  have "CHR ''='' \<notin> set k \<and> CHR '','' \<notin> set k \<and> CHR '','' \<notin> set v" if "(k, v) \<in> set ?entries" for k v
    using that by auto
  from map_flag_last_wins[of ?entries, OF _ this] show ?thesis by auto
qed

text \<open>What a map flag prints is not what it reads: the separator is written before the first
  entry and between no others, and \<open>Set\<close> refuses the text of every map that is not empty.\<close>

theorem map_String_rejected:
  assumes "m \<noteq> []"
  shows "map_Set keyParser valueParser (map_String printK printV m) = (Some ErrNoEqual, [])"
proof -
  obtain k v m' where "m = (k, v) # m'" using assms by (metis list.exhaust surj_pair)
  then obtain s where "map_String printK printV m = CHR '','' # s"
    using map_String_loop_prefix[of printK printV m' "'','' @ printK k @ ''='' @ printV v"] by (auto simp: map_String_def)
  then show ?thesis by (simp add: map_Set_def split_eq_def)
qed

text \<open>The theorem at a map of two entries.\<close>

theorem map_String_rejected_witness:
  "map_String id id [(''a'', ''1''), (''b'', ''2'')] = '',a=1b=2''
   \<and> fst (map_Set StringParser StringParser '',a=1b=2'') = Some ErrNoEqual"
proof -
  have "map_String id id [(''a'', ''1''), (''b'', ''2'')] = '',a=1b=2''" by code_simp
  then show ?thesis using map_String_rejected[of "[(''a'', ''1''), (''b'', ''2'')]" StringParser StringParser id id] by simp
qed

text \<open>The flag of a slice prints every text back that it reads, and reads every slice back
  that it prints, unless an element has a comma or the slice is a single empty string. The flag of a
  set reads the elements that it has printed under the same condition.\<close>

theorem slice_flag_roundtrip:
  "slice_String (slice_Set input) = input
   \<and> (slice_Set (slice_String v) = v \<longleftrightarrow> v \<noteq> [[]] \<and> (\<forall>x \<in> set v. CHR '','' \<notin> set x))
   \<and> (v \<noteq> [[]] \<and> (\<forall>x \<in> set v. CHR '','' \<notin> set x) \<longrightarrow> set (set_Set (set_String v)) = set v)"
proof (intro conjI impI)
  show "slice_String (slice_Set input) = input" by (simp add: slice_String_def slice_Set_def Join_Split)
  show "slice_Set (slice_String v) = v \<longleftrightarrow> v \<noteq> [[]] \<and> (\<forall>x \<in> set v. CHR '','' \<notin> set x)" by (rule slice_Set_iff)
  assume v: "v \<noteq> [[]] \<and> (\<forall>x \<in> set v. CHR '','' \<notin> set x)"
  have "sort v \<noteq> [[]]"
  proof
    assume "sort v = [[]]"
    then have "mset v = {#[]#}" by (metis mset_sort mset_single_iff_right)
    then show False using v by simp
  qed
  then have "slice_Set (slice_String (sort v)) = sort v" using v slice_flag.read_show[of "sort v"] by simp
  moreover have "set (set_Set input) = set (slice_Set input)" for input
    using set_Insert_fold[of "[]" "strings_Split input (CHR '','')"] by (simp add: set_Set_def slice_Set_def)
  ultimately show "set (set_Set (set_String v)) = set v" by (simp add: set_String_def slice_String_def)
qed

text \<open>The theorem at a set of two elements.\<close>

theorem slice_flag_roundtrip_witness:
  "set_String [''b'', ''a''] = ''a,b'' \<and> set (set_Set ''a,b'') = {''a'', ''b''} \<and> slice_Set (slice_String [''b'', ''a'']) = [''b'', ''a'']"
proof -
  have "set_String [''b'', ''a''] = ''a,b''" by code_simp
  then show ?thesis using slice_flag_roundtrip[of "[]" "[''b'', ''a'']"] by auto
qed

end
