(* ===== verification/Mux.thy ===== *)
theory Mux
  imports StartUp Flags
begin

text \<open>
  Multiplexed components, \<open>util/component/mux.go\<close>: an interface component collects its
  implementations from all declarations of its name, the user selects one by a flag, and the requests
  of the others are withdrawn.
\<close>

section \<open>Declarations of an interface\<close>

text \<open>An implementation is represented by the name of its component.\<close>

record muxArgs =
  description :: "string option"
  impls :: "(string, string) gomap"
  defaultOption :: "string option"

definition impl_component :: "string \<Rightarrow> string \<Rightarrow> string" where
  "impl_component muxName implName = muxName @ ''.'' @ implName"

text \<open>The two ways of declaring the interface: with an implementation, and with the description
  by who requests it.\<close>

datatype mux_decl = MuxImpl string bool | MuxInterface string

definition DeclareMuxImpl_args :: "string \<Rightarrow> string \<Rightarrow> bool \<Rightarrow> muxArgs" where
  "DeclareMuxImpl_args muxName implName isDefault =
     \<lparr>description = None, impls = [(implName, impl_component muxName implName)],
      defaultOption = (if isDefault then Some implName else None)\<rparr>"

definition ProvideMux_args :: "string \<Rightarrow> muxArgs" where
  "ProvideMux_args desc = \<lparr>description = Some desc, impls = [], defaultOption = None\<rparr>"

fun mux_new :: "string \<Rightarrow> mux_decl \<Rightarrow> muxArgs" where
  "mux_new muxName (MuxImpl implName isDefault) = DeclareMuxImpl_args muxName implName isDefault"
| "mux_new muxName (MuxInterface desc) = ProvideMux_args desc"

text \<open>The merge functions; a second default panics. The second component of the result are the
  requests they add.\<close>

definition DeclareMuxImpl_merge :: "string \<Rightarrow> string \<Rightarrow> bool \<Rightarrow> muxArgs \<Rightarrow> (muxArgs \<times> string list) option" where
  "DeclareMuxImpl_merge muxName implName isDefault prevArgs =
     (let args = prevArgs\<lparr>impls := map_put implName (impl_component muxName implName) (impls prevArgs)\<rparr>;
          reqs = [impl_component muxName implName]
      in if isDefault then
           (case defaultOption prevArgs of
              Some prevDefault \<Rightarrow> None
            | None \<Rightarrow> Some (args\<lparr>defaultOption := Some implName\<rparr>, reqs))
         else Some (args, reqs))"

definition ProvideMux_merge :: "string \<Rightarrow> muxArgs \<Rightarrow> muxArgs" where
  "ProvideMux_merge desc args = args\<lparr>description := Some desc\<rparr>"

fun mux_onMerge :: "string \<Rightarrow> mux_decl \<Rightarrow> muxArgs \<Rightarrow> (muxArgs \<times> string list) option" where
  "mux_onMerge muxName (MuxImpl implName isDefault) prevArgs = DeclareMuxImpl_merge muxName implName isDefault prevArgs"
| "mux_onMerge muxName (MuxInterface desc) args = Some (ProvideMux_merge desc args, [])"

definition collectDeps :: "muxArgs \<Rightarrow> string list" where
  "collectDeps args = map snd (impls args)"

text \<open>The flag: none without a description, since nobody requests the interface; otherwise its
  default, which must exist, or a value that names an implementation.\<close>

definition mux_enum :: "muxArgs \<Rightarrow> string \<Rightarrow> string EnumValue" where
  "mux_enum args dflt = enum_Default [] dflt (TypeName ''type'' (EnumFromMap ''string''
     (iter_CollectMap (iter_Map (iter_MapKeys (impls args)) (\<lambda>key. (key, key))))))"

definition mux_addFlags :: "muxArgs \<Rightarrow> string option \<Rightarrow> (go_error + string option) option" where
  "mux_addFlags args value =
     (case description args of
        None \<Rightarrow> Some (Inr None)
      | Some _ \<Rightarrow>
          (case defaultOption args of
             None \<Rightarrow> None
           | Some dflt \<Rightarrow>
               (case value of
                  None \<Rightarrow> Some (Inr (selectedValue (mux_enum args dflt)))
                | Some v \<Rightarrow>
                    (case enum_Set v (mux_enum args dflt) of
                       Inl err \<Rightarrow> Some (Inl err)
                     | Inr enum \<Rightarrow> Some (Inr (selectedValue enum))))))"

definition mux_unrequestDeps :: "muxArgs \<Rightarrow> string option \<Rightarrow> string list" where
  "mux_unrequestDeps args selection =
     (case selection of
        None \<Rightarrow> []
      | Some sel \<Rightarrow> map snd (filter (\<lambda>p. fst p \<noteq> sel) (impls args)))"

text \<open>The component that the interface resolves to; it panics when it was never requested.\<close>

definition mux_api :: "muxArgs \<Rightarrow> string option \<Rightarrow> string option" where
  "mux_api args selection = (case selection of None \<Rightarrow> None | Some sel \<Rightarrow> map_of (impls args) sel)"

text \<open>All declarations of one interface, with the requests made by the first and the merged
  ones.\<close>

fun mux_merge_all :: "string \<Rightarrow> mux_decl list \<Rightarrow> muxArgs \<times> string list \<Rightarrow> (muxArgs \<times> string list) option" where
  "mux_merge_all muxName [] st = Some st"
| "mux_merge_all muxName (d # ds) st =
     (case mux_onMerge muxName d (fst st) of
        None \<Rightarrow> None
      | Some (args, reqs) \<Rightarrow> mux_merge_all muxName ds (args, snd st @ reqs))"

definition mux_declare :: "string \<Rightarrow> mux_decl list \<Rightarrow> (muxArgs \<times> string list) option" where
  "mux_declare muxName ds = (case ds of
     [] \<Rightarrow> None
   | d # ds' \<Rightarrow> (let args = mux_new muxName d in mux_merge_all muxName ds' (args, collectDeps args)))"

section \<open>What the declarations amount to\<close>

lemmas mux_decl_defs = DeclareMuxImpl_args_def ProvideMux_args_def DeclareMuxImpl_merge_def ProvideMux_merge_def

fun impl_names :: "mux_decl list \<Rightarrow> string list" where
  "impl_names [] = []"
| "impl_names (MuxImpl n b # ds) = n # impl_names ds"
| "impl_names (MuxInterface desc # ds) = impl_names ds"

fun default_names :: "mux_decl list \<Rightarrow> string list" where
  "default_names [] = []"
| "default_names (MuxImpl n b # ds) = (if b then n # default_names ds else default_names ds)"
| "default_names (MuxInterface desc # ds) = default_names ds"

abbreviation mux_impls :: "string \<Rightarrow> string list \<Rightarrow> (string, string) gomap" where
  "mux_impls muxName ns \<equiv> map (\<lambda>n. (n, impl_component muxName n)) ns"

lemma mux_merge_all_spec:
  assumes "impls args = mux_impls muxName ns" "distinct (ns @ impl_names ds)"
    and "length (case defaultOption args of None \<Rightarrow> [] | Some d \<Rightarrow> [d]) + length (default_names ds) \<le> 1"
  shows "\<exists>args'. mux_merge_all muxName ds (args, reqs) = Some (args', reqs @ map (impl_component muxName) (impl_names ds))
    \<and> impls args' = mux_impls muxName (ns @ impl_names ds)
    \<and> defaultOption args' = (case default_names ds of [] \<Rightarrow> defaultOption args | d # _ \<Rightarrow> Some d)"
  using assms
proof (induction ds arbitrary: args reqs ns)
  case (Cons d ds)
  show ?case
  proof (cases d)
    case (MuxImpl n b)
    let ?args = "args\<lparr>impls := map_put n (impl_component muxName n) (impls args),
      defaultOption := (if b then Some n else defaultOption args)\<rparr>"
    have none: "b \<Longrightarrow> defaultOption args = None" using Cons.prems(3) MuxImpl by (auto split: option.splits)
    then have "mux_onMerge muxName d args = Some (?args, [impl_component muxName n])"
      by (simp add: MuxImpl Let_def mux_decl_defs)
    moreover have "impls ?args = mux_impls muxName (ns @ [n])"
      using Cons.prems(1,2) MuxImpl by (simp add: map_put_new image_image)
    ultimately show ?thesis
      using Cons.IH[of ?args "ns @ [n]" "reqs @ [impl_component muxName n]"] Cons.prems(2,3) MuxImpl none
      by (cases b) (auto split: option.splits list.splits)
  next
    case (MuxInterface desc)
    then show ?thesis using Cons.IH[of "args\<lparr>description := Some desc\<rparr>" ns reqs] Cons.prems
      by (auto simp: mux_decl_defs split: list.splits)
  qed
qed (auto split: option.splits)

lemma mux_new_spec:
  "impls (mux_new muxName d) = mux_impls muxName (impl_names [d])"
  "defaultOption (mux_new muxName d) = (case default_names [d] of [] \<Rightarrow> None | n # _ \<Rightarrow> Some n)"
  "collectDeps (mux_new muxName d) = map (impl_component muxName) (impl_names [d])"
  by (cases d; simp add: collectDeps_def mux_decl_defs)+

lemma impl_names_Cons: "impl_names (d # ds) = impl_names [d] @ impl_names ds"
  "default_names (d # ds) = default_names [d] @ default_names ds"
  by (cases d; simp)+

lemma mux_declare_spec:
  assumes "ds \<noteq> []" "distinct (impl_names ds)" "length (default_names ds) \<le> 1"
  shows "\<exists>args. mux_declare muxName ds = Some (args, map (impl_component muxName) (impl_names ds))
    \<and> impls args = mux_impls muxName (impl_names ds)
    \<and> defaultOption args = (case default_names ds of [] \<Rightarrow> None | d # _ \<Rightarrow> Some d)"
proof -
  obtain d ds' where ds: "ds = d # ds'" using assms(1) by (meson neq_Nil_conv)
  note names = impl_names_Cons[of d ds', folded ds]
  have "distinct (impl_names [d] @ impl_names ds')" using assms(2) names by simp
  moreover have "length (case defaultOption (mux_new muxName d) of None \<Rightarrow> [] | Some n \<Rightarrow> [n]) + length (default_names ds') \<le> 1"
    using assms(3) names(2) by (auto simp: mux_new_spec(2) split: list.splits)
  ultimately obtain args where args: "mux_merge_all muxName ds' (mux_new muxName d, collectDeps (mux_new muxName d)) =
      Some (args, collectDeps (mux_new muxName d) @ map (impl_component muxName) (impl_names ds'))"
    "impls args = mux_impls muxName (impl_names [d] @ impl_names ds')"
    "defaultOption args = (case default_names ds' of [] \<Rightarrow> defaultOption (mux_new muxName d) | n # _ \<Rightarrow> Some n)"
    using mux_merge_all_spec[OF mux_new_spec(1), of d ds' muxName "collectDeps (mux_new muxName d)"] by blast
  then show ?thesis using assms(3) names
    by (auto simp: ds mux_declare_def mux_new_spec split: list.splits)
qed

lemma mux_onMerge_description:
  "mux_onMerge muxName d args = Some (args', reqs) \<Longrightarrow>
    description args' = (case d of MuxImpl _ _ \<Rightarrow> description args | MuxInterface desc \<Rightarrow> Some desc)"
  by (cases d) (auto simp: Let_def mux_decl_defs split: option.splits if_splits)

lemma mux_description_merge:
  assumes "mux_merge_all muxName ds (args, reqs) = Some (args', reqs')"
  shows "description args' = None \<longleftrightarrow> description args = None \<and> (\<forall>desc. MuxInterface desc \<notin> set ds)"
  using assms
proof (induction ds arbitrary: args reqs)
  case (Cons d ds)
  then obtain args1 reqs1 where one: "mux_onMerge muxName d args = Some (args1, reqs1)"
    "mux_merge_all muxName ds (args1, reqs @ reqs1) = Some (args', reqs')" by (auto split: option.splits)
  show ?case using Cons.IH[OF one(2)] mux_onMerge_description[OF one(1)] by (cases d) auto
qed simp

lemma mux_description:
  assumes "mux_declare muxName ds = Some (args, reqs)"
  shows "description args = None \<longleftrightarrow> (\<forall>desc. MuxInterface desc \<notin> set ds)"
proof (cases ds)
  case (Cons d ds')
  then have "mux_merge_all muxName ds' (mux_new muxName d, collectDeps (mux_new muxName d)) = Some (args, reqs)"
    using assms by (simp add: mux_declare_def Let_def)
  from mux_description_merge[OF this] show ?thesis using Cons by (cases d) (auto simp: mux_decl_defs)
qed (use assms in \<open>simp add: mux_declare_def\<close>)

lemma mux_enum_resolve: "map_of (resolve (mux_enum args dflt)) k = (if k \<in> fst ` set (impls args) then Some k else None)"
proof -
  have "map_of (rev (map (\<lambda>key. (key, key)) ks)) k = (if k \<in> set ks then Some k else None)" for ks :: "string list"
    by (induction ks) (auto simp: map_add_def split: option.split)
  then show ?thesis
    by (simp add: mux_enum_def enum_Default_def TypeName_def EnumFromMap_def iter_lists iter_CollectMap_list collect_map_acc del: map_map)
qed

lemma mux_enum_selected:
  assumes "dflt \<in> fst ` set (impls args)"
  shows "selectedValue (mux_enum args dflt) = Some dflt"
proof -
  have "selectedValue (mux_enum args dflt) = Some (case map_of (resolve (mux_enum args dflt)) dflt of Some v \<Rightarrow> v | None \<Rightarrow> [])"
    by (simp add: mux_enum_def enum_Default_def)
  then show ?thesis using assms by (simp add: mux_enum_resolve)
qed

lemma mux_addFlags_selection:
  assumes "mux_addFlags args input = Some (Inr sel)" "description args \<noteq> None"
    and "\<And>d. defaultOption args = Some d \<Longrightarrow> d \<in> fst ` set (impls args)"
  shows "\<exists>s. sel = Some s \<and> s \<in> fst ` set (impls args) \<and> Some s = (case input of None \<Rightarrow> defaultOption args | Some v \<Rightarrow> Some v)"
proof -
  obtain desc where desc: "description args = Some desc" using assms(2) by blast
  obtain dflt where dflt: "defaultOption args = Some dflt" using assms(1) desc by (auto simp: mux_addFlags_def split: option.splits)
  show ?thesis
  proof (cases input)
    case None
    then show ?thesis using assms(1,3) desc dflt mux_enum_selected[of dflt args] by (auto simp: mux_addFlags_def)
  next
    case (Some v)
    then show ?thesis using assms(1) desc dflt mux_enum_resolve[of args dflt v]
      by (auto simp: mux_addFlags_def enum_Set_def split: if_splits)
  qed
qed

lemma impl_component_inj [simp]: "impl_component muxName n = impl_component muxName n' \<longleftrightarrow> n = n'"
  by (simp add: impl_component_def)

lemma mux_unrequestDeps_impls:
  "impls args = mux_impls muxName ns \<Longrightarrow>
    mux_unrequestDeps args (Some s) = map (impl_component muxName) (filter (\<lambda>n. n \<noteq> s) ns)"
  by (simp add: mux_unrequestDeps_def filter_map o_def)

lemma count_impls: "count_list (map (impl_component muxName) ns) (impl_component muxName n) = count_list ns n"
  by (induction ns) auto

lemma count_filter_le: "count_list (map f (filter P ns)) b \<le> count_list (map f ns) b"
  by (induction ns) auto

lemma count_list_filter: "count_list (filter P ns) n = (if P n then count_list ns n else 0)"
  by (induction ns) auto

lemma count_distinct: "distinct ns \<Longrightarrow> n \<in> set ns \<Longrightarrow> count_list ns n = 1"
  by (induction ns) auto

text \<open>All declarations of an interface that is requested, with a valid selection.\<close>

lemma mux_selection:
  assumes "distinct (impl_names ds)" "length (default_names ds) \<le> 1" "MuxInterface desc \<in> set ds"
    and "mux_declare muxName ds = Some (args, reqs)" "mux_addFlags args input = Some (Inr sel)"
  shows "\<exists>s. sel = Some s \<and> s \<in> set (impl_names ds) \<and> reqs = map (impl_component muxName) (impl_names ds)
    \<and> impls args = mux_impls muxName (impl_names ds) \<and> mux_api args sel = Some (impl_component muxName s)
    \<and> default_names ds \<noteq> [] \<and> s = (case input of None \<Rightarrow> hd (default_names ds) | Some v \<Rightarrow> v)"
proof -
  have "ds \<noteq> []" using assms(3) by auto
  then have args: "reqs = map (impl_component muxName) (impl_names ds)" "impls args = mux_impls muxName (impl_names ds)"
    "defaultOption args = (case default_names ds of [] \<Rightarrow> None | d # _ \<Rightarrow> Some d)"
    using mux_declare_spec[OF _ assms(1,2), of muxName] assms(4) by auto
  have default_impl: "set (default_names ds) \<subseteq> set (impl_names ds)" for ds by (induction ds rule: default_names.induct) auto
  have described: "description args \<noteq> None" using mux_description[OF assms(4)] assms(3) by auto
  have keys: "fst ` set (impls args) = set (impl_names ds)" by (force simp: args(2))
  then obtain s where s: "sel = Some s" "s \<in> set (impl_names ds)" "Some s = (case input of None \<Rightarrow> defaultOption args | Some v \<Rightarrow> Some v)"
    using mux_addFlags_selection[OF assms(5) described] default_impl[of ds] args(3) by (auto split: list.splits)
  have "map_of (mux_impls muxName ns) s = (if s \<in> set ns then Some (impl_component muxName s) else None)" for ns
    by (induction ns) auto
  then have "mux_api args sel = Some (impl_component muxName s)" using s(1,2) args(2) by (simp add: mux_api_def)
  moreover have "defaultOption args \<noteq> None" using assms(5) described by (auto simp: mux_addFlags_def split: option.splits)
  ultimately show ?thesis using s args by (auto split: list.splits option.splits)
qed

section \<open>Property\<close>

text \<open>C26: A process runs the implementation that the options select and no other. Of the
  implementations that only their interface requests, the one with the name given on the command line
  is enabled exactly when the interface is, and the interface resolves to it; the others are disabled. Without
  a name on the command line it is the first implementation that got declared, provided that this one is
  declared as the default, which the comment on \<open>DeclareMuxImpl\<close> takes for granted. Withdrawing the requests of the others
  never exceeds what the interface has requested.\<close>

theorem mux_selects:
  assumes "distinct (impl_names ds)" "length (default_names ds) \<le> 1" "MuxInterface desc \<in> set ds"
    and "input = None \<longrightarrow> default_names ds = [hd (impl_names ds)]"
    and "mux_declare muxName ds = Some (args, reqs)" "mux_addFlags args input = Some (Inr sel)"
    and "distinct (map nc_name cs)" "c \<in> set cs" "nc_name c = muxName" "\<And>b. count_of (nc_deps c) b = int (count_list reqs b)"
    and "unreq muxName = mux_unrequestDeps args sel" "n \<in> set (impl_names ds)"
    and "\<And>c'. c' \<in> set cs \<Longrightarrow> nc_name c' \<noteq> muxName \<Longrightarrow> count_of (nc_deps c') (impl_component muxName n) \<le> 0"
    and "\<And>c'. c' \<in> set cs \<Longrightarrow> nc_name c' = impl_component muxName n \<Longrightarrow> count_of (nc_requesters c') mainRequester = 0"
  shows "(enabled cs fromMain unreq (impl_component muxName n) \<longleftrightarrow>
      enabled cs fromMain unreq muxName \<and> n = (case input of None \<Rightarrow> hd (impl_names ds) | Some v \<Rightarrow> v))
    \<and> mux_api args sel = Some (impl_component muxName (case input of None \<Rightarrow> hd (impl_names ds) | Some v \<Rightarrow> v))
    \<and> int (count_list (unreq muxName) b) \<le> count_of (nc_deps c) b"
proof -
  obtain s where s: "sel = Some s" "s \<in> set (impl_names ds)" "reqs = map (impl_component muxName) (impl_names ds)"
    "impls args = mux_impls muxName (impl_names ds)" "mux_api args sel = Some (impl_component muxName s)"
    "s = (case input of None \<Rightarrow> hd (default_names ds) | Some v \<Rightarrow> v)"
    using mux_selection[OF assms(1-3,5,6)] by blast
  have withdrawn: "unreq muxName = map (impl_component muxName) (filter (\<lambda>n. n \<noteq> s) (impl_names ds))"
    using mux_unrequestDeps_impls[OF s(4)] assms(11) s(1) by simp
  have one: "count_list (impl_names ds) n = 1"
    using assms(1,12) by (rule count_distinct)
  have asked: "count_of (nc_deps c) (impl_component muxName n) = 1" using assms(10) s(3) by (simp add: count_impls one)
  have left: "count_list (unreq muxName) (impl_component muxName n) = (if n = s then 0 else 1)"
    using one by (simp add: withdrawn count_impls count_list_filter)
  have "enabled cs fromMain unreq (impl_component muxName n) \<longleftrightarrow> enabled cs fromMain unreq muxName \<and> n = s"
  proof
    assume "enabled cs fromMain unreq (impl_component muxName n)"
    then show "enabled cs fromMain unreq muxName \<and> n = s"
    proof cases
      case (main c')
      then show ?thesis using assms(14)[of c'] by simp
    next
      case (needed c')
      then have "nc_name c' = muxName" using assms(13)[of c'] by fastforce
      moreover from this have "c' = c" using assms(7-9) needed(1) by (auto simp: distinct_map dest: inj_onD)
      ultimately show ?thesis using needed(2,3) asked left by (auto split: if_splits)
    qed
  next
    assume "enabled cs fromMain unreq muxName \<and> n = s"
    then show "enabled cs fromMain unreq (impl_component muxName n)"
      using enabled.needed[OF assms(8), of fromMain unreq "impl_component muxName n"] assms(9) asked left by simp
  qed
  moreover have "int (count_list (unreq muxName) b) \<le> count_of (nc_deps c) b"
    using count_filter_le[of "impl_component muxName" "\<lambda>n. n \<noteq> s" "impl_names ds" b] assms(10)[of b] s(3) by (simp add: withdrawn)
  moreover have "s = (case input of None \<Rightarrow> hd (impl_names ds) | Some v \<Rightarrow> v)"
    using s(6) assms(4) by (cases input) simp_all
  ultimately show ?thesis using s(5) by simp
qed

subsection \<open>A sample interface\<close>

text \<open>An application that uses an interface with two implementations, which main declares; the first
  is the default.\<close>

definition sample_impls :: "mux_decl list" where
  "sample_impls = [MuxImpl ''a'' True, MuxImpl ''b'' False, MuxInterface ''provider'']"

definition sample_mux_decl :: "nat \<Rightarrow> nat Decl" where
  "sample_mux_decl d =
     (if d = 0 then \<lparr>d_name = ''app'', d_type = 0, d_deps = [1], d_merge = []\<rparr>
      else if d = 1 then \<lparr>d_name = ''mux'', d_type = 1, d_deps = [], d_merge = []\<rparr>
      else if d = 2 then \<lparr>d_name = ''mux'', d_type = 1, d_deps = [4], d_merge = [4]\<rparr>
      else if d = 3 then \<lparr>d_name = ''mux'', d_type = 1, d_deps = [5], d_merge = [5]\<rparr>
      else if d = 4 then \<lparr>d_name = ''mux.a'', d_type = 2, d_deps = [], d_merge = []\<rparr>
      else \<lparr>d_name = ''mux.b'', d_type = 3, d_deps = [], d_merge = []\<rparr>)"

definition sample_mux_resolved :: "nat NamedComponent list" where
  "sample_mux_resolved = (case ResolveList 3 sample_mux_decl [2, 3, 0] of Ok cs \<Rightarrow> cs | _ \<Rightarrow> [])"

definition sample_mux_args :: muxArgs where
  "sample_mux_args = \<lparr>description = Some ''provider'', impls = [(''a'', ''mux.a''), (''b'', ''mux.b'')], defaultOption = Some ''a''\<rparr>"

definition sample_unreq :: "string \<Rightarrow> string list" where
  "sample_unreq n = (if n = ''mux'' then mux_unrequestDeps sample_mux_args (Some ''b'') else [])"

definition sample_fromMain :: "string \<Rightarrow> bool" where "sample_fromMain n \<longleftrightarrow> n \<noteq> ''mux''"

lemma sample_mux_resolved_eq:
  "sample_mux_resolved =
     [\<lparr>nc_name = ''mux.a'', Comp = 4, nc_requesters = [(''mux'', 1)], nc_deps = []\<rparr>,
      \<lparr>nc_name = ''mux.b'', Comp = 5, nc_requesters = [(''mux'', 1)], nc_deps = []\<rparr>,
      \<lparr>nc_name = ''mux'', Comp = 2, nc_requesters = [(''_main'', 2), (''app'', 1)], nc_deps = [(''mux.a'', 1), (''mux.b'', 1)]\<rparr>,
      \<lparr>nc_name = ''app'', Comp = 0, nc_requesters = [(''_main'', 1)], nc_deps = [(''mux'', 1)]\<rparr>]"
  by code_simp

text \<open>The theorem at the option that selects the second implementation.\<close>

theorem mux_selects_witness:
  "mux_api sample_mux_args (Some ''b'') = Some ''mux.b'' \<and> enabled sample_mux_resolved sample_fromMain sample_unreq ''mux.b''
   \<and> \<not> enabled sample_mux_resolved sample_fromMain sample_unreq ''mux.a''"
proof -
  let ?c = "\<lparr>nc_name = ''mux'', Comp = (2::nat), nc_requesters = [(''_main'', 2), (''app'', 1)], nc_deps = [(''mux.a'', 1), (''mux.b'', 1)]\<rparr>"
  have decl: "mux_declare ''mux'' sample_impls = Some (sample_mux_args, [''mux.a'', ''mux.b''])" by code_simp
  have flag: "mux_addFlags sample_mux_args (Some ''b'') = Some (Inr (Some ''b''))" by code_simp
  have names: "impl_names sample_impls = [''a'', ''b'']" "default_names sample_impls = [''a'']" "MuxInterface ''provider'' \<in> set sample_impls"
    by (simp_all add: sample_impls_def)
  have ready: "?c \<in> set sample_mux_resolved" "distinct (map nc_name sample_mux_resolved)" by (simp_all add: sample_mux_resolved_eq)
  have counts: "count_of (nc_deps ?c) b = int (count_list [''mux.a'', ''mux.b''] b)" for b by (auto simp: count_of_def)
  have only: "count_of (nc_deps c') (impl_component ''mux'' n) \<le> 0" if "c' \<in> set sample_mux_resolved" "nc_name c' \<noteq> ''mux''" for c' n
    using that by (auto simp: sample_mux_resolved_eq count_of_def impl_component_def)
  have main: "count_of (nc_requesters c') mainRequester = 0" if "c' \<in> set sample_mux_resolved" "nc_name c' = impl_component ''mux'' n" for c' n
    using that by (auto simp: sample_mux_resolved_eq count_of_def mainRequester_def impl_component_def)
  have unreq: "sample_unreq ''mux'' = mux_unrequestDeps sample_mux_args (Some ''b'')" by (simp add: sample_unreq_def)
  have app: "enabled sample_mux_resolved sample_fromMain sample_unreq ''app''"
    using enabled.main[of "last sample_mux_resolved" sample_mux_resolved sample_fromMain sample_unreq]
    by (simp add: sample_mux_resolved_eq sample_fromMain_def count_of_def mainRequester_def)
  then have mux: "enabled sample_mux_resolved sample_fromMain sample_unreq ''mux''"
    using enabled.needed[of "last sample_mux_resolved" sample_mux_resolved sample_fromMain sample_unreq "''mux''"]
    by (simp add: sample_mux_resolved_eq sample_unreq_def count_of_def)
  have sel: "(enabled sample_mux_resolved sample_fromMain sample_unreq (impl_component ''mux'' n) \<longleftrightarrow>
      enabled sample_mux_resolved sample_fromMain sample_unreq ''mux'' \<and> n = (case Some ''b'' of None \<Rightarrow> hd (impl_names sample_impls) | Some v \<Rightarrow> v))
    \<and> mux_api sample_mux_args (Some ''b'') = Some (impl_component ''mux'' (case Some ''b'' of None \<Rightarrow> hd (impl_names sample_impls) | Some v \<Rightarrow> v))
    \<and> int (count_list (sample_unreq ''mux'') []) \<le> count_of (nc_deps ?c) []" if "n \<in> set (impl_names sample_impls)" for n
    by (rule mux_selects[where unreq = sample_unreq and n = n and c = ?c and muxName = "''mux''", OF _ _ names(3) _ decl flag ready(2,1) _ counts unreq that only main]) (simp_all add: names)
  from sel[of "''a''"] sel[of "''b''"] mux show ?thesis by (simp add: names impl_component_def)
qed

end
