(* ===== verification/ComponentImpl.thy ===== *)
theory ComponentImpl
  imports Component
begin

text \<open>
  One component, \<open>componentImpl\<close> of \<open>util/component/declare.go\<close>: its constructor and the
  modifiers of a declaration, the methods that the framework calls, the phase of its start and the
  health checks it registers. The hooks of the component are arguments: what they return and how they
  change the state of the component. Dependencies are requests by name.
\<close>

section \<open>The component\<close>

text \<open>A health check is evaluated when it is requested, on the state of that moment; a nil function is
  \<open>None\<close>.\<close>

record ('a, 'o, 'd, 's) Lifecycle =
  lc_Start :: "('a \<Rightarrow> 'o \<Rightarrow> 'd \<Rightarrow> 's \<Rightarrow> go_error option \<times> 's) option"
  lc_Join :: "('a \<Rightarrow> 'o \<Rightarrow> 'd \<Rightarrow> 's \<Rightarrow> go_error option \<times> 's) option"
  lc_HealthChecks :: "('s \<Rightarrow> (string, ('s \<Rightarrow> go_error option) option) gomap) option"

record ('a, 'o, 'd, 's) componentImpl =
  Args :: 'a
  Options :: 'o
  Deps :: 'd
  ci_State :: 's
  ci_name :: string
  optionsFn :: "'a \<Rightarrow> 'o"
  depsFn :: "'a \<Rightarrow> 'd \<times> string list"
  ci_init :: "'a \<Rightarrow> 'o \<Rightarrow> 'd \<Rightarrow> go_error + 's"
  lifecycle :: "('a, 'o, 'd, 's) Lifecycle"
  onMerge :: "('a \<Rightarrow> 'd \<Rightarrow> 'a \<times> 'd \<times> string list) option"
  isRequestedFromMainFn :: "'a \<Rightarrow> 'o \<Rightarrow> bool"
  unrequestDepsFn :: "'a \<Rightarrow> 'o \<Rightarrow> string list"
  phase :: "string option"

definition phaseStarted :: string where "phaseStarted = ''Started''"

definition isPhaseReady :: "string \<Rightarrow> bool" where "isPhaseReady p \<longleftrightarrow> p = phaseStarted"

text \<open>The zero values of the types are arguments.\<close>

definition Declare :: "'o \<Rightarrow> 'd \<Rightarrow> 's \<Rightarrow> ('a \<Rightarrow> string) \<Rightarrow> ('a \<Rightarrow> 'o) \<Rightarrow> ('a \<Rightarrow> 'd \<times> string list) \<Rightarrow>
    ('a \<Rightarrow> 'o \<Rightarrow> 'd \<Rightarrow> go_error + 's) \<Rightarrow> ('a, 'o, 'd, 's) Lifecycle \<Rightarrow> 'a \<Rightarrow> ('a, 'o, 'd, 's) componentImpl" where
  "Declare zeroOptions zeroDeps zeroState name newOptions newDeps init lc args =
     \<lparr>Args = args, Options = zeroOptions, Deps = zeroDeps, ci_State = zeroState, ci_name = name args,
      optionsFn = newOptions, depsFn = newDeps, ci_init = init, lifecycle = lc, onMerge = None,
      isRequestedFromMainFn = (\<lambda>_ _. True), unrequestDepsFn = (\<lambda>_ _. []),
      phase = (case lc_Start lc of None \<Rightarrow> None | Some _ \<Rightarrow> Some ''Init'')\<rparr>"

definition WithMergeFn :: "('a \<Rightarrow> 'd \<Rightarrow> 'a \<times> 'd \<times> string list) \<Rightarrow> ('a, 'o, 'd, 's) componentImpl \<Rightarrow> ('a, 'o, 'd, 's) componentImpl" where
  "WithMergeFn fn impl = impl\<lparr>onMerge := Some fn\<rparr>"

definition WithRequestedFromMainFn :: "('a \<Rightarrow> 'o \<Rightarrow> bool) \<Rightarrow> ('a, 'o, 'd, 's) componentImpl \<Rightarrow> ('a, 'o, 'd, 's) componentImpl" where
  "WithRequestedFromMainFn fn impl = impl\<lparr>isRequestedFromMainFn := fn\<rparr>"

definition WithUnrequestDepsFn :: "('a \<Rightarrow> 'o \<Rightarrow> string list) \<Rightarrow> ('a, 'o, 'd, 's) componentImpl \<Rightarrow> ('a, 'o, 'd, 's) componentImpl" where
  "WithUnrequestDepsFn fn impl = impl\<lparr>unrequestDepsFn := fn\<rparr>"

section \<open>Methods\<close>

definition dependencies :: "('a, 'o, 'd, 's) componentImpl \<Rightarrow> string list \<times> ('a, 'o, 'd, 's) componentImpl" where
  "dependencies impl = (case depsFn impl (Args impl) of (ds, reqs) \<Rightarrow> (reqs, impl\<lparr>Deps := ds\<rparr>))"

text \<open>A component merges into one of its own type or into a mock, which stays as it is; another
  type panics.\<close>

datatype ('a, 'o, 'd, 's) other_component = SameType "('a, 'o, 'd, 's) componentImpl" | EmptyComponent | OtherType

definition mergeInto :: "('a, 'o, 'd, 's) componentImpl \<Rightarrow> ('a, 'o, 'd, 's) other_component \<Rightarrow>
    (string list \<times> ('a, 'o, 'd, 's) other_component) option" where
  "mergeInto impl other = (case other of
     SameType prev \<Rightarrow>
       (case onMerge impl of
          None \<Rightarrow> Some ([], SameType prev)
        | Some fn \<Rightarrow> (case fn (Args prev) (Deps prev) of
            (args, ds, reqs) \<Rightarrow> Some (reqs, SameType (prev\<lparr>Args := args, Deps := ds\<rparr>))))
   | EmptyComponent \<Rightarrow> Some ([], EmptyComponent)
   | OtherType \<Rightarrow> None)"

definition AddFlags :: "('a, 'o, 'd, 's) componentImpl \<Rightarrow> ('a, 'o, 'd, 's) componentImpl" where
  "AddFlags impl = impl\<lparr>Options := optionsFn impl (Args impl)\<rparr>"

definition impl_Init :: "('a, 'o, 'd, 's) componentImpl \<Rightarrow> go_error option \<times> ('a, 'o, 'd, 's) componentImpl" where
  "impl_Init impl = (case ci_init impl (Args impl) (Options impl) (Deps impl) of
     Inl err \<Rightarrow> (Some err, impl)
   | Inr state \<Rightarrow> (None, impl\<lparr>ci_State := state\<rparr>))"

text \<open>The start of a component with a hook goes through two visible moments: \<open>Start_begin\<close>
  stores the phase before the hook runs, \<open>Start_end\<close> the phase after it.\<close>

definition Start_begin :: "('a, 'o, 'd, 's) componentImpl \<Rightarrow> ('a, 'o, 'd, 's) componentImpl" where
  "Start_begin impl = impl\<lparr>phase := Some ''Starting''\<rparr>"

definition Start_end :: "go_error option \<Rightarrow> ('a, 'o, 'd, 's) componentImpl \<Rightarrow> ('a, 'o, 'd, 's) componentImpl" where
  "Start_end err impl = impl\<lparr>phase := Some (case err of Some _ \<Rightarrow> ''StartError'' | None \<Rightarrow> phaseStarted)\<rparr>"

definition impl_Start :: "('a, 'o, 'd, 's) componentImpl \<Rightarrow> go_error option \<times> ('a, 'o, 'd, 's) componentImpl" where
  "impl_Start impl = (case lc_Start (lifecycle impl) of
     None \<Rightarrow> (None, impl)
   | Some start \<Rightarrow>
       (let impl1 = Start_begin impl
        in case start (Args impl1) (Options impl1) (Deps impl1) (ci_State impl1) of
             (err, state) \<Rightarrow> (err, Start_end err (impl1\<lparr>ci_State := state\<rparr>))))"

definition impl_Join :: "('a, 'o, 'd, 's) componentImpl \<Rightarrow> go_error option \<times> ('a, 'o, 'd, 's) componentImpl" where
  "impl_Join impl = (case lc_Join (lifecycle impl) of
     None \<Rightarrow> (None, impl)
   | Some join \<Rightarrow> (case join (Args impl) (Options impl) (Deps impl) (ci_State impl) of
       (err, state) \<Rightarrow> (err, impl\<lparr>ci_State := state\<rparr>)))"

definition isRequestedFromMain :: "('a, 'o, 'd, 's) componentImpl \<Rightarrow> bool" where
  "isRequestedFromMain impl = isRequestedFromMainFn impl (Args impl) (Options impl)"

definition unrequestDeps :: "('a, 'o, 'd, 's) componentImpl \<Rightarrow> string list" where
  "unrequestDeps impl = unrequestDepsFn impl (Args impl) (Options impl)"

section \<open>Health checks\<close>

text \<open>The checks that a handler has are closures over the components: they are named here by the
  component and what they evaluate.\<close>

datatype 's health_check = PhaseCheck string | HookCheck string string "'s \<Rightarrow> go_error option"

fun register_hooks :: "string \<Rightarrow> (string, ('s \<Rightarrow> go_error option) option) gomap \<Rightarrow>
    (string, 's health_check) gomap \<Rightarrow> (string, 's health_check) gomap" where
  "register_hooks compName [] checks = checks"
| "register_hooks compName ((n, None) # hs) checks = register_hooks compName hs checks"
| "register_hooks compName ((n, Some checker) # hs) checks =
     (let checkName = compName @ ''/'' @ n
      in register_hooks compName hs (map_put checkName (HookCheck compName checkName checker) checks))"

definition RegisterHealthChecks :: "('a, 'o, 'd, 's) componentImpl \<Rightarrow> (string, 's health_check) gomap \<Rightarrow>
    (string, 's health_check) gomap" where
  "RegisterHealthChecks impl checks =
     (let checks1 = (if phase impl \<noteq> None then map_put (ci_name impl @ ''/phase'') (PhaseCheck (ci_name impl)) checks else checks)
      in case lc_HealthChecks (lifecycle impl) of
           None \<Rightarrow> checks1
         | Some healthChecksFn \<Rightarrow> register_hooks (ci_name impl) (healthChecksFn (ci_State impl)) checks1)"

text \<open>Running a check against the components as they are; the second part are the names passed to
  \<open>onFail\<close>.\<close>

fun run_check :: "(string, ('a, 'o, 'd, 's) componentImpl) gomap \<Rightarrow> 's health_check \<Rightarrow> go_error option \<times> string list" where
  "run_check comps (PhaseCheck n) =
     (case map_of comps n of
        Some impl \<Rightarrow>
          (case phase impl of
             Some p \<Rightarrow> if \<not> isPhaseReady p then (Some (TagErrorf ''PhaseReady'' (''phase is '' @ p)), []) else (None, [])
           | None \<Rightarrow> (None, []))
      | None \<Rightarrow> (None, []))"
| "run_check comps (HookCheck n checkName checker) =
     (case map_of comps n of
        Some impl \<Rightarrow> (case checker (ci_State impl) of None \<Rightarrow> (None, []) | Some err \<Rightarrow> (Some err, [checkName]))
      | None \<Rightarrow> (None, []))"

text \<open>The aggregated endpoint of the health server, which answers that the process is ready when no
  check fails.\<close>

definition ready :: "(string, 's health_check) gomap \<Rightarrow> (string, ('a, 'o, 'd, 's) componentImpl) gomap \<Rightarrow> bool" where
  "ready checks comps \<longleftrightarrow> list_all (\<lambda>(n, check). fst (run_check comps check) = None) checks"

section \<open>Concurrent start\<close>

text \<open>The goroutines of \<open>startComponents\<close> interleave: each enters its hook and leaves it with
  an error or without. Between the two the health server may run any check.\<close>

datatype start_event = Begin string | Finish string "go_error option"

inductive start_run :: "(string, ('a, 'o, 'd, 's) componentImpl) gomap \<Rightarrow> start_event list \<Rightarrow>
    (string, ('a, 'o, 'd, 's) componentImpl) gomap \<Rightarrow> bool" for comps0 where
  init: "start_run comps0 [] comps0"
| enter: "start_run comps0 tr comps \<Longrightarrow> map_of comps n = Some impl \<Longrightarrow> lc_Start (lifecycle impl) \<noteq> None \<Longrightarrow>
    Begin n \<notin> set tr \<Longrightarrow> start_run comps0 (tr @ [Begin n]) (map_put n (Start_begin impl) comps)"
| leave: "start_run comps0 tr comps \<Longrightarrow> map_of comps n = Some impl \<Longrightarrow> lc_Start (lifecycle impl) = Some start \<Longrightarrow>
    Begin n \<in> set tr \<Longrightarrow> (\<And>e. Finish n e \<notin> set tr) \<Longrightarrow>
    start (Args impl) (Options impl) (Deps impl) (ci_State impl) = (err, st) \<Longrightarrow>
    start_run comps0 (tr @ [Finish n err]) (map_put n (Start_end err (impl\<lparr>ci_State := st\<rparr>)) comps)"

text \<open>The phase of a component says what its goroutine has done.\<close>

definition phase_of :: "start_event list \<Rightarrow> string \<Rightarrow> string option \<Rightarrow> string option" where
  "phase_of tr n p0 = (case p0 of None \<Rightarrow> None | Some p \<Rightarrow> Some
     (if Finish n None \<in> set tr then phaseStarted
      else if \<exists>e. Finish n (Some e) \<in> set tr then ''StartError''
      else if Begin n \<in> set tr then ''Starting'' else p))"

lemma start_run_inv:
  assumes "start_run comps0 tr comps" "\<forall>n impl. map_of comps0 n = Some impl \<longrightarrow> (phase impl = None \<longleftrightarrow> lc_Start (lifecycle impl) = None)"
  shows "dom (map_of comps) = dom (map_of comps0)
    \<and> (\<forall>n impl0 impl. map_of comps0 n = Some impl0 \<longrightarrow> map_of comps n = Some impl \<longrightarrow>
         lifecycle impl = lifecycle impl0 \<and> phase impl = phase_of tr n (phase impl0))
    \<and> (\<forall>n e. Finish n e \<in> set tr \<longrightarrow> Begin n \<in> set tr)"
  using assms(1)
proof induction
  case init
  then show ?case by (auto simp: phase_of_def split: option.splits)
next
  case (enter tr comps n impl)
  then obtain impl0 where impl0: "map_of comps0 n = Some impl0" by blast
  have old: "lifecycle impl = lifecycle impl0" "phase impl = phase_of tr n (phase impl0)"
    using enter.IH impl0 enter.hyps(2) by blast+
  have "phase impl0 \<noteq> None" using assms(2) impl0 old(1) enter.hyps(3) by simp
  moreover have "\<And>e. Finish n e \<notin> set tr" using enter.IH enter.hyps(4) by blast
  ultimately have new: "phase (Start_begin impl) = phase_of (tr @ [Begin n]) n (phase impl0)"
    by (auto simp: Start_begin_def phase_of_def)
  have other: "phase_of (tr @ [Begin n]) m p = phase_of tr m p" if "m \<noteq> n" for m p
    using that by (auto simp: phase_of_def split: option.splits)
  show ?case
  proof (intro conjI allI impI)
    show "dom (map_of (map_put n (Start_begin impl) comps)) = dom (map_of comps0)" using enter.IH enter.hyps(2) by auto
    fix m i0 i assume m: "map_of comps0 m = Some i0" "map_of (map_put n (Start_begin impl) comps) m = Some i"
    show "lifecycle i = lifecycle i0" "phase i = phase_of (tr @ [Begin n]) m (phase i0)"
      using m impl0 old(1) new other enter.IH by (cases "m = n"; auto simp: Start_begin_def)+
  qed (use enter.IH in auto)
next
  case (leave tr comps n impl start err st)
  then obtain impl0 where impl0: "map_of comps0 n = Some impl0" by blast
  have old: "lifecycle impl = lifecycle impl0" using leave.IH impl0 leave.hyps(2) by blast
  have "phase impl0 \<noteq> None" using assms(2) impl0 old leave.hyps(3) by simp
  then have new: "phase (Start_end err (impl\<lparr>ci_State := st\<rparr>)) = phase_of (tr @ [Finish n err]) n (phase impl0)"
    using leave.hyps(5) by (cases err) (auto simp: Start_end_def phase_of_def)
  have other: "phase_of (tr @ [Finish n err]) m p = phase_of tr m p" if "m \<noteq> n" for m p
    using that by (auto simp: phase_of_def split: option.splits)
  show ?case
  proof (intro conjI allI impI)
    show "dom (map_of (map_put n (Start_end err (impl\<lparr>ci_State := st\<rparr>)) comps)) = dom (map_of comps0)"
      using leave.IH leave.hyps(2) by auto
    fix m i0 i assume m: "map_of comps0 m = Some i0" "map_of (map_put n (Start_end err (impl\<lparr>ci_State := st\<rparr>)) comps) m = Some i"
    show "lifecycle i = lifecycle i0" "phase i = phase_of (tr @ [Finish n err]) m (phase i0)"
      using m impl0 old new other leave.IH by (cases "m = n"; auto simp: Start_end_def)+
  qed (use leave.IH leave.hyps(4) in auto)
qed

section \<open>The registered checks\<close>

definition hook_checks :: "string \<Rightarrow> (string, ('s \<Rightarrow> go_error option) option) gomap \<Rightarrow> (string, 's health_check) gomap" where
  "hook_checks a hs = List.map_filter
     (\<lambda>(n, h). map_option (\<lambda>checker. (a @ ''/'' @ n, HookCheck a (a @ ''/'' @ n) checker)) h) hs"

lemma hook_checks_simps [simp]:
  "hook_checks a [] = []"
  "hook_checks a ((n, None) # hs) = hook_checks a hs"
  "hook_checks a ((n, Some checker) # hs) = (a @ ''/'' @ n, HookCheck a (a @ ''/'' @ n) checker) # hook_checks a hs"
  by (simp_all add: hook_checks_def List.map_filter_simps)

definition own_checks :: "('a, 'o, 'd, 's) componentImpl \<Rightarrow> (string, 's health_check) gomap" where
  "own_checks impl = (if phase impl \<noteq> None then [(ci_name impl @ ''/phase'', PhaseCheck (ci_name impl))] else [])
     @ (case lc_HealthChecks (lifecycle impl) of None \<Rightarrow> []
        | Some f \<Rightarrow> hook_checks (ci_name impl) (f (ci_State impl)))"

abbreviation put_all :: "('k, 'v) gomap \<Rightarrow> ('k, 'v) gomap \<Rightarrow> ('k, 'v) gomap" where
  "put_all m kvs \<equiv> foldl (\<lambda>m (k, v). map_put k v m) m kvs"

lemma put_all_new: "distinct (map fst (m @ kvs)) \<Longrightarrow> put_all m kvs = m @ kvs"
proof (induction kvs arbitrary: m)
  case (Cons kv kvs)
  obtain k v where kv: "kv = (k, v)" by force
  then have "k \<notin> fst ` set m" using Cons.prems by auto
  then show ?case using Cons.IH[of "m @ [kv]"] Cons.prems by (simp add: kv map_put_new)
qed simp

lemma register_hooks_put_all: "register_hooks compName hs checks = put_all checks (hook_checks compName hs)"
  by (induction compName hs checks rule: register_hooks.induct) (simp_all add: Let_def)

lemma RegisterHealthChecks_put_all: "RegisterHealthChecks impl checks = put_all checks (own_checks impl)"
  by (simp add: RegisterHealthChecks_def own_checks_def register_hooks_put_all Let_def split: option.split)

lemma check_key_inj: "CHR ''/'' \<notin> set a \<Longrightarrow> CHR ''/'' \<notin> set b \<Longrightarrow> a @ CHR ''/'' # x = b @ CHR ''/'' # y \<longleftrightarrow> a = b \<and> x = y"
proof (induction a arbitrary: b)
  case Nil
  then show ?case by (cases b) auto
next
  case (Cons c a)
  then show ?case by (cases b) auto
qed

text \<open>The names of checks do not clash: no component has a slash in its name, and none has a check
  of its own with the name of the phase.\<close>

definition checks_ok :: "('a, 'o, 'd, 's) componentImpl \<Rightarrow> bool" where
  "checks_ok impl \<longleftrightarrow> CHR ''/'' \<notin> set (ci_name impl)
     \<and> (case lc_HealthChecks (lifecycle impl) of None \<Rightarrow> True
        | Some f \<Rightarrow> map_ok (f (ci_State impl)) \<and> ''phase'' \<notin> fst ` set (f (ci_State impl)))"

lemma hook_checks_keys: "fst ` set (hook_checks a hs) \<subseteq> (\<lambda>n. a @ CHR ''/'' # n) ` fst ` set hs"
proof (induction hs)
  case (Cons h hs)
  obtain n c where "h = (n, c)" by force
  then show ?case using Cons by (cases c) auto
qed simp

lemma hook_checks_distinct:
  assumes "map_ok hs"
  shows "distinct (map fst (hook_checks a hs))"
  using assms
proof (induction hs)
  case (Cons h hs)
  obtain n c where h: "h = (n, c)" by force
  have "distinct (map fst (hook_checks a hs))" "n \<notin> fst ` set hs" using Cons by (auto simp: map_ok_def h)
  moreover from this(2) have "a @ ''/'' @ n \<notin> fst ` set (hook_checks a hs)" using hook_checks_keys[of a hs] by auto
  ultimately show ?case by (cases c) (auto simp: h)
qed simp

lemma own_checks_distinct:
  assumes "checks_ok impl"
  shows "distinct (map fst (own_checks impl))"
proof (cases "lc_HealthChecks (lifecycle impl)")
  case (Some f)
  have ok: "map_ok (f (ci_State impl))" "''phase'' \<notin> fst ` set (f (ci_State impl))" using assms Some by (auto simp: checks_ok_def)
  have "ci_name impl @ ''/phase'' \<notin> fst ` set (hook_checks (ci_name impl) (f (ci_State impl)))"
    using hook_checks_keys[of "ci_name impl" "f (ci_State impl)"] ok(2) by auto
  then show ?thesis using Some hook_checks_distinct[OF ok(1), of "ci_name impl"] by (simp add: own_checks_def)
qed (simp add: own_checks_def)

lemma own_checks_key: "k \<in> fst ` set (own_checks impl) \<Longrightarrow> \<exists>n. k = ci_name impl @ CHR ''/'' # n"
proof (cases "lc_HealthChecks (lifecycle impl)")
  case (Some f)
  assume "k \<in> fst ` set (own_checks impl)"
  then have "k = ci_name impl @ ''/phase'' \<or> k \<in> fst ` set (hook_checks (ci_name impl) (f (ci_State impl)))"
    using Some by (auto simp: own_checks_def split: if_splits)
  then show ?thesis using hook_checks_keys[of "ci_name impl" "f (ci_State impl)"] by auto
qed (auto simp: own_checks_def split: if_splits)

lemma register_all:
  assumes "list_all checks_ok cs" "distinct (map ci_name cs)"
  shows "foldl (\<lambda>checks c. RegisterHealthChecks c checks) [] cs = concat (map own_checks cs)
    \<and> distinct (map fst (concat (map own_checks cs)))"
  using assms
proof (induction cs rule: rev_induct)
  case (snoc c cs)
  then have c: "checks_ok c" and cs: "list_all checks_ok cs" and new: "ci_name c \<notin> ci_name ` set cs" by auto
  have "fst ` set (own_checks c) \<inter> fst ` set (concat (map own_checks cs)) = {}"
  proof (rule ccontr)
    assume "fst ` set (own_checks c) \<inter> fst ` set (concat (map own_checks cs)) \<noteq> {}"
    then obtain k d where k: "k \<in> fst ` set (own_checks c)" "d \<in> set cs" "k \<in> fst ` set (own_checks d)" by auto
    have "checks_ok d" using cs k(2) by (simp add: list_all_iff)
    then have "ci_name c = ci_name d"
      using own_checks_key[OF k(1)] own_checks_key[OF k(3)] c check_key_inj[of "ci_name c" "ci_name d"]
      by (auto simp: checks_ok_def)
    then show False using new k(2) by auto
  qed
  then have "distinct (map fst (concat (map own_checks cs) @ own_checks c))"
    using snoc own_checks_distinct[OF c] by auto
  then show ?case using snoc put_all_new[of "concat (map own_checks cs)" "own_checks c"]
    by (simp add: RegisterHealthChecks_put_all)
qed simp

lemma own_checks_ready:
  assumes "map_of comps (ci_name c) = Some impl" "phase impl = phase_of tr (ci_name c) (phase c)"
    and "phase c = (if lc_Start (lifecycle c) = None then None else Some ''Init'')"
  shows "list_all (\<lambda>(n, check). fst (run_check comps check) = None) (own_checks c) \<longleftrightarrow>
    (lc_Start (lifecycle c) \<noteq> None \<longrightarrow> Finish (ci_name c) None \<in> set tr)
    \<and> (\<forall>f n checker. lc_HealthChecks (lifecycle c) = Some f \<longrightarrow> (n, Some checker) \<in> set (f (ci_State c)) \<longrightarrow> checker (ci_State impl) = None)"
proof -
  have phase: "fst (run_check comps (PhaseCheck (ci_name c))) = None \<longleftrightarrow> Finish (ci_name c) None \<in> set tr"
    if "lc_Start (lifecycle c) \<noteq> None"
    using that assms by (auto simp: phase_of_def isPhaseReady_def phaseStarted_def)
  have hook: "fst (run_check comps (HookCheck (ci_name c) k checker)) = None \<longleftrightarrow> checker (ci_State impl) = None" for k checker
    using assms(1) by (simp split: option.split)
  have hooks: "list_all (\<lambda>(n, check). fst (run_check comps check) = None) (hook_checks (ci_name c) hs)
      \<longleftrightarrow> (\<forall>n checker. (n, Some checker) \<in> set hs \<longrightarrow> checker (ci_State impl) = None)" for hs
  proof (induction hs)
    case (Cons h hs)
    obtain n k where "h = (n, k)" by force
    then show ?case using Cons hook by (cases k) auto
  qed simp
  show ?thesis
    using phase hooks assms(3) by (cases "lc_Start (lifecycle c)"; cases "lc_HealthChecks (lifecycle c)") (simp_all add: own_checks_def del: run_check.simps)
qed

section \<open>Property\<close>

text \<open>C25: While the components of a process start, in whatever order their goroutines run, the
  health endpoint answers ready exactly when every component that has a start hook has left it without
  error and every health check of a component passes on its current state. Neither a hook that is
  still running nor one that has failed is ever taken for ready.\<close>

theorem ready_when_started:
  assumes "distinct (map ci_name cs)" "list_all checks_ok cs"
    and "\<And>c. c \<in> set cs \<Longrightarrow> phase c = (if lc_Start (lifecycle c) = None then None else Some ''Init'')"
    and "start_run (map (\<lambda>c. (ci_name c, c)) cs) tr comps"
  shows "ready (foldl (\<lambda>checks c. RegisterHealthChecks c checks) [] cs) comps \<longleftrightarrow>
    (\<forall>c \<in> set cs. (lc_Start (lifecycle c) \<noteq> None \<longrightarrow> Finish (ci_name c) None \<in> set tr)
       \<and> (\<forall>impl f n checker. map_of comps (ci_name c) = Some impl \<longrightarrow> lc_HealthChecks (lifecycle c) = Some f \<longrightarrow>
            (n, Some checker) \<in> set (f (ci_State c)) \<longrightarrow> checker (ci_State impl) = None))"
proof -
  let ?comps0 = "map (\<lambda>c. (ci_name c, c)) cs"
  have entry: "map_of ?comps0 (ci_name c) = Some c" if "c \<in> set cs" for c
    using that assms(1) by (intro map_of_is_SomeI) (auto simp: o_def)
  have initial: "phase impl = None \<longleftrightarrow> lc_Start (lifecycle impl) = None" if "map_of ?comps0 n = Some impl" for n impl
    using assms(3)[of impl] map_of_SomeD[OF that] by (auto split: if_splits)
  have inits: "\<forall>n impl. map_of ?comps0 n = Some impl \<longrightarrow> (phase impl = None \<longleftrightarrow> lc_Start (lifecycle impl) = None)"
    using initial by blast
  note inv = start_run_inv[OF assms(4) inits]
  have "list_all (\<lambda>(n, check). fst (run_check comps check) = None) (own_checks c) \<longleftrightarrow>
      (lc_Start (lifecycle c) \<noteq> None \<longrightarrow> Finish (ci_name c) None \<in> set tr)
      \<and> (\<forall>impl f n checker. map_of comps (ci_name c) = Some impl \<longrightarrow> lc_HealthChecks (lifecycle c) = Some f \<longrightarrow>
           (n, Some checker) \<in> set (f (ci_State c)) \<longrightarrow> checker (ci_State impl) = None)" if c: "c \<in> set cs" for c
  proof -
    obtain impl where impl: "map_of comps (ci_name c) = Some impl" using inv entry[OF c] by blast
    then have "phase impl = phase_of tr (ci_name c) (phase c)" using inv entry[OF c] by blast
    from own_checks_ready[OF impl this assms(3)[OF c]] show ?thesis using impl by simp
  qed
  moreover have "ready (foldl (\<lambda>checks c. RegisterHealthChecks c checks) [] cs) comps \<longleftrightarrow>
      (\<forall>c \<in> set cs. list_all (\<lambda>(n, check). fst (run_check comps check) = None) (own_checks c))"
    using register_all[OF assms(2,1)] unfolding ready_def by (auto simp: list_all_iff)
  ultimately show ?thesis by simp
qed

subsection \<open>A sample process\<close>

text \<open>A client without a start hook and a worker that has one and a health check of its own.\<close>

definition sample_comp :: "string \<Rightarrow> bool \<Rightarrow> (unit, unit, unit, nat) componentImpl" where
  "sample_comp name starts = Declare () () 0 (\<lambda>_. name) (\<lambda>_. ()) (\<lambda>_. ((), [])) (\<lambda>_ _ _. Inr 0)
     \<lparr>lc_Start = (if starts then Some (\<lambda>_ _ _ s. (None, Suc s)) else None), lc_Join = None,
      lc_HealthChecks = (if starts then Some (\<lambda>_. [(''live'', Some (\<lambda>s. if s = 0 then Some (ErrorString ''idle'') else None))]) else None)\<rparr> ()"

definition sample_comps :: "(unit, unit, unit, nat) componentImpl list" where
  "sample_comps = [sample_comp ''client'' False, sample_comp ''worker'' True]"

definition sample_checks :: "(string, nat health_check) gomap" where
  "sample_checks = foldl (\<lambda>checks c. RegisterHealthChecks c checks) [] sample_comps"

definition sample_started :: "(string, (unit, unit, unit, nat) componentImpl) gomap" where
  "sample_started = [(''client'', sample_comp ''client'' False), (''worker'', snd (impl_Start (sample_comp ''worker'' True)))]"

text \<open>The theorem at the end of a start.\<close>

theorem ready_when_started_witness:
  "map fst sample_checks = [''worker/phase'', ''worker/live''] \<and> ready sample_checks sample_started
   \<and> \<not> ready sample_checks (map (\<lambda>c. (ci_name c, c)) sample_comps)"
proof -
  let ?comps0 = "map (\<lambda>c. (ci_name c, c)) sample_comps"
  let ?worker = "sample_comp ''worker'' True"
  note defs = sample_comps_def sample_comp_def Declare_def
  have ok: "distinct (map ci_name sample_comps)" "list_all checks_ok sample_comps"
    by (simp_all add: defs checks_ok_def map_ok_def)
  have phase: "phase c = (if lc_Start (lifecycle c) = None then None else Some ''Init'')" if "c \<in> set sample_comps" for c
    using that by (auto simp: defs)
  have start: "start_run ?comps0 [] ?comps0" by (rule start_run.init)
  have one: "start_run ?comps0 ([] @ [Begin ''worker'']) (map_put ''worker'' (Start_begin ?worker) ?comps0)"
    by (rule start_run.enter[OF start]) (simp_all add: defs)
  have two: "start_run ?comps0 (([] @ [Begin ''worker'']) @ [Finish ''worker'' None])
      (map_put ''worker'' (Start_end None ((Start_begin ?worker)\<lparr>ci_State := 1\<rparr>)) (map_put ''worker'' (Start_begin ?worker) ?comps0))"
    by (rule start_run.leave[OF one]) (simp_all add: defs Start_begin_def)
  have final: "map_put ''worker'' (Start_end None ((Start_begin ?worker)\<lparr>ci_State := 1\<rparr>)) (map_put ''worker'' (Start_begin ?worker) ?comps0) = sample_started"
    by (simp add: sample_started_def defs impl_Start_def Start_begin_def Start_end_def)
  have keys: "map fst sample_checks = [''worker/phase'', ''worker/live'']"
    by (simp add: sample_checks_def defs RegisterHealthChecks_def Let_def)
  have "\<forall>c \<in> set sample_comps. phase c = (if lc_Start (lifecycle c) = None then None else Some ''Init'')" using phase by blast
  note ready_iff = ready_when_started[OF ok bspec[OF this]]
  have "ready sample_checks sample_started"
    unfolding sample_checks_def
    by (subst ready_iff[OF _ two[unfolded final]]) (simp_all add: defs sample_started_def impl_Start_def Start_begin_def Start_end_def)
  moreover have "\<not> ready sample_checks ?comps0"
    unfolding sample_checks_def by (subst ready_iff[OF _ start]) (simp_all add: defs)
  ultimately show ?thesis using keys by blast
qed

end
