(* ===== verification/Election.thy ===== *)
theory Election
  imports UtilHelpers Errors
begin

text \<open>
  Leader election, \<open>util/kube/leaderelection.go\<close>, with the notifier of
  \<open>util/shutdown/shutdown.go\<close>. The elector of client-go is not part of the program: its
  \<open>Run\<close> is a sequence of steps as it documents them. It campaigns until it has the lease or its
  context is cancelled; with the lease it calls \<open>OnStartedLeading\<close> in a goroutine, with a context
  that it cancels when it returns; it returns when the lease is lost or the context is cancelled, and
  always calls \<open>OnStoppedLeading\<close> then.
\<close>

section \<open>Shutdown notifier\<close>

record Notifier =
  stopped :: bool
  watchCh_closed :: bool

definition newNotifier :: Notifier where "newNotifier = \<lparr>stopped = False, watchCh_closed = False\<rparr>"

text \<open>Only the call whose exchange succeeds closes the channel; closing it twice would panic.\<close>

definition notifier_Close :: "Notifier \<Rightarrow> Notifier option" where
  "notifier_Close n =
     (if \<not> stopped n then
        (let n' = n\<lparr>stopped := True\<rparr> in if watchCh_closed n' then None else Some (n'\<lparr>watchCh_closed := True\<rparr>))
      else Some n)"

section \<open>State\<close>

text \<open>\<open>Run\<close> of the elector: not called, campaigning, holding the lease, having lost it but not
  yet returned, returned.\<close>

datatype run_state = RunNotCalled | Campaigning | Leading | LeaseLost | RunReturned

text \<open>The goroutine of \<open>OnStartedLeading\<close>: not spawned, spawned, past the close of the channel,
  returned.\<close>

datatype callback_state = NotSpawned | Spawned | Announced | CallbackReturned

record ElectorState =
  started :: bool
  electedCh_closed :: bool
  elector :: "bool LateInit option"
  electionErr :: "go_error option"
  closeCh_set :: bool
  cancel_stored :: bool
  run :: run_state
  callback :: callback_state
  runCtx_done :: bool
  leaseCtx_done :: bool
  scopeCtx_done :: bool
  procCtx_done :: bool
  notifier :: Notifier

definition initElector :: "bool \<Rightarrow> ElectorState" where
  "initElector isEnabled = \<lparr>started = False, electedCh_closed = False,
     elector = (if isEnabled then Some (NewLateInit False) else None),
     electionErr = None, closeCh_set = False, cancel_stored = False, run = RunNotCalled, callback = NotSpawned,
     runCtx_done = False, leaseCtx_done = False, scopeCtx_done = False, procCtx_done = False, notifier = newNotifier\<rparr>"

section \<open>The code of the component\<close>

definition close_elected :: "ElectorState \<Rightarrow> ElectorState option" where
  "close_elected st = (if electedCh_closed st then None else Some (st\<lparr>electedCh_closed := True\<rparr>))"

definition write_elector :: "bool \<Rightarrow> ElectorState \<Rightarrow> ElectorState option" where
  "write_elector e st = (case elector st of
     None \<Rightarrow> None
   | Some b \<Rightarrow> (case LateInit_write e b of None \<Rightarrow> None | Some b' \<Rightarrow> Some (st\<lparr>elector := Some b'\<rparr>)))"

text \<open>The three calls that may fail are arguments. A failure writes a nil elector on the way out.\<close>

definition runElector :: "bool \<Rightarrow> go_error option \<Rightarrow> go_error option \<Rightarrow> go_error option \<Rightarrow> ElectorState \<Rightarrow>
    (go_error option \<times> ElectorState) option" where
  "runElector isEnabled hostnameErr lockErr electorErr st =
     (if \<not> isEnabled then map_option (\<lambda>st'. (None, st')) (close_elected st)
      else if elector st = None then None
      else case hostnameErr of
        Some err \<Rightarrow> map_option (\<lambda>st'. (Some (TagWrapf ''GetHostname'' err ''get hostname''), st')) (write_elector False st)
      | None \<Rightarrow>
          (case lockErr of
             Some err \<Rightarrow> map_option (\<lambda>st'. (Some (TagWrapf ''CreateResourceLock'' err ''creating resource lock''), st')) (write_elector False st)
           | None \<Rightarrow>
               (case electorErr of
                  Some err \<Rightarrow> map_option (\<lambda>st'. (Some (TagWrapf ''NewLeaderElector'' err ''create leader elector''), st')) (write_elector False st)
                | None \<Rightarrow>
                    map_option (\<lambda>st1.
                      let st2 = st1\<lparr>cancel_stored := True\<rparr>
                      in (None, if procCtx_done st2 then st2 else st2\<lparr>run := Campaigning\<rparr>)) (write_elector True st))))"

definition joinElector :: "ElectorState \<Rightarrow> ElectorState" where
  "joinElector st = (if cancel_stored st then st\<lparr>runCtx_done := True, leaseCtx_done := True, scopeCtx_done := True\<rparr> else st)"

text \<open>The body of \<open>OnStartedLeading\<close> up to the announcement, and its return, which runs the
  cancel function of the observer's scope: \<open>scopeCancels\<close> says whether that function cancels the
  context that the observer returned.\<close>

definition OnStartedLeading_announce :: "ElectorState \<Rightarrow> ElectorState option" where
  "OnStartedLeading_announce st = close_elected (st\<lparr>closeCh_set := True\<rparr>)"

definition OnStartedLeading_return :: "bool \<Rightarrow> ElectorState \<Rightarrow> ElectorState" where
  "OnStartedLeading_return scopeCancels st = (if scopeCancels then st\<lparr>scopeCtx_done := True\<rparr> else st)"

definition OnStoppedLeading :: "ElectorState \<Rightarrow> ElectorState option" where
  "OnStoppedLeading st = map_option (\<lambda>n. st\<lparr>notifier := n\<rparr>) (notifier_Close (notifier st))"

text \<open>Waiting for the election, with the context of the caller. When both channels are ready either
  case may be taken. The context that it returns ends with the caller's and with the channel
  \<open>electionCloseCh\<close>, which never fires when it is nil.\<close>

datatype await_result = AwaitContext | AwaitError go_error

inductive Await :: "ElectorState \<Rightarrow> bool \<Rightarrow> await_result \<Rightarrow> bool" where
  elected: "electedCh_closed st \<Longrightarrow> electionErr st = None \<Longrightarrow> Await st ctxDone AwaitContext"
| failed: "electedCh_closed st \<Longrightarrow> electionErr st = Some err \<Longrightarrow> Await st ctxDone (AwaitError err)"
| cancelled: "Await st True (AwaitError ContextCanceled)"

definition await_ctx_done :: "ElectorState \<Rightarrow> bool \<Rightarrow> bool" where
  "await_ctx_done st ctxDone \<longleftrightarrow> ctxDone \<or> closeCh_set st \<and> scopeCtx_done st"

definition HasElected :: "ElectorState \<Rightarrow> bool" where "HasElected st = electedCh_closed st"

text \<open>The health check; it waits while the elector has not been written, and a nil elector panics.
  \<open>check\<close> is the result of \<open>Check\<close> of client-go.\<close>

definition elector_check :: "(unit \<Rightarrow> go_error option) \<Rightarrow> bool LateInit \<Rightarrow> go_error option option option" where
  "elector_check check b = (case LateInit_Get b of
     None \<Rightarrow> None
   | Some e \<Rightarrow> Some (if e then Some (Tag ''ElectorTimeout'' (check ())) else None))"

section \<open>Interleavings\<close>

text \<open>The steps of a process that runs the elector. It is started once. A signal or the end of the
  election closes the notifier, which cancels the context of the process; the elector is joined after
  that.\<close>

inductive elect_step :: "bool \<Rightarrow> bool \<Rightarrow> ElectorState \<Rightarrow> ElectorState \<Rightarrow> bool" for isEnabled scopeCancels where
  start: "\<not> started st \<Longrightarrow> runElector isEnabled hostnameErr lockErr electorErr st = Some (err, st') \<Longrightarrow>
    elect_step isEnabled scopeCancels st (st'\<lparr>started := True\<rparr>)"
| acquire: "run st = Campaigning \<Longrightarrow> \<not> runCtx_done st \<Longrightarrow>
    elect_step isEnabled scopeCancels st (st\<lparr>run := Leading, callback := Spawned\<rparr>)"
| announce: "callback st = Spawned \<Longrightarrow> OnStartedLeading_announce st = Some st' \<Longrightarrow>
    elect_step isEnabled scopeCancels st (st'\<lparr>callback := Announced\<rparr>)"
| leave: "callback st = Announced \<Longrightarrow>
    elect_step isEnabled scopeCancels st ((OnStartedLeading_return scopeCancels st)\<lparr>callback := CallbackReturned\<rparr>)"
| lose: "run st = Leading \<Longrightarrow> elect_step isEnabled scopeCancels st (st\<lparr>run := LeaseLost\<rparr>)"
| stop: "run st = LeaseLost \<or> run st \<in> {Campaigning, Leading} \<and> runCtx_done st \<Longrightarrow>
    OnStoppedLeading (st\<lparr>run := RunReturned, leaseCtx_done := True, scopeCtx_done := True\<rparr>) = Some st' \<Longrightarrow>
    elect_step isEnabled scopeCancels st st'"
| signal: "notifier_Close (notifier st) = Some n \<Longrightarrow> elect_step isEnabled scopeCancels st (st\<lparr>notifier := n\<rparr>)"
| cancel: "watchCh_closed (notifier st) \<Longrightarrow> elect_step isEnabled scopeCancels st (st\<lparr>procCtx_done := True\<rparr>)"
| join: "started st \<Longrightarrow> procCtx_done st \<Longrightarrow> elect_step isEnabled scopeCancels st (joinElector st)"

inductive elect_reachable :: "bool \<Rightarrow> bool \<Rightarrow> ElectorState \<Rightarrow> bool" for isEnabled scopeCancels where
  initial: "elect_reachable isEnabled scopeCancels (initElector isEnabled)"
| step: "elect_reachable isEnabled scopeCancels st \<Longrightarrow> elect_step isEnabled scopeCancels st st' \<Longrightarrow>
    elect_reachable isEnabled scopeCancels st'"

definition announced :: "ElectorState \<Rightarrow> bool" where
  "announced st \<longleftrightarrow> callback st \<in> {Announced, CallbackReturned}"

definition elect_inv :: "bool \<Rightarrow> bool \<Rightarrow> ElectorState \<Rightarrow> bool" where
  "elect_inv isEnabled scopeCancels st \<longleftrightarrow>
     stopped (notifier st) = watchCh_closed (notifier st)
   \<and> isEnabled = (elector st \<noteq> None)
   \<and> (\<not> started st \<or> \<not> isEnabled \<longrightarrow> run st = RunNotCalled \<and> callback st = NotSpawned \<and> \<not> cancel_stored st)
   \<and> (\<not> started st \<longrightarrow> (\<forall>b. elector st = Some b \<longrightarrow> \<not> was_written b))
   \<and> electedCh_closed st = (started st \<and> \<not> isEnabled \<or> announced st)
   \<and> closeCh_set st = announced st
   \<and> (callback st \<noteq> NotSpawned \<longrightarrow> run st \<in> {Leading, LeaseLost, RunReturned})
   \<and> (run st \<in> {RunNotCalled, Campaigning} \<longrightarrow> callback st = NotSpawned)
   \<and> (run st = RunReturned \<longrightarrow> scopeCtx_done st \<and> stopped (notifier st))
   \<and> electionErr st = None
   \<and> (scopeCtx_done st \<longrightarrow> runCtx_done st \<or> run st = RunReturned \<or> scopeCancels \<and> callback st = CallbackReturned)
   \<and> (runCtx_done st \<longrightarrow> procCtx_done st) \<and> (procCtx_done st \<longrightarrow> stopped (notifier st))
   \<and> (scopeCancels \<and> callback st = CallbackReturned \<longrightarrow> scopeCtx_done st)"

lemma notifier_Close_ok:
  assumes "stopped n = watchCh_closed n"
  shows "notifier_Close n = Some \<lparr>stopped = True, watchCh_closed = True\<rparr>"
  using assms by (cases n) (simp add: notifier_Close_def)

lemma runElector_result:
  assumes "elect_inv isEnabled scopeCancels st" "\<not> started st"
  shows "\<exists>err b. runElector isEnabled hostnameErr lockErr electorErr st = Some (err,
      if \<not> isEnabled then st\<lparr>electedCh_closed := True\<rparr>
      else let st1 = st\<lparr>elector := Some b\<rparr>
           in if err = None then st1\<lparr>cancel_stored := True, run := if procCtx_done st then run st else Campaigning\<rparr> else st1)"
proof (cases isEnabled)
  case True
  then obtain b where b: "elector st = Some b" "\<not> was_written b" using assms by (auto simp: elect_inv_def)
  then have wrote: "write_elector e st = Some (st\<lparr>elector := Some \<lparr>box = e, was_written = True\<rparr>\<rparr>)" for e
    by (simp add: write_elector_def LateInit_write_def)
  show ?thesis using True b
    by (cases hostnameErr; cases lockErr; cases electorErr) (auto simp: runElector_def wrote Let_def)
next
  case False
  have "electedCh_closed st = False" using assms by (auto simp: elect_inv_def announced_def)
  then show ?thesis using False by (auto simp: runElector_def close_elected_def)
qed

lemma elect_inv_init: "elect_inv isEnabled scopeCancels (initElector isEnabled)"
  by (auto simp: elect_inv_def initElector_def announced_def newNotifier_def NewLateInit_def)

lemma elect_inv_start:
  assumes "elect_inv isEnabled scopeCancels st" "\<not> started st"
    and "runElector isEnabled hostnameErr lockErr electorErr st = Some (err, st')"
  shows "elect_inv isEnabled scopeCancels (st'\<lparr>started := True\<rparr>)"
proof -
  obtain e b where "runElector isEnabled hostnameErr lockErr electorErr st = Some (e,
      if \<not> isEnabled then st\<lparr>electedCh_closed := True\<rparr>
      else let st1 = st\<lparr>elector := Some b\<rparr>
           in if e = None then st1\<lparr>cancel_stored := True, run := if procCtx_done st then run st else Campaigning\<rparr> else st1)"
    using runElector_result[OF assms(1,2)] by blast
  then have st': "st' = (if \<not> isEnabled then st\<lparr>electedCh_closed := True\<rparr>
      else if e = None then st\<lparr>elector := Some b, cancel_stored := True, run := if procCtx_done st then run st else Campaigning\<rparr>
      else st\<lparr>elector := Some b\<rparr>)" using assms(3) by (simp add: Let_def)
  show ?thesis using assms(1,2) unfolding st' elect_inv_def announced_def
    by (cases isEnabled; cases e; cases "procCtx_done st"; simp)
qed

lemma elect_inv_step:
  assumes "elect_inv isEnabled scopeCancels st" "elect_step isEnabled scopeCancels st st'"
  shows "elect_inv isEnabled scopeCancels st'"
  using assms(2,1)
proof cases
  case (start hostnameErr lockErr electorErr err st1)
  then show ?thesis using elect_inv_start assms(1) by blast
next
  case acquire
  then show ?thesis using assms(1) by (auto simp: elect_inv_def announced_def)
next
  case (announce st1)
  then have "st1 = st\<lparr>closeCh_set := True, electedCh_closed := True\<rparr>"
    by (auto simp: OnStartedLeading_announce_def close_elected_def split: if_splits)
  then show ?thesis using announce assms(1) by (auto simp: elect_inv_def announced_def)
next
  case leave
  then show ?thesis using assms(1) by (auto simp: elect_inv_def announced_def OnStartedLeading_return_def)
next
  case lose
  then show ?thesis using assms(1) by (auto simp: elect_inv_def announced_def)
next
  case stop
  have "notifier_Close (notifier st) = Some \<lparr>stopped = True, watchCh_closed = True\<rparr>"
    using assms(1) by (intro notifier_Close_ok) (simp add: elect_inv_def)
  then have st': "st' = st\<lparr>run := RunReturned, leaseCtx_done := True, scopeCtx_done := True, notifier := \<lparr>stopped = True, watchCh_closed = True\<rparr>\<rparr>"
    using stop(2) by (simp add: OnStoppedLeading_def)
  have spawned: "isEnabled" "started st" using assms(1) stop(1) by (cases "run st"; simp add: elect_inv_def)+
  show ?thesis using assms(1) spawned unfolding st' elect_inv_def announced_def by simp
next
  case (signal n)
  have "notifier_Close (notifier st) = Some \<lparr>stopped = True, watchCh_closed = True\<rparr>"
    using assms(1) by (intro notifier_Close_ok) (simp add: elect_inv_def)
  then show ?thesis using signal assms(1) by (auto simp: elect_inv_def announced_def)
next
  case cancel
  then show ?thesis using assms(1) by (auto simp: elect_inv_def announced_def)
next
  case join
  then show ?thesis using assms(1) by (auto simp: elect_inv_def announced_def joinElector_def)
qed

lemma elect_reachable_inv: "elect_reachable isEnabled scopeCancels st \<Longrightarrow> elect_inv isEnabled scopeCancels st"
  by (induction rule: elect_reachable.induct) (blast intro: elect_inv_init elect_inv_step)+

text \<open>A caller of \<open>Await\<close> has a context only in a process that has acquired the lease, and an
  error only with its own context done.\<close>

lemma Await_leads:
  assumes "elect_reachable isEnabled scopeCancels st" "Await st ctxDone AwaitContext" isEnabled
  shows "run st \<in> {Leading, LeaseLost, RunReturned}"
proof -
  note h = elect_reachable_inv[OF assms(1), unfolded elect_inv_def announced_def]
  have "electedCh_closed st" using assms(2) by (auto elim: Await.cases)
  moreover have "electedCh_closed st = (started st \<and> \<not> isEnabled \<or> callback st \<in> {Announced, CallbackReturned})" using h by simp
  ultimately have "callback st \<noteq> NotSpawned" using assms(3) by auto
  moreover have "callback st \<noteq> NotSpawned \<longrightarrow> run st \<in> {Leading, LeaseLost, RunReturned}" using h by simp
  ultimately show ?thesis by blast
qed

lemma Await_fails:
  assumes "elect_reachable isEnabled scopeCancels st" "Await st ctxDone (AwaitError err)"
  shows "ctxDone \<and> err = ContextCanceled"
proof -
  have "electionErr st = None" using elect_reachable_inv[OF assms(1)] by (simp add: elect_inv_def)
  then show ?thesis using assms(2) by (auto elim: Await.cases)
qed

section \<open>A sample election\<close>

text \<open>The lease is acquired and announced, and the callback returns.\<close>

definition sample_elected :: "bool \<Rightarrow> ElectorState" where
  "sample_elected scopeCancels = (initElector True)\<lparr>started := True, elector := Some \<lparr>box = True, was_written = True\<rparr>,
     cancel_stored := True, run := Leading, callback := CallbackReturned, closeCh_set := True, electedCh_closed := True,
     scopeCtx_done := scopeCancels\<rparr>"

lemma sample_elected_reachable: "elect_reachable True scopeCancels (sample_elected scopeCancels)"
proof -
  let ?s0 = "initElector True"
  let ?s1 = "?s0\<lparr>elector := Some \<lparr>box = True, was_written = True\<rparr>, cancel_stored := True, run := Campaigning, started := True\<rparr>"
  let ?s2 = "?s1\<lparr>run := Leading, callback := Spawned\<rparr>"
  let ?s3 = "?s2\<lparr>closeCh_set := True, electedCh_closed := True, callback := Announced\<rparr>"
  have "runElector True None None None ?s0 = Some (None, ?s0\<lparr>elector := Some \<lparr>box = True, was_written = True\<rparr>, cancel_stored := True, run := Campaigning\<rparr>)"
    by (simp add: runElector_def initElector_def write_elector_def LateInit_write_def NewLateInit_def)
  from elect_step.start[OF _ this] have r1: "elect_reachable True scopeCancels ?s1"
    by (intro elect_reachable.step[OF elect_reachable.initial]) (simp add: initElector_def)
  have r2: "elect_reachable True scopeCancels ?s2"
    by (rule elect_reachable.step[OF r1 elect_step.acquire]) (simp_all add: initElector_def)
  have r3: "elect_reachable True scopeCancels ?s3"
    using elect_step.announce[of ?s2 "?s2\<lparr>closeCh_set := True, electedCh_closed := True\<rparr>" True scopeCancels]
    by (intro elect_reachable.step[OF r2]) (simp add: OnStartedLeading_announce_def close_elected_def initElector_def)
  have r4: "elect_reachable True scopeCancels ((OnStartedLeading_return scopeCancels ?s3)\<lparr>callback := CallbackReturned\<rparr>)"
    by (rule elect_reachable.step[OF r3 elect_step.leave]) simp
  have "(OnStartedLeading_return scopeCancels ?s3)\<lparr>callback := CallbackReturned\<rparr> = sample_elected scopeCancels"
    by (simp add: sample_elected_def OnStartedLeading_return_def initElector_def)
  with r4 show ?thesis by simp
qed

section \<open>Properties\<close>

text \<open>C19: No interleaving of the elector, its callbacks, signals and the end of the process panics.
  Whoever waits for the election gets a context only when the election is disabled or the lease has
  been acquired, and that context is alive only until the elector gives the lease up: once
  \<open>Run\<close> has returned it is done and the process is shutting down. The lease is not given up on
  a signal before the elector is joined.\<close>

theorem election_safety:
  assumes "elect_reachable isEnabled scopeCancels st"
  shows "(Await st ctxDone AwaitContext \<longrightarrow> \<not> isEnabled \<or> run st \<in> {Leading, LeaseLost, RunReturned})
    \<and> (Await st ctxDone AwaitContext \<and> \<not> await_ctx_done st ctxDone \<longrightarrow> \<not> isEnabled \<or> run st \<in> {Leading, LeaseLost})
    \<and> (run st = RunReturned \<longrightarrow> stopped (notifier st) \<and> (Await st ctxDone AwaitContext \<longrightarrow> await_ctx_done st ctxDone))
    \<and> (\<forall>err. Await st ctxDone (AwaitError err) \<longrightarrow> ctxDone \<and> err = ContextCanceled)
    \<and> (runCtx_done st \<longrightarrow> procCtx_done st)
    \<and> (\<not> started st \<longrightarrow> runElector isEnabled hostnameErr lockErr electorErr st \<noteq> None)
    \<and> (callback st = Spawned \<longrightarrow> OnStartedLeading_announce st \<noteq> None) \<and> OnStoppedLeading st \<noteq> None"
proof -
  have inv: "elect_inv isEnabled scopeCancels st" by (rule elect_reachable_inv[OF assms])
  note h = inv[unfolded elect_inv_def announced_def]
  have await: "Await st ctxDone AwaitContext \<longleftrightarrow> electedCh_closed st" "Await st ctxDone (AwaitError err) \<longleftrightarrow> ctxDone \<and> err = ContextCanceled" for err
    using h by (auto simp: Await.simps)
  have ran: "callback st \<noteq> NotSpawned \<longrightarrow> run st \<in> {Leading, LeaseLost, RunReturned}" using h by simp
  have spawned: "electedCh_closed st \<Longrightarrow> isEnabled \<Longrightarrow> callback st \<in> {Announced, CallbackReturned}" using h by blast
  have "OnStartedLeading_announce st \<noteq> None" if "callback st = Spawned"
  proof -
    have "isEnabled" "started st" using h that by auto
    then have "\<not> electedCh_closed st" using h that by auto
    then show ?thesis by (simp add: OnStartedLeading_announce_def close_elected_def)
  qed
  moreover have "OnStoppedLeading st \<noteq> None"
    using h by (simp add: OnStoppedLeading_def notifier_Close_ok)
  moreover have "runElector isEnabled hostnameErr lockErr electorErr st \<noteq> None" if "\<not> started st"
    using runElector_result[OF inv that, of hostnameErr lockErr electorErr] by auto
  moreover have "run st \<in> {Leading, LeaseLost, RunReturned}" if "electedCh_closed st" "isEnabled"
    using spawned[OF that] ran by auto
  moreover have "await_ctx_done st ctxDone" if "electedCh_closed st" "run st = RunReturned"
  proof -
    have "isEnabled" "scopeCtx_done st" "closeCh_set st = (callback st \<in> {Announced, CallbackReturned})" using h that(2) by auto
    then show ?thesis using spawned[OF that(1)] by (simp add: await_ctx_done_def)
  qed
  moreover have "run st = RunReturned \<longrightarrow> stopped (notifier st)" "runCtx_done st \<longrightarrow> procCtx_done st" using h by blast+
  ultimately show ?thesis unfolding await by blast
qed

text \<open>The theorem at the sample election.\<close>

theorem election_safety_witness:
  "Await (sample_elected False) False AwaitContext \<and> \<not> await_ctx_done (sample_elected False) False
   \<and> run (sample_elected False) \<in> {Leading, LeaseLost} \<and> OnStoppedLeading (sample_elected False) \<noteq> None"
proof -
  have alive: "Await (sample_elected False) False AwaitContext" "\<not> await_ctx_done (sample_elected False) False"
    by (auto simp: sample_elected_def initElector_def await_ctx_done_def intro: Await.elected)
  then show ?thesis using election_safety[OF sample_elected_reachable[of False], of False] by blast
qed

text \<open>While the lease is held and the process is not shutting down, the context that a waiting
  caller has got stays alive exactly as long as the observer's scope function does not cancel the
  context it returned: \<open>OnStartedLeading\<close> calls it when it returns, not when the lease is lost.\<close>

theorem election_scope:
  assumes "elect_reachable True scopeCancels st" "callback st = CallbackReturned" "run st \<in> {Leading, LeaseLost}" "\<not> runCtx_done st"
  shows "Await st False AwaitContext \<and> (await_ctx_done st False \<longleftrightarrow> scopeCancels)"
proof -
  note h = elect_reachable_inv[OF assms(1), unfolded elect_inv_def announced_def]
  show ?thesis using h assms(2-4) by (auto simp: await_ctx_done_def intro: Await.elected)
qed

text \<open>The theorem at an observer whose scope function cancels: the lease is held, and the
  context is done.\<close>

theorem election_scope_witness:
  "run (sample_elected True) = Leading \<and> Await (sample_elected True) False AwaitContext \<and> await_ctx_done (sample_elected True) False"
proof -
  have "callback (sample_elected True) = CallbackReturned" "run (sample_elected True) = Leading" "\<not> runCtx_done (sample_elected True)"
    by (simp_all add: sample_elected_def initElector_def)
  then show ?thesis using election_scope[OF sample_elected_reachable[of True]] by simp
qed

end
