(* ===== verification/UpdateTrigger.thy ===== *)
theory UpdateTrigger
  imports SyncTime
begin

text \<open>
  The update trigger of the aggregator, \<open>aggregator/updatetrigger/updatetrigger.go\<close>: once it is
  the leader it creates a dummy pod and then patches a time stamp into it at every tick, to keep the
  watch stream of the pod informer alive. The API server is an argument that gives the result of each
  call, the formatting of instants another; a run is over the ticks of its timer.
\<close>

section \<open>Calls\<close>

record TriggerOptions =
  trig_PodName :: string
  trig_PodNamespace :: string
  trig_PodLabels :: "(string, string) gomap"
  trig_PodAnnotations :: "(string, string) gomap"
  trig_PodImage :: string
  trig_PodScheduler :: string

record TriggerPod =
  tp_Namespace :: string
  tp_Name :: string
  tp_Labels :: "(string, string) gomap"
  tp_Annotations :: "(string, string) gomap"
  tp_Containers :: "(string \<times> string) list"
  tp_SchedulerName :: string

text \<open>A JSON patch of one operation.\<close>

record patch_op =
  op :: string
  op_path :: string
  op_value :: string

datatype trigger_call = CreateTriggerPod TriggerPod | PatchTriggerPod string string patch_op

definition IsAlreadyExists :: "go_error \<Rightarrow> bool" where
  "IsAlreadyExists err \<longleftrightarrow> (case as_status err of Some (reason, m) \<Rightarrow> reason = ''AlreadyExists'' | None \<Rightarrow> False)"

text \<open>\<open>strings.ReplaceAll\<close> of a character.\<close>

definition ReplaceAll :: "string \<Rightarrow> char \<Rightarrow> string \<Rightarrow> string" where
  "ReplaceAll s old new = concat (map (\<lambda>c. if c = old then new else [c]) s)"

definition trigger_pod :: "(gotime \<Rightarrow> string) \<Rightarrow> gotime \<Rightarrow> TriggerOptions \<Rightarrow> TriggerPod" where
  "trigger_pod format now opts =
     (let annotations = foldl (\<lambda>m (k, v). map_put k v m) [(AnnotUpdateTriggerTime, format now)] (trig_PodAnnotations opts)
      in \<lparr>tp_Namespace = trig_PodNamespace opts, tp_Name = trig_PodName opts, tp_Labels = trig_PodLabels opts,
          tp_Annotations = annotations, tp_Containers = [(''main'', trig_PodImage opts)], tp_SchedulerName = trig_PodScheduler opts\<rparr>)"

definition spinCreate :: "(gotime \<Rightarrow> string) \<Rightarrow> gotime \<Rightarrow> (trigger_call \<Rightarrow> go_error option) \<Rightarrow> TriggerOptions \<Rightarrow>
    go_error option \<times> trigger_call" where
  "spinCreate format now api opts =
     (let call = CreateTriggerPod (trigger_pod format now opts)
      in (case api call of
            Some err \<Rightarrow> if \<not> IsAlreadyExists err then Some (TagWrapf ''CreatePod'' err ''create trigger pod on worker apiserver'') else None
          | None \<Rightarrow> None, call))"

text \<open>Encoding a patch of strings does not fail.\<close>

definition trigger_patch :: "(gotime \<Rightarrow> string) \<Rightarrow> gotime \<Rightarrow> patch_op" where
  "trigger_patch format now = \<lparr>op = ''replace'',
     op_path = ''/metadata/annotations/'' @ ReplaceAll AnnotUpdateTriggerTime (CHR ''/'') ''~1'', op_value = format now\<rparr>"

definition spinUpdate :: "(gotime \<Rightarrow> string) \<Rightarrow> gotime \<Rightarrow> (trigger_call \<Rightarrow> go_error option) \<Rightarrow> TriggerOptions \<Rightarrow>
    go_error option \<times> trigger_call" where
  "spinUpdate format now api opts =
     (let call = PatchTriggerPod (trig_PodNamespace opts) (trig_PodName opts) (trigger_patch format now)
      in (case api call of
            Some err \<Rightarrow> Some (TagWrapf ''PatchPod'' err ''patch trigger pod on worker apiserver'')
          | None \<Rightarrow> None, call))"

section \<open>The loop\<close>

text \<open>What is observed of a tick.\<close>

datatype trigger_obs = TriggerPodCreate "go_error option" | TriggerPodUpdate "go_error option"

text \<open>\<open>created\<close> stands for the two variables \<open>spin\<close> and \<open>obs\<close>, which change
  together. The run ends with its context.\<close>

fun trigger_loop :: "(gotime \<Rightarrow> string) \<Rightarrow> TriggerOptions \<Rightarrow> bool \<Rightarrow> (gotime \<times> (trigger_call \<Rightarrow> go_error option)) list \<Rightarrow>
    (trigger_call \<times> trigger_obs) list" where
  "trigger_loop format opts created [] = []"
| "trigger_loop format opts created ((now, api) # ticks) =
     (case (if created then spinUpdate format now api opts else spinCreate format now api opts) of
        (err, call) \<Rightarrow>
          (call, if created then TriggerPodUpdate err else TriggerPodCreate err)
            # trigger_loop format opts (created \<or> err = None) ticks)"

definition startTrigger :: "(gotime \<Rightarrow> string) \<Rightarrow> TriggerOptions \<Rightarrow> bool \<Rightarrow> bool \<Rightarrow> (gotime \<times> (trigger_call \<Rightarrow> go_error option)) list \<Rightarrow>
    (trigger_call \<times> trigger_obs) list" where
  "startTrigger format opts isEnabled elected ticks =
     (if \<not> isEnabled then [] else if \<not> elected then [] else trigger_loop format opts False ticks)"

section \<open>What a patch does\<close>

text \<open>The reference tokens of a JSON pointer (RFC 6901), and a \<open>replace\<close> (RFC 6902) of an
  annotation: the target must exist.\<close>

fun unescape_token :: "string \<Rightarrow> string" where
  "unescape_token (CHR ''~'' # CHR ''1'' # s) = CHR ''/'' # unescape_token s"
| "unescape_token (CHR ''~'' # CHR ''0'' # s) = CHR ''~'' # unescape_token s"
| "unescape_token (c # s) = c # unescape_token s"
| "unescape_token [] = []"

definition pointer_tokens :: "string \<Rightarrow> string list" where
  "pointer_tokens p = map unescape_token (tl (strings_Split p (CHR ''/'')))"

definition apply_patch :: "patch_op \<Rightarrow> TriggerPod \<Rightarrow> TriggerPod option" where
  "apply_patch p pod =
     (if op p = ''replace'' then
        (case pointer_tokens (op_path p) of
           [a, b, k] \<Rightarrow>
             if a = ''metadata'' \<and> b = ''annotations'' \<and> map_of (tp_Annotations pod) k \<noteq> None
             then Some (pod\<lparr>tp_Annotations := map_put k (op_value p) (tp_Annotations pod)\<rparr>) else None
         | _ \<Rightarrow> None)
      else None)"

lemma patch_tokens: "pointer_tokens (op_path (trigger_patch format now)) = [''metadata'', ''annotations'', AnnotUpdateTriggerTime]"
proof -
  have "pointer_tokens (''/metadata/annotations/'' @ ReplaceAll AnnotUpdateTriggerTime (CHR ''/'') ''~1'') =
      [''metadata'', ''annotations'', AnnotUpdateTriggerTime]" by code_simp
  then show ?thesis by (simp add: trigger_patch_def)
qed

lemma put_all_dom: "map_of m k \<noteq> None \<Longrightarrow> map_of (foldl (\<lambda>m (k, v). map_put k v m) m kvs) k \<noteq> None"
proof (induction kvs arbitrary: m)
  case (Cons kv kvs)
  obtain k' v where "kv = (k', v)" by force
  then show ?case using Cons.IH[of "map_put k' v m"] Cons.prems by (auto split: if_splits)
qed simp

lemma apply_trigger_patch:
  assumes "map_of (tp_Annotations pod) AnnotUpdateTriggerTime \<noteq> None"
  shows "apply_patch (trigger_patch format now) pod =
    Some (pod\<lparr>tp_Annotations := map_put AnnotUpdateTriggerTime (format now) (tp_Annotations pod)\<rparr>)"
  using assms by (simp add: apply_patch_def patch_tokens) (simp add: trigger_patch_def)

lemma apply_trigger_patch_absent:
  "map_of (tp_Annotations pod) AnnotUpdateTriggerTime = None \<Longrightarrow> apply_patch (trigger_patch format now) pod = None"
  by (simp add: apply_patch_def patch_tokens)

lemma trigger_pod_annotated: "map_of (tp_Annotations (trigger_pod format now opts)) AnnotUpdateTriggerTime \<noteq> None"
  using put_all_dom[of "[(AnnotUpdateTriggerTime, format now)]"] by (simp add: trigger_pod_def)

section \<open>Property\<close>

lemma trigger_loop_created:
  "trigger_loop format opts True ticks = map (\<lambda>(now, api). case spinUpdate format now api opts of (err, call) \<Rightarrow> (call, TriggerPodUpdate err)) ticks"
  by (induction ticks) (auto split: prod.split)

lemma trigger_loop_split:
  "trigger_loop format opts False (failed @ ticks) =
     map (\<lambda>(now, api). case spinCreate format now api opts of (err, call) \<Rightarrow> (call, TriggerPodCreate err)) failed
     @ trigger_loop format opts False ticks"
  if "\<forall>(now, api) \<in> set failed. fst (spinCreate format now api opts) \<noteq> None"
  using that by (induction failed) (auto split: prod.split)

text \<open>The trigger asks for its pod to be created until the API server has created it or has it
  already, and from then on only patches it, at every tick and whatever the patches return: a pod that
  is deleted later is never created again. A patch addresses the annotation of the trigger time; on a
  pod with that annotation, such as the one it creates, it sets the time of the tick, and on a pod
  without it it has no effect.\<close>

theorem trigger_creates_then_patches:
  assumes "\<forall>(now, api) \<in> set failed. fst (spinCreate format now api opts) \<noteq> None"
    and "fst (spinCreate format now api opts) = None"
  shows "startTrigger format opts True True (failed @ (now, api) # later) =
      map (\<lambda>(now, api). case spinCreate format now api opts of (err, call) \<Rightarrow> (call, TriggerPodCreate err)) (failed @ [(now, api)])
      @ map (\<lambda>(now, api). case spinUpdate format now api opts of (err, call) \<Rightarrow> (call, TriggerPodUpdate err)) later
    \<and> (fst (spinCreate format now api opts) = None \<longleftrightarrow>
         (case api (CreateTriggerPod (trigger_pod format now opts)) of None \<Rightarrow> True | Some err \<Rightarrow> IsAlreadyExists err))
    \<and> apply_patch (trigger_patch format t) (trigger_pod format now opts) =
        Some ((trigger_pod format now opts)\<lparr>tp_Annotations :=
          map_put AnnotUpdateTriggerTime (format t) (tp_Annotations (trigger_pod format now opts))\<rparr>)
    \<and> (apply_patch (trigger_patch format t) pod = None \<longleftrightarrow> map_of (tp_Annotations pod) AnnotUpdateTriggerTime = None)"
proof (intro conjI)
  show "startTrigger format opts True True (failed @ (now, api) # later) =
      map (\<lambda>(now, api). case spinCreate format now api opts of (err, call) \<Rightarrow> (call, TriggerPodCreate err)) (failed @ [(now, api)])
      @ map (\<lambda>(now, api). case spinUpdate format now api opts of (err, call) \<Rightarrow> (call, TriggerPodUpdate err)) later"
    using assms(2) trigger_loop_split[OF assms(1)] by (auto simp: startTrigger_def trigger_loop_created split: prod.split)
  show "fst (spinCreate format now api opts) = None \<longleftrightarrow>
         (case api (CreateTriggerPod (trigger_pod format now opts)) of None \<Rightarrow> True | Some err \<Rightarrow> IsAlreadyExists err)"
    by (auto simp: spinCreate_def Let_def split: option.split)
  show "apply_patch (trigger_patch format t) pod = None \<longleftrightarrow> map_of (tp_Annotations pod) AnnotUpdateTriggerTime = None"
    by (cases "map_of (tp_Annotations pod) AnnotUpdateTriggerTime") (simp_all add: apply_trigger_patch apply_trigger_patch_absent)
qed (rule apply_trigger_patch[OF trigger_pod_annotated])

text \<open>The theorem at a server that fails, then has the pod already, and later has lost it.\<close>

definition sample_trigger :: TriggerOptions where
  "sample_trigger = \<lparr>trig_PodName = ''dummy'', trig_PodNamespace = ''default'', trig_PodLabels = [], trig_PodAnnotations = [],
     trig_PodImage = '':'', trig_PodScheduler = ''none''\<rparr>"

theorem trigger_creates_then_patches_witness:
  "map (\<lambda>(call, obs). case obs of TriggerPodCreate err \<Rightarrow> (True, err = None) | TriggerPodUpdate err \<Rightarrow> (False, err = None))
     (startTrigger (\<lambda>_. ''now'') sample_trigger True True
        [(1, \<lambda>_. Some (ErrorString ''down'')), (2, \<lambda>_. Some (StatusError ''AlreadyExists'' ''exists'')), (3, \<lambda>_. None),
         (4, \<lambda>_. Some (StatusError ''NotFound'' ''gone''))])
   = [(True, False), (True, True), (False, True), (False, False)]"
proof -
  let ?f = "\<lambda>_ :: gotime. ''now''"
  have "fst (spinCreate ?f 2 (\<lambda>_. Some (StatusError ''AlreadyExists'' ''exists'')) sample_trigger) = None"
    "fst (spinCreate ?f 1 (\<lambda>_. Some (ErrorString ''down'')) sample_trigger) \<noteq> None"
    by (simp_all add: spinCreate_def IsAlreadyExists_def Let_def)
  then show ?thesis
    using trigger_creates_then_patches[of "[(1, \<lambda>_. Some (ErrorString ''down''))]" ?f sample_trigger 2
        "\<lambda>_. Some (StatusError ''AlreadyExists'' ''exists'')" "[(3, \<lambda>_. None), (4, \<lambda>_. Some (StatusError ''NotFound'' ''gone''))]"]
    by (simp add: spinCreate_def spinUpdate_def IsAlreadyExists_def Let_def)
qed

end
