(* ===== verification/Observers.thy ===== *)
theory Observers
  imports Component
begin

text \<open>
  Observability, \<open>util/o11y\<close>: observe functions that may be nil and their joins, the joining of
  observer structs field by field, and the component that collects the observers provided for a type. An
  observe function changes a world of type \<open>'w\<close>; a struct is the list of its fields, all over one type of arguments.
\<close>

section \<open>Observe functions\<close>

type_synonym ('arg, 'w) ObserveFunc = "('arg \<Rightarrow> 'w \<Rightarrow> 'w) option"

definition ObserveFunc_Join :: "('arg, 'w) ObserveFunc \<Rightarrow> ('arg, 'w) ObserveFunc \<Rightarrow> ('arg, 'w) ObserveFunc" where
  "ObserveFunc_Join fn other = (case fn of
     None \<Rightarrow> (case other of None \<Rightarrow> Some (\<lambda>arg w. w) | Some g \<Rightarrow> Some g)
   | Some f \<Rightarrow> (case other of None \<Rightarrow> Some f | Some g \<Rightarrow> Some (\<lambda>arg w. g arg (f arg w))))"

text \<open>A scope returns a context and the function to call at its end.\<close>

type_synonym ('arg, 'ctx, 'w) ObserveScopeFunc = "('ctx \<Rightarrow> 'arg \<Rightarrow> 'w \<Rightarrow> ('ctx \<times> ('w \<Rightarrow> 'w)) \<times> 'w) option"

definition ObserveScopeFunc_Join :: "('arg, 'ctx, 'w) ObserveScopeFunc \<Rightarrow> ('arg, 'ctx, 'w) ObserveScopeFunc \<Rightarrow> ('arg, 'ctx, 'w) ObserveScopeFunc" where
  "ObserveScopeFunc_Join fn other = (case fn of
     None \<Rightarrow> (case other of None \<Rightarrow> Some (\<lambda>ctx arg w. ((ctx, \<lambda>w. w), w)) | Some g \<Rightarrow> Some g)
   | Some f \<Rightarrow> (case other of None \<Rightarrow> Some f
       | Some g \<Rightarrow> Some (\<lambda>ctx arg w.
           case f ctx arg w of ((ctx1, cancelFunc1), w1) \<Rightarrow>
             (case g ctx1 arg w1 of ((ctx2, cancelFunc2), w2) \<Rightarrow> ((ctx2, \<lambda>w. cancelFunc2 (cancelFunc1 w)), w2)))))"

text \<open>A monitor runs until its context is done; joined monitors run side by side, and the join ends
  when all have ended: it is the list of the loops that run.\<close>

type_synonym ('arg, 'm) MonitorFunc = "('arg \<Rightarrow> 'm list) option"

definition MonitorFunc_Join :: "('arg, 'm) MonitorFunc \<Rightarrow> ('arg, 'm) MonitorFunc \<Rightarrow> ('arg, 'm) MonitorFunc" where
  "MonitorFunc_Join fn other = (case fn of
     None \<Rightarrow> (case other of None \<Rightarrow> Some (\<lambda>arg. []) | Some g \<Rightarrow> Some g)
   | Some f \<Rightarrow> (case other of None \<Rightarrow> Some f | Some g \<Rightarrow> Some (\<lambda>arg. g arg @ f arg)))"

section \<open>Observer structs\<close>

datatype ('arg, 'ctx, 'w, 'm) obs_field =
    Observe "('arg, 'w) ObserveFunc"
  | ObserveScope "('arg, 'ctx, 'w) ObserveScopeFunc"
  | Monitor "('arg, 'm) MonitorFunc"

type_synonym ('arg, 'ctx, 'w, 'm) observer = "('arg, 'ctx, 'w, 'm) obs_field list"

text \<open>\<open>MethodByName("Join")\<close> on two fields of the same type.\<close>

fun field_Join :: "('arg, 'ctx, 'w, 'm) obs_field \<Rightarrow> ('arg, 'ctx, 'w, 'm) obs_field \<Rightarrow> ('arg, 'ctx, 'w, 'm) obs_field" where
  "field_Join (Observe f) (Observe g) = Observe (ObserveFunc_Join f g)"
| "field_Join (ObserveScope f) (ObserveScope g) = ObserveScope (ObserveScopeFunc_Join f g)"
| "field_Join (Monitor f) (Monitor g) = Monitor (MonitorFunc_Join f g)"
| "field_Join f g = f"

definition ReflectJoin :: "('arg, 'ctx, 'w, 'm) observer \<Rightarrow> ('arg, 'ctx, 'w, 'm) observer \<Rightarrow> ('arg, 'ctx, 'w, 'm) observer" where
  "ReflectJoin left right = map2 field_Join left right"

fun zero_field :: "('arg, 'ctx, 'w, 'm) obs_field \<Rightarrow> ('arg, 'ctx, 'w, 'm) obs_field" where
  "zero_field (Observe _) = Observe None"
| "zero_field (ObserveScope _) = ObserveScope None"
| "zero_field (Monitor _) = Monitor None"

text \<open>The zero value of a struct type; a type is given by any of its values.\<close>

definition zero_observer :: "('arg, 'ctx, 'w, 'm) observer \<Rightarrow> ('arg, 'ctx, 'w, 'm) observer" where
  "zero_observer ty = map zero_field ty"

definition ReflectNoop :: "('arg, 'ctx, 'w, 'm) observer \<Rightarrow> ('arg, 'ctx, 'w, 'm) observer" where
  "ReflectNoop ty = ReflectJoin (zero_observer ty) (zero_observer ty)"

definition ReflectPopulate :: "('arg, 'ctx, 'w, 'm) observer \<Rightarrow> ('arg, 'ctx, 'w, 'm) observer" where
  "ReflectPopulate obs = ReflectJoin obs (zero_observer obs)"

section \<open>The component of an observer type\<close>

text \<open>A declaration is an implementation, or a mere request without one. The constructor of the
  component is what the first declaration gives; the others are merged into it.\<close>

definition Provide_deps :: "('arg, 'ctx, 'w, 'm) observer option \<Rightarrow> ('arg, 'ctx, 'w, 'm) observer option" where
  "Provide_deps impl = impl"

definition Provide_merge :: "('arg, 'ctx, 'w, 'm) observer option \<Rightarrow> ('arg, 'ctx, 'w, 'm) observer option \<Rightarrow> ('arg, 'ctx, 'w, 'm) observer option" where
  "Provide_merge impl obsCtor = (case impl of
     None \<Rightarrow> obsCtor
   | Some obs \<Rightarrow> (case obsCtor of Some prev \<Rightarrow> Some (ReflectJoin prev obs) | None \<Rightarrow> Some obs))"

definition Provide_init :: "('arg, 'ctx, 'w, 'm) observer \<Rightarrow> ('arg, 'ctx, 'w, 'm) observer option \<Rightarrow> ('arg, 'ctx, 'w, 'm) observer" where
  "Provide_init ty obsCtor = (case obsCtor of
     None \<Rightarrow> ReflectJoin (zero_observer ty) (zero_observer ty)
   | Some obs \<Rightarrow> ReflectPopulate obs)"

definition provided :: "('arg, 'ctx, 'w, 'm) observer \<Rightarrow> ('arg, 'ctx, 'w, 'm) observer option list \<Rightarrow> ('arg, 'ctx, 'w, 'm) observer" where
  "provided ty decls = (case decls of
     [] \<Rightarrow> []
   | d # ds \<Rightarrow> Provide_init ty (foldl (\<lambda>ctor impl. Provide_merge impl ctor) (Provide_deps d) ds))"

section \<open>What a joined observer does\<close>

definition run_observe :: "('arg, 'w) ObserveFunc \<Rightarrow> 'arg \<Rightarrow> 'w \<Rightarrow> 'w" where
  "run_observe f arg w = (case f of None \<Rightarrow> w | Some g \<Rightarrow> g arg w)"

definition run_scope :: "('arg, 'ctx, 'w) ObserveScopeFunc \<Rightarrow> 'ctx \<Rightarrow> 'arg \<Rightarrow> 'w \<Rightarrow> ('ctx \<times> ('w \<Rightarrow> 'w)) \<times> 'w" where
  "run_scope f ctx arg w = (case f of None \<Rightarrow> ((ctx, \<lambda>w. w), w) | Some g \<Rightarrow> g ctx arg w)"

definition run_monitor :: "('arg, 'm) MonitorFunc \<Rightarrow> 'arg \<Rightarrow> 'm list" where
  "run_monitor f arg = (case f of None \<Rightarrow> [] | Some g \<Rightarrow> g arg)"

definition then_scope :: "(('ctx \<times> ('w \<Rightarrow> 'w)) \<times> 'w) \<Rightarrow> ('ctx \<Rightarrow> 'w \<Rightarrow> ('ctx \<times> ('w \<Rightarrow> 'w)) \<times> 'w) \<Rightarrow> ('ctx \<times> ('w \<Rightarrow> 'w)) \<times> 'w" where
  "then_scope r k = (case r of ((ctx, c1), w) \<Rightarrow> (case k ctx w of ((ctx', c2), w') \<Rightarrow> ((ctx', \<lambda>w. c2 (c1 w)), w')))"

text \<open>The effect of a field, so that fields of all kinds compare, and whether it can be called.\<close>

datatype ('arg, 'ctx, 'w, 'm) effect =
    ObserveEffect "'arg \<Rightarrow> 'w \<Rightarrow> 'w"
  | ScopeEffect "'ctx \<Rightarrow> 'arg \<Rightarrow> 'w \<Rightarrow> ('ctx \<times> ('w \<Rightarrow> 'w)) \<times> 'w"
  | MonitorEffect "'arg \<Rightarrow> 'm list"

fun field_effect :: "('arg, 'ctx, 'w, 'm) obs_field \<Rightarrow> ('arg, 'ctx, 'w, 'm) effect" where
  "field_effect (Observe f) = ObserveEffect (run_observe f)"
| "field_effect (ObserveScope f) = ScopeEffect (run_scope f)"
| "field_effect (Monitor f) = MonitorEffect (run_monitor f)"

fun then_effect :: "('arg, 'ctx, 'w, 'm) effect \<Rightarrow> ('arg, 'ctx, 'w, 'm) effect \<Rightarrow> ('arg, 'ctx, 'w, 'm) effect" where
  "then_effect (ObserveEffect f) (ObserveEffect g) = ObserveEffect (\<lambda>arg w. g arg (f arg w))"
| "then_effect (ScopeEffect f) (ScopeEffect g) = ScopeEffect (\<lambda>ctx arg w. then_scope (f ctx arg w) (\<lambda>ctx w. g ctx arg w))"
| "then_effect (MonitorEffect f) (MonitorEffect g) = MonitorEffect (\<lambda>arg. g arg @ f arg)"
| "then_effect f g = f"

fun callable :: "('arg, 'ctx, 'w, 'm) obs_field \<Rightarrow> bool" where
  "callable (Observe f) \<longleftrightarrow> f \<noteq> None"
| "callable (ObserveScope f) \<longleftrightarrow> f \<noteq> None"
| "callable (Monitor f) \<longleftrightarrow> f \<noteq> None"

definition same_type :: "('arg, 'ctx, 'w, 'm) observer \<Rightarrow> ('arg, 'ctx, 'w, 'm) observer \<Rightarrow> bool" where
  "same_type a b \<longleftrightarrow> map zero_field a = map zero_field b"

lemma run_observe_Join: "run_observe (ObserveFunc_Join f g) = (\<lambda>arg w. run_observe g arg (run_observe f arg w))"
  by (cases f; cases g) (simp_all add: ObserveFunc_Join_def run_observe_def fun_eq_iff)

lemma then_scope_unit: "then_scope ((ctx, \<lambda>w. w), w) k = k ctx w" "then_scope r (\<lambda>ctx w. ((ctx, \<lambda>w. w), w)) = r"
  by (cases "k ctx w"; cases "fst (k ctx w)"; simp add: then_scope_def) (cases r; cases "fst r"; simp add: then_scope_def)

lemma run_scope_Join: "run_scope (ObserveScopeFunc_Join f g) ctx arg w = then_scope (run_scope f ctx arg w) (\<lambda>ctx w. run_scope g ctx arg w)"
  by (cases f; cases g) (simp_all add: ObserveScopeFunc_Join_def run_scope_def then_scope_unit, simp add: then_scope_def split: prod.splits)

lemma run_monitor_Join: "run_monitor (MonitorFunc_Join f g) = (\<lambda>arg. run_monitor g arg @ run_monitor f arg)"
  by (cases f; cases g) (simp_all add: MonitorFunc_Join_def run_monitor_def fun_eq_iff)

lemma Join_not_nil: "ObserveFunc_Join f g \<noteq> None" "ObserveScopeFunc_Join f' g' \<noteq> None" "MonitorFunc_Join f'' g'' \<noteq> None"
  by (simp_all add: ObserveFunc_Join_def ObserveScopeFunc_Join_def MonitorFunc_Join_def split: option.split)

lemma zero_field_idem [simp]: "zero_field (zero_field f) = zero_field f"
  by (cases f) simp_all

lemma field_Join_effect:
  assumes "zero_field f = zero_field g"
  shows "field_effect (field_Join f g) = then_effect (field_effect f) (field_effect g)"
    "callable (field_Join f g)" "zero_field (field_Join f g) = zero_field f"
proof -
  show "field_effect (field_Join f g) = then_effect (field_effect f) (field_effect g)"
    using assms by (cases f; cases g) (simp_all add: run_observe_Join run_monitor_Join run_scope_Join fun_eq_iff)
  show "callable (field_Join f g)" "zero_field (field_Join f g) = zero_field f"
    using assms by (cases f; cases g; simp add: Join_not_nil)+
qed

lemma run_nil: "run_observe None = (\<lambda>arg w. w)" "run_scope None = (\<lambda>ctx arg w. ((ctx, \<lambda>w. w), w))" "run_monitor None = (\<lambda>arg. [])"
  by (simp_all add: run_observe_def run_scope_def run_monitor_def fun_eq_iff)

lemma zero_field_effect:
  assumes "zero_field f = zero_field g"
  shows "then_effect (field_effect f) (field_effect (zero_field g)) = field_effect f"
    "then_effect (field_effect (zero_field g)) (field_effect f) = field_effect f"
  using assms by (cases f; cases g; simp add: run_nil then_scope_unit)+

lemma ReflectJoin_effect:
  assumes "same_type a b"
  shows "map field_effect (ReflectJoin a b) = map2 then_effect (map field_effect a) (map field_effect b)"
    "list_all callable (ReflectJoin a b)" "same_type (ReflectJoin a b) a"
proof -
  have len: "length a = length b" using assms unfolding same_type_def by (metis length_map)
  from len assms have "map field_effect (ReflectJoin a b) = map2 then_effect (map field_effect a) (map field_effect b)
      \<and> list_all callable (ReflectJoin a b) \<and> same_type (ReflectJoin a b) a"
    by (induction a b rule: list_induct2) (simp_all add: ReflectJoin_def same_type_def field_Join_effect)
  then show "map field_effect (ReflectJoin a b) = map2 then_effect (map field_effect a) (map field_effect b)"
    "list_all callable (ReflectJoin a b)" "same_type (ReflectJoin a b) a" by blast+
qed

lemma ReflectPopulate_effect:
  "map field_effect (ReflectPopulate obs) = map field_effect obs" "list_all callable (ReflectPopulate obs)"
proof -
  have same: "same_type obs (zero_observer obs)"
    by (simp add: same_type_def zero_observer_def)
  show "list_all callable (ReflectPopulate obs)" using ReflectJoin_effect(2)[OF same] by (simp add: ReflectPopulate_def)
  show "map field_effect (ReflectPopulate obs) = map field_effect obs"
    by (induction obs) (simp_all add: ReflectPopulate_def ReflectJoin_def zero_observer_def field_Join_effect zero_field_effect)
qed

abbreviation effects :: "('arg, 'ctx, 'w, 'm) observer \<Rightarrow> ('arg, 'ctx, 'w, 'm) effect list" where
  "effects obs \<equiv> map field_effect obs"

text \<open>The effects of observers one after the other.\<close>

definition all_effects :: "('arg, 'ctx, 'w, 'm) observer \<Rightarrow> ('arg, 'ctx, 'w, 'm) observer list \<Rightarrow> ('arg, 'ctx, 'w, 'm) effect list" where
  "all_effects ty obss = foldl (\<lambda>es obs. map2 then_effect es (effects obs)) (effects (zero_observer ty)) obss"

lemma effects_unit: "same_type obs ty \<Longrightarrow> map2 then_effect (effects (zero_observer ty)) (effects obs) = effects obs"
proof -
  assume same: "same_type obs ty"
  have "length obs = length ty" using same unfolding same_type_def by (metis length_map)
  then show ?thesis using same
    by (induction obs ty rule: list_induct2) (simp_all add: same_type_def zero_observer_def zero_field_effect)
qed

lemma Provide_merge_simps [simp]:
  "Provide_merge None ctor = ctor" "Provide_merge (Some obs) None = Some obs"
  "Provide_merge (Some obs) (Some prev) = Some (ReflectJoin prev obs)"
  by (simp_all add: Provide_merge_def)

lemma map_filter_snoc: "List.map_filter id (ds @ [d]) = List.map_filter id ds @ (case d of None \<Rightarrow> [] | Some obs \<Rightarrow> [obs])"
  by (simp add: List.map_filter_def split: option.split)

lemma provided_ctor:
  assumes "\<forall>obs. Some obs \<in> set decls \<longrightarrow> same_type obs ty"
  shows "case foldl (\<lambda>ctor impl. Provide_merge impl ctor) None decls of
      None \<Rightarrow> List.map_filter id decls = []
    | Some obs \<Rightarrow> List.map_filter id decls \<noteq> [] \<and> same_type obs ty \<and> effects obs = all_effects ty (List.map_filter id decls)"
  using assms
proof (induction decls rule: rev_induct)
  case (snoc d decls)
  let ?ctor = "foldl (\<lambda>ctor impl. Provide_merge impl ctor) None decls"
  have IH: "case ?ctor of None \<Rightarrow> List.map_filter id decls = []
    | Some obs \<Rightarrow> List.map_filter id decls \<noteq> [] \<and> same_type obs ty \<and> effects obs = all_effects ty (List.map_filter id decls)"
    using snoc by simp
  show ?case
  proof (cases d)
    case None
    then have "List.map_filter id (decls @ [d]) = List.map_filter id decls" by (simp add: map_filter_snoc)
    then show ?thesis using IH None unfolding foldl_append by (simp only: foldl.simps Provide_merge_simps)
  next
    case (Some obs)
    have same: "same_type obs ty" using snoc.prems Some by simp
    show ?thesis
    proof (cases ?ctor)
      case None
      then have "List.map_filter id decls = []" using IH by simp
      then show ?thesis using None Some same effects_unit[OF same] by (simp add: map_filter_snoc all_effects_def)
    next
      case (Some prev)
      then have prev: "same_type prev ty" "effects prev = all_effects ty (List.map_filter id decls)" using IH by simp_all
      have st: "same_type prev obs" using prev(1) same by (simp add: same_type_def)
      have "same_type (ReflectJoin prev obs) ty" using ReflectJoin_effect(3)[OF st] prev(1) by (simp add: same_type_def)
      then show ?thesis using Some \<open>d = Some obs\<close> ReflectJoin_effect(1)[OF st] prev(2)
        by (simp add: map_filter_snoc all_effects_def)
    qed
  qed
qed (simp add: List.map_filter_simps)

text \<open>Whoever requests the observer of a type gets one that calls everything that was provided for it,
  each once and in the order of the declarations, whether the request comes first or last; every field
  can be called, also those that no implementation sets.\<close>

theorem observers_all_called:
  assumes "decls \<noteq> []" "\<And>obs. Some obs \<in> set decls \<Longrightarrow> same_type obs ty"
  shows "list_all callable (provided ty decls) \<and> effects (provided ty decls) = all_effects ty (List.map_filter id decls)"
proof -
  have run: "provided ty decls = Provide_init ty (foldl (\<lambda>ctor impl. Provide_merge impl ctor) None decls)"
  proof (cases decls)
    case (Cons d ds)
    then show ?thesis by (cases d) (simp_all add: provided_def Provide_deps_def)
  qed (use assms(1) in simp)
  have "\<forall>obs. Some obs \<in> set decls \<longrightarrow> same_type obs ty" using assms(2) by blast
  note inv = provided_ctor[OF this]
  show ?thesis
  proof (cases "foldl (\<lambda>ctor impl. Provide_merge impl ctor) None decls")
    case None
    have same: "same_type (zero_observer ty) (zero_observer ty)" by (simp add: same_type_def)
    have "effects (ReflectJoin (zero_observer ty) (zero_observer ty)) = effects (zero_observer ty)"
      using ReflectJoin_effect(1)[OF same] effects_unit[of "zero_observer ty" ty] by (simp add: same_type_def zero_observer_def)
    then show ?thesis using None inv run ReflectJoin_effect(2)[OF same] by (simp add: Provide_init_def all_effects_def)
  next
    case (Some obs)
    then show ?thesis using inv run ReflectPopulate_effect[of obs] by (simp add: Provide_init_def)
  qed
qed

end
