(* ===== verification/Metrics.thy ===== *)
theory Metrics
  imports Iter
begin

text \<open>
  The tags of metrics, \<open>util/o11y/metrics/api.go\<close> and \<open>multifield.go\<close>: the names and values
  that reflection finds in a struct, the filter on tags that an operator configures, and the emission of
  a value to collectors. The collectors of Prometheus are parameters that change a world and may panic; so
  may the \<open>String\<close> method of a value. \<open>None\<close> is a panic.
\<close>

section \<open>Names of tags\<close>

text \<open>Letters of ASCII, as the identifiers of the program have them.\<close>

definition IsUpper :: "char \<Rightarrow> bool" where "IsUpper c \<longleftrightarrow> (let n = of_char c :: nat in 65 \<le> n \<and> n \<le> 90)"
definition ToLower :: "char \<Rightarrow> char" where "ToLower c = (if IsUpper c then char_of (of_char c + 32 :: nat) else c)"

fun formatTagName_loop :: "string \<Rightarrow> string \<Rightarrow> string" where
  "formatTagName_loop [] acc = acc"
| "formatTagName_loop (c # cs) acc =
     (if IsUpper c then formatTagName_loop cs ((if length acc \<noteq> 0 then acc @ ''_'' else acc) @ [ToLower c])
      else formatTagName_loop cs (acc @ [c]))"

definition formatTagName :: "string \<Rightarrow> string" where "formatTagName name = formatTagName_loop name []"

section \<open>Reflection\<close>

text \<open>A struct type is its fields: name, whether exported, whether embedded, type.\<close>

datatype go_type = LeafType | StructType go_fields
  and go_fields = NoField | FieldCons string bool bool go_type go_fields

datatype go_value = LeafValue string | StructValue "go_value list"

text \<open>The fields that are tags, with the path of each. Recursing into an embedded field that is not a
  struct panics.\<close>

fun discoverFields :: "go_fields \<Rightarrow> nat \<Rightarrow> nat list \<Rightarrow> (nat list \<times> string) list \<Rightarrow> (nat list \<times> string) list option" where
  "discoverFields NoField fieldIndex indexPrefix acc = Some acc"
| "discoverFields (FieldCons name exported anonymous ty fs) fieldIndex indexPrefix acc =
     (let indexList = AppendSliceCopy indexPrefix [fieldIndex]
      in if exported then
           if anonymous then
             (case ty of
                StructType sub \<Rightarrow>
                  (case discoverFields sub 0 indexList acc of
                     None \<Rightarrow> None
                   | Some acc' \<Rightarrow> discoverFields fs (Suc fieldIndex) indexPrefix acc')
              | LeafType \<Rightarrow> None)
           else discoverFields fs (Suc fieldIndex) indexPrefix (acc @ [(indexList, formatTagName name)])
         else discoverFields fs (Suc fieldIndex) indexPrefix acc)"

fun FieldByIndex :: "go_value \<Rightarrow> nat list \<Rightarrow> go_value option" where
  "FieldByIndex v [] = Some v"
| "FieldByIndex (StructValue vs) (i # is) = (if i < length vs then FieldByIndex (vs ! i) is else None)"
| "FieldByIndex (LeafValue s) (i # is) = None"

text \<open>The text of a value: \<open>stringer\<close> gives, for a value that has a \<open>String\<close> method, what this method returns,
  or its panic, which nothing recovers; other values are printed by \<open>fmt.Sprint\<close>, which recovers
  panics.\<close>

definition value_text :: "(go_value \<Rightarrow> string option option) \<Rightarrow> (go_value \<Rightarrow> string) \<Rightarrow> go_value \<Rightarrow> string option" where
  "value_text stringer sprint obj = (case stringer obj of Some result \<Rightarrow> result | None \<Rightarrow> Some (sprint obj))"

record 'i TagsDesc =
  TagKeys :: "string list"
  TagValues :: "'i \<Rightarrow> string list option"

definition NewReflectTags :: "(go_value \<Rightarrow> string option option) \<Rightarrow> (go_value \<Rightarrow> string) \<Rightarrow> go_fields \<Rightarrow> go_value TagsDesc option" where
  "NewReflectTags stringer sprint ty = (case discoverFields ty 0 [] [] of
     None \<Rightarrow> None
   | Some fs \<Rightarrow> Some \<lparr>TagKeys = map snd fs,
       TagValues = (\<lambda>v. those (map (\<lambda>(path, n). Option.bind (FieldByIndex v path) (value_text stringer sprint)) fs))\<rparr>)"

section \<open>Filtering\<close>

fun filter_tags :: "(string \<Rightarrow> bool) \<Rightarrow> nat \<Rightarrow> string list \<Rightarrow> (string \<times> nat) list" where
  "filter_tags test index [] = []"
| "filter_tags test index (key # keys) =
     (if test key then (key, index) # filter_tags test (Suc index) keys else filter_tags test (Suc index) keys)"

text \<open>An index past the end of the values panics.\<close>

definition subset_values :: "nat list \<Rightarrow> string list \<Rightarrow> string list option" where
  "subset_values indices superset = those (map (\<lambda>i. if i < length superset then Some (superset ! i) else None) indices)"

definition filteredTagDesc :: "'i TagsDesc \<Rightarrow> (string \<Rightarrow> bool) \<Rightarrow> 'i TagsDesc" where
  "filteredTagDesc tagsDesc test =
     (let selected = filter_tags test 0 (TagKeys tagsDesc)
      in \<lparr>TagKeys = map fst selected,
          TagValues = (\<lambda>inst. case TagValues tagsDesc inst of None \<Rightarrow> None | Some vs \<Rightarrow> subset_values (map snd selected) vs)\<rparr>)"

text \<open>The filter of the command line: the tags with many values only when they are asked for.\<close>

record TagFilter =
  tf_Namespace :: bool
  tf_User :: bool

definition TagFilter_Test :: "TagFilter \<Rightarrow> string \<Rightarrow> bool" where
  "TagFilter_Test flt tagName =
     (if tagName = ''namespace'' then tf_Namespace flt
      else if tagName = ''user'' then tf_User flt
      else True)"

section \<open>Emission\<close>

text \<open>A vector of Prometheus: the child for the values of its labels, and how a number is recorded there, by
  \<open>Set\<close>, \<open>Add\<close> or \<open>Observe\<close>. The first panics when there are not as many values as labels or one is not
  UTF-8, the second for a negative number added to a counter.\<close>

record ('c, 'f, 'w) PromVec =
  WithLabelValues :: "string list \<Rightarrow> 'w \<Rightarrow> ('c \<times> 'w) option"
  RecordValue :: "'c \<Rightarrow> 'f \<Rightarrow> 'w \<Rightarrow> 'w option"

text \<open>The \<open>Emit\<close> of gauges, counters and histograms.\<close>

definition type_Emit :: "('x \<Rightarrow> 'f) \<Rightarrow> ('c, 'f, 'w) PromVec \<Rightarrow> string list \<Rightarrow> 'x \<Rightarrow> 'w \<Rightarrow> 'w option" where
  "type_Emit typeConv collector tags value w =
     (case WithLabelValues collector tags w of
        None \<Rightarrow> None
      | Some (child, w') \<Rightarrow> RecordValue collector child (typeConv value) w')"

text \<open>A field of a multi-field metric: its name, the emission of its type, and the number it extracts.\<close>

record ('v, 'x, 'w) MetricField =
  mf_Name :: string
  MetricType :: "string list \<Rightarrow> 'x \<Rightarrow> 'w \<Rightarrow> 'w option"
  Extractor :: "'v \<Rightarrow> 'x"

definition field_collector_name :: "string \<Rightarrow> ('v, 'x, 'w) MetricField \<Rightarrow> string" where
  "field_collector_name namePrefix f = namePrefix @ ''_'' @ mf_Name f"

definition EmitField :: "('v, 'x, 'w) MetricField \<Rightarrow> string list \<Rightarrow> 'v \<Rightarrow> 'w \<Rightarrow> 'w option" where
  "EmitField f tagValues value w = MetricType f tagValues (Extractor f value) w"

fun multiField_Emit :: "('v, 'x, 'w) MetricField list \<Rightarrow> string list \<Rightarrow> 'v \<Rightarrow> 'w \<Rightarrow> 'w option" where
  "multiField_Emit [] tagValues value w = Some w"
| "multiField_Emit (f # fs) tagValues value w =
     (case EmitField f tagValues value w of None \<Rightarrow> None | Some w' \<Rightarrow> multiField_Emit fs tagValues value w')"

text \<open>\<open>metricType\<close> is the emission of any metric, of one or of several fields.\<close>

definition handle_Emit :: "'i TagsDesc \<Rightarrow> (string list \<Rightarrow> 'v \<Rightarrow> 'w \<Rightarrow> 'w option) \<Rightarrow> 'v \<Rightarrow> 'i \<Rightarrow> 'w \<Rightarrow> 'w option" where
  "handle_Emit tagsDesc metricType value tags w =
     (case TagValues tagsDesc tags of None \<Rightarrow> None | Some vs \<Rightarrow> metricType vs value w)"

section \<open>Tags and values stay aligned\<close>

lemma filter_tags_keys: "map fst (filter_tags test i keys) = filter test keys"
  by (induction keys arbitrary: i) auto

lemma those_Some: "those (map Some xs) = Some xs"
  by (induction xs) auto

lemma those_map_None: "those (map f xs) = None \<longleftrightarrow> (\<exists>x \<in> set xs. f x = None)"
  by (induction xs) (auto split: option.splits)

lemma those_map_Some: "(\<And>x. x \<in> set xs \<Longrightarrow> f x = Some (g x)) \<Longrightarrow> those (map f xs) = Some (map g xs)"
  by (induction xs) auto

lemma filter_tags_values:
  "length vs = length keys \<Longrightarrow> map (\<lambda>(k, i). (k, (us @ vs) ! i)) (filter_tags test (length us) keys) = filter (\<lambda>(k, v). test k) (zip keys vs)"
proof (induction keys arbitrary: vs us)
  case (Cons k keys)
  obtain v vs' where vs: "vs = v # vs'" using Cons.prems by (cases vs) auto
  then show ?case using Cons.IH[of vs' "us @ [v]"] Cons.prems by simp
qed simp

lemma filter_tags_range: "(k, i) \<in> set (filter_tags test n keys) \<Longrightarrow> n \<le> i \<and> i < n + length keys"
  by (induction keys arbitrary: n) (force split: if_splits)+

text \<open>A filter on tags keeps the values of the tags that pass it, in order, under their keys.\<close>

theorem filtered_tags_aligned:
  assumes "TagValues desc inst = Some vs" "length vs = length (TagKeys desc)"
  shows "\<exists>vs'. TagValues (filteredTagDesc desc test) inst = Some vs'
    \<and> zip (TagKeys (filteredTagDesc desc test)) vs' = filter (\<lambda>(k, v). test k) (zip (TagKeys desc) vs)
    \<and> length vs' = length (TagKeys (filteredTagDesc desc test))"
proof -
  let ?sel = "filter_tags test 0 (TagKeys desc)"
  have "subset_values (map snd ?sel) vs = Some (map ((!) vs) (map snd ?sel))"
    unfolding subset_values_def using filter_tags_range[of _ _ test 0 "TagKeys desc"] assms(2) by (intro those_map_Some) auto
  moreover have "zip (map fst ?sel) (map ((!) vs) (map snd ?sel)) = map (\<lambda>(k, i). (k, vs ! i)) ?sel"
    by (induction ?sel) (simp_all add: zip_map_map split_beta zip_same_conv_map)
  ultimately show ?thesis using filter_tags_values[OF assms(2), of "[]" test] assms(1)
    by (simp add: filteredTagDesc_def Let_def)
qed

text \<open>With both flags off neither tag reaches a collector and every other one does, each with the
  value it had.\<close>

lemma default_tags:
  assumes "TagValues desc inst = Some vs" "length vs = length (TagKeys desc)" "\<not> tf_Namespace flt" "\<not> tf_User flt"
  obtains vs' where "TagValues (filteredTagDesc desc (TagFilter_Test flt)) inst = Some vs'"
    and "zip (TagKeys (filteredTagDesc desc (TagFilter_Test flt))) vs' =
      filter (\<lambda>(k, v). k \<notin> {''namespace'', ''user''}) (zip (TagKeys desc) vs)"
proof -
  have "TagFilter_Test flt = (\<lambda>k. k \<notin> {''namespace'', ''user''})" using assms(3,4) by (auto simp: TagFilter_Test_def)
  then show ?thesis using that filtered_tags_aligned[OF assms(1,2), of "TagFilter_Test flt"] by auto
qed

section \<open>Types\<close>

text \<open>A value of a struct type has one value for each field.\<close>

inductive has_type :: "go_value \<Rightarrow> go_type \<Rightarrow> bool"
  and has_fields :: "go_value list \<Rightarrow> go_fields \<Rightarrow> bool" where
  leaf_ty: "has_type (LeafValue s) LeafType"
| struct_ty: "has_fields vs fs \<Longrightarrow> has_type (StructValue vs) (StructType fs)"
| no_field_ty: "has_fields [] NoField"
| field_ty: "has_type v ty \<Longrightarrow> has_fields vs fs \<Longrightarrow> has_fields (v # vs) (FieldCons name exported anonymous ty fs)"

declare has_type_has_fields.intros [intro!]
inductive_cases struct_tyE [elim!]: "has_type v (StructType fs)"
inductive_cases field_tyE [elim!]: "has_fields vs (FieldCons name exported anonymous ty fs)"
inductive_cases no_field_tyE [elim!]: "has_fields vs NoField"

text \<open>The types that reflection accepts: an exported embedded field is a struct, and so on within it.\<close>

fun taggable :: "go_fields \<Rightarrow> bool" where
  "taggable NoField = True"
| "taggable (FieldCons name exported anonymous ty fs) =
     ((exported \<and> anonymous \<longrightarrow> (case ty of StructType sub \<Rightarrow> taggable sub | LeafType \<Rightarrow> False)) \<and> taggable fs)"

lemma discoverFields_taggable: "discoverFields fs k pre acc = None \<longleftrightarrow> \<not> taggable fs"
proof (induction fs arbitrary: k pre acc rule: taggable.induct)
  case (2 name exported anonymous ty fs)
  show ?case
  proof (cases ty)
    case (StructType sub)
    have "exported \<Longrightarrow> anonymous \<Longrightarrow> discoverFields sub k pre acc = None \<longleftrightarrow> \<not> taggable sub" for k pre acc
      using 2(1) StructType by blast
    then show ?thesis using 2(2) StructType by (auto simp: Let_def split: option.splits)
  qed (use 2(2) in \<open>simp add: Let_def\<close>)
qed simp

text \<open>The tags of a struct in the order of its fields, those of embedded structs in place: the names, and the
  objects in a value.\<close>

fun tag_names :: "go_fields \<Rightarrow> string list" where
  "tag_names NoField = []"
| "tag_names (FieldCons name exported anonymous ty fs) =
     (if \<not> exported then [] else if \<not> anonymous then [formatTagName name]
      else case ty of StructType sub \<Rightarrow> tag_names sub | LeafType \<Rightarrow> []) @ tag_names fs"

fun tag_objects :: "go_fields \<Rightarrow> go_value list \<Rightarrow> go_value list" where
  "tag_objects (FieldCons name exported anonymous ty fs) (v # vs) =
     (if \<not> exported then [] else if \<not> anonymous then [v]
      else case (ty, v) of (StructType sub, StructValue ws) \<Rightarrow> tag_objects sub ws | _ \<Rightarrow> []) @ tag_objects fs vs"
| "tag_objects _ _ = []"

lemma tag_objects_length:
  "has_type v ty \<Longrightarrow> (case (ty, v) of (StructType sub, StructValue ws) \<Rightarrow> length (tag_objects sub ws) = length (tag_names sub) | _ \<Rightarrow> True)"
  "has_fields vs fs \<Longrightarrow> length (tag_objects fs vs) = length (tag_names fs)"
  by (induction rule: has_type_has_fields.inducts) (auto elim: has_type.cases split: go_type.splits go_value.splits)

lemma discoverFields_tags:
  "discoverFields fs k pre acc = Some acc' \<Longrightarrow>
     \<exists>qs. acc' = acc @ zip (map ((@) pre) qs) (tag_names fs) \<and> length qs = length (tag_names fs)
        \<and> (\<forall>us vs. length us = k \<longrightarrow> has_fields vs fs \<longrightarrow>
             map (FieldByIndex (StructValue (us @ vs))) qs = map Some (tag_objects fs vs))"
proof (induction fs k pre acc arbitrary: acc' rule: discoverFields.induct)
  case (1 k pre acc)
  then show ?case by simp
next
  case (2 name exported anonymous ty fs k pre acc)
  let ?pre = "AppendSliceCopy pre [k]" and ?fs = "FieldCons name exported anonymous ty fs"
  have shift: "map (FieldByIndex (StructValue (us @ v # vs))) qs = map Some (tag_objects fs vs)"
    if "\<forall>us vs. length us = Suc k \<longrightarrow> has_fields vs fs \<longrightarrow> map (FieldByIndex (StructValue (us @ vs))) qs = map Some (tag_objects fs vs)"
      "length us = k" "has_fields vs fs" for us v vs qs
    using that(1)[rule_format, of "us @ [v]" vs] that(2,3) by simp
  consider (skip) "\<not> exported" | (tag) "exported" "\<not> anonymous" | (embed) sub acc1 where "exported" "anonymous" "ty = StructType sub"
      "discoverFields sub 0 ?pre acc = Some acc1" "discoverFields fs (Suc k) pre acc1 = Some acc'"
    using 2(5) by (cases ty) (auto simp: Let_def split: if_splits option.splits)
  then show ?case
  proof cases
    case skip
    then obtain qs where qs: "acc' = acc @ zip (map ((@) pre) qs) (tag_names fs)" "length qs = length (tag_names fs)"
      "\<forall>us vs. length us = Suc k \<longrightarrow> has_fields vs fs \<longrightarrow> map (FieldByIndex (StructValue (us @ vs))) qs = map Some (tag_objects fs vs)"
      using 2(4)[OF refl] 2(5) by auto
    show ?thesis using qs(1,2) shift[OF qs(3)] skip by (intro exI[of _ qs]) auto
  next
    case tag
    then obtain qs where qs: "acc' = (acc @ [(?pre, formatTagName name)]) @ zip (map ((@) pre) qs) (tag_names fs)"
      "length qs = length (tag_names fs)"
      "\<forall>us vs. length us = Suc k \<longrightarrow> has_fields vs fs \<longrightarrow> map (FieldByIndex (StructValue (us @ vs))) qs = map Some (tag_objects fs vs)"
      using 2(3)[OF refl] 2(5) by (auto simp: Let_def)
    show ?thesis using qs(1,2) shift[OF qs(3)] tag
      by (intro exI[of _ "[k] # qs"]) (auto simp: AppendSliceCopy_def)
  next
    case embed
    obtain qs1 where qs1: "acc1 = acc @ zip (map ((@) ?pre) qs1) (tag_names sub)" "length qs1 = length (tag_names sub)"
      "\<And>vs. has_fields vs sub \<Longrightarrow> map (FieldByIndex (StructValue vs)) qs1 = map Some (tag_objects sub vs)"
      using 2(1)[OF refl embed(1,2,3,4)] by auto
    obtain qs where qs: "acc' = acc1 @ zip (map ((@) pre) qs) (tag_names fs)" "length qs = length (tag_names fs)"
      "\<forall>us vs. length us = Suc k \<longrightarrow> has_fields vs fs \<longrightarrow> map (FieldByIndex (StructValue (us @ vs))) qs = map Some (tag_objects fs vs)"
      using 2(2)[OF refl embed(1,2,3,4,5)] by auto
    have inner: "map (FieldByIndex (StructValue (us @ StructValue ws # vs))) (map ((#) k) qs1) = map Some (tag_objects sub ws)"
      if "length us = k" "has_fields ws sub" for us ws vs
      using qs1(3)[OF that(2)] that(1) by (auto simp: o_def nth_append)
    have "acc' = acc @ zip (map ((@) pre) (map ((#) k) qs1 @ qs)) (tag_names ?fs)"
    proof -
      have nest: "map ((@) (pre @ [k])) qs1 = map (\<lambda>x. pre @ k # x) qs1" by simp
      show ?thesis using qs(1) qs1(1,2) embed(1-3) by (simp add: zip_append AppendSliceCopy_def o_def nest)
    qed
    moreover have "length (map ((#) k) qs1 @ qs) = length (tag_names ?fs)" using qs(2) qs1(2) embed(1-3) by simp
    moreover have "map (FieldByIndex (StructValue (us @ vs))) (map ((#) k) qs1 @ qs) = map Some (tag_objects ?fs vs)"
      if len: "length us = k" and ty': "has_fields vs ?fs" for us vs
    proof -
      obtain ws vs' where vs: "vs = StructValue ws # vs'" "has_fields ws sub" "has_fields vs' fs"
        using ty' embed(3) by auto
      show ?thesis
        unfolding map_append vs(1) inner[OF len vs(2)] shift[OF qs(3) len vs(3)] using embed(1-3) by simp
    qed
    ultimately show ?thesis by (intro exI[of _ "map ((#) k) qs1 @ qs"] conjI allI impI)
  qed
qed

section \<open>Properties\<close>

lemma NewReflectTags_tags:
  assumes "taggable fs" "has_fields ws fs"
  shows "\<exists>desc. NewReflectTags stringer sprint fs = Some desc \<and> TagKeys desc = tag_names fs
    \<and> TagValues desc (StructValue ws) = those (map (value_text stringer sprint) (tag_objects fs ws))"
proof -
  obtain paths where paths: "discoverFields fs 0 [] [] = Some paths" using assms(1) discoverFields_taggable by (metis option.exhaust)
  have nil: "map ((@) []) qs = qs" for qs :: "nat list list" by (induction qs) auto
  from discoverFields_tags[OF paths, unfolded nil] obtain qs where qs: "paths = zip qs (tag_names fs)" "length qs = length (tag_names fs)"
    "map (FieldByIndex (StructValue ws)) qs = map Some (tag_objects fs ws)"
    using assms(2) by auto
  have "map (\<lambda>(path, n). Option.bind (FieldByIndex (StructValue ws) path) (value_text stringer sprint)) (zip qs ns)
      = map (\<lambda>r. Option.bind r (value_text stringer sprint)) (map (FieldByIndex (StructValue ws)) qs)" if "length qs = length ns" for ns :: "string list"
    using that by (induction qs ns rule: list_induct2) auto
  then show ?thesis using qs by (simp add: NewReflectTags_def paths o_def)
qed

text \<open>Which field panicked.\<close>

lemma multiField_Emit_panics:
  "multiField_Emit fs tags x w = None \<Longrightarrow> \<exists>f \<in> set fs. \<exists>w'. EmitField f tags x w' = None"
  by (induction fs arbitrary: w) (auto split: option.splits)

text \<open>C37: The tags of a metric are type safe. For a struct type whose exported embedded fields are structs, and
  a value of it, reflection finds the exported fields in order, those of embedded structs in place, under
  their names in snake case, and one value for each: its text. If no \<open>String\<close> method of them panics, the values exist and are as many as the
  keys, and behind a filter the values of the tags that pass it remain under their keys. Therefore
  an emission panics only when a \<open>String\<close> method of a tag does, or a collector refuses label values that are as many as the labels
  it was registered with. An exported embedded field that is not a struct makes the registration panic.\<close>

theorem tags_type_safe:
  assumes "taggable fs" "has_type v (StructType fs)" "v = StructValue ws"
  shows "\<exists>desc. NewReflectTags stringer sprint fs = Some desc
    \<and> TagKeys desc = tag_names fs \<and> length (tag_objects fs ws) = length (tag_names fs)
    \<and> TagValues desc v = those (map (value_text stringer sprint) (tag_objects fs ws))
    \<and> ((\<forall>obj \<in> set (tag_objects fs ws). stringer obj \<noteq> Some None) \<longrightarrow>
         (\<exists>vs. TagValues (filteredTagDesc desc test) v = Some vs \<and> length vs = length (TagKeys (filteredTagDesc desc test))
            \<and> zip (TagKeys (filteredTagDesc desc test)) vs = filter (\<lambda>(k, _). test k)
                (zip (tag_names fs) (map (the \<circ> value_text stringer sprint) (tag_objects fs ws)))
            \<and> handle_Emit (filteredTagDesc desc test) (multiField_Emit metrics) x v w = multiField_Emit metrics vs x w))
    \<and> (handle_Emit (filteredTagDesc desc test) (multiField_Emit metrics) x v w = None \<longrightarrow>
         (\<exists>obj \<in> set (tag_objects fs ws). stringer obj = Some None)
         \<or> (\<exists>m \<in> set metrics. \<exists>vs w'. length vs = length (TagKeys (filteredTagDesc desc test)) \<and> EmitField m vs x w' = None))
    \<and> NewReflectTags stringer sprint (FieldCons name True True LeafType fs) = None"
proof -
  have ws: "has_fields ws fs" using assms(2,3) by auto
  obtain desc where desc: "NewReflectTags stringer sprint fs = Some desc" "TagKeys desc = tag_names fs"
    "TagValues desc v = those (map (value_text stringer sprint) (tag_objects fs ws))"
    using NewReflectTags_tags[OF assms(1) ws, of stringer sprint] assms(3) by blast
  note len = tag_objects_length(2)[OF ws]
  have panics: "value_text stringer sprint obj = None \<longleftrightarrow> stringer obj = Some None" for obj
    by (simp add: value_text_def split: option.splits)
  have tags: "\<exists>vs. TagValues (filteredTagDesc desc test) v = Some vs \<and> length vs = length (TagKeys (filteredTagDesc desc test))
            \<and> zip (TagKeys (filteredTagDesc desc test)) vs = filter (\<lambda>(k, _). test k)
                (zip (tag_names fs) (map (the \<circ> value_text stringer sprint) (tag_objects fs ws)))"
    if "\<forall>obj \<in> set (tag_objects fs ws). stringer obj \<noteq> Some None"
  proof -
    have "TagValues desc v = Some (map (the \<circ> value_text stringer sprint) (tag_objects fs ws))"
      unfolding desc(3) by (rule those_map_Some) (use that panics in force)
    from filtered_tags_aligned[OF this, of test] show ?thesis using len desc(2) by auto
  qed
  have emit: "(\<exists>m \<in> set metrics. \<exists>vs w'. length vs = length (TagKeys (filteredTagDesc desc test)) \<and> EmitField m vs x w' = None)"
    if none: "handle_Emit (filteredTagDesc desc test) (multiField_Emit metrics) x v w = None"
      and ok: "\<forall>obj \<in> set (tag_objects fs ws). stringer obj \<noteq> Some None"
  proof -
    obtain vs where "TagValues (filteredTagDesc desc test) v = Some vs" "length vs = length (TagKeys (filteredTagDesc desc test))"
      using tags[OF ok] by blast
    then show ?thesis using multiField_Emit_panics[of metrics vs x w] none by (auto simp: handle_Emit_def)
  qed
  have bad: "NewReflectTags stringer sprint (FieldCons name True True LeafType fs) = None" by (simp add: NewReflectTags_def Let_def)
  show ?thesis
  proof (intro exI[of _ desc] conjI impI desc len bad)
    assume "\<forall>obj \<in> set (tag_objects fs ws). stringer obj \<noteq> Some None"
    from tags[OF this] show "\<exists>vs. TagValues (filteredTagDesc desc test) v = Some vs \<and> length vs = length (TagKeys (filteredTagDesc desc test))
            \<and> zip (TagKeys (filteredTagDesc desc test)) vs = filter (\<lambda>(k, _). test k)
                (zip (tag_names fs) (map (the \<circ> value_text stringer sprint) (tag_objects fs ws)))
            \<and> handle_Emit (filteredTagDesc desc test) (multiField_Emit metrics) x v w = multiField_Emit metrics vs x w"
      by (auto simp: handle_Emit_def)
  qed (use emit in blast)
qed

text \<open>The theorem at a struct with an embedded struct and an unexported field.\<close>

definition sample_tags :: go_fields where
  "sample_tags = FieldCons ''Tags'' True True (StructType (FieldCons ''PoolName'' True False LeafType NoField))
     (FieldCons ''start'' False False LeafType NoField)"

theorem tags_type_safe_witness:
  "\<exists>desc. NewReflectTags (\<lambda>_. None) (\<lambda>_. ''p'') sample_tags = Some desc \<and> TagKeys desc = [''pool_name'']
     \<and> TagValues desc (StructValue [StructValue [LeafValue ''p''], LeafValue ''0'']) = Some [''p'']"
proof -
  let ?ws = "[StructValue [LeafValue ''p''], LeafValue ''0'']"
  have "taggable sample_tags" "has_type (StructValue ?ws) (StructType sample_tags)" by (auto simp: sample_tags_def)
  from tags_type_safe[OF this refl, of "\<lambda>_. None" "\<lambda>_. ''p''" "\<lambda>_. True" "[] :: (unit, unit, unit) MetricField list" "()" "()" "[]"]
  obtain desc where "NewReflectTags (\<lambda>_. None) (\<lambda>_. ''p'') sample_tags = Some desc" "TagKeys desc = tag_names sample_tags"
    "TagValues desc (StructValue ?ws) = those (map (value_text (\<lambda>_. None) (\<lambda>_. ''p'')) (tag_objects sample_tags ?ws))" by blast
  moreover have "tag_names sample_tags = [''pool_name'']" by code_simp
  moreover have "those (map (value_text (\<lambda>_. None) (\<lambda>_. ''p'')) (tag_objects sample_tags ?ws)) = Some [''p'']"
    by (simp add: sample_tags_def value_text_def)
  ultimately show ?thesis by simp
qed

end
