(* ===== verification/KubeEvents.thy ===== *)
theory KubeEvents
  imports Apis Errors
begin

text \<open>
  The conversion of informer callbacks of \<open>util/kube/util.go\<close>. An informer hands over an object, or
  for a deletion that it has missed a tombstone with the last object it knew; anything else is an object
  of another type.
\<close>

section \<open>Event handlers\<close>

datatype 'o informer_obj = Object 'o | DeletedFinalStateUnknown "'o informer_obj" | OtherObject

datatype 'o informer_event = AddEvent "'o informer_obj" | UpdateEvent "'o informer_obj" "'o informer_obj" | DeleteEvent "'o informer_obj"

definition unwrap_tombstone :: "'o informer_obj \<Rightarrow> 'o informer_obj" where
  "unwrap_tombstone obj = (case obj of DeletedFinalStateUnknown del \<Rightarrow> del | _ \<Rightarrow> obj)"

text \<open>\<open>meta.Accessor\<close> fails for what is no object; the handler is then not called. The result are
  the names it is called with.\<close>

definition GenericEventHandler :: "('o \<Rightarrow> string \<times> string) \<Rightarrow> 'o informer_event \<Rightarrow> (string \<times> string) list" where
  "GenericEventHandler nsName event =
     (let anyHandler = (\<lambda>obj. case unwrap_tombstone obj of Object o' \<Rightarrow> [nsName o'] | _ \<Rightarrow> [])
      in case event of AddEvent obj \<Rightarrow> anyHandler obj | UpdateEvent _ newObj \<Rightarrow> anyHandler newObj | DeleteEvent obj \<Rightarrow> anyHandler obj)"

text \<open>The variant that passes the object asserts its type, which panics otherwise.\<close>

definition GenericEventHandlerWithStaleState :: "'o informer_event \<Rightarrow> ('o \<times> bool) option" where
  "GenericEventHandlerWithStaleState event =
     (let anyHandler = (\<lambda>stillPresent obj. case unwrap_tombstone obj of Object o' \<Rightarrow> Some (o', stillPresent) | _ \<Rightarrow> None)
      in case event of
           AddEvent obj \<Rightarrow> anyHandler True obj
         | UpdateEvent _ newObj \<Rightarrow> anyHandler True newObj
         | DeleteEvent obj \<Rightarrow> anyHandler False obj)"

section \<open>Every event reaches the handler\<close>

text \<open>The object that an event is about, and whether the event leaves it present.\<close>

fun event_object :: "'o informer_event \<Rightarrow> 'o informer_obj" where
  "event_object (AddEvent obj) = obj" | "event_object (UpdateEvent old obj) = obj" | "event_object (DeleteEvent obj) = obj"

fun leaves_present :: "'o informer_event \<Rightarrow> bool" where
  "leaves_present (DeleteEvent obj) \<longleftrightarrow> False" | "leaves_present _ \<longleftrightarrow> True"

lemma event_handlers_called:
  assumes "event_object event \<in> {Object o', DeletedFinalStateUnknown (Object o')}"
  shows "GenericEventHandler nsName event = [nsName o']"
    "GenericEventHandlerWithStaleState event = Some (o', leaves_present event)"
  using assms by (cases event; auto simp: GenericEventHandler_def GenericEventHandlerWithStaleState_def unwrap_tombstone_def)+

end
