(* ===== verification/Clients.thy ===== *)
theory Clients
  imports Webhook Flags
begin

text \<open>
  Clients and servers of a process: the map of cell clients of the webhook
  (\<open>webhook/cellclient/interface.go\<close>) as it is built from the command line, the patching of a client
  configuration (\<open>util/kube/client.go\<close>), and the life cycle of an HTTP server
  (\<open>util/http/http.go\<close>). Reading a kubeconfig, creating a client and listening belong to libraries and are
  arguments.
\<close>

section \<open>Client configuration\<close>

text \<open>\<open>'q\<close> are the floating point rates.\<close>

record 'q RestConfig =
  rc_UserName :: string
  rc_UID :: string
  rc_Groups :: "string list"
  rc_QPS :: 'q
  rc_Burst :: int
  rc_UserAgent :: string
  AcceptContentTypes :: string

record 'q GlobalClientOptions =
  ImpersonateUsername :: string
  ImpersonateUid :: string
  ImpersonateGroups :: "string list"
  gco_Qps :: 'q
  gco_Burst :: int
  gco_UserAgent :: string

definition PatchRestConfig :: "('q \<Rightarrow> 'q) \<Rightarrow> (string \<Rightarrow> 'q RestConfig \<Rightarrow> 'q RestConfig) \<Rightarrow> 'q GlobalClientOptions \<Rightarrow> 'q RestConfig \<Rightarrow> 'q RestConfig" where
  "PatchRestConfig float32 addUserAgent opts c0 =
     (let c1 = (if ImpersonateUsername opts \<noteq> [] then c0\<lparr>rc_UserName := ImpersonateUsername opts\<rparr> else c0);
          c2 = (if ImpersonateUid opts \<noteq> [] then c1\<lparr>rc_UID := ImpersonateUid opts\<rparr> else c1);
          c3 = (if 0 < length (ImpersonateGroups opts) then c2\<lparr>rc_Groups := ImpersonateGroups opts\<rparr> else c2)
      in addUserAgent (gco_UserAgent opts) (c3\<lparr>rc_QPS := float32 (gco_Qps opts), rc_Burst := gco_Burst opts\<rparr>))"

section \<open>Cell clients\<close>

record 'q MapOptions =
  mo_Global :: "'q GlobalClientOptions"
  KubeconfigPaths :: "(string, string) gomap"
  MasterUrls :: "(string, string) gomap"

text \<open>What the libraries do: read a configuration, convert a rate, add the user agent, make a
  client.\<close>

record ('q, 'c) ClientLib =
  BuildConfigFromFlags :: "string \<Rightarrow> string \<Rightarrow> go_error + 'q RestConfig"
  lib_float32 :: "'q \<Rightarrow> 'q"
  AddUserAgent :: "string \<Rightarrow> 'q RestConfig \<Rightarrow> 'q RestConfig"
  NewForConfig :: "'q RestConfig \<Rightarrow> go_error + 'c"

definition lookup_string :: "(string, string) gomap \<Rightarrow> string \<Rightarrow> string" where
  "lookup_string m k = (case map_of m k of Some v \<Rightarrow> v | None \<Rightarrow> [])"

definition buildClient :: "('q, 'c) ClientLib \<Rightarrow> 'q MapOptions \<Rightarrow> string \<Rightarrow> go_error + 'c" where
  "buildClient lib opts cellId =
     (case BuildConfigFromFlags lib (lookup_string (MasterUrls opts) cellId) (lookup_string (KubeconfigPaths opts) cellId) of
        Inl err \<Rightarrow> Inl (TagWrapf ''BuildConfig'' err ''build rest config from arguments'')
      | Inr restConfig \<Rightarrow>
          (case NewForConfig lib (PatchRestConfig (lib_float32 lib) (AddUserAgent lib) (mo_Global opts) restConfig) of
             Inl err \<Rightarrow> Inl (TagWrapf ''NewForConfig'' err ''build kubernetes client from rest config'')
           | Inr client \<Rightarrow> Inr client))"

fun build_clients :: "('q, 'c) ClientLib \<Rightarrow> 'q MapOptions \<Rightarrow> string list \<Rightarrow> (string, 'c) gomap \<Rightarrow> go_error + (string, 'c) gomap" where
  "build_clients lib opts [] clients = Inr clients"
| "build_clients lib opts (cellId # cells) clients =
     (case buildClient lib opts cellId of
        Inl err \<Rightarrow> Inl (TagWrapf ''buildClient'' err (''build client for cell '' @ sprintf_q cellId))
      | Inr client \<Rightarrow> build_clients lib opts cells (map_put cellId client clients))"

definition ProvideMap_init :: "('q, 'c) ClientLib \<Rightarrow> 'q MapOptions \<Rightarrow> go_error + 'c client_provider" where
  "ProvideMap_init lib opts = (case build_clients lib opts (map fst (KubeconfigPaths opts)) [] of
     Inl err \<Rightarrow> Inl err | Inr clients \<Rightarrow> Inr (MapProvider clients))"

lemma build_clients_spec:
  "build_clients lib opts cells clients = Inr clients' \<Longrightarrow>
     map_of clients' k = (if k \<in> set cells then Some (projr (buildClient lib opts k)) else map_of clients k)
     \<and> (\<forall>c \<in> set cells. isl (buildClient lib opts c) = False)"
proof (induction cells arbitrary: clients)
  case (Cons c cells)
  then obtain client where client: "buildClient lib opts c = Inr client" "build_clients lib opts cells (map_put c client clients) = Inr clients'"
    by (auto split: sum.splits)
  then show ?case using Cons.IH[OF client(2)] by auto
qed simp

lemma build_clients_fails:
  "build_clients lib opts cells clients = Inl err \<Longrightarrow> \<exists>c \<in> set cells. isl (buildClient lib opts c)"
  by (induction cells arbitrary: clients) (auto split: sum.splits)

text \<open>The webhook serves the cells that the flag of kubeconfig files names and no others: with one
  configuration per cell given as text on the command line, the client of a cell is built from the last
  configuration that the text has for it, a cell that the text does not name gets the error of an
  unknown cell, and the process does not start when one client cannot be built.\<close>

theorem cell_clients_of_flag:
  assumes "entries \<noteq> []"
    and "\<And>k v. (k, v) \<in> set entries \<Longrightarrow> CHR ''='' \<notin> set k \<and> CHR '','' \<notin> set k \<and> CHR '','' \<notin> set v"
    and "map_Set StringParser StringParser (strings_Join (map (\<lambda>(k, v). k @ ''='' @ v) entries) '','') = (None, KubeconfigPaths opts)"
  shows "case ProvideMap_init lib opts of
      Inl err \<Rightarrow> \<exists>cell \<in> fst ` set entries. isl (buildClient lib opts cell)
    | Inr provider \<Rightarrow>
        (\<forall>cell. Provide provider cell =
           (if cell \<in> fst ` set entries then buildClient lib opts cell
            else Inl (TagErrorf ''UnknownCell'' (''unknown cell '' @ sprintf_q cell))))
      \<and> (\<forall>cell \<in> fst ` set entries. lookup_string (KubeconfigPaths opts) cell = the (map_of (rev entries) cell))"
proof -
  obtain m where "map_Set StringParser StringParser (strings_Join (map (\<lambda>(k, v). k @ ''='' @ v) entries) '','') = (None, m)"
    and m: "map_of m = map_of (rev entries)" using map_flag_last_wins[of entries] assms(1,2) by blast
  then have paths: "map_of (KubeconfigPaths opts) = map_of (rev entries)" using assms(3) by simp
  have keys: "set (map fst (KubeconfigPaths opts)) = fst ` set entries"
    using arg_cong[OF paths, of dom] by (simp add: dom_map_of_conv_image_fst)
  have look: "lookup_string (KubeconfigPaths opts) cell = the (map_of (rev entries) cell)" if "cell \<in> fst ` set entries" for cell
  proof -
    have "map_of (rev entries) cell \<noteq> None" using that by (simp add: map_of_eq_None_iff)
    then show ?thesis by (auto simp: lookup_string_def paths)
  qed
  show ?thesis
  proof (cases "build_clients lib opts (map fst (KubeconfigPaths opts)) []")
    case (Inl err)
    have "\<exists>cell \<in> fst ` set entries. isl (buildClient lib opts cell)" using build_clients_fails[OF Inl] unfolding keys .
    then show ?thesis using Inl by (simp add: ProvideMap_init_def)
  next
    case (Inr clients)
    note spec = build_clients_spec[OF Inr, unfolded keys]
    have "Provide (MapProvider clients) cell = (if cell \<in> fst ` set entries then buildClient lib opts cell
            else Inl (TagErrorf ''UnknownCell'' (''unknown cell '' @ sprintf_q cell)))" for cell
    proof (cases "cell \<in> fst ` set entries")
      case True
      have "\<not> isl (buildClient lib opts cell)" using spec[of cell] True by blast
      then have "Inr (projr (buildClient lib opts cell)) = buildClient lib opts cell" by (cases "buildClient lib opts cell") simp_all
      moreover have "map_of clients cell = Some (projr (buildClient lib opts cell))" using spec[of cell] True by presburger
      ultimately show ?thesis unfolding Provide_def using True by simp
    next
      case False
      then have "map_of clients cell = None" using spec[of cell] by simp
      then show ?thesis unfolding Provide_def using False by simp
    qed
    then show ?thesis using Inr look by (simp add: ProvideMap_init_def)
  qed
qed

section \<open>The client of a cluster\<close>

text \<open>One configuration gives both client sets; the function that makes the second one belongs to the
  generated client and is an argument.\<close>

record 'q ClientOptions =
  KubeconfigPath :: string
  MasterUrl :: string
  TargetNamespace :: string
  co_Global :: "'q GlobalClientOptions"

record ('q, 'c, 'p) ClientState =
  restConfig :: "'q RestConfig"
  kubeClientSet :: 'c
  podseidonClientSet :: 'p

definition NewClient_init :: "('q, 'c) ClientLib \<Rightarrow> ('q RestConfig \<Rightarrow> go_error + 'p) \<Rightarrow> 'q ClientOptions \<Rightarrow> go_error + ('q, 'c, 'p) ClientState" where
  "NewClient_init lib newPodseidon opts =
     (case BuildConfigFromFlags lib (MasterUrl opts) (KubeconfigPath opts) of
        Inl err \<Rightarrow> Inl (TagWrapf ''BuildConfig'' err ''build rest config from arguments'')
      | Inr c0 \<Rightarrow>
          (let c1 = PatchRestConfig (lib_float32 lib) (AddUserAgent lib) (co_Global opts) c0;
               config = c1\<lparr>AcceptContentTypes := ''application/vnd.kubernetes.protobuf,application/json''\<rparr>
           in case NewForConfig lib config of
                Inl err \<Rightarrow> Inl (TagWrapf ''NewClientSet'' err ''create new kubernetes client set from config'')
              | Inr kubeClient \<Rightarrow>
                  (case newPodseidon config of
                     Inl err \<Rightarrow> Inl (TagWrapf ''NewClientSet'' err ''create new podseidon client set from config'')
                   | Inr podseidonClient \<Rightarrow>
                       Inr \<lparr>restConfig = config, kubeClientSet = kubeClient, podseidonClientSet = podseidonClient\<rparr>)))"

text \<open>What the flags say about impersonation and rates is what both client sets use, whatever the
  kubeconfig says, and a flag left empty keeps what the kubeconfig says. The hypothesis is the one on
  \<open>AddUserAgent\<close>: it sets the user agent only.\<close>

theorem client_config_of_flags:
  assumes "NewClient_init lib newPodseidon opts = Inr st"
    and "BuildConfigFromFlags lib (MasterUrl opts) (KubeconfigPath opts) = Inr c0"
    and "\<And>agent c. \<exists>ua. AddUserAgent lib agent c = c\<lparr>rc_UserAgent := ua\<rparr>"
  shows "rc_UserName (restConfig st) = (if ImpersonateUsername (co_Global opts) = [] then rc_UserName c0 else ImpersonateUsername (co_Global opts))"
    and "rc_UID (restConfig st) = (if ImpersonateUid (co_Global opts) = [] then rc_UID c0 else ImpersonateUid (co_Global opts))"
    and "rc_Groups (restConfig st) = (if ImpersonateGroups (co_Global opts) = [] then rc_Groups c0 else ImpersonateGroups (co_Global opts))"
    and "rc_QPS (restConfig st) = lib_float32 lib (gco_Qps (co_Global opts))" "rc_Burst (restConfig st) = gco_Burst (co_Global opts)"
    and "NewForConfig lib (restConfig st) = Inr (kubeClientSet st)" "newPodseidon (restConfig st) = Inr (podseidonClientSet st)"
proof -
  let ?c = "PatchRestConfig (lib_float32 lib) (AddUserAgent lib) (co_Global opts) c0"
  have st: "restConfig st = ?c\<lparr>AcceptContentTypes := ''application/vnd.kubernetes.protobuf,application/json''\<rparr>"
    "NewForConfig lib (restConfig st) = Inr (kubeClientSet st)" "newPodseidon (restConfig st) = Inr (podseidonClientSet st)"
    using assms(1,2) by (auto simp: NewClient_init_def Let_def split: sum.splits)
  obtain ua where ua: "?c = (let c1 = (if ImpersonateUsername (co_Global opts) \<noteq> [] then c0\<lparr>rc_UserName := ImpersonateUsername (co_Global opts)\<rparr> else c0);
          c2 = (if ImpersonateUid (co_Global opts) \<noteq> [] then c1\<lparr>rc_UID := ImpersonateUid (co_Global opts)\<rparr> else c1);
          c3 = (if 0 < length (ImpersonateGroups (co_Global opts)) then c2\<lparr>rc_Groups := ImpersonateGroups (co_Global opts)\<rparr> else c2)
      in c3\<lparr>rc_QPS := lib_float32 lib (gco_Qps (co_Global opts)), rc_Burst := gco_Burst (co_Global opts), rc_UserAgent := ua\<rparr>)"
    unfolding PatchRestConfig_def Let_def using assms(3) by metis
  show "rc_UserName (restConfig st) = (if ImpersonateUsername (co_Global opts) = [] then rc_UserName c0 else ImpersonateUsername (co_Global opts))"
    and "rc_UID (restConfig st) = (if ImpersonateUid (co_Global opts) = [] then rc_UID c0 else ImpersonateUid (co_Global opts))"
    and "rc_Groups (restConfig st) = (if ImpersonateGroups (co_Global opts) = [] then rc_Groups c0 else ImpersonateGroups (co_Global opts))"
    and "rc_QPS (restConfig st) = lib_float32 lib (gco_Qps (co_Global opts))" "rc_Burst (restConfig st) = gco_Burst (co_Global opts)"
    unfolding st(1) ua Let_def by simp_all
  show "NewForConfig lib (restConfig st) = Inr (kubeClientSet st)" "newPodseidon (restConfig st) = Inr (podseidonClientSet st)"
    by (fact st)+
qed

section \<open>HTTP servers\<close>

text \<open>\<open>net.JoinHostPort\<close> puts a host with a colon in brackets.\<close>

definition JoinHostPort :: "string \<Rightarrow> string \<Rightarrow> string" where
  "JoinHostPort host port = (if CHR '':'' \<in> set host then ''['' @ host @ '']:'' @ port else host @ '':'' @ port)"

record serverOptions =
  so_Enable :: bool
  BindAddr :: string
  Port :: "16 word"

definition newServer :: "serverOptions \<Rightarrow> string option" where
  "newServer so = (if \<not> so_Enable so then None else Some (JoinHostPort (BindAddr so) (FormatUint (unat (Port so)))))"

text \<open>What the life cycle of a server does, in order: the inner hooks, and the servers that listen or
  shut down.\<close>

datatype server_call = InnerStart | Listen string | ListenTLS string | ShutdownServer string | InnerJoin

definition server_Start :: "go_error option option \<Rightarrow> string option \<Rightarrow> string option \<Rightarrow> go_error option \<times> server_call list" where
  "server_Start innerStart httpServer httpsServer =
     (case innerStart of
        Some (Some err) \<Rightarrow> (Some (TagWrapf ''StartInner'' err ''start inner lifecycle''), [InnerStart])
      | _ \<Rightarrow> (None, (if innerStart = None then [] else [InnerStart])
               @ (case httpServer of Some addr \<Rightarrow> [Listen addr] | None \<Rightarrow> [])
               @ (case httpsServer of Some addr \<Rightarrow> [ListenTLS addr] | None \<Rightarrow> [])))"

fun shutdown_loop :: "string \<Rightarrow> (string \<Rightarrow> go_error option) \<Rightarrow> string option list \<Rightarrow> go_error option \<times> server_call list" where
  "shutdown_loop name shutdown [] = (None, [])"
| "shutdown_loop name shutdown (None # servers) = shutdown_loop name shutdown servers"
| "shutdown_loop name shutdown (Some addr # servers) =
     (case shutdown addr of
        Some err \<Rightarrow> (Some (TagWrapf ''ServerShutdown'' err (''shutdown '' @ name @ '' server'')), [ShutdownServer addr])
      | None \<Rightarrow> (case shutdown_loop name shutdown servers of (err, tr) \<Rightarrow> (err, ShutdownServer addr # tr)))"

definition server_Join :: "string \<Rightarrow> (string \<Rightarrow> go_error option) \<Rightarrow> go_error option option \<Rightarrow> string option \<Rightarrow> string option \<Rightarrow>
    go_error option \<times> server_call list" where
  "server_Join name shutdown innerJoin httpServer httpsServer =
     (case shutdown_loop name shutdown [httpServer, httpsServer] of
        (Some err, tr) \<Rightarrow> (Some err, tr)
      | (None, tr) \<Rightarrow> (case innerJoin of Some err \<Rightarrow> (err, tr @ [InnerJoin]) | None \<Rightarrow> (None, tr)))"

text \<open>No request is served before the inner hook has started or after the inner hook has begun to
  join: both servers have shut down by then. A server that does not shut down in time leaves the rest
  unjoined.\<close>

lemma server_lifecycle:
  "fst (server_Start (Some (Some err)) h hs) \<noteq> None \<and> snd (server_Start (Some (Some err)) h hs) = [InnerStart]"
  "snd (server_Start (Some None) h hs) = InnerStart # snd (server_Start None h hs)"
  "InnerJoin \<in> set (snd (server_Join name shutdown innerJoin h hs)) \<longleftrightarrow>
     innerJoin \<noteq> None \<and> (\<forall>addr \<in> set_option h \<union> set_option hs. shutdown addr = None)"
  "innerJoin = Some e \<Longrightarrow> (\<And>addr. shutdown addr = None) \<Longrightarrow>
     server_Join name shutdown innerJoin h hs = (e, map ShutdownServer (List.map_filter id [h, hs]) @ [InnerJoin])"
  by (cases h; cases hs; auto simp: server_Start_def server_Join_def List.map_filter_simps split: option.splits)+

end
