(* ===== verification/Informers.thy ===== *)
theory Informers
  imports Election
begin

text \<open>
  The shared informer factory of the PodProtector client
  (\<open>client/informers/externalversions/factory.go\<close>) and the component that starts such a factory once
  the process leads (\<open>util/kube/informers.go\<close>). The informers of client-go, their types and their stop
  channels are type parameters.
\<close>

section \<open>The factory\<close>

text \<open>\<open>'t\<close> are the types of objects, \<open>'i\<close> the informers, \<open>'k\<close> the client,
  \<open>'w\<close> the functions that change list options and \<open>'x\<close> the transformations.\<close>

record ('t, 'i, 'k, 'w, 'x) sharedInformerFactory =
  sf_client :: 'k
  sf_namespace :: string
  sf_tweakListOptions :: "'w option"
  defaultResync :: int
  customResync :: "('t, int) gomap"
  sf_transform :: "'x option"
  informers :: "('t, 'i) gomap"
  startedInformers :: "('t, bool) gomap"
  wg :: nat
  shuttingDown :: bool

definition WithNamespace :: "string \<Rightarrow> ('t, 'i, 'k, 'w, 'x) sharedInformerFactory \<Rightarrow> ('t, 'i, 'k, 'w, 'x) sharedInformerFactory" where
  "WithNamespace ns f = f\<lparr>sf_namespace := ns\<rparr>"

definition WithTweakListOptions :: "'w option \<Rightarrow> ('t, 'i, 'k, 'w, 'x) sharedInformerFactory \<Rightarrow> ('t, 'i, 'k, 'w, 'x) sharedInformerFactory" where
  "WithTweakListOptions tweak f = f\<lparr>sf_tweakListOptions := tweak\<rparr>"

definition WithTransform :: "'x option \<Rightarrow> ('t, 'i, 'k, 'w, 'x) sharedInformerFactory \<Rightarrow> ('t, 'i, 'k, 'w, 'x) sharedInformerFactory" where
  "WithTransform transform f = f\<lparr>sf_transform := transform\<rparr>"

definition WithCustomResyncConfig :: "('o \<Rightarrow> 't) \<Rightarrow> ('o, int) gomap \<Rightarrow> ('t, 'i, 'k, 'w, 'x) sharedInformerFactory \<Rightarrow> ('t, 'i, 'k, 'w, 'x) sharedInformerFactory" where
  "WithCustomResyncConfig typeOf config f = fold (\<lambda>(k, v) f. f\<lparr>customResync := map_put (typeOf k) v (customResync f)\<rparr>) config f"

definition NewSharedInformerFactoryWithOptions :: "'k \<Rightarrow> int \<Rightarrow> (('t, 'i, 'k, 'w, 'x) sharedInformerFactory \<Rightarrow> ('t, 'i, 'k, 'w, 'x) sharedInformerFactory) list \<Rightarrow>
    ('t, 'i, 'k, 'w, 'x) sharedInformerFactory" where
  "NewSharedInformerFactoryWithOptions client resync options =
     fold (\<lambda>opt f. opt f) options
       \<lparr>sf_client = client, sf_namespace = [], sf_tweakListOptions = None, defaultResync = resync, customResync = [],
        sf_transform = None, informers = [], startedInformers = [], wg = 0, shuttingDown = False\<rparr>"

definition NewSharedInformerFactory :: "'k \<Rightarrow> int \<Rightarrow> ('t, 'i, 'k, 'w, 'x) sharedInformerFactory" where
  "NewSharedInformerFactory client resync = NewSharedInformerFactoryWithOptions client resync []"

definition NewFilteredSharedInformerFactory :: "'k \<Rightarrow> int \<Rightarrow> string \<Rightarrow> 'w option \<Rightarrow> ('t, 'i, 'k, 'w, 'x) sharedInformerFactory" where
  "NewFilteredSharedInformerFactory client resync ns tweak =
     NewSharedInformerFactoryWithOptions client resync [WithNamespace ns, WithTweakListOptions tweak]"

text \<open>A key that the map does not have reads as false.\<close>

definition has_started :: "('t, 'i, 'k, 'w, 'x) sharedInformerFactory \<Rightarrow> 't \<Rightarrow> bool" where
  "has_started f t = (map_of (startedInformers f) t = Some True)"

text \<open>The loop of \<open>Start\<close>; the second result has the goroutines that it spawns, each an
  informer that runs until the stop channel closes.\<close>

fun start_loop :: "'c \<Rightarrow> ('t, 'i) gomap \<Rightarrow> ('t, 'i, 'k, 'w, 'x) sharedInformerFactory \<Rightarrow>
    ('t, 'i, 'k, 'w, 'x) sharedInformerFactory \<times> ('t \<times> 'i \<times> 'c) list" where
  "start_loop stopCh [] f = (f, [])"
| "start_loop stopCh ((informerType, informer) # rest) f =
     (if \<not> has_started f informerType then
        (case start_loop stopCh rest (f\<lparr>wg := Suc (wg f), startedInformers := map_put informerType True (startedInformers f)\<rparr>) of
           (f', spawned) \<Rightarrow> (f', (informerType, informer, stopCh) # spawned))
      else start_loop stopCh rest f)"

definition factory_Start :: "'c \<Rightarrow> ('t, 'i, 'k, 'w, 'x) sharedInformerFactory \<Rightarrow>
    ('t, 'i, 'k, 'w, 'x) sharedInformerFactory \<times> ('t \<times> 'i \<times> 'c) list" where
  "factory_Start stopCh f = (if shuttingDown f then (f, []) else start_loop stopCh (informers f) f)"

text \<open>The two halves of \<open>Shutdown\<close>: what it does under the lock, and when its wait is over.\<close>

definition factory_Shutdown :: "('t, 'i, 'k, 'w, 'x) sharedInformerFactory \<Rightarrow> ('t, 'i, 'k, 'w, 'x) sharedInformerFactory" where
  "factory_Shutdown f = f\<lparr>shuttingDown := True\<rparr>"

definition Shutdown_returns :: "('t, 'i, 'k, 'w, 'x) sharedInformerFactory \<Rightarrow> bool" where
  "Shutdown_returns f \<longleftrightarrow> wg f = 0"

definition WaitForCacheSync :: "('i \<Rightarrow> bool) \<Rightarrow> ('t, 'i, 'k, 'w, 'x) sharedInformerFactory \<Rightarrow> ('t, bool) gomap" where
  "WaitForCacheSync waitSynced f = map (\<lambda>(t, i). (t, waitSynced i)) (filter (\<lambda>(t, i). has_started f t) (informers f))"

text \<open>\<open>setTransform\<close> is the informer's method.\<close>

definition InformerFor :: "('x option \<Rightarrow> 'i \<Rightarrow> 'i) \<Rightarrow> 't \<Rightarrow> ('k \<Rightarrow> int \<Rightarrow> 'i) \<Rightarrow> ('t, 'i, 'k, 'w, 'x) sharedInformerFactory \<Rightarrow>
    'i \<times> ('t, 'i, 'k, 'w, 'x) sharedInformerFactory" where
  "InformerFor setTransform informerType newFunc f =
     (case map_of (informers f) informerType of
        Some informer \<Rightarrow> (informer, f)
      | None \<Rightarrow>
          (let resyncPeriod = (case map_of (customResync f) informerType of Some d \<Rightarrow> d | None \<Rightarrow> defaultResync f);
               informer = setTransform (sf_transform f) (newFunc (sf_client f) resyncPeriod)
           in (informer, f\<lparr>informers := map_put informerType informer (informers f)\<rparr>)))"

section \<open>Interleavings of a factory\<close>

text \<open>Every method holds the lock, so that calls from several goroutines happen in some order. The
  state has the goroutines that were spawned, in order, and those that still run.\<close>

record ('t, 'i, 'k, 'w, 'x, 'c) factory_world =
  factory :: "('t, 'i, 'k, 'w, 'x) sharedInformerFactory"
  launched :: "('t \<times> 'i \<times> 'c) list"
  active :: "('t \<times> 'i \<times> 'c) list"

inductive factory_step :: "('x option \<Rightarrow> 'i \<Rightarrow> 'i) \<Rightarrow> ('t, 'i, 'k, 'w, 'x, 'c) factory_world \<Rightarrow> ('t, 'i, 'k, 'w, 'x, 'c) factory_world \<Rightarrow> bool"
  for setTransform where
  get: "InformerFor setTransform t newFunc (factory st) = (informer, f) \<Longrightarrow> factory_step setTransform st (st\<lparr>factory := f\<rparr>)"
| start: "factory_Start stopCh (factory st) = (f, spawned) \<Longrightarrow>
    factory_step setTransform st (st\<lparr>factory := f, launched := launched st @ spawned, active := active st @ spawned\<rparr>)"
| shutdown: "factory_step setTransform st (st\<lparr>factory := factory_Shutdown (factory st)\<rparr>)"
| finish: "active st = xs @ g # ys \<Longrightarrow>
    factory_step setTransform st (st\<lparr>factory := (factory st)\<lparr>wg := wg (factory st) - 1\<rparr>, active := xs @ ys\<rparr>)"

inductive factory_reachable :: "('x option \<Rightarrow> 'i \<Rightarrow> 'i) \<Rightarrow> ('t, 'i, 'k, 'w, 'x, 'c) factory_world \<Rightarrow> ('t, 'i, 'k, 'w, 'x, 'c) factory_world \<Rightarrow> bool"
  for setTransform st0 where
  initial: "factory_reachable setTransform st0 st0"
| step: "factory_reachable setTransform st0 st \<Longrightarrow> factory_step setTransform st st' \<Longrightarrow> factory_reachable setTransform st0 st'"

definition new_world :: "('t, 'i, 'k, 'w, 'x) sharedInformerFactory \<Rightarrow> ('t, 'i, 'k, 'w, 'x, 'c) factory_world" where
  "new_world f = \<lparr>factory = f, launched = [], active = []\<rparr>"

text \<open>What the options may set: everything but the informers.\<close>

definition fresh_factory :: "('t, 'i, 'k, 'w, 'x) sharedInformerFactory \<Rightarrow> bool" where
  "fresh_factory f \<longleftrightarrow> informers f = [] \<and> startedInformers f = [] \<and> wg f = 0 \<and> \<not> shuttingDown f"

lemma fresh_NewSharedInformerFactory [simp]:
  "fresh_factory (NewSharedInformerFactory client resync)" "fresh_factory (NewFilteredSharedInformerFactory client resync ns tweak)"
  by (simp_all add: fresh_factory_def NewSharedInformerFactory_def NewFilteredSharedInformerFactory_def
      NewSharedInformerFactoryWithOptions_def WithNamespace_def WithTweakListOptions_def)

definition factory_inv :: "('t, 'i, 'k, 'w, 'x, 'c) factory_world \<Rightarrow> bool" where
  "factory_inv st \<longleftrightarrow> map_ok (informers (factory st)) \<and> distinct (map fst (launched st))
     \<and> (\<forall>t. has_started (factory st) t \<longleftrightarrow> t \<in> fst ` set (launched st))
     \<and> (\<forall>(t, i, c) \<in> set (launched st). map_of (informers (factory st)) t = Some i)
     \<and> wg (factory st) = length (active st) \<and> set (active st) \<subseteq> set (launched st)"

text \<open>A start spawns every informer that has not started, in the order of the loop.\<close>

lemma start_loop_spec:
  assumes "distinct (map fst ms)" "start_loop stopCh ms f = (f', spawned)"
  shows "spawned = map (\<lambda>(t, i). (t, i, stopCh)) (filter (\<lambda>(t, i). \<not> has_started f t) ms)
    \<and> (\<forall>t. has_started f' t \<longleftrightarrow> has_started f t \<or> t \<in> fst ` set ms)
    \<and> informers f' = informers f \<and> wg f' = wg f + length spawned \<and> shuttingDown f' = shuttingDown f"
  using assms
proof (induction ms arbitrary: f f' spawned)
  case (Cons m ms)
  obtain t i where m: "m = (t, i)" by force
  show ?case
  proof (cases "has_started f t")
    case True
    then show ?thesis using Cons m by auto
  next
    case False
    let ?f1 = "f\<lparr>wg := Suc (wg f), startedInformers := map_put t True (startedInformers f)\<rparr>"
    obtain sp where sp: "start_loop stopCh ms ?f1 = (f', sp)" "spawned = (t, i, stopCh) # sp"
      using Cons.prems(2) m False by (auto split: prod.splits)
    have started: "has_started ?f1 u \<longleftrightarrow> u = t \<or> has_started f u" for u by (simp add: has_started_def)
    have notin: "t \<notin> fst ` set ms" using Cons.prems(1) m by auto
    have "filter (\<lambda>(u, i). \<not> has_started ?f1 u) ms = filter (\<lambda>(u, i). \<not> has_started f u) ms"
      using notin by (intro filter_cong) (auto simp: started image_iff)
    then show ?thesis using Cons.IH[OF _ sp(1)] Cons.prems(1) m False sp(2) started by auto
  qed
qed simp

lemma factory_inv_new [simp]: "fresh_factory f \<Longrightarrow> factory_inv (new_world f)"
  by (simp add: factory_inv_def new_world_def fresh_factory_def has_started_def map_ok_def)

lemma factory_inv_start:
  assumes "factory_inv st" "factory_Start stopCh (factory st) = (f, spawned)"
  shows "factory_inv (st\<lparr>factory := f, launched := launched st @ spawned, active := active st @ spawned\<rparr>)"
proof (cases "shuttingDown (factory st)")
  case True
  then show ?thesis using assms by (simp add: factory_Start_def factory_inv_def)
next
  case False
  note h = assms(1)[unfolded factory_inv_def]
  have ok: "distinct (map fst (informers (factory st)))" using h by (simp add: map_ok_def)
  note spec = start_loop_spec[OF ok, of stopCh "factory st" f spawned]
  have eq: "start_loop stopCh (informers (factory st)) (factory st) = (f, spawned)" using assms(2) False by (simp add: factory_Start_def)
  have spawned: "spawned = map (\<lambda>(t, i). (t, i, stopCh)) (filter (\<lambda>(t, i). \<not> has_started (factory st) t) (informers (factory st)))"
    using spec[OF eq] by simp
  have types: "map fst spawned = map fst (filter (\<lambda>(t, i). \<not> has_started (factory st) t) (informers (factory st)))"
    by (simp add: spawned comp_def split_beta)
  have f: "informers f = informers (factory st)" "wg f = wg (factory st) + length spawned"
    "\<And>t. has_started f t \<longleftrightarrow> has_started (factory st) t \<or> t \<in> fst ` set (informers (factory st))"
    using spec[OF eq] by simp_all
  have new: "fst ` set spawned = fst ` set (informers (factory st)) - Collect (has_started (factory st))"
    using arg_cong[OF types, of set] by auto
  have "fst ` set (launched st) \<inter> fst ` set spawned = {}" using h unfolding new by blast
  moreover have "distinct (map fst spawned)" unfolding types by (rule distinct_map_filter[OF ok])
  ultimately have "distinct (map fst (launched st @ spawned))" using h by simp
  moreover have "\<forall>(t, i, c) \<in> set spawned. map_of (informers (factory st)) t = Some i"
    using ok by (auto simp: spawned)
  moreover have "has_started f t \<longleftrightarrow> t \<in> fst ` set (launched st @ spawned)" for t
    unfolding f(3) set_append image_Un new using h by blast
  ultimately show ?thesis using h f(1,2) by (auto simp: factory_inv_def)
qed

lemma factory_inv_step:
  assumes "factory_inv st" "factory_step setTransform st st'"
  shows "factory_inv st'"
  using assms(2)
proof cases
  case (get t newFunc informer f)
  show ?thesis
  proof (cases "map_of (informers (factory st)) t")
    case (Some i)
    then have "f = factory st" using get(2) by (simp add: InformerFor_def)
    then show ?thesis using get(1) assms(1) by simp
  next
    case None
    then have f: "informers f = map_put t informer (informers (factory st))" "has_started f = has_started (factory st)" "wg f = wg (factory st)"
      using get(2) by (auto simp: InformerFor_def Let_def has_started_def fun_eq_iff)
    show ?thesis using assms(1) None unfolding get(1) factory_inv_def by (auto simp: f split_beta)
  qed
next
  case start
  then show ?thesis using factory_inv_start[OF assms(1)] by simp
next
  case shutdown
  then show ?thesis using assms(1) by (simp add: factory_inv_def factory_Shutdown_def has_started_def)
next
  case (finish xs g ys)
  then show ?thesis using assms(1) by (auto simp: factory_inv_def has_started_def)
qed

lemma factory_reachable_inv:
  "factory_reachable setTransform st0 st \<Longrightarrow> factory_inv st0 \<Longrightarrow> factory_inv st"
  by (induction rule: factory_reachable.induct) (blast intro: factory_inv_step)+

text \<open>Once a factory is shutting down it spawns nothing and stays that way.\<close>

lemma shutting_down_step:
  assumes "factory_step setTransform st st'" "shuttingDown (factory st)"
  shows "shuttingDown (factory st') \<and> launched st' = launched st \<and> set (active st') \<subseteq> set (active st)"
  using assms(1)
proof cases
  case (get t newFunc informer f)
  then show ?thesis using assms(2) by (auto simp: InformerFor_def Let_def split: option.splits)
qed (use assms(2) in \<open>auto simp: factory_Start_def factory_Shutdown_def\<close>)

lemma shutting_down_reachable:
  "factory_reachable setTransform st st' \<Longrightarrow> shuttingDown (factory st) \<Longrightarrow>
     shuttingDown (factory st') \<and> launched st' = launched st \<and> set (active st') \<subseteq> set (active st)"
proof (induction rule: factory_reachable.induct)
  case (step st1 st2)
  then show ?case using shutting_down_step[OF step.hyps(2)] by auto
qed simp

section \<open>Starting a factory with the election\<close>

text \<open>The goroutine that \<open>Start\<close> of the component spawns: with an elector it waits for the
  election. The last result says whether it closes the channel \<open>Started\<close>.\<close>

inductive informers_goroutine :: "ElectorState option \<Rightarrow> bool \<Rightarrow> 'c \<Rightarrow> ('t, 'i, 'k, 'w, 'x) sharedInformerFactory \<Rightarrow>
    ('t, 'i, 'k, 'w, 'x) sharedInformerFactory \<Rightarrow> ('t \<times> 'i \<times> 'c) list \<Rightarrow> bool \<Rightarrow> bool" where
  always: "factory_Start doneCh f = (f', spawned) \<Longrightarrow> informers_goroutine None ctxDone doneCh f f' spawned True"
| elected: "Await el ctxDone AwaitContext \<Longrightarrow> factory_Start doneCh f = (f', spawned) \<Longrightarrow>
    informers_goroutine (Some el) ctxDone doneCh f f' spawned True"
| failed: "Await el ctxDone (AwaitError err) \<Longrightarrow> informers_goroutine (Some el) ctxDone doneCh f f [] False"

inductive_simps informers_goroutine_None [simp]: "informers_goroutine None ctxDone doneCh f f' spawned closed"
inductive_cases informers_goroutine_SomeE: "informers_goroutine (Some el) ctxDone doneCh f f' spawned closed"

definition informers_Join :: "('t, 'i, 'k, 'w, 'x) sharedInformerFactory \<Rightarrow> ('t, 'i, 'k, 'w, 'x) sharedInformerFactory" where
  "informers_Join f = factory_Shutdown f"

section \<open>Properties\<close>

text \<open>C28: Whatever requests, starts and shutdowns reach a shared informer factory, every type of object
  has one informer that runs at most once, the one that every later request for the type returns. Waiting
  for the caches waits for exactly the informers that were started, so for none before the first start. Once
  a shutdown has returned, no informer runs and none ever will.\<close>

theorem factory_runs_once:
  assumes "fresh_factory f" "factory_reachable setTransform (new_world f) st"
  shows "distinct (map fst (launched st))
    \<and> (\<forall>(t, i, c) \<in> set (launched st). \<forall>newFunc. InformerFor setTransform t newFunc (factory st) = (i, factory st))
    \<and> fst ` set (WaitForCacheSync waitSynced (factory st)) = fst ` set (launched st)
    \<and> (shuttingDown (factory st) \<and> Shutdown_returns (factory st) \<longrightarrow>
         (\<forall>st'. factory_reachable setTransform st st' \<longrightarrow> active st' = [] \<and> launched st' = launched st))"
proof -
  have "factory_inv st" by (rule factory_reachable_inv[OF assms(2)]) (simp add: assms(1))
  note h = this[unfolded factory_inv_def]
  have "\<forall>(t, i, c) \<in> set (launched st). \<forall>newFunc. InformerFor setTransform t newFunc (factory st) = (i, factory st)"
    using h by (auto simp: InformerFor_def)
  moreover have "fst ` set (WaitForCacheSync waitSynced (factory st)) = fst ` set (launched st)"
  proof -
    have "fst ` set (WaitForCacheSync waitSynced (factory st)) = {t \<in> fst ` set (informers (factory st)). has_started (factory st) t}"
      by (force simp: WaitForCacheSync_def)
    moreover have "fst ` set (launched st) \<subseteq> fst ` set (informers (factory st))" using h by (force dest: map_of_SomeD)
    moreover have "has_started (factory st) = (\<lambda>t. t \<in> fst ` set (launched st))" using h by (intro ext) simp
    ultimately show ?thesis by auto
  qed
  moreover have "active st' = [] \<and> launched st' = launched st"
    if "shuttingDown (factory st)" "Shutdown_returns (factory st)" "factory_reachable setTransform st st'" for st'
    using shutting_down_reachable[OF that(3,1)] that(2) h by (simp add: Shutdown_returns_def)
  moreover have "distinct (map fst (launched st))" using h by simp
  ultimately show ?thesis by blast
qed

text \<open>The theorem at a factory of which one informer is requested and started.\<close>

theorem factory_runs_once_witness:
  "\<exists>st :: (nat, nat, unit, unit, unit, nat) factory_world. launched st = [(3, 30, 9)] \<and> distinct (map fst (launched st))
     \<and> fst ` set (WaitForCacheSync (\<lambda>_. True) (factory st)) = {3}"
proof -
  let ?f0 = "NewSharedInformerFactory () 0 :: (nat, nat, unit, unit, unit) sharedInformerFactory"
  let ?st1 = "(new_world ?f0)\<lparr>factory := ?f0\<lparr>informers := [(3, 30)]\<rparr>\<rparr> :: (nat, nat, unit, unit, unit, nat) factory_world"
  let ?st2 = "?st1\<lparr>factory := ?f0\<lparr>informers := [(3, 30)], wg := 1, startedInformers := [(3, True)]\<rparr>, launched := [(3, 30, 9)], active := [(3, 30, 9)]\<rparr>"
  note defs = new_world_def NewSharedInformerFactory_def NewSharedInformerFactoryWithOptions_def
  have "InformerFor (\<lambda>_ i. i) 3 (\<lambda>_ _. 30) (factory (new_world ?f0)) = (30, ?f0\<lparr>informers := [(3, 30)]\<rparr>)"
    by (simp add: InformerFor_def defs)
  then have r1: "factory_reachable (\<lambda>_ i. i) (new_world ?f0) ?st1"
    by (intro factory_reachable.step[OF factory_reachable.initial] factory_step.get)
  have "factory_Start 9 (factory ?st1) = (?f0\<lparr>informers := [(3, 30)], wg := 1, startedInformers := [(3, True)]\<rparr>, [(3, 30, 9)])"
    by (simp add: factory_Start_def has_started_def defs)
  from factory_step.start[OF this] have "factory_step (\<lambda>_ i. i) ?st1 ?st2" by (simp add: defs)
  then have "factory_reachable (\<lambda>_ i. i) (new_world ?f0) ?st2" by (rule factory_reachable.step[OF r1])
  then have "distinct (map fst (launched ?st2)) \<and> fst ` set (WaitForCacheSync (\<lambda>_. True) (factory ?st2)) = fst ` set (launched ?st2)"
    using factory_runs_once[of ?f0 "\<lambda>_ i. i" ?st2 "\<lambda>_. True"] by simp
  then show ?thesis by (intro exI[of _ ?st2]) simp
qed

text \<open>Informers that are tied to an election start only in a process that has acquired the lease, or
  whose election is disabled, and the channel \<open>Started\<close> is closed then only. It may be closed with
  no informer running: when the component is joined before the goroutine gets to start the factory.\<close>

theorem informers_started_by_leader:
  assumes "elect_reachable isEnabled scopeCancels el" "map_ok (informers f)"
    and "informers_goroutine (Some el) ctxDone doneCh f f' spawned closed"
  shows "closed \<or> spawned \<noteq> [] \<longrightarrow> \<not> isEnabled \<or> run el \<in> {Leading, LeaseLost, RunReturned}"
    and "closed \<and> \<not> shuttingDown f \<longrightarrow> (\<forall>t \<in> fst ` set (informers f). has_started f' t)"
    and "\<not> closed \<longrightarrow> f' = f \<and> ctxDone" "shuttingDown f \<longrightarrow> spawned = []"
proof -
  note lead = Await_leads[OF assms(1)] and err = Await_fails[OF assms(1), THEN conjunct1]
  have all: "has_started f' t" if "factory_Start doneCh f = (f', spawned)" "\<not> shuttingDown f" "t \<in> fst ` set (informers f)" for t
  proof -
    have "start_loop doneCh (informers f) f = (f', spawned)" using that(1,2) by (simp add: factory_Start_def)
    then show ?thesis using start_loop_spec[of "informers f" doneCh f f' spawned] assms(2) that(3) by (simp add: map_ok_def)
  qed
  show "closed \<or> spawned \<noteq> [] \<longrightarrow> \<not> isEnabled \<or> run el \<in> {Leading, LeaseLost, RunReturned}"
    by (rule informers_goroutine_SomeE[OF assms(3)]) (use lead in blast)+
  show "closed \<and> \<not> shuttingDown f \<longrightarrow> (\<forall>t \<in> fst ` set (informers f). has_started f' t)"
    using assms(3) by (blast elim: informers_goroutine_SomeE intro: all)
  show "\<not> closed \<longrightarrow> f' = f \<and> ctxDone" using assms(3) by (blast elim: informers_goroutine_SomeE intro: err)
  show "shuttingDown f \<longrightarrow> spawned = []" using assms(3) by (auto simp: factory_Start_def elim: informers_goroutine_SomeE)
qed

end
