(* ===== verification/SupersetQuery.thy ===== *)
theory SupersetQuery
  imports SetTrie
begin

text \<open>
  The superset query of the set trie, \<open>Supersets\<close> of \<open>util/labelindex/settrie/trie.go\<close>:
  all stored words that have every letter of a given word. It finds the right data, under words that are
  cut short.
\<close>

section \<open>The size of a trie\<close>

abbreviation children_size :: "('a \<times> ('a, 'd) trieNode) list \<Rightarrow> nat" where
  "children_size \<equiv> size_list (\<lambda>p. Suc (size (snd p)))"

lemma children_size_node: "children_size ch < size (Node ch d)"
proof -
  have "children_size ch \<le> size_list (size_prod (\<lambda>_. 0) size) ch"
    by (rule size_list_pointwise) (simp add: size_prod_def split: prod.splits)
  then show ?thesis by simp
qed

lemma child_size: "p \<in> set ch \<Longrightarrow> size (snd p) < size (Node ch d)"
  using size_list_estimation[of p ch "size (snd p)" "\<lambda>p. Suc (size (snd p))"] children_size_node[of ch d]
  by (meson lessI order.strict_trans)

section \<open>The query\<close>

text \<open>The two loops over the children are functions of their own: the one without a letter left to
  match, which passes the prefix as it is, and the one with a letter.\<close>

function supersetsInNode :: "('a \<Rightarrow> 'a \<Rightarrow> bool) \<Rightarrow> ('a, 'd) trieNode \<Rightarrow> 'a Word \<Rightarrow> ('a Word \<times> 'd, 's) Yield \<Rightarrow> 'a Word \<Rightarrow> 's \<Rightarrow> Flow \<times> 's"
  and exhaust_children :: "('a \<Rightarrow> 'a \<Rightarrow> bool) \<Rightarrow> ('a \<times> ('a, 'd) trieNode) list \<Rightarrow> ('a Word \<times> 'd, 's) Yield \<Rightarrow> 'a Word \<Rightarrow> 's \<Rightarrow> Flow \<times> 's"
  and match_children :: "('a \<Rightarrow> 'a \<Rightarrow> bool) \<Rightarrow> ('a \<times> ('a, 'd) trieNode) list \<Rightarrow> 'a \<Rightarrow> 'a Word \<Rightarrow> ('a Word \<times> 'd, 's) Yield \<Rightarrow> 'a Word \<Rightarrow> 's \<Rightarrow> Flow \<times> 's"
where
  "supersetsInNode less_fn (Node ch d) [] yield pre s =
     (case (case d of Some x \<Rightarrow> yield (pre, x) s | None \<Rightarrow> (Continue, s)) of (flow, s') \<Rightarrow>
        if \<not> flow then (Break, s') else exhaust_children less_fn ch yield pre s')"
| "supersetsInNode less_fn (Node ch d) (nextWordAlpha # word) yield pre s = match_children less_fn ch nextWordAlpha word yield pre s"
| "exhaust_children less_fn [] yield pre s = (Continue, s)"
| "exhaust_children less_fn ((childAlpha, child) # rest) yield pre s =
     (case supersetsInNode less_fn child [] yield pre s of (flow, s') \<Rightarrow>
        if \<not> flow then (Break, s') else exhaust_children less_fn rest yield pre s')"
| "match_children less_fn [] nextWordAlpha word yield pre s = (Continue, s)"
| "match_children less_fn ((childAlpha, child) # rest) nextWordAlpha word yield pre s =
     (if less_fn nextWordAlpha childAlpha then match_children less_fn rest nextWordAlpha word yield pre s
      else
        (let wordForChild = (if childAlpha = nextWordAlpha then word else nextWordAlpha # word)
         in case supersetsInNode less_fn child wordForChild yield (word_Append pre childAlpha) s of (flow, s') \<Rightarrow>
              if \<not> flow then (Break, s') else match_children less_fn rest nextWordAlpha word yield pre s'))"
  by pat_completeness auto

termination
  by (relation "measure (\<lambda>x. case x of Inl (_, node, _) \<Rightarrow> size node | Inr (Inl (_, ch, _)) \<Rightarrow> children_size ch
      | Inr (Inr (_, ch, _)) \<Rightarrow> children_size ch)") (auto intro: children_size_node[simplified])

definition trie_Supersets :: "('a \<Rightarrow> 'a \<Rightarrow> bool) \<Rightarrow> ('a, 'd) SetTrie \<Rightarrow> 'a Word \<Rightarrow> ('a Word \<times> 'd, 's) Iter" where
  "trie_Supersets less_fn trie word yield s = supersetsInNode less_fn (root trie) word yield [] s"

section \<open>What it yields\<close>

function supersets_list :: "('a \<Rightarrow> 'a \<Rightarrow> bool) \<Rightarrow> ('a, 'd) trieNode \<Rightarrow> 'a Word \<Rightarrow> 'a Word \<Rightarrow> ('a Word \<times> 'd) list" where
  "supersets_list less_fn (Node ch d) [] pre =
     (case d of Some x \<Rightarrow> [(pre, x)] | None \<Rightarrow> []) @ concat (map (\<lambda>p. supersets_list less_fn (snd p) [] pre) ch)"
| "supersets_list less_fn (Node ch d) (x # word) pre =
     concat (map (\<lambda>p. if less_fn x (fst p) then []
        else supersets_list less_fn (snd p) (if fst p = x then word else x # word) (pre @ [fst p])) ch)"
  by pat_completeness auto

termination
  by (relation "measure (\<lambda>(_, node, _). size node)") (use child_size in force)+

lemma supersets_list_push:
  "supersetsInNode less_fn node word yield pre s = iter_FromSlice (supersets_list less_fn node word pre) yield s"
  "exhaust_children less_fn ch yield pre s = iter_FromSlice (concat (map (\<lambda>p. supersets_list less_fn (snd p) [] pre) ch)) yield s"
  "match_children less_fn ch x word yield pre s =
     iter_FromSlice (concat (map (\<lambda>p. if less_fn x (fst p) then []
        else supersets_list less_fn (snd p) (if fst p = x then word else x # word) (pre @ [fst p])) ch)) yield s"
  by (induction less_fn node word yield pre s and less_fn ch yield pre s and less_fn ch x word yield pre s
      rule: supersetsInNode_exhaust_children_match_children.induct)
    (auto simp: iter_append word_Append_def Let_def split: option.splits prod.splits)

lemma trie_Supersets_list: "trie_Supersets less_fn trie word = iter_FromSlice (supersets_list less_fn (root trie) word [])"
  by (intro ext) (simp add: trie_Supersets_def supersets_list_push)

text \<open>The prefix of a word that ends with the last letter of a query.\<close>

fun shortest_cover :: "'a Word \<Rightarrow> 'a Word \<Rightarrow> 'a Word" where
  "shortest_cover [] v = []"
| "shortest_cover (x # word) [] = []"
| "shortest_cover (x # word) (y # v) = y # shortest_cover (if y = x then word else x # word) v"

lemma shortest_cover_prefix: "prefix (shortest_cover word v) v"
  by (induction word v rule: shortest_cover.induct) auto

lemma shortest_cover_subseq: "subseq word v \<Longrightarrow> subseq word (shortest_cover word v)"
  by (induction word v rule: shortest_cover.induct) (auto simp: subseq_Cons2_iff split: if_splits)

text \<open>The loop with a letter passes over a child whose letter is past it.\<close>

fun matched :: "('a \<Rightarrow> 'a \<Rightarrow> bool) \<Rightarrow> 'a Word \<Rightarrow> 'a Word \<Rightarrow> bool" where
  "matched less_fn [] v = True"
| "matched less_fn (x # word) [] = False"
| "matched less_fn (x # word) (y # v) = (\<not> less_fn x y \<and> matched less_fn (if y = x then word else x # word) v)"

lemma matched_subseq:
  assumes "irreflp less_fn" "transp less_fn" "sorted_wrt less_fn v"
  shows "matched less_fn word v \<longleftrightarrow> subseq word v"
  using assms(3)
proof (induction word v rule: shortest_cover.induct)
  case (3 x word y v)
  have "\<not> subseq (x # word) (y # v)" if "less_fn x y"
  proof
    assume "subseq (x # word) (y # v)"
    then have "x \<in> set (y # v)" by (rule list_emb_set[where x = x]) auto
    moreover have "\<forall>z \<in> set (y # v). less_fn x z" using 3(2) that assms(2) by (auto dest: transpD)
    ultimately show False using assms(1) by (auto dest: irreflpD)
  qed
  then show ?case using 3 by (auto simp: subseq_Cons2_iff)
qed auto

lemma words_of_Node:
  assumes "map_ok ch"
  shows "(\<exists>v. getWordInNode (Node ch x) v = Some d \<and> P v) \<longleftrightarrow>
    x = Some d \<and> P [] \<or> (\<exists>p \<in> set ch. \<exists>v. getWordInNode (snd p) v = Some d \<and> P (fst p # v))"
proof -
  have "(\<exists>v. getWordInNode (Node ch x) v = Some d \<and> P v) \<longleftrightarrow>
      x = Some d \<and> P [] \<or> (\<exists>a v. getWordInNode (Node ch x) (a # v) = Some d \<and> P (a # v))"
    by (metis getWordInNode.simps(1) list.exhaust trieNode.sel(2))
  moreover have "getWordInNode (Node ch x) (a # v) = Some d \<longleftrightarrow> (\<exists>c. (a, c) \<in> set ch \<and> getWordInNode c v = Some d)" for a v
    using map_ok_mem[OF assms, of a] by (auto split: option.splits)
  ultimately show ?thesis by force
qed

lemma supersets_list_set:
  "trie_ok node \<Longrightarrow> (w, d) \<in> set (supersets_list less_fn node word pre) \<longleftrightarrow>
     (\<exists>v. getWordInNode node v = Some d \<and> matched less_fn word v \<and> w = pre @ shortest_cover word v)"
proof (induction less_fn node word pre rule: supersets_list.induct)
  case (1 less_fn ch x pre)
  have ok: "map_ok ch" "\<And>p. p \<in> set ch \<Longrightarrow> trie_ok (snd p)" using "1.prems" by auto
  have kids: "(w, d) \<in> set (supersets_list less_fn (snd p) [] pre) \<longleftrightarrow> (\<exists>v. getWordInNode (snd p) v = Some d \<and> w = pre)" if "p \<in> set ch" for p
    using "1.IH"[OF that ok(2)[OF that]] by simp
  have "(w, d) \<in> set (supersets_list less_fn (Node ch x) [] pre) \<longleftrightarrow>
      x = Some d \<and> w = pre \<or> (\<exists>p \<in> set ch. (w, d) \<in> set (supersets_list less_fn (snd p) [] pre))"
    by (auto split: option.splits)
  then show ?case using kids words_of_Node[OF ok(1), of x d "\<lambda>v. w = pre"] by (simp del: supersets_list.simps)
next
  case (2 less_fn ch x0 x word pre)
  have ok: "map_ok ch" "\<And>p. p \<in> set ch \<Longrightarrow> trie_ok (snd p)" using "2.prems" by auto
  have kids: "(w, d) \<in> set (supersets_list less_fn (snd p) (if fst p = x then word else x # word) (pre @ [fst p])) \<longleftrightarrow>
      (\<exists>v. getWordInNode (snd p) v = Some d \<and> matched less_fn (if fst p = x then word else x # word) v
        \<and> w = pre @ shortest_cover (x # word) (fst p # v))" if "p \<in> set ch" "\<not> less_fn x (fst p)" for p
    using "2.IH"[OF that ok(2)[OF that(1)]] by simp
  have "(w, d) \<in> set (supersets_list less_fn (Node ch x0) (x # word) pre) \<longleftrightarrow>
      (\<exists>p \<in> set ch. \<not> less_fn x (fst p) \<and> (w, d) \<in> set (supersets_list less_fn (snd p) (if fst p = x then word else x # word) (pre @ [fst p])))"
    by (auto split: if_splits)
  also have "\<dots> \<longleftrightarrow> (\<exists>p \<in> set ch. \<exists>v. getWordInNode (snd p) v = Some d \<and> matched less_fn (x # word) (fst p # v)
        \<and> w = pre @ shortest_cover (x # word) (fst p # v))"
  proof (intro bex_cong refl)
    fix p assume p: "p \<in> set ch"
    show "(\<not> less_fn x (fst p) \<and> (w, d) \<in> set (supersets_list less_fn (snd p) (if fst p = x then word else x # word) (pre @ [fst p]))) \<longleftrightarrow>
      (\<exists>v. getWordInNode (snd p) v = Some d \<and> matched less_fn (x # word) (fst p # v) \<and> w = pre @ shortest_cover (x # word) (fst p # v))"
      unfolding matched.simps(3) using kids[OF p] by blast
  qed
  also have "\<dots> \<longleftrightarrow> (\<exists>v. getWordInNode (Node ch x0) v = Some d \<and> matched less_fn (x # word) v \<and> w = pre @ shortest_cover (x # word) v)"
    using words_of_Node[OF ok(1), of x0 d "\<lambda>v. matched less_fn (x # word) v \<and> w = pre @ shortest_cover (x # word) v"] by simp
  finally show ?case .
qed

text \<open>In a trie of sorted words the query yields the data of every stored word that has all letters of
  the query, and no other data. The word that comes with the data is not the stored word but its prefix up
  to the last letter of the query, since the loop over the children below that letter does not extend the
  prefix; in particular a query for the empty word reports every stored word as empty.\<close>

theorem Supersets_yields:
  assumes "irreflp less_fn" "transp less_fn" "trie_ok (root trie)"
    and "\<And>v. trie_Get trie v \<noteq> None \<Longrightarrow> sorted_wrt less_fn v"
  shows "set (iter_CollectSlice (trie_Supersets less_fn trie word)) =
      {(shortest_cover word v, d) | v d. trie_Get trie v = Some d \<and> subseq word v}"
    and "set (iter_CollectSlice (trie_Supersets less_fn trie [])) = {([], d) | v d. trie_Get trie v = Some d}"
proof -
  have "set (iter_CollectSlice (trie_Supersets less_fn trie word)) =
      {(shortest_cover word v, d) | v d. trie_Get trie v = Some d \<and> subseq word v}" for word
  proof -
    have "matched less_fn word v \<longleftrightarrow> subseq word v" if "getWordInNode (root trie) v = Some d" for v d
      by (rule matched_subseq[OF assms(1,2)]) (use assms(4)[of v] that in \<open>simp add: trie_Get_def\<close>)
    then have "(w, d) \<in> set (supersets_list less_fn (root trie) word []) \<longleftrightarrow>
        (\<exists>v. getWordInNode (root trie) v = Some d \<and> subseq word v \<and> w = shortest_cover word v)" for w d
      unfolding supersets_list_set[OF assms(3)] append_Nil by blast
    then show ?thesis unfolding trie_Supersets_list iter_CollectSlice_list trie_Get_def by force
  qed
  from this[of word] this[of "[]"]
  show "set (iter_CollectSlice (trie_Supersets less_fn trie word)) =
      {(shortest_cover word v, d) | v d. trie_Get trie v = Some d \<and> subseq word v}"
    and "set (iter_CollectSlice (trie_Supersets less_fn trie [])) = {([], d) | v d. trie_Get trie v = Some d}"
    by simp_all
qed

text \<open>The theorem at a trie with one word of two letters: it is reported with the first letter.\<close>

theorem Supersets_yields_witness:
  "([1], True) \<in> set (iter_CollectSlice (trie_Supersets (<) (fst (CreateOrUpdate trie_New [1::nat, 3] (\<lambda>s. (True, s)) Pair ())) [1]))"
proof -
  let ?t = "fst (CreateOrUpdate trie_New [1::nat, 3] (\<lambda>s. (True, s)) Pair ())"
  have get: "trie_Get ?t v = (if v = [1, 3] then Some True else None)" for v
    unfolding CreateOrUpdate_get(1) by (simp add: trie_Get_def trie_New_def)
  have "trie_ok (root ?t)" by (rule trie_ok_edit) (simp add: trie_New_def)
  then have eq: "set (iter_CollectSlice (trie_Supersets (<) ?t [1])) = {(shortest_cover [1] v, d) | v d. trie_Get ?t v = Some d \<and> subseq [1] v}"
    by (intro Supersets_yields(1)) (simp_all add: irreflp_def transp_def get del: One_nat_def split: if_splits)
  have "trie_Get ?t [1, 3] = Some True" "subseq [1] [1::nat, 3]" "shortest_cover [1] [1::nat, 3] = [1]"
    by (simp_all add: get del: One_nat_def)
  then have "\<exists>v d. ([1], True) = (shortest_cover [1] v, d) \<and> trie_Get ?t v = Some d \<and> subseq [1] v"
    by (intro exI[of _ "[1, 3]"] exI[of _ True] conjI) (simp_all only:)
  then show ?thesis unfolding eq mem_Collect_eq .
qed

end
