(* ===== verification/UniqueCounter.thy ===== *)
theory UniqueCounter
  imports Metrics Flags
begin

text \<open>
  Counters of distinct values, \<open>util/o11y/metrics/unique/unique.go\<close>: one sketch per combination of
  tags, reported to a gauge and emptied at every flush. The sketch of the hyperloglog library is a
  parameter: the empty sketch, insertion and the estimate.
\<close>

record ('h) SketchOps =
  New16 :: 'h
  sk_Insert :: "string \<Rightarrow> 'h \<Rightarrow> 'h"
  Estimate :: "'h \<Rightarrow> nat"

text \<open>A counter has its sketch and the label values of its gauge.\<close>

record 'h counter =
  hll :: 'h
  gauge :: "string list"

type_synonym 'h counterVec = "(string, 'h counter) gomap"

definition NewCounterVec :: "'h counterVec" where "NewCounterVec = []"

definition observe :: "'h SketchOps \<Rightarrow> string \<Rightarrow> 'h counter \<Rightarrow> 'h counter" where
  "observe ops value c = c\<lparr>hll := sk_Insert ops value (hll c)\<rparr>"

definition reportAndReset :: "'h SketchOps \<Rightarrow> 'h counter \<Rightarrow> nat \<times> 'h counter" where
  "reportAndReset ops c = (Estimate ops (hll c), c\<lparr>hll := New16 ops\<rparr>)"

definition unique_Emit :: "'h SketchOps \<Rightarrow> string list \<Rightarrow> string \<Rightarrow> 'h counterVec \<Rightarrow> 'h counterVec" where
  "unique_Emit ops tags value counters =
     (let key = strings_Join tags ''|'';
          c = (case map_of counters key of Some c \<Rightarrow> c | None \<Rightarrow> \<lparr>hll = New16 ops, gauge = tags\<rparr>)
      in map_put key (observe ops value c) counters)"

text \<open>The values set on the gauges, by their label values.\<close>

fun unique_Flush :: "'h SketchOps \<Rightarrow> 'h counterVec \<Rightarrow> (string list \<times> nat) list \<times> 'h counterVec" where
  "unique_Flush ops [] = ([], [])"
| "unique_Flush ops ((key, c) # counters) =
     (case reportAndReset ops c of (estimate, c') \<Rightarrow>
        (case unique_Flush ops counters of (sets, counters') \<Rightarrow> ((gauge c, estimate) # sets, (key, c') # counters')))"

definition unique_Emits :: "'h SketchOps \<Rightarrow> (string list \<times> string) list \<Rightarrow> 'h counterVec \<Rightarrow> 'h counterVec" where
  "unique_Emits ops es counters = fold (\<lambda>(tags, value). unique_Emit ops tags value) es counters"

section \<open>What is reported\<close>

definition sketch_of :: "'h SketchOps \<Rightarrow> string list \<Rightarrow> 'h" where
  "sketch_of ops values = fold (sk_Insert ops) values (New16 ops)"

abbreviation values_at :: "string \<Rightarrow> (string list \<times> string) list \<Rightarrow> string list" where
  "values_at key es \<equiv> map snd (filter (\<lambda>(tags, value). strings_Join tags ''|'' = key) es)"

text \<open>The counter of a key holds the values that have come since the last flush, whatever tags joined to
  the key.\<close>

definition counters_ok :: "'h SketchOps \<Rightarrow> (string list \<times> string) list \<Rightarrow> 'h counterVec \<Rightarrow> bool" where
  "counters_ok ops es counters \<longleftrightarrow> map_ok counters
     \<and> (\<forall>key c. map_of counters key = Some c \<longrightarrow> hll c = sketch_of ops (values_at key es) \<and> strings_Join (gauge c) ''|'' = key)
     \<and> (\<forall>key. map_of counters key = None \<longrightarrow> values_at key es = [])"

lemma counters_ok_new: "counters_ok ops [] NewCounterVec"
  by (simp add: counters_ok_def NewCounterVec_def map_ok_def)

lemma counters_ok_emit:
  assumes "counters_ok ops es counters"
  shows "counters_ok ops (es @ [(tags, value)]) (unique_Emit ops tags value counters)"
  using assms by (auto simp: counters_ok_def unique_Emit_def Let_def observe_def sketch_of_def split: option.splits if_splits)

lemma counters_ok_emits:
  "counters_ok ops es counters \<Longrightarrow> counters_ok ops (es @ es') (unique_Emits ops es' counters)"
proof (induction es' arbitrary: es counters)
  case (Cons e es')
  obtain tags v where e: "e = (tags, v)" by force
  show ?case using Cons.IH[OF counters_ok_emit[OF Cons.prems, of tags v]] by (simp add: unique_Emits_def e)
qed (simp add: unique_Emits_def)

lemma unique_Flush_map:
  "unique_Flush ops counters = (map (\<lambda>(key, c). (gauge c, Estimate ops (hll c))) counters, map (\<lambda>(key, c). (key, c\<lparr>hll := New16 ops\<rparr>)) counters)"
  by (induction counters) (auto simp: reportAndReset_def split: prod.splits)

lemma counters_ok_flush:
  assumes "counters_ok ops es counters"
  shows "counters_ok ops [] (snd (unique_Flush ops counters))"
proof -
  have "map_of (map (\<lambda>(key, c). (key, c\<lparr>hll := New16 ops\<rparr>)) counters) key = map_option (\<lambda>c. c\<lparr>hll := New16 ops\<rparr>) (map_of counters key)" for key
    by (induction counters) auto
  moreover have "map_ok (map (\<lambda>(key, c). (key, c\<lparr>hll := New16 ops\<rparr>)) counters)"
    using assms by (simp add: counters_ok_def map_ok_def comp_def split_beta)
  ultimately show ?thesis using assms by (auto simp: counters_ok_def unique_Flush_map sketch_of_def)
qed

lemma strings_Join_inj:
  assumes "sep \<notin> \<Union> (set ` set xs)" "sep \<notin> \<Union> (set ` set ys)" "xs \<noteq> []" "ys \<noteq> []" "strings_Join xs [sep] = strings_Join ys [sep]"
  shows "xs = ys"
proof -
  have "strings_Split (strings_Join zs [sep]) sep = zs" if "sep \<notin> \<Union> (set ` set zs)" "zs \<noteq> []" for zs
    using that
  proof (induction zs)
    case (Cons z zs)
    then show ?case by (cases "zs = []") (auto simp: strings_Join_Cons strings_Split_append strings_Split_word)
  qed simp
  then show ?thesis using assms by metis
qed

text \<open>A flush reports to each gauge the estimate of the values emitted since the flush before. When no
  tag contains the separator of the key, these are the values emitted with the labels of the gauge and no
  others.\<close>

theorem unique_counts_own:
  assumes "counters_ok ops [] counters" "unique_Flush ops (unique_Emits ops es counters) = (sets, counters')"
    and "\<And>tags. tags \<in> fst ` set es \<union> gauge ` snd ` set (unique_Emits ops es counters) \<Longrightarrow> tags \<noteq> [] \<and> CHR ''|'' \<notin> \<Union> (set ` set tags)"
  shows "(labels, n) \<in> set sets \<Longrightarrow> n = Estimate ops (sketch_of ops (map snd (filter (\<lambda>(tags, value). tags = labels) es)))"
    and "labels \<in> fst ` set es \<Longrightarrow> \<exists>n. (labels, n) \<in> set sets"
    and "counters_ok ops [] counters'"
proof -
  let ?cs = "unique_Emits ops es counters"
  have ok: "counters_ok ops es ?cs" using counters_ok_emits[OF assms(1), of es] by simp
  note h = ok[unfolded counters_ok_def]
  have sets: "sets = map (\<lambda>(key, c). (gauge c, Estimate ops (hll c))) ?cs" using assms(2) by (simp add: unique_Flush_map)
  have entry: "map_of ?cs key = Some c \<longleftrightarrow> (key, c) \<in> set ?cs" for key c using h by (simp add: map_ok_mem)
  have same: "strings_Join tags ''|'' = strings_Join (gauge c) ''|'' \<longleftrightarrow> tags = gauge c"
    if "tags \<in> fst ` set es" "(key, c) \<in> set ?cs" for tags key c
  proof -
    have "gauge c \<in> gauge ` snd ` set ?cs" using that(2) by force
    then show ?thesis using strings_Join_inj[of "CHR ''|''" tags "gauge c"] assms(3)[of tags] assms(3)[of "gauge c"] that(1) by blast
  qed
  show "n = Estimate ops (sketch_of ops (map snd (filter (\<lambda>(tags, value). tags = labels) es)))" if reported: "(labels, n) \<in> set sets"
  proof -
    obtain key c where c: "(key, c) \<in> set ?cs" "labels = gauge c" "n = Estimate ops (hll c)" using reported by (auto simp: sets)
    then have "hll c = sketch_of ops (values_at key es)" "strings_Join (gauge c) ''|'' = key" using h entry by blast+
    moreover have "filter (\<lambda>(tags, value). strings_Join tags ''|'' = strings_Join (gauge c) ''|'') es = filter (\<lambda>(tags, value). tags = gauge c) es"
      using same[OF _ c(1)] by (intro filter_cong) force+
    ultimately show ?thesis using c by auto
  qed
  show "\<exists>n. (labels, n) \<in> set sets" if "labels \<in> fst ` set es"
  proof -
    have "values_at (strings_Join labels ''|'') es \<noteq> []" using that by (force simp: filter_empty_conv)
    then obtain c where c: "map_of ?cs (strings_Join labels ''|'') = Some c" using h by fastforce
    then have "strings_Join (gauge c) ''|'' = strings_Join labels ''|''" using h by blast
    then have "gauge c = labels" using same[OF that] c entry by metis
    then show ?thesis using c entry by (force simp: sets)
  qed
  show "counters_ok ops [] counters'" using counters_ok_flush[OF ok] assms(2) by simp
qed

text \<open>A separator in a tag merges counters: the values of two combinations of tags are reported as one,
  under the labels that came first.\<close>

lemma unique_counts_merge:
  "unique_Flush ops (unique_Emits ops [([''a|b'', ''c''], ''x''), ([''a'', ''b|c''], ''y'')] NewCounterVec) =
     ([([''a|b'', ''c''], Estimate ops (sketch_of ops [''x'', ''y'']))], [(''a|b|c'', \<lparr>hll = New16 ops, gauge = [''a|b'', ''c'']\<rparr>)])"
  by (simp add: unique_Emits_def unique_Emit_def NewCounterVec_def Let_def observe_def reportAndReset_def sketch_of_def)

end
