(* ===== verification/SourceWatch.thy ===== *)
theory SourceWatch
  imports PprInformer Election
begin

text \<open>
  The start of the indexed PodProtector informer (\<open>util/podprotector/multi_informer.go\<close>): its
  goroutine waits for the election when it is tied to one, then applies every list of sources that the
  source provider sends, and its health check.
\<close>

section \<open>The goroutine and the health check\<close>

text \<open>The error of an update is reported to an observer only; the loop goes on.\<close>

definition updateSourceList :: "(string, SourceDesc) gomap \<Rightarrow> 'h informerState \<Rightarrow> go_error option \<times> 'h informerState" where
  "updateSourceList cellList state = (case tryUpdateSourceList cellList state of (err, state') \<Rightarrow> (err, state'))"

text \<open>The lists that arrive before the context is done, with the errors reported for them.\<close>

fun watch_loop :: "(string, SourceDesc) gomap list \<Rightarrow> 'h informerState \<Rightarrow> go_error option list \<times> 'h informerState" where
  "watch_loop [] state = ([], state)"
| "watch_loop (initialMap # updates) state =
     (case updateSourceList initialMap state of (err, state') \<Rightarrow>
        (case watch_loop updates state' of (errs, state'') \<Rightarrow> (err # errs, state'')))"

text \<open>The last two arguments are the flag \<open>started\<close> and the state afterwards. A goroutine tied to
  an election may be found waiting for it.\<close>

inductive watch_goroutine :: "ElectorState option \<Rightarrow> bool \<Rightarrow> (string, SourceDesc) gomap list \<Rightarrow> 'h informerState \<Rightarrow> bool \<Rightarrow> 'h informerState \<Rightarrow> bool" where
  always: "watch_loop updates state = (errs, state') \<Longrightarrow> watch_goroutine None ctxDone updates state True state'"
| elected: "Await el ctxDone AwaitContext \<Longrightarrow> watch_loop updates state = (errs, state') \<Longrightarrow>
    watch_goroutine (Some el) ctxDone updates state True state'"
| waiting: "watch_goroutine (Some el) ctxDone updates state False state"
| failed: "Await el ctxDone (AwaitError err) \<Longrightarrow> watch_goroutine (Some el) ctxDone updates state False state"

definition informers_synced_check :: "bool \<Rightarrow> 'h informerState \<Rightarrow> go_error option" where
  "informers_synced_check hasStarted state =
     (if \<not> hasStarted then None
      else if \<not> HasSynced state then Some (TagErrorf ''InformersNotSynced'' ''some informers have not synced yet'')
      else None)"

section \<open>Properties\<close>

text \<open>The sources that the last successful update named.\<close>

definition last_applied :: "string list \<Rightarrow> (go_error option \<times> (string, SourceDesc) gomap) list \<Rightarrow> string list" where
  "last_applied names reports = fold (\<lambda>(err, descs) names. if err = None then map fst descs else names) reports names"

lemma watch_loop_sources:
  assumes "watch_loop updates state = (errs, state')" "inf_ok state" "list_all map_ok updates"
  shows "length errs = length updates \<and> inf_ok state'
    \<and> map fst (deref_sources state') = last_applied (map fst (deref_sources state)) (zip errs updates)
    \<and> (inf_sources state' = None \<longleftrightarrow> inf_sources state = None \<and> None \<notin> set errs)"
  using assms
proof (induction updates arbitrary: state errs)
  case (Cons descs updates)
  obtain err state1 errs1 where one: "tryUpdateSourceList descs state = (err, state1)"
    and rest: "watch_loop updates state1 = (errs1, state')" "errs = err # errs1"
    using Cons.prems(1) by (auto simp: updateSourceList_def split: prod.splits)
  have descs: "map_ok descs" "list_all map_ok updates" using Cons.prems(3) by simp_all
  show ?case
  proof (cases err)
    case None
    note ok = update_success[OF Cons.prems(2) descs(1) one[unfolded None]]
    show ?thesis using Cons.IH[OF rest(1) ok(5) descs(2)] ok(1,2) rest(2) None by (auto simp: last_applied_def)
  next
    case (Some e)
    have ok: "inf_sources state1 = inf_sources state" "inf_ok state1"
      using update_failure[OF Cons.prems(2) one[unfolded Some]] by simp_all
    then show ?thesis using Cons.IH[OF rest(1) ok(2) descs(2)] rest(2) Some by (simp add: last_applied_def deref_sources_def)
  qed
qed (simp add: last_applied_def)

text \<open>The informer watches nothing until the process leads, and is healthy while it waits. From then
  on it runs one informer for each source of the last list that could be applied, whatever lists failed
  before or after, and it is not healthy before the first list is applied.\<close>

theorem source_watch_current:
  assumes "watch_goroutine elector_dep ctxDone updates (newInformerState ident) hasStarted (state :: 'a informerState)" "list_all map_ok updates"
  shows "running_ids state = ids (deref_sources state)"
    and "\<not> hasStarted \<Longrightarrow> running_ids state = {} \<and> informers_synced_check hasStarted state = None"
    and "hasStarted \<Longrightarrow> \<exists>errs. length errs = length updates
      \<and> map fst (deref_sources state) = last_applied [] (zip errs updates)
      \<and> (None \<notin> set errs \<longrightarrow> informers_synced_check hasStarted state \<noteq> None)"
    and "elector_dep = Some el \<Longrightarrow> elect_reachable isEnabled scopeCancels el \<Longrightarrow> hasStarted \<Longrightarrow> isEnabled \<Longrightarrow>
      run el \<in> {Leading, LeaseLost, RunReturned}"
proof -
  have loop: "inf_ok state \<and> (\<exists>errs. length errs = length updates \<and> map fst (deref_sources state) = last_applied [] (zip errs updates)
      \<and> (None \<notin> set errs \<longrightarrow> informers_synced_check hasStarted state \<noteq> None))"
    if "watch_loop updates (newInformerState ident) = (errs, state)" hasStarted for errs
  proof -
    have new: "inf_sources (newInformerState ident :: 'a informerState) = None" "deref_sources (newInformerState ident :: 'a informerState) = []"
      by (simp_all add: newInformerState_def deref_sources_def)
    note spec = watch_loop_sources[OF that(1) inf_ok_new assms(2), unfolded new list.map]
    then have "None \<notin> set errs \<longrightarrow> informers_synced_check hasStarted state \<noteq> None"
      using that(2) by (auto simp: informers_synced_check_def HasSynced_def)
    then show ?thesis using spec by blast
  qed
  have new: "inf_ok (newInformerState ident :: 'a informerState)" "running_ids (newInformerState ident :: 'a informerState) = {}"
    by (rule inf_ok_new) (simp add: running_ids_def newInformerState_def)
  have "inf_ok state" using assms(1) loop new(1) by cases auto
  then show "running_ids state = ids (deref_sources state)" by (simp add: inf_ok_def)
  show "running_ids state = {} \<and> informers_synced_check hasStarted state = None" if "\<not> hasStarted"
    using assms(1) that new(2) by cases (auto simp: informers_synced_check_def)
  show "\<exists>errs. length errs = length updates \<and> map fst (deref_sources state) = last_applied [] (zip errs updates)
      \<and> (None \<notin> set errs \<longrightarrow> informers_synced_check hasStarted state \<noteq> None)" if hasStarted
    using assms(1)
  proof cases
    case (always errs)
    then show ?thesis using loop that by blast
  next
    case (elected el errs)
    then show ?thesis using loop that by blast
  qed (use that in simp_all)
  show "run el \<in> {Leading, LeaseLost, RunReturned}"
    if "elector_dep = Some el" "elect_reachable isEnabled scopeCancels el" hasStarted isEnabled
    using assms(1) that(1,3) by cases (use Await_leads[OF that(2) _ that(4)] in auto)
qed

end
