(* ===== verification/ComponentInstance.thy ===== *)
theory ComponentInstance
  imports StartUp
begin

text \<open>
  Which declaration becomes the instance of a name: requests resolve depth first, the first declaration
  of a name becomes its instance, and no later one replaces it.
\<close>

definition inst :: "'d componentMap \<Rightarrow> string \<Rightarrow> 'd option" where
  "inst cm n = (case map_of cm n of Some (Some e) \<Rightarrow> Some (comp e) | _ \<Rightarrow> None)"

definition requests_of :: "('d \<Rightarrow> 'd Decl) \<Rightarrow> 'd \<Rightarrow> 'd \<Rightarrow> bool" where
  "requests_of decl d d' \<longleftrightarrow> d' \<in> set (d_deps (decl d)) \<union> set (d_merge (decl d))"

abbreviation reach :: "('d \<Rightarrow> 'd Decl) \<Rightarrow> 'd \<Rightarrow> 'd \<Rightarrow> bool" where
  "reach decl \<equiv> (requests_of decl)\<^sup>*\<^sup>*"

text \<open>Every dependency of an instance has an instance.\<close>

definition deps_present :: "('d \<Rightarrow> 'd Decl) \<Rightarrow> 'd componentMap \<Rightarrow> bool" where
  "deps_present decl cm \<longleftrightarrow> (\<forall>n x. inst cm n = Some x \<longrightarrow> (\<forall>d \<in> set (d_deps (decl x)). inst cm (d_name (decl d)) \<noteq> None))"

text \<open>What resolving changes: pending names stay pending, instances stay, new ones are among \<open>R\<close>.\<close>

definition grows :: "('d \<Rightarrow> 'd Decl) \<Rightarrow> ('d \<Rightarrow> bool) \<Rightarrow> 'd componentMap \<Rightarrow> 'd componentMap \<Rightarrow> bool" where
  "grows decl R cm cm' \<longleftrightarrow> (\<forall>n. map_of cm n = Some None \<longrightarrow> map_of cm' n = Some None)
     \<and> (\<forall>n x. inst cm n = Some x \<longrightarrow> inst cm' n = Some x)
     \<and> (\<forall>n x. inst cm' n = Some x \<longrightarrow> inst cm n = Some x \<or> R x \<and> d_name (decl x) = n)
     \<and> (deps_present decl cm \<longrightarrow> deps_present decl cm')"

lemma grows_refl: "grows decl R cm cm"
  by (simp add: grows_def)

lemma grows_trans: "grows decl R a b \<Longrightarrow> grows decl R b c \<Longrightarrow> grows decl R a c"
  unfolding grows_def by blast

lemma grows_mono: "grows decl R a b \<Longrightarrow> (\<And>x. R x \<Longrightarrow> R' x) \<Longrightarrow> grows decl R' a b"
  unfolding grows_def by blast

lemma grows_inst: "grows decl R a b \<Longrightarrow> inst a n \<noteq> None \<Longrightarrow> inst b n \<noteq> None"
  unfolding grows_def by blast

text \<open>Counting requests changes no instance.\<close>

lemma inst_counts [simp]: "inst (add_dep m d cm) n = inst cm n" "inst (add_requester m q cm) n = inst cm n"
  by (auto simp: inst_def add_dep_def add_requester_def split: option.splits)

lemma pending_counts [simp]: "map_of (add_dep m d cm) n = Some None \<longleftrightarrow> map_of cm n = Some None"
    "map_of (add_requester m q cm) n = Some None \<longleftrightarrow> map_of cm n = Some None"
  by (auto simp: add_dep_def add_requester_def split: option.splits)

lemma grows_counts: "grows decl R cm (add_dep m d cm)" "grows decl R cm (add_requester m q cm)"
  by (simp_all add: grows_def deps_present_def)

definition resolves :: "('d \<Rightarrow> 'd Decl) \<Rightarrow> 'd \<Rightarrow> 'd componentMap \<Rightarrow> string \<Rightarrow> 'd componentMap \<Rightarrow> bool" where
  "resolves decl d cm n cm' \<longleftrightarrow> n = d_name (decl d) \<and> inst cm' n \<noteq> None \<and> grows decl (reach decl d) cm cm'"

lemma merge_loop_grows:
  assumes "\<And>d cm n cm'. d \<in> set ds \<Longrightarrow> resolve d cm = Ok (n, cm') \<Longrightarrow> resolves decl d cm n cm'"
    and "merge_loop resolve name ds cm = Ok cm'"
  shows "grows decl (\<lambda>x. \<exists>d \<in> set ds. reach decl d x) cm cm'"
  using assms
proof (induction ds arbitrary: cm)
  case (Cons d ds)
  obtain n cm1 where run: "resolve d cm = Ok (n, cm1)" "merge_loop resolve name ds (add_dep name n cm1) = Ok cm'"
    using Cons.prems(2) by (auto simp: bind_outcome_Ok)
  have "resolves decl d cm n cm1" using Cons.prems(1)[OF _ run(1)] by simp
  then have "grows decl (\<lambda>x. \<exists>d \<in> set (d # ds). reach decl d x) cm cm1" by (auto simp: resolves_def intro: grows_mono)
  moreover have "grows decl (\<lambda>x. \<exists>d \<in> set (d # ds). reach decl d x) (add_dep name n cm1) cm'"
    by (rule grows_mono[OF Cons.IH[OF _ run(2)]]) (use Cons.prems(1) in auto)
  ultimately show ?case using grows_trans[OF grows_trans[OF _ grows_counts(1)]] by blast
qed (simp add: grows_refl)

lemma new_loop_grows:
  assumes "\<And>d cm n cm'. d \<in> set ds \<Longrightarrow> resolve d cm = Ok (n, cm') \<Longrightarrow> resolves decl d cm n cm'"
    and "new_loop resolve ds reqs cm = Ok (reqs', cm')"
  shows "grows decl (\<lambda>x. \<exists>d \<in> set ds. reach decl d x) cm cm' \<and> (\<forall>d \<in> set ds. inst cm' (d_name (decl d)) \<noteq> None)"
  using assms
proof (induction ds arbitrary: cm reqs)
  case (Cons d ds)
  obtain n cm1 where run: "resolve d cm = Ok (n, cm1)" "new_loop resolve ds (count_inc n reqs) cm1 = Ok (reqs', cm')"
    using Cons.prems(2) by (auto simp: bind_outcome_Ok)
  have d: "resolves decl d cm n cm1" using Cons.prems(1)[OF _ run(1)] by simp
  have rest: "grows decl (\<lambda>x. \<exists>d \<in> set ds. reach decl d x) cm1 cm'" "\<forall>d \<in> set ds. inst cm' (d_name (decl d)) \<noteq> None"
    using Cons.IH[OF _ run(2)] Cons.prems(1) by auto
  have "grows decl (\<lambda>x. \<exists>d \<in> set (d # ds). reach decl d x) cm cm1"
    using d by (auto simp: resolves_def intro: grows_mono)
  moreover have "grows decl (\<lambda>x. \<exists>d \<in> set (d # ds). reach decl d x) cm1 cm'" by (rule grows_mono[OF rest(1)]) simp
  moreover have "inst cm' (d_name (decl d)) \<noteq> None" using d grows_inst[OF rest(1), of n] unfolding resolves_def by blast
  ultimately show ?case using rest(2) grows_trans by fastforce
qed (simp add: grows_refl)

lemma resolveRequest_resolves:
  "resolveRequest fuel decl requester d cm = Ok (n, cm') \<Longrightarrow> resolves decl d cm n cm'"
proof (induction fuel arbitrary: requester d cm n cm')
  case (Suc fuel)
  let ?n = "d_name (decl d)"
  have loop: "resolves decl d' a m b" if "resolveRequest fuel decl ?n d' a = Ok (m, b)" for d' a m b
    using Suc.IH[OF that] .
  have below: "reach decl d x" if "d' \<in> set (d_deps (decl d)) \<union> set (d_merge (decl d))" "reach decl d' x" for d' x
    using that by (meson converse_rtranclp_into_rtranclp requests_of_def)
  consider (known) prev where "map_of cm ?n = Some (Some prev)" | (fresh) "map_of cm ?n = None"
    using Suc.prems by (auto simp: Let_def split: option.splits)
  then show ?case
  proof cases
    case known
    then obtain cm1 where cm1: "merge_loop (resolveRequest fuel decl ?n) ?n (d_merge (decl d)) cm = Ok cm1"
      and res: "n = ?n" "cm' = add_requester ?n requester cm1"
      using Suc.prems by (auto simp: Let_def bind_outcome_Ok split: if_splits)
    have g: "grows decl (reach decl d) cm cm1"
      by (rule grows_mono[OF merge_loop_grows[OF loop cm1]]) (use below in blast)+
    moreover have "inst cm ?n \<noteq> None" using known by (simp add: inst_def)
    ultimately show ?thesis unfolding resolves_def res using grows_inst[OF g] grows_trans[OF g grows_counts(2)] by simp
  next
    case fresh
    let ?cm0 = "map_put ?n None cm"
    obtain reqs cm1 where cm1: "new_loop (resolveRequest fuel decl ?n) (d_deps (decl d)) [] ?cm0 = Ok (reqs, cm1)"
      and res: "n = ?n" "cm' = map_put ?n (Some \<lparr>comp = d, requesters = [(requester, 1)], deps = reqs\<rparr>) cm1"
      using Suc.prems fresh by (auto simp: Let_def bind_outcome_Ok)
    have cm0: "inst ?cm0 m = inst cm m" for m using fresh by (simp add: inst_def)
    have g: "grows decl (\<lambda>x. \<exists>d' \<in> set (d_deps (decl d)). reach decl d' x) ?cm0 cm1"
      and there: "\<forall>d' \<in> set (d_deps (decl d)). inst cm1 (d_name (decl d')) \<noteq> None"
      using new_loop_grows[OF loop cm1] by blast+
    have pend: "map_of cm1 ?n = Some None" using g by (simp add: grows_def)
    have inst': "inst cm' m = (if m = ?n then Some d else inst cm1 m)" for m by (simp add: res inst_def)
    have keep: "inst cm' m = Some x" if "inst cm m = Some x" for m x
      using that g fresh inst'[of m] cm0 by (auto simp: grows_def inst_def)
    have new: "inst cm m = Some x \<or> reach decl d x \<and> d_name (decl x) = m" if x: "inst cm' m = Some x" for m x
    proof (cases "m = ?n")
      case True
      then show ?thesis using x inst'[of m] by simp
    next
      case False
      then have "inst cm1 m = Some x" using x inst'[of m] by simp
      then have "inst ?cm0 m = Some x \<or> (\<exists>d' \<in> set (d_deps (decl d)). reach decl d' x) \<and> d_name (decl x) = m"
        using g unfolding grows_def by blast
      then show ?thesis using cm0 below by auto
    qed
    have "map_of cm' m = Some None" if "map_of cm m = Some None" for m
      using that g fresh by (auto simp: grows_def res)
    moreover have "deps_present decl cm'" if "deps_present decl cm"
    proof -
      have "deps_present decl cm1" using g that by (simp add: grows_def deps_present_def cm0)
      then show ?thesis using there by (auto simp: deps_present_def inst' split: if_splits)
    qed
    ultimately have "grows decl (reach decl d) cm cm'" unfolding grows_def using keep new by blast
    then show ?thesis by (simp add: resolves_def res(1) inst')
  qed
qed simp

lemma resolve_all_grows:
  "resolve_all fuel decl ds cm = Ok cm' \<Longrightarrow>
     grows decl (\<lambda>x. \<exists>d \<in> set ds. reach decl d x) cm cm' \<and> (\<forall>d \<in> set ds. inst cm' (d_name (decl d)) \<noteq> None)"
proof (induction ds arbitrary: cm)
  case (Cons d ds)
  obtain n cm1 where run: "resolveRequest fuel decl mainRequester d cm = Ok (n, cm1)" "resolve_all fuel decl ds cm1 = Ok cm'"
    using Cons.prems by (auto simp: bind_outcome_Ok)
  have d: "resolves decl d cm n cm1" by (rule resolveRequest_resolves[OF run(1)])
  have rest: "grows decl (\<lambda>x. \<exists>d \<in> set ds. reach decl d x) cm1 cm'" "\<forall>d \<in> set ds. inst cm' (d_name (decl d)) \<noteq> None"
    using Cons.IH[OF run(2)] by blast+
  have "grows decl (\<lambda>x. \<exists>d \<in> set (d # ds). reach decl d x) cm cm1" using d by (auto simp: resolves_def intro: grows_mono)
  moreover have "grows decl (\<lambda>x. \<exists>d \<in> set (d # ds). reach decl d x) cm1 cm'" by (rule grows_mono[OF rest(1)]) simp
  moreover have "inst cm' (d_name (decl d)) \<noteq> None" using d grows_inst[OF rest(1), of n] unfolding resolves_def by blast
  ultimately show ?case using rest(2) grows_trans by fastforce
qed (simp add: grows_refl)

lemma resolve_all_append:
  "resolve_all fuel decl (xs @ ys) cm = bind_outcome (resolve_all fuel decl xs cm) (resolve_all fuel decl ys)"
proof (induction xs arbitrary: cm)
  case (Cons x xs)
  then show ?case by (cases "resolveRequest fuel decl mainRequester x cm") auto
qed simp

text \<open>The instances that a resolved process has are those that the requests reach, with the instances
  of all their dependencies, and an instance that a prefix of the requests makes stays.\<close>

theorem ResolveList_instances:
  assumes "ranked r decl" "r mainRequester \<le> fuel"
  shows "\<exists>cs cm1. ResolveList fuel decl (xs @ ys) = Ok cs \<and> resolve_all fuel decl xs [] = Ok cm1 \<and> deps_present decl cm1
    \<and> (\<forall>d \<in> set xs. inst cm1 (d_name (decl d)) \<noteq> None)
    \<and> (\<forall>n x. inst cm1 n = Some x \<longrightarrow> (\<exists>d \<in> set xs. reach decl d x) \<and> d_name (decl x) = n
         \<and> (\<exists>c \<in> set cs. nc_name c = n \<and> Comp c = x))
    \<and> (\<forall>c \<in> set cs. \<exists>d \<in> set (xs @ ys). reach decl d (Comp c))"
proof -
  obtain cm1 where cm1: "resolve_all fuel decl xs [] = Ok cm1" "consistent decl r cm1"
    using resolve_all_ok[OF assms(1) consistent_Nil assms(2)] by blast
  obtain cm2 where cm2: "resolve_all fuel decl ys cm1 = Ok cm2" "consistent decl r cm2"
    using resolve_all_ok[OF assms(1) cm1(2) assms(2)] by blast
  have both: "resolve_all fuel decl (xs @ ys) [] = Ok cm2" by (simp add: resolve_all_append cm1(1) cm2(1))
  have "r a < fuel" if a: "a \<in> fst ` set cm2" for a
  proof -
    obtain e where "map_of cm2 a = Some (Some e)" by (rule consistent_key[OF cm2(2) a])
    then have "d_name (decl (comp e)) = a" using cm2(2) by (simp add: consistent_def map_wf_def)
    then show ?thesis using ranked_lower(3)[OF assms(1), of "comp e"] assms(2) by simp
  qed
  then obtain cs where cs: "toposortComponentList fuel cm2 = Ok cs" "topo_inv cm2 \<lparr>pending = [], visited = [], ordered = cs\<rparr>"
    using toposort_ok[OF cm2(2)] by blast
  have g1: "grows decl (\<lambda>x. \<exists>d \<in> set xs. reach decl d x) [] cm1" "\<forall>d \<in> set xs. inst cm1 (d_name (decl d)) \<noteq> None"
    using resolve_all_grows[OF cm1(1)] by blast+
  have present: "deps_present decl cm1" using g1(1) by (simp add: grows_def deps_present_def inst_def)
  have "(\<exists>d \<in> set xs. reach decl d x) \<and> d_name (decl x) = n \<and> (\<exists>c \<in> set cs. nc_name c = n \<and> Comp c = x)"
    if x: "inst cm1 n = Some x" for n x
  proof -
    have "(\<exists>d \<in> set xs. reach decl d x) \<and> d_name (decl x) = n" using g1(1) x by (auto simp: grows_def inst_def)
    moreover have "inst cm2 n = Some x" using resolve_all_grows[OF cm2(1)] x by (simp add: grows_def)
    then obtain e where e: "map_of cm2 n = Some (Some e)" "comp e = x" by (auto simp: inst_def split: option.splits)
    have "n \<in> nc_name ` set cs" using cs(2) e(1) by (auto simp: topo_inv_def dest!: map_of_SomeD intro: rev_image_eqI)
    then obtain c where c: "c \<in> set cs" "nc_name c = n" by blast
    then have "Comp c = x" using cs(2) e by (force simp: topo_inv_def entry_component_def)
    ultimately show ?thesis using c by blast
  qed
  moreover have "\<exists>d \<in> set (xs @ ys). reach decl d (Comp c)" if "c \<in> set cs" for c
  proof -
    have "inst cm2 (nc_name c) = Some (Comp c)" using cs(2) that by (force simp: topo_inv_def inst_def entry_component_def)
    then show ?thesis using resolve_all_grows[OF both] by (auto simp: grows_def inst_def)
  qed
  moreover have "ResolveList fuel decl (xs @ ys) = Ok cs" by (simp add: ResolveList_def both cs(1))
  ultimately show ?thesis using cm1(1) g1(2) present by blast
qed

end
