(* ===== verification/Wiring.thy ===== *)
theory Wiring
  imports Mux ComponentInstance
begin

text \<open>
  The four programs of the repository (\<open>aggregator\<close>, \<open>generator\<close>, \<open>webhook\<close> and
  \<open>allinone\<close>) as what they declare: every component of the program with its name and the requests it
  makes, and the components that each \<open>main.go\<close> requires. The component framework is
  \<open>Component\<close>, \<open>Mux\<close> and \<open>StartUp\<close>.
\<close>

section \<open>The declared components\<close>

datatype cluster = CoreCluster | WorkerCluster | SingleCellCluster

datatype elector_id = AggregatorElector | GeneratorElector

datatype observer_id = WebhookObserver | RetrybatchObserver | WorkerObserver | PprInformerObserver
  | HealthzObserver | ElectorObserver | GeneratorObserver | AggregatorObserver

text \<open>How an observer is declared: requested, or provided by one of its implementations.\<close>

datatype observer_impl = ObserverRequest | LoggingObserver | MetricsObserver

datatype mux_id = SourceProviderMux | RequiresPodNameMux | CellClientMux | SyncTimeMux

datatype mux_impl = CoreOnly | AlwaysRequired | NeverRequired | RequiredByCell
  | NoneClient | SingleClient | MapClient | ClockInterpreter | StatusInterpreter

text \<open>An interface is declared by who requests it or with an implementation; the implementation is a
  component of its own.\<close>

datatype comp_id = PprofServer | PrometheusHttp | MetricsRegistry | KlogArgs | HealthzServer | ShutdownNotifier
  | ObserverComp observer_id observer_impl
  | KubeClient cluster | KubeMetrics | EventRecorder elector_id | LeaderElector elector_id
  | NativeInformers | PodseidonInformers | IndexedInformer "elector_id option"
  | AggregatorWorker | GeneratorWorker | DefaultConfig
  | MuxInterfaceDecl mux_id | MuxImplDecl mux_impl | MuxImplComp mux_impl
  | AggregatorController | UpdateTriggerComp | GeneratorController | DeploymentPlugin | GeneratorMonitor
  | WebhookServer | WebhookHandler

fun cluster_name :: "cluster \<Rightarrow> string" where
  "cluster_name CoreCluster = ''core''"
| "cluster_name WorkerCluster = ''worker''"
| "cluster_name SingleCellCluster = ''webhook-worker-client-provider.single''"

fun elector_name :: "elector_id \<Rightarrow> string" where
  "elector_name AggregatorElector = ''aggregator''"
| "elector_name GeneratorElector = ''generator''"

fun elector_cluster :: "elector_id \<Rightarrow> cluster" where
  "elector_cluster AggregatorElector = WorkerCluster"
| "elector_cluster GeneratorElector = CoreCluster"

fun observer_name :: "observer_id \<Rightarrow> string" where
  "observer_name WebhookObserver = ''webhook''"
| "observer_name RetrybatchObserver = ''retrybatch''"
| "observer_name WorkerObserver = ''worker''"
| "observer_name PprInformerObserver = ''ppr-informer''"
| "observer_name HealthzObserver = ''healthz''"
| "observer_name ElectorObserver = ''elector''"
| "observer_name GeneratorObserver = ''generator''"
| "observer_name AggregatorObserver = ''aggregator''"

fun mux_name :: "mux_id \<Rightarrow> string" where
  "mux_name SourceProviderMux = ''podprotector-source-provider''"
| "mux_name RequiresPodNameMux = ''webhook-requires-pod-name''"
| "mux_name CellClientMux = ''webhook-worker-client-provider''"
| "mux_name SyncTimeMux = ''aggregator-informer-synctime-algorithm''"

fun mux_of :: "mux_impl \<Rightarrow> mux_id" where
  "mux_of CoreOnly = SourceProviderMux"
| "mux_of AlwaysRequired = RequiresPodNameMux"
| "mux_of NeverRequired = RequiresPodNameMux"
| "mux_of RequiredByCell = RequiresPodNameMux"
| "mux_of NoneClient = CellClientMux"
| "mux_of SingleClient = CellClientMux"
| "mux_of MapClient = CellClientMux"
| "mux_of ClockInterpreter = SyncTimeMux"
| "mux_of StatusInterpreter = SyncTimeMux"

fun mux_impl_name :: "mux_impl \<Rightarrow> string" where
  "mux_impl_name CoreOnly = ''core-only''"
| "mux_impl_name AlwaysRequired = ''always''"
| "mux_impl_name NeverRequired = ''never''"
| "mux_impl_name RequiredByCell = ''by-cell''"
| "mux_impl_name NoneClient = ''none''"
| "mux_impl_name SingleClient = ''single''"
| "mux_impl_name MapClient = ''map''"
| "mux_impl_name ClockInterpreter = ''clock''"
| "mux_impl_name StatusInterpreter = ''status''"

fun comp_name :: "comp_id \<Rightarrow> string" where
  "comp_name PprofServer = ''pprof''"
| "comp_name PrometheusHttp = ''prometheus-http''"
| "comp_name MetricsRegistry = ''metrics''"
| "comp_name KlogArgs = ''klog''"
| "comp_name HealthzServer = ''healthz''"
| "comp_name ShutdownNotifier = ''shutdown-notifier''"
| "comp_name (ObserverComp obs _) = ''observer-'' @ observer_name obs"
| "comp_name (KubeClient c) = cluster_name c @ ''-kube''"
| "comp_name KubeMetrics = ''kube-metrics''"
| "comp_name (EventRecorder e) = ''event-recorder-'' @ elector_name e @ ''-leader-election''"
| "comp_name (LeaderElector e) = elector_name e @ ''-leader-elector''"
| "comp_name NativeInformers = ''core-main-native-informers''"
| "comp_name PodseidonInformers = ''core-main-podseidon-informers''"
| "comp_name (IndexedInformer _) = ''podprotector-indexed-informer-''"
| "comp_name AggregatorWorker = ''aggregator-worker''"
| "comp_name GeneratorWorker = ''generator-worker''"
| "comp_name DefaultConfig = ''default-admission-history-config''"
| "comp_name (MuxInterfaceDecl m) = mux_name m"
| "comp_name (MuxImplDecl i) = mux_name (mux_of i)"
| "comp_name (MuxImplComp i) = impl_component (mux_name (mux_of i)) (mux_impl_name i)"
| "comp_name AggregatorController = ''aggregator''"
| "comp_name UpdateTriggerComp = ''update-trigger''"
| "comp_name GeneratorController = ''generator''"
| "comp_name DeploymentPlugin = ''deployment-plugin''"
| "comp_name GeneratorMonitor = ''generator-monitor''"
| "comp_name WebhookServer = ''webhook''"
| "comp_name WebhookHandler = ''webhook-handler''"

text \<open>The requests of an implementation of an observer: the arguments of the logger, or the registry of
  metrics.\<close>

fun observer_deps :: "observer_impl \<Rightarrow> comp_id list" where
  "observer_deps ObserverRequest = []"
| "observer_deps LoggingObserver = [KlogArgs]"
| "observer_deps MetricsObserver = [MetricsRegistry]"

definition core_only_deps :: "comp_id list" where [simp]: "core_only_deps = [KubeClient CoreCluster]"

definition single_client_deps :: "comp_id list" where [simp]: "single_client_deps = [KubeClient SingleCellCluster]"

fun mux_impl_deps :: "mux_impl \<Rightarrow> comp_id list" where
  "mux_impl_deps CoreOnly = core_only_deps"
| "mux_impl_deps SingleClient = single_client_deps"
| "mux_impl_deps _ = []"

text \<open>Requests in the order in which the functions make them.\<close>

definition prometheus_deps :: "comp_id list" where [simp]: "prometheus_deps = [MetricsRegistry]"

definition healthz_deps :: "comp_id list" where [simp]: "healthz_deps = [ObserverComp HealthzObserver ObserverRequest]"

definition client_deps :: "comp_id list" where [simp]: "client_deps = [KubeMetrics]"

definition kube_metrics_deps :: "comp_id list" where [simp]: "kube_metrics_deps = [MetricsRegistry]"

definition event_recorder_deps :: "elector_id \<Rightarrow> comp_id list" where [simp]:
  "event_recorder_deps e = [KubeClient (elector_cluster e)]"

definition elector_deps :: "elector_id \<Rightarrow> comp_id list" where [simp]:
  "elector_deps e = [KubeClient (elector_cluster e), EventRecorder e, ShutdownNotifier, ObserverComp ElectorObserver ObserverRequest]"

definition informers_deps :: "elector_id option \<Rightarrow> cluster \<Rightarrow> comp_id list" where [simp]:
  "informers_deps elector_args c = map LeaderElector (case elector_args of None \<Rightarrow> [] | Some e \<Rightarrow> [e]) @ [KubeClient c]"

definition indexed_informer_deps :: "elector_id option \<Rightarrow> comp_id list" where [simp]:
  "indexed_informer_deps elector_args = [ObserverComp PprInformerObserver ObserverRequest, MuxInterfaceDecl SourceProviderMux]
     @ map LeaderElector (case elector_args of None \<Rightarrow> [] | Some e \<Rightarrow> [e])"

definition worker_deps :: "comp_id list" where [simp]: "worker_deps = [ObserverComp WorkerObserver ObserverRequest]"

definition aggregator_deps :: "comp_id list" where [simp]:
  "aggregator_deps =
     [MuxInterfaceDecl SourceProviderMux, MuxInterfaceDecl SyncTimeMux, KubeClient WorkerCluster, IndexedInformer (Some AggregatorElector),
      ObserverComp AggregatorObserver ObserverRequest, LeaderElector AggregatorElector, AggregatorWorker, DefaultConfig]"

definition trigger_deps :: "comp_id list" where [simp]:
  "trigger_deps = [KubeClient WorkerCluster, LeaderElector AggregatorElector, ObserverComp AggregatorObserver ObserverRequest]"

text \<open>The generator has one type of source, the deployments.\<close>

definition generator_deps :: "comp_id list" where [simp]:
  "generator_deps = [DeploymentPlugin, KubeClient CoreCluster, LeaderElector GeneratorElector, PodseidonInformers,
      ObserverComp GeneratorObserver ObserverRequest, GeneratorWorker]"

definition deployment_deps :: "comp_id list" where [simp]:
  "deployment_deps = [ObserverComp GeneratorObserver ObserverRequest, KubeClient CoreCluster, NativeInformers]"

definition monitor_deps :: "comp_id list" where [simp]:
  "monitor_deps = [ObserverComp GeneratorObserver ObserverRequest, PodseidonInformers]"

definition webhook_deps :: "comp_id list" where [simp]:
  "webhook_deps = [ObserverComp WebhookObserver ObserverRequest, WebhookHandler]"

definition handler_deps :: "comp_id list" where [simp]:
  "handler_deps =
     [MuxInterfaceDecl SourceProviderMux, IndexedInformer None, ObserverComp WebhookObserver ObserverRequest,
      MuxInterfaceDecl RequiresPodNameMux, ObserverComp RetrybatchObserver ObserverRequest, DefaultConfig, MuxInterfaceDecl CellClientMux]"

fun comp_deps :: "comp_id \<Rightarrow> comp_id list" where
  "comp_deps PrometheusHttp = prometheus_deps"
| "comp_deps HealthzServer = healthz_deps"
| "comp_deps (ObserverComp _ impl) = observer_deps impl"
| "comp_deps (KubeClient _) = client_deps"
| "comp_deps KubeMetrics = kube_metrics_deps"
| "comp_deps (EventRecorder e) = event_recorder_deps e"
| "comp_deps (LeaderElector e) = elector_deps e"
| "comp_deps NativeInformers = informers_deps (Some GeneratorElector) CoreCluster"
| "comp_deps PodseidonInformers = informers_deps (Some GeneratorElector) CoreCluster"
| "comp_deps (IndexedInformer e) = indexed_informer_deps e"
| "comp_deps AggregatorWorker = worker_deps"
| "comp_deps GeneratorWorker = worker_deps"
| "comp_deps (MuxImplDecl i) = [MuxImplComp i]"
| "comp_deps (MuxImplComp i) = mux_impl_deps i"
| "comp_deps AggregatorController = aggregator_deps"
| "comp_deps UpdateTriggerComp = trigger_deps"
| "comp_deps GeneratorController = generator_deps"
| "comp_deps DeploymentPlugin = deployment_deps"
| "comp_deps GeneratorMonitor = monitor_deps"
| "comp_deps WebhookServer = webhook_deps"
| "comp_deps WebhookHandler = handler_deps"
| "comp_deps _ = []"

text \<open>Only observers and the implementations of interfaces have a merge function.\<close>

fun comp_merge :: "comp_id \<Rightarrow> comp_id list" where
  "comp_merge (ObserverComp _ impl) = observer_deps impl"
| "comp_merge (MuxImplDecl i) = [MuxImplComp i]"
| "comp_merge _ = []"

text \<open>One number for each Go type: declarations of the same function or type argument share it.\<close>

fun observer_type :: "observer_id \<Rightarrow> nat" where
  "observer_type WebhookObserver = 30"
| "observer_type RetrybatchObserver = 31"
| "observer_type WorkerObserver = 32"
| "observer_type PprInformerObserver = 33"
| "observer_type HealthzObserver = 34"
| "observer_type ElectorObserver = 35"
| "observer_type GeneratorObserver = 36"
| "observer_type AggregatorObserver = 37"

fun mux_type :: "mux_id \<Rightarrow> nat" where
  "mux_type SourceProviderMux = 40"
| "mux_type RequiresPodNameMux = 41"
| "mux_type CellClientMux = 42"
| "mux_type SyncTimeMux = 43"

fun mux_impl_type :: "mux_impl \<Rightarrow> nat" where
  "mux_impl_type CoreOnly = 50"
| "mux_impl_type AlwaysRequired = 51"
| "mux_impl_type NeverRequired = 51"
| "mux_impl_type RequiredByCell = 52"
| "mux_impl_type NoneClient = 53"
| "mux_impl_type SingleClient = 54"
| "mux_impl_type MapClient = 55"
| "mux_impl_type ClockInterpreter = 56"
| "mux_impl_type StatusInterpreter = 57"

fun comp_type :: "comp_id \<Rightarrow> nat" where
  "comp_type PprofServer = 0"
| "comp_type PrometheusHttp = 1"
| "comp_type MetricsRegistry = 2"
| "comp_type KlogArgs = 3"
| "comp_type HealthzServer = 4"
| "comp_type ShutdownNotifier = 5"
| "comp_type (KubeClient _) = 6"
| "comp_type KubeMetrics = 7"
| "comp_type (EventRecorder _) = 8"
| "comp_type (LeaderElector _) = 9"
| "comp_type NativeInformers = 10"
| "comp_type PodseidonInformers = 11"
| "comp_type (IndexedInformer _) = 12"
| "comp_type AggregatorWorker = 13"
| "comp_type GeneratorWorker = 14"
| "comp_type DefaultConfig = 15"
| "comp_type AggregatorController = 16"
| "comp_type UpdateTriggerComp = 17"
| "comp_type GeneratorController = 18"
| "comp_type DeploymentPlugin = 19"
| "comp_type GeneratorMonitor = 20"
| "comp_type WebhookServer = 21"
| "comp_type WebhookHandler = 22"
| "comp_type (ObserverComp obs _) = observer_type obs"
| "comp_type (MuxInterfaceDecl m) = mux_type m"
| "comp_type (MuxImplDecl i) = mux_type (mux_of i)"
| "comp_type (MuxImplComp i) = mux_impl_type i"

definition program :: "comp_id \<Rightarrow> comp_id Decl" where
  "program d = \<lparr>d_name = comp_name d, d_type = comp_type d, d_deps = comp_deps d, d_merge = comp_merge d\<rparr>"

section \<open>The programs\<close>

datatype process = AggregatorProcess | GeneratorProcess | WebhookProcess | AllInOneProcess

abbreviation provide :: "observer_id \<Rightarrow> comp_id list" where
  "provide obs \<equiv> [ObserverComp obs LoggingObserver, ObserverComp obs MetricsObserver]"

definition synctime_DefaultImpls :: "comp_id list" where
  "synctime_DefaultImpls = [MuxImplDecl ClockInterpreter, MuxImplDecl StatusInterpreter]"

definition DefaultRequiresPodNameImpls :: "comp_id list" where
  "DefaultRequiresPodNameImpls = [MuxImplDecl AlwaysRequired, MuxImplDecl NeverRequired, MuxImplDecl RequiredByCell]"

definition cellclient_DefaultImpls :: "comp_id list" where
  "cellclient_DefaultImpls = [MuxImplDecl NoneClient, MuxImplDecl SingleClient, MuxImplDecl MapClient]"

definition aggregator_main :: "comp_id list" where
  "aggregator_main = [PprofServer, PrometheusHttp] @ provide HealthzObserver @ provide WorkerObserver @ provide ElectorObserver
     @ provide AggregatorObserver @ provide PprInformerObserver
     @ [AggregatorController, MuxImplDecl CoreOnly] @ synctime_DefaultImpls @ [UpdateTriggerComp]"

definition generator_main :: "comp_id list" where
  "generator_main = [PprofServer, PrometheusHttp] @ provide HealthzObserver @ provide WorkerObserver @ provide ElectorObserver
     @ provide PprInformerObserver @ provide GeneratorObserver @ [GeneratorController, GeneratorMonitor]"

definition webhook_main :: "comp_id list" where
  "webhook_main = [PprofServer, PrometheusHttp] @ provide HealthzObserver @ provide PprInformerObserver @ provide WebhookObserver
     @ [ObserverComp RetrybatchObserver MetricsObserver, WebhookServer, MuxImplDecl CoreOnly]
     @ DefaultRequiresPodNameImpls @ cellclient_DefaultImpls"

definition allinone_main :: "comp_id list" where
  "allinone_main = [PprofServer, PrometheusHttp] @ provide WorkerObserver @ provide ElectorObserver @ provide PprInformerObserver
     @ provide HealthzObserver @ provide GeneratorObserver @ provide AggregatorObserver @ provide WebhookObserver
     @ [AggregatorController] @ synctime_DefaultImpls @ [UpdateTriggerComp, GeneratorController, GeneratorMonitor, WebhookServer, MuxImplDecl CoreOnly]
     @ DefaultRequiresPodNameImpls @ cellclient_DefaultImpls"

fun main_requests :: "process \<Rightarrow> comp_id list" where
  "main_requests AggregatorProcess = aggregator_main"
| "main_requests GeneratorProcess = generator_main"
| "main_requests WebhookProcess = webhook_main"
| "main_requests AllInOneProcess = allinone_main"

text \<open>What every process requests in addition.\<close>

definition own_requests :: "comp_id list" where "own_requests = [HealthzServer, ShutdownNotifier]"

definition resolve_process :: "nat \<Rightarrow> process \<Rightarrow> comp_id NamedComponent list outcome" where
  "resolve_process fuel p = ResolveList fuel program (main_requests p @ own_requests)"

section \<open>No cycles\<close>

text \<open>The height of a component over those it requests.\<close>

fun comp_rank :: "comp_id \<Rightarrow> nat" where
  "comp_rank (ObserverComp _ _) = 1"
| "comp_rank PrometheusHttp = 1"
| "comp_rank KubeMetrics = 1"
| "comp_rank HealthzServer = 2"
| "comp_rank (KubeClient _) = 2"
| "comp_rank AggregatorWorker = 2"
| "comp_rank GeneratorWorker = 2"
| "comp_rank (EventRecorder _) = 3"
| "comp_rank (MuxImplComp _) = 3"
| "comp_rank (LeaderElector _) = 4"
| "comp_rank (MuxInterfaceDecl _) = 4"
| "comp_rank (MuxImplDecl _) = 4"
| "comp_rank NativeInformers = 5"
| "comp_rank PodseidonInformers = 5"
| "comp_rank (IndexedInformer _) = 5"
| "comp_rank UpdateTriggerComp = 5"
| "comp_rank DeploymentPlugin = 6"
| "comp_rank GeneratorMonitor = 6"
| "comp_rank AggregatorController = 6"
| "comp_rank WebhookHandler = 6"
| "comp_rank GeneratorController = 7"
| "comp_rank WebhookServer = 7"
| "comp_rank _ = 0"

text \<open>The sum of the characters tells the names of the program apart: the table has, for each sum, the
  type and the rank of the declarations of that name.\<close>

definition name_sum :: "string \<Rightarrow> nat" where "name_sum n = sum_list (map of_char n)"

definition name_table :: "(nat \<times> nat \<times> nat) list" where
  "name_table = [
    (551, 0, 0), (1593, 1, 1), (759, 2, 0), (429, 3, 0), (752, 4, 2), (1801, 5, 0), (1668, 30, 1), (1997, 31, 1),
    (1583, 32, 1), (2166, 33, 1), (1669, 34, 1), (1667, 35, 1), (1884, 36, 1), (1976, 37, 1), (893, 6, 2), (1134, 6, 2),
    (4222, 6, 2), (1227, 7, 1), (4111, 8, 3), (4019, 8, 3), (2520, 9, 4), (2428, 9, 4), (2609, 10, 5), (2927, 11, 5),
    (3055, 12, 5), (1770, 13, 2), (1678, 14, 2), (3259, 15, 0), (2939, 40, 4), (2506, 41, 4), (3066, 42, 4),
    (3903, 43, 4), (3905, 50, 3), (3209, 51, 3), (3096, 51, 3), (3232, 52, 3), (3544, 53, 3), (3754, 54, 3),
    (3430, 55, 3), (4473, 56, 3), (4625, 57, 3), (1059, 16, 6), (1444, 17, 5), (967, 18, 7), (1789, 19, 6),
    (1788, 20, 6), (751, 21, 7), (1530, 22, 6)]"

lemma name_table_lookup: "map_of name_table (name_sum (comp_name d)) = Some (comp_type d, comp_rank d)"
proof (cases d)
  case (ObserverComp obs impl)
  then show ?thesis by (cases obs) (simp_all add: name_sum_def name_table_def impl_component_def)
next
  case (KubeClient c)
  then show ?thesis by (cases c) (simp_all add: name_sum_def name_table_def impl_component_def)
next
  case (EventRecorder e)
  then show ?thesis by (cases e) (simp_all add: name_sum_def name_table_def impl_component_def)
next
  case (LeaderElector e)
  then show ?thesis by (cases e) (simp_all add: name_sum_def name_table_def impl_component_def)
next
  case (MuxInterfaceDecl m)
  then show ?thesis by (cases m) (simp_all add: name_sum_def name_table_def impl_component_def)
next
  case (MuxImplDecl i)
  then show ?thesis by (cases i) (simp_all add: name_sum_def name_table_def impl_component_def)
next
  case (MuxImplComp i)
  then show ?thesis by (cases i) (simp_all add: name_sum_def name_table_def impl_component_def)
qed (simp_all add: name_sum_def name_table_def impl_component_def)

definition program_rank :: "string \<Rightarrow> nat" where
  "program_rank n = (if n = mainRequester then 8 else case map_of name_table (name_sum n) of Some (ty, k) \<Rightarrow> k | None \<Rightarrow> 0)"

lemma comp_name_not_main: "comp_name d \<noteq> mainRequester"
proof
  assume "comp_name d = mainRequester"
  then have "map_of name_table (name_sum mainRequester) \<noteq> None" using name_table_lookup[of d] by simp
  then show False by (simp add: name_sum_def name_table_def mainRequester_def)
qed

lemma program_rank_name: "program_rank (comp_name d) = comp_rank d"
  by (simp add: program_rank_def comp_name_not_main name_table_lookup)

lemma comp_rank_less: "comp_rank d < 8"
  by (cases d) simp_all

lemma observer_deps_rank: "d' \<in> set (observer_deps impl) \<Longrightarrow> comp_rank d' = 0"
  by (cases impl) auto

lemma mux_impl_deps_rank: "d' \<in> set (mux_impl_deps i) \<Longrightarrow> comp_rank d' = 2"
  by (cases i) auto

lemma comp_deps_rank: "d' \<in> set (comp_deps d) \<union> set (comp_merge d) \<Longrightarrow> comp_rank d' < comp_rank d"
  by (cases d) (auto dest: observer_deps_rank mux_impl_deps_rank split: option.splits)

lemma comp_type_name: "comp_name d' = comp_name d \<Longrightarrow> comp_type d' = comp_type d"
  using name_table_lookup[of d] name_table_lookup[of d'] by simp

lemma program_rank_main: "program_rank mainRequester = 8"
  by (simp add: program_rank_def)

lemma program_ranked: "ranked program_rank program"
  unfolding ranked_def program_def Decl.select_convs program_rank_name program_rank_main
  by (intro allI conjI ballI impI) (rule comp_rank_less, erule comp_deps_rank, erule comp_type_name)

text \<open>A set of declarations that requests do not leave.\<close>

lemma reach_within:
  assumes "reach program d x" "P d" "\<And>d d'. P d \<Longrightarrow> d' \<in> set (comp_deps d) \<union> set (comp_merge d) \<Longrightarrow> P d'"
  shows "P x"
  using assms(1) by (induction rule: rtranclp_induct) (use assms(2,3) in \<open>auto simp: requests_of_def program_def\<close>)

definition indexed_informer :: string where "indexed_informer = ''podprotector-indexed-informer-''"

lemma type_ranges: "30 \<le> observer_type obs" "40 \<le> mux_type m" "50 \<le> mux_impl_type i"
  by ((cases obs; simp), (cases m; simp), (cases i; simp))

lemma other_type [simp]: "n < 30 \<Longrightarrow> observer_type obs \<noteq> n" "n < 40 \<Longrightarrow> mux_type m \<noteq> n" "n < 50 \<Longrightarrow> mux_impl_type i \<noteq> n"
  using type_ranges(1)[of obs] type_ranges(2)[of m] type_ranges(3)[of i] by linarith+

lemma comp_name_informer: "comp_name d = indexed_informer \<Longrightarrow> \<exists>e. d = IndexedInformer e"
  using comp_type_name[of d "IndexedInformer None"] by (cases d) (simp_all add: indexed_informer_def)

lemma comp_name_server: "comp_name d = comp_name AggregatorController \<Longrightarrow> d = AggregatorController"
    "comp_name d = comp_name WebhookServer \<Longrightarrow> d = WebhookServer"
    "comp_name d = comp_name WebhookHandler \<Longrightarrow> d = WebhookHandler"
  using comp_type_name[of d] by (cases d; fastforce dest: comp_type_name)+

section \<open>Properties\<close>

text \<open>The implementation that \<open>main\<close> declares as the default of its interface.\<close>

fun is_default :: "mux_impl \<Rightarrow> bool" where
  "is_default CoreOnly = True"
| "is_default NeverRequired = True"
| "is_default NoneClient = True"
| "is_default ClockInterpreter = True"
| "is_default _ = False"

fun declared_impl :: "comp_id \<Rightarrow> mux_impl option" where
  "declared_impl (MuxImplDecl i) = Some i"
| "declared_impl _ = None"

definition defaults_for :: "process \<Rightarrow> mux_id \<Rightarrow> mux_impl list" where
  "defaults_for p m = filter (\<lambda>i. mux_of i = m \<and> is_default i) (List.map_filter declared_impl (main_requests p))"

lemmas main_defs = aggregator_main_def generator_main_def webhook_main_def allinone_main_def
  synctime_DefaultImpls_def DefaultRequiresPodNameImpls_def cellclient_DefaultImpls_def own_requests_def

lemma not_mux_type: "observer_type obs \<noteq> mux_type m" "mux_impl_type i \<noteq> mux_type m" "mux_type m \<noteq> 0" "23 \<le> mux_type m"
  by ((cases obs; cases m; simp), (cases i; cases m; simp), (cases m; simp), (cases m; simp))

lemma mux_type_inj: "mux_type m = mux_type m' \<longleftrightarrow> m = m'"
  by (cases m; cases m') simp_all

lemma comp_name_mux: "comp_name d = mux_name m \<Longrightarrow> d = MuxInterfaceDecl m \<or> (\<exists>i. d = MuxImplDecl i \<and> mux_of i = m)"
proof -
  assume "comp_name d = mux_name m"
  then have "comp_type d = mux_type m" using comp_type_name[of d "MuxInterfaceDecl m"] by simp
  then show ?thesis using not_mux_type(4)[of m] by (cases d) (auto simp: not_mux_type mux_type_inj)
qed

text \<open>The generator needs no interface: its requests stay among the components that have nothing to do
  with PodProtector sources.\<close>

fun sourceless :: "comp_id \<Rightarrow> bool" where
  "sourceless (MuxInterfaceDecl m) = False"
| "sourceless (MuxImplDecl i) = False"
| "sourceless (MuxImplComp i) = False"
| "sourceless (IndexedInformer e) = False"
| "sourceless AggregatorController = False"
| "sourceless WebhookHandler = False"
| "sourceless WebhookServer = False"
| "sourceless _ = True"

lemma sourceless_closed: "sourceless d \<Longrightarrow> d' \<in> set (comp_deps d) \<union> set (comp_merge d) \<Longrightarrow> sourceless d'"
proof -
  have obs: "x \<in> set (observer_deps impl) \<Longrightarrow> sourceless x" for x impl by (cases impl) auto
  have impl: "x \<in> set (mux_impl_deps i) \<Longrightarrow> sourceless x" for x i by (cases i) auto
  assume "sourceless d" "d' \<in> set (comp_deps d) \<union> set (comp_merge d)"
  then show ?thesis by (cases d) (auto dest: obs impl)
qed

text \<open>The aggregator has no part of the webhook, whose interfaces it does not provide.\<close>

fun webhookless :: "comp_id \<Rightarrow> bool" where
  "webhookless (MuxInterfaceDecl m) = (m = SourceProviderMux \<or> m = SyncTimeMux)"
| "webhookless (MuxImplDecl i) = (mux_of i = SourceProviderMux \<or> mux_of i = SyncTimeMux)"
| "webhookless (IndexedInformer e) = (e = Some AggregatorElector)"
| "webhookless WebhookHandler = False"
| "webhookless WebhookServer = False"
| "webhookless _ = True"

lemma webhookless_closed: "webhookless d \<Longrightarrow> d' \<in> set (comp_deps d) \<union> set (comp_merge d) \<Longrightarrow> webhookless d'"
proof -
  have obs: "x \<in> set (observer_deps impl) \<Longrightarrow> webhookless x" for x impl by (cases impl) auto
  have impl: "x \<in> set (mux_impl_deps i) \<Longrightarrow> webhookless x" for x i by (cases i) auto
  assume "webhookless d" "d' \<in> set (comp_deps d) \<union> set (comp_merge d)"
  then show ?thesis by (cases d) (auto dest: obs impl)
qed

text \<open>The webhook has no part of the aggregator.\<close>

fun aggregatorless :: "comp_id \<Rightarrow> bool" where
  "aggregatorless (MuxInterfaceDecl m) = (m \<noteq> SyncTimeMux)"
| "aggregatorless (MuxImplDecl i) = (mux_of i \<noteq> SyncTimeMux)"
| "aggregatorless (IndexedInformer e) = (e = None)"
| "aggregatorless AggregatorController = False"
| "aggregatorless _ = True"

lemma aggregatorless_closed: "aggregatorless d \<Longrightarrow> d' \<in> set (comp_deps d) \<union> set (comp_merge d) \<Longrightarrow> aggregatorless d'"
proof -
  have obs: "x \<in> set (observer_deps impl) \<Longrightarrow> aggregatorless x" for x impl by (cases impl) auto
  have impl: "x \<in> set (mux_impl_deps i) \<Longrightarrow> aggregatorless x" for x i by (cases i) auto
  assume "aggregatorless d" "d' \<in> set (comp_deps d) \<union> set (comp_merge d)"
  then show ?thesis by (cases d) (auto dest: obs impl)
qed

lemma reach_mux_default:
  assumes "d \<in> set (main_requests p @ own_requests)" "reach program d x" "comp_name x = mux_name m"
  shows "length (defaults_for p m) = 1"
proof -
  have x: "x = MuxInterfaceDecl m \<or> (\<exists>i. x = MuxImplDecl i \<and> mux_of i = m)" by (rule comp_name_mux[OF assms(3)])
  note within = reach_within[OF assms(2)]
  show ?thesis
  proof (cases p)
    case GeneratorProcess
    have "sourceless d" using assms(1) GeneratorProcess by (auto simp: main_defs)
    then have "sourceless x" by (rule within) (rule sourceless_closed)
    then show ?thesis using x by auto
  next
    case AggregatorProcess
    have "webhookless d" using assms(1) AggregatorProcess by (auto simp: main_defs)
    then have "webhookless x" by (rule within) (rule webhookless_closed)
    then have "m \<in> {SourceProviderMux, SyncTimeMux}" using x by auto
    then show ?thesis using AggregatorProcess by (auto simp: defaults_for_def main_defs List.map_filter_simps)
  next
    case WebhookProcess
    have "aggregatorless d" using assms(1) WebhookProcess by (auto simp: main_defs)
    then have "aggregatorless x" by (rule within) (rule aggregatorless_closed)
    then have "m \<noteq> SyncTimeMux" using x by auto
    then show ?thesis using WebhookProcess by (cases m) (simp_all add: defaults_for_def main_defs List.map_filter_simps)
  next
    case AllInOneProcess
    then show ?thesis by (cases m) (simp_all add: defaults_for_def main_defs List.map_filter_simps)
  qed
qed

text \<open>C24: Each of the four programs resolves its components without panic. It has every component that its
  main function requires, one instance per name, each after all that it depends on; and for every
  interface that one of its components requests the main function declares exactly one default
  implementation, so that registering the flags does not panic either.\<close>

theorem programs_resolve:
  "\<exists>cs. resolve_process 8 p = Ok cs \<and> distinct (map nc_name cs) \<and> deps_first {} cs
     \<and> comp_name ` set (main_requests p @ own_requests) \<subseteq> nc_name ` set cs
     \<and> (\<forall>m. mux_name m \<in> nc_name ` set cs \<longrightarrow> length (defaults_for p m) = 1)"
proof -
  let ?reqs = "main_requests p @ own_requests"
  have fuel: "program_rank mainRequester \<le> 8" by (simp add: program_rank_main)
  obtain cs where cs: "ResolveList 8 program ?reqs = Ok cs" "resolution program_rank cs" "\<forall>c \<in> set cs. d_name (program (Comp c)) = nc_name c"
    "(\<lambda>d. d_name (program d)) ` set ?reqs \<subseteq> nc_name ` set cs"
    using ResolveList_resolution[OF program_ranked fuel, of ?reqs] by blast
  have names: "comp_name ` set ?reqs \<subseteq> nc_name ` set cs" using cs(4) by (simp add: program_def)
  have "length (defaults_for p m) = 1" if m: "mux_name m \<in> nc_name ` set cs" for m
  proof -
    obtain c where c: "c \<in> set cs" "nc_name c = mux_name m" using m by force
    then have "comp_name (Comp c) = mux_name m" using cs(3) by (simp add: program_def)
    moreover obtain d where "d \<in> set ?reqs" "reach program d (Comp c)"
      using ResolveList_instances[OF program_ranked fuel, of ?reqs "[]", unfolded append_Nil2 cs(1) outcome.inject] c(1) by blast
    ultimately show ?thesis using reach_mux_default by blast
  qed
  then show ?thesis using cs names unfolding resolve_process_def resolution_def by blast
qed

text \<open>The theorem for the all-in-one program and the source provider.\<close>

theorem programs_resolve_witness:
  "(\<exists>cs. resolve_process 8 AllInOneProcess = Ok cs \<and> distinct (map nc_name cs)) \<and> length (defaults_for AllInOneProcess SourceProviderMux) = 1"
proof -
  have "comp_name (MuxImplDecl CoreOnly) \<in> comp_name ` set (main_requests AllInOneProcess @ own_requests)"
    by (rule imageI) (simp add: main_defs)
  then show ?thesis using programs_resolve[of AllInOneProcess] by auto
qed

lemma resolved_reach:
  "\<exists>cs. resolve_process 8 p = Ok cs \<and> (\<forall>c \<in> set cs. comp_name (Comp c) = nc_name c
     \<and> (\<exists>d \<in> set (main_requests p @ own_requests). reach program d (Comp c)))"
proof -
  let ?reqs = "main_requests p @ own_requests"
  have fuel: "program_rank mainRequester \<le> 8" by (simp add: program_rank_main)
  obtain cs where cs: "ResolveList 8 program ?reqs = Ok cs" "\<forall>c \<in> set cs. d_name (program (Comp c)) = nc_name c"
    using ResolveList_resolution[OF program_ranked fuel, of ?reqs] by blast
  then show ?thesis
    using ResolveList_instances[OF program_ranked fuel, of ?reqs "[]", unfolded append_Nil2 cs(1) outcome.inject]
    unfolding resolve_process_def by (auto simp: program_def)
qed

lemma resolved_names:
  assumes "resolve_process 8 p = Ok cs"
  shows "distinct (map nc_name cs)" "c \<in> set cs \<Longrightarrow> comp_name (Comp c) = nc_name c"
proof -
  have fuel: "program_rank mainRequester \<le> 8" by (simp add: program_rank_main)
  show "distinct (map nc_name cs)"
    using ResolveList_resolution[OF program_ranked fuel, of "main_requests p @ own_requests"] assms
    by (auto simp: resolution_def resolve_process_def)
  show "comp_name (Comp c) = nc_name c" if "c \<in> set cs"
    using resolved_reach[of p] assms that by auto
qed

text \<open>When the first requests include a component that needs the informer and reach only one
  declaration of it, that declaration is the instance.\<close>

lemma informer_from_prefix:
  assumes "main_requests p @ own_requests = xs @ ys" "AggregatorController \<in> set xs \<or> WebhookServer \<in> set xs"
    and "\<And>d. d \<in> set xs \<Longrightarrow> P d" "\<And>d d'. P d \<Longrightarrow> d' \<in> set (comp_deps d) \<union> set (comp_merge d) \<Longrightarrow> P d'"
    and "\<And>e. P (IndexedInformer e) \<Longrightarrow> e = (if p = WebhookProcess then None else Some AggregatorElector)" "p \<noteq> GeneratorProcess"
  shows "\<exists>cs. resolve_process 8 p = Ok cs
     \<and> (\<forall>c \<in> set cs. nc_name c = indexed_informer \<longrightarrow> Comp c = IndexedInformer (if p = WebhookProcess then None else Some AggregatorElector))
     \<and> (indexed_informer \<in> nc_name ` set cs \<longleftrightarrow> p \<noteq> GeneratorProcess)"
proof -
  have fuel: "program_rank mainRequester \<le> 8" by (simp add: program_rank_main)
  obtain cs cm where cs: "ResolveList 8 program (xs @ ys) = Ok cs" "deps_present program cm"
    and there: "\<forall>d \<in> set xs. inst cm (d_name (program d)) \<noteq> None"
    and from_xs: "\<forall>n x. inst cm n = Some x \<longrightarrow> (\<exists>d \<in> set xs. reach program d x) \<and> d_name (program x) = n \<and> (\<exists>c \<in> set cs. nc_name c = n \<and> Comp c = x)"
    using ResolveList_instances[OF program_ranked fuel, of xs ys] by blast
  have same: "comp_name x = n" if "inst cm n = Some x" for n x using from_xs that by (auto simp: program_def)
  have dep: "inst cm (comp_name d) \<noteq> None" if "inst cm n = Some x" "d \<in> set (comp_deps x)" for n x d
    using cs(2) that by (auto simp: deps_present_def program_def)
  have "inst cm indexed_informer \<noteq> None" using assms(2)
  proof
    assume "AggregatorController \<in> set xs"
    then obtain x where x: "inst cm (comp_name AggregatorController) = Some x" using there by (auto simp: program_def)
    then have "x = AggregatorController" using same comp_name_server(1) by blast
    then show ?thesis using dep[OF x, of "IndexedInformer (Some AggregatorElector)"] by (simp add: indexed_informer_def)
  next
    assume "WebhookServer \<in> set xs"
    then obtain x where x: "inst cm (comp_name WebhookServer) = Some x" using there by (auto simp: program_def)
    then have "x = WebhookServer" using same comp_name_server(2) by blast
    then obtain y where y: "inst cm (comp_name WebhookHandler) = Some y" using dep[OF x, of WebhookHandler] by auto
    then have "y = WebhookHandler" using same comp_name_server(3) by blast
    then show ?thesis using dep[OF y, of "IndexedInformer None"] by (simp add: indexed_informer_def)
  qed
  then obtain x where x: "inst cm indexed_informer = Some x" by blast
  then obtain e d where e: "x = IndexedInformer e" and d: "d \<in> set xs" "reach program d x"
    using comp_name_informer[OF same[OF x]] from_xs by blast
  have "P x" using reach_within[OF d(2), of P] assms(3,4) d(1) by blast
  then have x': "x = IndexedInformer (if p = WebhookProcess then None else Some AggregatorElector)" using assms(5) e by blast
  obtain c where c: "c \<in> set cs" "nc_name c = indexed_informer" "Comp c = x" using from_xs x by blast
  have "distinct (map nc_name cs)"
    using ResolveList_resolution[OF program_ranked fuel, of "xs @ ys"] cs(1) by (auto simp: resolution_def)
  then have only: "\<forall>c' \<in> set cs. nc_name c' = indexed_informer \<longrightarrow> Comp c' = IndexedInformer (if p = WebhookProcess then None else Some AggregatorElector)"
    using c x' by (metis distinct_map inj_onD)
  have "indexed_informer \<in> nc_name ` set cs" using c(1,2) by (metis imageI)
  then show ?thesis unfolding resolve_process_def assms(1) using cs(1) only assms(6) by blast
qed

text \<open>The instance of the PodProtector informer in the programs that have one. The webhook alone has an
  informer that runs at once; the all-in-one program has the aggregator's, which waits for the
  aggregator's election, since both declare the same name and the aggregator comes first.\<close>

lemma informer_instance:
  "\<exists>cs. resolve_process 8 p = Ok cs
     \<and> (\<forall>c \<in> set cs. nc_name c = indexed_informer \<longrightarrow> Comp c = IndexedInformer (if p = WebhookProcess then None else Some AggregatorElector))
     \<and> (indexed_informer \<in> nc_name ` set cs \<longleftrightarrow> p \<noteq> GeneratorProcess)"
proof (cases p)
  case GeneratorProcess
  obtain cs where cs: "resolve_process 8 p = Ok cs" "\<And>c. c \<in> set cs \<Longrightarrow> comp_name (Comp c) = nc_name c \<and> (\<exists>d \<in> set (main_requests p @ own_requests). reach program d (Comp c))"
    using resolved_reach by blast
  have "nc_name c \<noteq> indexed_informer" if c: "c \<in> set cs" for c
  proof
    assume "nc_name c = indexed_informer"
    then obtain e where "Comp c = IndexedInformer e" using comp_name_informer cs(2)[OF c] by metis
    moreover obtain d where "d \<in> set (main_requests p @ own_requests)" "reach program d (Comp c)" using cs(2)[OF c] by blast
    then have "sourceless (Comp c)" using GeneratorProcess
      by (intro reach_within[of d "Comp c" sourceless]) (auto simp: main_defs dest: sourceless_closed)
    ultimately show False by simp
  qed
  then have "\<forall>c \<in> set cs. nc_name c \<noteq> indexed_informer" by blast
  then show ?thesis using cs(1) GeneratorProcess by force
next
  case AggregatorProcess
  show ?thesis
    by (rule informer_from_prefix[where xs = "main_requests p @ own_requests" and ys = "[]" and P = webhookless])
      (use AggregatorProcess in \<open>auto simp: main_defs dest: webhookless_closed\<close>)
next
  case WebhookProcess
  show ?thesis
    by (rule informer_from_prefix[where xs = "main_requests p @ own_requests" and ys = "[]" and P = aggregatorless])
      (use WebhookProcess in \<open>auto simp: main_defs dest: aggregatorless_closed\<close>)
next
  case AllInOneProcess
  show ?thesis
    by (rule informer_from_prefix[where xs = "take 17 allinone_main" and ys = "drop 17 allinone_main @ own_requests" and P = webhookless])
      (use AllInOneProcess in \<open>auto simp: main_defs dest: webhookless_closed\<close>)
qed

end
