(* ===== verification/ProgramFlags.thy ===== *)
theory ProgramFlags
  imports Complex_Main Wiring Flags Apis
begin

text \<open>
  The command line of the four programs: the flags that every declared component adds, with their
  defaults, and the names that they get in the flag set of the program.
\<close>

section \<open>Flags of the components\<close>

text \<open>What comes from libraries: the flags of \<open>klog.InitFlags\<close> after the renaming of underscores, and
  the default rate limits of client-go.\<close>

record library =
  klogFlags :: "string list"
  DefaultQPS :: rat
  DefaultBurst :: int

text \<open>The kind of a flag with its default. An enumeration has its default from the implementations that
  are declared.\<close>

datatype flag_default = StringFlag string | BoolFlag bool | IntFlag int | DurationFlag duration | FloatFlag rat
  | StringsFlag "string list" | MapFlag "(string, string) gomap" | EverythingFlag | EnumFlag | KlogFlag

type_synonym flag_decl = "string \<times> flag_default"

definition newServerOptions :: "string \<Rightarrow> bool \<Rightarrow> string \<Rightarrow> int \<Rightarrow> flag_decl list" where
  "newServerOptions pre defaultEnable defaultBindAddr defaultPort =
     [(pre @ ''enable'', BoolFlag defaultEnable), (pre @ ''bind-addr'', StringFlag defaultBindAddr), (pre @ ''port'', IntFlag defaultPort)]"

definition server_flags :: "int \<Rightarrow> int \<Rightarrow> flag_decl list \<Rightarrow> flag_decl list" where
  "server_flags defaultHttpPort defaultHttpsPort inner =
     newServerOptions [] True ''::1'' defaultHttpPort @ newServerOptions ''https-'' False ''::1'' defaultHttpsPort
     @ [(''https-cert-file'', StringFlag []), (''https-key-file'', StringFlag []), (''read-header-timeout'', DurationFlag (10 * Second))]
     @ inner"

definition NewGlobalClientOptions :: "library \<Rightarrow> flag_decl list" where
  "NewGlobalClientOptions lib =
     [(''impersonate-username'', StringFlag []), (''impersonate-uid'', StringFlag []), (''impersonate-groups'', StringsFlag []),
      (''qps'', FloatFlag (DefaultQPS lib)), (''burst'', IntFlag (DefaultBurst lib)), (''user-agent'', StringFlag ''podseidon'')]"

definition NewClientOptions :: "library \<Rightarrow> flag_decl list" where
  "NewClientOptions lib = [(''config'', StringFlag []), (''master'', StringFlag []), (''target-namespace'', StringFlag [])]
     @ NewGlobalClientOptions lib"

definition newMapOptions :: "library \<Rightarrow> flag_decl list" where
  "newMapOptions lib = NewGlobalClientOptions lib @ [(''configs'', MapFlag []), (''masters'', MapFlag [])]"

definition crit_pair :: "string \<Rightarrow> string \<Rightarrow> string \<Rightarrow> flag_decl list" where
  "crit_pair desc key value =
     [(''health-criterion-'' @ desc @ ''-key'', StringFlag key), (''health-criterion-'' @ desc @ ''-value'', StringFlag value)]"

text \<open>The annotation and its values are constants of \<open>apis\<close>.\<close>

definition critAnnots_flags :: "flag_decl list" where
  "critAnnots_flags = crit_pair ''scheduled'' EvictionAnnotationHealthCriterion ''Scheduled''
     @ crit_pair ''running'' EvictionAnnotationHealthCriterion ''Running'' @ crit_pair ''ready'' EvictionAnnotationHealthCriterion ''Ready''"

definition worker_flags :: "flag_decl list" where
  "worker_flags = [(''concurrency'', IntFlag 1), (''backoff-base'', DurationFlag (100 * Millisecond)),
     (''backoff-max'', DurationFlag (60 * Second)), (''backoff-conflict'', DurationFlag (10 * Millisecond))]"

definition elector_flags :: "elector_id \<Rightarrow> flag_decl list" where
  "elector_flags e = [(''enable'', BoolFlag True), (''namespace'', StringFlag ''default''), (''name'', StringFlag (''podseidon-'' @ elector_name e)),
     (''lease-duration'', DurationFlag (15 * Second)), (''renew-deadline'', DurationFlag (10 * Second)), (''retry-period'', DurationFlag (2 * Second))]"

definition controller_flags :: "flag_decl list" where
  "controller_flags = [(''cell-id'', StringFlag ''default''), (''podprotector-label-selector'', EverythingFlag),
     (''pod-label-selector'', EverythingFlag), (''pod-informer-shards'', IntFlag 1), (''pod-relist-period'', DurationFlag 0),
     (''rate-jitter-low'', FloatFlag (1 / 2)), (''rate-jitter-high'', FloatFlag 1)]"

definition trigger_flags :: "flag_decl list" where
  "trigger_flags = [(''enable'', BoolFlag False), (''update-frequency'', DurationFlag Second), (''dummy-pod-name'', StringFlag ''podseidon-update-trigger''),
     (''dummy-pod-namespace'', StringFlag []), (''dummy-pod-labels'', MapFlag []), (''dummy-pod-annotations'', MapFlag []),
     (''dummy-pod-image'', StringFlag '':''), (''dummy-pod-scheduler'', StringFlag ''do-not-schedule'')]"

definition pprof_flags :: "flag_decl list" where
  "pprof_flags = server_flags 6060 6061 [(''block-profile'', IntFlag 0), (''mutex-profile'', IntFlag 0)]"

definition registry_flags :: "flag_decl list" where
  "registry_flags = [(''sample-frequency'', DurationFlag (30 * Second)), (''by-namespace'', BoolFlag False), (''by-user'', BoolFlag False)]"

definition config_flags :: "flag_decl list" where
  "config_flags = [(''max-concurrent-lag'', IntFlag 0), (''compact-threshold'', IntFlag 100), (''aggregation-rate'', DurationFlag (5 * Second))]"

definition deployment_flags :: "flag_decl list" where
  "deployment_flags = [(''protection-selector'', EverythingFlag), (''protect-non-zero'', BoolFlag False)]"

definition monitor_flags :: "flag_decl list" where
  "monitor_flags = [(''enable'', BoolFlag True)]"

definition webhook_flags :: "flag_decl list" where
  "webhook_flags = server_flags 8080 8843 [(''path-prefix'', StringFlag []), (''dry-run'', BoolFlag False)]"

definition handler_flags :: "flag_decl list" where
  "handler_flags = [(''cold-start-delay'', DurationFlag 0), (''retry-backoff-base'', DurationFlag (100 * Millisecond)),
     (''retry-jitter'', DurationFlag (100 * Millisecond))] @ critAnnots_flags"

fun mux_impl_flags :: "library \<Rightarrow> mux_impl \<Rightarrow> flag_decl list" where
  "mux_impl_flags lib RequiredByCell = [(''filter'', StringsFlag [])]"
| "mux_impl_flags lib MapClient = newMapOptions lib"
| "mux_impl_flags lib _ = []"

fun comp_flags :: "library \<Rightarrow> comp_id \<Rightarrow> flag_decl list" where
  "comp_flags lib PprofServer = pprof_flags"
| "comp_flags lib PrometheusHttp = server_flags 9090 9443 []"
| "comp_flags lib MetricsRegistry = registry_flags"
| "comp_flags lib KlogArgs = map (\<lambda>name. (name, KlogFlag)) (klogFlags lib)"
| "comp_flags lib HealthzServer = server_flags 8081 8444 []"
| "comp_flags lib (KubeClient _) = NewClientOptions lib"
| "comp_flags lib (LeaderElector e) = elector_flags e"
| "comp_flags lib AggregatorWorker = worker_flags"
| "comp_flags lib GeneratorWorker = worker_flags"
| "comp_flags lib DefaultConfig = config_flags"
| "comp_flags lib (MuxInterfaceDecl _) = [(EmptyFlagName, EnumFlag)]"
| "comp_flags lib (MuxImplDecl _) = [(EmptyFlagName, EnumFlag)]"
| "comp_flags lib (MuxImplComp i) = mux_impl_flags lib i"
| "comp_flags lib AggregatorController = controller_flags"
| "comp_flags lib UpdateTriggerComp = trigger_flags"
| "comp_flags lib DeploymentPlugin = deployment_flags"
| "comp_flags lib GeneratorMonitor = monitor_flags"
| "comp_flags lib WebhookServer = webhook_flags"
| "comp_flags lib WebhookHandler = handler_flags"
| "comp_flags lib _ = []"

text \<open>The names in the order in which \<open>AddGoFlag\<close> is called for them.\<close>

definition added_flags :: "library \<Rightarrow> comp_id NamedComponent list \<Rightarrow> string list" where
  "added_flags lib components =
     setupFlags (\<lambda>name names. names @ [name]) (map (\<lambda>c. (nc_name c, map fst (comp_flags lib (Comp c)))) components) []"

section \<open>No two flags have the same name\<close>

definition full_name :: "string \<Rightarrow> string \<Rightarrow> string" where
  "full_name pre fl = (if fl = EmptyFlagName then pre else pre @ ''-'' @ fl)"

lemma AddSubset_names: "AddSubset (\<lambda>name names. names @ [name]) super pre flags = super @ map (full_name pre) (sort flags)"
proof -
  have "AddSubset_loop (\<lambda>name names. names @ [name]) pre fls super = super @ map (full_name pre) fls" for fls super
    by (induction fls arbitrary: super) (simp_all add: full_name_def Let_def)
  then show ?thesis by (simp add: AddSubset_def)
qed

lemma setupFlags_names:
  "setupFlags (\<lambda>name names. names @ [name]) components fs =
     fs @ concat (map (\<lambda>(name, flags). map (full_name name) (sort flags)) components)"
  by (induction "(\<lambda>name names. names @ [name]) :: string \<Rightarrow> string list \<Rightarrow> string list" components fs rule: setupFlags.induct)
    (simp_all add: AddSubset_names)

definition no_library :: library where "no_library = \<lparr>klogFlags = [], DefaultQPS = 0, DefaultBurst = 0\<rparr>"

text \<open>One declaration for each name with flags of its own.\<close>

definition flag_owners :: "comp_id list" where
  "flag_owners = [PprofServer, PrometheusHttp, MetricsRegistry, HealthzServer, KubeClient CoreCluster, KubeClient WorkerCluster,
     KubeClient SingleCellCluster, LeaderElector AggregatorElector, LeaderElector GeneratorElector, AggregatorWorker, GeneratorWorker,
     DefaultConfig, MuxInterfaceDecl SourceProviderMux, MuxInterfaceDecl RequiresPodNameMux, MuxInterfaceDecl CellClientMux,
     MuxInterfaceDecl SyncTimeMux, MuxImplComp RequiredByCell, MuxImplComp MapClient, AggregatorController, UpdateTriggerComp,
     DeploymentPlugin, GeneratorMonitor, WebhookServer, WebhookHandler]"

text \<open>The rest of a string after a given beginning.\<close>

fun strip :: "string \<Rightarrow> string \<Rightarrow> string option" where
  "strip [] ys = Some ys"
| "strip (x # xs) [] = None"
| "strip (x # xs) (y # ys) = (if x = y then strip xs ys else None)"

lemma strip_append [simp]: "strip xs (xs @ ys) = Some ys"
  by (induction xs) simp_all

text \<open>Whether the name of a component, read as a flag of another component, is one of its flags or the
  beginning of one.\<close>

definition clash :: "string \<Rightarrow> string list \<Rightarrow> string \<Rightarrow> bool" where
  "clash pre flags other = (case strip (pre @ ''-'') other of None \<Rightarrow> False | Some r \<Rightarrow> list_ex (\<lambda>fl. strip r fl \<noteq> None) flags)"

lemma full_name_clash:
  assumes "full_name p f = full_name q g" "p \<noteq> q" "f \<in> set fs" "g \<in> set gs"
  shows "clash p fs q \<or> clash q gs p"
proof -
  have hit: "clash p fs q" if "q = p @ ''-'' @ r" "f = r @ s" "f \<in> set fs" for p q r s f fs
    using that strip_append[of "p @ ''-''" r] by (auto simp: clash_def list_ex_iff intro!: bexI[of _ f])
  have both: "\<exists>r. q = p @ ''-'' @ r \<and> f = r @ ''-'' @ g" if "p @ us = q" "''-'' @ f = us @ ''-'' @ g" "p \<noteq> q" for p q f g us :: string
    using that by (cases us) auto
  consider "f = EmptyFlagName" | "g = EmptyFlagName" "f \<noteq> EmptyFlagName" | "f \<noteq> EmptyFlagName" "g \<noteq> EmptyFlagName" by blast
  then show ?thesis
  proof cases
    case 1
    then have "p = q @ ''-'' @ g" using assms(1,2) by (auto simp: full_name_def split: if_splits)
    then show ?thesis using hit[of p q g g "[]" gs] assms(4) by simp
  next
    case 2
    then have "q = p @ ''-'' @ f" using assms(1) by (auto simp: full_name_def)
    then show ?thesis using hit[of q p f f "[]" fs] assms(3) by simp
  next
    case 3
    then have "p @ ''-'' @ f = q @ ''-'' @ g" using assms(1) by (simp add: full_name_def)
    then obtain us where "p = q @ us \<and> us @ ''-'' @ f = ''-'' @ g \<or> p @ us = q \<and> ''-'' @ f = us @ ''-'' @ g"
      unfolding append_eq_append_conv2 by blast
    then show ?thesis
      using both[of p us q f g] both[of q us p g f] hit[of q p _ f _ fs] hit[of p q _ g _ gs] assms(2-4) by metis
  qed
qed

lemma full_name_inj: "full_name p f = full_name p g \<Longrightarrow> f = g"
  by (auto simp: full_name_def split: if_splits)

definition flag_names :: "comp_id \<Rightarrow> string list" where
  "flag_names d = map fst (comp_flags no_library d)"

lemma owners_clash_free:
  "list_all (\<lambda>d. list_all (\<lambda>d'. \<not> clash (comp_name d) (flag_names d) (comp_name d')) (KlogArgs # flag_owners)) flag_owners"
  by code_simp

lemma owners_not_klog: "list_all (\<lambda>d. strip ''klog-'' (comp_name d) = None) (KlogArgs # flag_owners)"
  by code_simp

lemma owners_flags_distinct: "list_all (\<lambda>d. distinct (flag_names d)) flag_owners"
  by code_simp

lemma flags_of_owner:
  "comp_flags lib d = [] \<or> d = KlogArgs
     \<or> (\<exists>r \<in> set flag_owners. comp_name r = comp_name d \<and> flag_names r = map fst (comp_flags lib d))"
proof (cases d)
  case (KubeClient c)
  then show ?thesis by (cases c) (simp_all add: flag_owners_def flag_names_def NewClientOptions_def NewGlobalClientOptions_def)
next
  case (LeaderElector e)
  then show ?thesis by (cases e) (simp_all add: flag_owners_def flag_names_def elector_flags_def)
next
  case (MuxInterfaceDecl m)
  then show ?thesis by (cases m) (simp_all add: flag_owners_def flag_names_def)
next
  case (MuxImplDecl i)
  then show ?thesis by (cases i) (simp_all add: flag_owners_def flag_names_def)
next
  case (MuxImplComp i)
  then show ?thesis by (cases i) (simp_all add: flag_owners_def flag_names_def newMapOptions_def NewGlobalClientOptions_def)
qed (simp_all add: flag_owners_def flag_names_def)

lemma flags_disjoint:
  assumes "comp_name d \<noteq> comp_name d'"
  shows "full_name (comp_name d) ` set (map fst (comp_flags lib d)) \<inter> full_name (comp_name d') ` set (map fst (comp_flags lib d')) = {}"
proof -
  have free: "\<not> clash (comp_name d) (map fst (comp_flags lib d)) (comp_name d')"
    if some: "comp_flags lib d \<noteq> []" "comp_flags lib d' \<noteq> []" for d d'
  proof -
    obtain r' where r': "r' \<in> set (KlogArgs # flag_owners)" "comp_name r' = comp_name d'"
      using flags_of_owner[of lib d'] some(2) by auto
    show ?thesis
    proof (cases "d = KlogArgs")
      case True
      have "strip ''klog-'' (comp_name r') = None" using owners_not_klog r'(1) by (simp only: list_all_iff)
      then show ?thesis using True r'(2) by (simp add: clash_def)
    next
      case False
      then obtain r where r: "r \<in> set flag_owners" "comp_name r = comp_name d" "flag_names r = map fst (comp_flags lib d)"
        using flags_of_owner[of lib d] some(1) by blast
      have "\<not> clash (comp_name r) (flag_names r) (comp_name r')"
        using owners_clash_free[unfolded list_all_iff, rule_format, OF r(1) r'(1)] .
      then show ?thesis unfolding r(2,3) r'(2) .
    qed
  qed
  show ?thesis
  proof (rule ccontr)
    assume "\<not> ?thesis"
    then obtain f g where fg: "f \<in> set (map fst (comp_flags lib d))" "g \<in> set (map fst (comp_flags lib d'))"
      "full_name (comp_name d) f = full_name (comp_name d') g" by (auto simp del: set_map)
    then have "comp_flags lib d \<noteq> []" "comp_flags lib d' \<noteq> []" by auto
    then show False using free full_name_clash[OF fg(3) assms fg(1,2)] by blast
  qed
qed

lemma flags_distinct_one:
  assumes klog: "distinct (klogFlags lib)"
  shows "distinct (map fst (comp_flags lib d))"
proof -
  consider "comp_flags lib d = []" | "d = KlogArgs" | r where "r \<in> set flag_owners" "flag_names r = map fst (comp_flags lib d)"
    using flags_of_owner[of lib d] by blast
  then show ?thesis
  proof cases
    case 2
    then show ?thesis using klog by (simp add: o_def)
  next
    case (3 r)
    then show ?thesis using owners_flags_distinct[unfolded list_all_iff, rule_format, OF 3(1)] by simp
  qed simp
qed

lemma distinct_concat_keys:
  assumes "distinct (map k xs)" "\<And>x. x \<in> set xs \<Longrightarrow> distinct (F x)"
    and "\<And>x y. x \<in> set xs \<Longrightarrow> y \<in> set xs \<Longrightarrow> k x \<noteq> k y \<Longrightarrow> set (F x) \<inter> set (F y) = {}"
  shows "distinct (concat (map F xs))"
  using assms
proof (induction xs)
  case (Cons x xs)
  have "set (F x) \<inter> set (F y) = {}" if "y \<in> set xs" for y
    using Cons.prems(1) Cons.prems(3)[of x y] that by (auto simp: image_iff)
  then show ?case using Cons by auto
qed simp

section \<open>Ports\<close>

text \<open>The default ports of a server.\<close>

definition default_ports :: "library \<Rightarrow> comp_id \<Rightarrow> int list" where
  "default_ports lib d = [port. (name, IntFlag port) \<leftarrow> comp_flags lib d, name \<in> {''port'', ''https-port''}]"

fun server_ports :: "comp_id \<Rightarrow> int list" where
  "server_ports PprofServer = [6060, 6061]"
| "server_ports PrometheusHttp = [9090, 9443]"
| "server_ports HealthzServer = [8081, 8444]"
| "server_ports WebhookServer = [8080, 8843]"
| "server_ports _ = []"

lemmas flag_defs = server_flags_def newServerOptions_def NewClientOptions_def NewGlobalClientOptions_def newMapOptions_def crit_pair_def
  critAnnots_flags_def worker_flags_def elector_flags_def controller_flags_def trigger_flags_def
  pprof_flags_def registry_flags_def config_flags_def deployment_flags_def monitor_flags_def webhook_flags_def handler_flags_def

lemma default_ports_eq: "default_ports lib d = server_ports d"
proof (cases d)
  case KlogArgs
  then show ?thesis by (induction "klogFlags lib") (simp_all add: default_ports_def)
next
  case (MuxImplComp i)
  then show ?thesis by (cases i) (simp_all add: default_ports_def flag_defs)
qed (simp_all add: default_ports_def flag_defs EmptyFlagName_def)

lemma server_ports_disjoint: "d \<noteq> d' \<Longrightarrow> set (server_ports d) \<inter> set (server_ports d') = {}"
  by (cases d; cases d'; simp)

text \<open>C27: The command line of a program has no two flags of one name, and its servers have no two equal
  default ports. \<open>AddGoFlag\<close> is called with distinct names for the components that any of the four
  programs resolves to, whatever flags the logger has, so that no flag hides another; the servers of a
  program can be started together with their defaults.\<close>

theorem program_flags_distinct:
  assumes "distinct (klogFlags lib)" "resolve_process 8 p = Ok cs"
  shows "distinct (added_flags lib cs) \<and> distinct (concat (map (\<lambda>c. default_ports lib (Comp c)) cs))"
proof -
  have names: "distinct (map nc_name cs)" "\<And>c. c \<in> set cs \<Longrightarrow> comp_name (Comp c) = nc_name c"
    using resolved_names[OF assms(2)] by blast+
  have flags: "added_flags lib cs = concat (map (\<lambda>c. map (full_name (nc_name c)) (sort (map fst (comp_flags lib (Comp c))))) cs)"
    by (simp add: added_flags_def setupFlags_names o_def)
  have "distinct (added_flags lib cs)" unfolding flags
  proof (rule distinct_concat_keys[OF names(1)])
    show "distinct (map (full_name (nc_name c)) (sort (map fst (comp_flags lib (Comp c)))))" for c
      using flags_distinct_one[OF assms(1), of "Comp c"] full_name_inj by (auto simp: distinct_map inj_on_def)
    show "set (map (full_name (nc_name c)) (sort (map fst (comp_flags lib (Comp c)))))
        \<inter> set (map (full_name (nc_name c')) (sort (map fst (comp_flags lib (Comp c'))))) = {}"
      if "c \<in> set cs" "c' \<in> set cs" "nc_name c \<noteq> nc_name c'" for c c'
      using flags_disjoint[of "Comp c" "Comp c'" lib] that names(2)[of c] names(2)[of c'] by simp
  qed
  moreover have "distinct (concat (map (\<lambda>c. default_ports lib (Comp c)) cs))"
  proof (rule distinct_concat_keys[OF names(1)])
    show "distinct (default_ports lib (Comp c))" for c by (cases "Comp c") (simp_all add: default_ports_eq)
    show "set (default_ports lib (Comp c)) \<inter> set (default_ports lib (Comp c')) = {}"
      if "c \<in> set cs" "c' \<in> set cs" "nc_name c \<noteq> nc_name c'" for c c'
    proof -
      have "Comp c \<noteq> Comp c'" using that names(2) by metis
      then show ?thesis using server_ports_disjoint by (simp add: default_ports_eq)
    qed
  qed
  ultimately show ?thesis ..
qed

text \<open>The theorem for the all-in-one program and a logger with one flag.\<close>

theorem program_flags_distinct_witness:
  "\<exists>cs. resolve_process 8 AllInOneProcess = Ok cs \<and> distinct (added_flags (no_library\<lparr>klogFlags := [''v'']\<rparr>) cs)"
proof -
  obtain cs where cs: "resolve_process 8 AllInOneProcess = Ok cs" using resolved_reach[of AllInOneProcess] by blast
  have "distinct (klogFlags (no_library\<lparr>klogFlags := [''v'']\<rparr>))" by simp
  from program_flags_distinct[OF this cs] cs show ?thesis by blast
qed

end
