(* ===== verification/EndToEnd.thy ===== *)
theory EndToEnd
  imports Wiring SourceWatch Webhook
begin

text \<open>
  The webhook and the PodProtector informer together, as \<open>webhook/handler/handler.go\<close> connects
  them, and the informer with the election that its instance in a program waits for. The informer does
  not change during the handling of one review.
\<close>

section \<open>The handler over an informer\<close>

definition informer_api :: "(go_error \<Rightarrow> bool) \<Rightarrow> Matchable sorter \<Rightarrow> 'h informerState \<Rightarrow> 'w Api \<Rightarrow> 'w Api" where
  "informer_api IsNotFound srt state api = api\<lparr>informerGet := (\<lambda>key. informer_Get IsNotFound key state),
     informerQuery := (\<lambda>ns labels. case informer_Query srt ns labels state of Returned (keys, _) \<Rightarrow> keys | _ \<Rightarrow> []),
     informerHasSynced := HasSynced state\<rparr>"

abbreviation cell_client :: "(string \<Rightarrow> go_error + 'c) \<Rightarrow> string \<Rightarrow> go_error + 'c" where
  "cell_client clients cellId \<equiv> map_sum (\<lambda>err. TagWrapf ''GetCellClient'' err
      (''cannot retrieve cluster client for cell '' @ sprintf_q cellId)) id (clients cellId)"

text \<open>The dependency of an instance of the informer on an elector.\<close>

fun informer_elector :: "(elector_id \<Rightarrow> ElectorState) \<Rightarrow> comp_id \<Rightarrow> ElectorState option" where
  "informer_elector electors (IndexedInformer e) = map_option electors e"
| "informer_elector electors _ = None"

section \<open>Every matching PodProtector decides\<close>

text \<open>C1: An allowed deletion has passed every PodProtector that protects the pod. When the webhook runs
  without \<open>--dry-run\<close>, over an informer in any reachable state, and answers a review whose request does not ask for a
  dry run with \<open>allowed\<close>, the pod was terminating or not ready, or the informer was synced and a list of PodProtectors
  was asked, each once, and each let the pod pass. The list has every PodProtector in the namespace of the pod that a
  current source holds and whose selector selects the pod, and only PodProtectors that count the pod, by their
  aggregation selector, which is the selector if unspecified. It holds for PodProtectors whose aggregation selector
  selects a superset of the selector, as documented, with the operators of Kubernetes and no requirement or value repeated.\<close>

theorem allowed_by_every_protector:
  assumes "HandleReview nf dec clients (informer_api nf' srt state api) False unmarshal (Inr body) cellId w
      = Some (Review uid True rej audit, w')"
    and "unmarshal body = Inr req" "informer_reach srt state evs" "slice_sorter srt" "valid_events evs state"
    and "\<forall>intrp. interpretRequest dec (cell_client clients cellId) req = Inr (Some intrp) \<longrightarrow>
      \<not> PrefersDryRun intrp \<and> map_ok (Labels (PodMeta (subject_pod intrp)))"
  shows "\<exists>intrp pod. interpretRequest dec (cell_client clients cellId) req = Inr (Some intrp) \<and> pod = PodMeta (subject_pod intrp)
    \<and> (IsAlreadyTerminating intrp \<or> DurationSinceReady (clkNow api) intrp = None
       \<or> (\<exists>t keys. DurationSinceReady (clkNow api) intrp = Some t \<and> HasSynced state \<and> distinct keys
            \<and> (\<forall>name n ppr. name \<in> fst ` set (deref_sources state) \<and> current_pprs (evs name) (Namespace pod, n) = Some ppr
                 \<and> selects (Selector (Spec ppr)) (map_of (Labels pod)) \<longrightarrow> source_key state name (Namespace pod, n) \<in> set keys)
            \<and> set keys \<subseteq> {source_key state name (Namespace pod, n) | name n. \<exists>ppr. name \<in> fst ` set (deref_sources state)
                 \<and> current_pprs (evs name) (Namespace pod, n) = Some ppr \<and> selects (GetAggregationSelector ppr) (map_of (Labels pod))}
            \<and> all_pass (informer_api nf' srt state api) intrp t cellId keys w w'))"
proof -
  let ?api = "informer_api nf' srt state api"
  have api: "clkNow ?api = clkNow api" "informerHasSynced ?api = HasSynced state"
    "\<And>ns labels. informerQuery ?api ns labels = (case informer_Query srt ns labels state of Returned (keys, _) \<Rightarrow> keys | _ \<Rightarrow> [])"
    by (simp_all add: informer_api_def)
  obtain intrp where int: "interpretRequest dec (cell_client clients cellId) req = Inr (Some intrp)"
    and why: "IsAlreadyTerminating intrp \<or> DurationSinceReady (clkNow api) intrp = None
       \<or> (\<exists>t. DurationSinceReady (clkNow api) intrp = Some t \<and> HasSynced state
            \<and> all_pass ?api intrp t cellId (informerQuery ?api (Namespace (PodMeta (subject_pod intrp))) (Labels (PodMeta (subject_pod intrp)))) w w')"
    using HandleReview_reasons[OF assms(1,2)] assms(6) api(1,2) by metis
  let ?pod = "PodMeta (subject_pod intrp)"
  have "map_ok (Labels ?pod)" using assms(6) int by blast
  from informer_Query_pprs[OF assms(3,4) this assms(5), of "Namespace ?pod"] obtain keys where
    keys: "informer_Query srt (Namespace ?pod) (Labels ?pod) state = Returned (keys, state)" "distinct keys"
      "set keys = {source_key state name (Namespace ?pod, n) | name n. \<exists>ppr. name \<in> fst ` set (deref_sources state)
         \<and> current_pprs (evs name) (Namespace ?pod, n) = Some ppr \<and> selects (GetAggregationSelector ppr) (map_of (Labels ?pod))}"
    by blast
  have protects: "source_key state name (Namespace ?pod, n) \<in> set keys"
    if "name \<in> fst ` set (deref_sources state)" "current_pprs (evs name) (Namespace ?pod, n) = Some ppr"
      "selects (Selector (Spec ppr)) (map_of (Labels ?pod))" for name n ppr
    using current_pprs_valid[OF assms(5) that(1,2)] that unfolding keys(3) valid_protector_def by blast
  have query: "informerQuery ?api (Namespace ?pod) (Labels ?pod) = keys" unfolding api(3) keys(1) by simp
  from why[unfolded query] show ?thesis
  proof (elim disjE exE conjE)
    fix t assume t: "DurationSinceReady (clkNow api) intrp = Some t" "HasSynced state" "all_pass ?api intrp t cellId keys w w'"
    show ?thesis
      by (intro exI[of _ intrp] exI[of _ ?pod] conjI disjI2 exI[of _ t] exI[of _ keys] allI impI int refl t keys(2) equalityD1[OF keys(3)])
        (elim conjE, rule protects)
  qed (use int in blast)+
qed

section \<open>The webhook of the all-in-one program waits for the aggregator\<close>

text \<open>C23: In the all-in-one program the webhook depends on the election of the aggregator. As long as
  an enabled elector of the aggregator has not acquired its lease, the one informer of the program has no
  source, and every deletion of a ready pod is answered with the error that the informer is not
  synced.\<close>

theorem allinone_webhook_waits:
  assumes "resolve_process 8 AllInOneProcess = Ok cs" "c \<in> set cs" "nc_name c = indexed_informer"
    and "elect_reachable True scopeCancels (electors AggregatorElector)"
    and "run (electors AggregatorElector) \<in> {RunNotCalled, Campaigning}"
    and "watch_goroutine (informer_elector electors (Comp c)) ctxDone updates (newInformerState ident) hasStarted (state :: 'h informerState)"
    and "interpretRequest dec (cell_client clients cellId) req = Inr (Some intrp)"
    and "\<not> IsAlreadyTerminating intrp" "DurationSinceReady (clkNow api) intrp = Some t"
  shows "\<not> HasSynced state \<and> Handle nf dec clients (informer_api nf' srt state api) req cellId audit w =
    Some (errHandleResult (TagErrorf ''InformerNotSynced'' ''PodProtector informer is not synced yet''), False, audit, w)"
proof -
  have "Comp c = IndexedInformer (Some AggregatorElector)"
    using informer_instance[of AllInOneProcess] assms(1-3) by auto
  then have dep: "informer_elector electors (Comp c) = Some (electors AggregatorElector)" by simp
  have "\<not> Await (electors AggregatorElector) ctxDone AwaitContext"
    using Await_leads[OF assms(4)] assms(5) by auto
  with assms(6)[unfolded dep] have "state = newInformerState ident" by cases auto
  then have "\<not> HasSynced state" by (simp add: HasSynced_def newInformerState_def)
  then show ?thesis using assms(7-9) by (simp add: Handle_def Let_def informer_api_def)
qed

section \<open>Witnesses\<close>

definition synced_informer :: "nat informerState" where
  "synced_informer = report_synced ''b'' (report_synced ''a'' sample_informer)"

abbreviation no_error :: "go_error \<Rightarrow> bool" where "no_error \<equiv> \<lambda>_. False"

abbreviation synced_api :: "nat Api" where
  "synced_api \<equiv> informer_api no_error insertion_sort synced_informer sample_api"

lemma synced_informer_reach:
  "informer_reach insertion_sort synced_informer ((\<lambda>_. [])(''a'' := [(sample_ppr 3 [], True)]))"
  unfolding synced_informer_def by (intro informer_reach.synced sample_informer_reach)

lemma synced_review:
  "HandleReview no_error sample_decoder (\<lambda>_. Inr (\<lambda>_ _. Inr (sample_pod 0))) synced_api False (\<lambda>_. Inr (Some sample_review))
     (Inr ''body'') ''c1'' 0 = Some (Review ''r1'' True None [], 1)"
  by code_simp

text \<open>The theorem at a pod that one PodProtector of the first of two sources selects.\<close>

theorem allowed_by_every_protector_witness:
  "HasSynced synced_informer \<and> (\<exists>keys. distinct keys
     \<and> all_pass synced_api (interpretedPodRequest (sample_pod 1000000000)) 8000000000 ''c1'' keys 0 1)"
proof -
  have srt: "slice_sorter (insertion_sort :: Matchable sorter)" ..
  have labels: "map_ok (Labels (PodMeta (subject_pod (interpretedPodRequest (sample_pod 1000000000)))))" by (simp add: sample_pod_def)
  have clk: "clkNow sample_api = 9000000000" by (simp add: sample_api_def)
  show ?thesis
    using allowed_by_every_protector[OF synced_review refl synced_informer_reach srt sample_valid] labels sample_pod_facts
    unfolding clk sample_interpreted by fastforce
qed

text \<open>The theorem at a program whose elector has not been started.\<close>

theorem allinone_webhook_waits_witness:
  "Handle no_error sample_decoder (\<lambda>_. Inr (\<lambda>_ _. Inr (sample_pod 0))) (informer_api no_error insertion_sort (newInformerState False :: nat informerState) sample_api)
     (Some sample_review) ''c1'' [] 0
   = Some (errHandleResult (TagErrorf ''InformerNotSynced'' ''PodProtector informer is not synced yet''), False, [], 0)"
proof -
  let ?electors = "\<lambda>_. initElector True"
  obtain cs c where cs: "resolve_process 8 AllInOneProcess = Ok cs" "c \<in> set cs" "nc_name c = indexed_informer"
    "Comp c = IndexedInformer (Some AggregatorElector)"
    using informer_instance[of AllInOneProcess] by auto
  have el: "elect_reachable True True (?electors AggregatorElector)" by (rule elect_reachable.initial)
  have campaign: "run (?electors AggregatorElector) \<in> {RunNotCalled, Campaigning}" by (simp add: initElector_def)
  have waiting: "watch_goroutine (informer_elector ?electors (Comp c)) False [] (newInformerState False) False (newInformerState False :: nat informerState)"
    unfolding cs(4) by (simp add: watch_goroutine.waiting)
  have ready: "DurationSinceReady (clkNow sample_api) (interpretedPodRequest (sample_pod 1000000000)) = Some 8000000000"
    using sample_pod_facts(3) by (simp add: sample_api_def)
  show ?thesis
    using allinone_webhook_waits[OF cs(1-3) el campaign waiting sample_interpreted sample_pod_facts(2) ready] by (rule conjunct2)
qed

end
