(* ===== verification/Spec2Isabelle.thy ===== *)
theory Spec2Isabelle
  imports PprUtil PoolAdapter Admissions FusedRc RetryBatch Webhook SetIndex AggregatorEvents Monitor GeneratorCorrect PprInformer Worker
    StartUp Mux Flags ComponentImpl Election UpdateTrigger Observers Metrics KubeEvents
    Clients Informers SupersetQuery UniqueCounter SourceWatch Wiring ProgramFlags EndToEnd
begin

text \<open>
  A verification library for Podseidon, the system under \<open>src/\<close> that protects pods of a
  multi-cluster application from being deleted when too few of them are available.

  \<^bold>\<open>The program.\<close> A \<open>PodProtector\<close> object in the core cluster says how many pods of an
  application must be available. The \<^emph>\<open>generator\<close> derives these objects from Deployments and holds
  finalizers on both. The \<^emph>\<open>aggregator\<close> of each cell (worker cluster) watches the pods, counts
  those that a PodProtector selects, and writes the counts into the status of the object, in the entry
  of its cell. The \<^emph>\<open>webhook\<close> intercepts the deletion of a pod in a cell: it finds the
  PodProtectors that select the pod and asks a retry pool to admit the disruption, which happens in
  batches, one goroutine per PodProtector, each batch reading the object, deciding by the quota and
  recording a bucket per admitted pod in the admission history of the status. The aggregator clears a
  bucket when its informer has seen events after it. All processes are built from components with a
  common life cycle, resolved by name from what the main functions list.

  \<^bold>\<open>Shared values.\<close> \<open>Prelude\<close> has the Go run time (integers with wrap-around, instants,
  \<open>sort.Slice\<close>, maps as lists of pairs in the order a range loop visits them) and its
  conventions: \<open>None\<close> is a panic, \<open>Inl\<close> a Go error. \<open>Slices\<close>, \<open>GoOptional\<close>,
  \<open>Errors\<close>, \<open>Iter\<close> and \<open>UtilHelpers\<close> are \<open>util/util\<close>, \<open>util/optional\<close>,
  \<open>util/errors\<close>, \<open>util/iter\<close> and \<open>util/haschange\<close>; \<open>Apis\<close> are the API types and
  the history configuration.

  \<^bold>\<open>Admission.\<close> \<open>PodStatus\<close> (\<open>util/pod\<close>) and \<open>Quota\<close>
  (\<open>webhook/handler/disruptionquota\<close>) decide which pods of a batch may go; \<open>PprUtil\<close>
  (\<open>util/podprotector/podprotector.go\<close>) compacts histories and computes the summary that the quota
  reads. \<open>RetryMessages\<close> and \<open>PoolAdapter\<close> (\<open>webhook/handler/pool_adapter.go\<close>) are one
  execution of a batch, \<open>RetryBatch\<close> and \<open>FusedRc\<close> (\<open>util/retrybatch\<close>) the loop that
  runs batches and the life of its goroutine, \<open>Webhook\<close> (\<open>webhook/handler\<close>,
  \<open>webhook/server\<close>) everything from the request to the response. \<open>Admissions\<close> has the executions of all webhooks
  for one PodProtector over one API server, in any order and on any stored version. The lemmas show that the decisions of a
  batch, and all executions together between two writes of others, admit no more pods under the availability criterion than
  the recorded status leaves above the minimum (below the threshold of compaction and within 32 bits; pods
  disrupted under the other criteria have counters of their own), that verdicts are only reported when the status they are based on is
  stored, that each request gets one answer, that at most one goroutine runs per key, and when a deletion is allowed.

  \<^bold>\<open>Finding objects.\<close> \<open>LabelCanonical\<close>, \<open>SetTrie\<close>, \<open>LabelIndexSpec\<close>,
  \<open>SelectorIndex\<close> and \<open>SetIndex\<close> are \<open>util/labelindex\<close>: the locale \<open>label_index\<close>
  is the interface, with the meaning of a label selector as its specification; both indices and their
  namespaced form are interpretations of it, so that what the webhook and the aggregator find is what
  the selectors select, for selectors with the operators of Kubernetes and no requirement or value repeated (the code
  fails for others, which is shown). \<open>SupersetQuery\<close> is the query of the trie for supersets. \<open>PprInformer\<close>
  and \<open>SourceWatch\<close> (\<open>util/podprotector\<close>) are the informer over a changing list of clusters and the
  goroutine that follows this list, when it is elected. \<open>EndToEnd\<close> puts the webhook over this informer:
  outside dry-run, an allowed deletion has passed every PodProtector whose selector selects the pod. The index holds the
  aggregation selectors, which are documented to select a superset.

  \<^bold>\<open>Aggregation.\<close> \<open>SyncTime\<close>, \<open>Aggregator\<close>, \<open>AggregatorHistory\<close>,
  \<open>AggregatorReconcile\<close> and \<open>AggregatorEvents\<close> are \<open>aggregator/synctime\<close> and
  \<open>aggregator/aggregator\<close>: pod events, the counts, which history is cleared, and that the
  reconciliation converges; \<open>UpdateTrigger\<close> is \<open>aggregator/updatetrigger\<close>. \<open>Worker\<close>
  (\<open>util/worker\<close>) is the loop that all controllers run.

  \<^bold>\<open>Generation.\<close> \<open>Generator\<close>, \<open>GeneratorCorrect\<close> and \<open>Monitor\<close> are
  \<open>generator\<close>: the calls to the API server in order, so that finalizers bracket the life of a
  PodProtector, and the counters of the monitor.

  \<^bold>\<open>Processes.\<close> \<open>Component\<close> (\<open>util/component/interface.go\<close>) resolves, orders and
  trims components; \<open>ComponentResolve\<close>, \<open>ComponentOrder\<close> and \<open>ComponentTrim\<close> prove it
  correct against reachability; \<open>StartUp\<close> (\<open>util/cmd\<close>) runs a process; \<open>Mux\<close>
  (\<open>mux.go\<close>) selects implementations by \<open>Flags\<close> (\<open>util/flag\<close>); \<open>ComponentImpl\<close>
  (\<open>declare.go\<close>) is a single component with its start phase and health checks; \<open>Election\<close>
  (\<open>util/kube/leaderelection.go\<close>, \<open>util/shutdown\<close>) is leader election under all interleavings;
  \<open>KubeEvents\<close> (\<open>util/kube/util.go\<close>) converts informer callbacks; \<open>Observers\<close> and
  \<open>Metrics\<close> (\<open>util/o11y\<close>) collect observers and tags, with a typing of the structs from which
  reflection reads tags (the panics of \<open>String\<close> methods and of collectors included), and \<open>UniqueCounter\<close> (\<open>util/o11y/metrics/unique\<close>) counts distinct values.
  \<open>Clients\<close> builds the clients of
  the clusters and cells from the flags (\<open>util/kube/client.go\<close>, \<open>webhook/cellclient\<close>) and has
  the life cycle of the HTTP servers (\<open>util/http\<close>); \<open>Informers\<close> is the shared informer factory
  (\<open>client/informers/externalversions/factory.go\<close>) and its start with the election
  (\<open>util/kube/informers.go\<close>): one informer per type, run once, only by the leader, and none after a
  shutdown. \<open>Wiring\<close> is what all components of the four programs request and what each
  \<open>main.go\<close> lists: every program resolves, and \<open>ComponentInstance\<close> determines which of several
  declarations of one name becomes the instance, from which \<open>EndToEnd\<close> derives that the webhook of the
  all-in-one program waits for the election of the aggregator. \<open>ProgramFlags\<close> has the flags of all
  components with their defaults; their names and the default ports are distinct in every program.

  \<^bold>\<open>Parameters.\<close> Code outside of the repository is an argument with its documented behaviour as
  named hypotheses: the API server and its conflicts, the listers and informers of client-go, its work
  queue (\<open>workqueue_laws\<close>) and its elector, its optimistic concurrency (\<open>optimistic_server\<close>), the vectors of Prometheus, \<open>sort.Slice\<close> (the locale \<open>slice_sorter\<close>,
  interpreted by Go's insertion sort), the parsing of JSON, label selectors, flags and instants, and the
  clock. Concurrency appears as sequences of events or as step relations over the atomic operations,
  with the order in which goroutines run left open.

  \<^bold>\<open>Bounds.\<close> Loops are recursive over the data they visit, or total by a measure. Only the
  recursion over component requests and the depth-first search have fuel, since a declaration may refer
  to any other: the height of the rank function that excludes cycles is enough for both, and the loop
  over pending components takes one round more than there are components; the theorem on
  \<open>ResolveList\<close> proves that this fuel gives a result. The number of rounds of trimming needs no
  fuel, as each removes a component. The four programs have rank 8, which is the fuel
  of \<open>Wiring.resolve_process\<close>. A worker loops until its queue is shut down: \<open>Worker.runWorker\<close> takes
  the number of items it may process and returns the state at its end, or \<open>None\<close> when it is still
  waiting or working then; what is shown of it holds for every number. Integers keep their width where the code counts or converts; the
  counters of component requests are unbounded.

  \<^bold>\<open>Not modelled.\<close> The listeners and TLS of the HTTP servers, the broadcaster of the event
  recorder, the loggers, the collectors of metrics and the sketch that estimates distinct values only
  pass data to libraries. The typed handles through which components reach each other, the jitter of
  requeue times (floating point), and generated code (deep copies, client sets) are not modelled, nor are
  the end-to-end tests. The handling of one review sees one state of the informer.
\<close>

end
